(* ===== verification/Prelude.thy ===== *)
theory Prelude
  imports Main "HOL-Library.Word" "HOL-Library.Monad_Syntax"
begin

text \<open>
  Shared vocabulary of the development: the C integer types as words, bounds-checked access to
  C arrays, the bounded \<open>for\<close> loop over an explicit state, little-endian 32-bit values, and
  the two collections of facts the component proofs are run with.

  A kernel function returns \<open>'a option\<close>: \<open>None\<close> stands for an access the C program must not
  make (outside an array, or to an address the page tables do not map), so the error returns of
  the source (\<open>-1\<close>) stay ordinary values and a proof that a function yields \<open>Some\<close> is a proof
  that it makes no such access.
\<close>

unbundle bit_operations_syntax

type_synonym u8 = "8 word"
type_synonym u16 = "16 word"
type_synonym u32 = "32 word"

named_theorems arr_facts "reading and writing bounds-checked arrays"
named_theorems layout "sizes, offsets and constants of the C headers"

subsection \<open>Bounds-checked arrays\<close>

definition arr_get :: "'a list \<Rightarrow> int \<Rightarrow> 'a option" where
  "arr_get xs i = (if 0 \<le> i \<and> i < int (length xs) then Some (xs ! nat i) else None)"

definition arr_set :: "'a list \<Rightarrow> int \<Rightarrow> 'a \<Rightarrow> 'a list option" where
  "arr_set xs i x = (if 0 \<le> i \<and> i < int (length xs) then Some (xs[nat i := x]) else None)"

lemma arr_get_nat [arr_facts]: "i < length xs \<Longrightarrow> arr_get xs (int i) = Some (xs ! i)"
  by (simp add: arr_get_def)

lemma arr_set_nat [arr_facts]: "i < length xs \<Longrightarrow> arr_set xs (int i) x = Some (xs[i := x])"
  by (simp add: arr_set_def)

lemma arr_get_in [arr_facts]:
  "0 \<le> i \<Longrightarrow> i < int (length xs) \<Longrightarrow> arr_get xs i = Some (xs ! nat i)"
  by (simp add: arr_get_def)

lemma arr_set_in [arr_facts]:
  "0 \<le> i \<Longrightarrow> i < int (length xs) \<Longrightarrow> arr_set xs i x = Some (xs[nat i := x])"
  by (simp add: arr_set_def)

lemma arr_get_SomeD: "arr_get xs i = Some x \<Longrightarrow> 0 \<le> i \<and> i < int (length xs) \<and> x = xs ! nat i"
  by (auto simp: arr_get_def split: if_splits)

lemma arr_set_SomeD:
  "arr_set xs i x = Some ys \<Longrightarrow> 0 \<le> i \<and> i < int (length xs) \<and> ys = xs[nat i := x]"
  by (auto simp: arr_set_def split: if_splits)

lemma arr_get_outside: "i < 0 \<or> int (length xs) \<le> i \<Longrightarrow> arr_get xs i = None"
  by (auto simp: arr_get_def)

lemma arr_set_outside: "i < 0 \<or> int (length xs) \<le> i \<Longrightarrow> arr_set xs i x = None"
  by (auto simp: arr_set_def)

subsection \<open>Counted loops\<close>

text \<open>\<open>for (i = a; i < b; i++) body\<close> over the list of the indices it visits.\<close>

primrec for_each :: "'i list \<Rightarrow> ('i \<Rightarrow> 's \<Rightarrow> 's option) \<Rightarrow> 's \<Rightarrow> 's option" where
  "for_each [] f s = Some s"
| "for_each (i # is) f s = do { s \<leftarrow> f i s; for_each is f s }"

lemma for_each_append:
  "for_each (xs @ ys) f s = do { s \<leftarrow> for_each xs f s; for_each ys f s }"
  by (induction xs arbitrary: s) (auto simp: bind_eq_None_conv split: Option.bind_split)

text \<open>A loop that keeps an invariant indexed by its counter ends with it at the bound.\<close>

lemma for_each_upt:
  assumes "a \<le> b" and "P a s"
    and step: "\<And>i s. a \<le> i \<Longrightarrow> i < b \<Longrightarrow> P i s \<Longrightarrow> \<exists>s'. f i s = Some s' \<and> P (Suc i) s'"
  shows "\<exists>s'. for_each [a..<b] f s = Some s' \<and> P b s'"
  using assms
proof (induction "b - a" arbitrary: a s)
  case 0
  then show ?case by simp
next
  case (Suc n)
  then have "a < b" by simp
  with Suc.prems obtain s1 where s1: "f a s = Some s1" "P (Suc a) s1" by blast
  have "\<exists>s'. for_each [Suc a..<b] f s1 = Some s' \<and> P b s'"
    using Suc.hyps(2) \<open>a < b\<close> s1(2) Suc.prems(3) by (intro Suc.hyps(1)) auto
  with \<open>a < b\<close> s1(1) show ?case by (simp add: upt_rec)
qed

lemma for_each_invariant:
  assumes "P s" and "\<And>i s. i \<in> set is \<Longrightarrow> P s \<Longrightarrow> \<exists>s'. f i s = Some s' \<and> P s'"
  shows "\<exists>s'. for_each is f s = Some s' \<and> P s'"
  using assms
proof (induction "is" arbitrary: s)
  case Nil
  then show ?case by simp
next
  case (Cons i "is")
  then obtain s1 where "f i s = Some s1" "P s1" by fastforce
  with Cons show ?case by fastforce
qed

text \<open>A loop of total assignments is the corresponding fold.\<close>

lemma for_each_total:
  "(\<And>i s. i \<in> set is \<Longrightarrow> f i s = Some (g i s)) \<Longrightarrow> for_each is f s = Some (fold g is s)"
  by (induction "is" arbitrary: s) auto

text \<open>Writing every cell of an array, one per iteration.\<close>

lemma fold_update_upt:
  assumes "n \<le> length xs"
  shows "fold (\<lambda>i ys. ys[i := g i]) [0..<n] xs = map g [0..<n] @ drop n xs"
  using assms
proof (induction n)
  case 0
  then show ?case by simp
next
  case (Suc n)
  then show ?case
    by (simp add: list_update_append Cons_nth_drop_Suc [symmetric])
qed

subsection \<open>First free slot\<close>

text \<open>A loop that looks for the first index with a property; the test may fault.\<close>

primrec find_slot :: "('i \<Rightarrow> bool option) \<Rightarrow> 'i list \<Rightarrow> 'i option option" where
  "find_slot test [] = Some None"
| "find_slot test (i # is) = do { b \<leftarrow> test i; if b then Some (Some i) else find_slot test is }"

lemma find_slot_total: "(\<And>i. i \<in> set is \<Longrightarrow> test i = Some (P i)) \<Longrightarrow> find_slot test is = Some (find P is)"
  by (induction "is") auto

lemma find_upt_Some:
  "find P [a..<b] = Some i \<longleftrightarrow> a \<le> i \<and> i < b \<and> P i \<and> (\<forall>j. a \<le> j \<and> j < i \<longrightarrow> \<not> P j)"
proof (induction "b - a" arbitrary: a)
  case 0
  then show ?case by simp
next
  case (Suc n)
  then have "a < b" by simp
  then have "[a..<b] = a # [Suc a..<b]" by (simp add: upt_rec)
  moreover have "find P [Suc a..<b] = Some i \<longleftrightarrow> Suc a \<le> i \<and> i < b \<and> P i \<and> (\<forall>j. Suc a \<le> j \<and> j < i \<longrightarrow> \<not> P j)"
    using Suc by simp
  moreover have "Suc a \<le> i \<and> (\<forall>j. Suc a \<le> j \<and> j < i \<longrightarrow> \<not> P j) \<longleftrightarrow>
      a \<le> i \<and> (\<forall>j. a \<le> j \<and> j < i \<longrightarrow> \<not> P j)" if "\<not> P a" "P i"
    unfolding Suc_le_eq using that by (auto simp: le_less)
  ultimately show ?case using \<open>a < b\<close> by (cases "P a") (auto simp: le_eq_less_or_eq)
qed

text \<open>
  A table whose free slots a client fills, least free slot first: what a fill changes is the laws of
  the table, the rest follows.
\<close>

locale slot_table =
  fixes free :: "'t \<Rightarrow> nat \<Rightarrow> bool"
    and fill :: "nat \<Rightarrow> 'e \<Rightarrow> 't \<Rightarrow> 't"
    and wf :: "'t \<Rightarrow> bool"
    and lo :: nat and hi :: nat
  assumes fill_wf: "wf t \<Longrightarrow> wf (fill i e t)"
    and fill_free: "wf t \<Longrightarrow> lo \<le> i \<Longrightarrow> i < hi \<Longrightarrow> lo \<le> j \<Longrightarrow> j < hi \<Longrightarrow>
      free (fill i e t) j \<longleftrightarrow> free t j \<and> (j = i \<longrightarrow> free (fill i e t) i)"
    and fill_used: "wf t \<Longrightarrow> lo \<le> i \<Longrightarrow> i < hi \<Longrightarrow> \<not> free (fill i e t) i"
begin

definition alloc :: "'e \<Rightarrow> 't \<Rightarrow> (nat \<times> 't) option" where
  "alloc e t = map_option (\<lambda>i. (i, fill i e t)) (find (free t) [lo..<hi])"

definition free_slots :: "'t \<Rightarrow> nat set" where
  "free_slots t = {i \<in> {lo..<hi}. free t i}"

lemma alloc_least:
  assumes "wf t" and "alloc e t = Some (i, t')"
  shows "lo \<le> i" "i < hi" "free t i" "\<forall>j \<in> {lo..<i}. \<not> free t j" "t' = fill i e t" "wf t'"
  using assms fill_wf by (auto simp: alloc_def find_upt_Some)

lemma alloc_free_slots: "wf t \<Longrightarrow> alloc e t = Some (i, t') \<Longrightarrow> free_slots t' = free_slots t - {i} \<and> i \<in> free_slots t"
  using alloc_least [of t e i t'] fill_free [of t i _ e] fill_used [of t i e]
  by (auto simp: free_slots_def)

lemma alloc_None_iff: "alloc e t = None \<longleftrightarrow> free_slots t = {}"
  by (auto simp: alloc_def find_None_iff free_slots_def)

text \<open>Filling \<open>n\<close> more slots succeeds exactly while there are \<open>n\<close> free ones.\<close>

primrec fill_many :: "'e list \<Rightarrow> 't \<Rightarrow> (nat list \<times> 't) option" where
  "fill_many [] t = Some ([], t)"
| "fill_many (e # es) t =
     do { (i, t) \<leftarrow> alloc e t; (is, t) \<leftarrow> fill_many es t; Some (i # is, t) }"

lemma fill_many_iff: "wf t \<Longrightarrow> fill_many es t \<noteq> None \<longleftrightarrow> length es \<le> card (free_slots t)"
proof (induction es arbitrary: t)
  case Nil
  then show ?case by simp
next
  case (Cons e es)
  have fin: "finite (free_slots t)" by (simp add: free_slots_def)
  show ?case
  proof (cases "alloc e t")
    case None
    then show ?thesis using alloc_None_iff [of e t] by simp
  next
    case (Some r)
    obtain i t' where r: "r = (i, t')" by (cases r)
    have fs: "free_slots t' = free_slots t - {i}" "i \<in> free_slots t" "wf t'"
      using alloc_free_slots [OF Cons.prems] alloc_least(6) [OF Cons.prems] Some r by blast+
    then have "card (free_slots t) = Suc (card (free_slots t'))"
      using card_Suc_Diff1 [OF fin, of i] by simp
    moreover have "fill_many (e # es) t \<noteq> None \<longleftrightarrow> fill_many es t' \<noteq> None"
      by (cases "fill_many es t'") (auto simp: Some r)
    ultimately show ?thesis using Cons.IH [OF fs(3)] by simp
  qed
qed

end

subsection \<open>Spin loops\<close>

text \<open>
  \<open>while (test) {}\<close> on a variable that interrupt handlers change: before each new test the
  environment \<open>env\<close> makes its next step. \<open>env_run env k s\<close> is the state after \<open>k\<close> steps; the loop ends
  in the first of these states where the test fails, and never ends (\<open>None\<close>) when there is none.
\<close>

partial_function (option) spin ::
  "('s \<Rightarrow> bool option) \<Rightarrow> (nat \<Rightarrow> 's \<Rightarrow> 's option) \<Rightarrow> nat \<Rightarrow> 's \<Rightarrow> 's option" where
  "spin test env n s =
     do { b \<leftarrow> test s;
          if b then do { s \<leftarrow> env n s; spin test env (Suc n) s } else Some s }"

primrec env_run :: "(nat \<Rightarrow> 's \<Rightarrow> 's option) \<Rightarrow> nat \<Rightarrow> 's \<Rightarrow> 's option" where
  "env_run env 0 s = Some s"
| "env_run env (Suc n) s = do { s \<leftarrow> env_run env n s; env n s }"

lemma spin_from:
  assumes "env_run env k s = Some s'" and "test s' = Some False"
    and "\<And>i. i < k \<Longrightarrow> \<exists>t. env_run env i s = Some t \<and> test t = Some True"
    and "i \<le> k" and "env_run env i s = Some t"
  shows "spin test env i t = Some s'"
  using assms(4,5)
proof (induction "k - i" arbitrary: i t)
  case 0
  then have "t = s'" using assms(1) by simp
  then show ?case using assms(2) by (subst spin.simps) simp
next
  case (Suc n)
  then have i: "i < k" by simp
  then have t: "test t = Some True" using assms(3) [OF i] Suc.prems(2) by auto
  have "\<exists>u. env_run env (Suc i) s = Some u"
    using i assms(1) assms(3) [of "Suc i"] by (cases "Suc i = k") (auto simp del: env_run.simps)
  then obtain u where u: "env_run env (Suc i) s = Some u" "env i t = Some u"
    using Suc.prems(2) by auto
  have "spin test env (Suc i) u = Some s'"
    using Suc.hyps(1) [of "Suc i" u] Suc.hyps(2) i u(1) by simp
  then show ?case using t u(2) by (subst spin.simps) simp
qed

lemma spin_returns:
  assumes "env_run env k s = Some s'" and "test s' = Some False"
    and "\<And>i. i < k \<Longrightarrow> \<exists>t. env_run env i s = Some t \<and> test t = Some True"
  shows "spin test env 0 s = Some s'"
  by (rule spin_from [OF assms]) simp_all

subsection \<open>Little-endian words\<close>

lemma unat32_less: "unat (w :: u32) < 4294967296"
  using unsigned_less [of w, where 'a = nat] by simp

lemma unat8_less: "unat (w :: u8) < 256"
  using unsigned_less [of w, where 'a = nat] by simp

definition le32 :: "u8 \<Rightarrow> u8 \<Rightarrow> u8 \<Rightarrow> u8 \<Rightarrow> u32" where
  "le32 b0 b1 b2 b3 =
     word_of_nat (unat b0 + 2 ^ 8 * unat b1 + 2 ^ 16 * unat b2 + 2 ^ 24 * unat b3)"

definition le_bytes :: "u32 \<Rightarrow> u8 list" where
  "le_bytes w = [word_of_nat (unat w), word_of_nat (unat w div 2 ^ 8),
                 word_of_nat (unat w div 2 ^ 16), word_of_nat (unat w div 2 ^ 24)]"

lemma length_le_bytes [simp]: "length (le_bytes w) = 4"
  by (simp add: le_bytes_def)

lemma le32_le_bytes:
  "le32 (le_bytes w ! 0) (le_bytes w ! 1) (le_bytes w ! 2) (le_bytes w ! 3) = w"
proof -
  have w: "unat w < 2 ^ 32" using unsigned_less [of w] by simp
  let ?v = "unat w"
  have "?v div 16777216 mod 256 = ?v div 16777216"
    using w by (simp add: less_mult_imp_div_less)
  moreover have "256 * (?v div 16777216) + ?v div 65536 mod 256 = ?v div 65536"
    using mult_div_mod_eq [of "256" "?v div 65536"] by (simp add: div_mult2_eq [symmetric])
  moreover have "256 * (?v div 65536) + ?v div 256 mod 256 = ?v div 256"
    using mult_div_mod_eq [of "256" "?v div 256"] by (simp add: div_mult2_eq [symmetric])
  moreover have "256 * (?v div 256) + ?v mod 256 = ?v"
    by (rule mult_div_mod_eq)
  ultimately have sum: "?v mod 256 + 256 * (?v div 256 mod 256)
      + 65536 * (?v div 65536 mod 256) + 16777216 * (?v div 16777216 mod 256) = ?v" (is "?s = _")
    by linarith
  have l: "unat (ucast w :: u8) = ?v mod 256"
    by (simp add: unsigned_ucast_eq take_bit_eq_mod)
  have low: "word_of_nat (?v mod 256) = (ucast (ucast w :: u8) :: u32)"
    by (simp flip: l)
  have "le32 (le_bytes w ! 0) (le_bytes w ! 1) (le_bytes w ! 2) (le_bytes w ! 3)
      = word_of_nat ?s"
    by (simp add: le32_def le_bytes_def unat_of_nat take_bit_eq_mod low)
  then show ?thesis by (simp only: sum) simp
qed

subsection \<open>Division\<close>

lemma int_mod_eq: "int (n mod k) = int n - int k * int (n div k)"
  by (metis add_diff_cancel_left' mult_div_mod_eq of_nat_add of_nat_mult)

lemma div_mod_eqI:
  assumes "r = int n - int k * int q" and "0 \<le> r" and "r < int k"
  shows "n div k = q" and "int (n mod k) = r"
proof -
  have n: "n = k * q + nat r" and r: "nat r < k" using assms by (auto simp flip: of_nat_mult)
  show "n div k = q" using n r by simp
  then show "int (n mod k) = r" using assms(1) by (simp add: int_mod_eq)
qed

subsection \<open>Evaluation\<close>

lemma unfold_replicate: "replicate (numeral k) x = x # replicate (pred_numeral k) x"
  by (simp add: numeral_eq_Suc)

subsection \<open>Characters\<close>

definition bytes_of :: "string \<Rightarrow> u8 list" where
  "bytes_of cs = map of_char cs"

abbreviation newline :: string where "newline \<equiv> [CHR 0x0A]"

lemma length_bytes_of [simp]: "length (bytes_of cs) = length cs"
  by (simp add: bytes_of_def)

end
