(* ===== verification/Memory.thy ===== *)
theory Memory
  imports Prelude
begin

text \<open>
  Byte-addressed memory as the C pointers of the kernel see it. A pointer is a natural number;
  every access goes through an address translation (the page tables of theory Paging), and an
  unmapped address is a fault, \<open>None\<close>. Library routines that take pointers (\<open>strlen\<close>,
  \<open>strncpy\<close>, \<open>itoa\<close>, \<open>read_data\<close>) are written over two access functions, \<open>rd\<close> and
  \<open>wr\<close>, because the code calls them both on memory and on arrays of the kernel stack; the
  locale \<open>byte_store\<close> holds the two laws they need and is interpreted on both.
\<close>

type_synonym mem = "nat \<Rightarrow> u8"
type_synonym xlat = "nat \<Rightarrow> nat option"
type_synonym view = "nat \<Rightarrow> u8 option"

definition ld :: "xlat \<Rightarrow> mem \<Rightarrow> nat \<Rightarrow> u8 option" where
  "ld tr m a = (case tr a of None \<Rightarrow> None | Some p \<Rightarrow> Some (m p))"

definition st :: "xlat \<Rightarrow> mem \<Rightarrow> nat \<Rightarrow> u8 \<Rightarrow> mem option" where
  "st tr m a b = (case tr a of None \<Rightarrow> None | Some p \<Rightarrow> Some (m(p := b)))"

text \<open>An array of the kernel stack: index \<open>i\<close> of the C array is element \<open>i\<close> of the list.\<close>

definition lrd :: "u8 list \<Rightarrow> nat \<Rightarrow> u8 option" where
  "lrd xs i = (if i < length xs then Some (xs ! i) else None)"

definition lwr :: "u8 list \<Rightarrow> nat \<Rightarrow> u8 \<Rightarrow> u8 list option" where
  "lwr xs i b = (if i < length xs then Some (xs[i := b]) else None)"

subsection \<open>Multi-byte reads\<close>

definition rd32 :: "view \<Rightarrow> nat \<Rightarrow> u32 option" where
  "rd32 v a = do { b0 \<leftarrow> v a; b1 \<leftarrow> v (a + 1); b2 \<leftarrow> v (a + 2); b3 \<leftarrow> v (a + 3);
                   Some (le32 b0 b1 b2 b3) }"

primrec rd_bytes :: "view \<Rightarrow> nat \<Rightarrow> nat \<Rightarrow> u8 list option" where
  "rd_bytes v a 0 = Some []"
| "rd_bytes v a (Suc n) = do { b \<leftarrow> v a; bs \<leftarrow> rd_bytes v (Suc a) n; Some (b # bs) }"

lemma rd_bytes_numeral [simp]:
  "rd_bytes v a (numeral k) =
     do { b \<leftarrow> v a; bs \<leftarrow> rd_bytes v (Suc a) (pred_numeral k); Some (b # bs) }"
  by (simp add: numeral_eq_Suc)

lemma length_rd_bytes: "rd_bytes v a n = Some bs \<Longrightarrow> length bs = n"
  by (induction n arbitrary: a bs) (auto simp: bind_eq_Some_conv)

lemma rd_bytes_cong: "(\<And>i. i < n \<Longrightarrow> v (a + i) = w (a + i)) \<Longrightarrow> rd_bytes v a n = rd_bytes w a n"
proof (induction n arbitrary: a)
  case 0
  then show ?case by simp
next
  case (Suc n)
  have "v a = w a" using Suc.prems [of 0] by simp
  moreover have "rd_bytes v (Suc a) n = rd_bytes w (Suc a) n"
    using Suc.prems [of "Suc _"] by (intro Suc.IH) simp
  ultimately show ?case by simp
qed

lemma rd32_cong:
  assumes "\<And>i. i < 4 \<Longrightarrow> v (a + i) = w (a + i)"
  shows "rd32 v a = rd32 w a"
  using assms [of 0] assms [of 1] assms [of 2] assms [of 3] by (simp add: rd32_def)

text \<open>What a smaller view reads, a larger one reads too.\<close>

lemma rd_mono: "v \<subseteq>\<^sub>m w \<Longrightarrow> v a = Some b \<Longrightarrow> w a = Some b"
  by (auto simp: map_le_def dom_def)

lemma rd32_mono: "v \<subseteq>\<^sub>m w \<Longrightarrow> rd32 v a = Some x \<Longrightarrow> rd32 w a = Some x"
proof -
  assume le: "v \<subseteq>\<^sub>m w" and "rd32 v a = Some x"
  then obtain b0 b1 b2 b3 where "v a = Some b0" "v (a + 1) = Some b1" "v (a + 2) = Some b2"
    "v (a + 3) = Some b3" "x = le32 b0 b1 b2 b3"
    by (auto simp: rd32_def bind_eq_Some_conv)
  then have "w a = Some b0" "w (a + 1) = Some b1" "w (a + 2) = Some b2"
    "w (a + 3) = Some b3" "x = le32 b0 b1 b2 b3"
    by (simp_all only: rd_mono [OF le])
  then show ?thesis by (simp add: rd32_def)
qed

subsection \<open>The interface of a byte store\<close>

primrec put_bytes :: "('m \<Rightarrow> nat \<Rightarrow> u8 \<Rightarrow> 'm option) \<Rightarrow> nat \<Rightarrow> u8 list \<Rightarrow> 'm \<Rightarrow> 'm option" where
  "put_bytes wr a [] m = Some m"
| "put_bytes wr a (b # bs) m = do { m \<leftarrow> wr m a b; put_bytes wr (Suc a) bs m }"

lemma put_bytes_append:
  "put_bytes wr a (xs @ ys) m =
     do { m \<leftarrow> put_bytes wr a xs m; put_bytes wr (a + length xs) ys m }"
  by (induction xs arbitrary: a m) (auto split: Option.bind_split)

locale byte_store =
  fixes rd :: "'m \<Rightarrow> nat \<Rightarrow> u8 option"
    and wr :: "'m \<Rightarrow> nat \<Rightarrow> u8 \<Rightarrow> 'm option"
  assumes wr_defined: "rd m i = Some c \<Longrightarrow> \<exists>m'. wr m i b = Some m'"
    and rd_wr: "wr m i b = Some m' \<Longrightarrow> rd m' j = (if j = i then Some b else rd m j)"
begin

lemma rd_wr_same: "wr m i b = Some m' \<Longrightarrow> rd m' i = Some b"
  by (simp add: rd_wr)

lemma rd_wr_other: "wr m i b = Some m' \<Longrightarrow> j \<noteq> i \<Longrightarrow> rd m' j = rd m j"
  by (simp add: rd_wr)

lemma put_bytes_defined:
  "(\<And>i. i < length bs \<Longrightarrow> rd m (a + i) \<noteq> None) \<Longrightarrow> \<exists>m'. put_bytes wr a bs m = Some m'"
proof (induction bs arbitrary: a m)
  case Nil
  then show ?case by simp
next
  case (Cons b bs)
  from Cons.prems [of 0] obtain m1 where m1: "wr m a b = Some m1"
    using wr_defined by fastforce
  have "rd m1 (Suc a + i) \<noteq> None" if "i < length bs" for i
    using Cons.prems [of "Suc i"] that m1 by (simp add: rd_wr)
  then show ?case using Cons.IH m1 by simp
qed

lemma rd_put_bytes:
  "put_bytes wr a bs m = Some m' \<Longrightarrow>
     rd m' j = (if a \<le> j \<and> j < a + length bs then Some (bs ! (j - a)) else rd m j)"
proof (induction bs arbitrary: a m)
  case Nil
  then show ?case by auto
next
  case (Cons b bs)
  then obtain m1 where m1: "wr m a b = Some m1" and rest: "put_bytes wr (Suc a) bs m1 = Some m'"
    by (auto simp: bind_eq_Some_conv)
  show ?case
    using Cons.IH [OF rest] m1
    by (auto simp: rd_wr nth_Cons' Suc_diff_le not_less_eq_eq)
qed

end

interpretation arr: byte_store lrd lwr
  by unfold_locales (auto simp: lrd_def lwr_def split: if_splits)

lemma put_bytes_lwr:
  "a + length bs \<le> length xs \<Longrightarrow>
     put_bytes lwr a bs xs = Some (take a xs @ bs @ drop (a + length bs) xs)"
proof (induction bs arbitrary: a xs)
  case Nil
  then show ?case by simp
next
  case (Cons b bs)
  then have "put_bytes lwr (Suc a) bs (xs[a := b])
      = Some (take (Suc a) (xs[a := b]) @ bs @ drop (Suc a + length bs) (xs[a := b]))"
    by (intro Cons.IH) simp
  moreover have "lwr xs a b = Some (xs[a := b])" using Cons.prems by (simp add: lwr_def)
  ultimately show ?case using Cons.prems by (simp add: take_Suc_conv_app_nth)
qed

text \<open>Memory with paging off, and memory under any translation that maps a region injectively.\<close>

interpretation phys: byte_store "ld Some" "st Some"
  by unfold_locales (auto simp: ld_def st_def)

lemma byte_store_xlat:
  assumes "inj_on tr {a. tr a \<noteq> None}"
  shows "byte_store (ld tr) (st tr)"
  by unfold_locales
    (auto simp: ld_def st_def split: option.splits, metis (mono_tags, lifting) assms inj_on_def mem_Collect_eq option.distinct(1))

end
