(* ===== verification/Lib_String.thy ===== *)
theory Lib_String
  imports Memory
begin

text \<open>
  The string routines of \<^verbatim>\<open>student-distrib/lib.c\<close>: \<open>strlen\<close>, \<open>strncmp\<close>, \<open>strcpy\<close>
  and \<open>strncpy\<close>, each a loop over the access functions of theory Memory.
  \<open>cstr v xs\<close> says that the bytes from \<open>v\<close> spell the C string \<open>xs\<close>; the lemmas give each
  routine's result on C strings.
\<close>

subsection \<open>C strings\<close>

definition cstr :: "view \<Rightarrow> u8 list \<Rightarrow> bool" where
  "cstr v xs \<longleftrightarrow> (\<forall>i < length xs. v i = Some (xs ! i)) \<and> 0 \<notin> set xs \<and> v (length xs) = Some 0"

lemma cstr_char: "cstr v xs \<Longrightarrow> i < length xs \<Longrightarrow> v i = Some (xs ! i)"
  by (simp add: cstr_def)

lemma cstr_end: "cstr v xs \<Longrightarrow> v (length xs) = Some 0"
  by (simp add: cstr_def)

lemma cstr_nonzero: "cstr v xs \<Longrightarrow> i < length xs \<Longrightarrow> xs ! i \<noteq> 0"
  by (auto simp: cstr_def in_set_conv_nth)

text \<open>Inside the string and its terminator a view reads the list with a zero appended.\<close>

lemma cstr_get: "cstr v xs \<Longrightarrow> i \<le> length xs \<Longrightarrow> v i = Some ((xs @ [0]) ! i)"
  by (cases "i = length xs") (auto simp: cstr_def nth_append)

lemma cstr_array: "0 \<notin> set xs \<Longrightarrow> cstr (lrd (xs @ 0 # ys)) xs"
  by (simp add: cstr_def lrd_def nth_append)

lemma cstr_takeWhile: "0 \<in> set xs \<Longrightarrow> cstr (lrd xs) (takeWhile (\<lambda>c. c \<noteq> 0) xs)"
proof (induction xs)
  case (Cons x xs)
  then show ?case by (auto simp: cstr_def lrd_def nth_Cons split: nat.splits if_splits)
qed simp

lemma cstr_unique: "cstr v xs \<Longrightarrow> cstr v ys \<Longrightarrow> xs = ys"
proof -
  assume x: "cstr v xs" and y: "cstr v ys"
  have "length zs \<le> length ws" if "cstr v zs" "cstr v ws" for zs ws
  proof (rule ccontr)
    assume "\<not> length zs \<le> length ws"
    then have "zs ! length ws = 0"
      using cstr_end [OF that(2)] cstr_char [OF that(1), of "length ws"] by simp
    then show False
      using cstr_nonzero [OF that(1), of "length ws"] \<open>\<not> length zs \<le> length ws\<close> by simp
  qed
  then have "length xs = length ys" using x y by (simp add: order_antisym)
  then show ?thesis using x y by (auto simp: cstr_def intro: nth_equalityI)
qed

subsection \<open>strlen\<close>

partial_function (option) strlen_from :: "view \<Rightarrow> nat \<Rightarrow> nat option" where
  "strlen_from s len =
     do { c \<leftarrow> s len; if c \<noteq> 0 then strlen_from s (Suc len) else Some len }"

definition strlen :: "view \<Rightarrow> nat option" where
  "strlen s = strlen_from s 0"

lemma strlen_from_cstr:
  "cstr s xs \<Longrightarrow> k \<le> length xs \<Longrightarrow> strlen_from s k = Some (length xs)"
proof (induction "length xs - k" arbitrary: k)
  case 0
  then have "s k = Some 0" using cstr_end [of s xs] by simp
  then show ?case using 0 by (subst strlen_from.simps) simp
next
  case (Suc n)
  then have k: "k < length xs" by simp
  with Suc have "strlen_from s (Suc k) = Some (length xs)" by simp
  with k Suc.prems show ?case
    by (subst strlen_from.simps) (simp add: cstr_char cstr_nonzero)
qed

lemma strlen_cstr: "cstr s xs \<Longrightarrow> strlen s = Some (length xs)"
  by (simp add: strlen_def strlen_from_cstr)

text \<open>Conversely a length that is returned is that of a C string at the pointer.\<close>

lemma strlen_from_SomeD:
  assumes "strlen_from s k = Some n"
  shows "k \<le> n \<and> s n = Some 0 \<and> (\<forall>i. k \<le> i \<and> i < n \<longrightarrow> (\<exists>c. s i = Some c \<and> c \<noteq> 0))"
proof (rule strlen_from.raw_induct [OF _ assms])
  fix f and s :: view and k n
  assume IH: "\<And>s k n. f s k = Some n \<Longrightarrow>
      k \<le> n \<and> s n = Some 0 \<and> (\<forall>i. k \<le> i \<and> i < n \<longrightarrow> (\<exists>c. s i = Some c \<and> c \<noteq> 0))"
    and eq: "(do { c \<leftarrow> s k; if c \<noteq> 0 then f s (Suc k) else Some k }) = Some n"
  from eq obtain c where c: "s k = Some c"
    and rest: "(if c \<noteq> 0 then f s (Suc k) else Some k) = Some n"
    by (auto simp: bind_eq_Some_conv)
  show "k \<le> n \<and> s n = Some 0 \<and> (\<forall>i. k \<le> i \<and> i < n \<longrightarrow> (\<exists>c. s i = Some c \<and> c \<noteq> 0))"
  proof (cases "c = 0")
    case True
    with rest c show ?thesis by auto
  next
    case False
    with rest have "f s (Suc k) = Some n" by simp
    from IH [OF this] False c show ?thesis
      by (auto simp: Suc_le_eq) (metis le_neq_implies_less)
  qed
qed

lemma strlen_SomeD:
  assumes "strlen s = Some n"
  shows "cstr s (map (the \<circ> s) [0..<n])"
proof -
  have "s n = Some 0" and "\<forall>i < n. \<exists>c. s i = Some c \<and> c \<noteq> 0"
    using strlen_from_SomeD [of s 0 n] assms by (auto simp: strlen_def)
  then show ?thesis by (fastforce simp: cstr_def)
qed

subsection \<open>strncmp\<close>

function strncmp_from :: "view \<Rightarrow> view \<Rightarrow> nat \<Rightarrow> nat \<Rightarrow> int option" where
  "strncmp_from s1 s2 n i =
     (if i < n then
        do { a \<leftarrow> s1 i; b \<leftarrow> s2 i;
             if a \<noteq> b \<or> a = 0 then Some (uint a - uint b) else strncmp_from s1 s2 n (Suc i) }
      else Some 0)"
  by pat_completeness auto
termination
  by (relation "measure (\<lambda>(s1, s2, n, i). n - i)") auto

declare strncmp_from.simps [simp del]

definition strncmp :: "view \<Rightarrow> view \<Rightarrow> nat \<Rightarrow> int option" where
  "strncmp s1 s2 n = strncmp_from s1 s2 n 0"

text \<open>
  On C strings the comparison looks at the two strings with their terminators, up to \<open>n\<close>
  bytes, and its result is zero exactly where these prefixes are equal.
\<close>

lemma strncmp_from_cstr:
  assumes "cstr s1 xs" and "cstr s2 ys" and "i \<le> length xs" and "i \<le> length ys"
  shows "\<exists>r. strncmp_from s1 s2 n i = Some r \<and>
     (r = 0 \<longleftrightarrow> take (n - i) (drop i (xs @ [0])) = take (n - i) (drop i (ys @ [0])))"
  using assms(3,4)
proof (induction "n - i" arbitrary: i)
  case 0
  then show ?case by (subst strncmp_from.simps) simp
next
  case (Suc k)
  let ?a = "(xs @ [0]) ! i" and ?b = "(ys @ [0]) ! i"
  have i: "i < n" and k: "k = n - Suc i" using Suc.hyps(2) by auto
  have get: "s1 i = Some ?a" "s2 i = Some ?b"
    using assms(1,2) Suc.prems by (simp_all add: cstr_get)
  have hd: "take (n - i) (drop i (zs @ [0])) = (zs @ [0]) ! i # take k (drop (Suc i) (zs @ [0]))"
    if "i \<le> length zs" for zs :: "u8 list"
  proof -
    have "drop i (zs @ [0]) = (zs @ [0]) ! i # drop (Suc i) (zs @ [0])"
      using that by (intro Cons_nth_drop_Suc [symmetric]) simp
    moreover have "n - i = Suc k" using Suc.hyps(2) by simp
    ultimately show ?thesis by (simp only: take_Suc_Cons)
  qed
  show ?case
  proof (cases "?a \<noteq> ?b")
    case True
    then have "uint ?a \<noteq> uint ?b" by (simp add: word_uint_eq_iff)
    with True i get show ?thesis
      by (subst strncmp_from.simps) (simp add: hd Suc.prems del: drop_append take_append)
  next
    case same: False
    show ?thesis
    proof (cases "?a = 0")
      case True
      have "i = length xs" using True cstr_nonzero [OF assms(1)] Suc.prems(1)
        by (metis le_neq_implies_less nth_append)
      moreover have "i = length ys" using True same cstr_nonzero [OF assms(2)] Suc.prems(2)
        by (metis le_neq_implies_less nth_append)
      ultimately show ?thesis using i get True same
        by (subst strncmp_from.simps) simp
    next
      case False
      have "i < length xs" and "i < length ys"
        using False same Suc.prems by (metis le_neq_implies_less nth_append_length)+
      with Suc.hyps(1) [OF k] obtain r where "strncmp_from s1 s2 n (Suc i) = Some r"
        and "r = 0 \<longleftrightarrow> take k (drop (Suc i) (xs @ [0])) = take k (drop (Suc i) (ys @ [0]))"
        unfolding k by auto
      with False same i get hd [of xs] hd [of ys] Suc.prems show ?thesis
        by (subst strncmp_from.simps) simp
    qed
  qed
qed

lemma strncmp_zero_iff:
  assumes "cstr s1 xs" and "cstr s2 ys"
  shows "\<exists>r. strncmp s1 s2 n = Some r \<and> (r = 0 \<longleftrightarrow> take n (xs @ [0]) = take n (ys @ [0]))"
  using strncmp_from_cstr [OF assms, of 0 n] by (simp add: strncmp_def)

subsection \<open>strcpy and strncpy\<close>

text \<open>
  \<open>src m i\<close> reads \<open>src[i]\<close> and \<open>dst m i b\<close> stores \<open>dest[i] = b\<close>; both work on the state
  \<open>m\<close>, so a copy whose buffers overlap reads what it has already written, as the C does.
\<close>

partial_function (option) strcpy_from ::
  "('m \<Rightarrow> nat \<Rightarrow> u8 option) \<Rightarrow> ('m \<Rightarrow> nat \<Rightarrow> u8 \<Rightarrow> 'm option) \<Rightarrow> nat \<Rightarrow> 'm \<Rightarrow> 'm option" where
  "strcpy_from src dst i m =
     do { c \<leftarrow> src m i;
          if c \<noteq> 0 then do { m \<leftarrow> dst m i c; strcpy_from src dst (Suc i) m } else dst m i 0 }"

definition strcpy ::
  "('m \<Rightarrow> nat \<Rightarrow> u8 option) \<Rightarrow> ('m \<Rightarrow> nat \<Rightarrow> u8 \<Rightarrow> 'm option) \<Rightarrow> 'm \<Rightarrow> 'm option" where
  "strcpy src dst m = strcpy_from src dst 0 m"

function strncpy_copy ::
  "('m \<Rightarrow> nat \<Rightarrow> u8 option) \<Rightarrow> ('m \<Rightarrow> nat \<Rightarrow> u8 \<Rightarrow> 'm option) \<Rightarrow> nat \<Rightarrow> nat \<Rightarrow> 'm \<Rightarrow> (nat \<times> 'm) option"
where
  "strncpy_copy src dst n i m =
     do { c \<leftarrow> src m i;
          if c \<noteq> 0 \<and> i < n then do { m \<leftarrow> dst m i c; strncpy_copy src dst n (Suc i) m }
          else Some (i, m) }"
  by pat_completeness auto
termination
  by (relation "measure (\<lambda>(src, dst, n, i, m). n - i)") auto

declare strncpy_copy.simps [simp del]

definition strncpy ::
  "('m \<Rightarrow> nat \<Rightarrow> u8 option) \<Rightarrow> ('m \<Rightarrow> nat \<Rightarrow> u8 \<Rightarrow> 'm option) \<Rightarrow> nat \<Rightarrow> 'm \<Rightarrow> 'm option" where
  "strncpy src dst n m =
     do { (i, m) \<leftarrow> strncpy_copy src dst n 0 m;
          for_each [i..<n] (\<lambda>i m. dst m i 0) m }"

lemma for_each_zeros:
  "for_each [i..<n] (\<lambda>i m. dst m i 0) m = put_bytes dst i (replicate (n - i) 0) m"
proof (induction "n - i" arbitrary: i m)
  case 0
  then show ?case by simp
next
  case (Suc k)
  then have "i < n" and "n - i = Suc (n - Suc i)" by simp_all
  with Suc.hyps(1) [of "Suc i"] Suc.hyps(2) show ?case
    by (simp add: upt_rec)
qed

text \<open>The \<open>n\<close> bytes \<open>strncpy\<close> leaves in the destination.\<close>

definition padded :: "nat \<Rightarrow> u8 list \<Rightarrow> u8 list" where
  "padded n zs = (let ws = takeWhile (\<lambda>c. c \<noteq> 0) (take n zs) in ws @ replicate (n - length ws) 0)"

lemma length_padded [simp]: "length (padded n zs) = n"
proof -
  have "length (takeWhile (\<lambda>c. c \<noteq> 0) (take n zs)) \<le> n"
    using length_takeWhile_le [of "\<lambda>c. c \<noteq> 0" "take n zs"] by simp
  then show ?thesis by (simp add: padded_def Let_def)
qed

text \<open>What the copies write where storing into the destination leaves the source as it is.\<close>

locale copy_access =
  fixes src :: "'m \<Rightarrow> nat \<Rightarrow> u8 option"
    and dst :: "'m \<Rightarrow> nat \<Rightarrow> u8 \<Rightarrow> 'm option"
  assumes src_stable: "dst m i b = Some m' \<Longrightarrow> src m' j = src m j"
begin

lemma strcpy_from_cstr:
  "cstr (src m) xs \<Longrightarrow> i \<le> length xs \<Longrightarrow>
     strcpy_from src dst i m = put_bytes dst i (drop i xs @ [0]) m"
proof (induction "length xs - i" arbitrary: i m)
  case 0
  then have i: "i = length xs" by simp
  then have "src m i = Some 0" using 0 cstr_end by simp
  then show ?case by (subst strcpy_from.simps) (simp add: i)
next
  case (Suc k)
  then have i: "i < length xs" by simp
  have c: "src m i = Some (xs ! i)" "xs ! i \<noteq> 0"
    using Suc.prems(1) i by (auto simp: cstr_char cstr_nonzero)
  have next_step: "strcpy_from src dst (Suc i) m' = put_bytes dst (Suc i) (drop (Suc i) xs @ [0]) m'"
    if "dst m i (xs ! i) = Some m'" for m'
  proof (rule Suc.hyps(1))
    show "cstr (src m') xs" using Suc.prems(1) that src_stable by (simp add: cstr_def)
  qed (use Suc.hyps(2) i in auto)
  show ?case
    using c next_step i
    by (subst strcpy_from.simps)
      (cases "dst m i (xs ! i)"; simp add: Cons_nth_drop_Suc [symmetric])
qed

lemma strcpy_cstr: "cstr (src m) xs \<Longrightarrow> strcpy src dst m = put_bytes dst 0 (xs @ [0]) m"
  using strcpy_from_cstr [of m xs 0] by (simp add: strcpy_def)

text \<open>
  \<open>strncpy\<close> looks at \<open>src[0] .. src[n]\<close>: it copies the bytes before the first zero, at most \<open>n\<close>
  of them, and pads with zeros.
\<close>

lemma strncpy_copy_bytes:
  assumes "\<And>j. j \<le> n \<Longrightarrow> src m j = Some (zs ! j)" and "n < length zs" and "i \<le> n"
  shows "strncpy_copy src dst n i m =
     (let ws = takeWhile (\<lambda>c. c \<noteq> 0) (take (n - i) (drop i zs))
      in map_option (Pair (i + length ws)) (put_bytes dst i ws m))"
  using assms
proof (induction "n - i" arbitrary: i m)
  case 0
  then have "src m i = Some (zs ! i)" by simp
  then show ?case using 0 by (subst strncpy_copy.simps) simp
next
  case (Suc k)
  then have i: "i < n" and k: "k = n - Suc i" by auto
  have split: "take (n - i) (drop i zs) = zs ! i # take (n - Suc i) (drop (Suc i) zs)"
    using i Suc.prems(2) by (simp add: Cons_nth_drop_Suc [symmetric] take_Cons')
  have c: "src m i = Some (zs ! i)" using Suc.prems(1) i by simp
  show ?case
  proof (cases "zs ! i = 0")
    case True
    then show ?thesis using c by (subst strncpy_copy.simps) (simp add: split Let_def)
  next
    case False
    have next_step: "strncpy_copy src dst n (Suc i) m' =
       (let ws = takeWhile (\<lambda>c. c \<noteq> 0) (take (n - Suc i) (drop (Suc i) zs))
        in map_option (Pair (Suc i + length ws)) (put_bytes dst (Suc i) ws m'))"
      if "dst m i (zs ! i) = Some m'" for m'
      using Suc.prems i that src_stable by (intro Suc.hyps(1) [OF k]) auto
    show ?thesis
      using c False next_step i
      by (subst strncpy_copy.simps) (cases "dst m i (zs ! i)"; simp add: split Let_def)
  qed
qed

lemma strncpy_bytes:
  assumes "\<And>j. j \<le> n \<Longrightarrow> src m j = Some (zs ! j)" and "n < length zs"
  shows "strncpy src dst n m = put_bytes dst 0 (padded n zs) m"
  using strncpy_copy_bytes [OF assms, of 0]
  by (simp add: strncpy_def for_each_zeros put_bytes_append padded_def Let_def
      map_conv_bind_option split: Option.bind_split)

end

interpretation arr_copy: copy_access "\<lambda>_. v" lwr for v
  by unfold_locales simp

end
