(* ===== verification/Filesystem.thy ===== *)
theory Filesystem
  imports Lib_String
begin

text \<open>
  The read-only file system of \<^verbatim>\<open>student-distrib/filesystem.c\<close>: the boot block with its
  directory entries, one 4 kB inode per file and 4 kB data blocks, all decoded from the memory
  image the boot loader left (\<open>init_fs\<close>). \<open>read_dentry_by_name\<close>, \<open>read_dentry_by_index\<close> and
  \<open>read_data\<close> are the three routines every file operation of the kernel goes through; the
  per-process operations on top of them (\<open>file_read\<close>, \<open>dir_read\<close>) are in theory File_Ops.

  A file's content is specified by \<open>file_ok\<close>: which bytes an inode and its blocks hold. The lemmas
  show that the search finds the first entry of a name and that \<open>read_data\<close> copies exactly the
  requested part of the content.
\<close>

abbreviation BLOCK_SIZE :: "'a::numeral" where "BLOCK_SIZE \<equiv> 4096"
abbreviation NUM_INODES :: "'a::numeral" where "NUM_INODES \<equiv> 63"
abbreviation INODE_DB :: "'a::numeral" where "INODE_DB \<equiv> 1023"
abbreviation FNAME_SIZE :: "'a::numeral" where "FNAME_SIZE \<equiv> 32"

text \<open>\<open>dentry_t\<close>: 32 bytes of name, type, inode number and 24 reserved bytes.\<close>

record dentry =
  file_name :: "u8 list"
  file_type :: u32
  inode_num :: u32
  reserved :: "u8 list"

text \<open>The file system's globals; pointers into the image are addresses.\<close>

record fs_vars =
  fs_base_addr :: nat
  num_db :: u32
  num_inodes :: u32
  num_dentries :: u32
  boot_block :: nat
  inodes :: nat
  data_blocks :: nat

subsection \<open>Layout of the image\<close>

definition dentry_addr :: "fs_vars \<Rightarrow> nat \<Rightarrow> nat" where
  "dentry_addr fs i = boot_block fs + 64 + 64 * i"

definition inode_addr :: "fs_vars \<Rightarrow> nat \<Rightarrow> nat" where
  "inode_addr fs inode = inodes fs + BLOCK_SIZE * inode"

definition inode_length :: "view \<Rightarrow> fs_vars \<Rightarrow> nat \<Rightarrow> u32 option" where
  "inode_length v fs inode = rd32 v (inode_addr fs inode)"

definition inode_data :: "view \<Rightarrow> fs_vars \<Rightarrow> nat \<Rightarrow> nat \<Rightarrow> u32 option" where
  "inode_data v fs inode k = rd32 v (inode_addr fs inode + 4 + 4 * k)"

definition data_addr :: "fs_vars \<Rightarrow> u32 \<Rightarrow> nat \<Rightarrow> nat" where
  "data_addr fs block_num off = data_blocks fs + BLOCK_SIZE * unat block_num + off"

definition load_dentry :: "view \<Rightarrow> nat \<Rightarrow> dentry option" where
  "load_dentry v a =
     do { nm \<leftarrow> rd_bytes v a FNAME_SIZE;
          t \<leftarrow> rd32 v (a + 32);
          n \<leftarrow> rd32 v (a + 36);
          r \<leftarrow> rd_bytes v (a + 40) 24;
          Some \<lparr>file_name = nm, file_type = t, inode_num = n, reserved = r\<rparr> }"

text \<open>The bytes of a \<open>dentry_t\<close> object, as a \<open>char*\<close> to its first field reads them.\<close>

definition dentry_bytes :: "dentry \<Rightarrow> u8 list" where
  "dentry_bytes d = file_name d @ le_bytes (file_type d) @ le_bytes (inode_num d) @ reserved d"

subsection \<open>init_fs\<close>

definition init_fs :: "view \<Rightarrow> nat \<Rightarrow> fs_vars option" where
  "init_fs v start_addr =
     do { nd \<leftarrow> rd32 v start_addr;
          ni \<leftarrow> rd32 v (start_addr + 4);
          nb \<leftarrow> rd32 v (start_addr + 8);
          Some \<lparr>fs_base_addr = start_addr, num_db = nb, num_inodes = ni, num_dentries = nd,
                boot_block = start_addr, inodes = start_addr + BLOCK_SIZE,
                data_blocks = start_addr + BLOCK_SIZE + BLOCK_SIZE * unat ni\<rparr> }"

subsection \<open>Directory entries\<close>

text \<open>A \<open>dentry_t*\<close> argument is \<open>None\<close> for a null pointer, else the object it points to.\<close>

definition read_dentry_by_index ::
  "view \<Rightarrow> fs_vars \<Rightarrow> u32 \<Rightarrow> dentry option \<Rightarrow> (int \<times> dentry option) option" where
  "read_dentry_by_index v fs index dptr =
     (if index \<ge> num_dentries fs then Some (-1, dptr)
      else case dptr of
        None \<Rightarrow> Some (-1, None)
      | Some d \<Rightarrow>
          do { cur \<leftarrow> load_dentry v (dentry_addr fs (unat index));
               nm \<leftarrow> for_each [0..<FNAME_SIZE]
                 (\<lambda>i nm. do { c \<leftarrow> arr_get (file_name cur) (int i); arr_set nm (int i) c })
                 (file_name d);
               Some (0, Some (d\<lparr>file_name := nm, file_type := file_type cur,
                                inode_num := inode_num cur\<rparr>)) })"

text \<open>
  One iteration of the search: the entry's name is copied to a 33-byte array of the stack, whose
  every cell \<open>strncpy\<close> and the terminator overwrite.
\<close>

definition dentry_matches :: "dentry \<Rightarrow> view \<Rightarrow> nat \<Rightarrow> bool option" where
  "dentry_matches cur fname name_len =
     do { target \<leftarrow> strncpy (\<lambda>_. lrd (dentry_bytes cur)) lwr FNAME_SIZE (replicate 33 0);
          target \<leftarrow> arr_set target FNAME_SIZE 0;
          target_len \<leftarrow> strlen (lrd target);
          mtch \<leftarrow> strncmp fname (lrd target) name_len;
          Some (name_len = target_len \<and> mtch = 0) }"

function dentry_search ::
  "view \<Rightarrow> fs_vars \<Rightarrow> view \<Rightarrow> nat \<Rightarrow> nat \<Rightarrow> dentry option \<Rightarrow> (int \<times> dentry option) option" where
  "dentry_search v fs fname name_len i dptr =
     (if i < unat (num_dentries fs) then
        do { cur \<leftarrow> load_dentry v (dentry_addr fs i);
             found \<leftarrow> dentry_matches cur fname name_len;
             if found then
               do { (r, dptr) \<leftarrow> read_dentry_by_index v fs (word_of_nat i) dptr; Some (0, dptr) }
             else dentry_search v fs fname name_len (Suc i) dptr }
      else Some (-1, dptr))"
  by pat_completeness auto
termination
  by (relation "measure (\<lambda>(v, fs, fname, name_len, i, dptr). unat (num_dentries fs) - i)") auto

declare dentry_search.simps [simp del]

definition read_dentry_by_name ::
  "view \<Rightarrow> fs_vars \<Rightarrow> view \<Rightarrow> dentry option \<Rightarrow> (int \<times> dentry option) option" where
  "read_dentry_by_name v fs fname dptr =
     (if dptr = None then Some (-1, dptr)
      else do { name_len \<leftarrow> strlen fname;
                if name_len > FNAME_SIZE then Some (-1, dptr)
                else dentry_search v fs fname name_len 0 dptr })"

subsection \<open>read_data\<close>

text \<open>
  \<open>rdm m\<close> reads the memory of state \<open>m\<close> and \<open>wr m i b\<close> stores \<open>buf[i] = b\<close>. The loop variables
  are those of the source: \<open>i\<close>, \<open>j\<close>, \<open>block_off\<close> (an \<open>int\<close>, set to \<open>-i\<close> at a block boundary),
  \<open>block_num\<close> and \<open>bytes_read\<close>; the end-of-file test is unsigned 32-bit arithmetic.
\<close>

function read_loop ::
  "('m \<Rightarrow> view) \<Rightarrow> ('m \<Rightarrow> nat \<Rightarrow> u8 \<Rightarrow> 'm option) \<Rightarrow> fs_vars \<Rightarrow> nat \<Rightarrow> u32 \<Rightarrow> u32 \<Rightarrow> u32 \<Rightarrow> u32 \<Rightarrow>
   nat \<Rightarrow> nat \<Rightarrow> int \<Rightarrow> u32 \<Rightarrow> nat \<Rightarrow> 'm \<Rightarrow> (int \<times> 'm) option" where
  "read_loop rdm wr fs inode offset len file_size data_idx i j block_off block_num bytes_read m =
     (if i < unat len then
        (if offset + word_of_nat bytes_read \<ge> file_size then Some (int bytes_read, m)
         else
           do { (j, block_off, block_num) \<leftarrow>
                  (if block_off + int i \<ge> BLOCK_SIZE
                   then do { bn \<leftarrow> inode_data (rdm m) fs inode (unat data_idx + Suc j);
                             Some (Suc j, - int i, bn) }
                   else Some (j, block_off, block_num));
                b \<leftarrow> rdm m (data_addr fs block_num (nat (block_off + int i)));
                m \<leftarrow> wr m i b;
                read_loop rdm wr fs inode offset len file_size data_idx
                  (Suc i) j block_off block_num (Suc bytes_read) m })
      else Some (int bytes_read, m))"
  by pat_completeness auto
termination
  by (relation "measure (\<lambda>(rdm, wr, fs, inode, offset, len, file_size, data_idx, i, rest). unat len - i)")
    auto

declare read_loop.simps [simp del]

definition read_data ::
  "('m \<Rightarrow> view) \<Rightarrow> ('m \<Rightarrow> nat \<Rightarrow> u8 \<Rightarrow> 'm option) \<Rightarrow> fs_vars \<Rightarrow> u32 \<Rightarrow> u32 \<Rightarrow> u32 \<Rightarrow> 'm \<Rightarrow>
   (int \<times> 'm) option" where
  "read_data rdm wr fs inode offset len m =
     (if inode \<ge> NUM_INODES then Some (-1, m)
      else
        do { file_size \<leftarrow> inode_length (rdm m) fs (unat inode);
             let data_idx = offset div BLOCK_SIZE;
             if data_idx \<ge> INODE_DB then Some (-1, m)
             else do { block_num \<leftarrow> inode_data (rdm m) fs (unat inode) (unat data_idx);
                       read_loop rdm wr fs (unat inode) offset len file_size data_idx
                         0 0 (uint (offset mod BLOCK_SIZE)) block_num 0 m } })"

subsection \<open>The directory search finds the first entry of the name\<close>

text \<open>The name of an entry: its 32 bytes up to the first zero, if there is one.\<close>

definition dentry_name :: "dentry \<Rightarrow> u8 list" where
  "dentry_name d = takeWhile (\<lambda>c. c \<noteq> 0) (take FNAME_SIZE (file_name d))"

definition set_dentry :: "dentry \<Rightarrow> dentry \<Rightarrow> dentry" where
  "set_dentry cur d =
     d\<lparr>file_name := file_name cur, file_type := file_type cur, inode_num := inode_num cur\<rparr>"

lemma dentry_name_nonzero: "0 \<notin> set (dentry_name d)"
  unfolding dentry_name_def by (auto dest: set_takeWhileD)

lemma length_dentry_name: "length (dentry_name d) \<le> FNAME_SIZE"
  using length_takeWhile_le [of "\<lambda>c. c \<noteq> 0" "take FNAME_SIZE (file_name d)"]
  by (simp add: dentry_name_def)

lemma load_dentry_length: "load_dentry v a = Some d \<Longrightarrow> length (file_name d) = FNAME_SIZE"
  by (auto simp: load_dentry_def bind_eq_Some_conv length_rd_bytes)

lemma padded_dentry:
  "length (file_name d) = FNAME_SIZE \<Longrightarrow>
     padded FNAME_SIZE (dentry_bytes d) = dentry_name d @ replicate (FNAME_SIZE - length (dentry_name d)) 0"
  by (simp add: padded_def dentry_bytes_def dentry_name_def Let_def)

lemma cstr_zero_padded: "0 \<notin> set xs \<Longrightarrow> 0 < k \<Longrightarrow> cstr (lrd (xs @ replicate k 0)) xs"
  by (auto simp: cstr_def lrd_def nth_append)

lemma dentry_matches_eq:
  assumes "length (file_name cur) = FNAME_SIZE" and "cstr fname xs"
  shows "dentry_matches cur fname (length xs) = Some (xs = dentry_name cur)"
proof -
  let ?zs = "dentry_bytes cur" and ?nm = "dentry_name cur"
  let ?target = "?nm @ replicate (FNAME_SIZE + 1 - length ?nm) 0"
  have "strncpy (\<lambda>_. lrd ?zs) lwr FNAME_SIZE (replicate 33 0)
      = put_bytes lwr 0 (padded FNAME_SIZE ?zs) (replicate 33 0)"
    by (rule arr_copy.strncpy_bytes) (simp_all add: lrd_def dentry_bytes_def assms(1))
  also have "\<dots> = Some (padded FNAME_SIZE ?zs @ [0])"
    by (simp add: put_bytes_lwr numeral_eq_Suc)
  also have "padded FNAME_SIZE ?zs @ [0] = ?target"
    using length_dentry_name [of cur]
    by (simp add: padded_dentry [OF assms(1)] Suc_diff_le replicate_append_same
        flip: replicate_Suc)
  finally have copy: "strncpy (\<lambda>_. lrd ?zs) lwr FNAME_SIZE (replicate 33 0) = Some ?target" .
  have last: "?target[32 := 0] = ?target"
    using length_dentry_name [of cur] by (intro list_update_same_conv [THEN iffD2]) (auto simp: nth_append)
  have name: "cstr (lrd ?target) ?nm"
    using dentry_name_nonzero length_dentry_name [of cur] by (intro cstr_zero_padded) auto
  obtain r where r: "strncmp fname (lrd ?target) (length xs) = Some r"
    and r0: "r = 0 \<longleftrightarrow> take (length xs) (xs @ [0]) = take (length xs) (?nm @ [0])"
    using strncmp_zero_iff [OF assms(2) name] by blast
  have "length xs = length ?nm \<and> r = 0 \<longleftrightarrow> xs = ?nm" using r0 by auto
  then show ?thesis
    using copy last r strlen_cstr [OF name] length_dentry_name [of cur]
    by (simp add: dentry_matches_def arr_set_def)
qed

lemma copy_name_loop:
  assumes "length src = FNAME_SIZE" and "length dst = FNAME_SIZE"
  shows "for_each [0..<FNAME_SIZE]
    (\<lambda>i nm. do { c \<leftarrow> arr_get src (int i); arr_set nm (int i) c }) dst = Some src"
proof -
  have "\<exists>nm. for_each [0..<FNAME_SIZE]
      (\<lambda>i nm. do { c \<leftarrow> arr_get src (int i); arr_set nm (int i) c }) dst = Some nm \<and>
      length nm = FNAME_SIZE \<and> take FNAME_SIZE nm = take FNAME_SIZE src"
    by (rule for_each_upt [where P = "\<lambda>i nm. length nm = FNAME_SIZE \<and> take i nm = take i src"])
      (use assms in \<open>auto simp: arr_facts take_Suc_conv_app_nth\<close>)
  then show ?thesis using assms by auto
qed

lemma read_dentry_by_index_eq:
  assumes "load_dentry v (dentry_addr fs (unat index)) = Some cur"
    and "length (file_name d) = FNAME_SIZE"
  shows "read_dentry_by_index v fs index (Some d) =
     (if index \<ge> num_dentries fs then Some (-1, Some d) else Some (0, Some (set_dentry cur d)))"
  using assms copy_name_loop [of "file_name cur" "file_name d"]
  by (simp add: read_dentry_by_index_def load_dentry_length set_dentry_def)

text \<open>All directory entries of the boot block are in readable memory.\<close>

definition dir_ok :: "view \<Rightarrow> fs_vars \<Rightarrow> dentry list \<Rightarrow> bool" where
  "dir_ok v fs ds \<longleftrightarrow> length ds = unat (num_dentries fs) \<and>
     (\<forall>i < length ds. load_dentry v (dentry_addr fs i) = Some (ds ! i))"

lemma dentry_search_eq:
  assumes dir: "dir_ok v fs ds" and nm: "cstr fname xs" and d: "length (file_name d) = FNAME_SIZE"
    and "i \<le> length ds"
  shows "dentry_search v fs fname (length xs) i (Some d) =
     (case find (\<lambda>d'. dentry_name d' = xs) (drop i ds) of
        None \<Rightarrow> Some (-1, Some d)
      | Some cur \<Rightarrow> Some (0, Some (set_dentry cur d)))"
  using assms(4)
proof (induction "length ds - i" arbitrary: i)
  case 0
  then show ?case using dir by (subst dentry_search.simps) (simp add: dir_ok_def)
next
  case (Suc k)
  then have i: "i < length ds" by simp
  with dir have n: "i < unat (num_dentries fs)"
    and ld: "load_dentry v (dentry_addr fs i) = Some (ds ! i)"
    by (auto simp: dir_ok_def)
  have w: "unat (word_of_nat i :: u32) = i"
    using n unsigned_less [where 'a = nat, of "num_dentries fs"] by (simp add: unat_of_nat take_bit_eq_mod)
  have m: "dentry_matches (ds ! i) fname (length xs) = Some (xs = dentry_name (ds ! i))"
    using dentry_matches_eq [OF load_dentry_length [OF ld] nm] .
  have idx: "read_dentry_by_index v fs (word_of_nat i) (Some d) = Some (0, Some (set_dentry (ds ! i) d))"
    using read_dentry_by_index_eq [of v fs "word_of_nat i" "ds ! i" d] ld d w n
    by (simp add: word_le_nat_alt)
  have "dentry_search v fs fname (length xs) (Suc i) (Some d) =
     (case find (\<lambda>d'. dentry_name d' = xs) (drop (Suc i) ds) of
        None \<Rightarrow> Some (-1, Some d)
      | Some cur \<Rightarrow> Some (0, Some (set_dentry cur d)))"
    using Suc i by simp
  then show ?case
    using n ld m idx i
    by (subst dentry_search.simps) (auto simp: Cons_nth_drop_Suc [symmetric])
qed

lemma read_dentry_by_name_spec:
  assumes "dir_ok v fs ds" and "cstr fname xs" and "length (file_name d) = FNAME_SIZE"
  shows "read_dentry_by_name v fs fname (Some d) =
     (case find (\<lambda>d'. dentry_name d' = xs) ds of
        None \<Rightarrow> Some (-1, Some d)
      | Some cur \<Rightarrow> Some (0, Some (set_dentry cur d)))"
proof (cases "length xs > FNAME_SIZE")
  case True
  then have "find (\<lambda>d'. dentry_name d' = xs) ds = None"
    using length_dentry_name leD by (auto simp: find_None_iff)
  then show ?thesis
    using True assms(2) by (simp add: read_dentry_by_name_def strlen_cstr)
next
  case False
  then show ?thesis
    using dentry_search_eq [OF assms, of 0] assms(2)
    by (simp add: read_dentry_by_name_def strlen_cstr)
qed

subsection \<open>read_data copies the requested part of the file\<close>

text \<open>
  \<open>file_ok v fs inode bytes\<close>: in the view \<open>v\<close> the inode has the length of \<open>bytes\<close>, its block
  numbers are readable, and byte \<open>p\<close> of the file is in the block that entry \<open>p div 4096\<close> names.
  Blocks may be anywhere and in any order.
\<close>

definition file_ok :: "view \<Rightarrow> fs_vars \<Rightarrow> nat \<Rightarrow> u8 list \<Rightarrow> bool" where
  "file_ok v fs inode bytes \<longleftrightarrow>
     inode < NUM_INODES \<and> length bytes \<le> INODE_DB * BLOCK_SIZE \<and>
     inode_length v fs inode = Some (word_of_nat (length bytes)) \<and>
     (\<forall>k \<in> {..<INODE_DB}. inode_data v fs inode k \<noteq> None) \<and>
     (\<forall>p \<in> {..<length bytes}.
        (case inode_data v fs inode (p div BLOCK_SIZE) of
           None \<Rightarrow> False
         | Some bn \<Rightarrow> v (data_addr fs bn (p mod BLOCK_SIZE)) = Some (bytes ! p)))"

lemma file_ok_byte:
  assumes "file_ok v fs inode bytes" and "p < length bytes"
  obtains bn where "inode_data v fs inode (p div BLOCK_SIZE) = Some bn"
    and "v (data_addr fs bn (p mod BLOCK_SIZE)) = Some (bytes ! p)"
  using assms by (fastforce simp: file_ok_def split: option.splits)

lemma file_ok_block:
  assumes "file_ok v fs inode bytes" and "k < INODE_DB"
  obtains bn where "inode_data v fs inode k = Some bn"
  using assms by (auto simp: file_ok_def)

lemma inode_data_mono:
  "v \<subseteq>\<^sub>m w \<Longrightarrow> inode_data v fs inode k = Some bn \<Longrightarrow> inode_data w fs inode k = Some bn"
  by (simp add: inode_data_def rd32_mono)

lemma file_ok_mono: "v \<subseteq>\<^sub>m w \<Longrightarrow> file_ok v fs inode bytes \<Longrightarrow> file_ok w fs inode bytes"
proof -
  assume le: "v \<subseteq>\<^sub>m w" and ok: "file_ok v fs inode bytes"
  have "case inode_data w fs inode (p div BLOCK_SIZE) of None \<Rightarrow> False
      | Some bn \<Rightarrow> w (data_addr fs bn (p mod BLOCK_SIZE)) = Some (bytes ! p)"
    if p: "p < length bytes" for p
  proof -
    obtain bn where "inode_data v fs inode (p div BLOCK_SIZE) = Some bn"
      "v (data_addr fs bn (p mod BLOCK_SIZE)) = Some (bytes ! p)"
      using file_ok_byte [OF ok p] by blast
    then show ?thesis by (simp add: inode_data_mono [OF le] rd_mono [OF le])
  qed
  moreover have "inode_data w fs inode k \<noteq> None" if k: "k < INODE_DB" for k
  proof -
    obtain bn where "inode_data v fs inode k = Some bn" using file_ok_block [OF ok k] .
    then show ?thesis using inode_data_mono [OF le] by simp
  qed
  moreover have "inode_length w fs inode = Some (word_of_nat (length bytes))"
    using ok rd32_mono [OF le] by (simp add: file_ok_def inode_length_def)
  ultimately show ?thesis using ok unfolding file_ok_def by blast
qed

lemma file_ok_unique:
  assumes "file_ok v fs inode xs" and "file_ok v fs inode ys"
  shows "xs = ys"
proof (rule nth_equalityI)
  have "length xs < 2 ^ 32" "length ys < 2 ^ 32" using assms by (auto simp: file_ok_def)
  then show len: "length xs = length ys"
    using assms by (auto simp: file_ok_def of_nat_eq_iff [symmetric] unat_of_nat take_bit_eq_mod
        dest!: arg_cong [where f = unat])
  fix p assume "p < length xs"
  with assms len show "xs ! p = ys ! p" by (metis file_ok_byte option.inject)
qed

locale image_access =
  fixes rdm :: "'m \<Rightarrow> view"
    and wr :: "'m \<Rightarrow> nat \<Rightarrow> u8 \<Rightarrow> 'm option"
    and img :: "nat set"
  assumes image_stable: "wr m i b = Some m' \<Longrightarrow> rdm m' |` img = rdm m |` img"
begin

lemma end_of_file_test:
  fixes offset :: u32
  assumes "length bytes \<le> INODE_DB * BLOCK_SIZE" and "i = 0 \<or> unat offset + i \<le> length bytes"
  shows "offset + word_of_nat i \<ge> word_of_nat (length bytes) \<longleftrightarrow> length bytes \<le> unat offset + i"
proof -
  have "unat offset < 2 ^ 32"
    using unat32_less by simp
  then have "unat offset + i < 2 ^ 32"
    using assms by auto
  then have "unat (offset + word_of_nat i) = unat offset + i"
    by (simp add: unat_add_lem [THEN iffD1] unat_of_nat take_bit_eq_mod)
  moreover have "unat (word_of_nat (length bytes) :: u32) = length bytes"
    using assms(1) by (simp add: unat_of_nat take_bit_eq_mod)
  ultimately show ?thesis by (simp add: word_le_nat_alt)
qed

lemma read_loop_eq:
  assumes "file_ok (rdm m |` img) fs inode bytes"
    and "i = 0 \<or> unat offset + i \<le> length bytes"
    and "block_off + int i = int (unat offset + i) - BLOCK_SIZE * int (di + j)"
    and "0 \<le> block_off + int i" and "block_off + int i \<le> BLOCK_SIZE"
    and "inode_data (rdm m) fs inode (di + j) = Some block_num"
    and "di = unat data_idx"
  shows "read_loop rdm wr fs inode offset len (word_of_nat (length bytes)) data_idx
      i j block_off block_num i m =
    (let rest = take (unat len - i) (drop (unat offset + i) bytes)
     in map_option (Pair (int (i + length rest))) (put_bytes wr i rest m))"
  using assms
proof (induction "unat len - i" arbitrary: i j block_off block_num m)
  case 0
  then show ?case by (subst read_loop.simps) simp
next
  case (Suc k)
  let ?pos = "unat offset + i"
  have i: "i < unat len" and k: "k = unat len - Suc i" using Suc.hyps(2) by auto
  have size: "length bytes \<le> INODE_DB * BLOCK_SIZE" using Suc.prems(1) by (simp add: file_ok_def)
  note eof = end_of_file_test [OF size Suc.prems(2)]
  show ?case
  proof (cases "length bytes \<le> ?pos")
    case True
    then show ?thesis using i eof by (subst read_loop.simps) simp
  next
    case False
    then have pos: "?pos < length bytes" by simp
    have split: "take (unat len - i) (drop ?pos bytes)
        = bytes ! ?pos # take (unat len - Suc i) (drop (Suc ?pos) bytes)"
      using i pos by (simp add: Cons_nth_drop_Suc [symmetric] take_Cons' Suc_diff_Suc)
    obtain bn where bn: "inode_data (rdm m |` img) fs inode (?pos div BLOCK_SIZE) = Some bn"
      and byte: "(rdm m |` img) (data_addr fs bn (?pos mod BLOCK_SIZE)) = Some (bytes ! ?pos)"
      using file_ok_byte [OF Suc.prems(1) pos] by blast
    have le: "rdm m |` img \<subseteq>\<^sub>m rdm m" by (simp add: map_le_def)
    have bn': "inode_data (rdm m) fs inode (?pos div BLOCK_SIZE) = Some bn"
      using inode_data_mono [OF le bn] .
    have byte': "rdm m (data_addr fs bn (?pos mod BLOCK_SIZE)) = Some (bytes ! ?pos)"
      using rd_mono [OF le byte] .
    have step: "\<exists>j' off'. (if block_off + int i \<ge> BLOCK_SIZE
          then do { b \<leftarrow> inode_data (rdm m) fs inode (unat data_idx + Suc j); Some (Suc j, - int i, b) }
          else Some (j, block_off, block_num)) = Some (j', off', bn)
        \<and> di + j' = ?pos div BLOCK_SIZE \<and> off' + int i = int (?pos mod BLOCK_SIZE)"
    proof (cases "block_off + int i = BLOCK_SIZE")
      case True
      then have "int ?pos = BLOCK_SIZE * int (di + Suc j)" using Suc.prems(3) by simp
      then have "?pos = BLOCK_SIZE * (di + Suc j)" by linarith
      then have "?pos div BLOCK_SIZE = di + Suc j" "?pos mod BLOCK_SIZE = 0" by simp_all
      then show ?thesis using True bn' Suc.prems(7) by simp
    next
      case False
      then have "block_off + int i < BLOCK_SIZE" using Suc.prems(5) by simp
      then have "?pos div BLOCK_SIZE = di + j" "int (?pos mod BLOCK_SIZE) = block_off + int i"
        using Suc.prems(3,4) div_mod_eqI [of "block_off + int i" ?pos BLOCK_SIZE "di + j"] by auto
      then show ?thesis using False Suc.prems(5,6) bn' by simp
    qed
    then obtain j' off' where st: "(if block_off + int i \<ge> BLOCK_SIZE
          then do { b \<leftarrow> inode_data (rdm m) fs inode (unat data_idx + Suc j); Some (Suc j, - int i, b) }
          else Some (j, block_off, block_num)) = Some (j', off', bn)"
      and j': "di + j' = ?pos div BLOCK_SIZE" and off': "off' + int i = int (?pos mod BLOCK_SIZE)"
      by blast
    have addr: "nat (off' + int i) = ?pos mod BLOCK_SIZE" using off' by simp
    show ?thesis
    proof (cases "wr m i (bytes ! ?pos)")
      case None
      then show ?thesis
        using i eof pos st byte' addr
        by (subst read_loop.simps) (simp add: split Let_def)
    next
      case (Some m1)
      have stable: "rdm m1 |` img = rdm m |` img" by (rule image_stable [OF Some])
      have le1: "rdm m |` img \<subseteq>\<^sub>m rdm m1"
        unfolding stable [symmetric] by (simp add: map_le_def)
      have d4: "int ?pos = BLOCK_SIZE * int (?pos div BLOCK_SIZE) + int (?pos mod BLOCK_SIZE)"
        by (metis mult_div_mod_eq of_nat_add of_nat_mult of_nat_numeral)
      have md: "int (?pos mod BLOCK_SIZE) < BLOCK_SIZE" by simp
      have IH: "read_loop rdm wr fs inode offset len (word_of_nat (length bytes)) data_idx
          (Suc i) j' off' bn (Suc i) m1 =
        (let rest = take (unat len - Suc i) (drop (unat offset + Suc i) bytes)
         in map_option (Pair (int (Suc i + length rest))) (put_bytes wr (Suc i) rest m1))"
        using Suc.prems(1,7) pos j' off' bn d4 md inode_data_mono [OF le1 bn]
        by (intro Suc.hyps(1) [OF k]) (auto simp: stable)
      then show ?thesis
        using i eof pos st byte' addr Some
        by (subst read_loop.simps) (simp add: split Let_def add.left_commute [of 1])
    qed
  qed
qed

lemma read_data_eq:
  assumes "file_ok (rdm m |` img) fs (unat inode) bytes"
  shows "read_data rdm wr fs inode offset len m =
    (if INODE_DB \<le> offset div BLOCK_SIZE then Some (-1, m)
     else let part = take (unat len) (drop (unat offset) bytes)
          in map_option (Pair (int (length part))) (put_bytes wr 0 part m))"
proof -
  have ok: "file_ok (rdm m) fs (unat inode) bytes"
    by (rule file_ok_mono [OF _ assms]) (simp add: map_le_def)
  have inode: "\<not> NUM_INODES \<le> inode" using ok by (simp add: file_ok_def word_le_nat_alt)
  show ?thesis
  proof (cases "INODE_DB \<le> offset div BLOCK_SIZE")
    case True
    then show ?thesis using ok inode by (simp add: read_data_def file_ok_def Let_def)
  next
    case False
    then have "unat (offset div BLOCK_SIZE) < INODE_DB" by (simp add: word_le_nat_alt)
    then obtain bn where bn: "inode_data (rdm m) fs (unat inode) (unat (offset div BLOCK_SIZE)) = Some bn"
      using file_ok_block [OF ok] by blast
    have b: "unat (BLOCK_SIZE :: u32) = BLOCK_SIZE" by simp
    have md: "uint (offset mod BLOCK_SIZE) = int (unat offset mod BLOCK_SIZE)"
      and dv: "unat (offset div BLOCK_SIZE) = unat offset div BLOCK_SIZE"
      by (simp_all only: uint_nat unat_mod unat_div b)
    have off: "uint (offset mod BLOCK_SIZE) + int 0
        = int (unat offset + 0) - BLOCK_SIZE * int (unat (offset div BLOCK_SIZE) + 0)"
      unfolding md dv using int_mod_eq [of "unat offset" BLOCK_SIZE] by simp
    have lower: "0 \<le> uint (offset mod BLOCK_SIZE) + int 0"
      and upper: "uint (offset mod BLOCK_SIZE) + int 0 \<le> BLOCK_SIZE"
      unfolding md by simp_all
    have len: "inode_length (rdm m) fs (unat inode) = Some (word_of_nat (length bytes))"
      using ok by (simp add: file_ok_def)
    have "inode_data (rdm m) fs (unat inode) (unat (offset div BLOCK_SIZE) + 0) = Some bn"
      using bn by simp
    note read_loop_eq [OF assms disjI1 [OF refl] off lower upper this refl]
    then show ?thesis using False inode
      by (simp only: read_data_def len bn Let_def if_False bind.bind_lunit int_ops(1)) simp
  qed
qed

end

text \<open>
  The destination is an array of the kernel, or memory reached through the page tables at an
  address none of whose physical bytes belongs to the image.
\<close>

interpretation array_image: image_access "\<lambda>_. v" lwr UNIV for v
  by unfold_locales simp

interpretation memory_image:
  image_access "ld tr" "\<lambda>m i b. st tr m (buf + i) b" "{a. \<forall>i. tr (buf + i) \<noteq> tr a}" for tr buf
  by unfold_locales (fastforce simp: ld_def st_def restrict_map_def split: option.splits)

subsection \<open>Properties\<close>

text \<open>
  A small image for the concrete instances: entry 0 is the directory \<open>.\<close>, entry 1 the file \<open>hi\<close>
  with inode 0, whose five bytes \<open>Hello\<close> are in data block 1.
\<close>

definition sample_image :: view where
  "sample_image a = Some
     (if a = 0 then 2 else if a = 4 then 1 else if a = 8 then 2
      else if a = 64 then 0x2E else if a = 96 then 1
      else if a = 128 then 0x68 else if a = 129 then 0x69 else if a = 160 then 2
      else if a = 4096 then 5 else if a = 4100 then 1
      else if 12288 \<le> a \<and> a < 12293 then bytes_of ''Hello'' ! (a - 12288)
      else 0)"

definition sample_fs :: fs_vars where
  "sample_fs = \<lparr>fs_base_addr = 0, num_db = 2, num_inodes = 1, num_dentries = 2,
     boot_block = 0, inodes = 4096, data_blocks = 8192\<rparr>"

definition sample_dir :: "dentry list" where
  "sample_dir =
     [\<lparr>file_name = 0x2E # replicate 31 0, file_type = 1, inode_num = 0, reserved = replicate 24 0\<rparr>,
      \<lparr>file_name = 0x68 # 0x69 # replicate 30 0, file_type = 2, inode_num = 0,
       reserved = replicate 24 0\<rparr>]"

lemma init_sample_fs: "init_fs sample_image 0 = Some sample_fs"
  by (simp add: init_fs_def rd32_def le32_def sample_image_def sample_fs_def)

lemma sample_dir_ok: "dir_ok sample_image sample_fs sample_dir"
proof -
  have "load_dentry sample_image (dentry_addr sample_fs 0) = Some (sample_dir ! 0)"
    "load_dentry sample_image (dentry_addr sample_fs 1) = Some (sample_dir ! 1)"
    by (simp_all add: load_dentry_def dentry_addr_def sample_fs_def sample_dir_def sample_image_def
        rd32_def le32_def unfold_replicate)
  moreover have "num_dentries sample_fs = 2" "length sample_dir = 2"
    by (simp_all add: sample_fs_def sample_dir_def)
  ultimately show ?thesis
    by (auto simp: dir_ok_def less_2_cases_iff)
qed

lemma sample_file_ok: "file_ok sample_image sample_fs 0 (bytes_of ''Hello'')"
  by (auto simp: file_ok_def inode_length_def inode_data_def inode_addr_def data_addr_def rd32_def
      le32_def sample_image_def sample_fs_def)

text \<open>C9. \<open>read_dentry_by_name\<close> on a directory \<open>ds\<close> and a name \<open>xs\<close>: it returns 0 and fills the
  caller's \<open>dentry_t\<close> from the first entry of that name, and returns -1 and leaves the
  \<open>dentry_t\<close> alone when no entry has it. In particular names of exactly 32 characters, which have
  no terminator in the image, are found, and a proper prefix of a name is not a match.\<close>

theorem read_dentry_by_name_first:
  assumes "dir_ok v fs ds" and "cstr fname xs" and "length (file_name d) = FNAME_SIZE"
  shows "read_dentry_by_name v fs fname (Some d) =
     (case find (\<lambda>d'. dentry_name d' = xs) ds of
        None \<Rightarrow> Some (-1, Some d)
      | Some cur \<Rightarrow> Some (0, Some (d\<lparr>file_name := file_name cur, file_type := file_type cur,
                                       inode_num := inode_num cur\<rparr>)))"
  using read_dentry_by_name_spec [OF assms] by (simp add: set_dentry_def cong: option.case_cong)

theorem read_dentry_by_name_first_witness:
  "read_dentry_by_name sample_image sample_fs (lrd (bytes_of ''hi'' @ [0])) (Some (sample_dir ! 0))
     = Some (0, Some (sample_dir ! 1))
   \<and> read_dentry_by_name sample_image sample_fs (lrd (bytes_of ''h'' @ [0])) (Some (sample_dir ! 0))
     = Some (-1, Some (sample_dir ! 0))"
  using read_dentry_by_name_first [OF sample_dir_ok, of "lrd (bytes_of ''hi'' @ [0])" "bytes_of ''hi''"
      "sample_dir ! 0"]
    read_dentry_by_name_first [OF sample_dir_ok, of "lrd (bytes_of ''h'' @ [0])" "bytes_of ''h''"
      "sample_dir ! 0"]
  by (simp add: cstr_def lrd_def bytes_of_def sample_dir_def dentry_name_def less_Suc_eq)

text \<open>C7. \<open>read_data\<close> copies exactly the part of the file that starts at \<open>offset\<close>, cut at \<open>len\<close>
  and at the end of the file, to the front of the buffer, leaves the rest of the buffer alone, and
  returns how many bytes that is (0 at or past the end). No access falls outside the image or the
  buffer, whatever the order of the file's blocks.\<close>

theorem read_data_copies:
  assumes "file_ok v fs (unat inode) bytes" and "offset div BLOCK_SIZE < INODE_DB"
    and "unat len \<le> length buf"
  shows "read_data (\<lambda>_. v) lwr fs inode offset len buf =
    (let part = take (unat len) (drop (unat offset) bytes)
     in Some (int (length part), part @ drop (length part) buf))"
proof -
  let ?part = "take (unat len) (drop (unat offset) bytes)"
  have "put_bytes lwr 0 ?part buf = Some (?part @ drop (length ?part) buf)"
    using put_bytes_lwr [of 0 ?part buf] assms(3) by simp
  moreover have "v |` UNIV = v" by (simp add: restrict_map_def)
  ultimately show ?thesis
    using array_image.read_data_eq [where v = v and m = buf and fs = fs and inode = inode and bytes = bytes
        and offset = offset and len = len] assms(1,2)
    by (simp add: Let_def not_le)
qed

theorem read_data_copies_witness:
  "read_data (\<lambda>_. sample_image) lwr sample_fs 0 2 8 (replicate 8 0)
     = Some (3, bytes_of ''llo'' @ replicate 5 0)"
  using read_data_copies [of sample_image sample_fs 0 "bytes_of ''Hello''" 2 8 "replicate 8 0"]
    sample_file_ok
  by (simp add: Let_def bytes_of_def word_less_nat_alt unat_div)

end
