(* ===== verification/Paging.thy ===== *)
theory Paging
  imports Memory
begin

text \<open>
  The page directory and page tables of \<^verbatim>\<open>student-distrib/paging.c\<close> as the lists of words the code
  fills, and the walk the processor makes over them (\<open>walk\<close>: 4 MB pages, 4 kB pages, present, write
  and user bits). \<open>page_table_end\<close> is the word that follows \<open>page_table\<close> in memory, which
  \<open>create_pages\<close> writes; the addresses of the two tables are link-time constants kept in the record.
  The code reloads CR3 after each change that a later access relies on, so the walk reads the
  tables as they are (no stale translation is modelled).
\<close>

abbreviation PAGE_SIZE :: "'a::numeral" where "PAGE_SIZE \<equiv> 1024"
abbreviation VM_ADDR :: "'a::numeral" where "VM_ADDR \<equiv> 184"
abbreviation FOUR_KB :: "'a::numeral" where "FOUR_KB \<equiv> 4096"
abbreviation OFF_8KB :: "'a::numeral" where "OFF_8KB \<equiv> 0x2000"
abbreviation OFF_4MB :: "'a::numeral" where "OFF_4MB \<equiv> 0x400000"
abbreviation OFF_8MB :: "'a::numeral" where "OFF_8MB \<equiv> 0x800000"
abbreviation OFF_128MB :: "'a::numeral" where "OFF_128MB \<equiv> 0x8000000"
abbreviation VIDEO :: "'a::numeral" where "VIDEO \<equiv> 0xB8000"

record paging =
  page_directory :: "u32 list"
  page_table :: "u32 list"
  page_table_end :: u32
  page_table_2 :: "u32 list"
  page_table_addr :: u32
  page_table_2_addr :: u32
  paging_on :: bool
  video_start :: nat
  terminal_start :: nat
  program_start :: nat

subsection \<open>Filling the tables\<close>

definition set_pde :: "int \<Rightarrow> u32 \<Rightarrow> paging \<Rightarrow> paging option" where
  "set_pde i v pg = do { d \<leftarrow> arr_set (page_directory pg) i v; Some (pg\<lparr>page_directory := d\<rparr>) }"

definition set_pte :: "int \<Rightarrow> u32 \<Rightarrow> paging \<Rightarrow> paging option" where
  "set_pte i v pg =
     (if i = int (length (page_table pg)) then Some (pg\<lparr>page_table_end := v\<rparr>)
      else do { t \<leftarrow> arr_set (page_table pg) i v; Some (pg\<lparr>page_table := t\<rparr>) })"

definition set_pte_2 :: "int \<Rightarrow> u32 \<Rightarrow> paging \<Rightarrow> paging option" where
  "set_pte_2 i v pg = do { t \<leftarrow> arr_set (page_table_2 pg) i v; Some (pg\<lparr>page_table_2 := t\<rparr>) }"

text \<open>
  The second loop of the code counts with \<open>j\<close> but stores to \<open>page_table[i]\<close>, where the first loop
  has left \<open>i\<close> at 1024.
\<close>

definition create_pages :: "paging \<Rightarrow> paging option" where
  "create_pages pg =
     do { pg \<leftarrow> for_each [0..<PAGE_SIZE] (\<lambda>i pg. set_pde (int i) 0x2 pg) pg;
          let i = PAGE_SIZE;
          let pg = pg\<lparr>video_start := FOUR_KB * VM_ADDR\<rparr>;
          (offset, pg) \<leftarrow> for_each [0..<PAGE_SIZE]
            (\<lambda>j (offset, pg). do { pg \<leftarrow> set_pte i (offset OR 0x6) pg; Some (offset + FOUR_KB, pg) })
            (0, pg);
          pg \<leftarrow> set_pte VM_ADDR (FOUR_KB * VM_ADDR OR 0x7) pg;
          pg \<leftarrow> set_pte (VM_ADDR + 1) (FOUR_KB * (VM_ADDR + 1) OR 0x7) pg;
          pg \<leftarrow> set_pte (VM_ADDR + 2) (FOUR_KB * (VM_ADDR + 2) OR 0x7) pg;
          pg \<leftarrow> set_pte (VM_ADDR + 3) (FOUR_KB * (VM_ADDR + 3) OR 0x7) pg;
          let pg = pg\<lparr>terminal_start := FOUR_KB * (VM_ADDR + 1)\<rparr>;
          pg \<leftarrow> set_pde 0 (page_table_addr pg OR 0x3) pg;
          set_pde 1 0x400083 pg }"

definition init_paging :: "paging \<Rightarrow> paging option" where
  "init_paging pg =
     do { pg \<leftarrow> create_pages (pg\<lparr>program_start := 0x8048000\<rparr>);
          Some (pg\<lparr>paging_on := True\<rparr>) }"

definition create_process_page :: "u32 \<Rightarrow> paging \<Rightarrow> paging option" where
  "create_process_page pid pg =
     do { pg \<leftarrow> set_pde 32 (0x0800000 + pid * 0x400000) pg;
          e \<leftarrow> arr_get (page_directory pg) 32;
          set_pde 32 (e OR 0x87) pg }"

definition vidmap_helper :: "u32 \<Rightarrow> paging \<Rightarrow> paging option" where
  "vidmap_helper input pg =
     do { let input2 = drop_bit 22 input;
          pg \<leftarrow> set_pde (uint input2) (page_table_2_addr pg OR 0x7) pg;
          let vmem = VIDEO;
          set_pte_2 0 (vmem OR 0x7) pg }"

definition remap_vidmem :: "int \<Rightarrow> paging \<Rightarrow> paging option" where
  "remap_vidmem process pg =
     set_pte_2 0 (word_of_int (FOUR_KB * (VM_ADDR + process + 1)) OR 0x7) pg"

definition debug_remap :: "paging \<Rightarrow> paging option" where
  "debug_remap pg = set_pte (VM_ADDR + 1) (FOUR_KB * VM_ADDR OR 0x7) pg"

definition end_vidmap :: "paging \<Rightarrow> paging option" where
  "end_vidmap pg = set_pte_2 0 0x2 pg"

definition vidmap_present :: "paging \<Rightarrow> u32 option" where
  "vidmap_present pg = do { e \<leftarrow> arr_get (page_table_2 pg) 0; Some (e AND 0x1) }"

subsection \<open>The processor's walk\<close>

record translation =
  phys_addr :: nat
  user_page :: bool
  writable :: bool

definition table_at :: "paging \<Rightarrow> u32 \<Rightarrow> u32 list option" where
  "table_at pg base =
     (if base = page_table_addr pg then Some (page_table pg)
      else if base = page_table_2_addr pg then Some (page_table_2 pg)
      else None)"

definition walk :: "paging \<Rightarrow> nat \<Rightarrow> translation option" where
  "walk pg a =
     (if \<not> paging_on pg then Some \<lparr>phys_addr = a, user_page = True, writable = True\<rparr>
      else do {
        pde \<leftarrow> arr_get (page_directory pg) (int (a div 0x400000));
        if \<not> bit pde 0 then None
        else if bit pde 7 then
          Some \<lparr>phys_addr = unat (pde AND 0xFFC00000) + a mod 0x400000,
                user_page = bit pde 2, writable = bit pde 1\<rparr>
        else do {
          table \<leftarrow> table_at pg (pde AND 0xFFFFF000);
          pte \<leftarrow> arr_get table (int (a div 0x1000 mod 1024));
          if \<not> bit pte 0 then None
          else Some \<lparr>phys_addr = unat (pte AND 0xFFFFF000) + a mod 0x1000,
                user_page = bit pde 2 \<and> bit pte 2, writable = bit pde 1 \<and> bit pte 1\<rparr> } })"

text \<open>What the kernel reaches, and what code at user level may touch.\<close>

definition kernel_xlat :: "paging \<Rightarrow> xlat" where
  "kernel_xlat pg a = map_option phys_addr (walk pg a)"

definition user_xlat :: "paging \<Rightarrow> xlat" where
  "user_xlat pg a =
     (case walk pg a of None \<Rightarrow> None | Some t \<Rightarrow> if user_page t then Some (phys_addr t) else None)"

subsection \<open>Tables before and after initialisation\<close>

text \<open>The tables as the program image has them: in its zeroed data, 4 kB-aligned and distinct.\<close>

definition tables_ok :: "paging \<Rightarrow> bool" where
  "tables_ok pg \<longleftrightarrow>
     length (page_directory pg) = 1024 \<and> length (page_table pg) = 1024 \<and>
     length (page_table_2 pg) = 1024 \<and>
     page_table_addr pg AND 0xFFF = 0 \<and> page_table_2_addr pg AND 0xFFF = 0 \<and>
     page_table_addr pg \<noteq> page_table_2_addr pg"

definition zero_tables :: "paging \<Rightarrow> bool" where
  "zero_tables pg \<longleftrightarrow> page_table pg = replicate 1024 0 \<and> page_table_2 pg = replicate 1024 0"

lemma tag_address:
  fixes w t :: u32
  assumes "w AND 0xFFF = 0" and "t AND 0xFFFFF000 = 0"
  shows "(w OR t) AND 0xFFFFF000 = w"
proof -
  have m: "(0xFFF OR 0xFFFFF000 :: u32) = - 1" 
    by (simp add: word_eq_iff_unsigned [where 'a = int] unsigned_minus_1_eq_mask mask_eq_exp_minus_1)
  have "w = w AND (0xFFF OR 0xFFFFF000)" unfolding m by simp
  also have "\<dots> = w AND 0xFFFFF000" unfolding bit.conj_disj_distrib using assms(1) by simp
  finally have "w AND 0xFFFFF000 = w" by simp
  then show ?thesis using assms(2) by (simp add: bit.conj_disj_distrib2)
qed

lemma tag_bit:
  fixes w t :: u32
  assumes "w AND 0xFFF = 0" and "bit (0xFFF :: u32) n"
  shows "bit (w OR t) n \<longleftrightarrow> bit t n"
proof -
  have "bit (w AND 0xFFF) n \<longleftrightarrow> bit w n" using assms(2) by (simp add: bit_and_iff)
  then show ?thesis using assms(1) by (simp add: bit_or_iff)
qed


lemma directory_loop:
  assumes "length (page_directory pg) = 1024"
  shows "for_each [0..<PAGE_SIZE] (\<lambda>i pg. set_pde (int i) 0x2 pg) pg
      = Some (pg\<lparr>page_directory := replicate 1024 0x2\<rparr>)"
proof -
  have "\<exists>pg'. for_each [0..<PAGE_SIZE] (\<lambda>i pg. set_pde (int i) 0x2 pg) pg = Some pg' \<and>
      pg' = pg\<lparr>page_directory := replicate 1024 0x2 @ drop 1024 (page_directory pg)\<rparr>"
    by (rule for_each_upt [where P = "\<lambda>i pg'.
          pg' = pg\<lparr>page_directory := replicate i 0x2 @ drop i (page_directory pg)\<rparr>"])
      (use assms in \<open>auto simp: set_pde_def arr_set_nat list_update_append replicate_append_same
         Cons_nth_drop_Suc [symmetric]\<close>)
  then show ?thesis using assms by simp
qed

lemma table_loop:
  assumes "length (page_table pg) = 1024"
  shows "for_each [0..<PAGE_SIZE]
      (\<lambda>j (offset, pg). do { pg \<leftarrow> set_pte PAGE_SIZE (offset OR 0x6) pg; Some (offset + FOUR_KB, pg) })
      (0, pg) = Some (0x400000, pg\<lparr>page_table_end := 0x3FF006\<rparr>)"
    (is "for_each _ ?f _ = _")
proof -
  have "\<exists>r. for_each [0..<1023] ?f (0, pg) = Some r \<and>
      fst r = word_of_nat (4096 * 1023) \<and> (\<exists>e. snd r = pg\<lparr>page_table_end := e\<rparr>)"
    by (rule for_each_upt [where P = "\<lambda>j r. fst r = word_of_nat (4096 * j) \<and>
          (\<exists>e. snd r = pg\<lparr>page_table_end := e\<rparr>)"])
      (use assms in \<open>auto simp: set_pte_def intro: exI [of _ "page_table_end pg"]\<close>)
  then obtain e where "for_each [0..<1023] ?f (0, pg) = Some (0x3FF000, pg\<lparr>page_table_end := e\<rparr>)"
    by auto
  moreover have "[0..<PAGE_SIZE] = [0..<1023] @ [1023 :: nat]"
    by (simp add: upt_Suc_append [symmetric])
  ultimately show ?thesis
    using assms by (simp add: for_each_append set_pte_def)
qed

definition boot_directory :: "paging \<Rightarrow> u32 list" where
  "boot_directory pg = (replicate 1024 0x2)[0 := page_table_addr pg OR 0x3, 1 := 0x400083]"

definition video_entries :: "u32 list \<Rightarrow> u32 list" where
  "video_entries t = t[184 := 0xB8007, 185 := 0xB9007, 186 := 0xBA007, 187 := 0xBB007]"

lemma create_pages_eq:
  assumes "tables_ok pg"
  shows "create_pages pg = Some (pg\<lparr>page_directory := boot_directory pg,
     page_table := video_entries (page_table pg), page_table_end := 0x3FF006,
     video_start := VIDEO, terminal_start := 0xB9000\<rparr>)"
  using assms directory_loop [of pg]
    table_loop [of "pg\<lparr>page_directory := replicate 1024 2, video_start := 753664\<rparr>"]
  by (simp add: tables_ok_def create_pages_def set_pte_def set_pde_def arr_set_in
      video_entries_def boot_directory_def)

subsection \<open>The invariant of the page tables\<close>

text \<open>
  After \<open>init_paging\<close> the kernel only changes directory entry 32 (the 4 MB program page of process
  \<open>prog\<close>, once one has run), directory entry 34 and entry 0 of \<open>page_table_2\<close> (the page
  \<open>vidmap\<close> gives out, which shows the screen or the saved screen of a terminal).
\<close>

definition process_pde :: "nat \<Rightarrow> u32" where
  "process_pde pid = (0x800000 + word_of_nat pid * 0x400000) OR 0x87"

definition video_pte :: "u32 \<Rightarrow> bool" where
  "video_pte e \<longleftrightarrow> e \<in> {0, 0x2, 0xB8007, 0xB9007, 0xBA007, 0xBB007}"

definition paging_inv :: "nat option \<Rightarrow> paging \<Rightarrow> bool" where
  "paging_inv prog pg \<longleftrightarrow>
     tables_ok pg \<and> paging_on pg \<and> video_start pg = VIDEO \<and> program_start pg = 0x8048000 \<and>
     (case prog of None \<Rightarrow> True | Some pid \<Rightarrow> pid < 6) \<and>
     (\<exists>v \<in> {0x2, page_table_2_addr pg OR 0x7}. page_directory pg = (boot_directory pg)
        [32 := case prog of None \<Rightarrow> 0x2 | Some pid \<Rightarrow> process_pde pid, 34 := v]) \<and>
     page_table pg = video_entries (replicate 1024 0) \<and>
     (\<exists>e. video_pte e \<and> page_table_2 pg = (replicate 1024 0)[0 := e])"

lemma paging_inv_tables: "paging_inv prog pg \<Longrightarrow> tables_ok pg"
  by (simp add: paging_inv_def)

lemma paging_inv_init:
  assumes "tables_ok pg" and "zero_tables pg"
  shows "\<exists>pg'. init_paging pg = Some pg' \<and> paging_inv None pg'"
proof -
  let ?pg = "pg\<lparr>program_start := 0x8048000\<rparr>"
  have t: "tables_ok ?pg" using assms(1) by (simp add: tables_ok_def)
  have d: "boot_directory ?pg = (boot_directory pg)[32 := 0x2, 34 := 0x2]"
    by (intro nth_equalityI) (auto simp: boot_directory_def nth_list_update)
  have z: "(replicate 1024 0 :: u32 list)[0 := 0] = replicate 1024 0"
    by (simp add: list_update_same_conv)
  show ?thesis
    using assms d z
    by (simp add: init_paging_def create_pages_eq [OF t] paging_inv_def zero_tables_def
        video_pte_def tables_ok_def boot_directory_def video_entries_def) (metis z)
qed

lemma paging_inv_process:
  assumes "paging_inv prog pg" and "pid < 6"
  shows "\<exists>pg'. create_process_page (word_of_nat pid) pg = Some pg' \<and> paging_inv (Some pid) pg'"
proof -
  from assms(1) obtain v p where v: "v \<in> {0x2, page_table_2_addr pg OR 0x7}"
    and d: "page_directory pg = (boot_directory pg)[32 := p, 34 := v]"
    by (auto simp: paging_inv_def)
  have l: "length (page_directory pg) = 1024" using assms(1) by (simp add: paging_inv_def tables_ok_def)
  have "(page_directory pg)[32 := process_pde pid] = (boot_directory pg)[32 := process_pde pid, 34 := v]"
    unfolding d by (simp add: list_update_swap [of 34 32])
  then show ?thesis
    using assms v l
    by (auto simp: create_process_page_def set_pde_def arr_set_in arr_get_in process_pde_def [symmetric]
        paging_inv_def tables_ok_def boot_directory_def)
qed

lemma paging_inv_vidmap:
  assumes "paging_inv prog pg"
  shows "\<exists>pg'. vidmap_helper 0x8800000 pg = Some pg' \<and> paging_inv prog pg'"
proof -
  from assms obtain v e p where v: "page_directory pg = (boot_directory pg)[32 := p, 34 := v]"
    and e: "page_table_2 pg = (replicate 1024 0)[0 := e]"
    and p: "p = (case prog of None \<Rightarrow> 0x2 | Some pid \<Rightarrow> process_pde pid)"
    by (auto simp: paging_inv_def)
  have "length (page_directory pg) = 1024" "length (page_table_2 pg) = 1024"
    using assms by (simp_all add: paging_inv_def tables_ok_def)
  then show ?thesis
    using assms v e p
    by (auto simp: vidmap_helper_def set_pde_def set_pte_2_def arr_set_in paging_inv_def tables_ok_def
        boot_directory_def video_pte_def)
qed

lemma set_video_pte:
  assumes "paging_inv prog pg" and "video_pte e"
  shows "\<exists>pg'. set_pte_2 0 e pg = Some pg' \<and> paging_inv prog pg'"
proof -
  from assms obtain e' where "page_table_2 pg = (replicate 1024 0)[0 := e']"
    by (auto simp: paging_inv_def)
  moreover have "length (page_table_2 pg) = 1024" using assms by (simp add: paging_inv_def tables_ok_def)
  ultimately show ?thesis
    using assms by (auto simp: set_pte_2_def arr_set_in paging_inv_def tables_ok_def boot_directory_def)
qed

lemma paging_inv_remap:
  assumes "paging_inv prog pg" and "process \<in> {-1, 0, 1, 2}"
  shows "\<exists>pg'. remap_vidmem process pg = Some pg' \<and> paging_inv prog pg'"
  unfolding remap_vidmem_def using assms(2) by (intro set_video_pte [OF assms(1)]) (auto simp: video_pte_def)

subsection \<open>What the walk finds\<close>

lemma directory_entry:
  assumes "paging_inv prog pg" and "k < 1024"
  obtains v where "v \<in> {0x2, page_table_2_addr pg OR 0x7}"
    and "page_directory pg ! k = (if k = 0 then page_table_addr pg OR 0x3 else if k = 1 then 0x400083
       else if k = 32 then (case prog of None \<Rightarrow> 0x2 | Some pid \<Rightarrow> process_pde pid)
       else if k = 34 then v else 0x2)"
proof -
  from assms(1) obtain v where v: "v \<in> {0x2, page_table_2_addr pg OR 0x7}"
    and d: "page_directory pg = (boot_directory pg)
        [32 := case prog of None \<Rightarrow> 0x2 | Some pid \<Rightarrow> process_pde pid, 34 := v]"
    by (auto simp: paging_inv_def)
  show thesis
    by (rule that [OF v]) (use assms(2) in \<open>auto simp: d boot_directory_def nth_list_update\<close>)
qed

lemma process_pde_bits:
  assumes "pid < 6"
  shows "bit (process_pde pid) 0" "bit (process_pde pid) 1" "bit (process_pde pid) 2"
    "bit (process_pde pid) 7" "unat (process_pde pid AND 0xFFC00000) = OFF_8MB + OFF_4MB * pid"
proof -
  from assms have "pid = 0 \<or> pid = 1 \<or> pid = 2 \<or> pid = 3 \<or> pid = 4 \<or> pid = 5" by linarith
  then show "bit (process_pde pid) 0" "bit (process_pde pid) 1" "bit (process_pde pid) 2"
    "bit (process_pde pid) 7" "unat (process_pde pid AND 0xFFC00000) = OFF_8MB + OFF_4MB * pid"
    by (auto simp: process_pde_def)
qed

lemma walk_4MB:
  assumes "tables_ok pg" and "paging_on pg" and "a div 0x400000 = k" and "k < 1024"
    and "page_directory pg ! k = e" and "bit e 0" and "bit e 7"
  shows "walk pg a = Some \<lparr>phys_addr = unat (e AND 0xFFC00000) + a mod 0x400000,
    user_page = bit e 2, writable = bit e 1\<rparr>"
  using assms by (simp add: walk_def tables_ok_def arr_get_nat)

lemma walk_absent:
  assumes "tables_ok pg" and "paging_on pg" and "k < 1024 \<Longrightarrow> \<not> bit (page_directory pg ! k) 0"
    and "a div 0x400000 = k"
  shows "walk pg a = None"
proof (cases "k < 1024")
  case True
  then show ?thesis using assms by (simp add: walk_def tables_ok_def arr_get_nat)
next
  case False
  then show ?thesis using assms by (simp add: walk_def tables_ok_def arr_get_outside)
qed

lemma walk_4kB:
  assumes "tables_ok pg" and "paging_on pg" and "a div 0x400000 = k" and "k < 1024"
    and "page_directory pg ! k = base OR t" and "base AND 0xFFF = 0" and "t = 0x3 \<or> t = 0x7"
    and "table_at pg base = Some table" and "length table = 1024"
    and "table ! (a div 0x1000 mod 1024) = e"
  shows "walk pg a =
    (if bit e 0 then Some \<lparr>phys_addr = unat (e AND 0xFFFFF000) + a mod 0x1000,
       user_page = bit t 2 \<and> bit e 2, writable = bit e 1\<rparr> else None)"
proof -
  have "bit (base OR t) 0" "\<not> bit (base OR t) 7" "bit (base OR t) 1" "bit (base OR t) 2 = bit t 2"
    "(base OR t) AND 0xFFFFF000 = base"
    using assms(7) by (auto simp: tag_bit [OF assms(6)] tag_address [OF assms(6)])
  moreover have "arr_get table (int (a div 0x1000 mod 1024)) = Some e"
    using assms(9,10) by (simp add: arr_get_nat del: of_nat_mod)
  ultimately show ?thesis
    using assms by (simp add: walk_def tables_ok_def arr_get_nat)
qed

text \<open>The kernel's 4 MB page and the four video pages are mapped to themselves; no user access.\<close>

lemma walk_kernel_page:
  assumes "paging_inv prog pg" and "OFF_4MB \<le> a" and "a < OFF_8MB"
  shows "walk pg a = Some \<lparr>phys_addr = a, user_page = False, writable = True\<rparr>"
proof -
  have k: "a div 0x400000 = 1" and m: "a mod 0x400000 = a - 0x400000"
    using assms(2,3) by (auto simp: div_nat_eqI mod_nat_eqI)
  have d: "page_directory pg ! 1 = 0x400083"
    by (rule directory_entry [OF assms(1), of 1]) simp_all
  show ?thesis
    using assms walk_4MB [OF _ _ k _ d] m by (simp add: paging_inv_def)
qed

lemma video_entries_nth:
  "k < 1024 \<Longrightarrow> video_entries (replicate 1024 0) ! k =
     (if 184 \<le> k \<and> k < 188 then word_of_nat (0x1000 * k) OR 0x7 else 0)"
proof -
  assume k: "k < 1024"
  consider "k = 184" | "k = 185" | "k = 186" | "k = 187" | "k < 184 \<or> 188 \<le> k" by linarith
  then show ?thesis using k by cases (auto simp: video_entries_def nth_list_update)
qed

lemma walk_low:
  assumes "paging_inv prog pg" and "a < OFF_4MB"
  shows "walk pg a = (if VIDEO \<le> a \<and> a < 0xBC000
    then Some \<lparr>phys_addr = a, user_page = False, writable = True\<rparr> else None)"
proof -
  let ?k = "a div 0x1000"
  have k: "?k < 1024" using assms(2) by (simp add: less_mult_imp_div_less)
  have d: "page_directory pg ! 0 = page_table_addr pg OR 0x3"
    by (rule directory_entry [OF assms(1), of 0]) simp_all
  have "walk pg a = (let e = video_entries (replicate 1024 0) ! ?k in
     if bit e 0 then Some \<lparr>phys_addr = unat (e AND 0xFFFFF000) + a mod 0x1000,
        user_page = False, writable = bit e 1\<rparr> else None)"
    using assms k
    by (subst walk_4kB [where base = "page_table_addr pg" and t = 3 and k = 0 and table = "page_table pg"])
      (auto simp: paging_inv_def tables_ok_def d table_at_def video_entries_def Let_def)
  moreover have "VIDEO \<le> a \<and> a < 0xBC000 \<longleftrightarrow> 184 \<le> ?k \<and> ?k < 188"
    by (simp add: less_eq_div_iff_mult_less_eq div_less_iff_less_mult)
  moreover have "bit (word_of_nat (0x1000 * ?k) OR 0x7 :: u32) 0 \<and> bit (word_of_nat (0x1000 * ?k) OR 0x7 :: u32) 1
      \<and> unat ((word_of_nat (0x1000 * ?k) OR 0x7 :: u32) AND 0xFFFFF000) = 0x1000 * ?k"
    if "184 \<le> ?k" "?k < 188"
  proof -
    have "?k = 184 \<or> ?k = 185 \<or> ?k = 186 \<or> ?k = 187" using that by linarith
    then show ?thesis by (elim disjE) simp_all
  qed
  ultimately show ?thesis
    using k by (simp add: video_entries_nth Let_def)
qed

lemma walk_process_page:
  assumes "paging_inv (Some pid) pg" and "OFF_128MB \<le> a" and "a < OFF_128MB + OFF_4MB"
  shows "walk pg a = Some \<lparr>phys_addr = OFF_8MB + OFF_4MB * pid + (a - OFF_128MB),
    user_page = True, writable = True\<rparr>"
proof -
  have k: "a div 0x400000 = 32" and m: "a mod 0x400000 = a - OFF_128MB"
    using assms(2,3) by (auto simp: div_nat_eqI mod_nat_eqI)
  have pid: "pid < 6" using assms(1) by (simp add: paging_inv_def)
  have d: "page_directory pg ! 32 = process_pde pid"
    by (rule directory_entry [OF assms(1), of 32]) simp_all
  show ?thesis
    using assms walk_4MB [OF _ _ k _ d] m process_pde_bits [OF pid] by (simp add: paging_inv_def)
qed

text \<open>Above the kernel only the program page and the \<open>vidmap\<close> page exist.\<close>

lemma walk_high:
  assumes "paging_inv prog pg" and "OFF_8MB \<le> a" and "walk pg a = Some t"
  shows "(\<exists>pid. prog = Some pid \<and> OFF_128MB \<le> a \<and> a < OFF_128MB + OFF_4MB \<and>
       phys_addr t = OFF_8MB + OFF_4MB * pid + (a - OFF_128MB))
     \<or> (0x8800000 \<le> a \<and> a < 0x8801000 \<and> VIDEO \<le> phys_addr t \<and> phys_addr t < 0xBC000)"
proof -
  let ?k = "a div 0x400000"
  have ok: "tables_ok pg" "paging_on pg" using assms(1) by (simp_all add: paging_inv_def)
  have k2: "2 \<le> ?k" using assms(2) by (simp add: less_eq_div_iff_mult_less_eq)
  have k: "?k < 1024"
    using walk_absent [OF ok, of ?k a] assms(3) by (cases "?k < 1024") auto
  obtain v where v: "v \<in> {0x2, page_table_2_addr pg OR 0x7}"
    and d: "page_directory pg ! ?k = (if ?k = 0 then page_table_addr pg OR 0x3
       else if ?k = 1 then 0x400083
       else if ?k = 32 then (case prog of None \<Rightarrow> 0x2 | Some pid \<Rightarrow> process_pde pid)
       else if ?k = 34 then v else 0x2)"
    using directory_entry [OF assms(1) k] by blast
  have "bit (page_directory pg ! ?k) 0"
    using walk_absent [OF ok, of ?k a] assms(3) by auto
  then consider (prog) pid where "?k = 32" "prog = Some pid" | (vid) "?k = 34" "v = page_table_2_addr pg OR 0x7"
    using d k2 v by (cases prog) (auto split: if_splits)
  then show ?thesis
  proof cases
    case prog
    have "OFF_128MB \<le> a" "a < OFF_128MB + OFF_4MB"
      using prog(1) by linarith+
    then show ?thesis using walk_process_page [of pid pg a] assms prog by auto
  next
    case vid
    obtain e where e: "video_pte e" "page_table_2 pg = (replicate 1024 0)[0 := e]"
      using assms(1) by (auto simp: paging_inv_def)
    let ?e = "page_table_2 pg ! (a div 0x1000 mod 1024)"
    have "page_directory pg ! ?k = page_table_2_addr pg OR 0x7" using d vid by simp
    then have w: "walk pg a = (if bit ?e 0 then Some \<lparr>phys_addr = unat (?e AND 0xFFFFF000) + a mod 0x1000,
       user_page = bit (7 :: u32) 2 \<and> bit ?e 2, writable = bit ?e 1\<rparr> else None)"
      using ok k by (intro walk_4kB [where base = "page_table_2_addr pg" and k = ?k and table = "page_table_2 pg"])
        (auto simp: tables_ok_def table_at_def)
    then have b: "bit ?e 0" using assms(3) by (auto split: if_splits)
    have i: "a div 0x1000 mod 1024 = 0"
    proof (rule ccontr)
      assume "a div 0x1000 mod 1024 \<noteq> 0"
      then have "?e = 0" by (simp add: e(2) nth_list_update)
      then show False using b by simp
    qed
    have "?e = e" unfolding i e(2) by simp
    then have pa: "phys_addr t = unat (e AND 0xFFFFF000) + a mod 0x1000" "bit e 0"
      using w assms(3) b by auto
    have "unat (e AND 0xFFFFF000) \<in> {0xB8000, 0xB9000, 0xBA000, 0xBB000}"
      using e(1) pa(2) by (auto simp: video_pte_def)
    moreover have "a div 0x1000 = 1024 * (a div 0x1000 div 1024) + a div 0x1000 mod 1024" by simp
    then have "a div 0x1000 = 0x8800" using i vid(1) by (simp add: div_mult2_eq [symmetric])
    then have "0x8800000 \<le> a" "a < 0x8801000"
      by linarith+
    ultimately show ?thesis using pa(1) mod_less_divisor [of "0x1000"] by fastforce
  qed
qed

subsection \<open>Properties\<close>

text \<open>The tables of the kernel image for the concrete instances, at two page-aligned addresses.\<close>

definition image_paging :: paging where
  "image_paging = \<lparr>page_directory = replicate 1024 0, page_table = replicate 1024 0,
     page_table_end = 0, page_table_2 = replicate 1024 0, page_table_addr = 0x410000,
     page_table_2_addr = 0x411000, paging_on = False, video_start = 0, terminal_start = 0,
     program_start = 0\<rparr>"

lemma image_paging_ok: "tables_ok image_paging" "zero_tables image_paging"
  by (simp_all add: image_paging_def tables_ok_def zero_tables_def)

text \<open>The page tables of a kernel that has set up paging and since run processes, given out the
  \<open>vidmap\<close> page and switched it between terminals, in any order; \<open>prog\<close> is the last process.\<close>

inductive built :: "nat option \<Rightarrow> paging \<Rightarrow> bool" where
  built_init: "tables_ok pg \<Longrightarrow> zero_tables pg \<Longrightarrow> init_paging pg = Some pg' \<Longrightarrow> built None pg'"
| built_process: "built prog pg \<Longrightarrow> pid < 6 \<Longrightarrow> create_process_page (word_of_nat pid) pg = Some pg' \<Longrightarrow>
    built (Some pid) pg'"
| built_vidmap: "built prog pg \<Longrightarrow> vidmap_helper 0x8800000 pg = Some pg' \<Longrightarrow> built prog pg'"
| built_remap: "built prog pg \<Longrightarrow> process \<in> {-1, 0, 1, 2} \<Longrightarrow> remap_vidmem process pg = Some pg' \<Longrightarrow> built prog pg'"

lemma built_inv: "built prog pg \<Longrightarrow> paging_inv prog pg"
proof (induction rule: built.induct)
  case (built_init pg pg')
  then show ?case using paging_inv_init [of pg] by auto
next
  case (built_process prog pg pid pg')
  then show ?case using paging_inv_process [of prog pg pid] by auto
next
  case (built_vidmap prog pg pg')
  then show ?case using paging_inv_vidmap [of prog pg] by auto
next
  case (built_remap prog pg process pg')
  then show ?case using paging_inv_remap [of prog pg process] by auto
qed

lemma image_paging_built:
  assumes "pid < 6"
  shows "\<exists>pg. built (Some pid) pg"
proof -
  obtain pg where pg: "init_paging image_paging = Some pg" "paging_inv None pg"
    using paging_inv_init [OF image_paging_ok] by blast
  obtain pg' where "create_process_page (word_of_nat pid) pg = Some pg'"
    using paging_inv_process [OF pg(2) assms] by blast
  then show ?thesis using built_process [OF built_init [OF image_paging_ok pg(1)] assms] by blast
qed

lemma user_frames:
  assumes "paging_inv prog pg" and "user_xlat pg a = Some p"
  shows "(\<exists>pid. prog = Some pid \<and> OFF_128MB \<le> a \<and> a < OFF_128MB + OFF_4MB \<and>
       p = OFF_8MB + OFF_4MB * pid + (a - OFF_128MB))
     \<or> (0x8800000 \<le> a \<and> a < 0x8801000 \<and> VIDEO \<le> p \<and> p < 0xBC000)"
proof -
  obtain t where t: "walk pg a = Some t" "user_page t" "p = phys_addr t"
    using assms(2) by (auto simp: user_xlat_def split: option.splits if_splits)
  have "OFF_8MB \<le> a"
  proof (rule ccontr)
    assume "\<not> OFF_8MB \<le> a"
    then consider "a < OFF_4MB" | "OFF_4MB \<le> a" "a < OFF_8MB" by linarith
    then show False
      using walk_low [OF assms(1), of a] walk_kernel_page [OF assms(1), of a] t
      by cases (auto split: if_splits)
  qed
  then show ?thesis using walk_high [OF assms(1) _ t(1)] t(3) by fastforce
qed

text \<open>C4. Isolation of user programs: whatever sequence of \<open>init_paging\<close>, \<open>create_process_page\<close>,
  \<open>vidmap_helper\<close> and \<open>remap_vidmem\<close> built the page tables, code at user level can reach only the
  4 MB frame of the process that was mapped last (virtual 128 to 132 MB, frame 8 MB + 4 MB pid) and,
  once \<open>vidmap\<close> has run, one video page; never the kernel, the file system image, the low memory or
  the frame of another process.\<close>

theorem user_isolation:
  assumes "built prog pg" and "user_xlat pg a = Some p"
  shows "(\<exists>pid. prog = Some pid \<and> OFF_128MB \<le> a \<and> a < OFF_128MB + OFF_4MB \<and>
       p = OFF_8MB + OFF_4MB * pid + (a - OFF_128MB) \<and>
       (\<forall>q. q \<noteq> pid \<longrightarrow> \<not> (OFF_8MB + OFF_4MB * q \<le> p \<and> p < OFF_8MB + OFF_4MB * Suc q)))
     \<or> (0x8800000 \<le> a \<and> a < 0x8801000 \<and> VIDEO \<le> p \<and> p < 0xBC000)"
proof -
  have "q = pid" if "OFF_8MB + OFF_4MB * q \<le> p" "p < OFF_8MB + OFF_4MB * Suc q"
    "OFF_8MB + OFF_4MB * pid \<le> p" "p < OFF_8MB + OFF_4MB * Suc pid" for q pid :: nat
    using that by simp
  then show ?thesis using user_frames [OF built_inv [OF assms(1)] assms(2)] by fastforce
qed

theorem user_isolation_witness:
  "\<exists>pg p. built (Some 1) pg \<and> user_xlat pg 0x8048000 = Some p \<and> p = 0xC48000"
proof -
  obtain pg where pg: "built (Some 1) pg" using image_paging_built [of 1] by auto
  have x: "user_xlat pg 0x8048000 = Some 0xC48000"
    using walk_process_page [OF built_inv [OF pg], of "0x8048000"] by (simp add: user_xlat_def)
  then have "(0xC48000 :: nat) = OFF_8MB + OFF_4MB * 1 + (0x8048000 - OFF_128MB)"
    using user_isolation [OF pg x] by auto
  with pg x show ?thesis by blast
qed

text \<open>C22. The invariant of the page tables: \<open>init_paging\<close> establishes it on the tables of the kernel
  image, and running a process, giving out the \<open>vidmap\<close> page and moving it to another terminal
  keep it, without a store outside the tables. Under it the kernel's 4 MB page and the four video
  pages are mapped to themselves, for the kernel only, and the current process's page is mapped to
  its frame.\<close>

theorem paging_invariant:
  shows "(tables_ok pg0 \<and> zero_tables pg0 \<longrightarrow> (\<exists>pg. init_paging pg0 = Some pg \<and> paging_inv None pg)) \<and>
    (paging_inv prog pg \<longrightarrow>
       (\<forall>pid \<in> {..<6}. \<exists>pg'. create_process_page (word_of_nat pid) pg = Some pg' \<and> paging_inv (Some pid) pg') \<and>
       (\<exists>pg'. vidmap_helper 0x8800000 pg = Some pg' \<and> paging_inv prog pg') \<and>
       (\<forall>process \<in> {-1, 0, 1, 2}. \<exists>pg'. remap_vidmem process pg = Some pg' \<and> paging_inv prog pg') \<and>
       (\<forall>a \<in> {OFF_4MB..<OFF_8MB} \<union> {VIDEO..<0xBC000}. kernel_xlat pg a = Some a \<and> user_xlat pg a = None) \<and>
       (\<forall>pid. prog = Some pid \<longrightarrow> (\<forall>off \<in> {..<OFF_4MB}.
          user_xlat pg (OFF_128MB + off) = Some (OFF_8MB + OFF_4MB * pid + off))))"
proof (intro conjI impI)
  show "\<exists>pg. init_paging pg0 = Some pg \<and> paging_inv None pg" if "tables_ok pg0 \<and> zero_tables pg0"
    using paging_inv_init that by blast
next
  assume inv: "paging_inv prog pg"
  show "\<forall>pid \<in> {..<6}. \<exists>pg'. create_process_page (word_of_nat pid) pg = Some pg' \<and> paging_inv (Some pid) pg'"
    using paging_inv_process [OF inv] by simp
  show "\<exists>pg'. vidmap_helper 0x8800000 pg = Some pg' \<and> paging_inv prog pg'"
    by (rule paging_inv_vidmap [OF inv])
  show "\<forall>process \<in> {-1, 0, 1, 2}. \<exists>pg'. remap_vidmem process pg = Some pg' \<and> paging_inv prog pg'"
    using paging_inv_remap [OF inv] by blast
  show "\<forall>a \<in> {OFF_4MB..<OFF_8MB} \<union> {VIDEO..<0xBC000}. kernel_xlat pg a = Some a \<and> user_xlat pg a = None"
    using walk_kernel_page [OF inv] walk_low [OF inv]
    by (auto simp: kernel_xlat_def user_xlat_def)
  show "\<forall>pid. prog = Some pid \<longrightarrow> (\<forall>off \<in> {..<OFF_4MB}.
          user_xlat pg (OFF_128MB + off) = Some (OFF_8MB + OFF_4MB * pid + off))"
    using inv walk_process_page by (auto simp: user_xlat_def)
qed

theorem paging_invariant_witness:
  "\<exists>pg. init_paging image_paging = Some pg \<and> paging_inv None pg \<and> kernel_xlat pg 0xB8000 = Some 0xB8000"
proof -
  obtain pg where pg: "init_paging image_paging = Some pg" "paging_inv None pg"
    using paging_invariant [THEN conjunct1] image_paging_ok by blast
  have "\<forall>a \<in> {OFF_4MB..<OFF_8MB} \<union> {VIDEO..<0xBC000}. kernel_xlat pg a = Some a \<and> user_xlat pg a = None"
    using paging_invariant [where prog = None and pg = pg, THEN conjunct2] pg(2) by blast
  with pg show ?thesis by auto
qed

text \<open>What \<open>create_pages\<close> does to the first page table: the 1024 stores of its second loop all go
  to \<open>page_table[1024]\<close>, one word past the array, so the entries the comment announces are never
  set: all but the four video entries keep what the image had there (absent pages), and the word
  after the table is left with 0x3FF006.\<close>

theorem create_pages_overrun:
  assumes "tables_ok pg"
  shows "\<exists>pg'. create_pages pg = Some pg' \<and> page_table_end pg' = 0x3FF006 \<and>
     (\<forall>k \<in> {..<1024} - {184..<188}. page_table pg' ! k = page_table pg ! k)"
  using create_pages_eq [OF assms] by (auto simp: video_entries_def nth_list_update)

theorem create_pages_overrun_witness:
  "\<exists>pg. create_pages image_paging = Some pg \<and> page_table_end pg = 0x3FF006 \<and> page_table pg ! 0 = 0"
  using create_pages_overrun [OF image_paging_ok(1)] by (auto simp: image_paging_def)

end
