(* ===== verification/Interrupt_Controller.thy ===== *)
theory Interrupt_Controller
  imports Prelude
begin

text \<open>
  Port output and the 8259 interrupt controllers (\<^verbatim>\<open>student-distrib/i8259.c\<close>). The kernel's effect
  on the devices is the list of the bytes it has written to ports, oldest first; what a port
  answers is a parameter \<open>inb\<close>, a function of that history. \<open>last_out\<close> is the last byte written to
  a port: the interrupt mask register of an 8259 reads back what was last written to it, which the
  lemmas on masks take as a hypothesis on \<open>inb\<close>.
\<close>

type_synonym outs = "(u16 \<times> u8) list"
type_synonym device = "outs \<Rightarrow> u16 \<Rightarrow> u8"

definition outb :: "u8 \<Rightarrow> u16 \<Rightarrow> outs \<Rightarrow> outs" where
  "outb data port log = log @ [(port, data)]"

definition last_out :: "u16 \<Rightarrow> outs \<Rightarrow> u8 option" where
  "last_out port log = map_of (rev log) port"

lemma last_out_outb [simp]:
  "last_out p (outb v q log) = (if p = q then Some v else last_out p log)"
  by (simp add: last_out_def outb_def)

abbreviation MASTER_8259_PORT :: u16 where "MASTER_8259_PORT \<equiv> 0x20"
abbreviation MASTER_8259_DATA :: u16 where "MASTER_8259_DATA \<equiv> 0x21"
abbreviation SLAVE_8259_PORT :: u16 where "SLAVE_8259_PORT \<equiv> 0xA0"
abbreviation SLAVE_8259_DATA :: u16 where "SLAVE_8259_DATA \<equiv> 0xA1"
abbreviation PIC_MASK_ALL :: u8 where "PIC_MASK_ALL \<equiv> 0xFF"
abbreviation EOI :: u8 where "EOI \<equiv> 0x60"

definition enable_irq :: "device \<Rightarrow> u32 \<Rightarrow> outs \<Rightarrow> outs" where
  "enable_irq inb irq_num log =
     (let (port, irq_num) = (if irq_num < 8 then (MASTER_8259_DATA, irq_num)
                             else (SLAVE_8259_DATA, irq_num - 8));
          val = ucast ((ucast (inb log port) :: u32) AND NOT (push_bit (unat irq_num) 1))
      in outb val port log)"

definition disable_irq :: "device \<Rightarrow> u32 \<Rightarrow> outs \<Rightarrow> outs" where
  "disable_irq inb irq_num log =
     (let (port, irq_num) = (if irq_num < 8 then (MASTER_8259_DATA, irq_num)
                             else (SLAVE_8259_DATA, irq_num - 8));
          val = ucast ((ucast (inb log port) :: u32) OR push_bit (unat irq_num) 1)
      in outb val port log)"

definition send_eoi :: "u32 \<Rightarrow> outs \<Rightarrow> outs" where
  "send_eoi irq_num log =
     (if irq_num \<ge> 8 then
        outb (EOI OR 2) MASTER_8259_PORT (outb (EOI OR ucast (irq_num - 8)) SLAVE_8259_PORT log)
      else outb (EOI OR ucast irq_num) MASTER_8259_PORT log)"

definition i8259_init :: "device \<Rightarrow> outs \<Rightarrow> outs" where
  "i8259_init inb log =
     (let master_mask = PIC_MASK_ALL; slave_mask = PIC_MASK_ALL;
          log = outb PIC_MASK_ALL MASTER_8259_DATA log;
          log = outb PIC_MASK_ALL SLAVE_8259_DATA log;
          log = outb 0x11 MASTER_8259_PORT log;
          log = outb 0x20 MASTER_8259_DATA log;
          log = outb 0x04 MASTER_8259_DATA log;
          log = outb 0x01 MASTER_8259_DATA log;
          log = outb 0x11 SLAVE_8259_PORT log;
          log = outb 0x28 SLAVE_8259_DATA log;
          log = outb 0x02 SLAVE_8259_DATA log;
          log = outb 0x01 SLAVE_8259_DATA log;
          log = outb master_mask MASTER_8259_DATA log;
          log = outb slave_mask SLAVE_8259_DATA log
      in enable_irq inb 2 log)"

subsection \<open>Masks\<close>

text \<open>The mask register of the controller an interrupt line belongs to, and its bit there.\<close>

definition irq_port :: "u32 \<Rightarrow> u16" where
  "irq_port irq = (if irq < 8 then MASTER_8259_DATA else SLAVE_8259_DATA)"

definition irq_bit :: "u32 \<Rightarrow> nat" where
  "irq_bit irq = (if irq < 8 then unat irq else unat (irq - 8))"

text \<open>The line is masked after the writes of a log: its bit is set in the last mask written.\<close>

definition masked :: "outs \<Rightarrow> u32 \<Rightarrow> bool" where
  "masked log irq = (case last_out (irq_port irq) log of None \<Rightarrow> True | Some v \<Rightarrow> bit v (irq_bit irq))"

text \<open>A controller answers a read of its mask register with the last mask written to it.\<close>

definition mask_readback :: "device \<Rightarrow> bool" where
  "mask_readback inb \<longleftrightarrow>
     (\<forall>log v. \<forall>p \<in> {MASTER_8259_DATA, SLAVE_8259_DATA}. last_out p log = Some v \<longrightarrow> inb log p = v)"

lemma mask_readbackD:
  "mask_readback inb \<Longrightarrow> last_out (irq_port irq) log = Some v \<Longrightarrow> inb log (irq_port irq) = v"
  by (auto simp: mask_readback_def irq_port_def)

lemma enable_irq_eq:
  "enable_irq inb irq log = outb (inb log (irq_port irq) AND NOT (push_bit (irq_bit irq) 1)) (irq_port irq) log"
proof -
  have "ucast ((ucast (b :: u8) :: u32) AND NOT (push_bit n 1)) = (b AND NOT (push_bit n 1) :: u8)" for b n
    by (rule bit_word_eqI) (auto simp: bit_simps)
  then show ?thesis by (simp add: enable_irq_def irq_port_def irq_bit_def Let_def)
qed

lemma disable_irq_eq:
  "disable_irq inb irq log = outb (inb log (irq_port irq) OR push_bit (irq_bit irq) 1) (irq_port irq) log"
proof -
  have "ucast ((ucast (b :: u8) :: u32) OR push_bit n 1) = (b OR push_bit n 1 :: u8)" for b n
    by (rule bit_word_eqI) (auto simp: bit_simps)
  then show ?thesis by (simp add: disable_irq_def irq_port_def irq_bit_def Let_def)
qed

lemma irq_bit_less: "irq < 16 \<Longrightarrow> irq_bit irq < 8"
  by (auto simp: irq_bit_def word_less_nat_alt unat_sub word_le_nat_alt)

lemma irq_unique: "irq_port i = irq_port j \<Longrightarrow> irq_bit i = irq_bit j \<Longrightarrow> i = j"
  by (auto simp: irq_port_def irq_bit_def simp flip: word_unat_eq_iff split: if_splits)

lemma masked_outb_mask:
  "masked (outb v (irq_port irq) log) j =
     (if irq_port j = irq_port irq then bit v (irq_bit j) else masked log j)"
  by (auto simp: masked_def)

lemma enable_irq_masked:
  assumes "mask_readback inb" and "last_out (irq_port irq) log \<noteq> None" and "irq < 16" and "j < 16"
  shows "masked (enable_irq inb irq log) j \<longleftrightarrow> masked log j \<and> j \<noteq> irq"
proof -
  obtain v where v: "last_out (irq_port irq) log = Some v" using assms(2) by blast
  have b: "bit (v AND NOT (2 ^ irq_bit irq)) (irq_bit j) \<longleftrightarrow> bit v (irq_bit j) \<and> irq_bit j \<noteq> irq_bit irq"
    using irq_bit_less [OF assms(3)] irq_bit_less [OF assms(4)] by (auto simp: bit_simps)
  show ?thesis
    using irq_unique [of j irq] v mask_readbackD [OF assms(1) v]
    by (auto simp: enable_irq_eq masked_outb_mask b masked_def [of log])
qed

lemma disable_irq_masked:
  assumes "mask_readback inb" and "last_out (irq_port irq) log \<noteq> None" and "irq < 16" and "j < 16"
  shows "masked (disable_irq inb irq log) j \<longleftrightarrow> masked log j \<or> j = irq"
proof -
  obtain v where v: "last_out (irq_port irq) log = Some v" using assms(2) by blast
  have b: "bit (v OR 2 ^ irq_bit irq) (irq_bit j) \<longleftrightarrow> bit v (irq_bit j) \<or> irq_bit j = irq_bit irq"
    using irq_bit_less [OF assms(3)] irq_bit_less [OF assms(4)] by (auto simp: bit_simps)
  show ?thesis
    using irq_unique [of j irq] v mask_readbackD [OF assms(1) v]
    by (auto simp: disable_irq_eq masked_outb_mask b masked_def [of log])
qed

lemma last_out_enable_irq [simp]:
  "last_out p (enable_irq inb irq log) \<noteq> None \<longleftrightarrow> p = irq_port irq \<or> last_out p log \<noteq> None"
  by (auto simp: enable_irq_eq)

lemma i8259_init_masked:
  assumes "mask_readback inb" and "j < 16"
  shows "masked (i8259_init inb log) j \<longleftrightarrow> j \<noteq> 2"
    and "last_out (irq_port i) (i8259_init inb log) \<noteq> None"
proof -
  let ?log = "outb 0xFF SLAVE_8259_DATA (outb 0xFF MASTER_8259_DATA (outb 0x01 SLAVE_8259_DATA
     (outb 0x02 SLAVE_8259_DATA (outb 0x28 SLAVE_8259_DATA (outb 0x11 SLAVE_8259_PORT
     (outb 0x01 MASTER_8259_DATA (outb 0x04 MASTER_8259_DATA (outb 0x20 MASTER_8259_DATA
     (outb 0x11 MASTER_8259_PORT (outb 0xFF SLAVE_8259_DATA (outb 0xFF MASTER_8259_DATA log)))))))))))"
  have i: "i8259_init inb log = enable_irq inb 2 ?log" by (simp add: i8259_init_def Let_def)
  have f: "(0xFF :: u8) = mask 8" by (simp add: mask_eq_exp_minus_1)
  have "bit (0xFF :: u8) (irq_bit j)" unfolding f using irq_bit_less [OF assms(2)] by (simp only: bit_mask_iff) simp
  then have m: "masked ?log j" by (simp add: masked_def irq_port_def)
  have l: "last_out (irq_port i) ?log \<noteq> None" for i by (simp add: irq_port_def)
  show "masked (i8259_init inb log) j \<longleftrightarrow> j \<noteq> 2"
    unfolding i using enable_irq_masked [OF assms(1) l _ assms(2), of 2] m by simp
  show "last_out (irq_port i) (i8259_init inb log) \<noteq> None"
    unfolding i last_out_enable_irq using l by blast
qed

end
