(* ===== verification/Lib_Mem.thy ===== *)
theory Lib_Mem
  imports Memory
begin

text \<open>
  The block routines of \<^verbatim>\<open>student-distrib/lib.c\<close>, which are inline x86 assembly: \<open>memset\<close>,
  \<open>memset_word\<close>, \<open>memset_dword\<close>, \<open>memcpy\<close> and \<open>memmove\<close>. Each is modelled instruction group by
  instruction group: bytes until the destination is 4-aligned, then a \<open>rep\<close> of 32-bit moves, then
  the remaining bytes. The specification of a copy is \<open>blit\<close>, the memory with the destination
  range replaced by what the source range held at the start.
\<close>

definition blit :: "nat \<Rightarrow> nat \<Rightarrow> nat \<Rightarrow> mem \<Rightarrow> mem" where
  "blit dst src n m = (\<lambda>a. if dst \<le> a \<and> a < dst + n then m (src + (a - dst)) else m a)"

definition fill :: "nat \<Rightarrow> u8 \<Rightarrow> nat \<Rightarrow> mem \<Rightarrow> mem" where
  "fill dst c n m = (\<lambda>a. if dst \<le> a \<and> a < dst + n then c else m a)"

text \<open>A range of addresses the page tables map to itself, as they do low memory.\<close>

definition id_mapped :: "xlat \<Rightarrow> nat \<Rightarrow> nat \<Rightarrow> bool" where
  "id_mapped tr a n \<longleftrightarrow> (\<forall>p \<in> {a..<a + n}. tr p = Some p)"

lemma id_mappedD: "id_mapped tr a n \<Longrightarrow> a \<le> p \<Longrightarrow> p < a + n \<Longrightarrow> tr p = Some p"
  by (simp add: id_mapped_def)

lemma id_mapped_sub: "id_mapped tr a n \<Longrightarrow> a \<le> b \<Longrightarrow> b + k \<le> a + n \<Longrightarrow> id_mapped tr b k"
  by (simp add: id_mapped_def)

lemma ld_id: "id_mapped tr a n \<Longrightarrow> a \<le> p \<Longrightarrow> p < a + n \<Longrightarrow> ld tr m p = Some (m p)"
  by (simp add: ld_def id_mappedD)

lemma st_id: "id_mapped tr a n \<Longrightarrow> a \<le> p \<Longrightarrow> p < a + n \<Longrightarrow> st tr m p b = Some (m(p := b))"
  by (simp add: st_def id_mappedD)

subsection \<open>memset\<close>

text \<open>\<open>movb %al, (%edi); addl $1, %edi\<close>, as often as the counter says.\<close>

primrec set_bytes :: "xlat \<Rightarrow> nat \<Rightarrow> nat \<Rightarrow> u8 \<Rightarrow> mem \<Rightarrow> mem option" where
  "set_bytes tr 0 edi al m = Some m"
| "set_bytes tr (Suc n) edi al m = do { m \<leftarrow> st tr m edi al; set_bytes tr n (Suc edi) al m }"

text \<open>\<open>rep stosl\<close>: four bytes of \<open>eax\<close> at a time.\<close>

primrec rep_stosl :: "xlat \<Rightarrow> nat \<Rightarrow> nat \<Rightarrow> u32 \<Rightarrow> mem \<Rightarrow> mem option" where
  "rep_stosl tr 0 edi eax m = Some m"
| "rep_stosl tr (Suc n) edi eax m =
     do { m \<leftarrow> put_bytes (st tr) edi (le_bytes eax) m; rep_stosl tr n (edi + 4) eax m }"

primrec rep_stosw :: "xlat \<Rightarrow> nat \<Rightarrow> nat \<Rightarrow> u32 \<Rightarrow> mem \<Rightarrow> mem option" where
  "rep_stosw tr 0 edi eax m = Some m"
| "rep_stosw tr (Suc n) edi eax m =
     do { m \<leftarrow> put_bytes (st tr) edi (take 2 (le_bytes eax)) m; rep_stosw tr n (edi + 2) eax m }"

fun memset_top :: "xlat \<Rightarrow> nat \<Rightarrow> nat \<Rightarrow> u32 \<Rightarrow> mem \<Rightarrow> mem option" where
  "memset_top tr 0 edi eax m = Some m"
| "memset_top tr (Suc n) edi eax m =
     (if edi mod 4 = 0 then
        do { m \<leftarrow> rep_stosl tr (Suc n div 4) edi eax m;
             set_bytes tr (Suc n mod 4) (edi + 4 * (Suc n div 4)) (ucast eax) m }
      else do { m \<leftarrow> st tr m edi (ucast eax); memset_top tr n (Suc edi) eax m })"

definition memset :: "xlat \<Rightarrow> nat \<Rightarrow> u32 \<Rightarrow> nat \<Rightarrow> mem \<Rightarrow> mem option" where
  "memset tr s c n m =
     (let c = c AND 0xFF in
      memset_top tr n s (push_bit 24 c OR push_bit 16 c OR push_bit 8 c OR c) m)"

definition memset_word :: "xlat \<Rightarrow> nat \<Rightarrow> u32 \<Rightarrow> nat \<Rightarrow> mem \<Rightarrow> mem option" where
  "memset_word tr s c n m = rep_stosw tr n s c m"

definition memset_dword :: "xlat \<Rightarrow> nat \<Rightarrow> u32 \<Rightarrow> nat \<Rightarrow> mem \<Rightarrow> mem option" where
  "memset_dword tr s c n m = rep_stosl tr n s c m"

subsection \<open>memcpy\<close>

primrec copy_bytes :: "xlat \<Rightarrow> nat \<Rightarrow> nat \<Rightarrow> nat \<Rightarrow> mem \<Rightarrow> mem option" where
  "copy_bytes tr 0 edi esi m = Some m"
| "copy_bytes tr (Suc n) edi esi m =
     do { al \<leftarrow> ld tr m esi; m \<leftarrow> st tr m edi al; copy_bytes tr n (Suc edi) (Suc esi) m }"

text \<open>\<open>rep movsl\<close>: a 32-bit load, then a 32-bit store, then both pointers move up by four.\<close>

primrec rep_movsl :: "xlat \<Rightarrow> nat \<Rightarrow> nat \<Rightarrow> nat \<Rightarrow> mem \<Rightarrow> mem option" where
  "rep_movsl tr 0 edi esi m = Some m"
| "rep_movsl tr (Suc n) edi esi m =
     do { bs \<leftarrow> rd_bytes (ld tr m) esi 4;
          m \<leftarrow> put_bytes (st tr) edi bs m;
          rep_movsl tr n (edi + 4) (esi + 4) m }"

fun memcpy_top :: "xlat \<Rightarrow> nat \<Rightarrow> nat \<Rightarrow> nat \<Rightarrow> mem \<Rightarrow> mem option" where
  "memcpy_top tr 0 edi esi m = Some m"
| "memcpy_top tr (Suc n) edi esi m =
     (if edi mod 4 = 0 then
        do { m \<leftarrow> rep_movsl tr (Suc n div 4) edi esi m;
             copy_bytes tr (Suc n mod 4) (edi + 4 * (Suc n div 4)) (esi + 4 * (Suc n div 4)) m }
      else do { al \<leftarrow> ld tr m esi; m \<leftarrow> st tr m edi al; memcpy_top tr n (Suc edi) (Suc esi) m })"

definition memcpy :: "xlat \<Rightarrow> nat \<Rightarrow> nat \<Rightarrow> nat \<Rightarrow> mem \<Rightarrow> mem option" where
  "memcpy tr dest src n m = memcpy_top tr n dest src m"

subsection \<open>memmove\<close>

text \<open>
  \<open>jae\<close> takes the forward copy when the source is not below the destination; otherwise both
  pointers are moved to the last byte, \<open>std\<close> sets the direction flag and the copy runs down.
  The routine never clears the flag again, so it is part of the result.
\<close>

primrec copy_bytes_down :: "xlat \<Rightarrow> nat \<Rightarrow> nat \<Rightarrow> nat \<Rightarrow> mem \<Rightarrow> mem option" where
  "copy_bytes_down tr 0 dest src m = Some m"
| "copy_bytes_down tr (Suc n) dest src m =
     do { al \<leftarrow> ld tr m (src + n); m \<leftarrow> st tr m (dest + n) al; copy_bytes_down tr n dest src m }"

definition memmove :: "xlat \<Rightarrow> nat \<Rightarrow> nat \<Rightarrow> nat \<Rightarrow> mem \<Rightarrow> (bool \<times> mem) option" where
  "memmove tr dest src n m =
     (if src \<ge> dest then map_option (Pair False) (copy_bytes tr n dest src m)
      else map_option (Pair True) (copy_bytes_down tr n dest src m))"

subsection \<open>What the routines do\<close>

lemma blit_0 [simp]: "blit dst src 0 m = m"
  by (rule ext) (auto simp: blit_def)

lemma blit_append:
  "dst \<le> src \<or> src + k + n \<le> dst \<Longrightarrow>
     blit (dst + k) (src + k) n (blit dst src k m) = blit dst src (k + n) m"
  by (rule ext) (auto simp: blit_def)

lemma blit_Suc:
  assumes "dst \<le> src \<or> src + Suc n \<le> dst"
  shows "blit (Suc dst) (Suc src) n (m(dst := m src)) = blit dst src (Suc n) m"
proof -
  have "m(dst := m src) = blit dst src 1 m" by (auto simp: blit_def fun_eq_iff)
  then show ?thesis using blit_append [of dst src 1 n m] assms by simp
qed

lemma copy_bytes_blit:
  assumes "id_mapped tr edi n" and "id_mapped tr esi n" and "edi \<le> esi \<or> esi + n \<le> edi"
  shows "copy_bytes tr n edi esi m = Some (blit edi esi n m)"
  using assms
proof (induction n arbitrary: edi esi m)
  case 0
  then show ?case by simp
next
  case (Suc n)
  have "ld tr m esi = Some (m esi)" "st tr m edi (m esi) = Some (m(edi := m esi))"
    using ld_id [OF Suc.prems(2), of esi] st_id [OF Suc.prems(1), of edi] by simp_all
  moreover have "copy_bytes tr n (Suc edi) (Suc esi) (m(edi := m esi))
      = Some (blit (Suc edi) (Suc esi) n (m(edi := m esi)))"
    using Suc.prems by (intro Suc.IH) (auto intro: id_mapped_sub)
  ultimately show ?case using Suc.prems(3) by (simp add: blit_Suc)
qed

lemma movsl_blit:
  assumes "id_mapped tr edi 4" and "id_mapped tr esi 4"
  shows "do { bs \<leftarrow> rd_bytes (ld tr m) esi 4; put_bytes (st tr) edi bs m } = Some (blit edi esi 4 m)"
proof -
  have l: "ld tr m (esi + i) = Some (m (esi + i))" if "i < 4" for i
    using assms(2) that by (intro ld_id) auto
  have s: "st tr m' (edi + i) b = Some (m'(edi + i := b))" if "i < 4" for i m' b
    using assms(1) that by (intro st_id) auto
  show ?thesis
    using l [of 0] l [of 1] l [of 2] l [of 3] s [of 0] s [of 1] s [of 2] s [of 3]
    by (auto simp: numeral_eq_Suc blit_def fun_eq_iff less_Suc_eq)
qed

lemma rep_movsl_blit:
  assumes "id_mapped tr edi (4 * n)" and "id_mapped tr esi (4 * n)"
    and "edi \<le> esi \<or> esi + 4 * n \<le> edi"
  shows "rep_movsl tr n edi esi m = Some (blit edi esi (4 * n) m)"
  using assms
proof (induction n arbitrary: edi esi m)
  case 0
  then show ?case by simp
next
  case (Suc n)
  have "do { bs \<leftarrow> rd_bytes (ld tr m) esi 4; put_bytes (st tr) edi bs m } = Some (blit edi esi 4 m)"
    using Suc.prems by (intro movsl_blit) (auto intro: id_mapped_sub)
  then obtain bs where "rd_bytes (ld tr m) esi 4 = Some bs"
    and "put_bytes (st tr) edi bs m = Some (blit edi esi 4 m)"
    by (auto simp: bind_eq_Some_conv)
  moreover have "rep_movsl tr n (edi + 4) (esi + 4) (blit edi esi 4 m)
      = Some (blit (edi + 4) (esi + 4) (4 * n) (blit edi esi 4 m))"
    using Suc.prems by (intro Suc.IH) (auto intro: id_mapped_sub)
  ultimately show ?case
    using Suc.prems(3) blit_append [of edi esi 4 "4 * n" m]
    by (simp add: add.assoc)
qed

lemma memcpy_blit:
  assumes "id_mapped tr dest n" and "id_mapped tr src n" and "dest \<le> src \<or> src + n \<le> dest"
  shows "memcpy tr dest src n m = Some (blit dest src n m)"
proof -
  have "memcpy_top tr n dest src m = Some (blit dest src n m)"
    using assms
  proof (induction tr n dest src m rule: memcpy_top.induct)
    case (1 tr edi esi m)
    then show ?case by simp
  next
    case (2 tr n edi esi m)
    let ?q = "Suc n div 4" and ?r = "Suc n mod 4"
    have n: "Suc n = 4 * ?q + ?r" by simp
    show ?case
    proof (cases "edi mod 4 = 0")
      case True
      have "rep_movsl tr ?q edi esi m = Some (blit edi esi (4 * ?q) m)"
        using "2.prems" n by (intro rep_movsl_blit) (auto intro: id_mapped_sub)
      moreover have "copy_bytes tr ?r (edi + 4 * ?q) (esi + 4 * ?q) (blit edi esi (4 * ?q) m)
          = Some (blit (edi + 4 * ?q) (esi + 4 * ?q) ?r (blit edi esi (4 * ?q) m))"
        using "2.prems" n by (intro copy_bytes_blit) (auto intro: id_mapped_sub)
      moreover have "blit (edi + 4 * ?q) (esi + 4 * ?q) ?r (blit edi esi (4 * ?q) m)
          = blit edi esi (4 * ?q + ?r) m"
        using "2.prems"(3) n by (intro blit_append) linarith
      ultimately show ?thesis using True n by simp
    next
      case False
      have l: "ld tr m esi = Some (m esi)"
        using ld_id [OF "2.prems"(2), of esi] by simp
      have s: "st tr m edi (m esi) = Some (m(edi := m esi))"
        using st_id [OF "2.prems"(1), of edi] by simp
      have "memcpy_top tr n (Suc edi) (Suc esi) (m(edi := m esi))
          = Some (blit (Suc edi) (Suc esi) n (m(edi := m esi)))"
        using "2.prems" by (intro "2.IH" [OF False l s]) (auto intro: id_mapped_sub)
      then show ?thesis using False l s blit_Suc [OF "2.prems"(3)] by simp
    qed
  qed
  then show ?thesis by (simp add: memcpy_def)
qed

text \<open>
  The backward copy is right for the overlap the forward copy is wrong for, so \<open>memmove\<close> copies
  any range onto any other. It leaves the direction flag set exactly when it ran backwards.
\<close>

lemma copy_bytes_down_blit:
  assumes "id_mapped tr dest n" and "id_mapped tr src n" and "src < dest"
  shows "copy_bytes_down tr n dest src m = Some (blit dest src n m)"
  using assms
proof (induction n arbitrary: m)
  case 0
  then show ?case by simp
next
  case (Suc n)
  have l: "ld tr m (src + n) = Some (m (src + n))"
    using ld_id [OF Suc.prems(2), of "src + n"] by simp
  have s: "st tr m (dest + n) (m (src + n)) = Some (m(dest + n := m (src + n)))"
    using st_id [OF Suc.prems(1), of "dest + n"] by simp
  have "copy_bytes_down tr n dest src (m(dest + n := m (src + n)))
      = Some (blit dest src n (m(dest + n := m (src + n))))"
    using Suc.prems by (intro Suc.IH) (auto intro: id_mapped_sub)
  moreover have "blit dest src n (m(dest + n := m (src + n))) = blit dest src (Suc n) m"
    using Suc.prems(3) by (auto simp: blit_def fun_eq_iff less_Suc_eq)
  ultimately show ?case using l s by simp
qed

lemma memmove_blit:
  assumes "id_mapped tr dest n" and "id_mapped tr src n"
  shows "memmove tr dest src n m = Some (src < dest, blit dest src n m)"
  using assms by (simp add: memmove_def copy_bytes_blit copy_bytes_down_blit)

subsection \<open>memset\<close>

lemma fill_0 [simp]: "fill dst c 0 m = m"
  by (rule ext) (auto simp: fill_def)

lemma fill_append: "fill (dst + k) c n (fill dst c k m) = fill dst c (k + n) m"
  by (rule ext) (auto simp: fill_def)

lemma fill_Suc: "fill (Suc dst) c n (m(dst := c)) = fill dst c (Suc n) m"
  by (rule ext) (auto simp: fill_def)

lemma set_bytes_fill:
  "id_mapped tr edi n \<Longrightarrow> set_bytes tr n edi al m = Some (fill edi al n m)"
proof (induction n arbitrary: edi m)
  case 0
  then show ?case by simp
next
  case (Suc n)
  have "st tr m edi al = Some (m(edi := al))"
    using st_id [OF Suc.prems, of edi] by simp
  moreover have "id_mapped tr (Suc edi) n" using Suc.prems by (auto intro: id_mapped_sub)
  ultimately show ?case using Suc.IH by (simp add: fill_Suc)
qed

lemma put_spread:
  assumes "id_mapped tr edi 4" and "le_bytes w = [c, c, c, c]"
  shows "put_bytes (st tr) edi (le_bytes w) m = Some (fill edi c 4 m)"
proof -
  have s: "st tr m' (edi + i) b = Some (m'(edi + i := b))" if "i < 4" for i m' b
    using assms(1) that by (intro st_id) auto
  show ?thesis
    unfolding assms(2) using s [of 0] s [of 1] s [of 2] s [of 3]
    by (auto simp: numeral_eq_Suc fill_def fun_eq_iff less_Suc_eq)
qed

lemma rep_stosl_fill:
  "id_mapped tr edi (4 * n) \<Longrightarrow> le_bytes w = [c, c, c, c] \<Longrightarrow>
     rep_stosl tr n edi w m = Some (fill edi c (4 * n) m)"
proof (induction n arbitrary: edi m)
  case 0
  then show ?case by simp
next
  case (Suc n)
  have "put_bytes (st tr) edi (le_bytes w) m = Some (fill edi c 4 m)"
    using Suc.prems by (intro put_spread) (auto intro: id_mapped_sub)
  moreover have "rep_stosl tr n (edi + 4) w (fill edi c 4 m) = Some (fill (edi + 4) c (4 * n) (fill edi c 4 m))"
    using Suc.prems by (intro Suc.IH) (auto intro: id_mapped_sub)
  ultimately show ?case using fill_append [of edi 4 c "4 * n" m] by simp
qed

lemma le_bytes_drop_bit:
  "le_bytes w = [ucast w, ucast (drop_bit 8 w), ucast (drop_bit 16 w), ucast (drop_bit 24 w)]"
proof -
  have "word_of_nat (unat w div 2 ^ k) = (ucast (drop_bit k w) :: u8)" for k
  proof -
    have d: "unat (drop_bit k w) = unat w div 2 ^ k"
      by (rule trans [OF unat_drop_bit_eq drop_bit_eq_div])
    show ?thesis by (simp flip: d)
  qed
  from this [of 8] this [of 16] this [of 24] show ?thesis by (simp add: le_bytes_def)
qed

lemma le_bytes_spread:
  fixes x :: u32
  defines "c \<equiv> x AND 0xFF"
  shows "le_bytes (push_bit 24 c OR push_bit 16 c OR push_bit 8 c OR c)
      = [ucast x, ucast x, ucast x, ucast x]"
proof -
  have m: "(0xFF :: u32) = mask 8" by (simp add: mask_eq_exp_minus_1)
  have c: "bit c n \<longleftrightarrow> bit x n \<and> n < 8" for n
    unfolding c_def m bit_and_iff bit_mask_iff by auto
  show ?thesis
    unfolding le_bytes_drop_bit
    by (auto intro!: bit_word_eqI simp: bit_ucast_iff bit_or_iff bit_push_bit_iff bit_drop_bit_eq c)
qed

lemma memset_top_fill:
  assumes "id_mapped tr edi n" and "le_bytes w = [c, c, c, c]" and "ucast w = c"
  shows "memset_top tr n edi w m = Some (fill edi c n m)"
  using assms
proof (induction tr n edi w m rule: memset_top.induct)
  case (1 tr edi w m)
  then show ?case by simp
next
  case (2 tr n edi w m)
  let ?q = "Suc n div 4" and ?r = "Suc n mod 4"
  have n: "Suc n = 4 * ?q + ?r" by simp
  show ?case
  proof (cases "edi mod 4 = 0")
    case True
    have "rep_stosl tr ?q edi w m = Some (fill edi c (4 * ?q) m)"
      using "2.prems" n by (intro rep_stosl_fill) (auto intro: id_mapped_sub)
    moreover have "set_bytes tr ?r (edi + 4 * ?q) c (fill edi c (4 * ?q) m)
        = Some (fill (edi + 4 * ?q) c ?r (fill edi c (4 * ?q) m))"
      using "2.prems" n by (intro set_bytes_fill) (auto intro: id_mapped_sub)
    ultimately show ?thesis using True n "2.prems"(3) by (simp add: fill_append)
  next
    case False
    have s: "st tr m edi (ucast w) = Some (m(edi := c))"
      using st_id [OF "2.prems"(1), of edi] "2.prems"(3) by simp
    have "memset_top tr n (Suc edi) w (m(edi := c)) = Some (fill (Suc edi) c n (m(edi := c)))"
      using "2.prems" by (intro "2.IH" [OF False s]) (auto intro: id_mapped_sub)
    then show ?thesis using False s by (simp add: fill_Suc)
  qed
qed

lemma memset_fill:
  assumes "id_mapped tr s n"
  shows "memset tr s c n m = Some (fill s (ucast c) n m)"
proof -
  have "ucast (push_bit 24 (c AND 0xFF) OR push_bit 16 (c AND 0xFF) OR push_bit 8 (c AND 0xFF)
      OR (c AND 0xFF)) = (ucast c :: u8)"
    using le_bytes_spread [of c] by (simp add: le_bytes_drop_bit)
  then show ?thesis
    unfolding memset_def Let_def by (intro memset_top_fill assms le_bytes_spread)
qed

subsection \<open>Properties\<close>

text \<open>C34. \<open>memmove\<close> leaves in the destination range what the source range held before the call,
  for any two ranges, overlapping or not, and changes no other byte; the direction flag is left
  set exactly when the source is below the destination (the code never executes \<open>cld\<close>).\<close>

theorem memmove_copies:
  assumes "id_mapped tr dest n" and "id_mapped tr src n"
  shows "memmove tr dest src n m = Some (src < dest,
     \<lambda>a. if dest \<le> a \<and> a < dest + n then m (src + (a - dest)) else m a)"
  using memmove_blit [OF assms] by (simp add: blit_def)

theorem memmove_copies_witness:
  "map_option (\<lambda>(df, m). (df, map m [0..<6])) (memmove Some 2 0 4 word_of_nat)
     = Some (True, [0, 1, 0, 1, 2, 3])"
  using memmove_copies [of Some 2 4 0 word_of_nat]
  by (simp add: id_mapped_def upt_rec)

text \<open>\<open>memcpy\<close> (bytes up to a 4-aligned destination, then 32-bit moves, then the last bytes)
  is the byte-wise copy of the range, whatever the alignment and the length, when the two ranges do
  not overlap or the destination is the lower one; \<open>memset\<close> with its spread byte fills exactly its
  range.\<close>

theorem memcpy_memset_exact:
  assumes "id_mapped tr dest n" and "id_mapped tr src n" and "dest \<le> src \<or> src + n \<le> dest"
  shows "memcpy tr dest src n m =
       Some (\<lambda>a. if dest \<le> a \<and> a < dest + n then m (src + (a - dest)) else m a) \<and>
     memset tr dest c n m = Some (\<lambda>a. if dest \<le> a \<and> a < dest + n then ucast c else m a)"
  using memcpy_blit [OF assms] memset_fill [OF assms(1)] by (simp add: blit_def fill_def)

theorem memcpy_memset_exact_witness:
  "map_option (\<lambda>m. map m [0..<8]) (memcpy Some 1 2 6 word_of_nat)
     = Some [0, 2, 3, 4, 5, 6, 7, 7]"
  using memcpy_memset_exact [of Some 1 6 2 word_of_nat 0]
  by (simp add: id_mapped_def upt_rec)

end
