(* ===== verification/Kernel_State.thy ===== *)
theory Kernel_State
  imports Filesystem Paging Interrupt_Controller Lib_Mem
begin

text \<open>
  The global state of the kernel: the terminals (\<^verbatim>\<open>terminal.h\<close>), the process table (\<^verbatim>\<open>PCB.h\<close>), the
  RTC clients (\<^verbatim>\<open>rtc_handler.h\<close>), the screen variables of \<^verbatim>\<open>lib.c\<close>, the keyboard flags, the file
  system and paging variables, the TSS fields, the interrupt flag, memory and the bytes written to
  ports, one record field per C variable. The code indexes \<open>tmnl_block\<close> and \<open>pcb\<close> with -1 while
  it boots: the bytes before these arrays are the fields \<open>tmnl_before\<close> and \<open>pcb_before\<close>.
\<close>

abbreviation NUM_COLS :: "'a::numeral" where "NUM_COLS \<equiv> 80"
abbreviation NUM_ROWS :: "'a::numeral" where "NUM_ROWS \<equiv> 25"
abbreviation NUM_TERMINAL :: "'a::numeral" where "NUM_TERMINAL \<equiv> 3"
abbreviation BUF_SIZE :: "'a::numeral" where "BUF_SIZE \<equiv> 128"
abbreviation FDT_SIZE :: "'a::numeral" where "FDT_SIZE \<equiv> 8"
abbreviation PCB_SIZE :: "'a::numeral" where "PCB_SIZE \<equiv> 6"
abbreviation KB_PENDING :: u8 where "KB_PENDING \<equiv> 0"
abbreviation KB_PRESSED :: u8 where "KB_PRESSED \<equiv> 1"
abbreviation TMNL_IDLE :: int where "TMNL_IDLE \<equiv> 0"
abbreviation TMNL_RUN :: int where "TMNL_RUN \<equiv> 1"
abbreviation FD_EXISTS :: u32 where "FD_EXISTS \<equiv> 1"
abbreviation FD_ABSENT :: u32 where "FD_ABSENT \<equiv> 0"
abbreviation PCB_EXISTS :: u32 where "PCB_EXISTS \<equiv> 1"
abbreviation PCB_ABSENT :: u32 where "PCB_ABSENT \<equiv> 0"
abbreviation RTC_WAIT :: u8 where "RTC_WAIT \<equiv> 1"
abbreviation RTC_TICK :: u8 where "RTC_TICK \<equiv> 0"

subsection \<open>Records\<close>

record tmnl =
  pos_x :: int
  pos_y :: int
  active_process :: int
  buffer :: "u8 list"
  buffer_size :: u8
  enter_flag :: u8
  vidmem_ptr :: nat
  tmnl_flags :: int

text \<open>
  \<open>file_op_t\<close>: the five tables of \<^verbatim>\<open>PCB.c\<close>. A descriptor holds a pointer to one of them, \<open>None\<close>
  when it has never been set.
\<close>

datatype file_ops = Stdin_ops | Stdout_ops | Rtc_ops | Dir_ops | File_ops

record fd =
  file_operations_table :: "file_ops option"
  inode :: u32
  file_position :: u32
  fd_flags :: u32

record pb =
  fd_table :: "fd list"
  parent :: int
  stack_ptr :: u32
  base_ptr :: u32
  prev_sp :: u32
  prev_bp :: u32
  argument :: "u8 list"
  pb_flags :: u32

record rtcc =
  client :: int
  rate :: int
  count :: int
  rtc_flags :: u8

record kst =
  screen_x :: int
  screen_y :: int
  start_x :: int
  start_y :: int
  tmnl_block :: "tmnl list"
  tmnl_before :: tmnl
  active_terminal :: int
  exec_terminal :: int
  caps_flag :: int
  shift_count :: int
  ctrl_flag :: int
  alt_flag :: int
  rtc_block :: "rtcc list"
  pcb :: "pb list"
  pcb_before :: pb
  fs :: fs_vars
  pg :: paging
  tss_esp0 :: u32
  tss_ss0 :: u16
  if_flag :: bool
  mem :: mem
  port_log :: outs

subsection \<open>Access\<close>

definition get_tmnl :: "int \<Rightarrow> kst \<Rightarrow> tmnl option" where
  "get_tmnl i s = (if i = -1 then Some (tmnl_before s) else arr_get (tmnl_block s) i)"

definition upd_tmnl :: "int \<Rightarrow> (tmnl \<Rightarrow> tmnl) \<Rightarrow> kst \<Rightarrow> kst option" where
  "upd_tmnl i f s =
     (if i = -1 then Some (s\<lparr>tmnl_before := f (tmnl_before s)\<rparr>)
      else do { t \<leftarrow> arr_get (tmnl_block s) i;
                ts \<leftarrow> arr_set (tmnl_block s) i (f t);
                Some (s\<lparr>tmnl_block := ts\<rparr>) })"

definition get_pb :: "int \<Rightarrow> kst \<Rightarrow> pb option" where
  "get_pb i s = (if i = -1 then Some (pcb_before s) else arr_get (pcb s) i)"

definition upd_pb :: "int \<Rightarrow> (pb \<Rightarrow> pb) \<Rightarrow> kst \<Rightarrow> kst option" where
  "upd_pb i f s =
     (if i = -1 then Some (s\<lparr>pcb_before := f (pcb_before s)\<rparr>)
      else do { p \<leftarrow> arr_get (pcb s) i;
                ps \<leftarrow> arr_set (pcb s) i (f p);
                Some (s\<lparr>pcb := ps\<rparr>) })"

text \<open>\<open>pcb[tmnl_block[exec_terminal].active_process]\<close>, the process that runs.\<close>

definition sched_process :: "kst \<Rightarrow> int option" where
  "sched_process s = map_option active_process (get_tmnl (exec_terminal s) s)"

text \<open>Memory as the kernel reads and writes it.\<close>

definition kview :: "kst \<Rightarrow> view" where
  "kview s = ld (kernel_xlat (pg s)) (mem s)"

definition kput :: "nat \<Rightarrow> u8 \<Rightarrow> kst \<Rightarrow> kst option" where
  "kput a b s = do { m \<leftarrow> st (kernel_xlat (pg s)) (mem s) a b; Some (s\<lparr>mem := m\<rparr>) }"

definition on_ports :: "(outs \<Rightarrow> outs) \<Rightarrow> kst \<Rightarrow> kst" where
  "on_ports f s = s\<lparr>port_log := f (port_log s)\<rparr>"

definition on_paging :: "(paging \<Rightarrow> paging option) \<Rightarrow> kst \<Rightarrow> kst option" where
  "on_paging f s = do { p \<leftarrow> f (pg s); Some (s\<lparr>pg := p\<rparr>) }"

definition cli :: "kst \<Rightarrow> kst" where "cli s = s\<lparr>if_flag := False\<rparr>"
definition sti :: "kst \<Rightarrow> kst" where "sti s = s\<lparr>if_flag := True\<rparr>"

lemma get_tmnl_nat: "i < length (tmnl_block s) \<Longrightarrow> get_tmnl (int i) s = Some (tmnl_block s ! i)"
  by (simp add: get_tmnl_def arr_facts)

lemma get_tmnl_in: "0 \<le> i \<Longrightarrow> i < int (length (tmnl_block s)) \<Longrightarrow> get_tmnl i s = Some (tmnl_block s ! nat i)"
  by (simp add: get_tmnl_def arr_facts)

lemma upd_tmnl_in:
  "0 \<le> i \<Longrightarrow> i < int (length (tmnl_block s)) \<Longrightarrow>
     upd_tmnl i f s = Some (s\<lparr>tmnl_block := (tmnl_block s)[nat i := f (tmnl_block s ! nat i)]\<rparr>)"
  by (simp add: upd_tmnl_def arr_facts)

lemma get_pb_in: "0 \<le> i \<Longrightarrow> i < int (length (pcb s)) \<Longrightarrow> get_pb i s = Some (pcb s ! nat i)"
  by (simp add: get_pb_def arr_facts)

lemma upd_pb_in:
  "0 \<le> i \<Longrightarrow> i < int (length (pcb s)) \<Longrightarrow>
     upd_pb i f s = Some (s\<lparr>pcb := (pcb s)[nat i := f (pcb s ! nat i)]\<rparr>)"
  by (simp add: upd_pb_def arr_facts)

subsection \<open>The invariant of the running kernel\<close>

text \<open>
  Each terminal has its saved screen in the page after those of the terminals before it, its
  cursor on the screen, a 128-byte line buffer, and a process number or -1.
\<close>

definition tmnl_ok :: "nat \<Rightarrow> tmnl \<Rightarrow> bool" where
  "tmnl_ok i t \<longleftrightarrow>
     vidmem_ptr t = 0xB9000 + 0x1000 * i \<and>
     0 \<le> pos_x t \<and> pos_x t < NUM_COLS \<and> 0 \<le> pos_y t \<and> pos_y t < NUM_ROWS \<and>
     length (buffer t) = BUF_SIZE \<and> unat (buffer_size t) \<le> BUF_SIZE \<and>
     - 1 \<le> active_process t \<and> active_process t < PCB_SIZE"

definition pb_ok :: "pb \<Rightarrow> bool" where
  "pb_ok p \<longleftrightarrow>
     length (fd_table p) = FDT_SIZE \<and> length (argument p) = BUF_SIZE \<and>
     - 1 \<le> parent p \<and> parent p < PCB_SIZE \<and>
     (\<forall>d \<in> set (fd_table p). fd_flags d \<noteq> FD_ABSENT \<longrightarrow> file_operations_table d \<noteq> None)"

definition screen_ok :: "kst \<Rightarrow> bool" where
  "screen_ok s \<longleftrightarrow> 0 \<le> screen_x s \<and> screen_x s < NUM_COLS \<and> 0 \<le> screen_y s \<and> screen_y s < NUM_ROWS"

definition kernel_ok :: "kst \<Rightarrow> bool" where
  "kernel_ok s \<longleftrightarrow>
     length (tmnl_block s) = NUM_TERMINAL \<and> (\<forall>i < 3. tmnl_ok i (tmnl_block s ! i)) \<and>
     0 \<le> active_terminal s \<and> active_terminal s < NUM_TERMINAL \<and>
     0 \<le> exec_terminal s \<and> exec_terminal s < NUM_TERMINAL \<and>
     screen_ok s \<and>
     length (rtc_block s) = NUM_TERMINAL \<and>
     length (pcb s) = PCB_SIZE \<and> (\<forall>p \<in> set (pcb s). pb_ok p) \<and>
     (\<exists>prog. paging_inv prog (pg s))"

lemma kernel_okD:
  assumes "kernel_ok s"
  shows "length (tmnl_block s) = 3" "length (pcb s) = 6" "length (rtc_block s) = 3"
    "0 \<le> active_terminal s" "active_terminal s < 3" "0 \<le> exec_terminal s" "exec_terminal s < 3"
    "screen_ok s"
  using assms by (simp_all add: kernel_ok_def)

lemma kernel_ok_tmnl: "kernel_ok s \<Longrightarrow> i < 3 \<Longrightarrow> tmnl_ok i (tmnl_block s ! i)"
  by (simp add: kernel_ok_def)

text \<open>The video pages under the page tables of the running kernel.\<close>

lemma kernel_ok_video:
  assumes "kernel_ok s"
  shows "id_mapped (kernel_xlat (pg s)) VIDEO 0x4000"
  using assms walk_low by (auto simp: kernel_ok_def id_mapped_def kernel_xlat_def)

lemma kput_video:
  assumes "kernel_ok s" and "VIDEO \<le> a" and "a < 0xBC000"
  shows "kput a b s = Some (s\<lparr>mem := (mem s)(a := b)\<rparr>)"
  using st_id [OF kernel_ok_video [OF assms(1)], of a] assms(2,3) by (simp add: kput_def)

text \<open>Updates of the fields the invariant does not constrain.\<close>

lemma kernel_ok_upd [simp]:
  "kernel_ok (s\<lparr>mem := m\<rparr>) = kernel_ok s"
  "kernel_ok (s\<lparr>port_log := l\<rparr>) = kernel_ok s"
  "kernel_ok (s\<lparr>start_x := v\<rparr>) = kernel_ok s"
  "kernel_ok (s\<lparr>start_y := v\<rparr>) = kernel_ok s"
  "kernel_ok (s\<lparr>caps_flag := v\<rparr>) = kernel_ok s"
  "kernel_ok (s\<lparr>shift_count := v\<rparr>) = kernel_ok s"
  "kernel_ok (s\<lparr>ctrl_flag := v\<rparr>) = kernel_ok s"
  "kernel_ok (s\<lparr>alt_flag := v\<rparr>) = kernel_ok s"
  "kernel_ok (s\<lparr>if_flag := b\<rparr>) = kernel_ok s"
  "kernel_ok (s\<lparr>tss_esp0 := w\<rparr>) = kernel_ok s"
  "kernel_ok (s\<lparr>tss_ss0 := h\<rparr>) = kernel_ok s"
  "kernel_ok (on_ports f s) = kernel_ok s"
  "kernel_ok (cli s) = kernel_ok s"
  "kernel_ok (sti s) = kernel_ok s"
  by (simp_all add: kernel_ok_def screen_ok_def on_ports_def cli_def sti_def)

lemma kernel_ok_mem_tmnl [simp]:
  "kernel_ok (s\<lparr>mem := m, tmnl_block := b\<rparr>) = kernel_ok (s\<lparr>tmnl_block := b\<rparr>)"
  by (simp add: kernel_ok_def screen_ok_def)

lemma kernel_ok_upd_tmnl:
  assumes "kernel_ok s" and "0 \<le> i" and "i < 3" and "tmnl_ok (nat i) (f (tmnl_block s ! nat i))"
  shows "kernel_ok (s\<lparr>tmnl_block := (tmnl_block s)[nat i := f (tmnl_block s ! nat i)]\<rparr>)"
  using assms by (auto simp: kernel_ok_def screen_ok_def nth_list_update)

lemma kernel_ok_upd_pb:
  assumes "kernel_ok s" and "pb_ok p"
  shows "kernel_ok (s\<lparr>pcb := (pcb s)[i := p]\<rparr>)"
  using assms set_update_subset_insert [of "pcb s" i p]
  by (auto simp: kernel_ok_def screen_ok_def)

subsection \<open>A booted kernel\<close>

text \<open>
  A concrete state for the instances: three terminals running the shells 0, 1 and 2, the page
  tables \<open>init_paging\<close> builds, an empty screen.
\<close>

definition booted_tmnl :: "nat \<Rightarrow> tmnl" where
  "booted_tmnl i = \<lparr>pos_x = 0, pos_y = 0, active_process = int i, buffer = replicate 128 0,
     buffer_size = 0, enter_flag = KB_PENDING, vidmem_ptr = 0xB9000 + 0x1000 * i, tmnl_flags = TMNL_RUN\<rparr>"

definition blank_fd :: fd where
  "blank_fd = \<lparr>file_operations_table = None, inode = 0, file_position = 0, fd_flags = FD_ABSENT\<rparr>"

definition booted_pb :: "u32 \<Rightarrow> pb" where
  "booted_pb flags = \<lparr>fd_table =
       \<lparr>file_operations_table = Some Stdin_ops, inode = 0, file_position = 0, fd_flags = FD_EXISTS\<rparr> #
       \<lparr>file_operations_table = Some Stdout_ops, inode = 0, file_position = 0, fd_flags = FD_EXISTS\<rparr> #
       replicate 6 blank_fd,
     parent = -1, stack_ptr = 0, base_ptr = 0, prev_sp = 0, prev_bp = 0,
     argument = replicate 128 0, pb_flags = flags\<rparr>"

definition booted_rtcc :: rtcc where
  "booted_rtcc = \<lparr>client = -1, rate = -1, count = 0, rtc_flags = RTC_WAIT\<rparr>"

definition booted_paging :: paging where
  "booted_paging = the (init_paging image_paging)"

definition booted_kernel :: kst where
  "booted_kernel = \<lparr>screen_x = 0, screen_y = 0, start_x = 0, start_y = 0,
     tmnl_block = map booted_tmnl [0..<3], tmnl_before = booted_tmnl 0,
     active_terminal = 0, exec_terminal = 0, caps_flag = 0, shift_count = 0, ctrl_flag = 0, alt_flag = 0,
     rtc_block = replicate 3 booted_rtcc,
     pcb = replicate 3 (booted_pb PCB_EXISTS) @ replicate 3 (booted_pb PCB_ABSENT),
     pcb_before = booted_pb PCB_ABSENT,
     fs = sample_fs, pg = booted_paging, tss_esp0 = 0, tss_ss0 = 0, if_flag = True,
     mem = (\<lambda>_. 0), port_log = []\<rparr>"

lemma booted_paging_inv: "paging_inv None booted_paging"
  using paging_inv_init [OF image_paging_ok] by (auto simp: booted_paging_def)

lemma booted_kernel_ok: "kernel_ok booted_kernel"
  using booted_paging_inv
  by (auto simp: kernel_ok_def booted_kernel_def screen_ok_def tmnl_ok_def booted_tmnl_def pb_ok_def
      booted_pb_def blank_fd_def)

text \<open>The same kernel with the program page of process 0 mapped.\<close>

definition running_kernel :: kst where
  "running_kernel = booted_kernel\<lparr>pg := the (create_process_page 0 booted_paging)\<rparr>"

lemma running_kernel_inv: "paging_inv (Some 0) (pg running_kernel)"
  using paging_inv_process [OF booted_paging_inv, of 0] by (auto simp: running_kernel_def)

lemma running_kernel_ok: "kernel_ok running_kernel"
  using booted_kernel_ok running_kernel_inv
  by (auto simp: kernel_ok_def screen_ok_def running_kernel_def)

end
