(* ===== verification/Lib_Number.thy ===== *)
theory Lib_Number
  imports Lib_String
begin

text \<open>
  \<open>strrev\<close> and \<open>itoa\<close> of \<^verbatim>\<open>student-distrib/lib.c\<close>. The specification is
  \<open>radix_string r n\<close>, the digits of \<open>n\<close> in radix \<open>r\<close>, most significant first;
  \<open>itoa_correct\<close> shows that the code writes it as a C string, \<open>radix_value_string\<close> that reading the
  digits back gives the number, and \<open>length_radix_string\<close> how many bytes the buffer needs.
\<close>

subsection \<open>strrev\<close>

function strrev_loop ::
  "('m \<Rightarrow> nat \<Rightarrow> u8 option) \<Rightarrow> ('m \<Rightarrow> nat \<Rightarrow> u8 \<Rightarrow> 'm option) \<Rightarrow> int \<Rightarrow> int \<Rightarrow> 'm \<Rightarrow> 'm option"
where
  "strrev_loop rd wr beg end m =
     (if beg < end then
        do { tmp \<leftarrow> rd m (nat end);
             c \<leftarrow> rd m (nat beg);
             m \<leftarrow> wr m (nat end) c;
             m \<leftarrow> wr m (nat beg) tmp;
             strrev_loop rd wr (beg + 1) (end - 1) m }
      else Some m)"
  by pat_completeness auto
termination
  by (relation "measure (\<lambda>(rd, wr, beg, end, m). nat (end - beg))") auto

declare strrev_loop.simps [simp del]

definition strrev ::
  "('m \<Rightarrow> nat \<Rightarrow> u8 option) \<Rightarrow> ('m \<Rightarrow> nat \<Rightarrow> u8 \<Rightarrow> 'm option) \<Rightarrow> 'm \<Rightarrow> 'm option" where
  "strrev rd wr m = do { n \<leftarrow> strlen (rd m); strrev_loop rd wr 0 (int n - 1) m }"

context byte_store
begin

lemma strrev_loop_mirror:
  assumes "0 \<le> beg" and "\<And>i. beg \<le> int i \<Longrightarrow> int i \<le> end \<Longrightarrow> rd m i \<noteq> None"
  shows "\<exists>m'. strrev_loop rd wr beg end m = Some m' \<and>
     (\<forall>i. rd m' i = (if beg \<le> int i \<and> int i \<le> end then rd m (nat (beg + end) - i) else rd m i))"
  using assms
proof (induction "nat (end - beg)" arbitrary: beg "end" m rule: less_induct)
  case less
  show ?case
  proof (cases "beg < end")
    case False
    have "nat (beg + end) - i = i" if "beg \<le> int i" "int i \<le> end" for i
      using False that by linarith
    then show ?thesis using False by (subst strrev_loop.simps) simp
  next
    case True
    obtain t c where t: "rd m (nat end) = Some t" and c: "rd m (nat beg) = Some c"
      using less.prems(1) less.prems(2) [of "nat end"] less.prems(2) [of "nat beg"] True by auto
    obtain m1 where m1: "wr m (nat end) c = Some m1" using wr_defined t by blast
    then have "rd m1 (nat beg) = Some c" using True less.prems(1) c by (simp add: rd_wr)
    then obtain m2 where m2: "wr m1 (nat beg) t = Some m2" using wr_defined by blast
    have rd2: "rd m2 i = (if i = nat beg then Some t else if i = nat end then Some c else rd m i)"
      for i using m1 m2 by (simp add: rd_wr)
    have "\<exists>m'. strrev_loop rd wr (beg + 1) (end - 1) m2 = Some m' \<and>
        (\<forall>i. rd m' i = (if beg + 1 \<le> int i \<and> int i \<le> end - 1
           then rd m2 (nat (beg + 1 + (end - 1)) - i) else rd m2 i))"
      using True less.prems rd2 by (intro less.hyps) auto
    then obtain m' where m': "strrev_loop rd wr (beg + 1) (end - 1) m2 = Some m'"
      and rd': "\<And>i. rd m' i = (if beg + 1 \<le> int i \<and> int i \<le> end - 1
           then rd m2 (nat (beg + end) - i) else rd m2 i)"
      by auto
    have "rd m' i = (if beg \<le> int i \<and> int i \<le> end then rd m (nat (beg + end) - i) else rd m i)"
      for i
    proof -
      consider "int i = beg" | "int i = end" | "beg < int i" "int i < end"
        | "int i < beg \<or> end < int i" by linarith
      then show ?thesis
      proof cases
        case 1
        then have "nat (beg + end) - i = nat end" by linarith
        moreover have "i = nat beg" using 1 by simp
        ultimately show ?thesis using 1 True t rd' [of i] rd2 [of i] by simp
      next
        case 2
        then have "nat (beg + end) - i = nat beg" by linarith
        moreover have "i = nat end" "i \<noteq> nat beg" using 2 True less.prems(1) by auto
        ultimately show ?thesis using 2 True c rd' [of i] rd2 [of i] less.prems(1) by simp
      next
        case 3
        then have "nat (beg + end) - i \<noteq> nat beg" "nat (beg + end) - i \<noteq> nat end"
          using less.prems(1) by linarith+
        then show ?thesis using 3 rd' [of i] rd2 [of "nat (beg + end) - i"] by simp
      next
        case 4
        then have "i \<noteq> nat beg" "i \<noteq> nat end" using less.prems(1) True by linarith+
        then show ?thesis using 4 rd' [of i] rd2 [of i] by auto
      qed
    qed
    then show ?thesis using True t c m1 m2 m' by (subst strrev_loop.simps) auto
  qed
qed

lemma strrev_cstr:
  assumes "cstr (rd m) xs"
  shows "\<exists>m'. strrev rd wr m = Some m' \<and> cstr (rd m') (rev xs) \<and>
     (\<forall>i. length xs \<le> i \<longrightarrow> rd m' i = rd m i)"
proof -
  have "\<exists>m'. strrev_loop rd wr 0 (int (length xs) - 1) m = Some m' \<and>
     (\<forall>i. rd m' i = (if 0 \<le> int i \<and> int i \<le> int (length xs) - 1
        then rd m (nat (0 + (int (length xs) - 1)) - i) else rd m i))"
    using assms by (intro strrev_loop_mirror) (auto simp: cstr_def)
  then obtain m' where m': "strrev_loop rd wr 0 (int (length xs) - 1) m = Some m'"
    and rd': "\<And>i. rd m' i = (if int i \<le> int (length xs) - 1
        then rd m (nat (int (length xs) - 1) - i) else rd m i)"
    by auto
  have "rd m' i = Some (rev xs ! i)" if "i < length xs" for i
    using that rd' assms cstr_char [OF assms, of "length xs - Suc i"]
    by (simp add: rev_nth nat_diff_distrib)
  then show ?thesis
    using m' rd' assms by (auto simp: strrev_def strlen_cstr cstr_def)
qed

end

subsection \<open>itoa\<close>

definition itoa_lookup :: "u8 list" where
  "itoa_lookup = bytes_of ''0123456789ABCDEFGHIJKLMNOPQRSTUVWXYZ'' @ [0]"

text \<open>
  \<open>newval\<close> is unsigned and \<open>radix\<close> is converted to unsigned; a division by zero traps. With radix
  1 the loop never ends (\<open>None\<close>).
\<close>

partial_function (option) itoa_digits ::
  "('m \<Rightarrow> nat \<Rightarrow> u8 \<Rightarrow> 'm option) \<Rightarrow> u32 \<Rightarrow> nat \<Rightarrow> u32 \<Rightarrow> 'm \<Rightarrow> (nat \<times> 'm) option" where
  "itoa_digits wr radix k newval m =
     (if newval > 0 then
        (if radix = 0 then None
         else do { d \<leftarrow> arr_get itoa_lookup (uint (newval mod radix));
                   m \<leftarrow> wr m k d;
                   itoa_digits wr radix (Suc k) (newval div radix) m })
      else Some (k, m))"

definition itoa ::
  "('m \<Rightarrow> nat \<Rightarrow> u8 option) \<Rightarrow> ('m \<Rightarrow> nat \<Rightarrow> u8 \<Rightarrow> 'm option) \<Rightarrow> u32 \<Rightarrow> u32 \<Rightarrow> 'm \<Rightarrow> 'm option"
where
  "itoa rd wr val radix m =
     (if val = 0 then do { m \<leftarrow> wr m 0 0x30; wr m 1 0 }
      else do { (k, m) \<leftarrow> itoa_digits wr radix 0 val m;
                m \<leftarrow> wr m k 0;
                strrev rd wr m })"

subsection \<open>The digits of a number\<close>

fun radix_digits :: "nat \<Rightarrow> nat \<Rightarrow> nat list" where
  "radix_digits r n = (if r < 2 \<or> n = 0 then [] else n mod r # radix_digits r (n div r))"

declare radix_digits.simps [simp del]

definition digit_char :: "nat \<Rightarrow> u8" where
  "digit_char d = itoa_lookup ! d"

definition digit_value :: "u8 \<Rightarrow> nat" where
  "digit_value c = (if c \<le> 0x39 then unat c - 0x30 else unat c - 0x41 + 10)"

definition radix_string :: "nat \<Rightarrow> nat \<Rightarrow> u8 list" where
  "radix_string r n = (if n = 0 then [0x30] else map digit_char (rev (radix_digits r n)))"

definition radix_value :: "nat \<Rightarrow> u8 list \<Rightarrow> nat" where
  "radix_value r cs = foldl (\<lambda>a c. a * r + digit_value c) 0 cs"

lemma length_itoa_lookup: "length itoa_lookup = 37"
  by (simp add: itoa_lookup_def)

lemma itoa_lookup_ascii:
  "itoa_lookup = map (\<lambda>d. word_of_nat (if d < 10 then 0x30 + d else 0x37 + d)) [0..<36] @ [0]"
  by (simp add: itoa_lookup_def bytes_of_def upt_rec)

lemma digit_char_ascii:
  "d < 36 \<Longrightarrow> digit_char d = word_of_nat (if d < 10 then 0x30 + d else 0x37 + d)"
  by (simp add: digit_char_def itoa_lookup_ascii nth_append)

lemma digit_value_char [simp]: "d < 36 \<Longrightarrow> digit_value (digit_char d) = d"
  by (auto simp: digit_value_def digit_char_ascii word_le_nat_alt unat_of_nat take_bit_eq_mod)

lemma digit_char_nonzero [simp]: "d < 36 \<Longrightarrow> digit_char d \<noteq> 0"
  by (auto simp: digit_char_ascii word_unat_eq_iff unat_of_nat take_bit_eq_mod
      simp del: of_nat_add of_nat_numeral)

lemma radix_digits_less: "d \<in> set (radix_digits r n) \<Longrightarrow> d < r"
proof (induction r n rule: radix_digits.induct)
  case (1 r n)
  then show ?case
    by (subst (asm) (2) radix_digits.simps) (auto split: if_splits)
qed

lemma radix_digits_value:
  "2 \<le> r \<Longrightarrow> foldr (\<lambda>d a. a * r + d) (radix_digits r n) 0 = n"
proof (induction r n rule: radix_digits.induct)
  case (1 r n)
  then show ?case by (subst radix_digits.simps) auto
qed

lemma length_radix_digits: "n < r ^ k \<Longrightarrow> length (radix_digits r n) \<le> k"
proof (induction k arbitrary: n)
  case 0
  then show ?case by (subst radix_digits.simps) simp
next
  case (Suc k)
  show ?case
  proof (cases "r < 2 \<or> n = 0")
    case True
    then show ?thesis by (subst radix_digits.simps) simp
  next
    case False
    then have "n div r < r ^ k" using Suc.prems by (simp add: less_mult_imp_div_less mult.commute)
    then show ?thesis using False Suc.IH by (subst radix_digits.simps) simp
  qed
qed

lemma radix_value_string: "2 \<le> r \<Longrightarrow> r \<le> 36 \<Longrightarrow> radix_value r (radix_string r n) = n"
proof -
  assume r: "2 \<le> r" "r \<le> 36"
  have "foldr (\<lambda>d a. a * r + digit_value (digit_char d)) (radix_digits r n) 0
      = foldr (\<lambda>d a. a * r + d) (radix_digits r n) 0"
    using r by (intro foldr_cong) (auto dest: radix_digits_less)
  then show ?thesis
    using radix_digits_value [OF r(1), of n] r
    by (simp add: radix_value_def radix_string_def foldr_map foldr_conv_foldl [symmetric]
        foldl_conv_foldr rev_map o_def digit_value_def [of "0x30"])
qed

lemma length_radix_string: "n < r ^ k \<Longrightarrow> 0 < k \<Longrightarrow> length (radix_string r n) \<le> k"
  using length_radix_digits [of n r k] by (simp add: radix_string_def)

lemma radix_string_nonzero: "r \<le> 36 \<Longrightarrow> 0 \<notin> set (radix_string r n)"
  by (auto simp: radix_string_def dest!: radix_digits_less)

subsection \<open>Correctness of itoa\<close>

lemma itoa_digits_eq:
  assumes "2 \<le> unat radix" and "unat radix \<le> 36"
  shows "itoa_digits wr radix k newval m =
     map_option (Pair (k + length (radix_digits (unat radix) (unat newval))))
       (put_bytes wr k (map digit_char (radix_digits (unat radix) (unat newval))) m)"
proof (induction "unat newval" arbitrary: newval k m rule: less_induct)
  case less
  show ?case
  proof (cases "newval = 0")
    case True
    then show ?thesis
      by (subst itoa_digits.simps) (simp add: radix_digits.simps [of _ 0])
  next
    case False
    then have pos: "newval > 0" and n: "unat newval \<noteq> 0"
      by (simp_all add: word_neq_0_conv unat_eq_0)
    have radix: "radix \<noteq> 0" using assms by auto
    have lt: "unat (newval div radix) < unat newval"
      using assms(1) n by (simp add: unat_div_distrib)
    have "unat (newval mod radix) < 36"
      using assms order_less_le_trans [OF mod_less_divisor, of "unat radix" 36 "unat newval"]
      by (simp add: unat_mod_distrib)
    then have digit: "arr_get itoa_lookup (uint (newval mod radix))
        = Some (digit_char (unat newval mod unat radix))"
      using arr_get_nat [of "unat (newval mod radix)" itoa_lookup]
      by (simp add: length_itoa_lookup digit_char_def unat_mod_distrib uint_nat)
    have ds: "radix_digits (unat radix) (unat newval)
        = unat newval mod unat radix # radix_digits (unat radix) (unat newval div unat radix)"
      using assms(1) n by (subst radix_digits.simps) simp
    show ?thesis
      using pos radix digit less.hyps [OF lt]
      by (subst itoa_digits.simps)
        (simp add: ds unat_div_distrib option.map_comp o_def split: Option.bind_split)
  qed
qed

context byte_store
begin

lemma itoa_digits_written:
  assumes "2 \<le> unat radix" and "unat radix \<le> 36" and "val \<noteq> 0"
    and room: "\<And>i. i \<le> length (radix_string (unat radix) (unat val)) \<Longrightarrow> rd m i \<noteq> None"
  obtains k m1 m2 where "itoa_digits wr radix 0 val m = Some (k, m1)" and "wr m1 k 0 = Some m2"
    and "cstr (rd m2) (rev (radix_string (unat radix) (unat val)))"
proof -
  let ?ds = "map digit_char (radix_digits (unat radix) (unat val))"
  have str: "radix_string (unat radix) (unat val) = rev ?ds"
    using assms(3) by (simp add: radix_string_def rev_map unat_eq_0)
  have nz: "0 \<notin> set ?ds"
    using radix_string_nonzero [of "unat radix" "unat val"] assms(2) str by simp
  have "\<exists>m1. put_bytes wr 0 (?ds @ [0]) m = Some m1"
    using room str by (intro put_bytes_defined) simp
  then obtain m1 m2 where m1: "put_bytes wr 0 ?ds m = Some m1"
    and m2: "wr m1 (length ?ds) 0 = Some m2"
    by (auto simp: put_bytes_append bind_eq_Some_conv)
  then have all: "put_bytes wr 0 (?ds @ [0]) m = Some m2"
    by (simp add: put_bytes_append)
  have "cstr (rd m2) ?ds"
    using rd_put_bytes [OF all] nz by (auto simp: cstr_def nth_append)
  then show thesis
    using that [of "length ?ds" m1 m2] m1 m2 itoa_digits_eq [OF assms(1,2), of wr 0 val m] str by simp
qed

lemma itoa_cstr:
  assumes "2 \<le> unat radix" and "unat radix \<le> 36"
    and room: "\<And>i. i \<le> length (radix_string (unat radix) (unat val)) \<Longrightarrow> rd m i \<noteq> None"
  shows "\<exists>m'. itoa rd wr val radix m = Some m' \<and> cstr (rd m') (radix_string (unat radix) (unat val))"
proof (cases "val = 0")
  case True
  have "\<exists>m'. put_bytes wr 0 [0x30, 0] m = Some m'"
    using room True by (intro put_bytes_defined) (auto simp: radix_string_def less_Suc_eq_le)
  then obtain m' where "put_bytes wr 0 [0x30, 0] m = Some m'" by blast
  then show ?thesis
    using True rd_put_bytes [of 0 "[0x30, 0]" m m']
    by (auto simp: itoa_def radix_string_def cstr_def)
next
  case False
  obtain k m1 m2 where w: "itoa_digits wr radix 0 val m = Some (k, m1)" "wr m1 k 0 = Some m2"
    "cstr (rd m2) (rev (radix_string (unat radix) (unat val)))"
    using itoa_digits_written [OF assms(1,2) False room] by blast
  then show ?thesis using strrev_cstr [OF w(3)] False by (auto simp: itoa_def)
qed

end

text \<open>What every store preserves, the routines preserve.\<close>

lemma put_bytes_preserves:
  assumes "\<And>m i b m'. P m \<Longrightarrow> wr m i b = Some m' \<Longrightarrow> P m'"
  shows "P m \<Longrightarrow> put_bytes wr a bs m = Some m' \<Longrightarrow> P m'"
  by (induction bs arbitrary: a m) (auto simp: bind_eq_Some_conv dest: assms)

lemma strrev_loop_preserves:
  assumes "\<And>m i b m'. P m \<Longrightarrow> wr m i b = Some m' \<Longrightarrow> P m'"
  shows "P m \<Longrightarrow> strrev_loop rd wr beg end m = Some m' \<Longrightarrow> P m'"
proof (induction "nat (end - beg)" arbitrary: beg "end" m rule: less_induct)
  case less
  show ?case
  proof (cases "beg < end")
    case False
    then show ?thesis using less.prems by (simp add: strrev_loop.simps)
  next
    case True
    with less.prems(2) obtain t c m1 m2 where "wr m (nat end) c = Some m1"
      and "wr m1 (nat beg) t = Some m2" and rest: "strrev_loop rd wr (beg + 1) (end - 1) m2 = Some m'"
      by (subst (asm) strrev_loop.simps) (auto simp: bind_eq_Some_conv)
    then have "P m2" using less.prems(1) assms by blast
    then show ?thesis using less.hyps [OF _ _ rest] True by simp
  qed
qed

lemma itoa_preserves:
  assumes pres: "\<And>m i b m'. P m \<Longrightarrow> wr m i b = Some m' \<Longrightarrow> P m'"
    and radix: "2 \<le> unat radix" "unat radix \<le> 36"
    and "P m" and "itoa rd wr val radix m = Some m'"
  shows "P m'"
proof (cases "val = 0")
  case True
  then show ?thesis using assms(4,5) by (auto simp: itoa_def bind_eq_Some_conv dest: pres)
next
  case False
  with assms(5) obtain k m1 m2 where dig: "itoa_digits wr radix 0 val m = Some (k, m1)"
    and m2: "wr m1 k 0 = Some m2" and m': "strrev rd wr m2 = Some m'"
    by (auto simp: itoa_def bind_eq_Some_conv)
  have "P m1" using dig put_bytes_preserves [where P = P, OF pres \<open>P m\<close>]
    by (auto simp: itoa_digits_eq [OF radix])
  then have p2: "P m2" using pres m2 by blast
  obtain n where rev: "strrev_loop rd wr 0 (int n - 1) m2 = Some m'"
    using m' by (auto simp: strrev_def bind_eq_Some_conv)
  show ?thesis by (rule strrev_loop_preserves [where P = P, OF _ p2 rev]) (rule pres)
qed

subsection \<open>Properties\<close>

text \<open>\<open>itoa\<close> on a buffer with room for the digits and the terminator returns, stays inside the
  buffer, and leaves there the C string of the digits of \<open>val\<close> in the radix: reading the digits
  back gives \<open>val\<close>, for every 32-bit value and every radix from 2 to 36.\<close>

theorem itoa_correct:
  assumes "2 \<le> unat radix" and "unat radix \<le> 36"
    and "length (radix_string (unat radix) (unat val)) < length buf"
  shows "\<exists>buf'. itoa lrd lwr val radix buf = Some buf' \<and>
     cstr (lrd buf') (radix_string (unat radix) (unat val)) \<and>
     radix_value (unat radix) (radix_string (unat radix) (unat val)) = unat val"
proof -
  have "lrd buf i \<noteq> None" if "i \<le> length (radix_string (unat radix) (unat val))" for i
    using that assms(3) by (simp add: lrd_def)
  then show ?thesis
    using arr.itoa_cstr [of radix val buf] assms(1,2) radix_value_string by simp
qed

theorem itoa_correct_witness:
  "\<exists>buf'. itoa lrd lwr 255 16 (replicate 3 0) = Some buf' \<and> cstr (lrd buf') (bytes_of ''FF'')"
proof -
  have digits: "radix_string 16 255 = bytes_of ''FF''"
    by (simp add: radix_string_def radix_digits.simps digit_char_ascii bytes_of_def)
  then show ?thesis
    using itoa_correct [of 16 255 "replicate 3 0"] by auto
qed

end
