(* ===== verification/Printf.thy ===== *)
theory Printf
  imports Lib_Number
begin

text \<open>
  \<open>puts\<close> and \<open>printf\<close> of \<^verbatim>\<open>student-distrib/lib.c\<close>, over the routine \<open>put\<close> that prints one
  character (\<open>putc\<close>, theory Console) and an arbitrary state. The variable arguments are a list of
  the words the caller pushed; the word of a \<open>%s\<close> is given as the bytes its pointer reaches. The
  reference is \<open>render\<close>, the text a format denotes; \<open>printf_eq_render\<close> says that the code prints
  exactly this text, one character at a time.
\<close>

datatype varg = Num u32 | Str view

subsection \<open>puts\<close>

partial_function (option) puts_from ::
  "(u8 \<Rightarrow> 's \<Rightarrow> 's option) \<Rightarrow> view \<Rightarrow> nat \<Rightarrow> 's \<Rightarrow> (nat \<times> 's) option" where
  "puts_from put str index s =
     do { c \<leftarrow> str index;
          if c \<noteq> 0 then do { s \<leftarrow> put c s; puts_from put str (Suc index) s }
          else Some (index, s) }"

definition puts :: "(u8 \<Rightarrow> 's \<Rightarrow> 's option) \<Rightarrow> view \<Rightarrow> 's \<Rightarrow> (nat \<times> 's) option" where
  "puts put str s = puts_from put str 0 s"

lemma puts_from_cstr:
  "cstr str xs \<Longrightarrow> k \<le> length xs \<Longrightarrow>
     puts_from put str k s = map_option (Pair (length xs)) (for_each (drop k xs) put s)"
proof (induction "length xs - k" arbitrary: k s)
  case 0
  then show ?case using cstr_end [of str xs] by (subst puts_from.simps) simp
next
  case (Suc n)
  then have k: "k < length xs" by simp
  have IH: "puts_from put str (Suc k) s' = map_option (Pair (length xs)) (for_each (drop (Suc k) xs) put s')"
    for s' using Suc k by simp
  show ?case
    using k Suc.prems IH
    by (subst puts_from.simps)
      (simp add: cstr_char cstr_nonzero Cons_nth_drop_Suc [symmetric] split: Option.bind_split)
qed

lemma puts_cstr: "cstr str xs \<Longrightarrow> puts put str s = map_option (Pair (length xs)) (for_each xs put s)"
  by (simp add: puts_def puts_from_cstr)

subsection \<open>Conversions\<close>

text \<open>\<open>itoa\<close> on the part of a stack array that starts at index \<open>k\<close>.\<close>

definition itoa_at :: "nat \<Rightarrow> u32 \<Rightarrow> u32 \<Rightarrow> u8 list \<Rightarrow> u8 list option" where
  "itoa_at k val radix conv_buf =
     itoa (\<lambda>m i. lrd m (k + i)) (\<lambda>m i b. lwr m (k + i) b) val radix conv_buf"

definition puts_at ::
  "(u8 \<Rightarrow> 's \<Rightarrow> 's option) \<Rightarrow> u8 list \<Rightarrow> nat \<Rightarrow> 's \<Rightarrow> 's option" where
  "puts_at put conv_buf k s =
     do { (_, s) \<leftarrow> puts put (\<lambda>i. lrd conv_buf (k + i)) s; Some s }"

text \<open>
  The \<open>switch\<close> after a \<open>%\<close>; the result is the state and the arguments left. A conversion that
  finds no argument of its kind reads the caller's stack and is \<open>None\<close>. Every cell of
  \<open>conv_buf\<close> that is read has been written before, so its initial bytes do not matter.
\<close>

definition conversion ::
  "(u8 \<Rightarrow> 's \<Rightarrow> 's option) \<Rightarrow> bool \<Rightarrow> u8 \<Rightarrow> varg list \<Rightarrow> 's \<Rightarrow> (varg list \<times> 's) option" where
  "conversion put alternate c esp s =
     (if c = 0x25 then do { s \<leftarrow> put 0x25 s; Some (esp, s) }
      else if c = 0x78 then
        (case esp of
           Num v # rest \<Rightarrow>
             if \<not> alternate then
               do { conv_buf \<leftarrow> itoa_at 0 v 16 (replicate 64 0);
                    s \<leftarrow> puts_at put conv_buf 0 s; Some (rest, s) }
             else
               do { conv_buf \<leftarrow> itoa_at 8 v 16 (replicate 64 0);
                    starting_index \<leftarrow> strlen (\<lambda>i. lrd conv_buf (8 + i));
                    conv_buf \<leftarrow> for_each [starting_index..<8]
                      (\<lambda>i conv_buf. lwr conv_buf i 0x30) conv_buf;
                    s \<leftarrow> puts_at put conv_buf starting_index s; Some (rest, s) }
         | _ \<Rightarrow> None)
      else if c = 0x75 then
        (case esp of
           Num v # rest \<Rightarrow>
             do { conv_buf \<leftarrow> itoa_at 0 v 10 (replicate 36 0);
                  s \<leftarrow> puts_at put conv_buf 0 s; Some (rest, s) }
         | _ \<Rightarrow> None)
      else if c = 0x64 then
        (case esp of
           Num v # rest \<Rightarrow>
             do { conv_buf \<leftarrow>
                    (if sint v < 0 then
                       do { conv_buf \<leftarrow> lwr (replicate 36 0) 0 0x2D; itoa_at 1 (- v) 10 conv_buf }
                     else itoa_at 0 v 10 (replicate 36 0));
                  s \<leftarrow> puts_at put conv_buf 0 s; Some (rest, s) }
         | _ \<Rightarrow> None)
      else if c = 0x63 then
        (case esp of
           Num v # rest \<Rightarrow> do { s \<leftarrow> put (ucast v) s; Some (rest, s) }
         | _ \<Rightarrow> None)
      else if c = 0x73 then
        (case esp of
           Str p # rest \<Rightarrow> do { (_, s) \<leftarrow> puts put p s; Some (rest, s) }
         | _ \<Rightarrow> None)
      else Some (esp, s))"

subsection \<open>printf\<close>

text \<open>\<open>format_char_switch\<close>: each \<open>#\<close> sets \<open>alternate\<close> and moves on.\<close>

partial_function (option) format_char :: "view \<Rightarrow> bool \<Rightarrow> nat \<Rightarrow> (bool \<times> u8 \<times> nat) option" where
  "format_char format alternate buf =
     do { c \<leftarrow> format buf;
          if c = 0x23 then format_char format True (Suc buf) else Some (alternate, c, buf) }"

partial_function (option) printf_from ::
  "(u8 \<Rightarrow> 's \<Rightarrow> 's option) \<Rightarrow> view \<Rightarrow> nat \<Rightarrow> varg list \<Rightarrow> 's \<Rightarrow> (nat \<times> 's) option" where
  "printf_from put format buf esp s =
     do { c \<leftarrow> format buf;
          if c = 0 then Some (buf, s)
          else if c = 0x25 then
            do { (alternate, c, buf) \<leftarrow> format_char format False (Suc buf);
                 (esp, s) \<leftarrow> conversion put alternate c esp s;
                 printf_from put format (Suc buf) esp s }
          else do { s \<leftarrow> put c s; printf_from put format (Suc buf) esp s } }"

definition printf ::
  "(u8 \<Rightarrow> 's \<Rightarrow> 's option) \<Rightarrow> view \<Rightarrow> varg list \<Rightarrow> 's \<Rightarrow> (nat \<times> 's) option" where
  "printf put format esp s = printf_from put format 0 esp s"

subsection \<open>The text a format denotes\<close>

definition c_string :: "view \<Rightarrow> u8 list option" where
  "c_string p = do { n \<leftarrow> strlen p; those (map p [0..<n]) }"

definition conversion_text :: "bool \<Rightarrow> u8 \<Rightarrow> varg list \<Rightarrow> (u8 list \<times> varg list) option" where
  "conversion_text alternate c args =
     (if c = 0x25 then Some ([0x25], args)
      else if c \<in> {0x78, 0x75, 0x64, 0x63} then
        (case args of
           Num v # rest \<Rightarrow>
             Some (if c = 0x78 then
                     (let ds = radix_string 16 (unat v)
                      in if alternate then replicate (8 - length ds) 0x30 @ ds else ds)
                   else if c = 0x75 then radix_string 10 (unat v)
                   else if c = 0x64 then
                     (if sint v < 0 then 0x2D # radix_string 10 (nat (- sint v))
                      else radix_string 10 (nat (sint v)))
                   else [ucast v], rest)
         | _ \<Rightarrow> None)
      else if c = 0x73 then
        (case args of Str p # rest \<Rightarrow> map_option (\<lambda>xs. (xs, rest)) (c_string p) | _ \<Rightarrow> None)
      else Some ([], args))"

fun render :: "u8 list \<Rightarrow> varg list \<Rightarrow> u8 list option"
  and render_conversion :: "bool \<Rightarrow> u8 list \<Rightarrow> varg list \<Rightarrow> u8 list option" where
  "render [] args = Some []"
| "render (c # cs) args =
     (if c = 0x25 then render_conversion False cs args
      else map_option ((#) c) (render cs args))"
| "render_conversion alternate [] args = None"
| "render_conversion alternate (c # cs) args =
     (if c = 0x23 then render_conversion True cs args
      else do { (out, args) \<leftarrow> conversion_text alternate c args;
                rest \<leftarrow> render cs args; Some (out @ rest) })"

subsection \<open>The code prints this text\<close>

interpretation arr_at: byte_store "\<lambda>m i. lrd m (k + i)" "\<lambda>m i b. lwr m (k + i) b" for k
  by unfold_locales (auto simp: lrd_def lwr_def split: if_splits)

lemma for_each_append_Some:
  "map_option h (for_each (xs @ ys) f s) = do { s \<leftarrow> for_each xs f s; map_option h (for_each ys f s) }"
  by (simp add: for_each_append map_option_bind split: Option.bind_split)

lemma c_string_cstr: "c_string p = Some xs \<longleftrightarrow> cstr p xs"
proof
  assume "c_string p = Some xs"
  then obtain n where n: "strlen p = Some n" and xs: "those (map p [0..<n]) = Some xs"
    by (auto simp: c_string_def bind_eq_Some_conv)
  have "cstr p (map (the \<circ> p) [0..<n])" by (rule strlen_SomeD [OF n])
  moreover have "map (the \<circ> p) [0..<n] = xs"
  proof -
    have "those (map p is) = Some ys \<Longrightarrow> map (the \<circ> p) is = ys" for "is" ys
      by (induction "is" arbitrary: ys) (auto split: option.splits)
    then show ?thesis using xs by blast
  qed
  ultimately show "cstr p xs" by simp
next
  assume xs: "cstr p xs"
  have "those (map Some ys) = Some ys" for ys :: "u8 list" by (induction ys) auto
  moreover have "map p [0..<length xs] = map Some xs"
    using xs by (auto simp: cstr_def intro!: nth_equalityI)
  ultimately show "c_string p = Some xs" by (simp add: c_string_def strlen_cstr [OF xs])
qed

lemma puts_at_cstr:
  "cstr (\<lambda>i. lrd conv_buf (k + i)) xs \<Longrightarrow> puts_at put conv_buf k s = for_each xs put s"
  by (simp add: puts_at_def puts_cstr split: Option.bind_split)

lemma length_radix_32:
  "length (radix_string 16 (unat (v :: u32))) \<le> 8" "length (radix_string 10 (unat v)) \<le> 10"
  using unat32_less [of v] by (auto intro!: length_radix_string)

lemma itoa_at_cstr:
  assumes "2 \<le> unat radix" and "unat radix \<le> 36"
    and "k + length (radix_string (unat radix) (unat v)) < length conv_buf"
  shows "\<exists>conv_buf'. itoa_at k v radix conv_buf = Some conv_buf' \<and>
     cstr (\<lambda>i. lrd conv_buf' (k + i)) (radix_string (unat radix) (unat v))"
  unfolding itoa_at_def using assms(3)
  by (intro arr_at.itoa_cstr [OF assms(1,2)]) (simp add: lrd_def)


lemma itoa_at_frame:
  assumes "2 \<le> unat radix" and "unat radix \<le> 36" and "itoa_at k v radix conv_buf = Some conv_buf'"
  shows "length conv_buf' = length conv_buf \<and> (\<forall>j < k. conv_buf' ! j = conv_buf ! j)"
proof -
  let ?P = "\<lambda>ys. length ys = length conv_buf \<and> (\<forall>j < k. ys ! j = conv_buf ! j)"
  show ?thesis
  proof (rule itoa_preserves [where P = ?P, OF _ assms(1,2)])
    show "?P m'" if "?P m" and "lwr m (k + i) b = Some m'" for m i b m'
      using that by (auto simp: lwr_def split: if_splits)
    show "?P conv_buf" by simp
    show "itoa (\<lambda>m i. lrd m (k + i)) (\<lambda>m i b. lwr m (k + i) b) v radix conv_buf = Some conv_buf'"
      using assms(3) by (simp add: itoa_at_def)
  qed
qed

text \<open>The digits of a 32-bit value in a stack array, with the bytes before them.\<close>

lemma itoa_at_ok:
  assumes "radix = 10 \<or> radix = 16" and "k + 10 < length conv_buf"
  obtains conv_buf' where "itoa_at k v radix conv_buf = Some conv_buf'"
    and "cstr (\<lambda>i. lrd conv_buf' (k + i)) (radix_string (unat radix) (unat v))"
    and "length conv_buf' = length conv_buf" and "\<And>j. j < k \<Longrightarrow> conv_buf' ! j = conv_buf ! j"
proof -
  have r: "2 \<le> unat radix" "unat radix \<le> 36" using assms(1) by auto
  have "length (radix_string (unat radix) (unat v)) \<le> 10"
    using assms(1) length_radix_32 [of v] by auto
  then obtain conv_buf' where c: "itoa_at k v radix conv_buf = Some conv_buf'"
    "cstr (\<lambda>i. lrd conv_buf' (k + i)) (radix_string (unat radix) (unat v))"
    using itoa_at_cstr [OF r, of k v conv_buf] assms(2) by auto
  with itoa_at_frame [OF r c(1)] that show thesis by blast
qed

lemma cstr_prepend:
  assumes "cstr (\<lambda>i. lrd xs (k + n + i)) ys" and "0 \<notin> set zs" and "length zs = n"
    and "\<And>i. i < n \<Longrightarrow> lrd xs (k + i) = Some (zs ! i)"
  shows "cstr (\<lambda>i. lrd xs (k + i)) (zs @ ys)"
proof -
  have "lrd xs (k + i) = Some (ys ! (i - n))" if "n \<le> i" "i < n + length ys" for i
    using cstr_char [OF assms(1), of "i - n"] that by simp
  moreover have "lrd xs (k + (n + length ys)) = Some 0"
    using cstr_end [OF assms(1)] by (simp add: add.assoc)
  moreover have "0 \<notin> set ys" using assms(1) by (simp add: cstr_def)
  ultimately show ?thesis using assms(2-4) by (auto simp: cstr_def nth_append)
qed

lemma pad_zeros:
  assumes "k \<le> 8" and "8 \<le> length conv_buf"
  shows "\<exists>conv_buf'. for_each [k..<8] (\<lambda>i conv_buf. lwr conv_buf i 0x30) conv_buf = Some conv_buf' \<and>
     length conv_buf' = length conv_buf \<and>
     (\<forall>j. conv_buf' ! j = (if k \<le> j \<and> j < 8 then 0x30 else conv_buf ! j))"
  by (rule for_each_upt [where P = "\<lambda>i ys. length ys = length conv_buf \<and>
        (\<forall>j. ys ! j = (if k \<le> j \<and> j < i then 0x30 else conv_buf ! j))"])
    (use assms in \<open>auto simp: lwr_def nth_list_update\<close>)

lemma print_hex8:
  fixes v :: u32
  defines "ds \<equiv> radix_string 16 (unat v)"
  shows "conversion put True 0x78 (Num v # rest) s =
    do { s \<leftarrow> for_each (replicate (8 - length ds) 0x30 @ ds) put s; Some (rest, s) }"
proof -
  obtain b1 where b1: "itoa_at 8 v 16 (replicate 64 0) = Some b1"
    and ds: "cstr (\<lambda>i. lrd b1 (8 + i)) ds" and l1: "length b1 = 64"
    using itoa_at_ok [of 16 8 "replicate 64 0" v] by (auto simp: ds_def)
  have n: "length ds \<le> 8" unfolding ds_def by (rule length_radix_32)
  obtain b2 where b2: "for_each [length ds..<8] (\<lambda>i conv_buf. lwr conv_buf i 0x30) b1 = Some b2"
    and l2: "length b2 = 64" and c2: "\<And>j. b2 ! j = (if length ds \<le> j \<and> j < 8 then 0x30 else b1 ! j)"
    using pad_zeros [OF n, of b1] l1 by auto
  have "cstr (\<lambda>i. lrd b2 (length ds + (8 - length ds) + i)) ds"
    using ds n l1 l2 c2 by (simp add: lrd_def cstr_def)
  then have "cstr (\<lambda>i. lrd b2 (length ds + i)) (replicate (8 - length ds) 0x30 @ ds)"
    using n l2 c2 by (intro cstr_prepend) (auto simp: lrd_def)
  then show ?thesis
    using b1 strlen_cstr [OF ds] b2 by (simp add: conversion_def puts_at_cstr)
qed

lemma print_digits:
  assumes "radix = 10 \<or> radix = 16" and "10 < n"
  shows "do { conv_buf \<leftarrow> itoa_at 0 v radix (replicate n 0); puts_at put conv_buf 0 s }
      = for_each (radix_string (unat radix) (unat v)) put s"
proof -
  obtain b where b: "itoa_at 0 v radix (replicate n 0) = Some b"
    "cstr (\<lambda>i. lrd b (0 + i)) (radix_string (unat radix) (unat v))"
    using itoa_at_ok [OF assms(1), of 0 "replicate n 0" v] assms(2) by auto
  then show ?thesis using puts_at_cstr [OF b(2)] by simp
qed

lemma print_negative:
  "do { conv_buf \<leftarrow> lwr (replicate 36 0) 0 0x2D; conv_buf \<leftarrow> itoa_at 1 v 10 conv_buf;
        puts_at put conv_buf 0 s }
      = for_each (0x2D # radix_string 10 (unat v)) put s"
proof -
  let ?b0 = "(replicate 36 0)[0 := 0x2D :: u8]"
  have w: "lwr (replicate 36 0) 0 0x2D = Some ?b0" by (simp add: lwr_def)
  obtain b where b: "itoa_at 1 v 10 ?b0 = Some b"
    "cstr (\<lambda>i. lrd b (0 + 1 + i)) (radix_string 10 (unat v))" "length b = 36" "b ! 0 = ?b0 ! 0"
    using itoa_at_ok [of 10 1 ?b0 v] by auto
  have "cstr (\<lambda>i. lrd b (0 + i)) ([0x2D] @ radix_string 10 (unat v))"
    using b by (intro cstr_prepend [OF b(2)]) (auto simp: lrd_def)
  from puts_at_cstr [OF this, of put s] show ?thesis unfolding w using b(1) by simp
qed

lemma sint_range: "- 2147483648 \<le> sint (v :: u32)" "sint v < 2147483648"
  using sint_greater_eq [of v] sint_less [of v] by simp_all

lemma unat_sint: "0 \<le> sint v \<Longrightarrow> unat (v :: u32) = nat (sint v)"
  using sint_range [of v] uint_sint [of v] by (simp add: take_bit_eq_mod unat_eq_nat_uint)

lemma unat_minus_sint: "sint v < 0 \<Longrightarrow> unat (- v :: u32) = nat (- sint v)"
proof -
  assume neg: "sint v < 0"
  have "- v = word_of_int (- sint v)" by simp
  then have "uint (- v) = take_bit 32 (- sint v)"
    by (simp only: uint_word_of_int) (simp add: take_bit_eq_mod)
  also have "\<dots> = - sint v" using neg sint_range [of v] by (simp add: take_bit_eq_mod)
  finally show ?thesis by (simp only: unat_eq_nat_uint)
qed

lemma conversion_eq:
  assumes "conversion_text alternate c args = Some (out, args')"
  shows "conversion put alternate c args s = do { s \<leftarrow> for_each out put s; Some (args', s) }"
proof -
  note digits = print_digits [where put = put and s = s]
  have dig: "do { conv_buf \<leftarrow> itoa_at 0 v r (replicate n 0); s \<leftarrow> puts_at put conv_buf 0 s; Some (rest, s) }
      = do { s \<leftarrow> for_each (radix_string (unat r) (unat v)) put s; Some (rest, s) }"
    if "r = 10 \<or> r = 16" "10 < n" for v r n and rest :: "varg list"
    unfolding digits [OF that, of v, symmetric] by simp
  consider (percent) "c = 0x25" | (num') "c \<in> {0x78, 0x75, 0x64, 0x63}" | (str') "c = 0x73"
    | (other) "c \<notin> {0x25, 0x78, 0x75, 0x64, 0x63, 0x73}"
    by blast
  then show ?thesis
  proof cases
    case percent
    then show ?thesis using assms by (auto simp: conversion_text_def conversion_def)
  next
    case num'
    then have "c \<noteq> 0x25" "c \<in> {0x78, 0x75, 0x64, 0x63}" by auto
    then obtain v rest where "args = Num v # rest"
      using assms by (cases args; cases "hd args") (simp_all add: conversion_text_def)
    note num = this num'
    consider "c = 0x78" "alternate" | "c = 0x78" "\<not> alternate" | "c = 0x75" | "c = 0x64" "sint v < 0"
      | "c = 0x64" "0 \<le> sint v" | "c = 0x63" using num(2) by fastforce
    then show ?thesis
    proof cases
      case 1
      then show ?thesis using assms num print_hex8 [of put v rest s]
        by (auto simp: conversion_text_def Let_def)
    next
      case 2
      then show ?thesis using assms num dig [of 16 64 v rest]
        by (auto simp: conversion_text_def conversion_def)
    next
      case 3
      then show ?thesis using assms num dig [of 10 36 v rest]
        by (auto simp: conversion_text_def conversion_def)
    next
      case 4
      have "do { conv_buf \<leftarrow> lwr (replicate 36 0) 0 0x2D; conv_buf \<leftarrow> itoa_at 1 (- v) 10 conv_buf;
            s \<leftarrow> puts_at put conv_buf 0 s; Some (rest, s) }
          = do { s \<leftarrow> for_each (0x2D # radix_string 10 (unat (- v))) put s; Some (rest, s) }"
        unfolding print_negative [of "- v" put s, symmetric] by simp
      then show ?thesis using assms num 4
        by (auto simp: conversion_text_def conversion_def unat_minus_sint)
    next
      case 5
      then show ?thesis using assms num dig [of 10 36 v rest]
        by (auto simp: conversion_text_def conversion_def unat_sint)
    next
      case 6
      then show ?thesis using assms num by (auto simp: conversion_text_def conversion_def)
    qed
  next
    case str'
    then obtain p rest where "args = Str p # rest"
      using assms by (cases args; cases "hd args") (simp_all add: conversion_text_def)
    note str = this str'
    then obtain xs where "c_string p = Some xs" "out = xs" "args' = rest"
      using assms by (auto simp: conversion_text_def)
    then show ?thesis using str
      by (simp add: conversion_def c_string_cstr puts_cstr split: Option.bind_split)
  next
    case other
    then show ?thesis using assms by (auto simp: conversion_text_def conversion_def)
  qed
qed

lemma printf_from_render:
  assumes "cstr fmt xs"
  shows "i \<le> length xs \<Longrightarrow> render (drop i xs) args = Some out \<Longrightarrow>
      printf_from put fmt i args s = map_option (Pair (length xs)) (for_each out put s)"
    and "i \<le> length xs \<Longrightarrow> render_conversion alternate (drop i xs) args = Some out \<Longrightarrow>
      do { (alternate, c, buf) \<leftarrow> format_char fmt alternate i;
           (esp, s) \<leftarrow> conversion put alternate c args s;
           printf_from put fmt (Suc buf) esp s }
        = map_option (Pair (length xs)) (for_each out put s)"
proof (induction "length xs - i" arbitrary: i alternate args out s)
  case 0
  {
    case 1
    then show ?case using 0 cstr_end [OF assms] by (subst printf_from.simps) simp
  next
    case 2
    then show ?case using 0 by simp
  }
next
  case (Suc n)
  {
    case 1
    then have i: "i < length xs" using Suc.hyps(3) by simp
    let ?c = "xs ! i"
    have c: "fmt i = Some ?c" "?c \<noteq> 0"
      using i cstr_char [OF assms] cstr_nonzero [OF assms] by auto
    have d: "drop i xs = ?c # drop (Suc i) xs" using i by (simp add: Cons_nth_drop_Suc)
    have n: "n = length xs - Suc i" "Suc i \<le> length xs" using Suc.hyps(3) i by auto
    show ?case
    proof (cases "?c = 0x25")
      case True
      then have "render_conversion False (drop (Suc i) xs) args = Some out" using 1 d by simp
      from Suc.hyps(2) [OF n this] c True show ?thesis
        by (subst printf_from.simps) simp
    next
      case False
      then obtain out' where o: "render (drop (Suc i) xs) args = Some out'" "out = ?c # out'"
        using 1 d by auto
      show ?thesis using Suc.hyps(1) [OF n o(1)] c False o(2)
        by (subst printf_from.simps) (simp split: Option.bind_split)
    qed
  next
    case 2
    then have i: "i < length xs" using Suc.hyps(3) by simp
    let ?c = "xs ! i"
    have c: "fmt i = Some ?c" using i cstr_char [OF assms] by auto
    have d: "drop i xs = ?c # drop (Suc i) xs" using i by (simp add: Cons_nth_drop_Suc)
    have n: "n = length xs - Suc i" "Suc i \<le> length xs" using Suc.hyps(3) i by auto
    show ?case
    proof (cases "?c = 0x23")
      case True
      then have "render_conversion True (drop (Suc i) xs) args = Some out" using 2 d by simp
      from Suc.hyps(2) [OF n this] c True show ?thesis
        by (subst format_char.simps) simp
    next
      case False
      then obtain o1 args' o2 where o: "conversion_text alternate ?c args = Some (o1, args')"
        "render (drop (Suc i) xs) args' = Some o2" "out = o1 @ o2"
        using 2 d by (auto simp: bind_eq_Some_conv)
      have f: "format_char fmt alternate i = Some (alternate, ?c, i)"
        using c False by (subst format_char.simps) simp
      show ?thesis
        using conversion_eq [OF o(1), of put s] Suc.hyps(1) [OF n o(2)] o(3) f
        by (simp add: for_each_append_Some split: Option.bind_split)
    qed
  }
qed

subsection \<open>Properties\<close>

text \<open>C23. \<open>printf\<close> of a format prints exactly the text the format denotes for its arguments,
  character by character, and returns the length of the format: hexadecimal, unsigned and signed
  decimal digits with no superfluous zero, \<open>%#x\<close> as exactly eight hexadecimal digits, every 32-bit
  value including the most negative one, and never outside its conversion buffers.\<close>

theorem printf_eq_render:
  assumes "cstr format xs" and "render xs args = Some out"
  shows "printf put format args s = do { s \<leftarrow> for_each out put s; Some (length xs, s) }"
  using printf_from_render(1) [OF assms(1), of 0] assms(2)
  by (simp add: printf_def map_conv_bind_option o_def)

theorem printf_eq_render_witness:
  "printf (\<lambda>c s. Some (s @ [c])) (lrd (bytes_of ''%d:%#x'' @ [0])) [Num (- 5), Num 255] []
     = Some (6, bytes_of ''-5:000000FF'')"
proof -
  have d: "radix_string 16 255 = bytes_of ''FF''" "radix_string 10 5 = bytes_of ''5''"
    by (simp_all add: radix_string_def radix_digits.simps digit_char_ascii bytes_of_def)
  have f: "cstr (lrd (bytes_of ''%d:%#x'' @ [0])) (bytes_of ''%d:%#x'')"
    by (rule cstr_array) (simp add: bytes_of_def)
  have r: "render (bytes_of ''%d:%#x'') [Num (- 5), Num 255] = Some (bytes_of ''-5:000000FF'')"
    using d by (simp add: bytes_of_def conversion_text_def Let_def unfold_replicate)
  show ?thesis unfolding printf_eq_render [OF f r] by (simp add: bytes_of_def)
qed

end
