(* ===== verification/Console.thy ===== *)
theory Console
  imports Kernel_State Printf
begin

text \<open>
  The console of \<^verbatim>\<open>student-distrib/lib.c\<close>: \<open>clear\<close>, \<open>update_cursor\<close> and \<open>putc\<close> with its two
  paths, to the screen when the running terminal is the one shown and to the terminal's saved
  screen otherwise; \<open>printf\<close> and \<open>puts\<close> are those of theory Printf over this \<open>putc\<close>.

  The reference is a grid of 25 rows of 80 cells with a cursor (\<open>type_char\<close>). The lemmas show that
  the path to the screen refines it (\<open>putc_active_refines\<close>), what the other path does, that both keep
  the kernel's invariant, and that neither writes outside the four video pages.
\<close>

abbreviation ATTRIB :: u8 where "ATTRIB \<equiv> 0x7"
abbreviation BACKSPACE :: u8 where "BACKSPACE \<equiv> 0x08"
abbreviation KEY_F1 :: u8 where "KEY_F1 \<equiv> 0xF1"
abbreviation KEY_F2 :: u8 where "KEY_F2 \<equiv> 0xF2"
abbreviation KEY_F3 :: u8 where "KEY_F3 \<equiv> 0xF3"

definition tmnl_attrib_2 :: "u8 list" where
  "tmnl_attrib_2 = [0x0F, 0x04, 0x02]"

subsection \<open>Operations\<close>

definition update_cursor :: "int \<Rightarrow> int \<Rightarrow> int \<Rightarrow> kst \<Rightarrow> kst option" where
  "update_cursor x y terminal s =
     (let pos = word_of_int (y * NUM_COLS + x) :: u16;
          s = on_ports (outb 0x0F 0x3D4) s;
          s = on_ports (outb (ucast (pos AND 0xFF)) 0x3D5) s;
          s = on_ports (outb 0x0E 0x3D4) s;
          s = on_ports (outb (ucast (drop_bit 8 pos AND 0xFF)) 0x3D5) s
      in do { s \<leftarrow> upd_tmnl terminal (\<lambda>t. t\<lparr>pos_x := x\<rparr>) s;
              upd_tmnl terminal (\<lambda>t. t\<lparr>pos_y := y\<rparr>) s })"

definition get_cursor_x :: "kst \<Rightarrow> int" where "get_cursor_x s = screen_x s"
definition get_cursor_y :: "kst \<Rightarrow> int" where "get_cursor_y s = screen_y s"

definition clear :: "kst \<Rightarrow> kst option" where
  "clear s =
     do { s \<leftarrow> for_each [0..<NUM_ROWS * NUM_COLS]
            (\<lambda>i s. do { s \<leftarrow> kput (VIDEO + 2 * i) 0x20 s; kput (VIDEO + 2 * i + 1) ATTRIB s }) s;
          let s = s\<lparr>screen_x := 0, screen_y := 0\<rparr>;
          update_cursor (screen_x s) (screen_y s) (active_terminal s) s }"

text \<open>
  Scrolling the screen at \<open>base\<close>: the rows move up by one and the last row is blanked in the
  colour \<open>attr\<close>. The loop variable of the code takes the values \<open>24 * 160 + 2 * k\<close>.
\<close>

definition blank_last_row :: "nat \<Rightarrow> u8 \<Rightarrow> kst \<Rightarrow> kst option" where
  "blank_last_row base attr s =
     for_each (map (\<lambda>k. (NUM_ROWS - 1) * NUM_COLS * 2 + 2 * k) [0..<NUM_COLS])
       (\<lambda>i s. do { s \<leftarrow> kput (base + i) 0x20 s; kput (base + i + 1) attr s }) s"

definition scroll :: "nat \<Rightarrow> u8 \<Rightarrow> kst \<Rightarrow> kst option" where
  "scroll base attr s =
     do { m \<leftarrow> memcpy (kernel_xlat (pg s)) base (base + 2 * NUM_COLS) (NUM_COLS * (NUM_ROWS - 1) * 2) (mem s);
          blank_last_row base attr (s\<lparr>mem := m\<rparr>) }"

text \<open>The address of the character cell at a row and column; its attribute follows it.\<close>

definition cell_addr :: "nat \<Rightarrow> int \<Rightarrow> int \<Rightarrow> nat" where
  "cell_addr base y x = nat (int base + 2 * (NUM_COLS * y + x))"

definition putc_active :: "u8 \<Rightarrow> kst \<Rightarrow> kst option" where
  "putc_active c s =
     (if c = 0x0A \<or> c = 0x0D then
        (if screen_y s \<ge> NUM_ROWS - 1 then
           do { attr \<leftarrow> arr_get tmnl_attrib_2 (active_terminal s);
                s \<leftarrow> scroll VIDEO attr s;
                let s = s\<lparr>screen_x := 0\<rparr>;
                update_cursor (screen_x s) (screen_y s) (active_terminal s) s }
         else
           do { let s = s\<lparr>screen_y := screen_y s + 1, screen_x := 0\<rparr>;
                let s = (if c = 0x0D then s\<lparr>start_y := screen_y s, start_x := screen_x s\<rparr> else s);
                update_cursor (screen_x s) (screen_y s) (active_terminal s) s })
      else if c = BACKSPACE then
        (if screen_x s = 0 \<and> screen_y s = 0 then Some s
         else if screen_x s = start_x s \<and> screen_y s = start_y s then Some s
         else
           do { s \<leftarrow> kput (cell_addr VIDEO (screen_y s) (screen_x s - 1)) 0x20 s;
                let s = s\<lparr>screen_x := (screen_x s + (NUM_COLS - 1)) mod NUM_COLS\<rparr>;
                let s = (if screen_x s = NUM_COLS - 1 then s\<lparr>screen_y := screen_y s - 1\<rparr> else s);
                update_cursor (screen_x s) (screen_y s) (active_terminal s) s })
      else if c = KEY_F1 \<or> c = KEY_F2 \<or> c = KEY_F3 then Some s
      else
        do { s \<leftarrow> kput (cell_addr VIDEO (screen_y s) (screen_x s)) c s;
             attr \<leftarrow> arr_get tmnl_attrib_2 (active_terminal s);
             s \<leftarrow> kput (cell_addr VIDEO (screen_y s) (screen_x s) + 1) attr s;
             if screen_x s = NUM_COLS - 1 \<and> screen_y s = NUM_ROWS - 1 then
               do { s \<leftarrow> scroll VIDEO attr s;
                    let s = s\<lparr>screen_x := 0\<rparr>;
                    s \<leftarrow> update_cursor (screen_x s) (screen_y s) (active_terminal s) s;
                    Some (s\<lparr>start_y := start_y s - 1\<rparr>) }
             else
               do { let s = s\<lparr>screen_x := (screen_x s + 1) mod NUM_COLS\<rparr>;
                    let s = (if screen_x s = 0 then s\<lparr>screen_y := screen_y s + 1\<rparr> else s);
                    update_cursor (screen_x s) (screen_y s) (active_terminal s) s } })"

text \<open>
  The other path works on the saved screen of the running terminal. The cell it writes is that of
  the position before the position is moved.
\<close>

definition putc_background :: "u8 \<Rightarrow> kst \<Rightarrow> kst option" where
  "putc_background c s =
     do { t \<leftarrow> get_tmnl (exec_terminal s) s;
          let tmnl_vidmem = vidmem_ptr t; let tmnl_posx = pos_x t; let tmnl_posy = pos_y t;
          if c = 0x0A \<or> c = 0x0D then
            do { s \<leftarrow> (if tmnl_posy \<ge> NUM_ROWS - 1 then
                         do { attr \<leftarrow> arr_get tmnl_attrib_2 (exec_terminal s);
                              scroll tmnl_vidmem attr s }
                       else Some s);
                 s \<leftarrow> upd_tmnl (exec_terminal s) (\<lambda>t. t\<lparr>pos_x := 0\<rparr>) s;
                 t \<leftarrow> get_tmnl (exec_terminal s) s;
                 if pos_y t \<noteq> NUM_ROWS - 1 then
                   upd_tmnl (exec_terminal s) (\<lambda>t. t\<lparr>pos_y := pos_y t + 1\<rparr>) s
                 else Some s }
          else
            do { s \<leftarrow> (if tmnl_posx = NUM_COLS - 1 \<and> tmnl_posy = NUM_ROWS - 1 then
                         do { attr \<leftarrow> arr_get tmnl_attrib_2 (exec_terminal s);
                              s \<leftarrow> scroll tmnl_vidmem attr s;
                              upd_tmnl (exec_terminal s) (\<lambda>t. t\<lparr>pos_x := 0\<rparr>) s }
                       else if tmnl_posx = NUM_COLS - 1 then
                         upd_tmnl (exec_terminal s) (\<lambda>t. t\<lparr>pos_x := 0, pos_y := pos_y t + 1\<rparr>) s
                       else Some s);
                 s \<leftarrow> kput (cell_addr tmnl_vidmem tmnl_posy tmnl_posx) c s;
                 attr \<leftarrow> arr_get tmnl_attrib_2 (exec_terminal s);
                 s \<leftarrow> kput (cell_addr tmnl_vidmem tmnl_posy tmnl_posx + 1) attr s;
                 s \<leftarrow> upd_tmnl (exec_terminal s) (\<lambda>t. t\<lparr>pos_x := (pos_x t + 1) mod NUM_COLS\<rparr>) s;
                 t \<leftarrow> get_tmnl (exec_terminal s) s;
                 if pos_x t = 0 then
                   upd_tmnl (exec_terminal s) (\<lambda>t. t\<lparr>pos_y := pos_y t + 1\<rparr>) s
                 else Some s } }"

definition putc :: "u8 \<Rightarrow> kst \<Rightarrow> kst option" where
  "putc c s = (if active_terminal s = exec_terminal s then putc_active c s else putc_background c s)"

text \<open>\<open>printf\<close> and \<open>puts\<close> on the console, without their result.\<close>

definition kprintf :: "string \<Rightarrow> varg list \<Rightarrow> kst \<Rightarrow> kst option" where
  "kprintf format args s = map_option snd (printf putc (lrd (bytes_of format @ [0])) args s)"

definition test_interrupts :: "kst \<Rightarrow> kst option" where
  "test_interrupts s =
     for_each [0..<NUM_ROWS * NUM_COLS]
       (\<lambda>i s. do { b \<leftarrow> kview s (VIDEO + 2 * i); kput (VIDEO + 2 * i) (b + 1) s }) s"

subsection \<open>When the screen can be written\<close>

text \<open>
  What the path to the screen relies on; the invariant of the kernel gives it, and it holds while the
  kernel boots, before the invariant does.
\<close>

definition pos_ok :: "tmnl \<Rightarrow> bool" where
  "pos_ok t \<longleftrightarrow> 0 \<le> pos_x t \<and> pos_x t < NUM_COLS \<and> 0 \<le> pos_y t \<and> pos_y t < NUM_ROWS"

definition screen_ready :: "kst \<Rightarrow> bool" where
  "screen_ready s \<longleftrightarrow>
     length (tmnl_block s) = NUM_TERMINAL \<and> (\<forall>i < 3. pos_ok (tmnl_block s ! i)) \<and>
     0 \<le> active_terminal s \<and> active_terminal s < NUM_TERMINAL \<and> screen_ok s \<and>
     id_mapped (kernel_xlat (pg s)) VIDEO 0x4000"

lemma kernel_ok_ready: "kernel_ok s \<Longrightarrow> screen_ready s"
  using kernel_ok_video by (auto simp: kernel_ok_def screen_ready_def tmnl_ok_def pos_ok_def)

lemma screen_readyD:
  assumes "screen_ready s"
  shows "length (tmnl_block s) = 3" "0 \<le> active_terminal s" "active_terminal s < 3" "screen_ok s"
  using assms by (simp_all add: screen_ready_def)

lemma ready_video: "screen_ready s \<Longrightarrow> id_mapped (kernel_xlat (pg s)) VIDEO 0x4000"
  by (simp add: screen_ready_def)

lemma kput_ready:
  assumes "screen_ready s" and "VIDEO \<le> a" and "a < 0xBC000"
  shows "kput a b s = Some (s\<lparr>mem := (mem s)(a := b)\<rparr>)"
  using st_id [OF ready_video [OF assms(1)], of a] assms(2,3) by (simp add: kput_def)

lemma screen_ready_upd [simp]:
  "screen_ready (s\<lparr>mem := m\<rparr>) = screen_ready s"
  "screen_ready (s\<lparr>start_x := v\<rparr>) = screen_ready s"
  "screen_ready (s\<lparr>start_y := v\<rparr>) = screen_ready s"
  "screen_ready (on_ports f s) = screen_ready s"
  by (simp_all add: screen_ready_def screen_ok_def on_ports_def)

subsection \<open>What the operations do to memory\<close>

definition scrolled :: "nat \<Rightarrow> u8 \<Rightarrow> mem \<Rightarrow> mem" where
  "scrolled base attr m = (\<lambda>a.
     if base \<le> a \<and> a < base + 3840 then m (a + 160)
     else if base + 3840 \<le> a \<and> a < base + 4000 then (if even (a - base) then 0x20 else attr)
     else m a)"

text \<open>A screen inside the four video pages.\<close>

definition screen_base :: "nat \<Rightarrow> bool" where
  "screen_base base \<longleftrightarrow> VIDEO \<le> base \<and> base + 4000 \<le> 0xBC000 \<and> even base"

lemma screen_base_video: "screen_base VIDEO"
  by (simp add: screen_base_def)

lemma screen_base_tmnl: "i < 3 \<Longrightarrow> screen_base (0xB9000 + 0x1000 * i)"
  by (simp add: screen_base_def)

text \<open>Writing a row of cells from the left, pair by pair.\<close>

lemma fill_cells:
  assumes "screen_ready s" and "VIDEO \<le> base" and "base + 2 * n \<le> 0xBC000"
  shows "for_each [0..<n] (\<lambda>k s. do { s \<leftarrow> kput (base + 2 * k) ch s; kput (base + 2 * k + 1) attr s }) s
    = Some (s\<lparr>mem := \<lambda>a. if base \<le> a \<and> a < base + 2 * n
        then (if even (a - base) then ch else attr) else mem s a\<rparr>)"
  using assms(3)
proof (induction n)
  case 0
  have "(\<lambda>a. if base \<le> a \<and> a < base + 2 * 0 then if even (a - base) then ch else attr else mem s a) = mem s"
    by (intro ext) auto
  then show ?case by simp
next
  case (Suc n)
  let ?s = "s\<lparr>mem := \<lambda>a. if base \<le> a \<and> a < base + 2 * n
        then (if even (a - base) then ch else attr) else mem s a\<rparr>"
  have ok: "screen_ready ?s" using assms(1) by simp
  have "do { s \<leftarrow> kput (base + 2 * n) ch ?s; kput (base + 2 * n + 1) attr s }
      = Some (?s\<lparr>mem := (mem ?s)(base + 2 * n := ch, base + 2 * n + 1 := attr)\<rparr>)"
    using kput_ready [OF ok] kput_ready [of "?s\<lparr>mem := (mem ?s)(base + 2 * n := ch)\<rparr>"] ok Suc.prems assms(2)
    by simp
  moreover have "(mem ?s)(base + 2 * n := ch, base + 2 * n + 1 := attr)
      = (\<lambda>a. if base \<le> a \<and> a < base + 2 * Suc n
          then (if even (a - base) then ch else attr) else mem s a)"
    by (auto simp: fun_eq_iff)
  ultimately show ?case using Suc by (simp add: for_each_append)
qed

lemma scroll_eq:
  assumes "screen_ready s" and "screen_base base"
  shows "scroll base attr s = Some (s\<lparr>mem := scrolled base attr (mem s)\<rparr>)"
proof -
  have "id_mapped (kernel_xlat (pg s)) base 3840" "id_mapped (kernel_xlat (pg s)) (base + 160) 3840"
    using ready_video [OF assms(1)] assms(2) by (auto intro: id_mapped_sub simp: screen_base_def)
  then have c: "memcpy (kernel_xlat (pg s)) base (base + 160) 3840 (mem s)
      = Some (blit base (base + 160) 3840 (mem s))"
    by (intro memcpy_blit) auto
  have m: "for_each (map g is) f s = for_each is (\<lambda>k. f (g k)) s" for g :: "nat \<Rightarrow> nat" and f "is" and s :: kst
    by (induction "is" arbitrary: s) (auto split: Option.bind_split)
  let ?s = "s\<lparr>mem := blit base (base + 160) 3840 (mem s)\<rparr>"
  have "blank_last_row base attr ?s = Some (?s\<lparr>mem := \<lambda>a. if base + 3840 \<le> a \<and> a < base + 3840 + 2 * 80
        then (if even (a - (base + 3840)) then 0x20 else attr) else mem ?s a\<rparr>)"
    unfolding blank_last_row_def m
    using fill_cells [of ?s "base + 3840" 80 "0x20" attr] assms
    by (simp add: screen_base_def add.assoc add.commute add.left_commute)
  moreover have "(\<lambda>a. if base + 3840 \<le> a \<and> a < base + 3840 + 2 * 80
        then (if even (a - (base + 3840)) then 0x20 else attr) else mem ?s a) = scrolled base attr (mem s)"
    by (auto simp: fun_eq_iff scrolled_def blit_def add.commute [of 160])
  ultimately show ?thesis using c by (simp add: scroll_def)
qed

subsection \<open>The screen as a grid\<close>

type_synonym cell = "u8 \<times> u8"

record grid =
  rows :: "cell list list"
  crow :: nat
  ccol :: nat

definition cells_at :: "nat \<Rightarrow> mem \<Rightarrow> cell list list" where
  "cells_at base m =
     map (\<lambda>r. map (\<lambda>c. (m (base + 2 * (80 * r + c)), m (base + 2 * (80 * r + c) + 1))) [0..<80]) [0..<25]"

definition put_cell :: "nat \<Rightarrow> nat \<Rightarrow> cell \<Rightarrow> cell list list \<Rightarrow> cell list list" where
  "put_cell r c v rs = rs[r := (rs ! r)[c := v]]"

definition scroll_rows :: "u8 \<Rightarrow> cell list list \<Rightarrow> cell list list" where
  "scroll_rows attr rs = tl rs @ [replicate 80 (0x20, attr)]"

text \<open>The cursor goes to the start of the next line; on the last line the text scrolls instead.\<close>

definition next_line :: "u8 \<Rightarrow> grid \<Rightarrow> grid" where
  "next_line attr g =
     (if crow g = 24 then g\<lparr>rows := scroll_rows attr (rows g), ccol := 0\<rparr>
      else g\<lparr>crow := crow g + 1, ccol := 0\<rparr>)"

definition type_char :: "u8 \<Rightarrow> u8 \<Rightarrow> grid \<Rightarrow> grid" where
  "type_char attr c g =
     (if c = 0x0A \<or> c = 0x0D then next_line attr g
      else if c = KEY_F1 \<or> c = KEY_F2 \<or> c = KEY_F3 then g
      else let g = g\<lparr>rows := put_cell (crow g) (ccol g) (c, attr) (rows g)\<rparr>
           in if ccol g = 79 then next_line attr g else g\<lparr>ccol := ccol g + 1\<rparr>)"

text \<open>Backspace blanks the character before the cursor, in its colour, up to the place \<open>limit\<close>.\<close>

definition erase_char :: "int \<times> int \<Rightarrow> grid \<Rightarrow> grid" where
  "erase_char limit g =
     (if (crow g, ccol g) = (0, 0) \<or> (int (ccol g), int (crow g)) = limit then g
      else let p = 80 * crow g + ccol g - 1; r = p div 80; c = p mod 80
           in g\<lparr>rows := put_cell r c (0x20, snd (rows g ! r ! c)) (rows g), crow := r, ccol := c\<rparr>)"

definition screen_of :: "kst \<Rightarrow> grid" where
  "screen_of s = \<lparr>rows = cells_at VIDEO (mem s), crow = nat (screen_y s), ccol = nat (screen_x s)\<rparr>"

lemma cells_at_nth:
  "r < 25 \<Longrightarrow> c < 80 \<Longrightarrow>
     cells_at base m ! r ! c = (m (base + 2 * (80 * r + c)), m (base + 2 * (80 * r + c) + 1))"
  by (simp add: cells_at_def)

lemma length_cells_at [simp]: "length (cells_at base m) = 25"
  by (simp add: cells_at_def)

lemma length_row [simp]: "r < 25 \<Longrightarrow> length (cells_at base m ! r) = 80"
  by (simp add: cells_at_def)

lemma grid_eqI:
  assumes "length xs = 25" and "\<And>r. r < 25 \<Longrightarrow> length (xs ! r) = 80"
    and "\<And>r c. r < 25 \<Longrightarrow> c < 80 \<Longrightarrow> cells_at base m ! r ! c = xs ! r ! c"
  shows "cells_at base m = xs"
  using assms by (intro nth_equalityI) auto

lemma cell_index: "r < 25 \<Longrightarrow> c < 80 \<Longrightarrow> r' < 25 \<Longrightarrow> c' < 80 \<Longrightarrow>
    80 * r + c = 80 * r' + (c' :: nat) \<longleftrightarrow> r = r' \<and> c = c'"
proof -
  assume "c < 80" "c' < 80"
  then have "(80 * r + c) div 80 = r" "(80 * r + c) mod 80 = c"
    "(80 * r' + c') div 80 = r'" "(80 * r' + c') mod 80 = c'" by simp_all
  then show ?thesis by metis
qed

lemma cells_at_put:
  assumes "r < 25" and "c < 80"
  shows "cells_at base (m(base + 2 * (80 * r + c) := x, base + 2 * (80 * r + c) + 1 := y))
    = put_cell r c (x, y) (cells_at base m)"
proof (rule grid_eqI)
  fix r' c' :: nat assume "r' < 25" "c' < 80"
  then show "cells_at base (m(base + 2 * (80 * r + c) := x, base + 2 * (80 * r + c) + 1 := y)) ! r' ! c'
      = put_cell r c (x, y) (cells_at base m) ! r' ! c'"
    using assms cell_index [of r' c' r c]
    by (auto simp: cells_at_nth put_cell_def nth_list_update)
qed (use assms in \<open>auto simp: put_cell_def nth_list_update\<close>)

lemma cells_at_put_char:
  assumes "r < 25" and "c < 80"
  shows "cells_at base (m(base + 2 * (80 * r + c) := x))
    = put_cell r c (x, snd (cells_at base m ! r ! c)) (cells_at base m)"
proof -
  have "m(base + 2 * (80 * r + c) := x)
      = m(base + 2 * (80 * r + c) := x, base + 2 * (80 * r + c) + 1 := snd (cells_at base m ! r ! c))"
    using assms by (auto simp: cells_at_nth)
  from arg_cong [where f = "cells_at base", OF this] show ?thesis
    unfolding cells_at_put [OF assms] .
qed

lemma cells_at_scrolled: "cells_at base (scrolled base attr m) = scroll_rows attr (cells_at base m)"
proof (rule grid_eqI)
  fix r c :: nat assume rc: "r < 25" "c < 80"
  show "cells_at base (scrolled base attr m) ! r ! c = scroll_rows attr (cells_at base m) ! r ! c"
  proof (cases "r = 24")
    case True
    then show ?thesis using rc
      by (simp add: cells_at_nth scroll_rows_def scrolled_def nth_append)
  next
    case False
    then have "80 * r + c < 1920" using rc by simp
    moreover have "m (base + (160 * r + 2 * c) + 160) = m (base + (160 + 160 * r + 2 * c))"
      "m (base + (160 * r + 2 * c) + 161) = m (base + (161 + 160 * r + 2 * c))"
      by (simp_all add: ac_simps)
    ultimately show ?thesis using rc False
      by (simp add: cells_at_nth scroll_rows_def scrolled_def nth_append nth_tl)
  qed
qed (auto simp: scroll_rows_def nth_append nth_tl)

subsection \<open>What the console leaves alone\<close>

definition no_pos :: "tmnl \<Rightarrow> tmnl" where
  "no_pos t = t\<lparr>pos_x := 0, pos_y := 0\<rparr>"

definition console_frame :: "kst \<Rightarrow> kst \<Rightarrow> bool" where
  "console_frame s s' \<longleftrightarrow>
     map no_pos (tmnl_block s') = map no_pos (tmnl_block s) \<and> tmnl_before s' = tmnl_before s \<and>
     active_terminal s' = active_terminal s \<and> exec_terminal s' = exec_terminal s \<and>
     caps_flag s' = caps_flag s \<and> shift_count s' = shift_count s \<and>
     ctrl_flag s' = ctrl_flag s \<and> alt_flag s' = alt_flag s \<and>
     rtc_block s' = rtc_block s \<and> pcb s' = pcb s \<and> pcb_before s' = pcb_before s \<and>
     fs s' = fs s \<and> pg s' = pg s \<and> tss_esp0 s' = tss_esp0 s \<and> tss_ss0 s' = tss_ss0 s \<and>
     if_flag s' = if_flag s \<and>
     (\<forall>a. a < VIDEO \<or> 0xBC000 \<le> a \<longrightarrow> mem s' a = mem s a)"

lemma console_frame_refl [simp]: "console_frame s s"
  by (simp add: console_frame_def)

lemma console_frame_trans: "console_frame s t \<Longrightarrow> console_frame t u \<Longrightarrow> console_frame s u"
  by (simp add: console_frame_def)

lemma console_frame_upd:
  "console_frame s (s\<lparr>screen_x := x\<rparr>)" "console_frame s (s\<lparr>screen_y := x\<rparr>)"
  "console_frame s (s\<lparr>start_x := x\<rparr>)" "console_frame s (s\<lparr>start_y := x\<rparr>)"
  "console_frame s (s\<lparr>screen_x := x, screen_y := y\<rparr>)"
  "(\<And>a. a < VIDEO \<or> 0xBC000 \<le> a \<Longrightarrow> m a = mem s a) \<Longrightarrow> console_frame s (s\<lparr>mem := m\<rparr>)"
  by (simp_all add: console_frame_def)

lemma map_no_pos_update:
  "no_pos t = no_pos (ts ! i) \<Longrightarrow> map no_pos (ts[i := t]) = map no_pos ts"
  by (cases "i < length ts") (auto simp: map_update list_update_same_conv list_update_beyond)

lemma no_pos_upd [simp]:
  "no_pos (t\<lparr>pos_x := x\<rparr>) = no_pos t" "no_pos (t\<lparr>pos_y := x\<rparr>) = no_pos t"
  by (simp_all add: no_pos_def)

lemma ready_screen:
  "screen_ready s \<Longrightarrow> 0 \<le> x \<Longrightarrow> x < 80 \<Longrightarrow> screen_ready (s\<lparr>screen_x := x\<rparr>)"
  "screen_ready s \<Longrightarrow> 0 \<le> x \<Longrightarrow> x < 25 \<Longrightarrow> screen_ready (s\<lparr>screen_y := x\<rparr>)"
  by (auto simp: screen_ready_def screen_ok_def)

text \<open>Moving the hardware cursor and the recorded position of a terminal.\<close>

lemma update_cursor_ready:
  assumes "screen_ready s" and "0 \<le> t" and "t < 3" and "0 \<le> x" and "x < 80" and "0 \<le> y" and "y < 25"
  shows "\<exists>s'. update_cursor x y t s = Some s' \<and> screen_ready s' \<and> console_frame s s' \<and>
     screen_of s' = screen_of s \<and> mem s' = mem s \<and> start_x s' = start_x s \<and> start_y s' = start_y s \<and>
     screen_x s' = screen_x s \<and> screen_y s' = screen_y s \<and>
     tmnl_block s' = (tmnl_block s)[nat t := (tmnl_block s ! nat t)\<lparr>pos_x := x, pos_y := y\<rparr>]"
proof -
  have len: "length (tmnl_block s) = 3" using assms(1) by (simp add: screen_ready_def)
  have ok: "screen_ready (s\<lparr>tmnl_block := (tmnl_block s)[nat t := (tmnl_block s ! nat t)\<lparr>pos_x := x, pos_y := y\<rparr>], port_log := l\<rparr>)" for l
    using assms by (auto simp: screen_ready_def screen_ok_def pos_ok_def nth_list_update)
  have eq: "s\<lparr>port_log := l, tmnl_block := b\<rparr> = s\<lparr>tmnl_block := b, port_log := l\<rparr>" for l b by simp
  show ?thesis
    using assms len ok
    by (auto simp: update_cursor_def Let_def on_ports_def upd_tmnl_in eq screen_of_def console_frame_def
        map_no_pos_update)
qed

text \<open>Within the invariant, a routine of the console keeps the rest of it.\<close>

lemma no_pos_ok:
  assumes "no_pos t = no_pos t'" and "tmnl_ok i t'" and "pos_ok t"
  shows "tmnl_ok i t"
  using assms by (cases t; cases t') (auto simp: no_pos_def tmnl_ok_def pos_ok_def)

lemma frame_kernel_ok:
  assumes "kernel_ok s" and "console_frame s s'" and "screen_ready s'"
  shows "kernel_ok s'"
proof -
  have len: "length (tmnl_block s') = 3" "length (tmnl_block s) = 3"
    using assms(1,3) by (simp_all add: screen_ready_def kernel_ok_def)
  have "map no_pos (tmnl_block s') = map no_pos (tmnl_block s)" using assms(2) by (simp add: console_frame_def)
  then have "no_pos (tmnl_block s' ! i) = no_pos (tmnl_block s ! i)" if "i < 3" for i
    using that len by (metis nth_map)
  then have "tmnl_ok i (tmnl_block s' ! i)" if "i < 3" for i
    using that assms(1,3) by (auto intro: no_pos_ok simp: kernel_ok_def screen_ready_def)
  then show ?thesis using assms by (simp add: kernel_ok_def console_frame_def screen_ready_def)
qed

lemma update_cursor_ok:
  assumes "kernel_ok s" and "0 \<le> t" and "t < 3" and "0 \<le> x" and "x < 80" and "0 \<le> y" and "y < 25"
  shows "\<exists>s'. update_cursor x y t s = Some s' \<and> kernel_ok s' \<and> console_frame s s' \<and>
     screen_of s' = screen_of s \<and> mem s' = mem s \<and> start_x s' = start_x s \<and> start_y s' = start_y s \<and>
     screen_x s' = screen_x s \<and> screen_y s' = screen_y s \<and>
     tmnl_block s' = (tmnl_block s)[nat t := (tmnl_block s ! nat t)\<lparr>pos_x := x, pos_y := y\<rparr>]"
  using update_cursor_ready [OF kernel_ok_ready [OF assms(1)] assms(2-7)] frame_kernel_ok [OF assms(1)] by blast

lemma attr_ok: "0 \<le> t \<Longrightarrow> t < 3 \<Longrightarrow> arr_get tmnl_attrib_2 t = Some (tmnl_attrib_2 ! nat t)"
  by (simp add: arr_get_in tmnl_attrib_2_def)

lemma scrolled_frame: "screen_base base \<Longrightarrow> a < VIDEO \<or> 0xBC000 \<le> a \<Longrightarrow> scrolled base attr m a = m a"
  by (auto simp: scrolled_def screen_base_def)

lemma screen_of_scrolled:
  "screen_of (s\<lparr>mem := scrolled VIDEO attr (mem s)\<rparr>) = (screen_of s)\<lparr>rows := scroll_rows attr (rows (screen_of s))\<rparr>"
  by (simp add: screen_of_def cells_at_scrolled)

subsection \<open>The path to the screen refines the grid\<close>

text \<open>A step of the path to the screen: it returns, keeps the invariant and the frame, and the
  screen becomes \<open>g\<close>.\<close>

definition console_step :: "(kst \<Rightarrow> kst option) \<Rightarrow> kst \<Rightarrow> grid \<Rightarrow> bool" where
  "console_step f s g \<longleftrightarrow>
     (\<exists>s'. f s = Some s' \<and> screen_ready s' \<and> console_frame s s' \<and> screen_of s' = g)"

lemma move_cursor:
  assumes "screen_ready s" and "console_frame s0 s"
  shows "\<exists>s'. update_cursor (screen_x s) (screen_y s) (active_terminal s) s = Some s' \<and> screen_ready s' \<and>
     console_frame s0 s' \<and> screen_of s' = screen_of s"
  using update_cursor_ready [OF assms(1) screen_readyD(2,3) [OF assms(1)], of "screen_x s" "screen_y s"]
    screen_readyD(4) [OF assms(1)] console_frame_trans [OF assms(2)]
  by (fastforce simp: screen_ok_def)

lemma active_scroll:
  assumes "screen_ready s" and "screen_y s = 24"
  shows "console_step (\<lambda>s. do { attr \<leftarrow> arr_get tmnl_attrib_2 (active_terminal s);
            s \<leftarrow> scroll VIDEO attr s;
            let s = s\<lparr>screen_x := 0\<rparr>;
            update_cursor (screen_x s) (screen_y s) (active_terminal s) s }) s
     (next_line (tmnl_attrib_2 ! nat (active_terminal s)) (screen_of s))"
proof -
  let ?attr = "tmnl_attrib_2 ! nat (active_terminal s)"
  let ?s = "s\<lparr>mem := scrolled VIDEO ?attr (mem s), screen_x := 0\<rparr>"
  have ok: "screen_ready ?s" using assms(1) by (intro ready_screen) simp_all
  have fr: "console_frame s ?s"
    by (simp add: console_frame_def scrolled_frame [OF screen_base_video])
  have scr: "screen_of ?s = next_line ?attr (screen_of s)"
    using assms(2) by (simp add: screen_of_def cells_at_scrolled next_line_def)
  show ?thesis
    using move_cursor [OF ok fr] scr assms(1)
    by (simp add: console_step_def attr_ok screen_readyD scroll_eq screen_base_video Let_def)
qed

lemma screen_coords:
  assumes "screen_ready s"
  obtains r c where "screen_y s = int r" and "screen_x s = int c" and "r < 25" and "c < 80"
    and "crow (screen_of s) = r" and "ccol (screen_of s) = c"
  using screen_readyD(4) [OF assms] that [of "nat (screen_y s)" "nat (screen_x s)"]
  by (auto simp: screen_ok_def screen_of_def)

lemma newline_active:
  assumes "screen_ready s" and "c = 0x0A \<or> c = 0x0D"
  shows "console_step (putc_active c) s
     (type_char (tmnl_attrib_2 ! nat (active_terminal s)) c (screen_of s))"
proof -
  obtain r k where rk: "screen_y s = int r" "screen_x s = int k" "r < 25" "k < 80"
    "crow (screen_of s) = r" "ccol (screen_of s) = k"
    by (rule screen_coords [OF assms(1)])
  show ?thesis
  proof (cases "r = 24")
    case True
    then show ?thesis using active_scroll [OF assms(1)] assms(2) rk
      by (simp add: console_step_def putc_active_def type_char_def)
  next
    case False
    let ?s = "if c = 0x0D then s\<lparr>screen_y := screen_y s + 1, screen_x := 0,
        start_y := screen_y s + 1, start_x := 0\<rparr> else s\<lparr>screen_y := screen_y s + 1, screen_x := 0\<rparr>"
    have "screen_ready ?s"
      using assms(1) rk False by (auto simp: screen_ready_def screen_ok_def)
    moreover have "console_frame s ?s" by (simp add: console_frame_def)
    moreover have "screen_of ?s = next_line (tmnl_attrib_2 ! nat (active_terminal s)) (screen_of s)"
      using rk False by (auto simp: screen_of_def next_line_def nat_add_distrib)
    ultimately show ?thesis
      using move_cursor [of ?s s] assms(2) rk False
      by (auto simp: console_step_def putc_active_def type_char_def Let_def split: if_splits)
  qed
qed

lemma cell_addr_nat: "cell_addr base (int r) (int c) = base + 2 * (80 * r + c)"
  by (simp add: cell_addr_def nat_add_distrib nat_mult_distrib)

lemma write_cell:
  assumes "screen_ready s" and "screen_base base" and "r < 25" and "c < 80"
  shows "kput (base + 2 * (80 * r + c)) x s =
      Some (s\<lparr>mem := (mem s)(base + 2 * (80 * r + c) := x)\<rparr>)" (is ?th1)
    and "kput (base + 2 * (80 * r + c) + 1) x s =
      Some (s\<lparr>mem := (mem s)(base + 2 * (80 * r + c) + 1 := x)\<rparr>)" (is ?th2)
    and "VIDEO \<le> base + 2 * (80 * r + c)" (is ?th3) and "base + 2 * (80 * r + c) + 1 < 0xBC000" (is ?th4)
proof -
  have "80 * r + c < 2000" using assms(3,4) by simp
  then show ?th3 and ?th4 using assms(2) by (auto simp: screen_base_def)
  then show ?th1 and ?th2 by (simp_all add: kput_ready [OF assms(1)])
qed

lemma char_active:
  assumes "screen_ready s" and "c \<notin> {0x0A, 0x0D, BACKSPACE, KEY_F1, KEY_F2, KEY_F3}"
  shows "console_step (putc_active c) s
     (type_char (tmnl_attrib_2 ! nat (active_terminal s)) c (screen_of s))"
proof -
  obtain r k where rk: "screen_y s = int r" "screen_x s = int k" "r < 25" "k < 80"
    "crow (screen_of s) = r" "ccol (screen_of s) = k"
    by (rule screen_coords [OF assms(1)])
  let ?attr = "tmnl_attrib_2 ! nat (active_terminal s)" and ?a = "VIDEO + 2 * (80 * r + k)"
  let ?s1 = "s\<lparr>mem := (mem s)(?a := c)\<rparr>"
  let ?s = "s\<lparr>mem := (mem s)(?a := c, ?a + 1 := ?attr)\<rparr>"
  have ok: "screen_ready ?s1" "screen_ready ?s" using assms(1) by simp_all
  note w = write_cell [OF _ screen_base_video rk(3,4)]
  have put: "kput ?a c s = Some ?s1" "kput (?a + 1) ?attr ?s1 = Some ?s"
    using w(1) [OF assms(1)] w(2) [OF ok(1)] by simp_all
  have fr: "console_frame s ?s"
    by (rule console_frame_upd(6)) (use w(3,4) [OF assms(1)] in auto)
  have scr: "screen_of ?s = (screen_of s)\<lparr>rows := put_cell r k (c, ?attr) (rows (screen_of s))\<rparr>"
    using cells_at_put [OF rk(3,4), of VIDEO "mem s" c ?attr] by (simp add: screen_of_def)
  have main: "putc_active c s = (if k = 79 \<and> r = 24 then
       do { s \<leftarrow> scroll VIDEO ?attr ?s;
            let s = s\<lparr>screen_x := 0\<rparr>;
            s \<leftarrow> update_cursor (screen_x s) (screen_y s) (active_terminal s) s;
            Some (s\<lparr>start_y := start_y s - 1\<rparr>) }
     else
       do { let s = ?s\<lparr>screen_x := (int k + 1) mod NUM_COLS\<rparr>;
            let s = (if screen_x s = 0 then s\<lparr>screen_y := screen_y s + 1\<rparr> else s);
            update_cursor (screen_x s) (screen_y s) (active_terminal s) s })"
    using assms(2) rk(1,2) put attr_ok [OF screen_readyD(2,3) [OF assms(1)]]
    by (simp add: putc_active_def cell_addr_nat)
  have spec: "type_char ?attr c (screen_of s)
      = (if k = 79 then next_line ?attr (screen_of ?s) else (screen_of ?s)\<lparr>ccol := k + 1\<rparr>)"
    unfolding scr using assms(2) rk(5,6) by (simp add: type_char_def Let_def)
  consider (full) "k = 79" "r = 24" | (wrap) "k = 79" "r < 24" | (inner) "k < 79"
    using rk(3,4) by linarith
  then show ?thesis
  proof cases
    case full
    have "console_step (\<lambda>s. do { attr \<leftarrow> arr_get tmnl_attrib_2 (active_terminal s);
            s \<leftarrow> scroll VIDEO attr s;
            let s = s\<lparr>screen_x := 0\<rparr>;
            update_cursor (screen_x s) (screen_y s) (active_terminal s) s }) ?s
     (next_line (tmnl_attrib_2 ! nat (active_terminal ?s)) (screen_of ?s))"
      using rk full by (intro active_scroll [OF ok(2)]) simp
    then obtain s' where "do { s \<leftarrow> scroll VIDEO ?attr ?s;
            let s = s\<lparr>screen_x := 0\<rparr>;
            update_cursor (screen_x s) (screen_y s) (active_terminal s) s } = Some s'"
      "screen_ready s'" "console_frame ?s s'" "screen_of s' = next_line ?attr (screen_of ?s)"
      using attr_ok [OF screen_readyD(2,3) [OF assms(1)]] by (auto simp: console_step_def)
    then show ?thesis
      using full main spec console_frame_trans [OF fr] console_frame_trans [OF _ console_frame_upd(4)]
      by (auto simp: console_step_def bind_eq_Some_conv Let_def screen_of_def)
  next
    case wrap
    let ?t = "?s\<lparr>screen_x := 0, screen_y := screen_y s + 1\<rparr>"
    have t: "screen_ready ?t" using ok(2) rk wrap by (auto simp: screen_ready_def screen_ok_def)
    have "console_frame s ?t" using fr by (simp add: console_frame_def)
    moreover have "screen_of ?t = next_line ?attr (screen_of ?s)"
      using rk wrap by (auto simp: screen_of_def next_line_def nat_add_distrib)
    ultimately show ?thesis
      using move_cursor [OF t, of s] wrap main spec by (simp add: console_step_def Let_def)
  next
    case inner
    let ?t = "?s\<lparr>screen_x := int k + 1\<rparr>"
    have t: "screen_ready ?t" using ok(2) rk inner by (auto simp: screen_ready_def screen_ok_def)
    have "console_frame s ?t" using fr by (simp add: console_frame_def)
    moreover have "screen_of ?t = (screen_of ?s)\<lparr>ccol := k + 1\<rparr>"
      using rk by (auto simp: screen_of_def nat_add_distrib)
    ultimately show ?thesis
      using move_cursor [OF t, of s] inner main spec by (simp add: console_step_def Let_def)
  qed
qed

lemma same_screen_y: "screen_y s = y \<Longrightarrow> s\<lparr>screen_x := x, screen_y := y\<rparr> = s\<lparr>screen_x := x\<rparr>"
  by (cases s) simp

lemma backspace_active:
  assumes "screen_ready s"
  shows "console_step (putc_active BACKSPACE) s (erase_char (start_x s, start_y s) (screen_of s))"
proof -
  obtain r k where rk: "screen_y s = int r" "screen_x s = int k" "r < 25" "k < 80"
    "crow (screen_of s) = r" "ccol (screen_of s) = k"
    by (rule screen_coords [OF assms])
  show ?thesis
  proof (cases "(r, k) = (0, 0) \<or> (int k, int r) = (start_x s, start_y s)")
    case True
    then show ?thesis
      using assms rk by (auto simp: console_step_def putc_active_def erase_char_def)
  next
    case False
    define p where "p = 80 * r + k - 1"
    define r' k' where "r' = p div 80" and "k' = p mod 80"
    have pos: "0 < 80 * r + k" using False by auto
    have p: "p = 80 * r' + k'" "k' < 80" by (simp_all add: r'_def k'_def)
    have "r' < 25" using rk(3,4) by (simp add: r'_def p_def less_mult_imp_div_less)
    note w = write_cell [OF _ screen_base_video \<open>r' < 25\<close> p(2)]
    have addr: "cell_addr VIDEO (int r) (int k - 1) = VIDEO + 2 * (80 * r' + k')"
    proof -
      have "80 * int r + (int k - 1) = int p" using pos unfolding p_def by linarith
      then have "cell_addr VIDEO (int r) (int k - 1) = VIDEO + 2 * p"
        by (simp add: cell_addr_def nat_add_distrib nat_mult_distrib)
      then show ?thesis by (simp only: p(1))
    qed
    have k': "(int k + (NUM_COLS - 1)) mod NUM_COLS = int k'"
    proof -
      have "int p = int (80 * r + k) - 1" using pos unfolding p_def by linarith
      then have "int k' = (int (80 * r + k) - 1) mod 80" by (simp only: k'_def zmod_int of_nat_numeral)
      also have "\<dots> = (int k + 79 + 80 * (int r - 1)) mod 80" by (simp add: algebra_simps)
      also have "\<dots> = (int k + 79) mod 80" by (rule mod_mult_self2)
      finally show ?thesis by simp
    qed
    have r': "int r' = (if k' = 79 then int r - 1 else int r)"
      using p pos rk(4) by (auto simp: p_def)
    let ?s = "s\<lparr>mem := (mem s)(VIDEO + 2 * (80 * r' + k') := 0x20)\<rparr>"
    let ?t = "?s\<lparr>screen_x := int k', screen_y := int r'\<rparr>"
    have t: "screen_ready ?t" using assms \<open>r' < 25\<close> p(2) by (auto simp: screen_ready_def screen_ok_def)
    have "console_frame s ?s"
      by (rule console_frame_upd(6)) (use w(3,4) [OF assms] in auto)
    then have fr: "console_frame s ?t" by (simp add: console_frame_def)
    have er: "erase_char (start_x s, start_y s) (screen_of s) = (screen_of s)\<lparr>
        rows := put_cell r' k' (0x20, snd (rows (screen_of s) ! r' ! k')) (rows (screen_of s)),
        crow := r', ccol := k'\<rparr>"
      unfolding erase_char_def Let_def rk(5,6) p_def [symmetric] r'_def [symmetric] k'_def [symmetric]
      using False by auto
    have "screen_of ?t = erase_char (start_x s, start_y s) (screen_of s)"
      unfolding er using cells_at_put_char [OF \<open>r' < 25\<close> p(2), of VIDEO "mem s" "0x20"]
      by (simp add: screen_of_def)
    moreover have "putc_active BACKSPACE s = update_cursor (screen_x ?t) (screen_y ?t) (active_terminal ?t) ?t"
    proof -
      let ?u = "?s\<lparr>screen_x := int k'\<rparr>"
      have u: "(if screen_x ?u = NUM_COLS - 1 then ?u\<lparr>screen_y := screen_y ?u - 1\<rparr> else ?u) = ?t"
      proof (cases "k' = 79")
        case True
        then show ?thesis using r' rk(1) by simp
      next
        case False
        then have "screen_y ?s = int r'" using r' rk(1) by simp
        from same_screen_y [OF this] show ?thesis using False by simp
      qed
      have F: "\<not> (screen_x s = 0 \<and> screen_y s = 0)" "\<not> (screen_x s = start_x s \<and> screen_y s = start_y s)"
        using False rk(1,2) by auto
      have put: "kput (cell_addr VIDEO (screen_y s) (screen_x s - 1)) 0x20 s = Some ?s"
        using w(1) [OF assms] addr rk(1,2) by simp
      have x: "?s\<lparr>screen_x := (screen_x ?s + (NUM_COLS - 1)) mod NUM_COLS\<rparr> = ?u"
        using k' rk(2) by simp
      show ?thesis
        unfolding putc_active_def Let_def if_not_P [OF F(1)] if_not_P [OF F(2)] put bind.bind_lunit x u
        by simp
    qed
    ultimately show ?thesis
      using move_cursor [OF t fr] unfolding console_step_def by presburger
  qed
qed

lemma fkey_active: "screen_ready s \<Longrightarrow> c \<in> {KEY_F1, KEY_F2, KEY_F3} \<Longrightarrow> console_step (putc_active c) s (screen_of s)"
  by (auto simp: console_step_def putc_active_def)

lemma putc_active_step:
  assumes "screen_ready s"
  shows "console_step (putc_active c) s
    (if c = BACKSPACE then erase_char (start_x s, start_y s) (screen_of s)
     else type_char (tmnl_attrib_2 ! nat (active_terminal s)) c (screen_of s))"
proof -
  consider "c = 0x0A \<or> c = 0x0D" | "c = BACKSPACE" | "c \<in> {KEY_F1, KEY_F2, KEY_F3}"
    | "c \<notin> {0x0A, 0x0D, BACKSPACE, KEY_F1, KEY_F2, KEY_F3}" by blast
  then show ?thesis
  proof cases
    case 1
    then show ?thesis using newline_active [OF assms 1] by auto
  next
    case 2
    then show ?thesis using backspace_active [OF assms] by simp
  next
    case 3
    then show ?thesis using fkey_active [OF assms 3] by (auto simp: type_char_def)
  next
    case 4
    then show ?thesis using char_active [OF assms 4] by simp
  qed
qed

subsection \<open>The path to a saved screen\<close>

text \<open>The screen in the video page of a terminal, with the terminal's recorded cursor.\<close>

definition saved_screen :: "nat \<Rightarrow> kst \<Rightarrow> grid" where
  "saved_screen i s =
     (let t = tmnl_block s ! i
      in \<lparr>rows = cells_at (vidmem_ptr t) (mem s), crow = nat (pos_y t), ccol = nat (pos_x t)\<rparr>)"

lemma tmnl_coords:
  assumes "kernel_ok s" and "i < 3"
  obtains r k where "pos_y (tmnl_block s ! i) = int r" and "pos_x (tmnl_block s ! i) = int k"
    and "r < 25" and "k < 80" and "vidmem_ptr (tmnl_block s ! i) = 0xB9000 + 0x1000 * i"
    and "screen_base (vidmem_ptr (tmnl_block s ! i))"
  using kernel_ok_tmnl [OF assms] screen_base_tmnl [OF assms(2)]
    that [of "nat (pos_y (tmnl_block s ! i))" "nat (pos_x (tmnl_block s ! i))"]
  by (auto simp: tmnl_ok_def)

lemma same_pos_y: "pos_y t = y \<Longrightarrow> t\<lparr>pos_x := x, pos_y := y\<rparr> = t\<lparr>pos_x := x\<rparr>"
  by (cases t) simp

lemma same_pos: "pos_x t = x \<Longrightarrow> pos_y t = y \<Longrightarrow> t\<lparr>pos_x := x, pos_y := y\<rparr> = t"
  by (cases t) simp

lemma background_newline:
  fixes s defines "e \<equiv> nat (exec_terminal s)"
  assumes "kernel_ok s" and "c = 0x0A \<or> c = 0x0D"
  shows "putc_background c s = Some (s\<lparr>
     mem := (if pos_y (tmnl_block s ! e) = 24
             then scrolled (vidmem_ptr (tmnl_block s ! e)) (tmnl_attrib_2 ! e) (mem s) else mem s),
     tmnl_block := (tmnl_block s)[e := (tmnl_block s ! e)\<lparr>pos_x := 0,
       pos_y := (if pos_y (tmnl_block s ! e) = 24 then 24 else pos_y (tmnl_block s ! e) + 1)\<rparr>]\<rparr>)"
proof -
  note ok = kernel_okD [OF assms(2)]
  have e: "exec_terminal s = int e" "e < 3" using ok by (simp_all add: e_def)
  obtain r k where rk: "pos_y (tmnl_block s ! e) = int r" "pos_x (tmnl_block s ! e) = int k"
    "r < 25" "k < 80" "screen_base (vidmem_ptr (tmnl_block s ! e))"
    by (rule tmnl_coords [OF assms(2) e(2)])
  show ?thesis
    using assms(2,3) ok e rk
    by (auto simp: putc_background_def get_tmnl_in upd_tmnl_in attr_ok scroll_eq [OF kernel_ok_ready] Let_def same_pos_y)
qed

lemma background_char:
  fixes s defines "e \<equiv> nat (exec_terminal s)"
  assumes "kernel_ok s" and "c \<noteq> 0x0A" and "c \<noteq> 0x0D"
    and r: "pos_y (tmnl_block s ! e) = int r" and k: "pos_x (tmnl_block s ! e) = int k"
  shows "putc_background c s = Some (s\<lparr>
     mem := (if k = 79 \<and> r = 24
             then scrolled (vidmem_ptr (tmnl_block s ! e)) (tmnl_attrib_2 ! e) (mem s) else mem s)
         (vidmem_ptr (tmnl_block s ! e) + 2 * (80 * r + k) := c,
          vidmem_ptr (tmnl_block s ! e) + 2 * (80 * r + k) + 1 := tmnl_attrib_2 ! e),
     tmnl_block := (tmnl_block s)[e := (tmnl_block s ! e)\<lparr>
       pos_x := (if k = 79 then 1 else int k + 1),
       pos_y := (if k = 79 \<and> r < 24 then int r + 1 else int r)\<rparr>]\<rparr>)"
proof -
  note ok = kernel_okD [OF assms(2)]
  have e: "exec_terminal s = int e" "e < 3" using ok by (simp_all add: e_def)
  let ?t = "tmnl_block s ! e" and ?attr = "tmnl_attrib_2 ! e"
  have t: "tmnl_ok e ?t" by (rule kernel_ok_tmnl [OF assms(2) e(2)])
  then have rk: "r < 25" "k < 80" using r k by (simp_all add: tmnl_ok_def)
  have base: "screen_base (vidmem_ptr ?t)" using t screen_base_tmnl [OF e(2)] by (simp add: tmnl_ok_def)
  let ?t1 = "if k = 79 \<and> r = 24 then ?t\<lparr>pos_x := 0\<rparr> else if k = 79 then ?t\<lparr>pos_x := 0, pos_y := pos_y ?t + 1\<rparr> else ?t"
  let ?m1 = "if k = 79 \<and> r = 24 then scrolled (vidmem_ptr ?t) ?attr (mem s) else mem s"
  let ?s1 = "s\<lparr>mem := ?m1, tmnl_block := (tmnl_block s)[e := ?t1]\<rparr>"
  have t1: "tmnl_ok e ?t1" using t r k rk by (auto simp: tmnl_ok_def)
  have ok1: "kernel_ok ?s1"
    using kernel_ok_upd_tmnl [OF assms(2), of "int e" "\<lambda>_. ?t1"] t1 e(2) by (cases "k = 79"; cases "r = 24") simp_all
  have first: "(if pos_x ?t = NUM_COLS - 1 \<and> pos_y ?t = NUM_ROWS - 1 then
       do { attr \<leftarrow> arr_get tmnl_attrib_2 (exec_terminal s);
            s \<leftarrow> scroll (vidmem_ptr ?t) attr s;
            upd_tmnl (exec_terminal s) (\<lambda>t. t\<lparr>pos_x := 0\<rparr>) s }
     else if pos_x ?t = NUM_COLS - 1 then
       upd_tmnl (exec_terminal s) (\<lambda>t. t\<lparr>pos_x := 0, pos_y := pos_y t + 1\<rparr>) s
     else Some s) = Some ?s1"
    using assms(2) ok e r k base
    by (auto simp: attr_ok scroll_eq [OF kernel_ok_ready] upd_tmnl_in list_update_same_conv)
  note w = write_cell [OF kernel_ok_ready base rk]
  have put: "kput (vidmem_ptr ?t + 2 * (80 * r + k)) c ?s1 = Some (?s1\<lparr>mem := ?m1(vidmem_ptr ?t + 2 * (80 * r + k) := c)\<rparr>)"
    using w(1) [OF ok1] by simp
  have put2: "kput (vidmem_ptr ?t + 2 * (80 * r + k) + 1) ?attr (?s1\<lparr>mem := ?m1(vidmem_ptr ?t + 2 * (80 * r + k) := c)\<rparr>)
      = Some (?s1\<lparr>mem := ?m1(vidmem_ptr ?t + 2 * (80 * r + k) := c, vidmem_ptr ?t + 2 * (80 * r + k) + 1 := ?attr)\<rparr>)"
    using w(2) [of "?s1\<lparr>mem := ?m1(vidmem_ptr ?t + 2 * (80 * r + k) := c)\<rparr>"] ok1 by simp
  have pos: "pos_x ?t1 = (if k = 79 then 0 else int k)" "pos_y ?t1 = (if k = 79 \<and> r < 24 then int r + 1 else int r)"
    using r k rk by auto
  have t2: "?t1\<lparr>pos_x := (if k = 79 then 1 else int k + 1)\<rparr> = ?t\<lparr>
       pos_x := (if k = 79 then 1 else int k + 1),
       pos_y := (if k = 79 \<and> r < 24 then int r + 1 else int r)\<rparr>"
    using r k rk by auto
  have "(pos_x ?t1 + 1) mod NUM_COLS = (if k = 79 then 1 else int k + 1)"
    using pos(1) rk(2) by auto
  then show ?thesis
    using assms(3,4) ok e put put2 first t2 r k
    by (simp add: putc_background_def get_tmnl_in upd_tmnl_in attr_ok cell_addr_nat Let_def)
qed

lemma background_step:
  assumes "kernel_ok s"
  shows "\<exists>s'. putc_background c s = Some s' \<and> kernel_ok s' \<and> console_frame s s' \<and>
     screen_x s' = screen_x s \<and> screen_y s' = screen_y s"
proof -
  define e where "e = nat (exec_terminal s)"
  note ok = kernel_okD [OF assms]
  have e: "e < 3" using ok by (simp add: e_def)
  obtain r k where rk: "pos_y (tmnl_block s ! e) = int r" "pos_x (tmnl_block s ! e) = int k"
    "r < 25" "k < 80" "screen_base (vidmem_ptr (tmnl_block s ! e))"
    by (rule tmnl_coords [OF assms e])
  have t: "tmnl_ok e (tmnl_block s ! e)" by (rule kernel_ok_tmnl [OF assms e])
  have upd: "kernel_ok (s\<lparr>mem := m, tmnl_block := (tmnl_block s)[e := (tmnl_block s ! e)\<lparr>pos_x := x, pos_y := y\<rparr>]\<rparr>)
      \<and> console_frame s (s\<lparr>mem := m, tmnl_block := (tmnl_block s)[e := (tmnl_block s ! e)\<lparr>pos_x := x, pos_y := y\<rparr>]\<rparr>)"
    if "0 \<le> x" "x < 80" "0 \<le> y" "y < 25" "\<And>a. a < VIDEO \<or> 0xBC000 \<le> a \<Longrightarrow> m a = mem s a" for m x y
    using kernel_ok_upd_tmnl [OF assms, of "int e" "\<lambda>t. t\<lparr>pos_x := x, pos_y := y\<rparr>"] that e t
    by (auto simp: tmnl_ok_def console_frame_def map_no_pos_update)
  have "\<exists>m x y. putc_background c s = Some (s\<lparr>mem := m,
        tmnl_block := (tmnl_block s)[e := (tmnl_block s ! e)\<lparr>pos_x := x, pos_y := y\<rparr>]\<rparr>) \<and>
      0 \<le> x \<and> x < 80 \<and> 0 \<le> y \<and> y < 25 \<and> (\<forall>a. a < VIDEO \<or> 0xBC000 \<le> a \<longrightarrow> m a = mem s a)"
  proof (cases "c = 0x0A \<or> c = 0x0D")
    case True
    show ?thesis
      by (intro exI conjI, rule background_newline [OF assms True, folded e_def])
        (use rk in \<open>auto intro: scrolled_frame\<close>)
  next
    case False
    have "VIDEO \<le> vidmem_ptr (tmnl_block s ! e) + 2 * (80 * r + k)"
        "vidmem_ptr (tmnl_block s ! e) + 2 * (80 * r + k) + 1 < 0xBC000"
      using write_cell(3,4) [OF kernel_ok_ready [OF assms] rk(5,3,4)] by blast+
    note addr = this
    have n: "c \<noteq> 0x0A" "c \<noteq> 0x0D" using False by simp_all
    note char = background_char [OF assms n, folded e_def, OF rk(1,2)]
    show ?thesis
      by (intro exI conjI, rule char) (use rk addr in \<open>auto intro: scrolled_frame\<close>)
  qed
  then obtain m x y where eq: "putc_background c s = Some (s\<lparr>mem := m,
        tmnl_block := (tmnl_block s)[e := (tmnl_block s ! e)\<lparr>pos_x := x, pos_y := y\<rparr>]\<rparr>)"
    and xy: "0 \<le> x" "x < 80" "0 \<le> y" "y < 25" "\<And>a. a < VIDEO \<or> 0xBC000 \<le> a \<Longrightarrow> m a = mem s a"
    by blast
  show ?thesis unfolding eq using upd [OF xy] by simp
qed

lemma putc_step:
  assumes "kernel_ok s"
  shows "\<exists>s'. putc c s = Some s' \<and> kernel_ok s' \<and> console_frame s s'"
proof (cases "active_terminal s = exec_terminal s")
  case True
  then show ?thesis using putc_active_step [OF kernel_ok_ready [OF assms], of c] frame_kernel_ok [OF assms]
    by (auto simp: putc_def console_step_def)
next
  case False
  then show ?thesis using background_step [OF assms, of c] by (auto simp: putc_def)
qed

subsection \<open>Printing text\<close>

text \<open>A routine that prints one character and keeps an invariant prints any text.\<close>

locale printer =
  fixes put :: "u8 \<Rightarrow> 's \<Rightarrow> 's option"
    and inv :: "'s \<Rightarrow> bool"
    and frame :: "'s \<Rightarrow> 's \<Rightarrow> bool"
  assumes put_ok: "inv s \<Longrightarrow> \<exists>s'. put c s = Some s' \<and> inv s' \<and> frame s s'"
    and frame_refl: "frame s s"
    and frame_trans: "frame s t \<Longrightarrow> frame t u \<Longrightarrow> frame s u"
begin

lemma text_ok: "inv s \<Longrightarrow> \<exists>s'. for_each cs put s = Some s' \<and> inv s' \<and> frame s s'"
proof (induction cs arbitrary: s)
  case Nil
  then show ?case by (simp add: frame_refl)
next
  case (Cons c cs)
  then obtain s1 where "put c s = Some s1" "inv s1" "frame s s1" using put_ok by blast
  with Cons.IH [of s1] show ?case by (auto intro: frame_trans)
qed

lemma printf_ok:
  assumes "inv s" and "cstr format xs" and "render xs args = Some out"
  shows "\<exists>s'. printf put format args s = Some (length xs, s') \<and> for_each out put s = Some s' \<and> inv s' \<and> frame s s'"
  using printf_from_render(1) [OF assms(2), of 0 args out put s] assms(3) text_ok [OF assms(1), of out]
  by (auto simp: printf_def)

lemma puts_ok:
  "inv s \<Longrightarrow> cstr str xs \<Longrightarrow> \<exists>s'. puts put str s = Some (length xs, s') \<and> inv s' \<and> frame s s'"
  using text_ok [of s xs] by (auto simp: puts_cstr)

end

interpretation console: printer putc kernel_ok console_frame
  by unfold_locales (auto intro: putc_step console_frame_trans)

lemma kprintf_ok:
  assumes "kernel_ok s" and "0 \<notin> set (bytes_of format)" and "render (bytes_of format) args = Some out"
  shows "\<exists>s'. kprintf format args s = Some s' \<and> for_each out putc s = Some s' \<and> kernel_ok s' \<and> console_frame s s'"
  using console.printf_ok [OF assms(1) cstr_array [OF assms(2), of "[]"] assms(3)] by (auto simp: kprintf_def)

lemma clear_ready:
  assumes "screen_ready s"
  shows "\<exists>s'. clear s = Some s' \<and> screen_ready s' \<and> console_frame s s' \<and>
     screen_of s' = \<lparr>rows = replicate 25 (replicate 80 (0x20, ATTRIB)), crow = 0, ccol = 0\<rparr>"
proof -
  let ?m = "\<lambda>a. if VIDEO \<le> a \<and> a < VIDEO + 2 * 2000
      then (if even (a - VIDEO) then 0x20 else ATTRIB) else mem s a"
  let ?s = "s\<lparr>mem := ?m, screen_x := 0, screen_y := 0\<rparr>"
  have fill: "for_each [0..<NUM_ROWS * NUM_COLS]
            (\<lambda>i s. do { s \<leftarrow> kput (VIDEO + 2 * i) 0x20 s; kput (VIDEO + 2 * i + 1) ATTRIB s }) s
      = Some (s\<lparr>mem := ?m\<rparr>)"
    using fill_cells [OF assms, of VIDEO 2000 "0x20" ATTRIB] by simp
  have "cells_at VIDEO ?m = replicate 25 (replicate 80 (0x20, ATTRIB))"
  proof (rule grid_eqI)
    fix r c :: nat assume "r < 25" "c < 80"
    then show "cells_at VIDEO ?m ! r ! c = replicate 25 (replicate 80 (0x20, ATTRIB)) ! r ! c"
      by (simp add: cells_at_nth)
  qed simp_all
  moreover have "screen_ready ?s" using assms by (auto simp: screen_ready_def screen_ok_def)
  moreover have "console_frame s ?s" by (simp add: console_frame_def)
  ultimately show ?thesis
    using move_cursor [of ?s s] fill by (simp add: clear_def Let_def screen_of_def)
qed

lemma clear_ok:
  assumes "kernel_ok s"
  shows "\<exists>s'. clear s = Some s' \<and> kernel_ok s' \<and> console_frame s s' \<and>
     screen_of s' = \<lparr>rows = replicate 25 (replicate 80 (0x20, ATTRIB)), crow = 0, ccol = 0\<rparr>"
  using clear_ready [OF kernel_ok_ready [OF assms]] frame_kernel_ok [OF assms] by blast

text \<open>The console while the kernel boots: the running terminal is the one on display.\<close>

definition boot_screen :: "kst \<Rightarrow> bool" where
  "boot_screen s \<longleftrightarrow> screen_ready s \<and> active_terminal s = exec_terminal s"

lemma putc_boot: "boot_screen s \<Longrightarrow> \<exists>s'. putc c s = Some s' \<and> boot_screen s' \<and> console_frame s s'"
  using putc_active_step [of s c] by (fastforce simp: boot_screen_def putc_def console_step_def console_frame_def)

interpretation boot_console: printer putc boot_screen console_frame
  by unfold_locales (auto intro: putc_boot console_frame_trans)

lemma kprintf_boot:
  assumes "boot_screen s" and "0 \<notin> set (bytes_of format)" and "render (bytes_of format) args = Some out"
  shows "\<exists>s'. kprintf format args s = Some s' \<and> boot_screen s' \<and> console_frame s s'"
  using boot_console.printf_ok [OF assms(1) cstr_array [OF assms(2), of "[]"] assms(3)] by (auto simp: kprintf_def)

subsection \<open>Properties\<close>

text \<open>C11. While the running terminal is the one on display, \<open>putc\<close> refines typing on a 25 by 80
  grid: printable characters appear at the cursor in the terminal's colour, the cursor wraps at
  column 80, the text scrolls by one row at the bottom, carriage return and newline start a new
  line, backspace blanks the previous cell but never beyond the place input started, and the
  function-key codes print nothing.\<close>

theorem putc_refines_grid:
  assumes "kernel_ok s" and "active_terminal s = exec_terminal s"
  shows "\<exists>s'. putc c s = Some s' \<and> screen_of s' =
    (if c = BACKSPACE then erase_char (start_x s, start_y s) (screen_of s)
     else type_char (tmnl_attrib_2 ! nat (active_terminal s)) c (screen_of s))"
  using putc_active_step [OF kernel_ok_ready [OF assms(1)], of c] assms(2) by (auto simp: putc_def console_step_def)

theorem putc_refines_grid_witness:
  "\<exists>s'. putc 0x41 booted_kernel = Some s' \<and> screen_of s' = type_char 0x0F 0x41 (screen_of booted_kernel)"
  using putc_refines_grid [OF booted_kernel_ok, of "0x41"]
  by (simp add: booted_kernel_def tmnl_attrib_2_def)

text \<open>Safety of the console: from any state of the invariant, printing any format with any
  arguments that fit it returns, keeps the invariant, and changes no byte of memory outside the
  four video pages, no process, file, RTC or paging variable, and no terminal field but the cursor.\<close>

theorem printf_safe:
  assumes "kernel_ok s" and "cstr format xs" and "render xs args = Some out"
  shows "\<exists>s'. printf putc format args s = Some (length xs, s') \<and> kernel_ok s' \<and> console_frame s s'"
  using console.printf_ok [OF assms] by blast

theorem printf_safe_witness:
  "\<exists>s'. printf putc (lrd (bytes_of ''%c'' @ [0])) [Num 0x41] booted_kernel = Some (2, s') \<and> kernel_ok s'"
  using printf_safe [OF booted_kernel_ok cstr_array [of "bytes_of ''%c''" "[]"], of "[Num 0x41]" "[0x41]"]
  by (auto simp: bytes_of_def conversion_text_def)

text \<open>The path to a saved screen does not continue a line as the path to the screen does: a
  character printed in the last column leaves the cursor in column 1 of the next line, so column 0
  is skipped, where the screen path puts it in column 0. The character itself is stored before the
  line is moved except on the last row, where the text scrolls first.\<close>

theorem background_skips_column:
  assumes "kernel_ok s" and "active_terminal s \<noteq> exec_terminal s" and "c \<notin> {0x0A, 0x0D}"
    and "pos_x (tmnl_block s ! nat (exec_terminal s)) = 79"
  shows "\<exists>s'. putc c s = Some s' \<and> pos_x (tmnl_block s' ! nat (exec_terminal s)) = 1"
proof -
  have e: "nat (exec_terminal s) < 3" using kernel_okD(7) [OF assms(1)] by simp
  obtain r where "pos_y (tmnl_block s ! nat (exec_terminal s)) = int r"
    by (rule tmnl_coords [OF assms(1) e])
  then show ?thesis
    using background_char [OF assms(1), of c r 79] assms e kernel_okD(1) [OF assms(1)]
    by (simp add: putc_def)
qed

theorem background_skips_column_witness:
  "\<exists>s'. putc 0x41 (booted_kernel\<lparr>tmnl_block := (map booted_tmnl [0..<3])[1 := (booted_tmnl 1)\<lparr>pos_x := 79\<rparr>],
      exec_terminal := 1\<rparr>) = Some s' \<and> pos_x (tmnl_block s' ! 1) = 1"
proof -
  let ?s = "booted_kernel\<lparr>tmnl_block := (map booted_tmnl [0..<3])[1 := (booted_tmnl 1)\<lparr>pos_x := 79\<rparr>],
      exec_terminal := 1\<rparr>"
  have "tmnl_ok i (((map booted_tmnl [0..<3])[1 := (booted_tmnl 1)\<lparr>pos_x := 79\<rparr>]) ! i)" if "i < 3" for i
    using that by (auto simp: nth_list_update tmnl_ok_def booted_tmnl_def)
  then have "kernel_ok ?s"
    using booted_kernel_ok by (auto simp: kernel_ok_def screen_ok_def booted_kernel_def)
  from background_skips_column [OF this, of "0x41"] show ?thesis
    by (simp add: booted_kernel_def)
qed

end
