(* ===== verification/Terminal.thy ===== *)
theory Terminal
  imports Console
begin

text \<open>
  The three terminals of \<^verbatim>\<open>student-distrib/terminal.c\<close>: initialisation, the line buffer, switching
  between the screens, and the read and write operations of the terminal files. \<open>terminal_read\<close>
  spins until the enter flag of the running terminal is set; the interrupts that arrive meanwhile
  are the parameter \<open>env\<close>, which maps the number of the round and the state to the state the next
  test sees.
\<close>

definition tmnl_attrib :: "u8 list" where
  "tmnl_attrib = [0x0F, 0x04, 0x02]"

subsection \<open>Initialisation\<close>

definition clear_buffer :: "int \<Rightarrow> kst \<Rightarrow> (int \<times> kst) option" where
  "clear_buffer tmnl_id s =
     do { s \<leftarrow> for_each [0..<BUF_SIZE]
            (\<lambda>i s. do { t \<leftarrow> get_tmnl tmnl_id s;
                        b \<leftarrow> arr_set (buffer t) (int i) 0;
                        upd_tmnl tmnl_id (\<lambda>t. t\<lparr>buffer := b\<rparr>) s }) s;
          s \<leftarrow> upd_tmnl tmnl_id (\<lambda>t. t\<lparr>buffer_size := 0\<rparr>) s;
          Some (0, s) }"

definition clear_tmnl_vidmem :: "int \<Rightarrow> kst \<Rightarrow> (int \<times> kst) option" where
  "clear_tmnl_vidmem tmnl_id s =
     (if tmnl_id < 0 \<or> tmnl_id > NUM_TERMINAL - 1 then Some (-1, s)
      else
        do { s \<leftarrow> for_each [0..<NUM_ROWS * NUM_COLS]
               (\<lambda>i s. do { t \<leftarrow> get_tmnl tmnl_id s;
                           s \<leftarrow> kput (vidmem_ptr t + 2 * i) 0x20 s;
                           attr \<leftarrow> arr_get tmnl_attrib 0;
                           kput (vidmem_ptr t + 2 * i + 1) attr s }) s;
             s \<leftarrow> upd_tmnl tmnl_id (\<lambda>t. t\<lparr>pos_x := 0\<rparr>) s;
             s \<leftarrow> upd_tmnl tmnl_id (\<lambda>t. t\<lparr>pos_y := 0\<rparr>) s;
             Some (0, s) })"

definition init_terminal :: "kst \<Rightarrow> kst option" where
  "init_terminal s =
     do { s \<leftarrow> for_each [0..<NUM_TERMINAL]
            (\<lambda>i s. do { s \<leftarrow> upd_tmnl (int i) (\<lambda>t. t\<lparr>active_process := -1, enter_flag := KB_PENDING,
                               tmnl_flags := TMNL_IDLE, vidmem_ptr := FOUR_KB * (VM_ADDR + i + 1)\<rparr>) s;
                        s \<leftarrow> for_each [0..<BUF_SIZE]
                          (\<lambda>j s. do { t \<leftarrow> get_tmnl (int i) s;
                                      b \<leftarrow> arr_set (buffer t) (int j) 0;
                                      upd_tmnl (int i) (\<lambda>t. t\<lparr>buffer := b\<rparr>) s }) s;
                        s \<leftarrow> upd_tmnl (int i) (\<lambda>t. t\<lparr>buffer_size := 0\<rparr>) s;
                        (_, s) \<leftarrow> clear_tmnl_vidmem (int i) s;
                        Some s }) s;
          let s = s\<lparr>active_terminal := -1, exec_terminal := -1\<rparr>;
          clear s }"

subsection \<open>print_tmnl\<close>

definition print_tmnl :: "int \<Rightarrow> u8 \<Rightarrow> kst \<Rightarrow> (int \<times> kst) option" where
  "print_tmnl tmnl_id c s =
     (if tmnl_id < 0 \<or> tmnl_id > NUM_TERMINAL - 1 then Some (-1, s)
      else if active_terminal s = exec_terminal s then
        do { s \<leftarrow> kprintf ''%c'' [Num (ucast c)] s;
             s \<leftarrow> upd_tmnl (active_terminal s) (\<lambda>t. t\<lparr>pos_x := get_cursor_x s\<rparr>) s;
             s \<leftarrow> upd_tmnl (active_terminal s) (\<lambda>t. t\<lparr>pos_y := get_cursor_y s\<rparr>) s;
             Some (0, s) }
      else
        do { t \<leftarrow> get_tmnl (exec_terminal s) s;
             let tmnl_vidmem = vidmem_ptr t; let tmnl_posx = pos_x t; let tmnl_posy = pos_y t;
             if c = 0x0A \<or> c = 0x0D then
               do { s \<leftarrow> (if tmnl_posy \<ge> NUM_ROWS - 1 then
                            do { attr \<leftarrow> arr_get tmnl_attrib (exec_terminal s); scroll tmnl_vidmem attr s }
                          else Some s);
                    s \<leftarrow> upd_tmnl (exec_terminal s) (\<lambda>t. t\<lparr>pos_x := 0, pos_y := pos_y t + 1\<rparr>) s;
                    Some (0, s) }
             else
               do { s \<leftarrow> (if tmnl_posx = NUM_COLS - 1 \<and> tmnl_posy = NUM_ROWS - 1 then
                            do { attr \<leftarrow> arr_get tmnl_attrib (exec_terminal s);
                                 s \<leftarrow> scroll tmnl_vidmem attr s;
                                 upd_tmnl (exec_terminal s) (\<lambda>t. t\<lparr>pos_x := 0, pos_y := pos_y t + 1\<rparr>) s }
                          else if tmnl_posx = NUM_COLS - 1 then
                            upd_tmnl (exec_terminal s) (\<lambda>t. t\<lparr>pos_x := 0, pos_y := pos_y t + 1\<rparr>) s
                          else Some s);
                    s \<leftarrow> kput (cell_addr tmnl_vidmem tmnl_posy tmnl_posx) c s;
                    attr \<leftarrow> arr_get tmnl_attrib (exec_terminal s);
                    s \<leftarrow> kput (cell_addr tmnl_vidmem tmnl_posy tmnl_posx + 1) attr s;
                    s \<leftarrow> upd_tmnl (exec_terminal s) (\<lambda>t. t\<lparr>pos_x := (pos_x t + 1) mod NUM_COLS\<rparr>) s;
                    t \<leftarrow> get_tmnl (exec_terminal s) s;
                    s \<leftarrow> (if pos_x t = 0 then
                            upd_tmnl (exec_terminal s) (\<lambda>t. t\<lparr>pos_y := pos_y t + 1\<rparr>) s
                          else Some s);
                    Some (0, s) } })"

subsection \<open>Switching\<close>

definition save_terminal :: "int \<Rightarrow> kst \<Rightarrow> kst option" where
  "save_terminal tmnl_id s =
     do { s \<leftarrow> upd_tmnl tmnl_id (\<lambda>t. t\<lparr>pos_x := get_cursor_x s\<rparr>) s;
          s \<leftarrow> upd_tmnl tmnl_id (\<lambda>t. t\<lparr>pos_y := get_cursor_y s\<rparr>) s;
          t \<leftarrow> get_tmnl tmnl_id s;
          m \<leftarrow> memcpy (kernel_xlat (pg s)) (vidmem_ptr t) (video_start (pg s)) FOUR_KB (mem s);
          Some (s\<lparr>mem := m\<rparr>) }"

definition restore_terminal :: "int \<Rightarrow> kst \<Rightarrow> kst option" where
  "restore_terminal tmnl_id s =
     do { t \<leftarrow> get_tmnl tmnl_id s;
          let s = s\<lparr>screen_x := pos_x t, screen_y := pos_y t\<rparr>;
          m \<leftarrow> memcpy (kernel_xlat (pg s)) (video_start (pg s)) (vidmem_ptr t) FOUR_KB (mem s);
          let s = s\<lparr>mem := m\<rparr>;
          update_cursor (screen_x s) (screen_y s) tmnl_id s }"

definition switch_terminal :: "int \<Rightarrow> kst \<Rightarrow> (int \<times> kst) option" where
  "switch_terminal tmnl_id s =
     (if tmnl_id = active_terminal s then Some (0, s)
      else if tmnl_id > NUM_TERMINAL - 1 \<or> tmnl_id < 0 then Some (-1, s)
      else
        do { t \<leftarrow> get_tmnl tmnl_id s;
             if tmnl_flags t = TMNL_IDLE then Some (0, s)
             else
               do { s \<leftarrow> save_terminal (active_terminal s) s;
                    s \<leftarrow> restore_terminal tmnl_id s;
                    Some (0, s\<lparr>active_terminal := tmnl_id\<rparr>) } })"

subsection \<open>The terminal files\<close>

definition terminal_open :: "kst \<Rightarrow> (int \<times> kst) option" where
  "terminal_open s = Some (0, s)"

definition terminal_close :: "kst \<Rightarrow> (int \<times> kst) option" where
  "terminal_close s = Some (0, s)"

definition wait_enter :: "(nat \<Rightarrow> kst \<Rightarrow> kst option) \<Rightarrow> kst \<Rightarrow> kst option" where
  "wait_enter env =
     spin (\<lambda>s. do { t \<leftarrow> get_tmnl (exec_terminal s) s; Some (enter_flag t = KB_PENDING) }) env 0"

definition terminal_read ::
  "(nat \<Rightarrow> kst \<Rightarrow> kst option) \<Rightarrow> nat \<Rightarrow> int \<Rightarrow> kst \<Rightarrow> (int \<times> kst) option" where
  "terminal_read env buf nbytes s =
     do { let s = cli s;
          if buf = 0 then Some (-1, s)
          else
            do { let nbytes = (if nbytes > BUF_SIZE then BUF_SIZE else nbytes);
                 let s = sti s;
                 s \<leftarrow> wait_enter env s;
                 let s = cli s;
                 s \<leftarrow> upd_tmnl (exec_terminal s) (\<lambda>t. t\<lparr>enter_flag := KB_PENDING\<rparr>) s;
                 s \<leftarrow> for_each [0..<nat nbytes]
                   (\<lambda>i s. do { t \<leftarrow> get_tmnl (exec_terminal s) s;
                               c \<leftarrow> arr_get (buffer t) (int i);
                               kput (buf + i) c s }) s;
                 (_, s) \<leftarrow> clear_buffer (exec_terminal s) s;
                 let s = sti s;
                 Some (nbytes, s) } }"

definition terminal_write :: "nat \<Rightarrow> int \<Rightarrow> kst \<Rightarrow> (int \<times> kst) option" where
  "terminal_write buf nbytes s =
     do { let s = cli s;
          if buf = 0 then Some (-1, s)
          else
            do { s \<leftarrow> for_each [0..<nat nbytes]
                   (\<lambda>i s. do { c \<leftarrow> kview s (buf + i); kprintf ''%c'' [Num (scast c)] s }) s;
                 let s = sti s;
                 Some (nbytes, s) } }"

subsection \<open>Switching shows the saved screen and saves the shown one\<close>

lemma kernel_ok_video_start: "kernel_ok s \<Longrightarrow> video_start (pg s) = VIDEO"
  by (auto simp: kernel_ok_def paging_inv_def)

lemma cells_at_blit:
  assumes "n = 4096"
  shows "cells_at dst (blit dst src n m) = cells_at src m"
proof (rule grid_eqI)
  fix r c :: nat assume rc: "r < 25" "c < 80"
  then have "80 * r + c < 2000" by simp
  then show "cells_at dst (blit dst src n m) ! r ! c = cells_at src m ! r ! c"
    using rc assms by (simp add: cells_at_nth blit_def)
qed simp_all

lemma cells_at_blit_other:
  "base + 4096 \<le> dst \<or> dst + n \<le> base \<Longrightarrow> cells_at base (blit dst src n m) = cells_at base m"
proof (rule grid_eqI)
  fix r c :: nat assume b: "base + 4096 \<le> dst \<or> dst + n \<le> base" and rc: "r < 25" "c < 80"
  then have "80 * r + c < 2000" by simp
  then show "cells_at base (blit dst src n m) ! r ! c = cells_at base m ! r ! c"
    using rc b by (auto simp: cells_at_nth blit_def)
qed simp_all

lemma save_terminal_eq:
  assumes "kernel_ok s" and "i < 3"
  shows "save_terminal (int i) s = Some (s\<lparr>
     mem := blit (0xB9000 + 0x1000 * i) VIDEO 4096 (mem s),
     tmnl_block := (tmnl_block s)[i := (tmnl_block s ! i)\<lparr>pos_x := screen_x s, pos_y := screen_y s\<rparr>]\<rparr>)"
    and "kernel_ok (s\<lparr>
     mem := blit (0xB9000 + 0x1000 * i) VIDEO 4096 (mem s),
     tmnl_block := (tmnl_block s)[i := (tmnl_block s ! i)\<lparr>pos_x := screen_x s, pos_y := screen_y s\<rparr>]\<rparr>)"
proof -
  have t: "tmnl_ok i (tmnl_block s ! i)" by (rule kernel_ok_tmnl [OF assms])
  have "id_mapped (kernel_xlat (pg s)) (0xB9000 + 0x1000 * i) 4096" "id_mapped (kernel_xlat (pg s)) VIDEO 4096"
    using assms(2) by (auto intro: id_mapped_sub [OF kernel_ok_video [OF assms(1)]])
  then have "memcpy (kernel_xlat (pg s)) (0xB9000 + 0x1000 * i) VIDEO 4096 (mem s)
      = Some (blit (0xB9000 + 0x1000 * i) VIDEO 4096 (mem s))"
    by (intro memcpy_blit) auto
  then show "save_terminal (int i) s = Some (s\<lparr>
     mem := blit (0xB9000 + 0x1000 * i) VIDEO 4096 (mem s),
     tmnl_block := (tmnl_block s)[i := (tmnl_block s ! i)\<lparr>pos_x := screen_x s, pos_y := screen_y s\<rparr>]\<rparr>)"
    using assms t kernel_okD [OF assms(1)] kernel_ok_video_start [OF assms(1)]
    by (simp add: save_terminal_def upd_tmnl_in get_tmnl_in get_cursor_x_def get_cursor_y_def tmnl_ok_def)
  show "kernel_ok (s\<lparr>
     mem := blit (0xB9000 + 0x1000 * i) VIDEO 4096 (mem s),
     tmnl_block := (tmnl_block s)[i := (tmnl_block s ! i)\<lparr>pos_x := screen_x s, pos_y := screen_y s\<rparr>]\<rparr>)"
    using kernel_ok_upd_tmnl [OF assms(1), of "int i" "\<lambda>t. t\<lparr>pos_x := screen_x s, pos_y := screen_y s\<rparr>"]
      t assms(2) kernel_okD(8) [OF assms(1)]
    by (simp add: tmnl_ok_def screen_ok_def)
qed

lemma restore_terminal_ok:
  assumes "kernel_ok s" and "i < 3"
  shows "\<exists>s'. restore_terminal (int i) s = Some s' \<and> kernel_ok s' \<and> console_frame s s' \<and>
     mem s' = blit VIDEO (0xB9000 + 0x1000 * i) 4096 (mem s) \<and>
     screen_of s' = saved_screen i s \<and> tmnl_block s' = tmnl_block s"
proof -
  let ?t = "tmnl_block s ! i" and ?m = "blit VIDEO (0xB9000 + 0x1000 * i) 4096 (mem s)"
  have t: "tmnl_ok i ?t" by (rule kernel_ok_tmnl [OF assms])
  let ?s = "s\<lparr>screen_x := pos_x ?t, screen_y := pos_y ?t, mem := ?m\<rparr>"
  have ok: "kernel_ok ?s"
    using t assms(1) by (auto simp: tmnl_ok_def kernel_ok_def screen_ok_def)
  have "id_mapped (kernel_xlat (pg s)) (0xB9000 + 0x1000 * i) 4096" "id_mapped (kernel_xlat (pg s)) VIDEO 4096"
    using assms(2) by (auto intro: id_mapped_sub [OF kernel_ok_video [OF assms(1)]])
  then have c: "memcpy (kernel_xlat (pg s)) VIDEO (0xB9000 + 0x1000 * i) 4096 (mem s) = Some ?m"
    by (intro memcpy_blit) auto
  obtain s' where s': "update_cursor (pos_x ?t) (pos_y ?t) (int i) ?s = Some s'" "kernel_ok s'"
    "console_frame ?s s'" "screen_of s' = screen_of ?s" "mem s' = ?m"
    "tmnl_block s' = (tmnl_block s)[i := ?t\<lparr>pos_x := pos_x ?t, pos_y := pos_y ?t\<rparr>]"
    using update_cursor_ok [OF ok, of "int i" "pos_x ?t" "pos_y ?t"] assms(2) t
    by (auto simp: tmnl_ok_def)
  have "console_frame s ?s" by (auto simp: console_frame_def blit_def)
  then have "console_frame s s'" using s'(3) by (rule console_frame_trans)
  moreover have "screen_of ?s = saved_screen i s"
    using t by (simp add: screen_of_def saved_screen_def cells_at_blit tmnl_ok_def Let_def)
  moreover have "tmnl_block s' = tmnl_block s" using s'(6) by (simp add: same_pos)
  ultimately show ?thesis
    using s' c assms kernel_okD(1) [OF assms(1)] kernel_ok_video_start [OF assms(1)] t
    by (simp add: restore_terminal_def get_tmnl_in tmnl_ok_def)
qed

lemma switch_terminal_ok:
  assumes "kernel_ok s" and "active_terminal s = int a" and "a < 3" and "b < 3" and "b \<noteq> a"
    and "tmnl_flags (tmnl_block s ! b) \<noteq> TMNL_IDLE"
  shows "\<exists>s'. switch_terminal (int b) s = Some (0, s') \<and> kernel_ok s' \<and> active_terminal s' = int b \<and>
     screen_of s' = saved_screen b s \<and> saved_screen a s' = screen_of s \<and>
     (\<forall>i < 3. i \<noteq> a \<longrightarrow> saved_screen i s' = saved_screen i s \<and> tmnl_block s' ! i = tmnl_block s ! i) \<and>
     tmnl_flags (tmnl_block s' ! a) = tmnl_flags (tmnl_block s ! a)"
proof -
  let ?s1 = "s\<lparr>mem := blit (0xB9000 + 0x1000 * a) VIDEO 4096 (mem s),
     tmnl_block := (tmnl_block s)[a := (tmnl_block s ! a)\<lparr>pos_x := screen_x s, pos_y := screen_y s\<rparr>]\<rparr>"
  note save = save_terminal_eq [OF assms(1,3)]
  have len: "length (tmnl_block s) = 3" by (rule kernel_okD(1) [OF assms(1)])
  obtain s2 where s2: "restore_terminal (int b) ?s1 = Some s2" "kernel_ok s2" "console_frame ?s1 s2"
    "mem s2 = blit VIDEO (0xB9000 + 0x1000 * b) 4096 (mem ?s1)"
    "screen_of s2 = saved_screen b ?s1" "tmnl_block s2 = tmnl_block ?s1"
    using restore_terminal_ok [OF save(2) assms(4)] by blast
  have vid: "vidmem_ptr (tmnl_block s ! i) = 0xB9000 + 0x1000 * i" if "i < 3" for i
    using kernel_ok_tmnl [OF assms(1) that] by (simp add: tmnl_ok_def)
  have other: "saved_screen i ?s1 = saved_screen i s" if "i < 3" "i \<noteq> a" for i
    using that vid [OF that(1)] by (auto simp: saved_screen_def Let_def intro!: cells_at_blit_other)
  have same: "saved_screen i (s2\<lparr>active_terminal := int b\<rparr>) = saved_screen i ?s1" if "i < 3" for i
    using that vid [OF that] vid [OF assms(3)] len assms(3) s2(4,6)
    by (auto simp: saved_screen_def Let_def nth_list_update intro!: cells_at_blit_other)
  have a: "saved_screen a ?s1 = screen_of s"
    using assms(3) len vid [OF assms(3)] by (simp add: saved_screen_def screen_of_def cells_at_blit)
  have "switch_terminal (int b) s = Some (0, s2\<lparr>active_terminal := int b\<rparr>)"
    using assms len save(1) s2(1) by (simp add: switch_terminal_def get_tmnl_in)
  moreover have "kernel_ok (s2\<lparr>active_terminal := int b\<rparr>)"
    using s2(2) assms(4) by (auto simp: kernel_ok_def screen_ok_def)
  moreover have "screen_of (s2\<lparr>active_terminal := int b\<rparr>) = saved_screen b s"
    using s2(5) other [OF assms(4,5)] by (simp add: screen_of_def)
  ultimately show ?thesis
    using same a other assms(3) s2(6) len by (simp add: nth_list_update)
qed

subsection \<open>Memory of the running program\<close>

text \<open>
  A range of user addresses inside the program page of the process that is mapped, and the frame
  it lies in.
\<close>

definition user_range :: "kst \<Rightarrow> nat \<Rightarrow> nat \<Rightarrow> nat \<Rightarrow> bool" where
  "user_range s pid a n \<longleftrightarrow>
     paging_inv (Some pid) (pg s) \<and> OFF_128MB \<le> a \<and> a + n \<le> OFF_128MB + OFF_4MB"

definition user_frame :: "nat \<Rightarrow> nat \<Rightarrow> nat" where
  "user_frame pid a = OFF_8MB + OFF_4MB * pid + (a - OFF_128MB)"

lemma kview_user:
  "user_range s pid a n \<Longrightarrow> i < n \<Longrightarrow> kview s (a + i) = Some (mem s (user_frame pid a + i))"
  using walk_process_page [of pid "pg s" "a + i"]
  by (simp add: user_range_def kview_def ld_def kernel_xlat_def user_frame_def add.assoc [symmetric])

lemma kput_user:
  "user_range s pid a n \<Longrightarrow> i < n \<Longrightarrow>
     kput (a + i) b s = Some (s\<lparr>mem := (mem s)(user_frame pid a + i := b)\<rparr>)"
  using walk_process_page [of pid "pg s" "a + i"]
  by (simp add: user_range_def kput_def st_def kernel_xlat_def user_frame_def add.assoc [symmetric])

lemma user_frame_high: "user_range s pid a n \<Longrightarrow> OFF_8MB \<le> user_frame pid a"
  by (simp add: user_frame_def)

text \<open>Bytes stored at an address, and the copy-out loops of the read operations.\<close>

definition poke :: "nat \<Rightarrow> u8 list \<Rightarrow> mem \<Rightarrow> mem" where
  "poke a bs m = (\<lambda>p. if a \<le> p \<and> p < a + length bs then bs ! (p - a) else m p)"

lemma copy_out:
  assumes "user_range s pid a (length bs)"
    and "\<And>i s'. i < length bs \<Longrightarrow> s' = s\<lparr>mem := mem s'\<rparr> \<Longrightarrow> f i s' = kput (a + i) (bs ! i) s'"
  shows "for_each [0..<length bs] f s = Some (s\<lparr>mem := poke (user_frame pid a) bs (mem s)\<rparr>)"
proof -
  have "\<exists>s'. for_each [0..<length bs] f s = Some s' \<and>
      s' = s\<lparr>mem := poke (user_frame pid a) (take (length bs) bs) (mem s)\<rparr>"
  proof (rule for_each_upt [where P = "\<lambda>i s'. s' = s\<lparr>mem := poke (user_frame pid a) (take i bs) (mem s)\<rparr>"])
    have "poke (user_frame pid a) [] (mem s) = mem s" by (intro ext) (auto simp: poke_def)
    then show "s = s\<lparr>mem := poke (user_frame pid a) (take 0 bs) (mem s)\<rparr>" by simp
    fix i s' assume i: "i < length bs" and s': "s' = s\<lparr>mem := poke (user_frame pid a) (take i bs) (mem s)\<rparr>"
    have "user_range s' pid a (length bs)" using assms(1) s' by (simp add: user_range_def)
    then have "f i s' = Some (s'\<lparr>mem := (mem s')(user_frame pid a + i := bs ! i)\<rparr>)"
      using assms(2) [OF i, of s'] s' i by (simp add: kput_user)
    moreover have "(poke (user_frame pid a) (take i bs) (mem s))(user_frame pid a + i := bs ! i)
        = poke (user_frame pid a) (take (Suc i) bs) (mem s)"
      using i by (auto simp: poke_def fun_eq_iff take_Suc_conv_app_nth nth_append)
    ultimately show "\<exists>s''. f i s' = Some s'' \<and> s'' = s\<lparr>mem := poke (user_frame pid a) (take (Suc i) bs) (mem s)\<rparr>"
      by (simp add: s')
  qed simp
  then show ?thesis by simp
qed

subsection \<open>terminal_write prints the bytes of the buffer\<close>

lemma ucast_scast: "ucast (scast (c :: u8) :: u32) = c"
  by (rule bit_word_eqI) (simp add: bit_ucast_iff bit_signed_iff)

lemma kprintf_char: "kernel_ok s \<Longrightarrow> kprintf ''%c'' [Num (scast c)] s = putc c s"
  using kprintf_ok [of s "''%c''" "[Num (scast c)]" "[c]"] putc_step [of s c]
  by (auto simp: bytes_of_def conversion_text_def ucast_scast)

lemma terminal_write_prints:
  assumes "kernel_ok s" and "user_range s pid buf (length cs)" and "buf \<noteq> 0"
    and "\<And>i. i < length cs \<Longrightarrow> kview s (buf + i) = Some (cs ! i)"
  shows "\<exists>s'. for_each cs putc (cli s) = Some s' \<and> kernel_ok s' \<and> console_frame (cli s) s' \<and>
     terminal_write buf (int (length cs)) s = Some (int (length cs), sti s')"
proof -
  let ?f = "\<lambda>i s. do { c \<leftarrow> kview s (buf + i); kprintf ''%c'' [Num (scast c)] s }"
  have "\<exists>r. for_each [0..<length cs] ?f (cli s) = Some r \<and>
     (for_each (take (length cs) cs) putc (cli s) = Some r \<and> kernel_ok r \<and> console_frame (cli s) r)"
  proof (rule for_each_upt [where P = "\<lambda>i r. for_each (take i cs) putc (cli s) = Some r \<and>
      kernel_ok r \<and> console_frame (cli s) r"])
    show "for_each (take 0 cs) putc (cli s) = Some (cli s) \<and> kernel_ok (cli s) \<and> console_frame (cli s) (cli s)"
      using assms(1) by simp
    fix i r assume i: "i < length cs"
      and r: "for_each (take i cs) putc (cli s) = Some r \<and> kernel_ok r \<and> console_frame (cli s) r"
    have pgeq: "pg r = pg s" using r by (simp add: console_frame_def cli_def)
    then have "user_range r pid buf (length cs)" using assms(2) by (simp add: user_range_def)
    then have "kview r (buf + i) = Some (mem r (user_frame pid buf + i))" using i by (rule kview_user)
    also have "mem r (user_frame pid buf + i) = mem s (user_frame pid buf + i)"
      using r user_frame_high [OF assms(2)] by (simp add: console_frame_def cli_def)
    also have "Some (mem s (user_frame pid buf + i)) = Some (cs ! i)"
      using kview_user [OF assms(2) i] assms(4) [OF i] by simp
    finally have v: "kview r (buf + i) = Some (cs ! i)" .
    obtain r' where "putc (cs ! i) r = Some r'" "kernel_ok r'" "console_frame r r'"
      using putc_step r by blast
    then show "\<exists>r'. ?f i r = Some r' \<and> for_each (take (Suc i) cs) putc (cli s) = Some r' \<and>
        kernel_ok r' \<and> console_frame (cli s) r'"
      using v r i console_frame_trans
      by (auto simp: kprintf_char take_Suc_conv_app_nth for_each_append)
  qed simp
  then show ?thesis using assms(3) by (auto simp: terminal_write_def)
qed

subsection \<open>terminal_read delivers the line buffer\<close>

definition enter_pending :: "kst \<Rightarrow> bool" where
  "enter_pending s \<longleftrightarrow> enter_flag (tmnl_block s ! nat (exec_terminal s)) = KB_PENDING"

lemma enter_test:
  "kernel_ok s \<Longrightarrow> do { t \<leftarrow> get_tmnl (exec_terminal s) s; Some (enter_flag t = KB_PENDING) } = Some (enter_pending s)"
  using kernel_okD [of s] by (simp add: get_tmnl_in enter_pending_def)

lemma wait_enter_returns:
  assumes "env_run env k s = Some s'" and "kernel_ok s'" and "\<not> enter_pending s'"
    and "\<And>i. i < k \<Longrightarrow> \<exists>t. env_run env i s = Some t \<and> kernel_ok t \<and> enter_pending t"
  shows "wait_enter env s = Some s'"
  unfolding wait_enter_def
  by (rule spin_returns [OF assms(1)]) (use assms(2-4) enter_test in \<open>fastforce+\<close>)

lemma clear_buffer_eq:
  assumes "kernel_ok s" and "i < 3"
  shows "clear_buffer (int i) s = Some (0, s\<lparr>tmnl_block := (tmnl_block s)
    [i := (tmnl_block s ! i)\<lparr>buffer := replicate 128 0, buffer_size := 0\<rparr>]\<rparr>)"
proof -
  let ?t = "tmnl_block s ! i"
  have len: "length (tmnl_block s) = 3" "length (buffer ?t) = 128"
    using kernel_okD(1) [OF assms(1)] kernel_ok_tmnl [OF assms] by (simp_all add: tmnl_ok_def)
  have "\<exists>s'. for_each [0..<BUF_SIZE]
       (\<lambda>j s. do { t \<leftarrow> get_tmnl (int i) s;
                   b \<leftarrow> arr_set (buffer t) (int j) 0;
                   upd_tmnl (int i) (\<lambda>t. t\<lparr>buffer := b\<rparr>) s }) s = Some s' \<and>
     s' = s\<lparr>tmnl_block := (tmnl_block s)[i := ?t\<lparr>buffer := replicate 128 0 @ drop 128 (buffer ?t)\<rparr>]\<rparr>"
    by (rule for_each_upt [where P = "\<lambda>j s'. s' = s\<lparr>tmnl_block := (tmnl_block s)
          [i := ?t\<lparr>buffer := replicate j 0 @ drop j (buffer ?t)\<rparr>]\<rparr>"])
      (use len assms(2) in \<open>auto simp: get_tmnl_in upd_tmnl_in arr_set_nat list_update_append
         replicate_app_Cons_same Cons_nth_drop_Suc [symmetric]\<close>)
  then show ?thesis
    using len assms(2) by (auto simp: clear_buffer_def upd_tmnl_in)
qed

lemma terminal_read_ok:
  assumes "wait_enter env (sti (cli s)) = Some s1" and "kernel_ok s1" and "buf \<noteq> 0"
    and "n = min (nat nbytes) 128" and "0 \<le> nbytes" and "user_range s1 pid buf n"
  defines "e \<equiv> nat (exec_terminal s1)"
  shows "terminal_read env buf nbytes s = Some (int n, sti (cli s1\<lparr>
     tmnl_block := (tmnl_block s1)[e := (tmnl_block s1 ! e)\<lparr>enter_flag := KB_PENDING,
        buffer := replicate 128 0, buffer_size := 0\<rparr>],
     mem := poke (user_frame pid buf) (take n (buffer (tmnl_block s1 ! e))) (mem s1)\<rparr>))"
proof -
  note ok = kernel_okD [OF assms(2)]
  have e: "exec_terminal s1 = int e" "e < 3" using ok by (simp_all add: e_def)
  let ?t = "tmnl_block s1 ! e"
  let ?s2 = "(cli s1)\<lparr>tmnl_block := (tmnl_block s1)[e := ?t\<lparr>enter_flag := KB_PENDING\<rparr>]\<rparr>"
  let ?bs = "take n (buffer ?t)"
  have t: "tmnl_ok e ?t" by (rule kernel_ok_tmnl [OF assms(2) e(2)])
  have lbs: "length ?bs = n" using t assms(4) by (simp add: tmnl_ok_def)
  have ok2: "kernel_ok ?s2"
    using kernel_ok_upd_tmnl [of "cli s1" "int e" "\<lambda>t. t\<lparr>enter_flag := KB_PENDING\<rparr>"] assms(2) e(2) t
    by (simp add: tmnl_ok_def cli_def)
  have "for_each [0..<length ?bs]
       (\<lambda>i s. do { t \<leftarrow> get_tmnl (exec_terminal s) s;
                   c \<leftarrow> arr_get (buffer t) (int i);
                   kput (buf + i) c s }) ?s2
     = Some (?s2\<lparr>mem := poke (user_frame pid buf) ?bs (mem ?s2)\<rparr>)"
  proof (rule copy_out)
    show "user_range ?s2 pid buf (length ?bs)" using assms(6) lbs by (simp add: user_range_def cli_def)
    fix i s' assume i: "i < length ?bs" and s': "s' = ?s2\<lparr>mem := mem s'\<rparr>"
    have "tmnl_block s' = tmnl_block ?s2" "exec_terminal s' = int e"
      using arg_cong [OF s', of tmnl_block] arg_cong [OF s', of exec_terminal] e by (simp_all add: cli_def)
    then show "do { t \<leftarrow> get_tmnl (exec_terminal s') s';
                   c \<leftarrow> arr_get (buffer t) (int i);
                   kput (buf + i) c s' } = kput (buf + i) (?bs ! i) s'"
      using i e ok(1) t by (simp add: get_tmnl_in arr_get_nat tmnl_ok_def)
  qed
  moreover have "clear_buffer (int e) (?s2\<lparr>mem := poke (user_frame pid buf) ?bs (mem ?s2)\<rparr>)
      = Some (0, ?s2\<lparr>mem := poke (user_frame pid buf) ?bs (mem ?s2),
         tmnl_block := (tmnl_block s1)[e := ?t\<lparr>enter_flag := KB_PENDING, buffer := replicate 128 0, buffer_size := 0\<rparr>]\<rparr>)"
    using clear_buffer_eq [of "?s2\<lparr>mem := poke (user_frame pid buf) ?bs (mem ?s2)\<rparr>" e] ok2 e(2) ok(1)
    by simp
  moreover have "nat (if nbytes > BUF_SIZE then BUF_SIZE else nbytes) = n"
    "(if nbytes > BUF_SIZE then BUF_SIZE else nbytes) = int n"
    using assms(4,5) by auto
  ultimately show ?thesis
    using assms(1,3) e ok(1) lbs
    by (simp add: terminal_read_def Let_def upd_tmnl_in cli_def sti_def)
qed

subsection \<open>Properties\<close>

text \<open>C24. Switching terminals: a switch from terminal \<open>a\<close> to a running terminal \<open>b\<close> shows exactly the
  saved screen and cursor of \<open>b\<close>, saves what was on display as the screen of \<open>a\<close>, leaves the third
  terminal alone, and switching back restores the display of \<open>a\<close> and the saved screen of \<open>b\<close>
  exactly.\<close>

theorem switch_terminal_roundtrip:
  assumes "kernel_ok s" and "active_terminal s = int a" and "a < 3" and "b < 3" and "b \<noteq> a"
    and "tmnl_flags (tmnl_block s ! a) \<noteq> TMNL_IDLE" and "tmnl_flags (tmnl_block s ! b) \<noteq> TMNL_IDLE"
  shows "\<exists>s1 s2. switch_terminal (int b) s = Some (0, s1) \<and> active_terminal s1 = int b \<and>
     screen_of s1 = saved_screen b s \<and> saved_screen a s1 = screen_of s \<and>
     switch_terminal (int a) s1 = Some (0, s2) \<and> active_terminal s2 = int a \<and>
     screen_of s2 = screen_of s \<and> saved_screen b s2 = saved_screen b s \<and>
     (\<forall>i \<in> {..<3} - {a, b}. saved_screen i s2 = saved_screen i s) \<and> kernel_ok s2"
proof -
  obtain s1 where s1: "switch_terminal (int b) s = Some (0, s1)" "kernel_ok s1" "active_terminal s1 = int b"
    "screen_of s1 = saved_screen b s" "saved_screen a s1 = screen_of s"
    "\<forall>i < 3. i \<noteq> a \<longrightarrow> saved_screen i s1 = saved_screen i s \<and> tmnl_block s1 ! i = tmnl_block s ! i"
    "tmnl_flags (tmnl_block s1 ! a) = tmnl_flags (tmnl_block s ! a)"
    using switch_terminal_ok [OF assms(1-5,7)] by blast
  then have "tmnl_flags (tmnl_block s1 ! a) \<noteq> TMNL_IDLE" using assms(6) by simp
  from switch_terminal_ok [OF s1(2,3) assms(4,3) assms(5) [symmetric] this]
  obtain s2 where s2: "switch_terminal (int a) s1 = Some (0, s2)" "kernel_ok s2" "active_terminal s2 = int a"
    "screen_of s2 = saved_screen a s1" "saved_screen b s2 = screen_of s1"
    "\<forall>i < 3. i \<noteq> b \<longrightarrow> saved_screen i s2 = saved_screen i s1 \<and> tmnl_block s2 ! i = tmnl_block s1 ! i"
    by blast
  have "\<forall>i \<in> {..<3} - {a, b}. saved_screen i s2 = saved_screen i s"
    using s1(6) s2(6) by simp
  then show ?thesis using s1 s2 by (intro exI [of _ s1] exI [of _ s2]) simp
qed

theorem switch_terminal_roundtrip_witness:
  "\<exists>s1 s2. switch_terminal 1 booted_kernel = Some (0, s1) \<and> switch_terminal 0 s1 = Some (0, s2) \<and>
     screen_of s2 = screen_of booted_kernel"
  using switch_terminal_roundtrip [OF booted_kernel_ok, of 0 1]
  by (auto simp: booted_kernel_def booted_tmnl_def)

text \<open>C14. \<open>terminal_read\<close> returns once the interrupts that arrive while it waits have set the enter
  flag of its terminal, in round \<open>k\<close>: it stores the first \<open>min nbytes 128\<close> bytes of the line buffer
  at \<open>buf\<close> in the frame of the process, empties the buffer, re-arms the flag and changes no other
  byte of memory. Its result is that number, not the number of bytes typed.\<close>

theorem terminal_read_delivers:
  assumes "env_run env k (sti (cli s)) = Some s1" and "kernel_ok s1" and "\<not> enter_pending s1"
    and "\<And>i. i < k \<Longrightarrow> \<exists>t. env_run env i (sti (cli s)) = Some t \<and> kernel_ok t \<and> enter_pending t"
    and "0 \<le> nbytes" and "buf \<noteq> 0" and "user_range s1 pid buf (min (nat nbytes) 128)"
  shows "\<exists>s2. terminal_read env buf nbytes s = Some (min nbytes 128, s2) \<and>
     mem s2 = poke (user_frame pid buf)
       (take (min (nat nbytes) 128) (buffer (tmnl_block s1 ! nat (exec_terminal s1)))) (mem s1) \<and>
     buffer (tmnl_block s2 ! nat (exec_terminal s1)) = replicate 128 0 \<and>
     buffer_size (tmnl_block s2 ! nat (exec_terminal s1)) = 0 \<and> enter_pending s2 \<and> if_flag s2"
proof -
  have e: "nat (exec_terminal s1) < 3" using kernel_okD(7) [OF assms(2)] by simp
  have n: "int (min (nat nbytes) 128) = min nbytes 128" using assms(5) by auto
  show ?thesis
    using terminal_read_ok [OF wait_enter_returns [OF assms(1-4)] assms(2,6) refl assms(5,7)]
      e kernel_okD(1) [OF assms(2)] n
    by (simp add: enter_pending_def cli_def sti_def)
qed

theorem terminal_read_delivers_witness:
  "\<exists>s2. terminal_read (\<lambda>_ s. Some (s\<lparr>tmnl_block := (tmnl_block s)[0 := (booted_tmnl 0)
       \<lparr>buffer := 0x68 # 0x0A # replicate 126 0, buffer_size := 2, enter_flag := KB_PRESSED\<rparr>]\<rparr>))
     0x8048000 10 running_kernel = Some (10, s2) \<and> mem s2 0x848000 = 0x68"
proof -
  let ?t = "(booted_tmnl 0)\<lparr>buffer := 0x68 # 0x0A # replicate 126 0, buffer_size := 2, enter_flag := KB_PRESSED\<rparr>"
  let ?env = "\<lambda>(_ :: nat) s. Some (s\<lparr>tmnl_block := (tmnl_block s)[0 := ?t]\<rparr>)"
  let ?s0 = "sti (cli running_kernel)"
  let ?s1 = "?s0\<lparr>tmnl_block := (tmnl_block ?s0)[0 := ?t]\<rparr>"
  have t: "tmnl_ok 0 ?t" by (simp add: tmnl_ok_def booted_tmnl_def)
  have ok0: "kernel_ok ?s0" using running_kernel_ok by simp
  have ok1: "kernel_ok ?s1" using kernel_ok_upd_tmnl [OF ok0, of 0 "\<lambda>_. ?t"] t by simp
  have r: "user_range ?s1 0 0x8048000 (min (nat 10) 128)"
    using running_kernel_inv by (simp add: user_range_def cli_def sti_def)
  have "\<exists>s2. terminal_read ?env 0x8048000 10 running_kernel = Some (min 10 128, s2) \<and>
     mem s2 = poke (user_frame 0 0x8048000)
       (take (min (nat 10) 128) (buffer (tmnl_block ?s1 ! nat (exec_terminal ?s1)))) (mem ?s1) \<and>
     buffer (tmnl_block s2 ! nat (exec_terminal ?s1)) = replicate 128 0 \<and>
     buffer_size (tmnl_block s2 ! nat (exec_terminal ?s1)) = 0 \<and> enter_pending s2 \<and> if_flag s2"
    by (rule terminal_read_delivers [where k = 1])
      (use ok0 ok1 r in \<open>auto simp: enter_pending_def cli_def sti_def running_kernel_def
         booted_kernel_def booted_tmnl_def\<close>)
  then show ?thesis
    by (auto simp: poke_def user_frame_def cli_def sti_def running_kernel_def booted_kernel_def)
qed

text \<open>\<open>terminal_write\<close> prints exactly the \<open>nbytes\<close> bytes of a buffer in the program page, in
  order, through \<open>putc\<close>, with interrupts off meanwhile and on again afterwards, and returns
  \<open>nbytes\<close>; so newlines and zero bytes in the buffer count like any other.\<close>

theorem terminal_write_exact:
  assumes "kernel_ok s" and "user_range s pid buf (length cs)" and "buf \<noteq> 0"
    and "\<And>i. i < length cs \<Longrightarrow> mem s (user_frame pid buf + i) = cs ! i"
  shows "\<exists>s'. terminal_write buf (int (length cs)) s = Some (int (length cs), sti s') \<and>
     for_each cs putc (cli s) = Some s' \<and> kernel_ok s' \<and> console_frame (cli s) s'"
  using terminal_write_prints [OF assms(1-3)] kview_user [OF assms(2)] assms(4) by auto

theorem terminal_write_exact_witness:
  "\<exists>s'. terminal_write 0x8048000 2 running_kernel = Some (2, sti s') \<and>
     for_each [0, 0] putc (cli running_kernel) = Some s'"
proof -
  have "user_range running_kernel 0 0x8048000 (length [0, 0 :: u8])"
    using running_kernel_inv by (simp add: user_range_def)
  moreover have "mem running_kernel (user_frame 0 0x8048000 + i) = [0, 0] ! i" if "i < length [0, 0 :: u8]" for i
    using that by (simp add: running_kernel_def booted_kernel_def nth_Cons')
  ultimately have "\<exists>s'. terminal_write 0x8048000 (int (length [0, 0 :: u8])) running_kernel
        = Some (int (length [0, 0 :: u8]), sti s') \<and>
     for_each [0, 0] putc (cli running_kernel) = Some s' \<and> kernel_ok s' \<and> console_frame (cli running_kernel) s'"
    by (intro terminal_write_exact [OF running_kernel_ok]) simp_all
  then show ?thesis by (simp del: for_each.simps) blast
qed

end
