(* ===== verification/Rtc.thy ===== *)
theory Rtc
  imports Terminal
begin

text \<open>
  The virtualised real-time clock of \<^verbatim>\<open>student-distrib/rtc_handler.c\<close>: the chip interrupts 1024
  times a second and each terminal has a client record with its own divisor (\<open>rate\<close>), counter and
  tick flag. The answers of the ports are the parameter \<open>inb\<close> of theory Interrupt_Controller.

  The lemmas show that \<open>rtc_write\<close> picks the largest supported power of two not above the requested
  frequency, and that a client with divisor \<open>n\<close> sees its flag set by exactly every \<open>n\<close>-th
  interrupt, so that \<open>rtc_read\<close>, which spins on the flag, returns.
\<close>

abbreviation RTC_PORT :: u16 where "RTC_PORT \<equiv> 0x70"
abbreviation CMOS_PORT :: u16 where "CMOS_PORT \<equiv> 0x71"

definition get_rtc :: "int \<Rightarrow> kst \<Rightarrow> rtcc option" where
  "get_rtc i s = arr_get (rtc_block s) i"

definition upd_rtc :: "int \<Rightarrow> (rtcc \<Rightarrow> rtcc) \<Rightarrow> kst \<Rightarrow> kst option" where
  "upd_rtc i f s =
     do { c \<leftarrow> arr_get (rtc_block s) i;
          cs \<leftarrow> arr_set (rtc_block s) i (f c);
          Some (s\<lparr>rtc_block := cs\<rparr>) }"

definition init_rtc :: "device \<Rightarrow> kst \<Rightarrow> kst option" where
  "init_rtc inb s =
     do { let s = on_ports (outb (0x80 OR 0x0A) RTC_PORT) s;
          let s = on_ports (outb (0x80 OR 0x0B) RTC_PORT) s;
          let prev = inb (port_log s) CMOS_PORT;
          let s = on_ports (outb (0x80 OR 0x0B) RTC_PORT) s;
          let s = on_ports (outb (prev OR 0x40) CMOS_PORT) s;
          s \<leftarrow> for_each [0..<NUM_TERMINAL]
            (\<lambda>i. upd_rtc (int i) (\<lambda>c. c\<lparr>client := -1, rate := -1, count := 0, rtc_flags := RTC_WAIT\<rparr>)) s;
          let s = on_ports (outb (0x80 OR 0x0A) RTC_PORT) s;
          let prev = inb (port_log s) CMOS_PORT;
          let s = on_ports (outb (0x80 OR 0x0A) RTC_PORT) s;
          let s = on_ports (outb ((prev AND 0xF0) OR 6) CMOS_PORT) s;
          Some (on_ports (enable_irq inb 8) s) }"

definition rtc_handler :: "device \<Rightarrow> kst \<Rightarrow> kst option" where
  "rtc_handler inb s =
     do { let s = on_ports (send_eoi 8) s;
          let s = on_ports (outb 0x0C RTC_PORT) s;
          let _ = inb (port_log s) CMOS_PORT;
          for_each [0..<NUM_TERMINAL]
            (\<lambda>i s. do {
               c \<leftarrow> get_rtc (int i) s;
               if client c \<noteq> -1 then
                 do { s \<leftarrow> upd_rtc (int i) (\<lambda>c. c\<lparr>count := count c + 1\<rparr>) s;
                      c \<leftarrow> get_rtc (int i) s;
                      if count c \<ge> rate c then
                        upd_rtc (int i) (\<lambda>c. c\<lparr>rtc_flags := RTC_TICK, count := 0\<rparr>) s
                      else Some s }
               else Some s }) s }"

definition wait_tick :: "(nat \<Rightarrow> kst \<Rightarrow> kst option) \<Rightarrow> kst \<Rightarrow> kst option" where
  "wait_tick env =
     spin (\<lambda>s. do { c \<leftarrow> get_rtc (exec_terminal s) s; Some (rtc_flags c = RTC_WAIT) }) env 0"

definition rtc_read :: "(nat \<Rightarrow> kst \<Rightarrow> kst option) \<Rightarrow> kst \<Rightarrow> (int \<times> kst) option" where
  "rtc_read env s =
     do { s \<leftarrow> wait_tick env s;
          s \<leftarrow> upd_rtc (exec_terminal s) (\<lambda>c. c\<lparr>rtc_flags := RTC_WAIT\<rparr>) s;
          Some (0, s) }"

text \<open>The divisor \<open>rtc_write\<close> chooses, \<open>None\<close> where it returns -1.\<close>

definition rtc_rate :: "u32 \<Rightarrow> int option" where
  "rtc_rate freq =
     (if freq \<ge> 1024 then Some 1
      else if freq \<ge> 512 then Some 2
      else if freq \<ge> 256 then Some 4
      else if freq \<ge> 128 then Some 8
      else if freq \<ge> 64 then Some 16
      else if freq \<ge> 32 then Some 32
      else if freq \<ge> 16 then Some 64
      else if freq \<ge> 8 then Some 128
      else if freq \<ge> 4 then Some 256
      else if freq \<ge> 2 then Some 512
      else None)"

definition rtc_set_freq :: "u32 \<Rightarrow> kst \<Rightarrow> (int \<times> kst) option" where
  "rtc_set_freq freq s =
     (case rtc_rate freq of
        None \<Rightarrow> Some (-1, s)
      | Some r \<Rightarrow> do { s \<leftarrow> upd_rtc (exec_terminal s) (\<lambda>c. c\<lparr>rate := r\<rparr>) s; Some (4, s) })"

text \<open>\<open>rtc_write\<close> reads the frequency through its pointer; \<open>rtc_open\<close> passes one on its stack.\<close>

definition rtc_write :: "nat \<Rightarrow> kst \<Rightarrow> (int \<times> kst) option" where
  "rtc_write buf s = do { freq \<leftarrow> rd32 (kview s) buf; rtc_set_freq freq s }"

definition rtc_open :: "kst \<Rightarrow> (int \<times> kst) option" where
  "rtc_open s =
     do { t \<leftarrow> get_tmnl (exec_terminal s) s;
          s \<leftarrow> upd_rtc (exec_terminal s) (\<lambda>c. c\<lparr>client := active_process t\<rparr>) s;
          (ret, s) \<leftarrow> rtc_set_freq 2 s;
          if ret = -1 then Some (-1, s) else Some (0, s) }"

definition rtc_close :: "kst \<Rightarrow> (int \<times> kst) option" where
  "rtc_close s =
     do { s \<leftarrow> upd_rtc (exec_terminal s)
            (\<lambda>c. c\<lparr>client := -1, rate := -1, count := 0, rtc_flags := RTC_WAIT\<rparr>) s;
          Some (0, s) }"

subsection \<open>One interrupt, one client\<close>

definition tick_client :: "rtcc \<Rightarrow> rtcc" where
  "tick_client c =
     (if client c = -1 then c
      else if count c + 1 \<ge> rate c then c\<lparr>rtc_flags := RTC_TICK, count := 0\<rparr>
      else c\<lparr>count := count c + 1\<rparr>)"

definition rtc_ports :: "outs \<Rightarrow> outs" where
  "rtc_ports log = outb 0x0C RTC_PORT (send_eoi 8 log)"

lemma rtc_handler_eq:
  assumes "length (rtc_block s) = 3"
  shows "rtc_handler inb s = Some (s\<lparr>rtc_block := map tick_client (rtc_block s),
     port_log := rtc_ports (port_log s)\<rparr>)"
proof -
  let ?s = "s\<lparr>port_log := rtc_ports (port_log s)\<rparr>"
  have u: "rtc_handler inb s = for_each [0..<NUM_TERMINAL]
            (\<lambda>i s. do {
               c \<leftarrow> get_rtc (int i) s;
               if client c \<noteq> -1 then
                 do { s \<leftarrow> upd_rtc (int i) (\<lambda>c. c\<lparr>count := count c + 1\<rparr>) s;
                      c \<leftarrow> get_rtc (int i) s;
                      if count c \<ge> rate c then
                        upd_rtc (int i) (\<lambda>c. c\<lparr>rtc_flags := RTC_TICK, count := 0\<rparr>) s
                      else Some s }
               else Some s }) ?s" (is "_ = for_each _ ?f _")
    by (simp add: rtc_handler_def on_ports_def rtc_ports_def Let_def)
  have "\<exists>s'. for_each [0..<3] ?f ?s = Some s' \<and>
      s' = ?s\<lparr>rtc_block := map tick_client (take 3 (rtc_block s)) @ drop 3 (rtc_block s)\<rparr>"
  proof (rule for_each_upt [where P = "\<lambda>i s'.
        s' = ?s\<lparr>rtc_block := map tick_client (take i (rtc_block s)) @ drop i (rtc_block s)\<rparr>"])
    fix i s' assume i: "i < 3"
      and s': "s' = ?s\<lparr>rtc_block := map tick_client (take i (rtc_block s)) @ drop i (rtc_block s)\<rparr>"
    let ?c = "rtc_block s ! i"
    have g: "get_rtc (int i) s' = Some ?c"
      using i assms by (simp add: s' get_rtc_def arr_get_nat nth_append)
    have upd: "(rtc_block s')[i := f ?c] = map tick_client (take i (rtc_block s)) @ f ?c # drop (Suc i) (rtc_block s)"
      for f using i assms by (simp add: s' list_update_append Cons_nth_drop_Suc [symmetric])
    have u1: "upd_rtc (int i) f s' = Some (?s\<lparr>rtc_block := map tick_client (take i (rtc_block s)) @
        f ?c # drop (Suc i) (rtc_block s)\<rparr>)" for f
      using g i assms upd [of f] by (simp add: upd_rtc_def get_rtc_def arr_set_nat s')
    have "map tick_client (take (Suc i) (rtc_block s)) @ drop (Suc i) (rtc_block s)
        = map tick_client (take i (rtc_block s)) @ tick_client ?c # drop (Suc i) (rtc_block s)"
      using i assms by (simp add: take_Suc_conv_app_nth)
    moreover have "map tick_client (take i (rtc_block s)) @ drop i (rtc_block s)
        = map tick_client (take i (rtc_block s)) @ ?c # drop (Suc i) (rtc_block s)"
      using i assms by (simp add: Cons_nth_drop_Suc)
    ultimately show "\<exists>s''. ?f i s' = Some s'' \<and>
        s'' = ?s\<lparr>rtc_block := map tick_client (take (Suc i) (rtc_block s)) @ drop (Suc i) (rtc_block s)\<rparr>"
      using g u1 i assms s'
      by (auto simp: tick_client_def upd_rtc_def get_rtc_def arr_get_nat arr_set_nat nth_append list_update_append)
  qed simp_all
  then show ?thesis using assms u by simp
qed

lemma tick_below: "client c \<noteq> -1 \<Longrightarrow> count c + 1 < rate c \<Longrightarrow> tick_client c = c\<lparr>count := count c + 1\<rparr>"
  by (simp add: tick_client_def)

lemma tick_at:
  "client c \<noteq> -1 \<Longrightarrow> rate c \<le> count c + 1 \<Longrightarrow> tick_client c = c\<lparr>rtc_flags := RTC_TICK, count := 0\<rparr>"
  by (simp add: tick_client_def)

lemma tick_pow:
  assumes "client c \<noteq> -1" and "int n < rate c - count c"
  shows "(tick_client ^^ n) c = c\<lparr>count := count c + int n\<rparr>"
  using assms(2)
proof (induction n)
  case 0
  then show ?case by simp
next
  case (Suc n)
  then have "(tick_client ^^ n) c = c\<lparr>count := count c + int n\<rparr>" by simp
  then show ?case using assms(1) Suc.prems by (simp add: tick_below)
qed

lemma tick_pow_fires:
  assumes "client c \<noteq> -1" and "count c < rate c"
  shows "(tick_client ^^ nat (rate c - count c)) c = c\<lparr>rtc_flags := RTC_TICK, count := 0\<rparr>"
proof -
  obtain n where n: "nat (rate c - count c) = Suc n" using assms(2) by (cases "nat (rate c - count c)") auto
  have "(tick_client ^^ n) c = c\<lparr>count := count c + int n\<rparr>"
    using tick_pow [OF assms(1), of n] n assms(2) by linarith
  moreover have "rate c \<le> count c + int n + 1" using n assms(2) by linarith
  ultimately show ?thesis unfolding n using assms(1) by (simp add: tick_at)
qed

lemma handler_run:
  assumes "length (rtc_block s) = 3"
  shows "env_run (\<lambda>_. rtc_handler inb) n s = Some (s\<lparr>rtc_block := map (tick_client ^^ n) (rtc_block s),
     port_log := (rtc_ports ^^ n) (port_log s)\<rparr>)"
proof (induction n)
  case 0
  then show ?case by simp
next
  case (Suc n)
  then show ?case using assms by (simp add: rtc_handler_eq o_def)
qed

lemma upd_rtc_in:
  "0 \<le> i \<Longrightarrow> i < int (length (rtc_block s)) \<Longrightarrow>
     upd_rtc i f s = Some (s\<lparr>rtc_block := (rtc_block s)[nat i := f (rtc_block s ! nat i)]\<rparr>)"
  by (simp add: upd_rtc_def arr_facts)

lemma rtc_rate_nat:
  "rtc_rate freq = (let f = unat freq in
     if f \<ge> 1024 then Some 1 else if f \<ge> 512 then Some 2 else if f \<ge> 256 then Some 4
     else if f \<ge> 128 then Some 8 else if f \<ge> 64 then Some 16 else if f \<ge> 32 then Some 32
     else if f \<ge> 16 then Some 64 else if f \<ge> 8 then Some 128 else if f \<ge> 4 then Some 256
     else if f \<ge> 2 then Some 512 else None)"
  unfolding rtc_rate_def word_le_nat_alt Let_def by simp

subsection \<open>Properties\<close>

text \<open>C29. \<open>rtc_read\<close> returns: for an open client with divisor \<open>rate\<close> whose counter stands at
  \<open>count\<close>, it returns 0 after exactly \<open>rate - count\<close> interrupts, with the flag lowered and the
  counter back at 0; so successive reads are \<open>rate\<close> interrupts apart.\<close>

theorem rtc_read_returns:
  fixes s
  defines "c \<equiv> rtc_block s ! nat (exec_terminal s)"
  assumes "kernel_ok s" and "client c \<noteq> -1" and "rtc_flags c = RTC_WAIT" and "count c < rate c"
  shows "\<exists>s'. rtc_read (\<lambda>_. rtc_handler inb) s = Some (0, s') \<and>
     rtc_block s' ! nat (exec_terminal s) = c\<lparr>count := 0\<rparr> \<and>
     port_log s' = (rtc_ports ^^ nat (rate c - count c)) (port_log s)"
proof -
  define e where "e = nat (exec_terminal s)"
  let ?n = "nat (rate c - count c)"
  let ?s = "\<lambda>n. s\<lparr>rtc_block := map (tick_client ^^ n) (rtc_block s), port_log := (rtc_ports ^^ n) (port_log s)\<rparr>"
  note ok = kernel_okD [OF assms(2)]
  have e: "exec_terminal s = int e" "e < 3" "c = rtc_block s ! e" using ok by (simp_all add: e_def c_def)
  have test: "do { c \<leftarrow> get_rtc (exec_terminal (?s n)) (?s n); Some (rtc_flags c = RTC_WAIT) }
      = Some (rtc_flags ((tick_client ^^ n) c) = RTC_WAIT)" for n
    using e ok(3) by (simp add: get_rtc_def arr_get_nat)
  have "wait_tick (\<lambda>_. rtc_handler inb) s = Some (?s ?n)"
    unfolding wait_tick_def
  proof (rule spin_returns [OF handler_run [OF ok(3)]])
    show "do { c \<leftarrow> get_rtc (exec_terminal (?s ?n)) (?s ?n); Some (rtc_flags c = RTC_WAIT) } = Some False"
      unfolding test tick_pow_fires [OF assms(3,5)] by simp
    fix i assume "i < ?n"
    then have "(tick_client ^^ i) c = c\<lparr>count := count c + int i\<rparr>"
      by (intro tick_pow [OF assms(3)]) simp
    then show "\<exists>t. env_run (\<lambda>_. rtc_handler inb) i s = Some t \<and>
        do { c \<leftarrow> get_rtc (exec_terminal t) t; Some (rtc_flags c = RTC_WAIT) } = Some True"
      using test [of i] assms(4) by (simp only: handler_run [OF ok(3)]) simp
  qed
  moreover have "(tick_client ^^ ?n) (rtc_block s ! e) = c\<lparr>rtc_flags := RTC_TICK, count := 0\<rparr>"
    using tick_pow_fires [OF assms(3,5)] e(3) by simp
  moreover have "c\<lparr>count := 0, rtc_flags := RTC_WAIT\<rparr> = c\<lparr>count := 0\<rparr>"
    using assms(4) by (cases c) simp
  ultimately show ?thesis
    using e ok(3) assms(4) by (simp add: rtc_read_def upd_rtc_in)
qed

theorem rtc_read_returns_witness:
  "\<exists>s'. rtc_read (\<lambda>_. rtc_handler (\<lambda>_ _. 0))
      (booted_kernel\<lparr>rtc_block := replicate 3 (booted_rtcc\<lparr>client := 0, rate := 4\<rparr>)\<rparr>) = Some (0, s')"
proof -
  let ?s = "booted_kernel\<lparr>rtc_block := replicate 3 (booted_rtcc\<lparr>client := 0, rate := 4\<rparr>)\<rparr>"
  have "kernel_ok ?s" using booted_kernel_ok by (simp add: kernel_ok_def screen_ok_def)
  then show ?thesis
    using rtc_read_returns [of ?s "\<lambda>_ _. 0"] by (auto simp: booted_kernel_def booted_rtcc_def)
qed

text \<open>C39. The frequency \<open>rtc_write\<close> sets: a request below 2 Hz is refused with -1 and changes
  nothing; any other gets the divisor of a power of two \<open>f\<close> with \<open>f * divisor = 1024\<close>, the base
  rate, where \<open>f\<close> is the largest supported frequency not above the request (requests of more than
  1024 get 1024, although the comment promises at most 512).\<close>

theorem rtc_frequency:
  assumes "kernel_ok s"
  shows "if freq < 2 then rtc_set_freq freq s = Some (-1, s)
    else \<exists>k \<in> {1..10}. 2 ^ k \<le> unat freq \<and> (unat freq < 2 ^ Suc k \<or> k = 10) \<and>
      rtc_set_freq freq s = Some (4, s\<lparr>rtc_block := (rtc_block s)[nat (exec_terminal s) :=
        (rtc_block s ! nat (exec_terminal s))\<lparr>rate := 1024 div 2 ^ k\<rparr>]\<rparr>)"
proof (cases "freq < 2")
  case True
  then have "unat freq < 2" by (simp add: word_less_nat_alt)
  then have "rtc_rate freq = None" by (simp add: rtc_rate_nat)
  then show ?thesis using True by (simp add: rtc_set_freq_def)
next
  case False
  then have "2 \<le> unat freq" by (simp add: word_less_nat_alt not_less)
  then consider "unat freq \<ge> 1024" | "512 \<le> unat freq" "unat freq < 1024"
    | "256 \<le> unat freq" "unat freq < 512" | "128 \<le> unat freq" "unat freq < 256"
    | "64 \<le> unat freq" "unat freq < 128" | "32 \<le> unat freq" "unat freq < 64"
    | "16 \<le> unat freq" "unat freq < 32" | "8 \<le> unat freq" "unat freq < 16"
    | "4 \<le> unat freq" "unat freq < 8" | "unat freq < 4" by linarith
  then have "\<exists>k \<in> {1..10}. 2 ^ k \<le> unat freq \<and> (unat freq < 2 ^ Suc k \<or> k = 10) \<and>
      rtc_rate freq = Some (1024 div 2 ^ k)"
  proof cases
    case 1 then show ?thesis by (intro bexI [of _ 10]) (simp_all add: rtc_rate_nat)
  next
    case 2 then show ?thesis by (intro bexI [of _ 9]) (simp_all add: rtc_rate_nat)
  next
    case 3 then show ?thesis by (intro bexI [of _ 8]) (simp_all add: rtc_rate_nat)
  next
    case 4 then show ?thesis by (intro bexI [of _ 7]) (simp_all add: rtc_rate_nat)
  next
    case 5 then show ?thesis by (intro bexI [of _ 6]) (simp_all add: rtc_rate_nat)
  next
    case 6 then show ?thesis by (intro bexI [of _ 5]) (simp_all add: rtc_rate_nat)
  next
    case 7 then show ?thesis by (intro bexI [of _ 4]) (simp_all add: rtc_rate_nat)
  next
    case 8 then show ?thesis by (intro bexI [of _ 3]) (simp_all add: rtc_rate_nat)
  next
    case 9 then show ?thesis by (intro bexI [of _ 2]) (simp_all add: rtc_rate_nat)
  next
    case 10 then show ?thesis using \<open>2 \<le> unat freq\<close>
      by (intro bexI [of _ 1]) (simp_all add: rtc_rate_nat)
  qed
  then obtain k :: nat where k: "k \<in> {1..10}" "2 ^ k \<le> unat freq" "unat freq < 2 ^ Suc k \<or> k = 10"
    and r: "rtc_rate freq = Some (1024 div 2 ^ k)" by blast
  have "rtc_set_freq freq s = Some (4, s\<lparr>rtc_block := (rtc_block s)[nat (exec_terminal s) :=
        (rtc_block s ! nat (exec_terminal s))\<lparr>rate := 1024 div 2 ^ k\<rparr>]\<rparr>)"
    unfolding rtc_set_freq_def r using kernel_okD [OF assms] by (simp add: upd_rtc_in)
  with k show ?thesis unfolding if_not_P [OF False] by blast
qed

theorem rtc_frequency_witness:
  "\<exists>s'. rtc_set_freq 100 booted_kernel = Some (4, s')"
  using rtc_frequency [OF booted_kernel_ok, of 100] by (simp del: atLeastAtMost_iff) blast

end
