(* ===== verification/Keyboard.thy ===== *)
theory Keyboard
  imports Rtc
begin

text \<open>
  The keyboard driver of \<^verbatim>\<open>student-distrib/keyboard_handler.c\<close>: scan codes to characters with
  shift, caps lock, control and alt, the line buffer of the terminal on display, clearing the
  screen and switching terminals. The handler prints as the terminal on display by setting
  \<open>exec_terminal\<close> while it runs. The scan code table has 62 entries and is indexed with any byte:
  the bytes that follow it in memory are the parameter \<open>beyond\<close>.

  The reference is a line editor (\<open>line\<close>): characters are appended up to 127, backspace removes
  one, enter completes the line.
\<close>

abbreviation KBCODE_SIZE :: "'a::numeral" where "KBCODE_SIZE \<equiv> 62"
abbreviation CAPS_LOCK :: u8 where "CAPS_LOCK \<equiv> 0xFE"
abbreviation SHIFT :: u8 where "SHIFT \<equiv> 0x7F"
abbreviation RIGHT_SHIFT_RELEASE :: u8 where "RIGHT_SHIFT_RELEASE \<equiv> 0xAA"
abbreviation LEFT_SHIFT_RELEASE :: u8 where "LEFT_SHIFT_RELEASE \<equiv> 0xB6"
abbreviation CTRL :: u8 where "CTRL \<equiv> 0xFF"
abbreviation CTRL_RELEASE :: u8 where "CTRL_RELEASE \<equiv> 0x9D"
abbreviation LEFT_ALT :: u8 where "LEFT_ALT \<equiv> 0xFD"
abbreviation LEFT_ALT_RELEASE :: u8 where "LEFT_ALT_RELEASE \<equiv> 0xB8"
abbreviation KB_PORT :: u16 where "KB_PORT \<equiv> 0x60"

definition kb_scancode :: "u8 list" where
  "kb_scancode =
     bytes_of ''  1234567890-='' @ [BACKSPACE] @ bytes_of '' qwertyuiop[]'' @ [0x0D, CTRL] @
     bytes_of ''asdfghjkl;'' @ [0x27] @ [0x60] @ [SHIFT, 0x5C] @ bytes_of ''zxcvbnm,./'' @ [SHIFT] @
     bytes_of ''*'' @ [LEFT_ALT] @ bytes_of '' '' @ [CAPS_LOCK, KEY_F1, KEY_F2, KEY_F3]"

definition shift_lookup_table :: "u8 list" where
  "shift_lookup_table =
     replicate 39 0x20 @ [0x22] @
     replicate 4 0x20 @ bytes_of ''<_>?)!'' @
     bytes_of ''@#$%^&*( :'' @
     bytes_of '' +'' @ replicate 8 0x20 @
     replicate 10 0x20 @ replicate 10 0x20 @
     bytes_of '' {|}  ~   ''"

definition init_keyboard :: "device \<Rightarrow> kst \<Rightarrow> kst" where
  "init_keyboard inb s = on_ports (enable_irq inb 1) s"

definition scancode :: "(nat \<Rightarrow> u8) \<Rightarrow> u8 \<Rightarrow> u8" where
  "scancode beyond code =
     (if code < KBCODE_SIZE then kb_scancode ! unat code else beyond (unat code))"

definition is_lower :: "u8 \<Rightarrow> bool" where
  "is_lower c \<longleftrightarrow> c \<ge> 0x61 \<and> c \<le> 0x7A"

text \<open>Shift and caps lock.\<close>

definition shift_char :: "int \<Rightarrow> int \<Rightarrow> u8 \<Rightarrow> u8" where
  "shift_char shifts caps kb_char =
     (if shifts > 0 then
        (if kb_char < 100 \<and> shift_lookup_table ! unat kb_char \<noteq> 0x20
         then shift_lookup_table ! unat kb_char
         else if caps = 0 \<and> is_lower kb_char then kb_char - 0x20 else kb_char)
      else if caps \<noteq> 0 \<and> is_lower kb_char then kb_char - 0x20
      else kb_char)"

text \<open>The last part of the handler: an input character in the line buffer.\<close>

definition input_char :: "u8 \<Rightarrow> kst \<Rightarrow> kst option" where
  "input_char kb_char s =
     do { t \<leftarrow> get_tmnl (active_terminal s) s;
          if kb_char = 0x0D then
            do { b \<leftarrow> arr_set (buffer t) (uint (buffer_size t)) 0x0A;
                 s \<leftarrow> upd_tmnl (active_terminal s)
                   (\<lambda>t. t\<lparr>buffer := b, buffer_size := buffer_size t + 1\<rparr>) s;
                 s \<leftarrow> kprintf [CHR 0x0A] [] s;
                 upd_tmnl (active_terminal s) (\<lambda>t. t\<lparr>enter_flag := KB_PRESSED\<rparr>) s }
          else if kb_char = BACKSPACE then
            (if buffer_size t \<noteq> 0 then
               do { s \<leftarrow> kprintf ''%c'' [Num (ucast kb_char)] s;
                    b \<leftarrow> arr_set (buffer t) (uint (buffer_size t) - 1) 0x20;
                    upd_tmnl (active_terminal s)
                      (\<lambda>t. t\<lparr>buffer := b, buffer_size := buffer_size t - 1\<rparr>) s }
             else Some s)
          else if uint (buffer_size t) < BUF_SIZE - 1 then
            do { s \<leftarrow> kprintf ''%c'' [Num (ucast kb_char)] s;
                 b \<leftarrow> arr_set (buffer t) (uint (buffer_size t)) kb_char;
                 upd_tmnl (active_terminal s)
                   (\<lambda>t. t\<lparr>buffer := b, buffer_size := buffer_size t + 1\<rparr>) s }
          else Some s }"

text \<open>The handler between saving and restoring \<open>exec_terminal\<close>.\<close>

definition handle_code :: "(nat \<Rightarrow> u8) \<Rightarrow> u8 \<Rightarrow> kst \<Rightarrow> kst option" where
  "handle_code beyond code s =
     (if code = CTRL_RELEASE then Some (s\<lparr>ctrl_flag := 0\<rparr>)
      else if code = LEFT_ALT_RELEASE then Some (s\<lparr>alt_flag := 0\<rparr>)
      else
        let kb_char = scancode beyond code in
        if code = RIGHT_SHIFT_RELEASE \<or> code = LEFT_SHIFT_RELEASE then
          Some (s\<lparr>shift_count := shift_count s - 1\<rparr>)
        else if kb_char = SHIFT then Some (s\<lparr>shift_count := shift_count s + 1\<rparr>)
        else if kb_char = LEFT_ALT then Some (s\<lparr>alt_flag := 1\<rparr>)
        else if alt_flag s = 1 then
          (if kb_char = KEY_F1 then map_option snd (switch_terminal 0 s)
           else if kb_char = KEY_F2 then map_option snd (switch_terminal 1 s)
           else if kb_char = KEY_F3 then map_option snd (switch_terminal 2 s)
           else Some s)
        else if kb_char = CTRL then Some (s\<lparr>ctrl_flag := 1\<rparr>)
        else if ctrl_flag s = 1 then
          (if kb_char = 0x6C then
             do { s \<leftarrow> clear s;
                  t \<leftarrow> get_tmnl (active_terminal s) s;
                  kprintf ''%s'' [Str (lrd (buffer t))] s }
           else Some s)
        else if kb_char = CAPS_LOCK then Some (s\<lparr>caps_flag := NOT (caps_flag s)\<rparr>)
        else
          let kb_char = shift_char (shift_count s) (caps_flag s) kb_char in
          if code < KBCODE_SIZE then input_char kb_char s else Some s)"

definition keyboard_handler :: "device \<Rightarrow> (nat \<Rightarrow> u8) \<Rightarrow> kst \<Rightarrow> kst option" where
  "keyboard_handler inb beyond s =
     do { let s = on_ports (send_eoi 1) s;
          let temp = exec_terminal s;
          let s = s\<lparr>exec_terminal := active_terminal s\<rparr>;
          let code = inb (port_log s) KB_PORT;
          s \<leftarrow> handle_code beyond code s;
          Some (s\<lparr>exec_terminal := temp\<rparr>) }"

lemma tables_length: "length kb_scancode = 62" "length shift_lookup_table = 100"
  by (simp_all add: kb_scancode_def shift_lookup_table_def)

subsection \<open>The line editor\<close>

definition line :: "tmnl \<Rightarrow> u8 list" where
  "line t = take (unat (buffer_size t)) (buffer t)"

text \<open>A line that is still being typed: at most 127 characters and a zero at the end of the buffer.\<close>

definition typing :: "tmnl \<Rightarrow> bool" where
  "typing t \<longleftrightarrow> unat (buffer_size t) \<le> 127 \<and> buffer t ! 127 = 0"

lemma tmnl_no_pos:
  assumes "map no_pos ts = map no_pos us" and "i < length ts"
  shows "no_pos (ts ! i) = no_pos (us ! i)"
  using assms by (metis length_map nth_map)

lemma no_pos_fields:
  "no_pos t = no_pos u \<Longrightarrow> buffer t = buffer u \<and> buffer_size t = buffer_size u \<and>
     enter_flag t = enter_flag u \<and> active_process t = active_process u \<and> vidmem_ptr t = vidmem_ptr u \<and>
     tmnl_flags t = tmnl_flags u"
  by (cases t; cases u) (simp add: no_pos_def)

text \<open>Printing leaves the line buffers and process numbers alone.\<close>

lemma console_frame_tmnl:
  assumes "console_frame s s'" and "kernel_ok s" and "i < 3"
  shows "buffer (tmnl_block s' ! i) = buffer (tmnl_block s ! i)"
    "buffer_size (tmnl_block s' ! i) = buffer_size (tmnl_block s ! i)"
    "enter_flag (tmnl_block s' ! i) = enter_flag (tmnl_block s ! i)"
    "active_process (tmnl_block s' ! i) = active_process (tmnl_block s ! i)"
    "tmnl_flags (tmnl_block s' ! i) = tmnl_flags (tmnl_block s ! i)"
proof -
  have m: "map no_pos (tmnl_block s') = map no_pos (tmnl_block s)"
    using assms(1) by (simp add: console_frame_def)
  then have "length (tmnl_block s') = 3"
    using kernel_okD(1) [OF assms(2)] map_eq_imp_length_eq by fastforce
  then have "no_pos (tmnl_block s' ! i) = no_pos (tmnl_block s ! i)"
    using tmnl_no_pos [OF m] assms(3) by simp
  from no_pos_fields [OF this] show
    "buffer (tmnl_block s' ! i) = buffer (tmnl_block s ! i)"
    "buffer_size (tmnl_block s' ! i) = buffer_size (tmnl_block s ! i)"
    "enter_flag (tmnl_block s' ! i) = enter_flag (tmnl_block s ! i)"
    "active_process (tmnl_block s' ! i) = active_process (tmnl_block s ! i)"
    "tmnl_flags (tmnl_block s' ! i) = tmnl_flags (tmnl_block s ! i)" by simp_all
qed

lemma get_active:
  "kernel_ok s \<Longrightarrow> get_tmnl (active_terminal s) s = Some (tmnl_block s ! nat (active_terminal s))"
  using kernel_okD [of s] by (simp add: get_tmnl_in)

lemma update_active:
  assumes "kernel_ok s" and "tmnl_ok (nat (active_terminal s)) (f (tmnl_block s ! nat (active_terminal s)))"
  shows "upd_tmnl (active_terminal s) f s = Some (s\<lparr>tmnl_block := (tmnl_block s)[nat (active_terminal s) :=
      f (tmnl_block s ! nat (active_terminal s))]\<rparr>)"
    and "kernel_ok (s\<lparr>tmnl_block := (tmnl_block s)[nat (active_terminal s) :=
      f (tmnl_block s ! nat (active_terminal s))]\<rparr>)"
  using kernel_okD [OF assms(1)] kernel_ok_upd_tmnl [of s "active_terminal s" f] assms
  by (simp_all add: upd_tmnl_in)

lemma kprintf_newline: "kernel_ok s \<Longrightarrow> kprintf [CHR 0x0A] [] s = putc 0x0A s"
  using kprintf_ok [of s "[CHR 0x0A]" "[]" "[0x0A]"] putc_step [of s "0x0A"]
  by (auto simp: bytes_of_def)

lemma ucast_ucast_byte: "ucast (ucast (c :: u8) :: u32) = c"
  by (rule bit_word_eqI) (simp add: bit_ucast_iff)

lemma kprintf_byte: "kernel_ok s \<Longrightarrow> kprintf ''%c'' [Num (ucast c)] s = putc c s"
  using kprintf_ok [of s "''%c''" "[Num (ucast c)]" "[c]"] putc_step [of s c]
  by (auto simp: bytes_of_def conversion_text_def ucast_ucast_byte)

lemma unat_succ: "unat (n :: u8) < 255 \<Longrightarrow> unat (n + 1) = unat n + 1"
  by (simp add: unat_word_ariths)

text \<open>What an input character does to the line, to the enter flag and to the screen.\<close>

definition edited :: "u8 \<Rightarrow> u8 list \<Rightarrow> u8 list" where
  "edited c l =
     (if c = 0x0D then l @ [0x0A]
      else if c = BACKSPACE then butlast l
      else if length l < 127 then l @ [c] else l)"

lemma append_char:
  fixes c :: u8
  assumes "tmnl_ok i t" and "unat (buffer_size t) < 128"
  defines "t' \<equiv> t\<lparr>buffer := (buffer t)[unat (buffer_size t) := c], buffer_size := buffer_size t + 1\<rparr>"
  shows "arr_set (buffer t) (uint (buffer_size t)) c = Some ((buffer t)[unat (buffer_size t) := c])"
    and "line t' = line t @ [c]" and "tmnl_ok i t'"
    and "unat (buffer_size t) < 127 \<Longrightarrow> typing t \<Longrightarrow> typing t'"
proof -
  have n: "unat (buffer_size t + 1) = unat (buffer_size t) + 1" using assms(2) by (intro unat_succ) simp
  have l: "length (buffer t) = 128" using assms(1) by (simp add: tmnl_ok_def)
  show "arr_set (buffer t) (uint (buffer_size t)) c = Some ((buffer t)[unat (buffer_size t) := c])"
    unfolding uint_nat using l assms(2) by (intro arr_set_nat) simp
  show "line t' = line t @ [c]"
    using l assms(2) n by (simp add: line_def t'_def take_Suc_conv_app_nth)
  show "tmnl_ok i t'" using assms(1,2) n by (simp add: tmnl_ok_def t'_def)
  show "typing t'" if "unat (buffer_size t) < 127" "typing t"
    using that n by (simp add: typing_def t'_def)
qed

lemma remove_char:
  assumes "tmnl_ok i t" and "typing t" and "buffer_size t \<noteq> 0"
  defines "t' \<equiv> t\<lparr>buffer := (buffer t)[unat (buffer_size t) - 1 := 0x20], buffer_size := buffer_size t - 1\<rparr>"
  shows "arr_set (buffer t) (uint (buffer_size t) - 1) 0x20 = Some ((buffer t)[unat (buffer_size t) - 1 := 0x20])"
    and "line t' = butlast (line t)" and "tmnl_ok i t'" and "typing t'"
proof -
  have z: "0 < unat (buffer_size t)" using assms(3) by (simp add: unat_gt_0)
  then have n: "unat (buffer_size t - 1) = unat (buffer_size t) - 1"
    using unat_sub [of 1 "buffer_size t"] by (simp add: word_le_nat_alt)
  have l: "length (buffer t) = 128" "unat (buffer_size t) \<le> 127"
    using assms(1,2) by (simp_all add: tmnl_ok_def typing_def)
  have i: "uint (buffer_size t) - 1 = int (unat (buffer_size t) - 1)" unfolding uint_nat using z by linarith
  show "arr_set (buffer t) (uint (buffer_size t) - 1) 0x20 = Some ((buffer t)[unat (buffer_size t) - 1 := 0x20])"
    unfolding i using l by (intro arr_set_nat) simp
  show "line t' = butlast (line t)"
    using l z n by (simp add: line_def t'_def butlast_take)
  show "tmnl_ok i t'" using assms(1) n by (auto simp: tmnl_ok_def t'_def)
  show "typing t'" using assms(2) n l by (auto simp: typing_def t'_def nth_list_update)
qed

text \<open>The three cases of \<open>input_char\<close> on a line that is being typed.\<close>

lemma input_char_ok:
  assumes "kernel_ok s" and "typing (tmnl_block s ! nat (active_terminal s))"
  shows "\<exists>s'. input_char c s = Some s' \<and> kernel_ok s' \<and>
     exec_terminal s' = exec_terminal s \<and> active_terminal s' = active_terminal s \<and>
     line (tmnl_block s' ! nat (active_terminal s)) = edited c (line (tmnl_block s ! nat (active_terminal s))) \<and>
     (c = 0x0D \<longrightarrow> enter_flag (tmnl_block s' ! nat (active_terminal s)) = KB_PRESSED) \<and>
     (c \<noteq> 0x0D \<longrightarrow> typing (tmnl_block s' ! nat (active_terminal s)) \<and>
        enter_flag (tmnl_block s' ! nat (active_terminal s)) = enter_flag (tmnl_block s ! nat (active_terminal s)))"
proof -
  define a where "a = nat (active_terminal s)"
  note ok = kernel_okD [OF assms(1)]
  have a: "active_terminal s = int a" "a < 3" using ok by (simp_all add: a_def)
  let ?t = "tmnl_block s ! a"
  have t: "tmnl_ok a ?t" by (rule kernel_ok_tmnl [OF assms(1) a(2)])
  have ty: "typing ?t" using assms(2) by (simp add: a_def)
  then have sz: "unat (buffer_size ?t) \<le> 127" by (simp add: typing_def)
  have u: "uint (buffer_size ?t) < 127 \<longleftrightarrow> unat (buffer_size ?t) < 127" unfolding uint_nat by linarith
  have ll: "length (line ?t) = unat (buffer_size ?t)"
    using t sz by (simp add: line_def tmnl_ok_def)
  consider (enter) "c = 0x0D" | (bs) "c = BACKSPACE" | (char) "c \<noteq> 0x0D" "c \<noteq> BACKSPACE" by blast
  then show ?thesis
  proof cases
    case enter
    let ?t1 = "?t\<lparr>buffer := (buffer ?t)[unat (buffer_size ?t) := 0x0A], buffer_size := buffer_size ?t + 1\<rparr>"
    have sz': "unat (buffer_size ?t) < 128" using sz by simp
    note app = append_char [OF t sz', of "0x0A"]
    let ?s1 = "s\<lparr>tmnl_block := (tmnl_block s)[a := ?t1]\<rparr>"
    have u1: "upd_tmnl (active_terminal s) (\<lambda>t. t\<lparr>buffer := (buffer ?t)[unat (buffer_size ?t) := 0x0A],
        buffer_size := buffer_size t + 1\<rparr>) s = Some ?s1" "kernel_ok ?s1"
      using update_active [OF assms(1), of "\<lambda>t. t\<lparr>buffer := (buffer ?t)[unat (buffer_size ?t) := 0x0A],
        buffer_size := buffer_size t + 1\<rparr>"] app(3) by (simp_all add: a)
    obtain s2 where s2: "putc 0x0A ?s1 = Some s2" "kernel_ok s2" "console_frame ?s1 s2"
      using putc_step [OF u1(2)] by blast
    have a2: "active_terminal s2 = int a" "exec_terminal s2 = exec_terminal s"
      using s2(3) a by (simp_all add: console_frame_def)
    note t2 = console_frame_tmnl [OF s2(3) u1(2) a(2)]
    have t2ok: "tmnl_ok a (tmnl_block s2 ! a)" by (rule kernel_ok_tmnl [OF s2(2) a(2)])
    note u2 = update_active [OF s2(2), of "\<lambda>t. t\<lparr>enter_flag := KB_PRESSED\<rparr>"]
    have "line (tmnl_block s2 ! a) = line ?t @ [0x0A]"
      using t2(1,2) app(2) a(2) ok(1) by (simp add: line_def)
    then show ?thesis
      using enter u1 u2 s2 a a2 t2ok get_active [OF assms(1)] app(1) kernel_okD(1) [OF s2(2)] kprintf_newline [OF u1(2)]
      by (simp add: input_char_def tmnl_ok_def line_def edited_def)
  next
    case bs
    show ?thesis
    proof (cases "buffer_size ?t = 0")
      case True
      then show ?thesis
        using bs assms(1) a ty get_active [OF assms(1)] by (simp add: input_char_def edited_def line_def)
    next
      case False
      note rem = remove_char [OF t ty False]
      obtain s2 where s2: "putc BACKSPACE s = Some s2" "kernel_ok s2" "console_frame s s2"
        using putc_step [OF assms(1)] by blast
      have a2: "active_terminal s2 = int a" "exec_terminal s2 = exec_terminal s"
        using s2(3) a by (simp_all add: console_frame_def)
      note t2 = console_frame_tmnl [OF s2(3) assms(1) a(2)]
      let ?f = "\<lambda>t. t\<lparr>buffer := (buffer ?t)[unat (buffer_size ?t) - 1 := 0x20], buffer_size := buffer_size t - 1\<rparr>"
      have t2ok: "tmnl_ok a (?f (tmnl_block s2 ! a))"
        using kernel_ok_tmnl [OF s2(2) a(2)] rem(3) t2 by (simp add: tmnl_ok_def)
      have u2: "upd_tmnl (active_terminal s2) ?f s2 = Some (s2\<lparr>tmnl_block := (tmnl_block s2)[a := ?f (tmnl_block s2 ! a)]\<rparr>)"
        "kernel_ok (s2\<lparr>tmnl_block := (tmnl_block s2)[a := ?f (tmnl_block s2 ! a)]\<rparr>)"
        using update_active [OF s2(2), of ?f] a2 t2ok by simp_all
      show ?thesis
        using bs False u2 s2 a a2 t2 get_active [OF assms(1)] rem kernel_okD(1) [OF s2(2)] kprintf_byte [OF assms(1), of BACKSPACE]
        by (simp add: input_char_def edited_def typing_def line_def)
    qed
  next
    case char
    show ?thesis
    proof (cases "unat (buffer_size ?t) < 127")
      case False
      then show ?thesis
        using char assms(1) a ty ll get_active [OF assms(1)] by (simp add: input_char_def edited_def u)
    next
      case True
      then have sz': "unat (buffer_size ?t) < 128" by simp
      note app = append_char [OF t sz', of c]
      obtain s2 where s2: "putc c s = Some s2" "kernel_ok s2" "console_frame s s2"
        using putc_step [OF assms(1)] by blast
      have a2: "active_terminal s2 = int a" "exec_terminal s2 = exec_terminal s"
        using s2(3) a by (simp_all add: console_frame_def)
      note t2 = console_frame_tmnl [OF s2(3) assms(1) a(2)]
      let ?f = "\<lambda>t. t\<lparr>buffer := (buffer ?t)[unat (buffer_size ?t) := c], buffer_size := buffer_size t + 1\<rparr>"
      have t2ok: "tmnl_ok a (?f (tmnl_block s2 ! a))"
        using kernel_ok_tmnl [OF s2(2) a(2)] app(3) t2 by (simp add: tmnl_ok_def)
      have u2: "upd_tmnl (active_terminal s2) ?f s2 = Some (s2\<lparr>tmnl_block := (tmnl_block s2)[a := ?f (tmnl_block s2 ! a)]\<rparr>)"
        "kernel_ok (s2\<lparr>tmnl_block := (tmnl_block s2)[a := ?f (tmnl_block s2 ! a)]\<rparr>)"
        using update_active [OF s2(2), of ?f] a2 t2ok by simp_all
      show ?thesis
        using char True u2 s2 a a2 t2 ll ty get_active [OF assms(1)] app(1,2) app(4) [OF True ty]
          kernel_okD(1) [OF s2(2)] kprintf_byte [OF assms(1)]
        by (simp add: input_char_def edited_def typing_def line_def u)
    qed
  qed
qed

lemma switch_terminal_safe:
  assumes "kernel_ok s" and "i < 3"
  shows "\<exists>r s'. switch_terminal (int i) s = Some (r, s') \<and> kernel_ok s'"
proof -
  define a where "a = nat (active_terminal s)"
  have a: "active_terminal s = int a" "a < 3" using kernel_okD [OF assms(1)] by (simp_all add: a_def)
  consider "i = a" | "i \<noteq> a" "tmnl_flags (tmnl_block s ! i) = TMNL_IDLE"
    | "i \<noteq> a" "tmnl_flags (tmnl_block s ! i) \<noteq> TMNL_IDLE" by blast
  then show ?thesis
  proof cases
    case 3
    then show ?thesis using switch_terminal_ok [OF assms(1) a assms(2)] by blast
  qed (use assms a kernel_okD(1) [OF assms(1)] in \<open>auto simp: switch_terminal_def get_tmnl_in\<close>)
qed

lemma clear_and_redraw:
  assumes "kernel_ok s" and "typing (tmnl_block s ! nat (active_terminal s))"
  shows "\<exists>s'. do { s \<leftarrow> clear s; t \<leftarrow> get_tmnl (active_terminal s) s; kprintf ''%s'' [Str (lrd (buffer t))] s }
     = Some s' \<and> kernel_ok s' \<and> console_frame s s'"
proof -
  obtain s1 where s1: "clear s = Some s1" "kernel_ok s1" "console_frame s s1"
    using clear_ok [OF assms(1)] by blast
  define a where "a = nat (active_terminal s)"
  have a: "active_terminal s1 = int a" "a < 3"
    using s1(3) kernel_okD [OF assms(1)] by (simp_all add: a_def console_frame_def)
  let ?b = "buffer (tmnl_block s1 ! a)"
  have b: "?b = buffer (tmnl_block s ! a)" by (rule console_frame_tmnl [OF s1(3) assms(1) a(2)])
  have "length ?b = 128" using kernel_ok_tmnl [OF s1(2) a(2)] by (simp add: tmnl_ok_def)
  moreover have "?b ! 127 = 0" using assms(2) by (simp add: typing_def a_def [symmetric] b)
  ultimately have "0 \<in> set ?b" by (auto simp: in_set_conv_nth intro: exI [of _ 127])
  then have "cstr (lrd ?b) (takeWhile (\<lambda>c. c \<noteq> 0) ?b)" by (rule cstr_takeWhile)
  then have "render (bytes_of ''%s'') [Str (lrd ?b)] = Some (takeWhile (\<lambda>c. c \<noteq> 0) ?b)"
    by (simp add: bytes_of_def conversion_text_def c_string_cstr [symmetric])
  then obtain s2 where "kprintf ''%s'' [Str (lrd ?b)] s1 = Some s2" "kernel_ok s2" "console_frame s1 s2"
    using kprintf_ok [OF s1(2), of "''%s''"] by (auto simp: bytes_of_def)
  then show ?thesis
    using s1 a get_active [OF s1(2)] console_frame_trans [OF s1(3)] by simp
qed

definition safely :: "kst option \<Rightarrow> bool" where
  "safely r \<longleftrightarrow> (\<exists>s'. r = Some s' \<and> kernel_ok s')"

lemma safely_if: "(c \<Longrightarrow> safely r) \<Longrightarrow> (\<not> c \<Longrightarrow> safely r') \<Longrightarrow> safely (if c then r else r')"
  by simp

lemma safely_Some: "kernel_ok s \<Longrightarrow> safely (Some s)"
  by (simp add: safely_def)

lemma handle_code_ok:
  assumes "kernel_ok s" and "typing (tmnl_block s ! nat (active_terminal s))"
  shows "safely (handle_code beyond code s)"
proof -
  have sw: "safely (map_option snd (switch_terminal 0 s))" "safely (map_option snd (switch_terminal 1 s))"
    "safely (map_option snd (switch_terminal 2 s))"
    using switch_terminal_safe [OF assms(1), of 0] switch_terminal_safe [OF assms(1), of 1]
      switch_terminal_safe [OF assms(1), of 2] by (auto simp: safely_def)
  have cl: "safely (do { s \<leftarrow> clear s; t \<leftarrow> get_tmnl (active_terminal s) s;
      kprintf ''%s'' [Str (lrd (buffer t))] s })"
    using clear_and_redraw [OF assms] by (auto simp: safely_def)
  have inp: "safely (input_char c s)" for c
    using input_char_ok [OF assms] by (auto simp: safely_def)
  show ?thesis
    unfolding handle_code_def Let_def
    by (intro safely_if safely_Some sw cl inp) (simp_all add: assms(1))
qed

lemma keyboard_handler_ok:
  assumes "kernel_ok s" and "typing (tmnl_block s ! nat (active_terminal s))"
  shows "\<exists>s'. keyboard_handler inb beyond s = Some s' \<and> kernel_ok s' \<and> exec_terminal s' = exec_terminal s"
proof -
  let ?s = "(on_ports (send_eoi 1) s)\<lparr>exec_terminal := active_terminal s\<rparr>"
  have ok: "kernel_ok ?s" using assms(1) by (auto simp: kernel_ok_def screen_ok_def on_ports_def)
  have ty: "typing (tmnl_block ?s ! nat (active_terminal ?s))" using assms(2) by (simp add: on_ports_def)
  obtain s' where s': "handle_code beyond (inb (port_log ?s) KB_PORT) ?s = Some s'" "kernel_ok s'"
    using handle_code_ok [OF ok ty] unfolding safely_def by blast
  have "kernel_ok (s'\<lparr>exec_terminal := exec_terminal s\<rparr>)"
    using s'(2) kernel_okD [OF assms(1)] by (auto simp: kernel_ok_def screen_ok_def)
  then show ?thesis using s'(1) by (simp add: keyboard_handler_def on_ports_def Let_def)
qed

subsection \<open>Properties\<close>

text \<open>C10. The keyboard as a line editor: with control and alt up, the make code of a character key
  changes the line of the terminal on display as the editor says (the character, after shift and
  caps lock, appended up to 127 characters; backspace removes one; enter appends a newline and
  raises the enter flag), and the terminal that was running keeps running.\<close>

theorem keyboard_edits_line:
  assumes "kernel_ok s" and "typing (tmnl_block s ! nat (active_terminal s))"
    and "alt_flag s \<noteq> 1" and "ctrl_flag s \<noteq> 1"
    and "\<And>log. inb log KB_PORT = code" and "code < KBCODE_SIZE"
    and "kb_scancode ! unat code \<notin> {SHIFT, LEFT_ALT, CTRL, CAPS_LOCK}"
  defines "c \<equiv> shift_char (shift_count s) (caps_flag s) (kb_scancode ! unat code)"
  shows "\<exists>s'. keyboard_handler inb beyond s = Some s' \<and> exec_terminal s' = exec_terminal s \<and>
     line (tmnl_block s' ! nat (active_terminal s)) = edited c (line (tmnl_block s ! nat (active_terminal s))) \<and>
     (c = 0x0D \<longrightarrow> enter_flag (tmnl_block s' ! nat (active_terminal s)) = KB_PRESSED)"
proof -
  let ?s = "(on_ports (send_eoi 1) s)\<lparr>exec_terminal := active_terminal s\<rparr>"
  have ok: "kernel_ok ?s" using assms(1) by (auto simp: kernel_ok_def screen_ok_def on_ports_def)
  have ty: "typing (tmnl_block ?s ! nat (active_terminal ?s))" using assms(2) by (simp add: on_ports_def)
  obtain s' where s': "input_char c ?s = Some s'"
    "line (tmnl_block s' ! nat (active_terminal s)) = edited c (line (tmnl_block s ! nat (active_terminal s)))"
    "c = 0x0D \<longrightarrow> enter_flag (tmnl_block s' ! nat (active_terminal s)) = KB_PRESSED"
    using input_char_ok [OF ok ty, of c] by (auto simp: on_ports_def)
  have "unat code < 62" using assms(6) by (simp add: word_less_nat_alt)
  then have n: "code \<notin> {CTRL_RELEASE, LEFT_ALT_RELEASE, RIGHT_SHIFT_RELEASE, LEFT_SHIFT_RELEASE}" by auto
  have "handle_code beyond code ?s = input_char c ?s"
    using n assms(3,4,6,7) by (simp add: handle_code_def scancode_def c_def on_ports_def Let_def)
  then show ?thesis
    using s' assms(5) by (simp add: keyboard_handler_def Let_def on_ports_def)
qed

theorem keyboard_edits_line_witness:
  "\<exists>s'. keyboard_handler (\<lambda>_ _. 0x1E) (\<lambda>_. 0) booted_kernel = Some s' \<and>
     line (tmnl_block s' ! 0) = bytes_of ''a''"
proof -
  have k: "kb_scancode ! 30 = 0x61" by (simp add: kb_scancode_def bytes_of_def)
  show ?thesis
    using keyboard_edits_line [OF booted_kernel_ok, of "\<lambda>_ _. 0x1E" "0x1E" "\<lambda>_. 0"] k
    by (auto simp: booted_kernel_def booted_tmnl_def typing_def line_def shift_char_def edited_def bytes_of_def)
qed

text \<open>Safety of the keyboard interrupt: while the line on display is being typed, any byte from
  the controller, whatever lies behind the scan code table, is handled without an access outside
  the arrays, keeps the kernel's invariant and leaves the running terminal running.\<close>

theorem keyboard_safe:
  assumes "kernel_ok s" and "typing (tmnl_block s ! nat (active_terminal s))"
  shows "\<exists>s'. keyboard_handler inb beyond s = Some s' \<and> kernel_ok s' \<and> exec_terminal s' = exec_terminal s"
  using keyboard_handler_ok [OF assms] by blast

theorem keyboard_safe_witness:
  "\<exists>s'. keyboard_handler (\<lambda>_ _. 0xFF) (\<lambda>_. 0xFE) booted_kernel = Some s' \<and> kernel_ok s'"
  using keyboard_safe [OF booted_kernel_ok, of "\<lambda>_ _. 0xFF" "\<lambda>_. 0xFE"]
  by (auto simp: booted_kernel_def booted_tmnl_def typing_def)

text \<open>Without the condition on the line it is not safe: after enter on a line of 127 characters
  the buffer holds 128, and a second enter before the line is read stores its newline in
  \<open>buffer[128]\<close>, outside the array.\<close>

theorem enter_overruns_buffer:
  assumes "kernel_ok s" and "buffer_size (tmnl_block s ! nat (active_terminal s)) = 128"
    and "alt_flag s \<noteq> 1" and "ctrl_flag s \<noteq> 1" and "\<And>log. inb log KB_PORT = 0x1C"
  shows "keyboard_handler inb beyond s = None"
proof -
  let ?s = "(on_ports (send_eoi 1) s)\<lparr>exec_terminal := active_terminal s\<rparr>"
  have ok: "kernel_ok ?s" using assms(1) by (auto simp: kernel_ok_def screen_ok_def on_ports_def)
  have k: "kb_scancode ! 28 = 0x0D" "shift_lookup_table ! 13 = 0x20"
    by (simp_all add: kb_scancode_def shift_lookup_table_def bytes_of_def nth_append unfold_replicate)
  have a: "nat (active_terminal s) < 3" using kernel_okD(5) [OF assms(1)] by simp
  have "length (buffer (tmnl_block s ! nat (active_terminal s))) = 128"
    using kernel_ok_tmnl [OF assms(1) a] by (simp add: tmnl_ok_def)
  then have "input_char 0x0D ?s = None"
    using get_active [OF ok] assms(2) by (simp add: input_char_def on_ports_def arr_set_outside)
  moreover have "shift_char n m 0x0D = 0x0D" for n m by (simp add: shift_char_def k is_lower_def)
  ultimately have "handle_code beyond 0x1C ?s = None"
    using assms(3,4) k by (simp add: handle_code_def scancode_def on_ports_def Let_def)
  then show ?thesis
    using assms(5) by (simp add: keyboard_handler_def Let_def on_ports_def)
qed

theorem enter_overruns_buffer_witness:
  "keyboard_handler (\<lambda>_ _. 0x1C) (\<lambda>_. 0)
     (booted_kernel\<lparr>tmnl_block := (map booted_tmnl [0..<3])[0 := (booted_tmnl 0)\<lparr>buffer_size := 128\<rparr>]\<rparr>) = None"
proof -
  let ?s = "booted_kernel\<lparr>tmnl_block := (map booted_tmnl [0..<3])[0 := (booted_tmnl 0)\<lparr>buffer_size := 128\<rparr>]\<rparr>"
  have "tmnl_ok i (((map booted_tmnl [0..<3])[0 := (booted_tmnl 0)\<lparr>buffer_size := 128\<rparr>]) ! i)" if "i < 3" for i
    using that by (auto simp: nth_list_update tmnl_ok_def booted_tmnl_def)
  then have "kernel_ok ?s"
    using booted_kernel_ok by (auto simp: kernel_ok_def screen_ok_def booted_kernel_def)
  from enter_overruns_buffer [OF this] show ?thesis by (simp add: booted_kernel_def)
qed

text \<open>Shift sticks when its key repeats: every make code counts a press, every break code one
  release, so a shift key held until it repeats once and then released leaves \<open>shift_count\<close> one
  higher than before, and the kernel in upper case.\<close>

theorem shift_repeat_sticks:
  shows "\<exists>s'. do { s \<leftarrow> keyboard_handler (\<lambda>_ _. 0x2A) beyond s;
                  s \<leftarrow> keyboard_handler (\<lambda>_ _. 0x2A) beyond s;
                  keyboard_handler (\<lambda>_ _. 0xAA) beyond s } = Some s' \<and>
     shift_count s' = shift_count s + 1"
proof -
  have k: "kb_scancode ! 42 = SHIFT" by (simp add: kb_scancode_def bytes_of_def)
  show ?thesis
    by (simp add: keyboard_handler_def handle_code_def scancode_def k on_ports_def Let_def)
qed

end
