(* ===== verification/Process.thy ===== *)
theory Process
  imports Keyboard
begin

text \<open>
  The process table of \<^verbatim>\<open>student-distrib/PCB.c\<close>: creating and ending processes, and the file
  descriptors of the running process. Both tables hand out their least free slot: they are the two
  interpretations of the locale \<open>slot_table\<close>. A new process block is a local variable of
  \<open>create_process\<close> that is only partly initialised; what the stack held is the parameter
  \<open>new_process\<close>.
\<close>

definition stdin_fd :: fd where
  "stdin_fd = \<lparr>file_operations_table = Some Stdin_ops, inode = 0, file_position = 0, fd_flags = FD_EXISTS\<rparr>"

definition stdout_fd :: fd where
  "stdout_fd = \<lparr>file_operations_table = Some Stdout_ops, inode = 0, file_position = 0, fd_flags = FD_EXISTS\<rparr>"

definition fileops_table :: "file_ops list" where
  "fileops_table = [Rtc_ops, Dir_ops, File_ops]"

definition set_fd :: "nat \<Rightarrow> (fd \<Rightarrow> fd) \<Rightarrow> pb \<Rightarrow> pb option" where
  "set_fd i f p =
     do { d \<leftarrow> arr_get (fd_table p) (int i);
          ds \<leftarrow> arr_set (fd_table p) (int i) (f d);
          Some (p\<lparr>fd_table := ds\<rparr>) }"

definition upd_fd :: "int \<Rightarrow> nat \<Rightarrow> (fd \<Rightarrow> fd) \<Rightarrow> kst \<Rightarrow> kst option" where
  "upd_fd pid i f s = do { p \<leftarrow> get_pb pid s; p \<leftarrow> set_fd i f p; upd_pb pid (\<lambda>_. p) s }"

definition get_fd :: "int \<Rightarrow> nat \<Rightarrow> kst \<Rightarrow> fd option" where
  "get_fd pid i s = do { p \<leftarrow> get_pb pid s; arr_get (fd_table p) (int i) }"

subsection \<open>Operations\<close>

definition init_pcb :: "kst \<Rightarrow> kst option" where
  "init_pcb s =
     for_each [0..<PCB_SIZE]
       (\<lambda>i s. do { s \<leftarrow> upd_fd (int i) 0 (\<lambda>_. stdin_fd) s;
                   s \<leftarrow> upd_fd (int i) 1 (\<lambda>_. stdout_fd) s;
                   s \<leftarrow> upd_pb (int i) (\<lambda>p. p\<lparr>pb_flags := PCB_ABSENT\<rparr>) s;
                   for_each [2..<FDT_SIZE]
                     (\<lambda>j. upd_fd (int i) j (\<lambda>d. d\<lparr>fd_flags := FD_ABSENT\<rparr>)) s }) s"

definition create_process :: "pb \<Rightarrow> int \<Rightarrow> kst \<Rightarrow> (int \<times> kst) option" where
  "create_process new_process par s =
     do { let p = new_process\<lparr>parent := par, stack_ptr := 0, base_ptr := 0, pb_flags := PCB_EXISTS\<rparr>;
          p \<leftarrow> set_fd 0 (\<lambda>_. stdin_fd) p;
          p \<leftarrow> set_fd 1 (\<lambda>_. stdout_fd) p;
          p \<leftarrow> for_each [2..<FDT_SIZE] (\<lambda>i. set_fd i (\<lambda>d. d\<lparr>fd_flags := FD_ABSENT\<rparr>)) p;
          slot \<leftarrow> find_slot (\<lambda>i. do { q \<leftarrow> get_pb (int i) s; Some (pb_flags q = PCB_ABSENT) }) [0..<PCB_SIZE];
          case slot of
            None \<Rightarrow> Some (-1, s)
          | Some i \<Rightarrow> do { s \<leftarrow> upd_pb (int i) (\<lambda>_. p) s; Some (int i, s) } }"

definition print_process_data :: "nat \<Rightarrow> kst \<Rightarrow> kst option" where
  "print_process_data idx s =
     do { toPrint \<leftarrow> get_pb (int idx) s;
          s \<leftarrow> kprintf ''parent '' [] s;
          s \<leftarrow> kprintf ''%d '' [Num (word_of_int (parent toPrint))] s;
          s \<leftarrow> kprintf ''flags '' [] s;
          s \<leftarrow> kprintf ''%d '' [Num (pb_flags toPrint)] s;
          s \<leftarrow> kprintf ''stack pointer '' [] s;
          s \<leftarrow> kprintf (''%d '' @ [CHR 0x0A]) [Num (stack_ptr toPrint)] s;
          for_each [0..<FDT_SIZE]
            (\<lambda>i s. do { s \<leftarrow> kprintf ''file descriptor %d '' [Num (word_of_nat i)] s;
                        d \<leftarrow> arr_get (fd_table toPrint) (int i);
                        kprintf (''%d %d %d'' @ [CHR 0x0A])
                          [Num (inode d), Num (file_position d), Num (fd_flags d)] s }) s }"

definition rem_fd :: "int \<Rightarrow> kst \<Rightarrow> (int \<times> kst) option" where
  "rem_fd fd_idx s =
     do { sched \<leftarrow> sched_process s;
          if fd_idx < 2 \<or> fd_idx > FDT_SIZE - 1 then Some (-1, s)
          else
            do { d \<leftarrow> get_fd sched (nat fd_idx) s;
                 if fd_flags d = FD_ABSENT then Some (-1, s)
                 else do { s \<leftarrow> upd_fd sched (nat fd_idx) (\<lambda>d. d\<lparr>fd_flags := FD_ABSENT\<rparr>) s;
                           Some (0, s) } } }"

definition end_process :: "int \<Rightarrow> kst \<Rightarrow> (int \<times> kst) option" where
  "end_process pid s =
     (if pid = -1 then Some (-1, s)
      else
        do { p \<leftarrow> get_pb pid s;
             if pb_flags p = PCB_ABSENT then Some (-1, s)
             else
               do { s \<leftarrow> upd_pb pid (\<lambda>p. p\<lparr>pb_flags := PCB_ABSENT\<rparr>) s;
                    p \<leftarrow> get_pb pid s;
                    arg \<leftarrow> arr_set (argument p) 0 0;
                    s \<leftarrow> upd_pb pid (\<lambda>p. p\<lparr>argument := arg\<rparr>) s;
                    s \<leftarrow> for_each [2..<FDT_SIZE] (\<lambda>i s. map_option snd (rem_fd (int i) s)) s;
                    Some (0, s) } })"

definition make_process_base :: "int \<Rightarrow> kst \<Rightarrow> (int \<times> kst) option" where
  "make_process_base pid s =
     (if pid > PCB_SIZE - 1 \<or> pid < 0 then Some (-1, s)
      else do { s \<leftarrow> upd_pb pid (\<lambda>p. p\<lparr>parent := -1\<rparr>) s; Some (0, s) })"

definition add_fd :: "u32 \<Rightarrow> u32 \<Rightarrow> kst \<Rightarrow> (int \<times> kst) option" where
  "add_fd fd_type inum s =
     do { table \<leftarrow> arr_get fileops_table (uint fd_type);
          let new_fd = \<lparr>file_operations_table = Some table, inode = inum, file_position = 0,
                        fd_flags = FD_EXISTS\<rparr>;
          sched \<leftarrow> sched_process s;
          slot \<leftarrow> find_slot (\<lambda>i. do { d \<leftarrow> get_fd sched i s; Some (fd_flags d = FD_ABSENT) }) [2..<FDT_SIZE];
          case slot of
            None \<Rightarrow> Some (-1, s)
          | Some i \<Rightarrow> do { s \<leftarrow> upd_fd sched i (\<lambda>_. new_fd) s; Some (int i, s) } }"

definition invalid_op :: "kst \<Rightarrow> (int \<times> kst) option" where
  "invalid_op s = Some (-1, s)"

partial_function (option) base_of :: "kst \<Rightarrow> int \<Rightarrow> int option" where
  "base_of s base_process =
     do { p \<leftarrow> get_pb base_process s;
          if parent p \<noteq> -1 then base_of s (parent p) else Some base_process }"

definition find_base_process :: "kst \<Rightarrow> int \<Rightarrow> int option" where
  "find_base_process s pid = (if pid = -1 then Some (-1) else base_of s pid)"

subsection \<open>The two slot tables\<close>

definition fd_free :: "pb \<Rightarrow> nat \<Rightarrow> bool" where
  "fd_free p i \<longleftrightarrow> fd_flags (fd_table p ! i) = FD_ABSENT"

definition fd_fill :: "nat \<Rightarrow> file_ops \<times> u32 \<Rightarrow> pb \<Rightarrow> pb" where
  "fd_fill i e p = p\<lparr>fd_table := (fd_table p)[i := \<lparr>file_operations_table = Some (fst e), inode = snd e,
     file_position = 0, fd_flags = FD_EXISTS\<rparr>]\<rparr>"

definition pcb_free :: "pb list \<Rightarrow> nat \<Rightarrow> bool" where
  "pcb_free ps i \<longleftrightarrow> pb_flags (ps ! i) = PCB_ABSENT"

definition pcb_fill :: "nat \<Rightarrow> pb \<Rightarrow> pb list \<Rightarrow> pb list" where
  "pcb_fill i p ps = ps[i := p\<lparr>pb_flags := PCB_EXISTS\<rparr>]"

interpretation fds: slot_table fd_free fd_fill "\<lambda>p. length (fd_table p) = FDT_SIZE" 2 FDT_SIZE
  by unfold_locales (auto simp: fd_free_def fd_fill_def nth_list_update)

interpretation procs: slot_table pcb_free pcb_fill "\<lambda>ps. length ps = PCB_SIZE" 0 PCB_SIZE
  by unfold_locales (auto simp: pcb_free_def pcb_fill_def nth_list_update)

lemma kernel_ok_pb: "kernel_ok s \<Longrightarrow> i < 6 \<Longrightarrow> pb_ok (pcb s ! i)"
  by (simp add: kernel_ok_def)

text \<open>The process that runs, when there is one.\<close>

definition current :: "kst \<Rightarrow> nat" where
  "current s = nat (active_process (tmnl_block s ! nat (exec_terminal s)))"

definition running :: "kst \<Rightarrow> bool" where
  "running s \<longleftrightarrow> kernel_ok s \<and> 0 \<le> active_process (tmnl_block s ! nat (exec_terminal s))"

lemma runningD:
  assumes "running s"
  shows "kernel_ok s" "sched_process s = Some (int (current s))" "current s < 6"
proof -
  have ok: "kernel_ok s" and nn: "0 \<le> active_process (tmnl_block s ! nat (exec_terminal s))"
    using assms by (simp_all add: running_def)
  have e: "nat (exec_terminal s) < 3" using kernel_okD(7) [OF ok] by simp
  show "kernel_ok s" by fact
  show "sched_process s = Some (int (current s))"
    using kernel_okD [OF ok] nn by (simp add: sched_process_def get_tmnl_in current_def)
  show "current s < 6"
    using kernel_ok_tmnl [OF ok e] nn by (simp add: tmnl_ok_def current_def nat_less_iff)
qed

lemma get_fd_in:
  assumes "kernel_ok s" and "p < 6" and "i < 8"
  shows "get_fd (int p) i s = Some (fd_table (pcb s ! p) ! i)"
  using assms kernel_okD(2) [OF assms(1)] kernel_ok_pb [OF assms(1,2)]
  by (simp add: get_fd_def get_pb_in arr_get_nat pb_ok_def)

lemma upd_fd_in:
  assumes "kernel_ok s" and "p < 6" and "i < 8"
  shows "upd_fd (int p) i f s = Some (s\<lparr>pcb := (pcb s)[p := (pcb s ! p)
     \<lparr>fd_table := (fd_table (pcb s ! p))[i := f (fd_table (pcb s ! p) ! i)]\<rparr>]\<rparr>)"
  using assms kernel_okD(2) [OF assms(1)] kernel_ok_pb [OF assms(1,2)]
  by (simp add: upd_fd_def set_fd_def get_pb_in upd_pb_in arr_get_nat arr_set_nat pb_ok_def)

lemma pb_ok_set_fd:
  assumes "pb_ok p" and "fd_flags d \<noteq> FD_ABSENT \<longrightarrow> file_operations_table d \<noteq> None"
  shows "pb_ok (p\<lparr>fd_table := (fd_table p)[i := d]\<rparr>)"
  using assms set_update_subset_insert [of "fd_table p" i d] by (auto simp: pb_ok_def)

text \<open>\<open>add_fd\<close> is allocation in the descriptor table of the running process.\<close>

lemma add_fd_alloc:
  assumes "running s" and "unat fd_type < 3"
  shows "add_fd fd_type inum s =
    (case fds.alloc (fileops_table ! unat fd_type, inum) (pcb s ! current s) of
       None \<Rightarrow> Some (-1, s)
     | Some (i, p) \<Rightarrow> Some (int i, s\<lparr>pcb := (pcb s)[current s := p]\<rparr>))"
proof -
  note r = runningD [OF assms(1)]
  have t: "arr_get fileops_table (uint fd_type) = Some (fileops_table ! unat fd_type)"
    using assms(2) arr_get_nat [of "unat fd_type" fileops_table] by (simp add: fileops_table_def)
  have "find_slot (\<lambda>i. do { d \<leftarrow> get_fd (int (current s)) i s; Some (fd_flags d = FD_ABSENT) }) [2..<FDT_SIZE]
      = Some (find (fd_free (pcb s ! current s)) [2..<FDT_SIZE])"
    using r by (intro find_slot_total) (auto simp: get_fd_in fd_free_def)
  note slot = this
  show ?thesis
  proof (cases "find (fd_free (pcb s ! current s)) [2..<FDT_SIZE]")
    case None
    then show ?thesis using r t slot
      by (simp add: add_fd_def fds.alloc_def Let_def del: upt_rec_numeral)
  next
    case (Some i)
    then have "i < 8" using find_upt_Some [of "fd_free (pcb s ! current s)" 2 8 i] by simp
    then show ?thesis using r t slot Some
      by (simp add: add_fd_def fds.alloc_def upd_fd_in fd_fill_def Let_def del: upt_rec_numeral)
  qed
qed

lemma add_fd_running:
  assumes "running s" and "unat fd_type < 3" and "add_fd fd_type inum s = Some (r, s')"
  shows "running s'"
proof (cases "fds.alloc (fileops_table ! unat fd_type, inum) (pcb s ! current s)")
  case None
  then show ?thesis using assms by (simp add: add_fd_alloc)
next
  case (Some ip)
  obtain i p where ip: "ip = (i, p)" by (cases ip)
  note r = runningD [OF assms(1)]
  have "length (fd_table (pcb s ! current s)) = FDT_SIZE" using kernel_ok_pb [OF r(1,3)] by (simp add: pb_ok_def)
  then have "p = fd_fill i (fileops_table ! unat fd_type, inum) (pcb s ! current s)"
    using fds.alloc_least(5) Some ip by blast
  then have "pb_ok p" using kernel_ok_pb [OF r(1,3)] by (simp add: fd_fill_def pb_ok_set_fd)
  moreover have "s' = s\<lparr>pcb := (pcb s)[current s := p]\<rparr>" using assms Some ip by (simp add: add_fd_alloc)
  ultimately show ?thesis using assms(1) kernel_ok_upd_pb [OF r(1)] by (simp add: running_def)
qed

lemma rem_fd_eq:
  assumes "running s" and "2 \<le> i" and "i < 8"
  shows "rem_fd (int i) s =
    (if fd_free (pcb s ! current s) i then Some (-1, s)
     else Some (0, s\<lparr>pcb := (pcb s)[current s := (pcb s ! current s)
       \<lparr>fd_table := (fd_table (pcb s ! current s))[i := (fd_table (pcb s ! current s) ! i)\<lparr>fd_flags := FD_ABSENT\<rparr>]\<rparr>]\<rparr>))"
  using runningD [OF assms(1)] assms(2,3)
  by (simp add: rem_fd_def get_fd_in upd_fd_in fd_free_def)

definition fresh_pb :: "pb \<Rightarrow> int \<Rightarrow> pb" where
  "fresh_pb new_process par = new_process\<lparr>parent := par, stack_ptr := 0, base_ptr := 0,
     pb_flags := PCB_EXISTS,
     fd_table := stdin_fd # stdout_fd # map (\<lambda>d. d\<lparr>fd_flags := FD_ABSENT\<rparr>) (drop 2 (fd_table new_process))\<rparr>"

lemma create_process_slots:
  assumes "length (pcb s) = 6" and "length (fd_table new_process) = 8"
  shows "create_process new_process par s =
    (case procs.alloc (fresh_pb new_process par) (pcb s) of
       None \<Rightarrow> Some (-1, s)
     | Some (i, ps) \<Rightarrow> Some (int i, s\<lparr>pcb := ps\<rparr>))"
proof -
  obtain d0 d1 d2 d3 d4 d5 d6 d7 where d: "fd_table new_process = [d0, d1, d2, d3, d4, d5, d6, d7]"
    using assms(2) by (auto simp: length_Suc_conv eval_nat_numeral)
  let ?p = "new_process\<lparr>parent := par, stack_ptr := 0, base_ptr := 0, pb_flags := PCB_EXISTS\<rparr>"
  have init: "do { p \<leftarrow> set_fd 0 (\<lambda>_. stdin_fd) ?p;
        p \<leftarrow> set_fd 1 (\<lambda>_. stdout_fd) p;
        for_each [2..<FDT_SIZE] (\<lambda>i. set_fd i (\<lambda>d. d\<lparr>fd_flags := FD_ABSENT\<rparr>)) p } = Some (fresh_pb new_process par)"
    by (simp add: set_fd_def arr_get_def arr_set_def d upt_rec fresh_pb_def)
  have slot: "find_slot (\<lambda>i. do { q \<leftarrow> get_pb (int i) s; Some (pb_flags q = PCB_ABSENT) }) [0..<PCB_SIZE]
      = Some (find (pcb_free (pcb s)) [0..<PCB_SIZE])"
    using assms(1) by (intro find_slot_total) (auto simp: get_pb_in pcb_free_def)
  have ex: "(fresh_pb new_process par)\<lparr>pb_flags := PCB_EXISTS\<rparr> = fresh_pb new_process par"
    by (simp add: fresh_pb_def)
  have "create_process new_process par s = do { p \<leftarrow> Some (fresh_pb new_process par);
          slot \<leftarrow> find_slot (\<lambda>i. do { q \<leftarrow> get_pb (int i) s; Some (pb_flags q = PCB_ABSENT) }) [0..<PCB_SIZE];
          case slot of
            None \<Rightarrow> Some (-1, s)
          | Some i \<Rightarrow> do { s \<leftarrow> upd_pb (int i) (\<lambda>_. p) s; Some (int i, s) } }"
    unfolding create_process_def Let_def init [symmetric] by simp
  note create = this
  show ?thesis
  proof (cases "find (pcb_free (pcb s)) [0..<PCB_SIZE]")
    case None
    then show ?thesis using slot create by (simp add: procs.alloc_def del: upt_rec_numeral)
  next
    case (Some i)
    then have "i < 6" using find_upt_Some [of "pcb_free (pcb s)" 0 6 i] by simp
    then show ?thesis using slot ex create Some assms(1)
      by (simp add: procs.alloc_def upd_pb_in pcb_fill_def del: upt_rec_numeral)
  qed
qed

lemmas create_process_alloc = create_process_slots [OF kernel_okD(2)]

subsection \<open>Ending a process\<close>

text \<open>A process whose descriptors from 2 on are all closed.\<close>

definition closed_from :: "nat \<Rightarrow> nat \<Rightarrow> fd list \<Rightarrow> fd list" where
  "closed_from lo hi ds = map (\<lambda>i. if lo \<le> i \<and> i < hi then (ds ! i)\<lparr>fd_flags := FD_ABSENT\<rparr> else ds ! i) [0..<length ds]"

lemma length_closed_from [simp]: "length (closed_from lo hi ds) = length ds"
  by (simp add: closed_from_def)

lemma closed_from_nth:
  "i < length ds \<Longrightarrow> closed_from lo hi ds ! i = (if lo \<le> i \<and> i < hi then (ds ! i)\<lparr>fd_flags := FD_ABSENT\<rparr> else ds ! i)"
  by (simp add: closed_from_def)

lemma closed_from_refl [simp]: "closed_from lo lo ds = ds"
  by (rule nth_equalityI) (auto simp: closed_from_nth)

lemma closed_from_Suc:
  "lo \<le> i \<Longrightarrow> i < length ds \<Longrightarrow> (closed_from lo i ds)[i := (ds ! i)\<lparr>fd_flags := FD_ABSENT\<rparr>] = closed_from lo (Suc i) ds"
  by (rule nth_equalityI) (auto simp: closed_from_nth nth_list_update)

definition with_fds :: "(fd list \<Rightarrow> fd list) \<Rightarrow> kst \<Rightarrow> kst" where
  "with_fds f s = s\<lparr>pcb := (pcb s)[current s := (pcb s ! current s)
     \<lparr>fd_table := f (fd_table (pcb s ! current s))\<rparr>]\<rparr>"

lemma pb_ok_closed_from: "pb_ok p \<Longrightarrow> pb_ok (p\<lparr>fd_table := closed_from lo hi (fd_table p)\<rparr>)"
  by (auto simp: pb_ok_def all_set_conv_all_nth closed_from_nth)

lemma running_with_fds:
  assumes "running s"
  shows "running (with_fds (closed_from lo hi) s)" "current (with_fds f s) = current s"
proof -
  note r = runningD [OF assms]
  show "running (with_fds (closed_from lo hi) s)"
    using kernel_ok_upd_pb [OF r(1) pb_ok_closed_from [OF kernel_ok_pb [OF r(1,3)]]] assms
    by (simp add: running_def with_fds_def)
  show "current (with_fds f s) = current s" by (simp add: current_def with_fds_def)
qed

lemma fd_absent_same: "fd_flags d = FD_ABSENT \<Longrightarrow> d\<lparr>fd_flags := FD_ABSENT\<rparr> = d"
  by simp

lemma close_descriptors:
  assumes "running s"
  shows "for_each [2..<FDT_SIZE] (\<lambda>i s. map_option snd (rem_fd (int i) s)) s
    = Some (with_fds (closed_from 2 8) s)"
proof -
  note r = runningD [OF assms]
  have len: "length (pcb s) = 6" "length (fd_table (pcb s ! current s)) = 8"
    using kernel_okD(2) [OF r(1)] kernel_ok_pb [OF r(1,3)] by (simp_all add: pb_ok_def)
  have "\<exists>s'. for_each [2..<8] (\<lambda>i s. map_option snd (rem_fd (int i) s)) s = Some s' \<and>
      s' = with_fds (closed_from 2 8) s"
  proof (rule for_each_upt [where P = "\<lambda>i s'. s' = with_fds (closed_from 2 i) s"])
    show "s = with_fds (closed_from 2 2) s" by (simp add: with_fds_def)
    fix i s' assume i: "2 \<le> i" "i < 8" and s': "s' = with_fds (closed_from 2 i) s"
    have run: "running s'" "current s' = current s" using running_with_fds [OF assms] s' by simp_all
    have tab: "fd_table (pcb s' ! current s) = closed_from 2 i (fd_table (pcb s ! current s))"
      using r(3) len s' by (simp add: with_fds_def)
    have nth: "fd_table (pcb s' ! current s) ! i = fd_table (pcb s ! current s) ! i"
      using i len tab by (simp add: closed_from_nth)
    have "with_fds (closed_from 2 (Suc i)) s = s'\<lparr>pcb := (pcb s')[current s := (pcb s' ! current s)
       \<lparr>fd_table := (fd_table (pcb s' ! current s))[i := (fd_table (pcb s' ! current s) ! i)\<lparr>fd_flags := FD_ABSENT\<rparr>]\<rparr>]\<rparr>"
      using i len r(3) closed_from_Suc [of 2 i "fd_table (pcb s ! current s)"]
      unfolding nth by (simp add: tab) (simp add: s' with_fds_def)
    moreover have "with_fds (closed_from 2 (Suc i)) s = s'" if "fd_free (pcb s' ! current s) i"
    proof -
      have "fd_flags (fd_table (pcb s ! current s) ! i) = FD_ABSENT" using that nth by (simp add: fd_free_def)
      then have "closed_from 2 (Suc i) (fd_table (pcb s ! current s)) = closed_from 2 i (fd_table (pcb s ! current s))"
        using len by (intro nth_equalityI) (auto simp: closed_from_nth less_Suc_eq fd_absent_same)
      then show ?thesis by (simp add: s' with_fds_def)
    qed
    ultimately show "\<exists>s''. map_option snd (rem_fd (int i) s') = Some s'' \<and> s'' = with_fds (closed_from 2 (Suc i)) s"
      using rem_fd_eq [OF run(1) i] run(2) by simp
  qed simp
  then show ?thesis by simp
qed

lemma end_process_eq:
  assumes "running s" and "pid < 6" and "pb_flags (pcb s ! pid) \<noteq> PCB_ABSENT"
  shows "end_process (int pid) s = Some (0, with_fds (closed_from 2 8)
    (s\<lparr>pcb := (pcb s)[pid := (pcb s ! pid)\<lparr>pb_flags := PCB_ABSENT, argument := (argument (pcb s ! pid))[0 := 0]\<rparr>]\<rparr>))"
proof -
  note r = runningD [OF assms(1)]
  have len: "length (pcb s) = 6" "length (argument (pcb s ! pid)) = 128"
    using kernel_okD(2) [OF r(1)] kernel_ok_pb [OF r(1) assms(2)] by (simp_all add: pb_ok_def)
  let ?s = "s\<lparr>pcb := (pcb s)[pid := (pcb s ! pid)\<lparr>pb_flags := PCB_ABSENT, argument := (argument (pcb s ! pid))[0 := 0]\<rparr>]\<rparr>"
  have "pb_ok ((pcb s ! pid)\<lparr>pb_flags := PCB_ABSENT, argument := (argument (pcb s ! pid))[0 := 0]\<rparr>)"
    using kernel_ok_pb [OF r(1) assms(2)] by (simp add: pb_ok_def)
  then have "running ?s" using kernel_ok_upd_pb [OF r(1)] assms(1) by (simp add: running_def)
  from close_descriptors [OF this] show ?thesis
    using assms(2,3) len arr_set_in [of 0 "argument (pcb s ! pid)" 0]
    by (simp add: end_process_def get_pb_in upd_pb_in del: upt_rec_numeral)
qed

subsection \<open>Properties\<close>

text \<open>\<open>add_fd\<close> is allocation of the least free descriptor: with type 0, 1 or 2 it returns the
  least free number in 2 to 7 and stores there a descriptor of that type and inode at position 0;
  every other descriptor, process and variable stays as it was. When the table is full it returns -1
  and changes nothing. It never gives out descriptor 0 or 1.\<close>

theorem add_fd_least_free:
  assumes "running s" and "unat fd_type < 3"
  shows "\<exists>r s'. add_fd fd_type inum s = Some (r, s') \<and> running s' \<and>
    (if \<exists>i \<in> {2..<8}. fd_free (pcb s ! current s) i
     then (\<exists>i \<in> {2..<8}. r = int i \<and> fd_free (pcb s ! current s) i \<and>
       (\<forall>j \<in> {2..<i}. \<not> fd_free (pcb s ! current s) j) \<and>
       s' = s\<lparr>pcb := (pcb s)[current s := (pcb s ! current s)\<lparr>fd_table := (fd_table (pcb s ! current s))
         [i := \<lparr>file_operations_table = Some ([Rtc_ops, Dir_ops, File_ops] ! unat fd_type), inode = inum,
                file_position = 0, fd_flags = FD_EXISTS\<rparr>]\<rparr>]\<rparr>)
     else r = -1 \<and> s' = s)"
proof (cases "fds.alloc (fileops_table ! unat fd_type, inum) (pcb s ! current s)")
  case None
  then have "\<not> (\<exists>i \<in> {2..<8}. fd_free (pcb s ! current s) i)"
    using fds.alloc_None_iff [of "(fileops_table ! unat fd_type, inum)" "pcb s ! current s"]
    by (auto simp: fds.free_slots_def)
  then show ?thesis using None add_fd_alloc [OF assms] assms(1) by simp
next
  case (Some ip)
  obtain i p where ip: "ip = (i, p)" by (cases ip)
  note r = runningD [OF assms(1)]
  have wf: "length (fd_table (pcb s ! current s)) = FDT_SIZE" using kernel_ok_pb [OF r(1,3)] by (simp add: pb_ok_def)
  note least = fds.alloc_least [OF wf, of "(fileops_table ! unat fd_type, inum)" i p]
  let ?s = "s\<lparr>pcb := (pcb s)[current s := p]\<rparr>"
  have eq: "add_fd fd_type inum s = Some (int i, ?s)" using Some ip add_fd_alloc [OF assms] by simp
  have i: "i \<in> {2..<8}" "fd_free (pcb s ! current s) i" "\<forall>j \<in> {2..<i}. \<not> fd_free (pcb s ! current s) j"
    "p = fd_fill i (fileops_table ! unat fd_type, inum) (pcb s ! current s)"
    using least Some ip by simp_all
  show ?thesis
    using eq i add_fd_running [OF assms eq] by (auto simp: fd_fill_def fileops_table_def)
qed

theorem add_fd_least_free_witness:
  "\<exists>s'. add_fd 2 7 booted_kernel = Some (2, s') \<and> inode (fd_table (pcb s' ! 0) ! 2) = 7"
proof -
  have run: "running booted_kernel" and c: "current booted_kernel = 0"
    using booted_kernel_ok by (simp_all add: running_def current_def booted_kernel_def booted_tmnl_def)
  have f: "fd_free (pcb booted_kernel ! 0) i" if "i \<in> {2..<8}" for i
    using that by (auto simp: fd_free_def booted_kernel_def booted_pb_def blank_fd_def nth_append nth_Cons')
  have ex: "\<exists>i \<in> {2..<8}. fd_free (pcb booted_kernel ! current booted_kernel) i"
    using f [of 2] c by (intro bexI [of _ 2]) simp_all
  have len: "length (pcb booted_kernel) = 6" "length (fd_table (pcb booted_kernel ! 0)) = 8"
    by (simp_all add: booted_kernel_def booted_pb_def nth_append)
  have "unat (2 :: u32) < 3" by simp
  from add_fd_least_free [OF run this, of 7] ex
  obtain i s' where s': "add_fd 2 7 booted_kernel = Some (int i, s')" "2 \<le> i" "i < 8"
    "\<forall>j \<in> {2..<i}. \<not> fd_free (pcb booted_kernel ! current booted_kernel) j"
    "fd_table (pcb s' ! 0) ! i = \<lparr>file_operations_table = Some File_ops, inode = 7, file_position = 0, fd_flags = FD_EXISTS\<rparr>"
    using len by (simp only: if_True) (auto simp: c)
  have "i = 2"
  proof (rule ccontr)
    assume "i \<noteq> 2"
    then have "2 \<in> {2..<i}" using s'(2) by simp
    then show False using s'(4) f [of 2] c by auto
  qed
  then show ?thesis using s' by auto
qed

text \<open>\<open>create_process\<close> takes the least absent slot of the process table, which becomes an
  existing process with the given parent, standard input and output open, the six other descriptors
  closed; every other process stays as it was. With six processes it returns -1 and changes
  nothing.\<close>

theorem create_process_least_absent:
  assumes "kernel_ok s" and "length (fd_table new_process) = 8"
  shows "\<exists>r s'. create_process new_process par s = Some (r, s') \<and>
    (if \<exists>i \<in> {0..<6}. pcb_free (pcb s) i
     then (\<exists>i \<in> {0..<6}. r = int i \<and> pcb_free (pcb s) i \<and> (\<forall>j \<in> {0..<i}. \<not> pcb_free (pcb s) j) \<and>
       s' = s\<lparr>pcb := (pcb s)[i := fresh_pb new_process par]\<rparr> \<and>
       \<not> pcb_free (pcb s') i \<and> parent (pcb s' ! i) = par \<and>
       fd_table (pcb s' ! i) ! 0 = stdin_fd \<and> fd_table (pcb s' ! i) ! 1 = stdout_fd \<and>
       (\<forall>j \<in> {2..<8}. fd_free (pcb s' ! i) j))
     else r = -1 \<and> s' = s)"
proof (cases "procs.alloc (fresh_pb new_process par) (pcb s)")
  case None
  then have "\<not> (\<exists>i \<in> {0..<6}. pcb_free (pcb s) i)"
    using procs.alloc_None_iff [of "fresh_pb new_process par" "pcb s"] by (auto simp: procs.free_slots_def)
  then show ?thesis using None create_process_alloc [OF assms] by simp
next
  case (Some ip)
  obtain i ps where ip: "ip = (i, ps)" by (cases ip)
  have wf: "length (pcb s) = PCB_SIZE" using kernel_okD(2) [OF assms(1)] by simp
  have ex: "(fresh_pb new_process par)\<lparr>pb_flags := PCB_EXISTS\<rparr> = fresh_pb new_process par"
    by (simp add: fresh_pb_def)
  have i: "i \<in> {0..<6}" "pcb_free (pcb s) i" "\<forall>j \<in> {0..<i}. \<not> pcb_free (pcb s) j"
    "ps = (pcb s)[i := fresh_pb new_process par]"
    using procs.alloc_least [OF wf, of "fresh_pb new_process par" i ps] Some ip ex
    by (simp_all add: pcb_fill_def)
  have "fd_free (fresh_pb new_process par) j" if "j \<in> {2..<8}" for j
  proof -
    have "j - 2 < length (drop 2 (fd_table new_process))" using that assms(2) by auto
    then show ?thesis using that by (auto simp: fd_free_def fresh_pb_def nth_Cons' numeral_2_eq_2)
  qed
  then show ?thesis
    using Some ip create_process_alloc [OF assms, of par] i wf
    by (auto simp: pcb_free_def fresh_pb_def)
qed

theorem create_process_least_absent_witness:
  "\<exists>s'. create_process (booted_pb PCB_ABSENT) 0 booted_kernel = Some (3, s') \<and> parent (pcb s' ! 3) = 0"
proof -
  have free: "pcb_free (pcb booted_kernel) i \<longleftrightarrow> 3 \<le> i" if "i < 6" for i
    using that by (auto simp: pcb_free_def booted_kernel_def booted_pb_def nth_append)
  have ex: "\<exists>i \<in> {0..<6}. pcb_free (pcb booted_kernel) i" using free [of 3] by (intro bexI [of _ 3]) auto
  have len: "length (fd_table (booted_pb PCB_ABSENT)) = 8" by (simp add: booted_pb_def)
  obtain i s' where s': "create_process (booted_pb PCB_ABSENT) 0 booted_kernel = Some (int i, s')" "i < 6"
    "pcb_free (pcb booted_kernel) i" "\<forall>j \<in> {0..<i}. \<not> pcb_free (pcb booted_kernel) j" "parent (pcb s' ! i) = 0"
    using create_process_least_absent [OF booted_kernel_ok len, of 0] ex by auto
  have "3 \<le> i" using free s'(2,3) by simp
  moreover have "\<not> 3 < i" using s'(4) free [of 3] by auto
  ultimately have "i = 3" by simp
  then show ?thesis using s' by auto
qed

end
