(* ===== verification/File_Ops.thy ===== *)
theory File_Ops
  imports Process
begin

text \<open>
  The operations behind file descriptors: reading a file and listing the directory
  (\<^verbatim>\<open>student-distrib/filesystem.c\<close>), and the five tables of operations of \<^verbatim>\<open>student-distrib/PCB.c\<close>
  that the system calls dispatch through. A file descriptor keeps its position; the lemmas show that
  successive reads deliver successive parts of the file, and successive directory reads the
  successive names, starting over after the last.

  \<open>dir_read\<close> has a \<open>dentry_t\<close> on its stack that it only partly fills: what the stack held is the
  parameter \<open>dentry0\<close>. \<open>env\<close> is what happens while a read waits (theories Terminal and Rtc).
\<close>

text \<open>\<open>read_data\<close> into memory at \<open>buf\<close>, through the page tables.\<close>

definition read_data_mem :: "u32 \<Rightarrow> u32 \<Rightarrow> nat \<Rightarrow> u32 \<Rightarrow> kst \<Rightarrow> (int \<times> kst) option" where
  "read_data_mem inum offset buf len s =
     (let tr = kernel_xlat (pg s)
      in map_option (\<lambda>(r, m). (r, s\<lparr>mem := m\<rparr>))
           (read_data (ld tr) (\<lambda>m i b. st tr m (buf + i) b) (fs s) inum offset len (mem s)))"

subsection \<open>Files\<close>

definition file_read :: "nat \<Rightarrow> nat \<Rightarrow> int \<Rightarrow> kst \<Rightarrow> (int \<times> kst) option" where
  "file_read fdn buf nbytes s =
     do { sched \<leftarrow> sched_process s;
          curr_fdt \<leftarrow> get_fd sched fdn s;
          if fd_flags curr_fdt = PCB_ABSENT then Some (-1, s)
          else
            do { (bytes_read, s) \<leftarrow> read_data_mem (inode curr_fdt) (file_position curr_fdt) buf
                   (word_of_int nbytes) s;
                 s \<leftarrow> upd_fd sched fdn (\<lambda>d. d\<lparr>file_position := file_position d + word_of_int bytes_read\<rparr>) s;
                 Some (bytes_read, s) } }"

definition file_write :: "kst \<Rightarrow> (int \<times> kst) option" where "file_write s = Some (-1, s)"
definition file_open :: "kst \<Rightarrow> (int \<times> kst) option" where "file_open s = Some (0, s)"
definition file_close :: "kst \<Rightarrow> (int \<times> kst) option" where "file_close s = Some (0, s)"

subsection \<open>Directories\<close>

definition dir_read :: "dentry \<Rightarrow> nat \<Rightarrow> nat \<Rightarrow> kst \<Rightarrow> (int \<times> kst) option" where
  "dir_read dentry0 fdn buf s =
     (if buf = 0 then Some (-1, s)
      else
        do { sched \<leftarrow> sched_process s;
             d \<leftarrow> get_fd sched fdn s;
             if file_position d > num_dentries (fs s) then Some (0, s)
             else
               do { let position = file_position d;
                    (ret, dptr) \<leftarrow> read_dentry_by_index (kview s) (fs s) position (Some dentry0);
                    if ret = 0 then
                      do { entry \<leftarrow> dptr;
                           len \<leftarrow> strlen (lrd (dentry_bytes entry));
                           (len, s) \<leftarrow> (if len > FNAME_SIZE then
                                          do { s \<leftarrow> kput (buf + FNAME_SIZE) 0 s; Some (FNAME_SIZE, s) }
                                        else Some (len, s));
                           m \<leftarrow> strncpy (\<lambda>_. lrd (dentry_bytes entry))
                                 (\<lambda>m i b. st (kernel_xlat (pg s)) m (buf + i) b) len (mem s);
                           let s = s\<lparr>mem := m\<rparr>;
                           s \<leftarrow> upd_fd sched fdn (\<lambda>d. d\<lparr>file_position := file_position d + 1\<rparr>) s;
                           Some (int len, s) }
                    else
                      do { s \<leftarrow> upd_fd sched fdn (\<lambda>d. d\<lparr>file_position := 0\<rparr>) s;
                           Some (0, s) } } })"

definition dir_write :: "kst \<Rightarrow> (int \<times> kst) option" where "dir_write s = Some (-1, s)"
definition dir_open :: "kst \<Rightarrow> (int \<times> kst) option" where "dir_open s = Some (0, s)"
definition dir_close :: "kst \<Rightarrow> (int \<times> kst) option" where "dir_close s = Some (0, s)"

subsection \<open>The tables of operations\<close>

definition ops_read ::
  "(nat \<Rightarrow> kst \<Rightarrow> kst option) \<Rightarrow> dentry \<Rightarrow> file_ops \<Rightarrow> nat \<Rightarrow> nat \<Rightarrow> int \<Rightarrow> kst \<Rightarrow> (int \<times> kst) option" where
  "ops_read env dentry0 table fdn buf nbytes s =
     (case table of
        Stdin_ops \<Rightarrow> terminal_read env buf nbytes s
      | Stdout_ops \<Rightarrow> invalid_op s
      | Rtc_ops \<Rightarrow> rtc_read env s
      | Dir_ops \<Rightarrow> dir_read dentry0 fdn buf s
      | File_ops \<Rightarrow> file_read fdn buf nbytes s)"

definition ops_write :: "file_ops \<Rightarrow> nat \<Rightarrow> int \<Rightarrow> kst \<Rightarrow> (int \<times> kst) option" where
  "ops_write table buf nbytes s =
     (case table of
        Stdin_ops \<Rightarrow> invalid_op s
      | Stdout_ops \<Rightarrow> terminal_write buf nbytes s
      | Rtc_ops \<Rightarrow> rtc_write buf s
      | Dir_ops \<Rightarrow> dir_write s
      | File_ops \<Rightarrow> file_write s)"

definition ops_open :: "file_ops \<Rightarrow> kst \<Rightarrow> (int \<times> kst) option" where
  "ops_open table s =
     (case table of
        Stdin_ops \<Rightarrow> terminal_open s
      | Stdout_ops \<Rightarrow> terminal_open s
      | Rtc_ops \<Rightarrow> rtc_open s
      | Dir_ops \<Rightarrow> dir_open s
      | File_ops \<Rightarrow> file_open s)"

definition ops_close :: "file_ops \<Rightarrow> kst \<Rightarrow> (int \<times> kst) option" where
  "ops_close table s =
     (case table of
        Stdin_ops \<Rightarrow> terminal_close s
      | Stdout_ops \<Rightarrow> terminal_close s
      | Rtc_ops \<Rightarrow> rtc_close s
      | Dir_ops \<Rightarrow> dir_close s
      | File_ops \<Rightarrow> file_close s)"

subsection \<open>Reading a file into the program's memory\<close>

text \<open>The file system image as it lies in the kernel's 4 MB page.\<close>

definition fs_image :: "kst \<Rightarrow> view" where
  "fs_image s a = (if OFF_4MB \<le> a \<and> a < OFF_8MB then Some (mem s a) else None)"

lemma frame_image: "console_frame s t \<Longrightarrow> fs_image t = fs_image s"
  by (auto simp: fs_image_def console_frame_def fun_eq_iff)

lemma put_bytes_poke:
  assumes "\<And>k. k < length bs \<Longrightarrow> tr (buf + i + k) = Some (f + k)"
  shows "put_bytes (\<lambda>m i b. st tr m (buf + i) b) i bs m = Some (poke f bs m)"
  using assms
proof (induction bs arbitrary: i f m)
  case Nil
  then show ?case by (auto simp: poke_def fun_eq_iff)
next
  case (Cons b bs)
  have "put_bytes (\<lambda>m i b. st tr m (buf + i) b) (Suc i) bs (m(f := b)) = Some (poke (Suc f) bs (m(f := b)))"
    using Cons.prems [of "Suc _"] by (intro Cons.IH) simp
  moreover have "poke (Suc f) bs (m(f := b)) = poke f (b # bs) m"
    by (auto simp: poke_def fun_eq_iff nth_Cons' Suc_diff_le)
  ultimately show ?case using Cons.prems [of 0] by (simp add: st_def)
qed

lemma user_put_bytes:
  assumes "user_range s pid buf (length bs)"
  shows "put_bytes (\<lambda>m i b. st (kernel_xlat (pg s)) m (buf + i) b) 0 bs m
    = Some (poke (user_frame pid buf) bs m)"
  using assms walk_process_page [of pid "pg s"]
  by (intro put_bytes_poke) (auto simp: user_range_def kernel_xlat_def user_frame_def)

lemma fs_image_kview:
  assumes "paging_inv prog (pg s)"
  shows "fs_image s \<subseteq>\<^sub>m kview s |` {a. \<forall>i. kernel_xlat (pg s) (OFF_128MB + n + i) \<noteq> kernel_xlat (pg s) a}"
proof -
  have "kernel_xlat (pg s) a = Some a \<and> kernel_xlat (pg s) (OFF_128MB + n + i) \<noteq> Some a"
    if "OFF_4MB \<le> a" "a < OFF_8MB" for a i
  proof
    show "kernel_xlat (pg s) a = Some a" using walk_kernel_page [OF assms that] by (simp add: kernel_xlat_def)
    show "kernel_xlat (pg s) (OFF_128MB + n + i) \<noteq> Some a"
      using walk_high [OF assms, of "OFF_128MB + n + i"] that by (fastforce simp: kernel_xlat_def)
  qed
  then show ?thesis
    by (auto simp: map_le_def fs_image_def kview_def ld_def restrict_map_def split: if_splits)
qed

lemma read_data_mem_eq:
  assumes "file_ok (fs_image s) (fs s) (unat inum) bytes" and "offset div BLOCK_SIZE < INODE_DB"
    and "part = take (unat len) (drop (unat offset) bytes)"
    and "user_range s pid buf (length part)"
  shows "read_data_mem inum offset buf len s =
    Some (int (length part), s\<lparr>mem := poke (user_frame pid buf) part (mem s)\<rparr>)"
proof -
  have inv: "paging_inv (Some pid) (pg s)" and "OFF_128MB \<le> buf" using assms(4) by (simp_all add: user_range_def)
  then obtain n where n: "buf = OFF_128MB + n" using le_Suc_ex by blast
  have "file_ok (ld (kernel_xlat (pg s)) (mem s) |` {a. \<forall>i. kernel_xlat (pg s) (buf + i) \<noteq> kernel_xlat (pg s) a})
      (fs s) (unat inum) bytes"
    using file_ok_mono [OF fs_image_kview [OF inv] assms(1)] by (simp add: kview_def n)
  note memory_image.read_data_eq [OF this, of offset len]
  then show ?thesis
    using assms(2) user_put_bytes [OF assms(4), of "mem s"]
    by (simp add: read_data_mem_def Let_def assms(3) [symmetric] not_le [symmetric])
qed

text \<open>The descriptor \<open>fdn\<close> of the running process.\<close>

definition cur_fd :: "kst \<Rightarrow> nat \<Rightarrow> fd" where
  "cur_fd s fdn = fd_table (pcb s ! current s) ! fdn"

definition set_position :: "nat \<Rightarrow> u32 \<Rightarrow> kst \<Rightarrow> kst" where
  "set_position fdn p s = s\<lparr>pcb := (pcb s)[current s := (pcb s ! current s)
     \<lparr>fd_table := (fd_table (pcb s ! current s))[fdn := (cur_fd s fdn)\<lparr>file_position := p\<rparr>]\<rparr>]\<rparr>"

lemma running_mem [simp]: "running (s\<lparr>mem := m\<rparr>) = running s"
  and current_mem [simp]: "current (s\<lparr>mem := m\<rparr>) = current s"
  and cur_fd_mem [simp]: "cur_fd (s\<lparr>mem := m\<rparr>) = cur_fd s"
  by (simp_all add: running_def current_def cur_fd_def fun_eq_iff)

lemma get_cur_fd:
  assumes "running s" and "fdn < 8"
  shows "do { sched \<leftarrow> sched_process s; get_fd sched fdn s } = Some (cur_fd s fdn)"
  using runningD [OF assms(1)] assms(2) by (simp add: get_fd_in cur_fd_def)

lemma running_fd_length: "running s \<Longrightarrow> length (fd_table (pcb s ! current s)) = 8"
  using runningD [of s] kernel_ok_pb [of s "current s"] by (simp add: pb_ok_def)

lemma set_position:
  assumes "running s" and "fdn < 8"
  shows "running (set_position fdn p s)" "current (set_position fdn p s) = current s"
    "cur_fd (set_position fdn p s) fdn = (cur_fd s fdn)\<lparr>file_position := p\<rparr>"
    "mem (set_position fdn p s) = mem s" "fs (set_position fdn p s) = fs s"
    "pg (set_position fdn p s) = pg s"
proof -
  note r = runningD [OF assms(1)]
  have pb: "pb_ok (pcb s ! current s)" by (rule kernel_ok_pb [OF r(1,3)])
  then have "fd_flags (cur_fd s fdn) \<noteq> FD_ABSENT \<longrightarrow> file_operations_table (cur_fd s fdn) \<noteq> None"
    using assms(2) by (simp add: pb_ok_def cur_fd_def)
  then have "pb_ok ((pcb s ! current s)
     \<lparr>fd_table := (fd_table (pcb s ! current s))[fdn := (cur_fd s fdn)\<lparr>file_position := p\<rparr>]\<rparr>)"
    by (intro pb_ok_set_fd [OF pb]) simp
  then show "running (set_position fdn p s)"
    using kernel_ok_upd_pb [OF r(1)] assms(1) by (simp add: running_def set_position_def)
  show c: "current (set_position fdn p s) = current s" by (simp add: current_def set_position_def)
  show "cur_fd (set_position fdn p s) fdn = (cur_fd s fdn)\<lparr>file_position := p\<rparr>"
    using r kernel_okD(2) [OF r(1)] running_fd_length [OF assms(1)] assms(2) c
    by (simp add: cur_fd_def set_position_def)
qed (simp_all add: set_position_def)

lemma upd_position:
  assumes "running s" and "fdn < 8"
  shows "upd_fd (int (current s)) fdn (\<lambda>d. d\<lparr>file_position := f (file_position d)\<rparr>) s
    = Some (set_position fdn (f (file_position (cur_fd s fdn))) s)"
  using runningD [OF assms(1)] assms(2) by (simp add: upd_fd_in set_position_def cur_fd_def)

lemma file_read_eq:
  assumes "running s" and "fdn < 8" and "fd_flags (cur_fd s fdn) = FD_EXISTS"
    and "file_ok (fs_image s) (fs s) (unat (inode (cur_fd s fdn))) bytes"
    and "file_position (cur_fd s fdn) div BLOCK_SIZE < INODE_DB"
    and "part = take (unat (word_of_int nbytes :: u32)) (drop (unat (file_position (cur_fd s fdn))) bytes)"
    and "user_range s pid buf (length part)"
  shows "file_read fdn buf nbytes s = Some (int (length part),
    set_position fdn (file_position (cur_fd s fdn) + word_of_nat (length part))
      (s\<lparr>mem := poke (user_frame pid buf) part (mem s)\<rparr>))"
proof -
  note r = runningD [OF assms(1)]
  show ?thesis
    using r assms(2,3) read_data_mem_eq [OF assms(4-7)]
      upd_position [of "s\<lparr>mem := poke (user_frame pid buf) part (mem s)\<rparr>" fdn
        "\<lambda>p. p + word_of_nat (length part)"] assms(1)
    by (simp add: file_read_def get_fd_in cur_fd_def [symmetric])
qed

subsection \<open>Successive reads\<close>

lemma rd_bytes_eqI: "(\<And>i. i < length xs \<Longrightarrow> v (a + i) = Some (xs ! i)) \<Longrightarrow> rd_bytes v a (length xs) = Some xs"
proof (induction xs arbitrary: a)
  case (Cons x xs)
  have "rd_bytes v (Suc a) (length xs) = Some xs"
    using Cons.prems [of "Suc _"] by (intro Cons.IH) simp
  then show ?case using Cons.prems [of 0] by simp
qed simp

lemma poke_other: "p < a \<Longrightarrow> poke a bs m p = m p"
  by (simp add: poke_def)

lemma fs_image_poke: "user_range s pid buf n \<Longrightarrow> fs_image (s\<lparr>mem := poke (user_frame pid buf) bs m\<rparr>) = fs_image (s\<lparr>mem := m\<rparr>)"
  using user_frame_high [of s pid buf n] by (auto simp: fs_image_def poke_other fun_eq_iff)

lemma fs_image_set_position [simp]: "fs_image (set_position fdn p s) = fs_image s"
  by (simp add: fs_image_def set_position_def fun_eq_iff)

lemma user_range_less: "user_range s pid a n \<Longrightarrow> k \<le> n \<Longrightarrow> user_range s pid a k"
  by (simp add: user_range_def)

lemma rd_poked:
  assumes "user_range s pid buf (length bs)" and "pg s' = pg s" and "mem s' = poke (user_frame pid buf) bs m"
  shows "rd_bytes (kview s') buf (length bs) = Some bs"
proof (rule rd_bytes_eqI)
  fix i assume i: "i < length bs"
  have "user_range s' pid buf (length bs)" using assms(1,2) by (simp add: user_range_def)
  from kview_user [OF this i] show "kview s' (buf + i) = Some (bs ! i)"
    using i assms(3) by (simp add: poke_def)
qed

text \<open>A program that reads the file \<open>n\<close> bytes at a time and collects what it gets.\<close>

primrec read_chunks :: "nat \<Rightarrow> nat \<Rightarrow> nat \<Rightarrow> int \<Rightarrow> kst \<Rightarrow> (u8 list \<times> kst) option" where
  "read_chunks 0 fdn buf n s = Some ([], s)"
| "read_chunks (Suc k) fdn buf n s =
     do { (r, s) \<leftarrow> file_read fdn buf n s;
          xs \<leftarrow> rd_bytes (kview s) buf (nat r);
          (ys, s) \<leftarrow> read_chunks k fdn buf n s;
          Some (xs @ ys, s) }"

text \<open>The descriptor is open on a file of the image with the given content, at or before its end.\<close>

definition reading :: "kst \<Rightarrow> nat \<Rightarrow> u8 list \<Rightarrow> bool" where
  "reading s fdn bytes \<longleftrightarrow> running s \<and> fdn < FDT_SIZE \<and> fd_flags (cur_fd s fdn) = FD_EXISTS \<and>
     file_ok (fs_image s) (fs s) (unat (inode (cur_fd s fdn))) bytes \<and>
     length bytes < INODE_DB * BLOCK_SIZE \<and> unat (file_position (cur_fd s fdn)) \<le> length bytes"

lemma reading_position: "reading s fdn bytes \<Longrightarrow> file_position (cur_fd s fdn) div BLOCK_SIZE < INODE_DB"
  by (simp add: reading_def word_less_nat_alt unat_div div_less_iff_less_mult)

lemma file_read_step:
  assumes "reading s fdn bytes" and "0 \<le> n" and "n < 2 ^ 31"
    and "part = take (nat n) (drop (unat (file_position (cur_fd s fdn))) bytes)"
    and "user_range s pid buf (length part)"
  shows "\<exists>s'. file_read fdn buf n s = Some (int (length part), s') \<and> reading s' fdn bytes \<and>
     mem s' = poke (user_frame pid buf) part (mem s) \<and> pg s' = pg s \<and>
     unat (file_position (cur_fd s' fdn)) = unat (file_position (cur_fd s fdn)) + length part"
proof -
  let ?p = "file_position (cur_fd s fdn)"
  let ?s = "s\<lparr>mem := poke (user_frame pid buf) part (mem s)\<rparr>"
  let ?s' = "set_position fdn (?p + word_of_nat (length part)) ?s"
  note rd = assms(1) [unfolded reading_def]
  have "unat (word_of_int n :: u32) = nat n"
    using assms(2,3) by (simp add: unat_eq_nat_uint uint_word_of_int)
  then have "file_read fdn buf n s = Some (int (length part), ?s')"
    using file_read_eq [of s fdn bytes part n pid buf] rd reading_position [OF assms(1)] assms(4,5) by simp
  moreover have le: "unat ?p + length part \<le> length bytes" using rd assms(4) by auto
  have pos: "unat (?p + word_of_nat (length part)) = unat ?p + length part"
  proof -
    have l: "unat (word_of_nat (length part) :: u32) = length part"
      using le rd by (simp add: unat_of_nat take_bit_eq_mod)
    then show ?thesis using le rd unat_add_lem [of ?p "word_of_nat (length part) :: u32"] by simp
  qed
  moreover have "reading ?s' fdn bytes"
    using rd set_position [of ?s fdn "?p + word_of_nat (length part)"] pos le
      fs_image_poke [OF assms(5), of part "mem s"]
    by (simp add: reading_def fs_image_def)
  ultimately show ?thesis
    using rd set_position [of ?s fdn "?p + word_of_nat (length part)"]
    by (intro exI [of _ ?s']) simp
qed

lemma read_chunks_eq:
  assumes "reading s fdn bytes" and "0 \<le> n" and "n < 2 ^ 31" and "user_range s pid buf (nat n)"
  shows "\<exists>s'. read_chunks k fdn buf n s =
       Some (take (k * nat n) (drop (unat (file_position (cur_fd s fdn))) bytes), s') \<and>
     reading s' fdn bytes \<and>
     unat (file_position (cur_fd s' fdn)) = min (length bytes) (unat (file_position (cur_fd s fdn)) + k * nat n)"
  using assms(1,4)
proof (induction k arbitrary: s)
  case 0
  then show ?case by (simp add: reading_def min_absorb2)
next
  case (Suc k)
  let ?p = "unat (file_position (cur_fd s fdn))"
  define part where "part = take (nat n) (drop ?p bytes)"
  have u: "user_range s pid buf (length part)" by (rule user_range_less [OF Suc.prems(2)]) (simp add: part_def)
  obtain s1 where s1: "file_read fdn buf n s = Some (int (length part), s1)" "reading s1 fdn bytes"
    "mem s1 = poke (user_frame pid buf) part (mem s)" "pg s1 = pg s"
    "unat (file_position (cur_fd s1 fdn)) = ?p + length part"
    using file_read_step [OF Suc.prems(1) assms(2,3) part_def u] by blast
  have "user_range s1 pid buf (nat n)" using Suc.prems(2) s1(4) by (simp add: user_range_def)
  from Suc.IH [OF s1(2) this] obtain s2 where s2:
    "read_chunks k fdn buf n s1 = Some (take (k * nat n) (drop (?p + length part) bytes), s2)"
    "reading s2 fdn bytes"
    "unat (file_position (cur_fd s2 fdn)) = min (length bytes) (?p + length part + k * nat n)"
    unfolding s1(5) by blast
  have p: "?p \<le> length bytes" using Suc.prems(1) by (simp add: reading_def)
  have "drop (?p + length part) bytes = drop (nat n) (drop ?p bytes)"
    by (cases "nat n \<le> length bytes - ?p") (auto simp: part_def add.commute min_def)
  then have "part @ take (k * nat n) (drop (?p + length part) bytes) = take (Suc k * nat n) (drop ?p bytes)"
    by (simp add: part_def take_add)
  moreover have "min (length bytes) (?p + length part + k * nat n) = min (length bytes) (?p + Suc k * nat n)"
    using p by (auto simp: part_def min_def)
  ultimately show ?case
    using s1(1) s2 rd_poked [OF u s1(4,3)] by simp
qed

subsection \<open>Reading the directory\<close>

interpretation mem_copy: copy_access "\<lambda>_. v" "\<lambda>m i b. st tr m (buf + i) b" for v tr buf
  by unfold_locales simp

text \<open>How many bytes \<open>strlen\<close> counts in a \<open>dentry_t\<close>: a name of 32 characters runs into the type.\<close>

lemma take_name:
  assumes "length xs = n"
  shows "takeWhile P (xs @ ys) = (if takeWhile P xs = xs then xs @ takeWhile P ys else takeWhile P xs)"
  by (metis takeWhile_append1 takeWhile_append2 takeWhile_eq_all_conv)

lemma dentry_strlen:
  assumes "length (file_name d) = 32" and "unat (file_type d) < 3"
  shows "strlen (lrd (dentry_bytes d)) = Some
    (if length (dentry_name d) = 32 \<and> file_type d \<noteq> 0 then 33 else length (dentry_name d))"
proof -
  have k: "file_type d = word_of_nat k" if "unat (file_type d) = k" for k using that by auto
  have "unat (file_type d) = 0 \<or> unat (file_type d) = 1 \<or> unat (file_type d) = 2"
    using assms(2) by linarith
  then have "file_type d \<in> {0, 1, 2}" using k [of 0] k [of 1] k [of 2] by auto
  then have lt: "takeWhile (\<lambda>c. c \<noteq> 0) (le_bytes (file_type d) @ zs) = (if file_type d = 0 then [] else [ucast (file_type d)])"
    "0 \<in> set (le_bytes (file_type d))" for zs
    by (auto simp: le_bytes_def)
  have z: "0 \<in> set (dentry_bytes d)" using lt(2) by (simp add: dentry_bytes_def)
  have nm: "dentry_name d = takeWhile (\<lambda>c. c \<noteq> 0) (file_name d)"
    using assms(1) by (simp add: dentry_name_def)
  have full: "takeWhile (\<lambda>c. c \<noteq> 0) (file_name d) = file_name d \<longleftrightarrow> length (dentry_name d) = 32"
    unfolding nm using assms(1) by (metis takeWhile_eq_take take_all_iff dual_order.refl length_takeWhile_le)
  have "strlen (lrd (dentry_bytes d)) = Some (length (takeWhile (\<lambda>c. c \<noteq> 0) (dentry_bytes d)))"
    by (rule strlen_cstr [OF cstr_takeWhile [OF z]])
  also have "length (takeWhile (\<lambda>c. c \<noteq> 0) (dentry_bytes d)) =
      (if length (dentry_name d) = 32 \<and> file_type d \<noteq> 0 then 33 else length (dentry_name d))"
    using full lt(1) assms(1) unfolding dentry_bytes_def
    by (subst take_name [OF assms(1)]) (auto simp: nm)
  finally show ?thesis .
qed

lemma rd_bytes_mono: "v \<subseteq>\<^sub>m w \<Longrightarrow> rd_bytes v a n = Some bs \<Longrightarrow> rd_bytes w a n = Some bs"
proof (induction n arbitrary: a bs)
  case (Suc n)
  then show ?case by (auto simp: bind_eq_Some_conv) (metis rd_mono)
qed simp

lemma load_dentry_mono: "v \<subseteq>\<^sub>m w \<Longrightarrow> load_dentry v a = Some d \<Longrightarrow> load_dentry w a = Some d"
  using rd_bytes_mono [of v w] rd32_mono [of v w] by (auto simp: load_dentry_def bind_eq_Some_conv simp del: rd_bytes_numeral)

lemma dir_ok_mono: "v \<subseteq>\<^sub>m w \<Longrightarrow> dir_ok v vars ds \<Longrightarrow> dir_ok w vars ds"
  using load_dentry_mono by (auto simp: dir_ok_def)

lemma fs_image_le:
  assumes "paging_inv prog (pg s)"
  shows "fs_image s \<subseteq>\<^sub>m kview s"
  by (rule map_le_trans [OF fs_image_kview [OF assms]]) (auto simp: map_le_def restrict_map_def split: if_splits)

text \<open>The bytes a directory read stores: the name, and a terminator only after a name of 32 characters.\<close>

definition listed_name :: "dentry \<Rightarrow> u8 list" where
  "listed_name d = dentry_name d @ (if length (dentry_name d) = 32 \<and> file_type d \<noteq> 0 then [0] else [])"

lemma dir_read_entry:
  assumes "running s" and "fdn < 8" and "buf \<noteq> 0" and "length (file_name dentry0) = 32"
    and "dir_ok (fs_image s) (fs s) ds" and "unat (file_position (cur_fd s fdn)) = p" and "p < length ds"
    and "unat (file_type (ds ! p)) < 3" and "user_range s pid buf (length (listed_name (ds ! p)))"
  shows "dir_read dentry0 fdn buf s = Some (int (length (dentry_name (ds ! p))),
     set_position fdn (file_position (cur_fd s fdn) + 1)
       (s\<lparr>mem := poke (user_frame pid buf) (listed_name (ds ! p)) (mem s)\<rparr>))"
proof -
  note r = runningD [OF assms(1)]
  let ?pos = "file_position (cur_fd s fdn)" and ?e = "set_dentry (ds ! p) dentry0" and ?nm = "dentry_name (ds ! p)"
  let ?long = "length ?nm = 32 \<and> file_type (ds ! p) \<noteq> 0"
  have inv: "paging_inv (Some pid) (pg s)" using assms(9) by (simp add: user_range_def)
  have dir: "dir_ok (kview s) (fs s) ds" by (rule dir_ok_mono [OF fs_image_le [OF inv] assms(5)])
  then have len: "length ds = unat (num_dentries (fs s))" by (simp add: dir_ok_def)
  have ld: "load_dentry (kview s) (dentry_addr (fs s) (unat ?pos)) = Some (ds ! p)"
    using dir assms(6,7) by (simp add: dir_ok_def)
  have small: "\<not> ?pos > num_dentries (fs s)" "\<not> ?pos \<ge> num_dentries (fs s)"
    using len assms(6,7) by (auto simp: word_less_nat_alt word_le_nat_alt)
  have idx: "read_dentry_by_index (kview s) (fs s) ?pos (Some dentry0) = Some (0, Some ?e)"
    using read_dentry_by_index_eq [OF ld assms(4)] small(2) by simp
  have fname: "length (file_name ?e) = 32" and nm: "dentry_name ?e = ?nm" and ty: "file_type ?e = file_type (ds ! p)"
    using load_dentry_length [OF ld] by (simp_all add: set_dentry_def dentry_name_def)
  have sl: "strlen (lrd (dentry_bytes ?e)) = Some (if ?long then 33 else length ?nm)"
    using dentry_strlen [OF fname] assms(8) by (simp only: nm ty)
  have nlen: "length ?nm \<le> 32" by (rule length_dentry_name)
  let ?s1 = "if ?long then s\<lparr>mem := (mem s)(user_frame pid buf + 32 := 0)\<rparr> else s"
  have cut: "(if (if ?long then 33 else length ?nm) > FNAME_SIZE then
        do { s \<leftarrow> kput (buf + FNAME_SIZE) 0 s; Some (FNAME_SIZE, s) }
      else Some (if ?long then 33 else length ?nm, s)) = Some (length ?nm, ?s1)"
  proof (cases ?long)
    case True
    then have "length (listed_name (ds ! p)) = 33" by (simp add: listed_name_def)
    with True show ?thesis using kput_user [OF assms(9), of 32 0] by simp
  next
    case False
    have "\<not> length ?nm > FNAME_SIZE" using nlen by simp
    with False show ?thesis by (simp only: if_False)
  qed
  have range: "user_range ?s1 pid buf (length ?nm)"
    using user_range_less [OF assms(9), of "length ?nm"] by (simp add: listed_name_def user_range_def)
  have "strncpy (\<lambda>_. lrd (dentry_bytes ?e)) (\<lambda>m i b. st (kernel_xlat (pg ?s1)) m (buf + i) b) (length ?nm) (mem ?s1)
      = put_bytes (\<lambda>m i b. st (kernel_xlat (pg ?s1)) m (buf + i) b) 0 (padded (length ?nm) (dentry_bytes ?e)) (mem ?s1)"
    using nlen fname by (intro mem_copy.strncpy_bytes) (auto simp: lrd_def dentry_bytes_def set_dentry_def)
  also have "padded (length ?nm) (dentry_bytes ?e) = ?nm"
  proof -
    have "?nm = takeWhile (\<lambda>c. c \<noteq> 0) (file_name ?e)"
      unfolding nm [symmetric] unfolding dentry_name_def using fname by simp
    then have "take (length ?nm) (file_name ?e) = ?nm" by (simp only: takeWhile_eq_take [symmetric])
    then have "take (length ?nm) (dentry_bytes ?e) = ?nm" using nlen fname by (simp add: dentry_bytes_def)
    note name = this
    have whole: "takeWhile (\<lambda>c. c \<noteq> 0) ?nm = ?nm"
      using dentry_name_nonzero [of "ds ! p"] by (auto simp: takeWhile_eq_all_conv)
    show ?thesis by (simp add: padded_def name whole)
  qed
  also have "put_bytes (\<lambda>m i b. st (kernel_xlat (pg ?s1)) m (buf + i) b) 0 ?nm (mem ?s1)
      = Some (poke (user_frame pid buf) ?nm (mem ?s1))"
    by (rule user_put_bytes [OF range])
  also have "poke (user_frame pid buf) ?nm (mem ?s1) = poke (user_frame pid buf) (listed_name (ds ! p)) (mem s)"
    by (auto simp: poke_def listed_name_def fun_eq_iff nth_append)
  finally have copy: "strncpy (\<lambda>_. lrd (dentry_bytes ?e)) (\<lambda>m i b. st (kernel_xlat (pg ?s1)) m (buf + i) b)
      (length ?nm) (mem ?s1) = Some (poke (user_frame pid buf) (listed_name (ds ! p)) (mem s))" .
  have s1: "?s1\<lparr>mem := m\<rparr> = s\<lparr>mem := m\<rparr>" for m by simp
  show ?thesis
    using r assms(2,3) small(1) idx sl cut copy
      upd_position [of "s\<lparr>mem := poke (user_frame pid buf) (listed_name (ds ! p)) (mem s)\<rparr>" fdn "\<lambda>x. x + 1"] assms(1)
    by (simp add: dir_read_def get_fd_in cur_fd_def [symmetric] s1 del: strlen_cstr)
qed

lemma dir_read_end:
  assumes "running s" and "fdn < 8" and "buf \<noteq> 0" and "file_position (cur_fd s fdn) = num_dentries (fs s)"
  shows "dir_read dentry0 fdn buf s = Some (0, set_position fdn 0 s)"
  using runningD [OF assms(1)] assms(2-4) upd_position [OF assms(1,2), of "\<lambda>_. 0"]
  by (simp add: dir_read_def get_fd_in cur_fd_def [symmetric] read_dentry_by_index_def)

subsection \<open>Properties\<close>

text \<open>A program of process 0 that has opened the file \<open>hi\<close> of the sample image, and its directory.\<close>

definition open_fd :: "file_ops \<Rightarrow> fd" where
  "open_fd table = \<lparr>file_operations_table = Some table, inode = 0, file_position = 0, fd_flags = FD_EXISTS\<rparr>"

definition reading_pb :: pb where
  "reading_pb = (booted_pb PCB_EXISTS)\<lparr>fd_table :=
     (fd_table (booted_pb PCB_EXISTS))[2 := open_fd File_ops, 3 := open_fd Dir_ops]\<rparr>"

text \<open>The sample image at the start of the kernel's page.\<close>

definition image_fs :: fs_vars where
  "image_fs = \<lparr>fs_base_addr = OFF_4MB, num_db = 2, num_inodes = 1, num_dentries = 2,
     boot_block = OFF_4MB, inodes = OFF_4MB + 4096, data_blocks = OFF_4MB + 8192\<rparr>"

definition reading_kernel :: kst where
  "reading_kernel = running_kernel\<lparr>pcb := (pcb running_kernel)[0 := reading_pb], fs := image_fs,
     mem := (\<lambda>a. if OFF_4MB \<le> a then the (sample_image (a - OFF_4MB)) else 0)\<rparr>"

lemma reading_kernel_running: "running reading_kernel" "current reading_kernel = 0"
proof -
  have "pb_ok reading_pb"
    by (simp add: pb_ok_def reading_pb_def booted_pb_def open_fd_def blank_fd_def unfold_replicate)
  moreover have "pg reading_kernel = pg running_kernel" by (simp add: reading_kernel_def)
  ultimately have "kernel_ok reading_kernel"
    using kernel_ok_upd_pb [OF running_kernel_ok, of reading_pb 0]
    by (simp add: kernel_ok_def screen_ok_def reading_kernel_def)
  then show "running reading_kernel"
    by (simp add: running_def reading_kernel_def running_kernel_def booted_kernel_def booted_tmnl_def)
  show "current reading_kernel = 0"
    by (simp add: current_def reading_kernel_def running_kernel_def booted_kernel_def booted_tmnl_def)
qed

lemma reading_kernel_fd: "cur_fd reading_kernel 2 = open_fd File_ops" "cur_fd reading_kernel 3 = open_fd Dir_ops"
  by (simp_all add: cur_fd_def reading_kernel_running(2))
    (simp_all add: reading_kernel_def running_kernel_def booted_kernel_def reading_pb_def booted_pb_def)

lemma reading_kernel_image:
  "fs reading_kernel = image_fs"
  "fs_image reading_kernel a = (if OFF_4MB \<le> a \<and> a < OFF_8MB then sample_image (a - OFF_4MB) else None)"
  by (simp_all add: reading_kernel_def fs_image_def sample_image_def)

lemma reading_kernel_reading: "reading reading_kernel 2 (bytes_of ''Hello'')"
proof -
  have "file_ok (fs_image reading_kernel) image_fs 0 (bytes_of ''Hello'')"
    by (auto simp: file_ok_def inode_length_def inode_data_def inode_addr_def data_addr_def rd32_def
        le32_def reading_kernel_image sample_image_def image_fs_def)
  then show ?thesis
    by (simp add: reading_def reading_kernel_running reading_kernel_fd open_fd_def reading_kernel_image)
qed

lemma reading_kernel_dir: "dir_ok (fs_image reading_kernel) (fs reading_kernel) sample_dir"
proof -
  have "load_dentry (fs_image reading_kernel) (dentry_addr image_fs 0) = Some (sample_dir ! 0)"
    "load_dentry (fs_image reading_kernel) (dentry_addr image_fs 1) = Some (sample_dir ! 1)"
    by (simp_all add: load_dentry_def dentry_addr_def image_fs_def sample_dir_def sample_image_def
        rd32_def le32_def unfold_replicate reading_kernel_image)
  moreover have "num_dentries image_fs = 2" "length sample_dir = 2"
    by (simp_all add: image_fs_def sample_dir_def)
  ultimately show ?thesis
    by (auto simp: dir_ok_def less_2_cases_iff reading_kernel_image)
qed

lemma reading_kernel_range: "n \<le> 1000 \<Longrightarrow> user_range reading_kernel 0 0x8048000 n"
  using running_kernel_inv by (simp add: user_range_def reading_kernel_def)

text \<open>C15. Reading a file: a program that calls \<open>file_read\<close> \<open>k\<close> times with a buffer of \<open>n\<close> bytes gets,
  one after the other, the parts of the file from the descriptor's position on: together exactly the
  next \<open>k n\<close> bytes, or all up to the end. The position ends there, at most at the end of the file,
  from where further reads deliver nothing.\<close>

theorem file_read_sequence:
  assumes "reading s fdn bytes" and "0 \<le> n" and "n < 2 ^ 31" and "user_range s pid buf (nat n)"
  shows "\<exists>s'. read_chunks k fdn buf n s =
       Some (take (k * nat n) (drop (unat (file_position (cur_fd s fdn))) bytes), s') \<and>
     unat (file_position (cur_fd s' fdn)) = min (length bytes) (unat (file_position (cur_fd s fdn)) + k * nat n) \<and>
     reading s' fdn bytes"
  using read_chunks_eq [OF assms] by blast

theorem file_read_sequence_witness:
  "\<exists>s'. read_chunks 3 2 0x8048000 2 reading_kernel = Some (bytes_of ''Hello'', s') \<and>
     file_position (cur_fd s' 2) = 5"
  using file_read_sequence [OF reading_kernel_reading, of 2 0 "0x8048000" 3] reading_kernel_range [of 2]
  by (auto simp: reading_kernel_fd open_fd_def bytes_of_def word_unat_eq_iff)

text \<open>Listing the directory: at position \<open>p\<close>, \<open>dir_read\<close> stores the name of entry \<open>p\<close> in the
  buffer, returns its length, and moves to the next entry; after the last entry it returns 0 and
  goes back to the first. The count the caller passes plays no role; a terminator is stored only
  after a name of 32 characters, which then occupies 33 bytes.\<close>

theorem dir_read_lists_names:
  assumes "running s" and "fdn < 8" and "buf \<noteq> 0" and "length (file_name dentry0) = 32"
    and "dir_ok (fs_image s) (fs s) ds" and "unat (file_position (cur_fd s fdn)) = p" and "p \<le> length ds"
    and "p < length ds \<Longrightarrow> unat (file_type (ds ! p)) < 3 \<and> user_range s pid buf (length (listed_name (ds ! p)))"
  shows "dir_read dentry0 fdn buf s =
    (if p < length ds
     then Some (int (length (dentry_name (ds ! p))), set_position fdn (file_position (cur_fd s fdn) + 1)
       (s\<lparr>mem := poke (user_frame pid buf) (listed_name (ds ! p)) (mem s)\<rparr>))
     else Some (0, set_position fdn 0 s))"
proof (cases "p < length ds")
  case True
  then show ?thesis using dir_read_entry [OF assms(1-6) True, of pid] assms(8) by simp
next
  case False
  then have "file_position (cur_fd s fdn) = num_dentries (fs s)"
    using assms(5-7) by (auto simp: dir_ok_def word_unat_eq_iff)
  then show ?thesis using dir_read_end [OF assms(1-3)] False by simp
qed

theorem dir_read_lists_names_witness:
  "dir_read (sample_dir ! 0) 3 0x8048000 reading_kernel = Some (1, set_position 3 1
     (reading_kernel\<lparr>mem := poke 0x848000 [0x2E] (mem reading_kernel)\<rparr>))"
proof -
  have nm: "dentry_name (sample_dir ! 0) = [0x2E]" "file_type (sample_dir ! 0) = 1"
    "length (file_name (sample_dir ! 0)) = 32"
    by (simp_all add: sample_dir_def dentry_name_def)
  have p: "unat (file_position (cur_fd reading_kernel 3)) = 0" by (simp add: reading_kernel_fd open_fd_def)
  have "user_range reading_kernel 0 0x8048000 (length (listed_name (sample_dir ! 0)))"
    by (rule reading_kernel_range) (simp add: listed_name_def nm)
  then show ?thesis
    using dir_read_lists_names [OF reading_kernel_running(1) _ _ nm(3) reading_kernel_dir p, of "0x8048000" 0] nm
    by (simp add: reading_kernel_fd open_fd_def listed_name_def user_frame_def sample_dir_def)
qed

end
