(* ===== verification/Syscall.thy ===== *)
theory Syscall
  imports File_Ops
begin

text \<open>
  The system calls of \<^verbatim>\<open>student-distrib/syscall.c\<close>, the program loader (\<^verbatim>\<open>paging.c\<close>) and the dispatch
  of \<^verbatim>\<open>as_wrapper.S\<close>.

  A call does not always return to its caller. \<open>control\<close> says where the processor goes on:
  \<open>Returned r\<close> to the caller with \<open>r\<close> in \<open>eax\<close>; \<open>Enter_user ws\<close> to user level, by \<open>iret\<close> with the
  words \<open>ws\<close> on the stack (\<open>eip\<close>, \<open>cs\<close>, \<open>eflags\<close>, \<open>esp\<close>, \<open>ss\<close>); \<open>Halt_return\<close> to the label
  \<open>halt_return\<close> of \<open>execute\<close> with \<open>eax\<close>, \<open>esp\<close> and \<open>ebp\<close> set, so that the \<open>execute\<close> that saved these
  stack registers returns \<open>eax\<close>; \<open>Switch_stack\<close> to whoever saved the two registers (theory Scheduler).

  What the stack frame of a call holds before it is written, and where the frame is, is the
  parameter of type \<open>frame\<close>.
\<close>

abbreviation USER_CS :: u32 where "USER_CS \<equiv> 0x23"
abbreviation USER_DS :: u32 where "USER_DS \<equiv> 0x2B"
abbreviation KERNEL_DS :: u16 where "KERNEL_DS \<equiv> 0x18"
abbreviation USER_ESP :: u32 where "USER_ESP \<equiv> 0x083FFFFC"
abbreviation VIDM_ADDR :: u32 where "VIDM_ADDR \<equiv> 0x8800000"
abbreviation ENTRY_OFF :: u32 where "ENTRY_OFF \<equiv> 24"

datatype control =
    Returned int
  | Enter_user "u32 list"
  | Halt_return u32 u32 u32
  | Switch_stack u32 u32

record frame =
  frame_dentry :: dentry
  frame_exec_buffer :: "u8 list"
  frame_entry_buf :: "u8 list"
  frame_process :: pb
  frame_esp :: u32
  frame_ebp :: u32

text \<open>A call that returns its result.\<close>

definition returning :: "(int \<times> kst) option \<Rightarrow> (control \<times> kst) option" where
  "returning r = map_option (\<lambda>(v, s). (Returned v, s)) r"

lemma returning_Some [simp]: "returning (Some (v, s)) = Some (Returned v, s)"
  by (simp add: returning_def)

subsection \<open>Files\<close>

definition sys_read ::
  "(nat \<Rightarrow> kst \<Rightarrow> kst option) \<Rightarrow> frame \<Rightarrow> int \<Rightarrow> nat \<Rightarrow> int \<Rightarrow> kst \<Rightarrow> (int \<times> kst) option" where
  "sys_read env fr fdn buf nbytes s =
     (if fdn \<ge> FDT_SIZE \<or> fdn < 0 then Some (-1, s)
      else if buf = 0 then Some (-1, s)
      else
        do { sched \<leftarrow> sched_process s;
             d \<leftarrow> get_fd sched (nat fdn) s;
             if fd_flags d = FD_ABSENT then Some (-1, s)
             else do { table \<leftarrow> file_operations_table d;
                       ops_read env (frame_dentry fr) table (nat fdn) buf nbytes s } })"

definition sys_write :: "int \<Rightarrow> nat \<Rightarrow> int \<Rightarrow> kst \<Rightarrow> (int \<times> kst) option" where
  "sys_write fdn buf nbytes s =
     (if fdn \<ge> FDT_SIZE \<or> fdn < 0 then Some (-1, s)
      else if buf = 0 then Some (-1, s)
      else
        do { sched \<leftarrow> sched_process s;
             d \<leftarrow> get_fd sched (nat fdn) s;
             if fd_flags d = FD_ABSENT then Some (-1, s)
             else do { table \<leftarrow> file_operations_table d; ops_write table buf nbytes s } })"

definition sys_open :: "frame \<Rightarrow> view \<Rightarrow> kst \<Rightarrow> (int \<times> kst) option" where
  "sys_open fr filename s =
     do { (ret, dptr) \<leftarrow> read_dentry_by_name (kview s) (fs s) filename (Some (frame_dentry fr));
          if ret = -1 then Some (-1, s)
          else
            do { entry \<leftarrow> dptr;
                 (fdn, s) \<leftarrow> add_fd (file_type entry) (inode_num entry) s;
                 if fdn = -1 then Some (-1, s)
                 else
                   do { sched \<leftarrow> sched_process s;
                        d \<leftarrow> get_fd sched (nat fdn) s;
                        table \<leftarrow> file_operations_table d;
                        (ret, s) \<leftarrow> ops_open table s;
                        if ret = -1 then Some (-1, s) else Some (fdn, s) } } }"

definition sys_close :: "int \<Rightarrow> kst \<Rightarrow> (int \<times> kst) option" where
  "sys_close fdn s =
     do { (ret, s) \<leftarrow> rem_fd fdn s;
          if ret = -1 then Some (-1, s)
          else
            do { sched \<leftarrow> sched_process s;
                 d \<leftarrow> get_fd sched (nat fdn) s;
                 table \<leftarrow> file_operations_table d;
                 ops_close table s } }"

subsection \<open>The command line\<close>

partial_function (option) skip_spaces :: "view \<Rightarrow> nat \<Rightarrow> nat option" where
  "skip_spaces command i =
     do { c \<leftarrow> command i; if c = 0x20 then skip_spaces command (Suc i) else Some i }"

function copy_name :: "view \<Rightarrow> nat \<Rightarrow> nat \<Rightarrow> u8 list \<Rightarrow> (nat \<times> u8 list) option" where
  "copy_name command start i name =
     do { c \<leftarrow> command i;
          if c \<noteq> 0 \<and> c \<noteq> 0x0A \<and> c \<noteq> 0x20 \<and> i < BUF_SIZE then
            do { name \<leftarrow> arr_set name (int i - int start) c; copy_name command start (Suc i) name }
          else Some (i, name) }"
  by pat_completeness auto
termination
  by (relation "measure (\<lambda>(command, start, i, name). BUF_SIZE - i)") auto

declare copy_name.simps [simp del]

text \<open>The loop over the argument tests \<open>command[i]\<close>, where the name ended, not \<open>command[j]\<close>.\<close>

function copy_arg :: "view \<Rightarrow> int \<Rightarrow> nat \<Rightarrow> nat \<Rightarrow> nat \<Rightarrow> kst \<Rightarrow> (nat \<times> kst) option" where
  "copy_arg command sched i arg_start j s =
     do { c \<leftarrow> command i;
          if c \<noteq> 0 \<and> c \<noteq> 0x0A \<and> j < BUF_SIZE then
            do { b \<leftarrow> command j;
                 p \<leftarrow> get_pb sched s;
                 arg \<leftarrow> arr_set (argument p) (int j - int arg_start) b;
                 s \<leftarrow> upd_pb sched (\<lambda>p. p\<lparr>argument := arg\<rparr>) s;
                 copy_arg command sched i arg_start (Suc j) s }
          else Some (j, s) }"
  by pat_completeness auto
termination
  by (relation "measure (\<lambda>(command, sched, i, arg_start, j, s). BUF_SIZE - j)") auto

declare copy_arg.simps [simp del]

definition parse_cmd :: "view \<Rightarrow> u8 list \<Rightarrow> kst \<Rightarrow> (int \<times> u8 list \<times> kst) option" where
  "parse_cmd command name s =
     do { start \<leftarrow> skip_spaces command 0;
          c \<leftarrow> command start;
          if c = 0 then Some (-1, name, s)
          else
            do { (i, name) \<leftarrow> copy_name command start start name;
                 name \<leftarrow> arr_set name (int i - int start) 0;
                 let cmd_start = int i - int start + 1;
                 arg_start \<leftarrow> skip_spaces command i;
                 c \<leftarrow> command arg_start;
                 if c = 0 then Some (cmd_start, name, s)
                 else
                   do { sched \<leftarrow> sched_process s;
                        (j, s) \<leftarrow> copy_arg command sched i arg_start arg_start s;
                        p \<leftarrow> get_pb sched s;
                        arg \<leftarrow> arr_set (argument p) (int j - int arg_start) 0;
                        s \<leftarrow> upd_pb sched (\<lambda>p. p\<lparr>argument := arg\<rparr>) s;
                        Some (cmd_start, name, s) } } }"

text \<open>\<open>command\<close> is \<open>None\<close> for a null pointer.\<close>

definition load_prog :: "u32 \<Rightarrow> kst \<Rightarrow> (int \<times> kst) option" where
  "load_prog inum s = read_data_mem inum 0 (program_start (pg s)) OFF_4MB s"

subsection \<open>halt\<close>

definition kernel_stack_top :: "int \<Rightarrow> u32" where
  "kernel_stack_top pid = OFF_8MB - 4 - OFF_8KB * word_of_int pid"

definition halt :: "u8 \<Rightarrow> kst \<Rightarrow> (control \<times> kst) option" where
  "halt status s =
     do { sched \<leftarrow> sched_process s;
          p \<leftarrow> get_pb sched s;
          let prev_process = parent p;
          let child_stack = stack_ptr p;
          let child_base = base_ptr p;
          if prev_process = -1 then Some (Returned 0, s)
          else
            do { s \<leftarrow> for_each [3..<FDT_SIZE]
                   (\<lambda>i s. do { cur \<leftarrow> sched_process s;
                               d \<leftarrow> get_fd cur i s;
                               if fd_flags d = FD_EXISTS then map_option snd (sys_close (int i) s)
                               else Some s }) s;
                 s \<leftarrow> upd_tmnl (exec_terminal s) (\<lambda>t. t\<lparr>active_process := prev_process\<rparr>) s;
                 (_, s) \<leftarrow> end_process sched s;
                 s \<leftarrow> on_paging (create_process_page (word_of_int prev_process)) s;
                 let s = s\<lparr>tss_esp0 := kernel_stack_top prev_process\<rparr>;
                 Some (Halt_return (ucast status) child_stack child_base, s) } }"

subsection \<open>execute\<close>

text \<open>How many characters of \<open>exit\<close> the name starts with.\<close>

definition exit_bool :: "u8 list \<Rightarrow> nat" where
  "exit_bool exec_name =
     length (takeWhile (\<lambda>i. exec_name ! i = bytes_of ''exit'' ! i) [0..<4])"

text \<open>The entry of the program, checked to be an executable file; \<open>None\<close> where \<open>execute\<close> returns -1.\<close>

definition exec_dentry :: "frame \<Rightarrow> u8 list \<Rightarrow> kst \<Rightarrow> dentry option option" where
  "exec_dentry fr exec_name s =
     do { (ret, dptr) \<leftarrow> read_dentry_by_name (kview s) (fs s) (lrd exec_name) (Some (frame_dentry fr));
          if ret \<noteq> 0 then Some None
          else
            do { entry \<leftarrow> dptr;
                 if file_type entry \<noteq> 2 then Some None
                 else
                   do { (_, exec_buffer) \<leftarrow>
                          read_data (\<lambda>_. kview s) lwr (fs s) (inode_num entry) 0 4 (frame_exec_buffer fr);
                        if exec_buffer \<noteq> [0x7F, 0x45, 0x4C, 0x46] then Some None else Some (Some entry) } } }"

text \<open>The new process and its place: one of the three shells, or the child of the terminal on display.\<close>

definition new_pid :: "frame \<Rightarrow> kst \<Rightarrow> (int \<times> kst) option" where
  "new_pid fr s =
     (if active_terminal s = -1 then
        do { (pid, s) \<leftarrow> create_process (frame_process fr) (-1) s;
             Some (pid, s\<lparr>active_terminal := 0\<rparr>) }
      else do { t \<leftarrow> get_tmnl (active_terminal s) s; create_process (frame_process fr) (active_process t) s })"

definition place_process :: "int \<Rightarrow> kst \<Rightarrow> kst option" where
  "place_process pid s =
     (if pid = 0 \<or> pid = 1 \<or> pid = 2 then
        do { s \<leftarrow> upd_pb pid (\<lambda>p. p\<lparr>parent := -1\<rparr>) s;
             let s = s\<lparr>exec_terminal := pid\<rparr>;
             upd_tmnl (exec_terminal s) (\<lambda>t. t\<lparr>active_process := pid\<rparr>) s }
      else upd_tmnl (active_terminal s) (\<lambda>t. t\<lparr>active_process := pid\<rparr>) s)"

definition start_program :: "frame \<Rightarrow> dentry \<Rightarrow> int \<Rightarrow> kst \<Rightarrow> (control \<times> kst) option" where
  "start_program fr entry pid s =
     do { s \<leftarrow> place_process pid s;
          s \<leftarrow> on_paging (create_process_page (word_of_int pid)) s;
          (_, entry_buf) \<leftarrow>
            read_data (\<lambda>_. kview s) lwr (fs s) (inode_num entry) ENTRY_OFF 4 (frame_entry_buf fr);
          entry_point \<leftarrow> rd32 (lrd entry_buf) 0;
          (ret, s) \<leftarrow> load_prog (inode_num entry) s;
          if ret \<le> 0 then Some (Returned (-1), s)
          else
            do { s \<leftarrow> upd_pb pid (\<lambda>p. p\<lparr>base_ptr := frame_ebp fr, stack_ptr := frame_esp fr\<rparr>) s;
                 let s = s\<lparr>tss_esp0 := kernel_stack_top pid, tss_ss0 := KERNEL_DS\<rparr>;
                 Some (Enter_user [entry_point, USER_CS, 0x200, USER_ESP, USER_DS], s) } }"

definition run_program :: "frame \<Rightarrow> u8 list \<Rightarrow> kst \<Rightarrow> (control \<times> kst) option" where
  "run_program fr exec_name s =
     do { found \<leftarrow> exec_dentry fr exec_name s;
          case found of
            None \<Rightarrow> Some (Returned (-1), s)
          | Some entry \<Rightarrow>
              do { (pid, s) \<leftarrow> new_pid fr s;
                   if pid = -1 then Some (Returned (-1), s) else start_program fr entry pid s } }"

text \<open>
  The name is a stack array that \<open>parse_cmd\<close> and the loop after it fill completely, so what it held
  does not matter. After \<open>exit\<close> the function goes on only where \<open>halt\<close> has returned, in a base shell.
\<close>

definition execute :: "frame \<Rightarrow> view option \<Rightarrow> kst \<Rightarrow> (control \<times> kst) option" where
  "execute fr command s =
     (case command of
        None \<Rightarrow> Some (Returned (-1), s)
      | Some cmd \<Rightarrow>
          do { (ret, exec_name, s) \<leftarrow> parse_cmd cmd (replicate BUF_SIZE 0) s;
               if ret = -1 then Some (Returned (-1), s)
               else
                 do { exec_name \<leftarrow> for_each [nat ret..<BUF_SIZE]
                        (\<lambda>i nm. arr_set nm (int i) 0x20) exec_name;
                      if exit_bool exec_name = 4 then
                        do { (c, s) \<leftarrow> halt 0 s;
                             case c of
                               Returned _ \<Rightarrow> run_program fr exec_name s
                             | _ \<Rightarrow> Some (c, s) }
                      else run_program fr exec_name s } })"

subsection \<open>getargs, vidmap and the signal calls\<close>

function getargs_loop :: "u8 list \<Rightarrow> nat \<Rightarrow> int \<Rightarrow> nat \<Rightarrow> kst \<Rightarrow> (nat \<times> kst) option" where
  "getargs_loop arg buf nbytes i s =
     (if int i < nbytes then
        do { c \<leftarrow> arr_get arg (int i);
             if c = 0 \<or> c = 0x0A then Some (i, s)
             else do { s \<leftarrow> kput (buf + i) c s; getargs_loop arg buf nbytes (Suc i) s } }
      else Some (i, s))"
  by pat_completeness auto
termination
  by (relation "measure (\<lambda>(arg, buf, nbytes, i, s). nat nbytes - i)") auto

declare getargs_loop.simps [simp del]

definition getargs :: "nat \<Rightarrow> int \<Rightarrow> kst \<Rightarrow> (int \<times> kst) option" where
  "getargs buf nbytes s =
     (if buf = 0 then Some (-1, s)
      else
        do { let nbytes = (if nbytes > BUF_SIZE then BUF_SIZE else nbytes);
             sched \<leftarrow> sched_process s;
             p \<leftarrow> get_pb sched s;
             let par = parent p;
             q \<leftarrow> get_pb par s;
             let arg = argument q;
             c \<leftarrow> arr_get arg 0;
             if c = 0 then Some (-1, s)
             else do { (i, s) \<leftarrow> getargs_loop arg buf nbytes 0 s;
                       s \<leftarrow> kput (buf + i) 0 s;
                       Some (0, s) } })"

definition vidmap :: "nat \<Rightarrow> kst \<Rightarrow> (int \<times> kst) option" where
  "vidmap screen_start s =
     (if screen_start < OFF_128MB \<or> screen_start \<ge> OFF_128MB + OFF_4MB - 4 then Some (-1, s)
      else
        do { let vmem_address = VIDM_ADDR;
             s \<leftarrow> on_paging (vidmap_helper vmem_address) s;
             s \<leftarrow> for_each [0..<4] (\<lambda>i. kput (screen_start + i) (le_bytes vmem_address ! i)) s;
             Some (0, s) })"

definition set_handler :: "kst \<Rightarrow> (int \<times> kst) option" where "set_handler s = Some (-1, s)"
definition sigreturn :: "kst \<Rightarrow> (int \<times> kst) option" where "sigreturn s = Some (-1, s)"

subsection \<open>Dispatch\<close>

text \<open>
  \<open>syscall_wrapper\<close>: the numbers 1 to 10 pass its two signed comparisons, the jump table has the nine
  entries 0 to 8. The number 9 or 10 makes it call the words that follow the table: \<open>None\<close>. The three
  arguments are the words in \<open>ebx\<close>, \<open>ecx\<close> and \<open>edx\<close>, which the wrapper pushed last.
\<close>

definition syscall ::
  "(nat \<Rightarrow> kst \<Rightarrow> kst option) \<Rightarrow> frame \<Rightarrow> u32 \<Rightarrow> u32 \<Rightarrow> u32 \<Rightarrow> u32 \<Rightarrow> kst \<Rightarrow> (control \<times> kst) option" where
  "syscall env fr eax ebx ecx edx s =
     (if sint eax < 1 \<or> sint eax > 10 then Some (Returned (-1), s)
      else if eax = 1 then halt (ucast ebx) s
      else if eax = 2 then
        execute fr (if ebx = 0 then None else Some (\<lambda>i. kview s (unat ebx + i))) s
      else if eax = 3 then returning (sys_read env fr (sint ebx) (unat ecx) (sint edx) s)
      else if eax = 4 then returning (sys_write (sint ebx) (unat ecx) (sint edx) s)
      else if eax = 5 then returning (sys_open fr (\<lambda>i. kview s (unat ebx + i)) s)
      else if eax = 6 then returning (sys_close (sint ebx) s)
      else if eax = 7 then returning (getargs (unat ebx) (sint ecx) s)
      else if eax = 8 then returning (vidmap (unat ebx) s)
      else None)"

end
