(* ===== verification/Syscall_Files.thy ===== *)
theory Syscall_Files
  imports Syscall
begin

text \<open>
  What the file system calls promise: which calls are refused, that \<open>open\<close> and \<open>close\<close> undo each
  other, and that the number of files a process can hold open is that of its free descriptors.
\<close>

lemma cur_fd_access:
  assumes "running s" and "i < 8"
  shows "do { sched \<leftarrow> sched_process s; d \<leftarrow> get_fd sched i s; f d } = f (cur_fd s i)"
  using runningD [OF assms(1)] assms(2) by (simp add: get_fd_in cur_fd_def)

lemma cur_fd_get:
  assumes "running s" and "i < 8"
  shows "sched_process s = Some (int (current s))" "get_fd (int (current s)) i s = Some (cur_fd s i)"
  using runningD [OF assms(1)] assms(2) by (simp_all add: get_fd_in cur_fd_def)

lemma cur_fd_table:
  assumes "running s" and "i < 8" and "fd_flags (cur_fd s i) \<noteq> FD_ABSENT"
  obtains table where "file_operations_table (cur_fd s i) = Some table"
proof -
  note r = runningD [OF assms(1)]
  have "cur_fd s i \<in> set (fd_table (pcb s ! current s))"
    using running_fd_length [OF assms(1)] assms(2) by (simp add: cur_fd_def)
  then show thesis using kernel_ok_pb [OF r(1,3)] assms(3) that by (auto simp: pb_ok_def)
qed

subsection \<open>open and close\<close>

text \<open>The running process with the descriptor \<open>i\<close> replaced.\<close>

definition put_fd :: "nat \<Rightarrow> fd \<Rightarrow> kst \<Rightarrow> kst" where
  "put_fd i d s = s\<lparr>pcb := (pcb s)[current s := (pcb s ! current s)
     \<lparr>fd_table := (fd_table (pcb s ! current s))[i := d]\<rparr>]\<rparr>"

lemma put_fd:
  assumes "running s" and "fd_flags d \<noteq> FD_ABSENT \<longrightarrow> file_operations_table d \<noteq> None"
  shows "running (put_fd i d s)" "current (put_fd i d s) = current s"
    "i < 8 \<Longrightarrow> cur_fd (put_fd i d s) i = d"
    "j < 8 \<Longrightarrow> j \<noteq> i \<Longrightarrow> cur_fd (put_fd i d s) j = cur_fd s j"
    "put_fd i e (put_fd i d s) = put_fd i e s"
proof -
  note r = runningD [OF assms(1)]
  have len: "length (pcb s) = 6" "length (fd_table (pcb s ! current s)) = 8"
    using kernel_okD(2) [OF r(1)] running_fd_length [OF assms(1)] by simp_all
  show "running (put_fd i d s)"
    using kernel_ok_upd_pb [OF r(1) pb_ok_set_fd [OF kernel_ok_pb [OF r(1,3)] assms(2)]] assms(1)
    by (simp add: running_def put_fd_def)
  show c: "current (put_fd i d s) = current s" by (simp add: current_def put_fd_def)
  show "i < 8 \<Longrightarrow> cur_fd (put_fd i d s) i = d" "j < 8 \<Longrightarrow> j \<noteq> i \<Longrightarrow> cur_fd (put_fd i d s) j = cur_fd s j"
    unfolding cur_fd_def c using r(3) len by (simp_all add: put_fd_def)
  show "put_fd i e (put_fd i d s) = put_fd i e s"
    using r(3) len unfolding put_fd_def [of i e "put_fd i d s"] c by (simp add: put_fd_def)
qed

lemma put_fd_frame [simp]:
  "fs (put_fd i d s) = fs s" "fs_image (put_fd i d s) = fs_image s" "mem (put_fd i d s) = mem s"
  "pg (put_fd i d s) = pg s"
  by (simp_all add: put_fd_def fs_image_def fun_eq_iff)

lemma cur_fd_free: "fd_free (pcb s ! current s) i \<longleftrightarrow> fd_flags (cur_fd s i) = FD_ABSENT"
  by (simp add: fd_free_def cur_fd_def)

lemma running_paging:
  assumes "running s"
  obtains prog where "paging_inv prog (pg s)"
  using runningD(1) [OF assms] by (auto simp: kernel_ok_def)

lemma find_name:
  assumes "running s" and "dir_ok (fs_image s) (fs s) ds" and "cstr filename xs"
    and "length (file_name d) = FNAME_SIZE"
  shows "read_dentry_by_name (kview s) (fs s) filename (Some d) =
     (case find (\<lambda>d'. dentry_name d' = xs) ds of
        None \<Rightarrow> Some (-1, Some d)
      | Some cur \<Rightarrow> Some (0, Some (set_dentry cur d)))"
proof -
  obtain prog where "paging_inv prog (pg s)" by (rule running_paging [OF assms(1)])
  then have "dir_ok (kview s) (fs s) ds" by (intro dir_ok_mono [OF fs_image_le assms(2)])
  then show ?thesis by (rule read_dentry_by_name_spec [OF _ assms(3,4)])
qed

text \<open>\<open>open\<close> of a directory or a file.\<close>

lemma sys_open_file:
  assumes "running s" and "dir_ok (fs_image s) (fs s) ds" and "cstr filename xs"
    and "length (file_name (frame_dentry fr)) = FNAME_SIZE"
    and "find (\<lambda>d. dentry_name d = xs) ds = Some cur" and "file_type cur \<in> {1, 2}"
  shows "sys_open fr filename s =
    (case find (\<lambda>i. fd_flags (cur_fd s i) = FD_ABSENT) [2..<8] of
       None \<Rightarrow> Some (-1, s)
     | Some i \<Rightarrow> Some (int i, put_fd i \<lparr>file_operations_table = Some (fileops_table ! unat (file_type cur)),
         inode = inode_num cur, file_position = 0, fd_flags = FD_EXISTS\<rparr> s))"
proof -
  let ?d = "\<lparr>file_operations_table = Some (fileops_table ! unat (file_type cur)),
         inode = inode_num cur, file_position = 0, fd_flags = FD_EXISTS\<rparr>"
  have ty: "unat (file_type cur) < 3" "fileops_table ! unat (file_type cur) \<in> {Dir_ops, File_ops}"
    using assms(6) by (auto simp: fileops_table_def)
  have nm: "read_dentry_by_name (kview s) (fs s) filename (Some (frame_dentry fr)) = Some (0, Some (set_dentry cur (frame_dentry fr)))"
    using find_name [OF assms(1-4)] assms(5) by simp
  have ent: "file_type (set_dentry cur (frame_dentry fr)) = file_type cur"
    "inode_num (set_dentry cur (frame_dentry fr)) = inode_num cur" by (simp_all add: set_dentry_def)
  note add = add_fd_alloc [OF assms(1) ty(1), of "inode_num cur", unfolded fds.alloc_def cur_fd_free]
  show ?thesis
  proof (cases "find (\<lambda>i. fd_flags (cur_fd s i) = FD_ABSENT) [2..<8]")
    case None
    then show ?thesis using nm ent add by (simp add: sys_open_def cur_fd_free del: upt_rec_numeral)
  next
    case (Some i)
    then have i: "2 \<le> i" "i < 8" using find_upt_Some [of "\<lambda>i. fd_flags (cur_fd s i) = FD_ABSENT" 2 8 i] by simp_all
    have put: "s\<lparr>pcb := (pcb s)[current s := fd_fill i (fileops_table ! unat (file_type cur), inode_num cur) (pcb s ! current s)]\<rparr>
        = put_fd i ?d s" by (simp add: fd_fill_def put_fd_def)
    note p = put_fd [OF assms(1), where d = ?d and i = i, simplified]
    have "ops_open (fileops_table ! unat (file_type cur)) t = Some (0, t)" for t
      using ty(2) by (auto simp: ops_open_def dir_open_def file_open_def)
    then show ?thesis
      using nm ent add Some put p(2,3) cur_fd_get [OF p(1) i(2)] i(2)
      by (simp add: sys_open_def cur_fd_free del: upt_rec_numeral)
  qed
qed

lemma sys_close_file:
  assumes "running s" and "2 \<le> i" and "i < 8" and "fd_flags (cur_fd s i) \<noteq> FD_ABSENT"
    and "file_operations_table (cur_fd s i) \<in> {Some Stdin_ops, Some Stdout_ops, Some Dir_ops, Some File_ops}"
  shows "sys_close (int i) s = Some (0, put_fd i ((cur_fd s i)\<lparr>fd_flags := FD_ABSENT\<rparr>) s)"
proof -
  let ?s = "put_fd i ((cur_fd s i)\<lparr>fd_flags := FD_ABSENT\<rparr>) s"
  have rem: "rem_fd (int i) s = Some (0, ?s)"
    using rem_fd_eq [OF assms(1-3)] assms(4) by (simp add: cur_fd_free put_fd_def cur_fd_def [symmetric])
  note p = put_fd [OF assms(1), where d = "(cur_fd s i)\<lparr>fd_flags := FD_ABSENT\<rparr>" and i = i, simplified]
  have "ops_close table t = Some (0, t)" if "file_operations_table (cur_fd s i) = Some table" for table t
    using that assms(5) by (auto simp: ops_close_def terminal_close_def dir_close_def file_close_def)
  then show ?thesis
    using rem p(2,3) cur_fd_get [OF p(1) assms(3)] assms(3,5) by (auto simp: sys_close_def)
qed

lemma sys_close_refused:
  assumes "running s" and "fdn < 2 \<or> 8 \<le> fdn \<or> fd_flags (cur_fd s (nat fdn)) = FD_ABSENT"
  shows "sys_close fdn s = Some (-1, s)"
proof -
  note r = runningD [OF assms(1)]
  have "rem_fd fdn s = Some (-1, s)"
  proof (cases "fdn < 2 \<or> 8 \<le> fdn")
    case True
    then show ?thesis using r by (auto simp: rem_fd_def)
  next
    case False
    then have "fdn = int (nat fdn)" "2 \<le> nat fdn" "nat fdn < 8" by auto
    then show ?thesis using rem_fd_eq [OF assms(1), of "nat fdn"] assms(2) False by (simp add: cur_fd_free)
  qed
  then show ?thesis by (simp add: sys_close_def)
qed

subsection \<open>Properties\<close>

text \<open>C28. \<open>open\<close> and \<open>close\<close> on a file or directory: with a descriptor free, \<open>open\<close> returns the least
  free one, set to the entry's inode at position 0, and no other descriptor changes; \<open>close\<close> of it
  returns 0 and frees it again, touching nothing else; a second \<open>close\<close> is refused with -1; and the
  next \<open>open\<close> gets the same number again.\<close>

theorem open_close_roundtrip:
  assumes "running s" and "dir_ok (fs_image s) (fs s) ds" and "cstr filename xs"
    and "length (file_name (frame_dentry fr)) = FNAME_SIZE"
    and "find (\<lambda>d. dentry_name d = xs) ds = Some cur" and "file_type cur \<in> {1, 2}"
    and "\<exists>i \<in> {2..<8}. fd_flags (cur_fd s i) = FD_ABSENT"
  shows "\<exists>i s1 s2 s3. sys_open fr filename s = Some (int i, s1) \<and> i \<in> {2..<8} \<and>
     fd_flags (cur_fd s i) = FD_ABSENT \<and> (\<forall>j \<in> {2..<i}. fd_flags (cur_fd s j) \<noteq> FD_ABSENT) \<and>
     inode (cur_fd s1 i) = inode_num cur \<and> file_position (cur_fd s1 i) = 0 \<and>
     fd_flags (cur_fd s1 i) = FD_EXISTS \<and> (\<forall>j \<in> {..<8} - {i}. cur_fd s1 j = cur_fd s j) \<and>
     sys_close (int i) s1 = Some (0, s2) \<and> fd_flags (cur_fd s2 i) = FD_ABSENT \<and>
     s2 = put_fd i (cur_fd s2 i) s \<and>
     sys_close (int i) s2 = Some (-1, s2) \<and> sys_open fr filename s2 = Some (int i, s3)"
proof -
  let ?P = "\<lambda>s i. fd_flags (cur_fd s i) = FD_ABSENT"
  let ?table = "fileops_table ! unat (file_type cur)"
  let ?d = "\<lparr>file_operations_table = Some ?table, inode = inode_num cur, file_position = 0, fd_flags = FD_EXISTS\<rparr>"
  let ?e = "?d\<lparr>fd_flags := FD_ABSENT\<rparr>"
  obtain i where i: "find (?P s) [2..<8] = Some i"
    using assms(7) by (cases "find (?P s) [2..<8]") (auto simp: find_None_iff simp del: upt_rec_numeral)
  then have least: "2 \<le> i" "i < 8" "?P s i" "\<forall>j. 2 \<le> j \<and> j < i \<longrightarrow> \<not> ?P s j"
    using find_upt_Some [of "?P s" 2 8 i] by simp_all
  let ?s1 = "put_fd i ?d s" and ?s2 = "put_fd i ?e s"
  note p1 = put_fd [OF assms(1), where d = ?d and i = i, simplified]
    and p2 = put_fd [OF assms(1), where d = ?e and i = i, simplified]
  have "file_operations_table ?d \<in> {Some Stdin_ops, Some Stdout_ops, Some Dir_ops, Some File_ops}"
    using assms(6) by (auto simp: fileops_table_def)
  then have close: "sys_close (int i) ?s1 = Some (0, ?s2)"
    using sys_close_file [OF p1(1) least(1,2)] p1(3,5) least(2) by simp
  have "?P ?s2 i" using p2(3) least(2) by simp
  moreover have "\<forall>j. 2 \<le> j \<and> j < i \<longrightarrow> \<not> ?P ?s2 j" using least(2,4) p2(4) by auto
  ultimately have "find (?P ?s2) [2..<8] = Some i"
    using least(1,2) find_upt_Some [of "?P ?s2" 2 8 i] by blast
  then have again: "sys_open fr filename ?s2 = Some (int i, put_fd i ?d ?s2)"
    using sys_open_file [OF p2(1) _ assms(3-6)] assms(2)
    by (simp del: upt_rec_numeral)
  show ?thesis
    using sys_open_file [OF assms(1-6)] i least close again p1 p2 sys_close_refused [OF p2(1), of "int i"]
    by (intro exI [of _ i] exI [of _ ?s1] exI [of _ ?s2] exI [of _ "put_fd i ?d ?s2"]) simp
qed

text \<open>A stack frame for the concrete instances.\<close>

definition sample_frame :: frame where
  "sample_frame = \<lparr>frame_dentry = sample_dir ! 0, frame_exec_buffer = replicate 4 0,
     frame_entry_buf = replicate 4 0, frame_process = booted_pb PCB_ABSENT, frame_esp = 0x7F9F00,
     frame_ebp = 0x7F9F80\<rparr>"

lemma sample_frame_name: "length (file_name (frame_dentry sample_frame)) = FNAME_SIZE"
  by (simp add: sample_frame_def sample_dir_def)

lemma find_hi: "find (\<lambda>d. dentry_name d = bytes_of ''hi'') sample_dir = Some (sample_dir ! 1)"
  by (simp add: sample_dir_def dentry_name_def bytes_of_def)

lemma reading_kernel_free: "i \<in> {4..<8} \<Longrightarrow> fd_flags (cur_fd reading_kernel i) = FD_ABSENT"
proof -
  assume "i \<in> {4..<8}"
  then have "i = 4 \<or> i = 5 \<or> i = 6 \<or> i = 7" by auto
  then show ?thesis
    by (simp add: cur_fd_def reading_kernel_running(2))
      (auto simp: reading_kernel_def running_kernel_def booted_kernel_def reading_pb_def booted_pb_def blank_fd_def)
qed

theorem open_close_roundtrip_witness:
  "\<exists>i s1 s2. sys_open sample_frame (lrd (bytes_of ''hi'' @ [0])) reading_kernel = Some (int i, s1) \<and>
     sys_close (int i) s1 = Some (0, s2) \<and> sys_close (int i) s2 = Some (-1, s2)"
proof -
  have nm: "cstr (lrd (bytes_of ''hi'' @ [0])) (bytes_of ''hi'')"
    by (rule cstr_array) (simp add: bytes_of_def)
  have ty: "file_type (sample_dir ! 1) \<in> {1, 2}" by (simp add: sample_dir_def)
  have "\<exists>i \<in> {2..<8}. fd_flags (cur_fd reading_kernel i) = FD_ABSENT"
    using reading_kernel_free [of 4] by (intro bexI [of _ 4]) simp_all
  then show ?thesis
    using open_close_roundtrip [OF reading_kernel_running(1) reading_kernel_dir nm sample_frame_name find_hi ty] by blast
qed

text \<open>What the file calls refuse: \<open>open\<close> of a name the directory does not have, and of a file when
  all six descriptors are in use; \<open>close\<close> of standard input and output, of a number outside 2 to 7,
  and of a closed descriptor. Each returns -1 and changes nothing at all.\<close>

theorem open_close_errors:
  assumes "running s" and "dir_ok (fs_image s) (fs s) ds" and "cstr filename xs"
    and "length (file_name (frame_dentry fr)) = FNAME_SIZE"
  shows "(xs \<notin> dentry_name ` set ds \<longrightarrow> sys_open fr filename s = Some (-1, s)) \<and>
    (\<forall>cur. find (\<lambda>d. dentry_name d = xs) ds = Some cur \<and> file_type cur \<in> {1, 2} \<and>
       (\<forall>i \<in> {2..<8}. fd_flags (cur_fd s i) \<noteq> FD_ABSENT) \<longrightarrow> sys_open fr filename s = Some (-1, s)) \<and>
    (fdn < 2 \<or> 8 \<le> fdn \<or> fd_flags (cur_fd s (nat fdn)) = FD_ABSENT \<longrightarrow> sys_close fdn s = Some (-1, s))"
proof (intro conjI allI impI)
  assume "xs \<notin> dentry_name ` set ds"
  then have "find (\<lambda>d'. dentry_name d' = xs) ds = None" by (auto simp: find_None_iff)
  then show "sys_open fr filename s = Some (-1, s)"
    using find_name [OF assms] by (simp add: sys_open_def)
next
  fix cur assume a: "find (\<lambda>d. dentry_name d = xs) ds = Some cur \<and> file_type cur \<in> {1, 2} \<and>
       (\<forall>i \<in> {2..<8}. fd_flags (cur_fd s i) \<noteq> FD_ABSENT)"
  then have "find (\<lambda>i. fd_flags (cur_fd s i) = FD_ABSENT) [2..<8] = None"
    by (auto simp: find_None_iff simp del: upt_rec_numeral)
  then show "sys_open fr filename s = Some (-1, s)"
    using sys_open_file [OF assms] a by (simp del: upt_rec_numeral)
next
  assume "fdn < 2 \<or> 8 \<le> fdn \<or> fd_flags (cur_fd s (nat fdn)) = FD_ABSENT"
  then show "sys_close fdn s = Some (-1, s)" by (rule sys_close_refused [OF assms(1)])
qed

theorem open_close_errors_witness:
  "sys_open sample_frame (lrd (bytes_of ''no'' @ [0])) reading_kernel = Some (-1, reading_kernel) \<and>
   sys_close 7 reading_kernel = Some (-1, reading_kernel)"
proof -
  have nm: "cstr (lrd (bytes_of ''no'' @ [0])) (bytes_of ''no'')"
    by (rule cstr_array) (simp add: bytes_of_def)
  have "bytes_of ''no'' \<notin> dentry_name ` set sample_dir"
    by (simp add: sample_dir_def dentry_name_def bytes_of_def)
  then show ?thesis
    using open_close_errors [OF reading_kernel_running(1) reading_kernel_dir nm sample_frame_name, of 7]
      reading_kernel_free [of 7] by simp
qed

text \<open>The guards of \<open>read\<close> and \<open>write\<close>: a number outside 0 to 7, a null buffer and a closed
  descriptor are refused with -1 and change nothing; any other call goes to the operation of the
  descriptor's table with the caller's buffer and count. Standard output cannot be read, standard
  input, directories and files cannot be written: -1, and nothing changes.\<close>

theorem read_write_guards:
  assumes "running s"
  shows "(fdn < 0 \<or> 8 \<le> fdn \<or> buf = 0 \<or> fd_flags (cur_fd s (nat fdn)) = FD_ABSENT \<longrightarrow>
      sys_read env fr fdn buf nbytes s = Some (-1, s) \<and> sys_write fdn buf nbytes s = Some (-1, s)) \<and>
    (0 \<le> fdn \<and> fdn < 8 \<and> buf \<noteq> 0 \<and> fd_flags (cur_fd s (nat fdn)) \<noteq> FD_ABSENT \<longrightarrow>
      (\<exists>table. file_operations_table (cur_fd s (nat fdn)) = Some table \<and>
        sys_read env fr fdn buf nbytes s = ops_read env (frame_dentry fr) table (nat fdn) buf nbytes s \<and>
        sys_write fdn buf nbytes s = ops_write table buf nbytes s \<and>
        (table = Stdout_ops \<longrightarrow> sys_read env fr fdn buf nbytes s = Some (-1, s)) \<and>
        (table \<in> {Stdin_ops, Dir_ops, File_ops} \<longrightarrow> sys_write fdn buf nbytes s = Some (-1, s))))"
proof (cases "fdn < 0 \<or> 8 \<le> fdn")
  case True
  then show ?thesis by (auto simp: sys_read_def sys_write_def)
next
  case False
  then have i: "nat fdn < 8" by auto
  note d = cur_fd_get [OF assms i]
  show ?thesis
  proof (cases "fd_flags (cur_fd s (nat fdn)) = FD_ABSENT")
    case True
    then show ?thesis using d False by (simp add: sys_read_def sys_write_def)
  next
    case present: False
    obtain table where "file_operations_table (cur_fd s (nat fdn)) = Some table"
      by (rule cur_fd_table [OF assms i present])
    then show ?thesis
      using d False present
      by (auto simp: sys_read_def sys_write_def ops_read_def ops_write_def invalid_op_def dir_write_def file_write_def)
  qed
qed

theorem read_write_guards_witness:
  "sys_write 2 0x8048000 5 reading_kernel = Some (-1, reading_kernel) \<and>
   sys_read (\<lambda>_. Some) sample_frame 9 0x8048000 5 reading_kernel = Some (-1, reading_kernel)"
  using read_write_guards [OF reading_kernel_running(1), of 2 "0x8048000" "\<lambda>_. Some" sample_frame 5]
    read_write_guards [OF reading_kernel_running(1), of 9 "0x8048000" "\<lambda>_. Some" sample_frame 5]
  by (auto simp: reading_kernel_fd open_fd_def)

end
