(* ===== verification/Command.thy ===== *)
theory Command
  imports Syscall_Files
begin

text \<open>
  The command line: \<open>parse_cmd\<close> splits it into the name of the program and its argument, which it
  keeps in the block of the calling process, and \<open>getargs\<close> hands it to the child. \<open>cmd_line\<close> is the
  shape of a line: spaces, the name, and perhaps spaces and an argument.
\<close>

subsection \<open>The loops\<close>

lemma skip_spaces_eq:
  "(\<And>k. k < n \<Longrightarrow> v (i + k) = Some 0x20) \<Longrightarrow> v (i + n) = Some c \<Longrightarrow> c \<noteq> 0x20 \<Longrightarrow> skip_spaces v i = Some (i + n)"
proof (induction n arbitrary: i)
  case 0
  then show ?case by (subst skip_spaces.simps) simp
next
  case (Suc n)
  have "skip_spaces v (Suc i) = Some (Suc i + n)"
    using Suc.prems(1) [of "Suc _"] Suc.prems(2,3) by (intro Suc.IH) simp_all
  then show ?case using Suc.prems(1) [of 0] by (subst skip_spaces.simps) simp
qed

definition name_char :: "u8 \<Rightarrow> bool" where
  "name_char c \<longleftrightarrow> c \<noteq> 0 \<and> c \<noteq> 0x0A \<and> c \<noteq> 0x20"

lemma copy_name_eq:
  assumes "\<And>k. k < length w \<Longrightarrow> v (i + k) = Some (w ! k) \<and> name_char (w ! k)"
    and "v (i + length w) = Some c" and "\<not> name_char c" and "i + length w \<le> 128"
    and "start \<le> i" and "length buf = 128"
  shows "copy_name v start i buf = Some (i + length w, take (i - start) buf @ w @ drop (i - start + length w) buf)"
  using assms
proof (induction w arbitrary: i buf)
  case Nil
  then show ?case by (subst copy_name.simps) (auto simp: name_char_def)
next
  case (Cons a w)
  have a: "v i = Some a" "name_char a" using Cons.prems(1) [of 0] by simp_all
  let ?buf = "buf[i - start := a]"
  have "copy_name v start (Suc i) ?buf
      = Some (Suc i + length w, take (Suc i - start) ?buf @ w @ drop (Suc i - start + length w) ?buf)"
    using Cons.prems(1) [of "Suc _"] Cons.prems(2-6) by (intro Cons.IH) simp_all
  moreover have "take (Suc i - start) ?buf = take (i - start) buf @ [a]"
    using Cons.prems(4-6) by (simp add: Suc_diff_le take_Suc_conv_app_nth)
  moreover have "arr_set buf (int i - int start) a = Some ?buf"
    using Cons.prems(4-6) arr_set_nat [of "i - start" buf a] by (simp add: of_nat_diff)
  ultimately show ?case
    using a Cons.prems(4,5) by (subst copy_name.simps) (simp add: name_char_def Suc_diff_le)
qed

text \<open>A name that fills the buffer leaves no room for its terminator.\<close>

lemma copy_name_full:
  assumes "\<And>k. k < 128 \<Longrightarrow> \<exists>c. v k = Some c \<and> name_char c" and "v 128 = Some c"
  shows "i \<le> 128 \<Longrightarrow> length buf = 128 \<Longrightarrow> \<exists>nm. copy_name v 0 i buf = Some (128, nm) \<and> length nm = 128"
proof (induction "128 - i" arbitrary: i buf)
  case 0
  then show ?case using assms(2) by (subst copy_name.simps) simp
next
  case (Suc n)
  then have "i < 128" by simp
  then obtain d where d: "v i = Some d" "name_char d" using assms(1) by blast
  have "arr_set buf (int i - int 0) d = Some (buf[i := d])"
    using \<open>i < 128\<close> Suc.prems(2) arr_set_nat [of i buf d] by simp
  then show ?case
    using Suc.hyps(1) [of "Suc i" "buf[i := d]"] Suc.hyps(2) Suc.prems(2) d \<open>i < 128\<close>
    by (subst copy_name.simps) (simp add: name_char_def)
qed

lemma long_name_overruns:
  assumes "\<And>k. k < 128 \<Longrightarrow> \<exists>c. v k = Some c \<and> name_char c" and "v 128 = Some c"
  shows "parse_cmd v (replicate 128 0) s = None"
proof -
  obtain d where d: "v 0 = Some d" "name_char d" using assms(1) by force
  have "skip_spaces v 0 = Some 0" using d by (subst skip_spaces.simps) (simp add: name_char_def)
  moreover obtain nm where "copy_name v 0 0 (replicate 128 0) = Some (128, nm)" "length nm = 128"
    using copy_name_full [of v c 0 "replicate 128 0"] assms by auto
  ultimately show ?thesis using d by (simp add: parse_cmd_def name_char_def arr_set_outside)
qed

text \<open>The argument of the running process.\<close>

definition put_arg :: "u8 list \<Rightarrow> kst \<Rightarrow> kst" where
  "put_arg arg s = s\<lparr>pcb := (pcb s)[current s := (pcb s ! current s)\<lparr>argument := arg\<rparr>]\<rparr>"

definition cur_arg :: "kst \<Rightarrow> u8 list" where
  "cur_arg s = argument (pcb s ! current s)"

lemma put_arg:
  assumes "running s" and "length arg = 128"
  shows "running (put_arg arg s)" "current (put_arg arg s) = current s" "cur_arg (put_arg arg s) = arg"
    "put_arg arg' (put_arg arg s) = put_arg arg' s" "put_arg (cur_arg s) s = s"
    "fs_image (put_arg arg s) = fs_image s" "fs (put_arg arg s) = fs s"
proof -
  note r = runningD [OF assms(1)]
  have len: "length (pcb s) = 6" using kernel_okD(2) [OF r(1)] by simp
  have "pb_ok ((pcb s ! current s)\<lparr>argument := arg\<rparr>)"
    using kernel_ok_pb [OF r(1,3)] assms(2) by (simp add: pb_ok_def)
  then show "running (put_arg arg s)"
    using kernel_ok_upd_pb [OF r(1)] assms(1) by (simp add: running_def put_arg_def)
  show c: "current (put_arg arg s) = current s" by (simp add: current_def put_arg_def)
  show "cur_arg (put_arg arg s) = arg" using r(3) len unfolding cur_arg_def c by (simp add: put_arg_def)
  show "put_arg arg' (put_arg arg s) = put_arg arg' s"
    using r(3) len unfolding put_arg_def [of arg' "put_arg arg s"] c by (simp add: put_arg_def)
  show "put_arg (cur_arg s) s = s" by (simp add: put_arg_def cur_arg_def)
qed (simp_all add: put_arg_def fs_image_def fun_eq_iff)

lemma running_arg_length: "running s \<Longrightarrow> length (cur_arg s) = 128"
  using runningD [of s] kernel_ok_pb [of s "current s"] by (simp add: pb_ok_def cur_arg_def)

lemma get_cur_pb:
  "running s \<Longrightarrow> get_pb (int (current s)) s = Some (pcb s ! current s)"
  using runningD [of s] kernel_okD(2) [of s] by (simp add: get_pb_in)

lemma upd_cur_arg:
  "running s \<Longrightarrow> upd_pb (int (current s)) (\<lambda>p. p\<lparr>argument := arg\<rparr>) s = Some (put_arg arg s)"
  using runningD [of s] kernel_okD(2) [of s] by (simp add: upd_pb_in put_arg_def)

lemma copy_arg_eq:
  assumes "v i = Some c" and "c \<noteq> 0" and "c \<noteq> 0x0A" and "\<And>k. k < 128 \<Longrightarrow> v k = Some (g k)"
    and "running s" and "arg_start \<le> j" and "j \<le> 128"
  shows "copy_arg v (int (current s)) i arg_start j s = Some (128,
    put_arg (take (j - arg_start) (cur_arg s) @ map g [j..<128] @ drop (128 - arg_start) (cur_arg s)) s)"
  using assms(5-)
proof (induction "128 - j" arbitrary: j s)
  case 0
  then have "j = 128" by simp
  then show ?case
    using 0 assms(1) put_arg(5) [OF 0(2), of "cur_arg s"] running_arg_length [OF 0(2)]
    by (subst copy_arg.simps) simp
next
  case (Suc n)
  then have j: "j < 128" by simp
  note len = running_arg_length [OF Suc.prems(1)]
  let ?arg = "(cur_arg s)[j - arg_start := g j]" and ?k = "j - arg_start"
  have k: "?k < 128" using j by simp
  then have set: "arr_set (cur_arg s) (int j - int arg_start) (g j) = Some ?arg"
    using arr_set_nat [of ?k "cur_arg s" "g j"] len Suc.prems(2) by (simp add: of_nat_diff)
  note p = put_arg [OF Suc.prems(1), of ?arg, simplified len length_list_update, OF refl]
  have IH: "copy_arg v (int (current s)) i arg_start (Suc j) (put_arg ?arg s) = Some (128,
      put_arg (take (Suc j - arg_start) ?arg @ map g [Suc j..<128] @ drop (128 - arg_start) ?arg) s)"
    using Suc.hyps(1) [of "Suc j" "put_arg ?arg s"] Suc.hyps(2) Suc.prems j p by simp
  have "take (Suc j - arg_start) ?arg @ map g [Suc j..<128] @ drop (128 - arg_start) ?arg
      = take ?k (cur_arg s) @ map g [j..<128] @ drop (128 - arg_start) (cur_arg s)"
    using j Suc.prems(2) k len by (simp add: Suc_diff_le take_Suc_conv_app_nth upt_conv_Cons del: upt_rec_numeral)
  then show ?case
    using IH j set assms(1-3) assms(4) [OF j] Suc.prems(1)
    by (subst copy_arg.simps) (simp add: get_cur_pb upd_cur_arg cur_arg_def [symmetric])
qed

subsection \<open>parse_cmd\<close>

text \<open>
  A line as the terminal delivers it ends with a newline. After the spaces that follow the name the
  newline counts as the start of an argument; directly after the name (\<open>b = 0\<close>) it ends the line.
\<close>

definition cmd_line :: "view \<Rightarrow> nat \<Rightarrow> u8 list \<Rightarrow> nat \<Rightarrow> u8 list \<Rightarrow> bool" where
  "cmd_line v a nm b arg \<longleftrightarrow>
     cstr v (replicate a 0x20 @ nm @ replicate b 0x20 @ arg) \<and> nm \<noteq> [] \<and> (\<forall>c \<in> set nm. name_char c) \<and>
     (arg \<noteq> [] \<longrightarrow> (0 < b \<or> hd arg = 0x0A) \<and> hd arg \<noteq> 0x20) \<and> a + length nm + b + length arg < 128"

lemma cmd_line_chars:
  assumes "cmd_line v a nm b arg"
  shows "k < a \<Longrightarrow> v k = Some 0x20" "k < length nm \<Longrightarrow> v (a + k) = Some (nm ! k) \<and> name_char (nm ! k)"
    "k < b \<Longrightarrow> v (a + length nm + k) = Some 0x20" "k \<le> length arg \<Longrightarrow> v (a + length nm + b + k) = Some ((arg @ [0]) ! k)"
proof -
  let ?line = "replicate a 0x20 @ nm @ replicate b 0x20 @ arg"
  have get: "v k = Some ((?line @ [0]) ! k)" if "k \<le> length ?line" for k
    using cstr_get [OF _ that] assms by (simp add: cmd_line_def)
  show "k < a \<Longrightarrow> v k = Some 0x20" using get [of k] by (simp add: nth_append)
  show "k < length nm \<Longrightarrow> v (a + k) = Some (nm ! k) \<and> name_char (nm ! k)"
    using get [of "a + k"] assms by (simp add: nth_append cmd_line_def)
  show "k < b \<Longrightarrow> v (a + length nm + k) = Some 0x20" using get [of "a + length nm + k"] by (simp add: nth_append)
  show "k \<le> length arg \<Longrightarrow> v (a + length nm + b + k) = Some ((arg @ [0]) ! k)"
    using get [of "a + length nm + b + k"] by (auto simp: nth_append)
qed

lemma parse_name:
  assumes "cmd_line v a nm b arg"
  shows "skip_spaces v 0 = Some a" "v a = Some (hd nm)" "hd nm \<noteq> 0"
    "copy_name v a a (replicate 128 0) = Some (a + length nm, nm @ replicate (128 - length nm) 0)"
    "arr_set (nm @ replicate (128 - length nm) 0) (int (a + length nm) - int a) 0 = Some (nm @ replicate (128 - length nm) 0)"
    "skip_spaces v (a + length nm) = Some (a + length nm + b)"
proof -
  note ch = cmd_line_chars [OF assms]
  have nm: "nm \<noteq> []" "\<forall>c \<in> set nm. name_char c" "length nm < 128" using assms by (auto simp: cmd_line_def)
  then have hd: "hd nm = nm ! 0" "name_char (hd nm)" by (auto simp: hd_conv_nth)
  show hd': "v a = Some (hd nm)" using ch(2) [of 0] nm(1) hd(1) by simp
  then show "skip_spaces v 0 = Some a" "hd nm \<noteq> 0"
    using skip_spaces_eq [of a v 0 "hd nm"] ch(1) hd(2) by (simp_all add: name_char_def)
  obtain c where c: "v (a + length nm) = Some c" "\<not> name_char c"
    using ch(3) [of 0] ch(4) [of 0] assms
    by (cases "b = 0"; cases arg) (auto simp: cmd_line_def name_char_def)
  show "copy_name v a a (replicate 128 0) = Some (a + length nm, nm @ replicate (128 - length nm) 0)"
    using copy_name_eq [OF ch(2) c] assms by (simp add: cmd_line_def)
  show "arr_set (nm @ replicate (128 - length nm) 0) (int (a + length nm) - int a) 0 = Some (nm @ replicate (128 - length nm) 0)"
    using arr_set_nat [of "length nm" "nm @ replicate (128 - length nm) 0" 0] nm(3)
    by (simp add: list_update_append list_update_same_conv)
  have "(arg @ [0]) ! 0 \<noteq> 0x20" using assms by (cases arg) (auto simp: cmd_line_def)
  then show "skip_spaces v (a + length nm) = Some (a + length nm + b)"
    using skip_spaces_eq [of b v "a + length nm"] ch(3) ch(4) [of 0] by (simp add: add.assoc)
qed

text \<open>What the block of the process keeps: the whole rest of the 128 bytes, or only a terminator.\<close>

definition arg_bytes :: "(nat \<Rightarrow> u8) \<Rightarrow> nat \<Rightarrow> nat \<Rightarrow> kst \<Rightarrow> u8 list" where
  "arg_bytes g j b s = (if b = 0 then (cur_arg s)[0 := 0]
     else map g [j..<128] @ 0 # drop (Suc (128 - j)) (cur_arg s))"

definition arg_text :: "nat \<Rightarrow> u8 list \<Rightarrow> u8 list" where
  "arg_text b arg = (if b = 0 then [] else arg)"

lemma length_arg_bytes:
  "running s \<Longrightarrow> j < 128 \<Longrightarrow> 0 < j \<Longrightarrow> length (arg_bytes g j b s) = 128"
  using running_arg_length [of s] by (simp add: arg_bytes_def del: upt_rec_numeral)

lemma parse_cmd_eq:
  assumes "cmd_line v a nm b arg" and "\<And>k. k < 128 \<Longrightarrow> v k = Some (g k)" and "running s"
  shows "parse_cmd v (replicate 128 0) s = Some (int (length nm) + 1, nm @ replicate (128 - length nm) 0,
    if arg = [] then s else put_arg (arg_bytes g (a + length nm + b) b s) s)"
proof -
  let ?i = "a + length nm" and ?j = "a + length nm + b"
  note nm = parse_name [OF assms(1)] and ch = cmd_line_chars [OF assms(1)]
  have sum: "?j + length arg < 128" using assms(1) by (simp add: cmd_line_def)
  consider (none) "arg = []" | (bare) "arg \<noteq> []" "b = 0" | (some) "arg \<noteq> []" "b \<noteq> 0" by blast
  then show ?thesis
  proof cases
    case none
    then show ?thesis using nm ch(4) [of 0] by (simp add: parse_cmd_def Let_def)
  next
    case bare
    then have c: "v ?i = Some 0x0A" using ch(4) [of 0] assms(1) by (cases arg) (auto simp: cmd_line_def)
    then have "copy_arg v (int (current s)) ?i ?i ?i s = Some (?i, s)" by (subst copy_arg.simps) simp
    moreover have "arr_set (argument (pcb s ! current s)) 0 0 = Some ((cur_arg s)[0 := 0])"
      using running_arg_length [OF assms(3)] by (simp add: arr_set_def cur_arg_def)
    ultimately show ?thesis
      using bare nm c runningD(2) [OF assms(3)] get_cur_pb [OF assms(3)] upd_cur_arg [OF assms(3)]
      by (simp add: parse_cmd_def Let_def arg_bytes_def)
  next
    case some
    have "0 \<notin> set arg" using assms(1) by (simp add: cmd_line_def cstr_def)
    then have c0: "v ?j = Some (arg ! 0)" "arg ! 0 \<noteq> 0"
      using ch(4) [of 0] some by (auto simp: nth_append in_set_conv_nth)
    have i: "v ?i = Some 0x20" using ch(3) [of 0] some by simp
    let ?arg = "map g [?j..<128] @ drop (128 - ?j) (cur_arg s)"
    note len = running_arg_length [OF assms(3)]
    have copy: "copy_arg v (int (current s)) ?i ?j ?j s = Some (128, put_arg ?arg s)"
      by (subst copy_arg_eq [where v = v and i = ?i and g = g, OF i]) (use assms(2,3) sum in simp_all)
    have l: "length ?arg = 128" using sum len by simp
    note p = put_arg [OF assms(3) l]
    have "argument (pcb (put_arg ?arg s) ! current s) = ?arg" by (metis cur_arg_def p(2,3))
    then have last: "arr_set (argument (pcb (put_arg ?arg s) ! current s)) (int 128 - int ?j) 0 = Some (?arg[128 - ?j := 0])"
      using arr_set_nat [of "128 - ?j" ?arg 0] l sum assms(1) by (simp add: of_nat_diff cmd_line_def)
    have "128 - ?j < 128" using assms(1) by (auto simp: cmd_line_def)
    then have "?arg[128 - ?j := 0] = arg_bytes g ?j b s"
      using len some by (simp add: arg_bytes_def list_update_append Cons_nth_drop_Suc [symmetric] del: upt_rec_numeral)
    then show ?thesis
      using some nm c0 copy last runningD(2) [OF assms(3)] get_cur_pb [OF p(1)] upd_cur_arg [OF p(1)] p(2,4)
      by (simp add: parse_cmd_def Let_def del: upt_rec_numeral)
  qed
qed

text \<open>The argument as a C string: the line has a zero before byte 128.\<close>

lemma stored_argument:
  assumes "cmd_line v a nm b arg" and "\<And>k. k < 128 \<Longrightarrow> v k = Some (g k)" and "running s" and "arg \<noteq> []"
  shows "cstr (lrd (arg_bytes g (a + length nm + b) b s)) (arg_text b arg)"
proof (cases "b = 0")
  case True
  then show ?thesis using running_arg_length [OF assms(3)] by (simp add: arg_bytes_def arg_text_def cstr_def lrd_def)
next
  case False
  let ?j = "a + length nm + b"
  have sum: "?j + length arg < 128" using assms(1) by (simp add: cmd_line_def)
  have g: "g (?j + k) = (arg @ [0]) ! k" if "k \<le> length arg" for k
    using cmd_line_chars(4) [OF assms(1) that] assms(2) [of "?j + k"] that sum by simp
  have "0 \<notin> set arg" using assms(1) by (simp add: cmd_line_def cstr_def)
  then show ?thesis
    using g sum False by (auto simp: arg_bytes_def arg_text_def cstr_def lrd_def nth_append simp del: upt_rec_numeral)
qed

subsection \<open>getargs\<close>

lemma poke_Cons: "poke (Suc f) bs (m(f := b)) = poke f (b # bs) m"
  by (auto simp: poke_def fun_eq_iff nth_Cons' Suc_diff_le)

lemma poke_snoc: "(poke f bs m)(f + length bs := b) = poke f (bs @ [b]) m"
  by (auto simp: poke_def fun_eq_iff nth_append)

lemma poke_Nil [simp]: "poke f [] m = m"
  by (auto simp: poke_def fun_eq_iff)

text \<open>What \<open>getargs\<close> copies of an argument: its first line, at most \<open>n\<close> bytes.\<close>

definition first_line :: "nat \<Rightarrow> u8 list \<Rightarrow> u8 list" where
  "first_line n arg = takeWhile (\<lambda>c. c \<noteq> 0x0A) (take n arg)"

lemma first_line_nth:
  "i < length (first_line n arg) \<Longrightarrow> i < n \<and> i < length arg \<and> first_line n arg ! i = arg ! i \<and> arg ! i \<noteq> 0x0A"
proof -
  assume i: "i < length (first_line n arg)"
  then have "first_line n arg ! i = take n arg ! i" by (simp add: first_line_def takeWhile_nth)
  moreover have "i < length (take n arg)"
    using i length_takeWhile_le [of "\<lambda>c. c \<noteq> 0x0A" "take n arg"] by (simp add: first_line_def)
  moreover have "first_line n arg ! i \<noteq> 0x0A"
    using nth_mem [OF i] by (auto simp: first_line_def dest: set_takeWhileD)
  ultimately show ?thesis by simp
qed

lemma first_line_end:
  "length (first_line n arg) < n \<Longrightarrow> length (first_line n arg) < length arg \<Longrightarrow> arg ! length (first_line n arg) = 0x0A"
  using nth_length_takeWhile [of "\<lambda>c. c \<noteq> 0x0A" "take n arg"] by (simp add: first_line_def)

lemma getargs_loop_eq:
  assumes "cstr (lrd arr) arg" and "0 \<le> nbytes" and "xs = first_line (nat nbytes) arg"
    and "user_range s pid buf (length xs)" and "i \<le> length xs"
  shows "getargs_loop arr buf nbytes i s =
    Some (length xs, s\<lparr>mem := poke (user_frame pid buf + i) (drop i xs) (mem s)\<rparr>)"
  using assms(4,5)
proof (induction "length xs - i" arbitrary: i s)
  case 0
  then have i: "i = length xs" by simp
  have "arr_get arr (int i) = Some ((arg @ [0]) ! i)" if "i \<le> length arg"
    using cstr_get [OF assms(1) that] arr_get_nat [of i arr] by (auto simp: lrd_def split: if_splits)
  moreover have "i \<le> length arg"
    using length_takeWhile_le [of "\<lambda>c. c \<noteq> 0x0A" "take (nat nbytes) arg"] i by (simp add: assms(3) first_line_def)
  ultimately have get: "arr_get arr (int i) = Some ((arg @ [0]) ! i)" by simp
  have "(arg @ [0]) ! i \<in> {0, 0x0A}" if "int i < nbytes"
    using first_line_end [of "nat nbytes" arg] that i \<open>i \<le> length arg\<close> assms(3)
    by (cases "i = length arg") (auto simp: nth_append)
  then show ?case using get i by (subst getargs_loop.simps) auto
next
  case (Suc k)
  then have i: "i < length xs" by simp
  note ch = first_line_nth [of i "nat nbytes" arg, folded assms(3), OF i]
  have get: "arr_get arr (int i) = Some (xs ! i)" "xs ! i \<noteq> 0" "xs ! i \<noteq> 0x0A"
    using ch cstr_char [OF assms(1), of i] cstr_nonzero [OF assms(1), of i] arr_get_nat [of i arr]
    by (auto simp: lrd_def split: if_splits)
  let ?s = "s\<lparr>mem := (mem s)(user_frame pid buf + i := xs ! i)\<rparr>"
  have "getargs_loop arr buf nbytes (Suc i) ?s =
      Some (length xs, ?s\<lparr>mem := poke (user_frame pid buf + Suc i) (drop (Suc i) xs) (mem ?s)\<rparr>)"
    using Suc.hyps(1) [of "Suc i" ?s] Suc.hyps(2) i Suc.prems(1) by (simp add: user_range_def)
  moreover have "poke (user_frame pid buf + Suc i) (drop (Suc i) xs) (mem ?s) = poke (user_frame pid buf + i) (drop i xs) (mem s)"
    using i poke_Cons [of "user_frame pid buf + i" "drop (Suc i) xs" "mem s" "xs ! i"]
    by (simp add: Cons_nth_drop_Suc)
  ultimately show ?case
    using get ch kput_user [OF Suc.prems(1) i] by (subst getargs_loop.simps) auto
qed

lemma getargs_eq:
  assumes "running s" and "parent (pcb s ! current s) = int par" and "par < 6"
    and "cstr (lrd (argument (pcb s ! par))) arg" and "buf \<noteq> 0" and "0 \<le> nbytes"
    and "xs = first_line (min (nat nbytes) 128) arg" and "user_range s pid buf (length xs + 1)"
  shows "getargs buf nbytes s = (if arg = [] then Some (-1, s)
    else Some (0, s\<lparr>mem := poke (user_frame pid buf) (xs @ [0]) (mem s)\<rparr>))"
proof -
  note r = runningD [OF assms(1)]
  let ?n = "if nbytes > BUF_SIZE then BUF_SIZE else nbytes" and ?arr = "argument (pcb s ! par)"
  have get: "get_pb (int par) s = Some (pcb s ! par)"
    using assms(3) kernel_okD(2) [OF r(1)] by (simp add: get_pb_in)
  have c0: "arr_get ?arr 0 = Some ((arg @ [0]) ! 0)"
    using cstr_get [OF assms(4), of 0] arr_get_nat [of 0 ?arr] by (auto simp: lrd_def split: if_splits)
  have "arg \<noteq> [] \<Longrightarrow> arg ! 0 \<noteq> 0" using cstr_nonzero [OF assms(4), of 0] by simp
  then have zero: "(arg @ [0]) ! 0 = 0 \<longleftrightarrow> arg = []" by (cases arg) auto
  have n: "nat ?n = min (nat nbytes) 128" "0 \<le> ?n" using assms(6) by auto
  have loop: "getargs_loop ?arr buf ?n 0 s = Some (length xs, s\<lparr>mem := poke (user_frame pid buf) xs (mem s)\<rparr>)"
    using getargs_loop_eq [OF assms(4) n(2), of xs s pid buf 0] n(1) assms(7) user_range_less [OF assms(8), of "length xs"]
    by simp
  let ?s = "s\<lparr>mem := poke (user_frame pid buf) xs (mem s)\<rparr>"
  have "user_range ?s pid buf (length xs + 1)" using assms(8) by (simp add: user_range_def)
  then have "kput (buf + length xs) 0 ?s = Some (s\<lparr>mem := poke (user_frame pid buf) (xs @ [0]) (mem s)\<rparr>)"
    using kput_user [of ?s pid buf "length xs + 1" "length xs" 0] by (simp add: poke_snoc)
  then show ?thesis
    using assms(2,5) get c0 zero loop r get_cur_pb [OF assms(1)]
    by (auto simp: getargs_def Let_def)
qed

subsection \<open>Properties\<close>

text \<open>C20. \<open>parse_cmd\<close> on a line of fewer than 128 characters: it returns one more than the length of
  the name, and the buffer holds the name with its terminator, without the spaces before it. With an
  argument, the block of the running process keeps it as a C string; a newline directly after the
  name, as in every line typed without an argument, empties it (\<open>b = 0\<close>); where the line ends with the
  name the whole state is left alone, so the block keeps the argument of an earlier command.\<close>

theorem parse_cmd_splits:
  assumes "cmd_line v a nm b arg" and "\<And>k. k < 128 \<Longrightarrow> v k = Some (g k)" and "running s"
  shows "\<exists>s'. parse_cmd v (replicate 128 0) s =
       Some (int (length nm) + 1, nm @ replicate (128 - length nm) 0, s') \<and>
     (if arg = [] then s' = s
      else \<exists>A. length A = 128 \<and> cstr (lrd A) (if b = 0 then [] else arg) \<and> s' = put_arg A s)"
proof -
  let ?j = "a + length nm + b"
  let ?A = "arg_bytes g ?j b s"
  have "?j < 128" "0 < ?j" using assms(1) by (auto simp: cmd_line_def)
  then have "length ?A = 128" by (rule length_arg_bytes [OF assms(3)])
  then have "\<exists>A. length A = 128 \<and> cstr (lrd A) (if b = 0 then [] else arg) \<and> put_arg ?A s = put_arg A s" if "arg \<noteq> []"
    using stored_argument [OF assms that, unfolded arg_text_def] by blast
  moreover have "parse_cmd v (replicate 128 0) s = Some (int (length nm) + 1, nm @ replicate (128 - length nm) 0,
      if arg = [] then s else put_arg ?A s)"
    by (rule parse_cmd_eq [OF assms(1) _ assms(3)]) (rule assms(2))
  ultimately show ?thesis by (cases "arg = []") auto
qed

text \<open>A line for the concrete instances: \<open>cat hi\<close>.\<close>

definition sample_line :: view where
  "sample_line = lrd (bytes_of ''cat hi'' @ replicate 200 0)"

lemma sample_cmd_line: "cmd_line sample_line 0 (bytes_of ''cat'') 1 (bytes_of ''hi'')"
proof -
  have "cstr sample_line (bytes_of ''cat hi'')"
    using cstr_array [of "bytes_of ''cat hi''" "replicate 199 0"]
    by (simp add: sample_line_def bytes_of_def unfold_replicate [of "num.Bit0 _"])
  then show ?thesis by (auto simp: cmd_line_def bytes_of_def name_char_def)
qed

lemma sample_line_readable: "k < 128 \<Longrightarrow> sample_line k = Some ((bytes_of ''cat hi'' @ replicate 200 0) ! k)"
  by (simp add: sample_line_def lrd_def)

theorem parse_cmd_splits_witness:
  "\<exists>s'. parse_cmd sample_line (replicate 128 0) reading_kernel = Some (4, bytes_of ''cat'' @ replicate 125 0, s')"
  using parse_cmd_splits [OF sample_cmd_line sample_line_readable reading_kernel_running(1)] by auto

text \<open>C21. The argument reaches the child: after \<open>parse_cmd\<close> in a process \<open>p\<close>, \<open>getargs\<close> in a child of
  \<open>p\<close> stores the first line of the argument of the command, at most \<open>nbytes\<close> and 128 bytes of it,
  with a terminator, and returns 0. For a line that ends with the name it is the argument the block
  of \<open>p\<close> had before (\<open>old\<close>), for a newline directly after the name none: -1 only when there is none.\<close>

theorem arguments_reach_child:
  assumes "cmd_line v a nm b arg" and "\<And>k. k < 128 \<Longrightarrow> v k = Some (g k)" and "running s"
    and "cstr (lrd (cur_arg s)) old" and "delivered = (if arg = [] then old else if b = 0 then [] else arg)"
    and "parse_cmd v (replicate 128 0) s = Some (r, name, s1)"
    and "running s2" and "parent (pcb s2 ! current s2) = int (current s)" and "argument (pcb s2 ! current s) = cur_arg s1"
    and "buf \<noteq> 0" and "0 \<le> nbytes" and "xs = first_line (min (nat nbytes) 128) delivered"
    and "user_range s2 pid buf (length xs + 1)"
  shows "getargs buf nbytes s2 = (if delivered = [] then Some (-1, s2)
    else Some (0, s2\<lparr>mem := poke (user_frame pid buf) (xs @ [0]) (mem s2)\<rparr>))"
proof -
  have "cstr (lrd (cur_arg s1)) delivered"
    using parse_cmd_splits [OF assms(1-3)] assms(4-6) put_arg(3) [OF assms(3)] by (auto split: if_splits)
  then show ?thesis
    using getargs_eq [OF assms(7,8) runningD(3) [OF assms(3)] _ assms(10-13)] assms(9) by simp
qed

text \<open>A kernel in which process 3 is the child of process 0 and runs.\<close>

definition child_kernel :: "kst \<Rightarrow> kst" where
  "child_kernel s = s\<lparr>pcb := (pcb s)[3 := (pcb s ! 3)\<lparr>parent := 0, pb_flags := PCB_EXISTS\<rparr>],
     tmnl_block := (tmnl_block s)[0 := (tmnl_block s ! 0)\<lparr>active_process := 3\<rparr>]\<rparr>"

lemma child_kernel:
  assumes "running s" and "exec_terminal s = 0"
  shows "running (child_kernel s)" "current (child_kernel s) = 3"
    "parent (pcb (child_kernel s) ! 3) = 0" "pcb (child_kernel s) ! 0 = pcb s ! 0"
proof -
  note r = runningD [OF assms(1)]
  have len: "length (pcb s) = 6" "length (tmnl_block s) = 3" using kernel_okD [OF r(1)] by simp_all
  have "pb_ok ((pcb s ! 3)\<lparr>parent := 0, pb_flags := PCB_EXISTS\<rparr>)"
    using kernel_ok_pb [OF r(1), of 3] by (simp add: pb_ok_def)
  then have "kernel_ok (s\<lparr>pcb := (pcb s)[3 := (pcb s ! 3)\<lparr>parent := 0, pb_flags := PCB_EXISTS\<rparr>]\<rparr>)"
    by (rule kernel_ok_upd_pb [OF r(1)])
  then have "kernel_ok (child_kernel s)"
    using kernel_ok_upd_tmnl [of _ 0 "\<lambda>t. t\<lparr>active_process := 3\<rparr>"] kernel_ok_tmnl [OF r(1), of 0]
    by (fastforce simp: child_kernel_def tmnl_ok_def)
  then show "running (child_kernel s)" using assms(2) len by (simp add: running_def child_kernel_def)
  show "current (child_kernel s) = 3" using assms(2) len by (simp add: current_def child_kernel_def)
  show "parent (pcb (child_kernel s) ! 3) = 0" "pcb (child_kernel s) ! 0 = pcb s ! 0"
    using len by (simp_all add: child_kernel_def)
qed

theorem arguments_reach_child_witness:
  "\<exists>s1. parse_cmd sample_line (replicate 128 0) reading_kernel = Some (4, bytes_of ''cat'' @ replicate 125 0, s1) \<and>
     getargs 0x8048000 32 (child_kernel s1) = Some (0, (child_kernel s1)
       \<lparr>mem := poke 0x848000 (bytes_of ''hi'' @ [0]) (mem (child_kernel s1))\<rparr>)"
proof -
  note run = reading_kernel_running
  obtain A where A: "length A = 128"
    "parse_cmd sample_line (replicate 128 0) reading_kernel = Some (4, bytes_of ''cat'' @ replicate 125 0, put_arg A reading_kernel)"
    using parse_cmd_splits [OF sample_cmd_line sample_line_readable run(1)] by (auto simp: bytes_of_def)
  let ?s1 = "put_arg A reading_kernel"
  note p = put_arg [OF run(1) A(1)]
  have e: "exec_terminal ?s1 = 0"
    by (simp add: put_arg_def reading_kernel_def running_kernel_def booted_kernel_def)
  note ch = child_kernel [OF p(1) e]
  have old: "cstr (lrd (cur_arg reading_kernel)) []"
    by (simp add: cur_arg_def run(2)) (simp add: reading_kernel_def running_kernel_def booted_kernel_def
        reading_pb_def booted_pb_def cstr_def lrd_def)
  have arg: "argument (pcb (child_kernel ?s1) ! current reading_kernel) = cur_arg ?s1"
    using ch(4) p(2) by (simp add: run(2) cur_arg_def)
  have xs: "first_line (min (nat 32) 128) (bytes_of ''hi'') = bytes_of ''hi''"
    by (simp add: first_line_def bytes_of_def)
  have "pg (child_kernel ?s1) = pg reading_kernel" by (simp add: child_kernel_def put_arg_def)
  then have range: "user_range (child_kernel ?s1) 0 0x8048000 (length (bytes_of ''hi'') + 1)"
    using reading_kernel_range [of 3] by (simp add: user_range_def)
  have "getargs 0x8048000 32 (child_kernel ?s1) = (if bytes_of ''hi'' = [] then Some (-1, child_kernel ?s1)
    else Some (0, (child_kernel ?s1)\<lparr>mem := poke (user_frame 0 0x8048000) (bytes_of ''hi'' @ [0]) (mem (child_kernel ?s1))\<rparr>))"
    using arguments_reach_child [OF sample_cmd_line sample_line_readable run(1) old _ A(2) ch(1), of "bytes_of ''hi''"
        "0x8048000" 32 "bytes_of ''hi''" 0] arg ch(2,3) xs range run(2)
    by (simp add: bytes_of_def)
  then show ?thesis using A(2) by (auto simp: bytes_of_def user_frame_def)
qed

end
