(* ===== verification/Execute.thy ===== *)
theory Execute
  imports Command
begin

text \<open>
  Starting and ending programs. The lemmas follow \<open>execute\<close> through its stages (the checks on the
  file, the new process, its page, the loaded image, the return to user level) and \<open>halt\<close> back to
  the \<open>execute\<close> that is waiting in the parent, and put the two together: a program that is executed
  and halts brings the terminal, the page tables and the kernel stack back to the parent.
\<close>

subsection \<open>The checks on the file\<close>

lemma read_data_array:
  assumes "file_ok v vars (unat inum) bytes" and "offset div BLOCK_SIZE < INODE_DB"
    and "unat len = length buf" and "unat offset + length buf \<le> length bytes"
  shows "read_data (\<lambda>_. v) lwr vars inum offset len buf =
    Some (int (length buf), take (length buf) (drop (unat offset) bytes))"
proof -
  let ?part = "take (length buf) (drop (unat offset) bytes)"
  have l: "length ?part = length buf" using assms(4) by simp
  have "put_bytes lwr 0 ?part buf = Some ?part"
    using put_bytes_lwr [of 0 ?part buf] l by simp
  moreover have "v |` UNIV = v" by (simp add: restrict_map_def)
  ultimately show ?thesis
    using array_image.read_data_eq [where v = v and m = buf and fs = vars and inode = inum and bytes = bytes
        and offset = offset and len = len] assms(1-3) l
    by (simp add: Let_def not_le [symmetric])
qed

definition elf_magic :: "u8 list" where
  "elf_magic = [0x7F, 0x45, 0x4C, 0x46]"

definition frame_ok :: "frame \<Rightarrow> bool" where
  "frame_ok fr \<longleftrightarrow> length (file_name (frame_dentry fr)) = FNAME_SIZE \<and>
     length (frame_exec_buffer fr) = 4 \<and> length (frame_entry_buf fr) = 4 \<and>
     length (fd_table (frame_process fr)) = FDT_SIZE \<and> length (argument (frame_process fr)) = BUF_SIZE"

lemma fs_image_kview_le: "kernel_ok s \<Longrightarrow> fs_image s \<subseteq>\<^sub>m kview s"
  using fs_image_le by (auto simp: kernel_ok_def)

lemma exec_dentry_missing:
  assumes "kernel_ok s" and "frame_ok fr" and "dir_ok (fs_image s) (fs s) ds" and "cstr (lrd exec_name) nm"
    and "case find (\<lambda>d. dentry_name d = nm) ds of None \<Rightarrow> True | Some cur \<Rightarrow> file_type cur \<noteq> 2"
  shows "exec_dentry fr exec_name s = Some None"
proof -
  have dir: "dir_ok (kview s) (fs s) ds" by (rule dir_ok_mono [OF fs_image_kview_le [OF assms(1)] assms(3)])
  show ?thesis
    using read_dentry_by_name_spec [OF dir assms(4), of "frame_dentry fr"] assms(2,5)
    by (auto simp: exec_dentry_def frame_ok_def set_dentry_def split: option.splits)
qed

lemma exec_dentry_eq:
  assumes "kernel_ok s" and "frame_ok fr" and "dir_ok (fs_image s) (fs s) ds" and "cstr (lrd exec_name) nm"
    and "find (\<lambda>d. dentry_name d = nm) ds = Some cur" and "file_type cur = 2"
    and "file_ok (fs_image s) (fs s) (unat (inode_num cur)) bytes" and "4 \<le> length bytes"
  shows "exec_dentry fr exec_name s =
    Some (if take 4 bytes = elf_magic then Some (set_dentry cur (frame_dentry fr)) else None)"
proof -
  note le = fs_image_kview_le [OF assms(1)]
  have dir: "dir_ok (kview s) (fs s) ds" by (rule dir_ok_mono [OF le assms(3)])
  have ok: "file_ok (kview s) (fs s) (unat (inode_num cur)) bytes" by (rule file_ok_mono [OF le assms(7)])
  have "read_data (\<lambda>_. kview s) lwr (fs s) (inode_num cur) 0 4 (frame_exec_buffer fr) = Some (4, take 4 bytes)"
    using read_data_array [OF ok, of 0 4 "frame_exec_buffer fr"] assms(2,8) by (simp add: frame_ok_def)
  then show ?thesis
    using read_dentry_by_name_spec [OF dir assms(4), of "frame_dentry fr"] assms(2,5,6)
    by (simp add: exec_dentry_def frame_ok_def set_dentry_def elf_magic_def)
qed

subsection \<open>The new process\<close>

lemma pb_ok_fresh:
  assumes "frame_ok fr" and "-1 \<le> par" and "par < 6"
  shows "pb_ok (fresh_pb (frame_process fr) par)"
proof -
  have "length (fd_table (fresh_pb (frame_process fr) par)) = 8"
    using assms(1) by (simp add: fresh_pb_def frame_ok_def)
  moreover have "\<forall>d \<in> set (fd_table (fresh_pb (frame_process fr) par)).
      fd_flags d \<noteq> FD_ABSENT \<longrightarrow> file_operations_table d \<noteq> None"
    by (auto simp: fresh_pb_def stdin_fd_def stdout_fd_def)
  ultimately show ?thesis using assms by (simp add: pb_ok_def fresh_pb_def frame_ok_def)
qed

text \<open>The process on display.\<close>

definition shown :: "kst \<Rightarrow> int" where
  "shown s = active_process (tmnl_block s ! nat (active_terminal s))"

lemma shown_range: "kernel_ok s \<Longrightarrow> -1 \<le> shown s \<and> shown s < 6"
  using kernel_okD [of s] kernel_ok_tmnl [of s "nat (active_terminal s)"]
  by (auto simp: shown_def tmnl_ok_def)

definition with_process :: "frame \<Rightarrow> nat \<Rightarrow> kst \<Rightarrow> kst" where
  "with_process fr pid s = s\<lparr>pcb := (pcb s)[pid := fresh_pb (frame_process fr) (shown s)]\<rparr>"

lemma new_pid_eq:
  assumes "kernel_ok s" and "frame_ok fr"
  shows "new_pid fr s = (case find (pcb_free (pcb s)) [0..<6] of
      None \<Rightarrow> Some (-1, s) | Some i \<Rightarrow> Some (int i, with_process fr i s))"
proof -
  note ok = kernel_okD [OF assms(1)]
  have ex: "(fresh_pb (frame_process fr) (shown s))\<lparr>pb_flags := PCB_EXISTS\<rparr> = fresh_pb (frame_process fr) (shown s)"
    by (simp add: fresh_pb_def)
  have "new_pid fr s = create_process (frame_process fr) (shown s) s"
    using ok by (simp add: new_pid_def shown_def get_tmnl_in)
  also have "\<dots> = (case find (pcb_free (pcb s)) [0..<6] of
      None \<Rightarrow> Some (-1, s) | Some i \<Rightarrow> Some (int i, with_process fr i s))"
    using create_process_alloc [OF assms(1), of "frame_process fr" "shown s"] assms(2) ex
    by (cases "find (pcb_free (pcb s)) [0..<6]")
      (simp_all add: frame_ok_def procs.alloc_def pcb_fill_def with_process_def del: upt_rec_numeral)
  finally show ?thesis .
qed

text \<open>The three shells have no parent and each its own terminal.\<close>

definition home_terminal :: "nat \<Rightarrow> kst \<Rightarrow> nat" where
  "home_terminal pid s = (if pid < 3 then pid else nat (active_terminal s))"

definition placed :: "nat \<Rightarrow> kst \<Rightarrow> kst" where
  "placed pid s = s\<lparr>
     tmnl_block := (tmnl_block s)[home_terminal pid s := (tmnl_block s ! home_terminal pid s)\<lparr>active_process := int pid\<rparr>],
     exec_terminal := (if pid < 3 then int pid else exec_terminal s),
     pcb := (if pid < 3 then (pcb s)[pid := (pcb s ! pid)\<lparr>parent := -1\<rparr>] else pcb s)\<rparr>"

lemma place_process_eq:
  assumes "kernel_ok s" and "pid < 6"
  shows "place_process (int pid) s = Some (placed pid s)" "kernel_ok (placed pid s)"
proof -
  note ok = kernel_okD [OF assms(1)]
  have shell: "int pid = 0 \<or> int pid = 1 \<or> int pid = 2 \<longleftrightarrow> pid < 3" by linarith
  show "place_process (int pid) s = Some (placed pid s)"
    unfolding place_process_def shell using ok assms(2)
    by (simp add: placed_def home_terminal_def upd_pb_in upd_tmnl_in)
  have home: "home_terminal pid s < 3" using ok by (auto simp: home_terminal_def)
  then have "tmnl_ok (home_terminal pid s) ((tmnl_block s ! home_terminal pid s)\<lparr>active_process := int pid\<rparr>)"
    using kernel_ok_tmnl [OF assms(1)] assms(2) by (simp add: tmnl_ok_def)
  moreover have "pb_ok ((pcb s ! pid)\<lparr>parent := -1\<rparr>)"
    using kernel_ok_pb [OF assms] by (simp add: pb_ok_def)
  ultimately show "kernel_ok (placed pid s)"
    using assms home set_update_subset_insert [of "pcb s" pid "(pcb s ! pid)\<lparr>parent := -1\<rparr>"]
    by (auto simp: placed_def kernel_ok_def screen_ok_def nth_list_update)
qed

subsection \<open>Loading and entering the program\<close>

lemma process_page:
  assumes "kernel_ok s" and "pid < 6"
  shows "\<exists>p. on_paging (create_process_page (word_of_nat pid)) s = Some (s\<lparr>pg := p\<rparr>) \<and>
     paging_inv (Some pid) p \<and> kernel_ok (s\<lparr>pg := p\<rparr>)"
proof -
  obtain prog where "paging_inv prog (pg s)" using assms(1) by (auto simp: kernel_ok_def)
  then obtain p where p: "create_process_page (word_of_nat pid) (pg s) = Some p" "paging_inv (Some pid) p"
    using paging_inv_process [OF _ assms(2)] by blast
  have "kernel_ok (s\<lparr>pg := p\<rparr>)" using assms(1) p(2) by (auto simp: kernel_ok_def screen_ok_def)
  with p show ?thesis by (auto simp: on_paging_def)
qed

text \<open>Where the image of a program starts, and how long it can be before the page ends.\<close>

abbreviation PROGRAM_START :: nat where "PROGRAM_START \<equiv> 0x8048000"
abbreviation PROGRAM_MAX :: nat where "PROGRAM_MAX \<equiv> 0x3B8000"

definition entry_word :: "u8 list \<Rightarrow> u32" where
  "entry_word bytes = le32 (bytes ! 24) (bytes ! 25) (bytes ! 26) (bytes ! 27)"

text \<open>The state in which a program starts: everything \<open>start_program\<close> has set.\<close>

definition entered :: "frame \<Rightarrow> nat \<Rightarrow> u8 list \<Rightarrow> paging \<Rightarrow> kst \<Rightarrow> kst" where
  "entered fr pid bytes p s =
     (let t = placed pid s
      in t\<lparr>pg := p, mem := poke (user_frame pid PROGRAM_START) bytes (mem s),
           pcb := (pcb t)[pid := (pcb t ! pid)\<lparr>base_ptr := frame_ebp fr, stack_ptr := frame_esp fr\<rparr>],
           tss_esp0 := kernel_stack_top (int pid), tss_ss0 := KERNEL_DS\<rparr>)"

lemma load_prog_eq:
  assumes "file_ok (fs_image s) (fs s) (unat inum) bytes" and "length bytes \<le> PROGRAM_MAX"
    and "paging_inv (Some pid) (pg s)"
  shows "load_prog inum s = Some (int (length bytes), s\<lparr>mem := poke (user_frame pid PROGRAM_START) bytes (mem s)\<rparr>)"
proof -
  have "program_start (pg s) = PROGRAM_START" using assms(3) by (simp add: paging_inv_def)
  moreover have "user_range s pid PROGRAM_START (length bytes)" using assms(2,3) by (simp add: user_range_def)
  ultimately show ?thesis
    using read_data_mem_eq [OF assms(1), of 0 bytes OFF_4MB pid PROGRAM_START] assms(2) by (simp add: load_prog_def)
qed

lemma start_program_eq:
  assumes "kernel_ok s" and "frame_ok fr" and "pid < 6"
    and "file_ok (fs_image s) (fs s) (unat (inode_num entry)) bytes"
    and "28 \<le> length bytes" and "length bytes \<le> PROGRAM_MAX"
  shows "\<exists>p. start_program fr entry (int pid) s =
       Some (Enter_user [entry_word bytes, USER_CS, 0x200, USER_ESP, USER_DS], entered fr pid bytes p s) \<and>
     paging_inv (Some pid) p \<and> kernel_ok (entered fr pid bytes p s)"
proof -
  let ?t = "placed pid s"
  note place = place_process_eq [OF assms(1,3)]
  obtain p where p: "on_paging (create_process_page (word_of_nat pid)) ?t = Some (?t\<lparr>pg := p\<rparr>)"
    "paging_inv (Some pid) p" "kernel_ok (?t\<lparr>pg := p\<rparr>)"
    using process_page [OF place(2) assms(3)] by blast
  let ?u = "?t\<lparr>pg := p\<rparr>"
  have img: "fs_image ?u = fs_image s" "fs ?u = fs s" "mem ?u = mem s"
    by (simp_all add: fs_image_def placed_def fun_eq_iff)
  have ok: "file_ok (kview ?u) (fs ?u) (unat (inode_num entry)) bytes"
    using file_ok_mono [OF fs_image_kview_le [OF p(3)]] assms(4) unfolding img by blast
  have "read_data (\<lambda>_. kview ?u) lwr (fs ?u) (inode_num entry) ENTRY_OFF 4 (frame_entry_buf fr)
      = Some (4, take 4 (drop 24 bytes))"
    using read_data_array [OF ok, of ENTRY_OFF 4 "frame_entry_buf fr"] assms(2,5)
    by (simp add: frame_ok_def word_less_nat_alt unat_div)
  moreover have "rd32 (lrd (take 4 (drop 24 bytes))) 0 = Some (entry_word bytes)"
    using assms(5) by (simp add: rd32_def lrd_def entry_word_def)
  moreover have "load_prog (inode_num entry) ?u = Some (int (length bytes),
      ?u\<lparr>mem := poke (user_frame pid PROGRAM_START) bytes (mem s)\<rparr>)"
    using load_prog_eq [of ?u "inode_num entry" bytes pid] assms(4,6) p(2) by (simp add: img)
  moreover have w: "(word_of_int (int pid) :: u32) = word_of_nat pid" by simp
  moreover have "length (pcb ?t) = 6" using kernel_okD(2) [OF place(2)] .
  moreover have ne: "bytes \<noteq> []" using assms(5) by auto
  ultimately have run: "start_program fr entry (int pid) s =
       Some (Enter_user [entry_word bytes, USER_CS, 0x200, USER_ESP, USER_DS], entered fr pid bytes p s)"
    using place(1) p(1) assms(3) ne
    by (simp add: start_program_def upd_pb_in entered_def Let_def)
  have "pb_ok ((pcb ?t ! pid)\<lparr>base_ptr := frame_ebp fr, stack_ptr := frame_esp fr\<rparr>)"
    using kernel_ok_pb [OF place(2) assms(3)] by (simp add: pb_ok_def)
  then have "kernel_ok (?u\<lparr>pcb := (pcb ?u)[pid := (pcb ?t ! pid)\<lparr>base_ptr := frame_ebp fr, stack_ptr := frame_esp fr\<rparr>]\<rparr>)"
    by (rule kernel_ok_upd_pb [OF p(3)])
  then have "kernel_ok (entered fr pid bytes p s)"
    by (simp add: entered_def Let_def kernel_ok_def screen_ok_def)
  with run p(2) show ?thesis by blast
qed

subsection \<open>execute\<close>

definition is_exit :: "u8 list \<Rightarrow> bool" where
  "is_exit nm \<longleftrightarrow> take 4 nm = bytes_of ''exit''"

text \<open>The name as \<open>execute\<close> leaves it in its array: the terminator, then spaces.\<close>

definition padded_name :: "u8 list \<Rightarrow> u8 list" where
  "padded_name nm = nm @ 0 # replicate (127 - length nm) 0x20"

lemma fill_spaces:
  assumes "length nm < 128"
  shows "for_each [nat (int (length nm) + 1)..<128] (\<lambda>i b. arr_set b (int i) 0x20) (nm @ replicate (128 - length nm) 0)
    = Some (padded_name nm)"
proof -
  let ?b = "nm @ replicate (128 - length nm) 0"
  have "\<exists>b. for_each [Suc (length nm)..<128] (\<lambda>i b. arr_set b (int i) 0x20) ?b = Some b \<and>
      b = nm @ 0 # replicate (128 - Suc (length nm)) 0x20 @ replicate (128 - 128) 0"
  proof (rule for_each_upt [where P = "\<lambda>i b. b = nm @ 0 # replicate (i - Suc (length nm)) 0x20 @ replicate (128 - i) 0"])
    show "?b = nm @ 0 # replicate (Suc (length nm) - Suc (length nm)) 0x20 @ replicate (128 - Suc (length nm)) 0"
      using assms by (simp add: Suc_diff_Suc flip: replicate_Suc)
    fix i b assume i: "Suc (length nm) \<le> i" "i < 128"
      and b: "b = nm @ 0 # replicate (i - Suc (length nm)) 0x20 @ replicate (128 - i) 0"
    have z: "replicate (128 - i) (0 :: u8) = 0 # replicate (128 - Suc i) 0"
      using i(2) by (simp add: Suc_diff_Suc flip: replicate_Suc)
    have "b[i := 0x20] = nm @ 0 # replicate (i - Suc (length nm)) 0x20 @ 0x20 # replicate (128 - Suc i) 0"
      unfolding b z using i by (auto simp: list_update_append split: nat.split)
    also have "\<dots> = nm @ 0 # replicate (Suc i - Suc (length nm)) 0x20 @ replicate (128 - Suc i) 0"
    proof -
      have "Suc i - Suc (length nm) = Suc (i - Suc (length nm))" using i by simp
      then show ?thesis by (simp only: replicate_app_Cons_same [symmetric] replicate_Suc append_Cons replicate_append_same)
    qed
    finally show "\<exists>b'. arr_set b (int i) 0x20 = Some b' \<and>
        b' = nm @ 0 # replicate (Suc i - Suc (length nm)) 0x20 @ replicate (128 - Suc i) 0"
      using arr_set_nat [of i b "0x20"] i b by simp
  qed (use assms in simp)
  then show ?thesis using assms by (simp add: padded_name_def nat_add_distrib Suc_diff_Suc)
qed

lemma exit_bool_iff: "exit_bool (padded_name nm) = 4 \<longleftrightarrow> is_exit nm"
proof -
  let ?P = "\<lambda>i. padded_name nm ! i = bytes_of ''exit'' ! i"
  have whole: "takeWhile P xs = xs \<longleftrightarrow> length (takeWhile P xs) = length xs" for P and xs :: "nat list"
    by (induction xs) auto
  have "exit_bool (padded_name nm) = 4 \<longleftrightarrow> takeWhile ?P [0..<4] = [0..<4]"
    using whole [of ?P "[0..<4]"] by (simp add: exit_bool_def del: upt_rec_numeral)
  also have "\<dots> \<longleftrightarrow> (\<forall>i < 4. ?P i)" by (auto simp: takeWhile_eq_all_conv simp del: upt_rec_numeral)
  also have "\<dots> \<longleftrightarrow> is_exit nm"
  proof (cases "4 \<le> length nm")
    case True
    then show ?thesis
      by (auto simp: is_exit_def padded_name_def nth_append list_eq_iff_nth_eq)
  next
    case False
    have "bytes_of ''exit'' ! length nm \<noteq> 0"
    proof -
      have "length nm = 0 \<or> length nm = 1 \<or> length nm = 2 \<or> length nm = 3" using False by linarith
      then show ?thesis by (elim disjE) (simp_all add: bytes_of_def)
    qed
    then have "\<not> ?P (length nm)" by (simp add: padded_name_def nth_append)
    moreover have "\<not> is_exit nm" using False arg_cong [of "take 4 nm" "bytes_of ''exit''" length] by (auto simp: is_exit_def)
    ultimately show ?thesis using False by (auto intro!: exI [of _ "length nm"])
  qed
  finally show ?thesis .
qed

text \<open>What \<open>parse_cmd\<close> may have changed: the argument of the running process.\<close>

definition argued :: "kst \<Rightarrow> kst \<Rightarrow> bool" where
  "argued s s1 \<longleftrightarrow> s1 = s \<or> (\<exists>A. length A = 128 \<and> s1 = put_arg A s)"

lemma argued:
  assumes "running s" and "argued s s1"
  shows "running s1" "current s1 = current s" "fs_image s1 = fs_image s" "fs s1 = fs s" "mem s1 = mem s"
    "shown s1 = shown s" "tmnl_block s1 = tmnl_block s" "exec_terminal s1 = exec_terminal s"
    "active_terminal s1 = active_terminal s" "i \<noteq> current s \<Longrightarrow> pcb s1 ! i = pcb s ! i"
    "pcb_free (pcb s1) = pcb_free (pcb s)" "pg s1 = pg s"
    "\<exists>A. pcb s1 ! current s = (pcb s ! current s)\<lparr>argument := A\<rparr>"
proof -
  note r = runningD [OF assms(1)]
  have "length (pcb s) = 6" using kernel_okD(2) [OF r(1)] .
  then have pcb: "(\<exists>A. pcb (put_arg A s) ! current s = (pcb s ! current s)\<lparr>argument := A\<rparr>) \<and>
      pcb_free (pcb (put_arg A s)) = pcb_free (pcb s)" for A
    using r(3) by (auto simp: put_arg_def pcb_free_def fun_eq_iff nth_list_update)
  have same: "\<exists>A. pcb s ! current s = (pcb s ! current s)\<lparr>argument := A\<rparr>"
    by (rule exI [of _ "argument (pcb s ! current s)"]) simp
  show "running s1" "current s1 = current s" "fs_image s1 = fs_image s" "fs s1 = fs s"
    using assms put_arg [OF assms(1)] by (auto simp: argued_def)
  show "mem s1 = mem s" "shown s1 = shown s" "tmnl_block s1 = tmnl_block s" "exec_terminal s1 = exec_terminal s"
    "active_terminal s1 = active_terminal s" "i \<noteq> current s \<Longrightarrow> pcb s1 ! i = pcb s ! i" "pg s1 = pg s"
    using assms(2) by (auto simp: argued_def put_arg_def shown_def)
  show "pcb_free (pcb s1) = pcb_free (pcb s)"
    using assms(2) pcb by (auto simp: argued_def)
  show "\<exists>A. pcb s1 ! current s = (pcb s ! current s)\<lparr>argument := A\<rparr>"
    using assms(2) same \<open>length (pcb s) = 6\<close> r(3) by (auto simp: argued_def put_arg_def)
qed

definition kept_argument :: "nat \<Rightarrow> u8 list \<Rightarrow> kst \<Rightarrow> bool" where
  "kept_argument b arg s \<longleftrightarrow> (arg \<noteq> [] \<longrightarrow> cstr (lrd (cur_arg s)) (arg_text b arg))"

lemma parse_cmd_argued:
  assumes "cmd_line v a nm b arg" and "\<And>k. k < 128 \<Longrightarrow> v k = Some (g k)" and "running s"
  shows "\<exists>s1. argued s s1 \<and> kept_argument b arg s1 \<and> parse_cmd v (replicate 128 0) s =
    Some (int (length nm) + 1, nm @ replicate (128 - length nm) 0, s1)"
proof -
  let ?A = "arg_bytes g (a + length nm + b) b s"
  define s1 where "s1 = (if arg = [] then s else put_arg ?A s)"
  have parse: "parse_cmd v (replicate 128 0) s = Some (int (length nm) + 1, nm @ replicate (128 - length nm) 0, s1)"
    unfolding s1_def by (rule parse_cmd_eq [OF assms(1) _ assms(3)]) (rule assms(2))
  have "a + length nm + b < 128" "0 < a + length nm + b" using assms(1) by (auto simp: cmd_line_def)
  then have "length ?A = 128" by (rule length_arg_bytes [OF assms(3)])
  then have "argued s s1" unfolding argued_def s1_def by (cases "arg = []") (simp, simp only: if_False, blast)
  moreover have "kept_argument b arg s1"
    using stored_argument [OF assms(1) _ assms(3), of g] assms(2) put_arg(3) [OF assms(3) \<open>length ?A = 128\<close>]
    by (simp add: kept_argument_def s1_def)
  ultimately show ?thesis using parse by blast
qed

lemma execute_parsed:
  assumes "cmd_line v a nm b arg" and "\<And>k. k < 128 \<Longrightarrow> v k = Some (g k)" and "running s" and "\<not> is_exit nm"
  shows "\<exists>s1. argued s s1 \<and> kept_argument b arg s1 \<and> execute fr (Some v) s = run_program fr (padded_name nm) s1"
proof -
  have len: "length nm < 128" using assms(1) by (simp add: cmd_line_def)
  obtain s1 where "argued s s1" "kept_argument b arg s1" and parse: "parse_cmd v (replicate 128 0) s =
    Some (int (length nm) + 1, nm @ replicate (128 - length nm) 0, s1)"
    using parse_cmd_argued [OF assms(1-3)] by blast
  moreover have "execute fr (Some v) s = run_program fr (padded_name nm) s1"
    using parse fill_spaces [OF len] exit_bool_iff [of nm] assms(4)
    by (simp add: execute_def del: upt_rec_numeral)
  ultimately show ?thesis by blast
qed

lemma cstr_padded_name: "0 \<notin> set nm \<Longrightarrow> cstr (lrd (padded_name nm)) nm"
  unfolding padded_name_def by (rule cstr_array)

lemma cmd_line_nonzero: "cmd_line v a nm b arg \<Longrightarrow> 0 \<notin> set nm"
  by (auto simp: cmd_line_def name_char_def)

text \<open>A directory entry that is a program the kernel can run.\<close>

definition program :: "kst \<Rightarrow> dentry list \<Rightarrow> u8 list \<Rightarrow> dentry \<Rightarrow> u8 list \<Rightarrow> bool" where
  "program s ds nm cur bytes \<longleftrightarrow>
     dir_ok (fs_image s) (fs s) ds \<and> find (\<lambda>d. dentry_name d = nm) ds = Some cur \<and> file_type cur = 2 \<and>
     file_ok (fs_image s) (fs s) (unat (inode_num cur)) bytes \<and> take 4 bytes = elf_magic \<and>
     28 \<le> length bytes \<and> length bytes \<le> PROGRAM_MAX"

lemma program_found:
  assumes "kernel_ok s" and "frame_ok fr" and "program s ds nm cur bytes" and "0 \<notin> set nm"
  shows "exec_dentry fr (padded_name nm) s = Some (Some (set_dentry cur (frame_dentry fr)))"
proof -
  have dir: "dir_ok (fs_image s) (fs s) ds" and find: "find (\<lambda>d. dentry_name d = nm) ds = Some cur"
    and ty: "file_type cur = 2" and ok: "file_ok (fs_image s) (fs s) (unat (inode_num cur)) bytes"
    and magic: "take 4 bytes = elf_magic" and len: "4 \<le> length bytes"
    using assms(3) by (simp_all add: program_def)
  show ?thesis
    using exec_dentry_eq [OF assms(1,2) dir cstr_padded_name [OF assms(4)] find ty ok len] magic by simp
qed

lemma run_program_from:
  assumes "exec_dentry fr name s = Some (Some (set_dentry cur (frame_dentry fr)))"
    and "new_pid fr s = Some (int pid, s')" and "kernel_ok s'" and "frame_ok fr" and "pid < 6"
    and "program s' ds nm cur bytes"
  shows "\<exists>p. run_program fr name s =
      Some (Enter_user [entry_word bytes, USER_CS, 0x200, USER_ESP, USER_DS], entered fr pid bytes p s') \<and>
     paging_inv (Some pid) p \<and> kernel_ok (entered fr pid bytes p s')"
proof -
  obtain p where "start_program fr (set_dentry cur (frame_dentry fr)) (int pid) s' =
       Some (Enter_user [entry_word bytes, USER_CS, 0x200, USER_ESP, USER_DS], entered fr pid bytes p s')"
    "paging_inv (Some pid) p" "kernel_ok (entered fr pid bytes p s')"
    using start_program_eq [OF assms(3,4,5), of "set_dentry cur (frame_dentry fr)" bytes] assms(6)
    by (auto simp: set_dentry_def program_def)
  then show ?thesis using assms(1,2) by (intro exI [of _ p]) (simp add: run_program_def)
qed

lemma with_process_ok:
  assumes "kernel_ok s" and "frame_ok fr"
  shows "kernel_ok (with_process fr pid s)" "fs_image (with_process fr pid s) = fs_image s"
    "fs (with_process fr pid s) = fs s"
  using kernel_ok_upd_pb [OF assms(1) pb_ok_fresh [OF assms(2)]] shown_range [OF assms(1)]
  by (simp_all add: with_process_def fs_image_def fun_eq_iff)

lemma run_program_eq:
  assumes "kernel_ok s" and "frame_ok fr" and "program s ds nm cur bytes" and "0 \<notin> set nm"
    and "find (pcb_free (pcb s)) [0..<6] = Some pid"
  shows "\<exists>p. run_program fr (padded_name nm) s =
      Some (Enter_user [entry_word bytes, USER_CS, 0x200, USER_ESP, USER_DS], entered fr pid bytes p (with_process fr pid s)) \<and>
     paging_inv (Some pid) p \<and> kernel_ok (entered fr pid bytes p (with_process fr pid s))"
proof (rule run_program_from [OF program_found [OF assms(1-4)] _ _ assms(2)])
  note w = with_process_ok [OF assms(1,2)]
  show "new_pid fr s = Some (int pid, with_process fr pid s)"
    using new_pid_eq [OF assms(1,2)] assms(5) by (simp del: upt_rec_numeral)
  show "kernel_ok (with_process fr pid s)" by (rule w(1))
  show "pid < 6" using assms(5) find_upt_Some [of "pcb_free (pcb s)" 0 6 pid] by simp
  show "program (with_process fr pid s) ds nm cur bytes" using assms(3) by (simp add: program_def w)
qed

lemma run_program_full:
  assumes "kernel_ok s" and "frame_ok fr" and "program s ds nm cur bytes" and "0 \<notin> set nm"
    and "find (pcb_free (pcb s)) [0..<6] = None"
  shows "run_program fr (padded_name nm) s = Some (Returned (-1), s)"
  using program_found [OF assms(1-4)] new_pid_eq [OF assms(1,2)] assms(5)
  by (simp add: run_program_def del: upt_rec_numeral)

text \<open>The state a program starts in, field by field.\<close>

lemma entered_facts:
  fixes fr :: frame
  assumes "kernel_ok s" and "pid < 6" and "paging_inv (Some pid) p" and "length bytes \<le> PROGRAM_MAX"
  defines "s' \<equiv> entered fr pid bytes p (with_process fr pid s)" and "h \<equiv> home_terminal pid s"
  shows "pg s' = p" "tss_esp0 s' = kernel_stack_top (int pid)" "tss_ss0 s' = KERNEL_DS"
    "mem s' = poke (user_frame pid PROGRAM_START) bytes (mem s)"
    "active_terminal s' = active_terminal s"
    "exec_terminal s' = (if pid < 3 then int pid else exec_terminal s)"
    "active_process (tmnl_block s' ! h) = int pid"
    "\<And>i. i \<noteq> h \<Longrightarrow> tmnl_block s' ! i = tmnl_block s ! i"
    "\<And>i. i \<noteq> pid \<Longrightarrow> pcb s' ! i = pcb s ! i"
    "\<not> pcb_free (pcb s') pid" "parent (pcb s' ! pid) = (if pid < 3 then -1 else shown s)"
    "stack_ptr (pcb s' ! pid) = frame_esp fr" "base_ptr (pcb s' ! pid) = frame_ebp fr"
    "fd_table (pcb s' ! pid) = fd_table (fresh_pb (frame_process fr) (shown s))"
    "fs s' = fs s" "fs_image s' = fs_image s" "rtc_block s' = rtc_block s"
proof -
  note ok = kernel_okD [OF assms(1)]
  have home: "home_terminal pid (with_process fr pid s) = h" by (simp add: h_def home_terminal_def with_process_def)
  have h: "h < 3" using ok by (auto simp: h_def home_terminal_def)
  note defs = s'_def entered_def placed_def home with_process_def Let_def
  show "pg s' = p" "tss_esp0 s' = kernel_stack_top (int pid)" "tss_ss0 s' = KERNEL_DS"
    "mem s' = poke (user_frame pid PROGRAM_START) bytes (mem s)"
    "active_terminal s' = active_terminal s"
    "exec_terminal s' = (if pid < 3 then int pid else exec_terminal s)"
    "fs s' = fs s" "rtc_block s' = rtc_block s"
    by (simp_all add: s'_def entered_def placed_def with_process_def Let_def)
  show "active_process (tmnl_block s' ! h) = int pid" "\<And>i. i \<noteq> h \<Longrightarrow> tmnl_block s' ! i = tmnl_block s ! i"
    using h ok by (simp_all add: s'_def entered_def placed_def home Let_def) (simp_all add: with_process_def)
  show "\<And>i. i \<noteq> pid \<Longrightarrow> pcb s' ! i = pcb s ! i"
    by (simp add: s'_def entered_def placed_def with_process_def Let_def)
  show "\<not> pcb_free (pcb s') pid" "parent (pcb s' ! pid) = (if pid < 3 then -1 else shown s)"
    "stack_ptr (pcb s' ! pid) = frame_esp fr" "base_ptr (pcb s' ! pid) = frame_ebp fr"
    "fd_table (pcb s' ! pid) = fd_table (fresh_pb (frame_process fr) (shown s))"
    using assms(2) ok by (simp_all add: s'_def entered_def placed_def with_process_def Let_def pcb_free_def fresh_pb_def)
  have "user_frame pid PROGRAM_START \<ge> OFF_8MB" by (simp add: user_frame_def)
  then show "fs_image s' = fs_image s"
    by (auto simp: fs_image_def s'_def entered_def placed_def with_process_def Let_def poke_other fun_eq_iff)
qed

subsection \<open>halt\<close>

text \<open>What closing files changes: the descriptors of the running process, and the RTC clients.\<close>

definition closing :: "kst \<Rightarrow> kst \<Rightarrow> bool" where
  "closing s t \<longleftrightarrow> running t \<and>
     (\<exists>ds r. t = s\<lparr>pcb := (pcb s)[current s := (pcb s ! current s)\<lparr>fd_table := ds\<rparr>], rtc_block := r\<rparr>)"

lemma closing_refl: "running s \<Longrightarrow> closing s s"
  unfolding closing_def
  by (intro conjI exI [of _ "fd_table (pcb s ! current s)"] exI [of _ "rtc_block s"]) simp_all

lemma closing_current: "closing s t \<Longrightarrow> current t = current s"
  by (auto simp: closing_def current_def)

lemma closing_trans:
  assumes "running s" and "closing s t" and "closing t u"
  shows "closing s u"
proof -
  have "current s < length (pcb s)" using runningD [OF assms(1)] kernel_okD(2) [of s] by simp
  moreover note closing_current [OF assms(2)]
  ultimately show ?thesis using assms(2,3) by (fastforce simp: closing_def)
qed

lemma close_any:
  assumes "running s" and "2 \<le> i" and "i < 8"
  shows "\<exists>v t. sys_close (int i) s = Some (v, t) \<and> closing s t"
proof (cases "fd_flags (cur_fd s i) = FD_ABSENT")
  case True
  then show ?thesis using sys_close_refused [OF assms(1), of "int i"] closing_refl [OF assms(1)] by simp
next
  case False
  obtain table where t: "file_operations_table (cur_fd s i) = Some table"
    by (rule cur_fd_table [OF assms(1,3) False])
  let ?d = "(cur_fd s i)\<lparr>fd_flags := FD_ABSENT\<rparr>" and ?s = "put_fd i ((cur_fd s i)\<lparr>fd_flags := FD_ABSENT\<rparr>) s"
  note p = put_fd [OF assms(1), where d = ?d and i = i, simplified]
  have rem: "rem_fd (int i) s = Some (0, ?s)"
    using rem_fd_eq [OF assms] False by (simp add: cur_fd_free put_fd_def cur_fd_def [symmetric])
  note ok = kernel_okD [OF runningD(1) [OF p(1)]]
  have "\<exists>v r. ops_close table ?s = Some (v, ?s\<lparr>rtc_block := r\<rparr>) \<and> length r = 3"
  proof (cases table)
    case Rtc_ops
    then show ?thesis using ok
      by (simp add: ops_close_def rtc_close_def upd_rtc_in) (rule exI, rule conjI, rule refl, simp)
  qed (use ok in \<open>auto simp: ops_close_def terminal_close_def dir_close_def file_close_def intro!: exI [of _ "rtc_block ?s"]\<close>)
  then obtain v r where r: "ops_close table ?s = Some (v, ?s\<lparr>rtc_block := r\<rparr>)" "length r = 3" by blast
  have "running (?s\<lparr>rtc_block := r\<rparr>)"
    using p(1) r(2) by (auto simp: running_def kernel_ok_def screen_ok_def)
  then have "closing s (?s\<lparr>rtc_block := r\<rparr>)" by (auto simp: closing_def put_fd_def)
  moreover have "sys_close (int i) s = Some (v, ?s\<lparr>rtc_block := r\<rparr>)"
    using rem p(2,3) cur_fd_get [OF p(1) assms(3)] assms(3) t r(1) by (simp add: sys_close_def)
  ultimately show ?thesis by blast
qed

lemma close_loop:
  assumes "running s"
  shows "\<exists>t. for_each [3..<FDT_SIZE]
       (\<lambda>i s. do { cur \<leftarrow> sched_process s; d \<leftarrow> get_fd cur i s;
                   if fd_flags d = FD_EXISTS then map_option snd (sys_close (int i) s) else Some s }) s = Some t \<and>
     closing s t"
proof (rule for_each_invariant)
  show "closing s s" by (rule closing_refl [OF assms])
  fix i t assume i: "i \<in> set [3..<FDT_SIZE]" and c: "closing s t"
  then have run: "running t" "2 \<le> i" "i < 8" by (auto simp: closing_def)
  obtain v u where "sys_close (int i) t = Some (v, u)" "closing t u" using close_any [OF run] by blast
  then show "\<exists>u. do { cur \<leftarrow> sched_process t; d \<leftarrow> get_fd cur i t;
       if fd_flags d = FD_EXISTS then map_option snd (sys_close (int i) t) else Some t } = Some u \<and> closing s u"
    using cur_fd_get [OF run(1,3)] c closing_trans [OF assms c] by auto
qed

lemma halt_base:
  assumes "running s" and "parent (pcb s ! current s) = -1"
  shows "halt status s = Some (Returned 0, s)"
  using runningD [OF assms(1)] get_cur_pb [OF assms(1)] assms(2) by (simp add: halt_def Let_def)

text \<open>The state after \<open>halt\<close>: \<open>c\<close> is the process that ended, \<open>p\<close> its parent.\<close>

definition halted :: "nat \<Rightarrow> nat \<Rightarrow> kst \<Rightarrow> kst \<Rightarrow> bool" where
  "halted c p s t \<longleftrightarrow> running t \<and> current t = p \<and> paging_inv (Some p) (pg t) \<and>
     tss_esp0 t = kernel_stack_top (int p) \<and> mem t = mem s \<and> fs t = fs s \<and>
     screen_x t = screen_x s \<and> screen_y t = screen_y s \<and>
     exec_terminal t = exec_terminal s \<and> active_terminal t = active_terminal s \<and>
     tmnl_block t = (tmnl_block s)[nat (exec_terminal s) :=
       (tmnl_block s ! nat (exec_terminal s))\<lparr>active_process := int p\<rparr>] \<and>
     pcb_free (pcb t) c \<and>
     pcb t ! p = (pcb s ! p)\<lparr>fd_table := closed_from 2 8 (fd_table (pcb s ! p))\<rparr> \<and>
     (\<forall>q. q \<noteq> c \<and> q \<noteq> p \<longrightarrow> pcb t ! q = pcb s ! q)"

lemma halt_ok:
  assumes "running s" and "parent (pcb s ! current s) = int p" and "p < 6" and "p \<noteq> current s"
    and "\<not> pcb_free (pcb s) (current s)"
  shows "\<exists>t. halt status s = Some (Halt_return (ucast status) (stack_ptr (pcb s ! current s))
      (base_ptr (pcb s ! current s)), t) \<and> halted (current s) p s t"
proof -
  define c where "c = current s"
  note r = runningD [OF assms(1)]
  obtain s1 where s1: "for_each [3..<FDT_SIZE]
       (\<lambda>i s. do { cur \<leftarrow> sched_process s; d \<leftarrow> get_fd cur i s;
                   if fd_flags d = FD_EXISTS then map_option snd (sys_close (int i) s) else Some s }) s = Some s1"
    "closing s s1" using close_loop [OF assms(1)] by blast
  then obtain ds rt where s1_eq: "s1 = s\<lparr>pcb := (pcb s)[c := (pcb s ! c)\<lparr>fd_table := ds\<rparr>], rtc_block := rt\<rparr>"
    and run1: "running s1" by (auto simp: closing_def c_def)
  have len: "length (pcb s) = 6" "length (tmnl_block s) = 3" "c < 6"
    using kernel_okD [OF r(1)] r(3) by (simp_all add: c_def)
  let ?e = "nat (exec_terminal s)"
  have e: "?e < 3" "0 \<le> exec_terminal s" using kernel_okD [OF r(1)] by simp_all
  let ?s2 = "s1\<lparr>tmnl_block := (tmnl_block s)[?e := (tmnl_block s ! ?e)\<lparr>active_process := int p\<rparr>]\<rparr>"
  have t1: "tmnl_block s1 = tmnl_block s" "exec_terminal s1 = exec_terminal s" by (simp_all add: s1_eq)
  have "kernel_ok ?s2"
    using kernel_ok_upd_tmnl [of s1 "exec_terminal s" "\<lambda>t. t\<lparr>active_process := int p\<rparr>"]
      runningD(1) [OF run1] kernel_ok_tmnl [OF r(1) e(1)] e t1 assms(3) by (simp add: tmnl_ok_def)
  then have run2: "running ?s2" "current ?s2 = p" using e len t1 by (simp_all add: running_def current_def)
  have up: "upd_tmnl (exec_terminal s1) (\<lambda>t. t\<lparr>active_process := int p\<rparr>) s1 = Some ?s2"
    using t1 e len by (simp add: upd_tmnl_in)
  let ?b = "(pcb ?s2 ! c)\<lparr>pb_flags := PCB_ABSENT, argument := (argument (pcb ?s2 ! c))[0 := 0]\<rparr>"
  let ?s3 = "?s2\<lparr>pcb := (pcb ?s2)[c := ?b]\<rparr>"
  have "pb_flags (pcb ?s2 ! c) \<noteq> PCB_ABSENT"
    using assms(5) len by (simp add: s1_eq pcb_free_def c_def)
  then have ended: "end_process (int c) ?s2 = Some (0, with_fds (closed_from 2 8) ?s3)"
    using end_process_eq [OF run2(1) len(3)] by simp
  have "pb_ok ?b" using kernel_ok_pb [OF runningD(1) [OF run2(1)] len(3)] by (simp add: pb_ok_def)
  then have run3: "running ?s3" using kernel_ok_upd_pb [OF runningD(1) [OF run2(1)]] run2(1) by (simp add: running_def)
  have cur3: "current ?s3 = p" using run2(2) by (simp add: current_def)
  let ?s4 = "with_fds (closed_from 2 8) ?s3"
  note run4 = running_with_fds(1) [OF run3] and cur4 = running_with_fds(2) [OF run3]
  obtain pg' where pg': "on_paging (create_process_page (word_of_nat p)) ?s4 = Some (?s4\<lparr>pg := pg'\<rparr>)"
    "paging_inv (Some p) pg'" "kernel_ok (?s4\<lparr>pg := pg'\<rparr>)"
    using process_page [OF runningD(1) [OF run4] assms(3)] by blast
  let ?t = "?s4\<lparr>pg := pg', tss_esp0 := kernel_stack_top (int p)\<rparr>"
  have halt: "halt status s = Some (Halt_return (ucast status) (stack_ptr (pcb s ! c)) (base_ptr (pcb s ! c)), ?t)"
    using r(2) get_cur_pb [OF assms(1)] assms(2) s1(1) up ended pg'(1)
    by (simp add: halt_def Let_def c_def)
  have pcb4: "pcb ?s4 = (pcb ?s3)[p := (pcb ?s3 ! p)\<lparr>fd_table := closed_from 2 8 (fd_table (pcb ?s3 ! p))\<rparr>]"
    unfolding with_fds_def cur3 by simp
  have "running ?t" using pg'(3) run4 by (simp add: running_def)
  moreover have "current ?t = p" using cur4 cur3 by (simp add: current_def)
  moreover have "pcb ?t ! p = (pcb s ! p)\<lparr>fd_table := closed_from 2 8 (fd_table (pcb s ! p))\<rparr>"
    using pcb4 assms(3,4) len by (simp add: s1_eq c_def [symmetric])
  moreover have "pcb_free (pcb ?t) c" "\<forall>q. q \<noteq> c \<and> q \<noteq> p \<longrightarrow> pcb ?t ! q = pcb s ! q"
    using pcb4 assms(4) len by (simp_all add: s1_eq c_def [symmetric] pcb_free_def)
  ultimately have "halted c p s ?t"
    using pg'(2) by (simp add: halted_def) (simp add: with_fds_def s1_eq)
  with halt show ?thesis by (auto simp: c_def)
qed

end
