(* ===== verification/Programs.thy ===== *)
theory Programs
  imports Execute
begin

text \<open>
  The properties of \<open>execute\<close> and \<open>halt\<close>: what a started program finds, what is refused, where a
  program that ends goes back to, and the round trip of the two. The instances run on a kernel
  whose file \<open>hi\<close> is a program of 28 bytes.
\<close>

subsection \<open>Starting a program\<close>

text \<open>What the program sees at its own addresses.\<close>

definition uview :: "kst \<Rightarrow> view" where
  "uview s = ld (user_xlat (pg s)) (mem s)"

lemma uview_image:
  assumes "paging_inv (Some pid) (pg s)" and "mem s = poke (user_frame pid PROGRAM_START) bytes m"
    and "length bytes \<le> PROGRAM_MAX" and "k < length bytes"
  shows "uview s (PROGRAM_START + k) = Some (bytes ! k)"
  using assms walk_process_page [OF assms(1), of "PROGRAM_START + k"]
  by (simp add: uview_def ld_def user_xlat_def user_frame_def poke_def)

lemma execute_program_eq:
  assumes "cmd_line v a nm b arg" and "\<And>k. k < 128 \<Longrightarrow> v k = Some (g k)" and "running s" and "\<not> is_exit nm"
    and "frame_ok fr" and "program s ds nm cur bytes" and "find (pcb_free (pcb s)) [0..<6] = Some pid"
  shows "\<exists>s1 p. argued s s1 \<and> kept_argument b arg s1 \<and> execute fr (Some v) s =
      Some (Enter_user [entry_word bytes, USER_CS, 0x200, USER_ESP, USER_DS],
        entered fr pid bytes p (with_process fr pid s1)) \<and>
     paging_inv (Some pid) p \<and> kernel_ok (entered fr pid bytes p (with_process fr pid s1))"
proof -
  obtain s1 where s1: "argued s s1" "execute fr (Some v) s = run_program fr (padded_name nm) s1" "kept_argument b arg s1"
    using execute_parsed [OF assms(1-4)] by blast
  note arg = argued [OF assms(3) s1(1)]
  have "program s1 ds nm cur bytes" using assms(6) by (simp add: program_def arg(3,4))
  then show ?thesis
    using run_program_eq [OF runningD(1) [OF arg(1)] assms(5), of ds nm cur bytes pid]
      cmd_line_nonzero [OF assms(1)] assms(7) s1 by (auto simp: arg(11))
qed

text \<open>C2. Starting a program: the line \<open>nm arg\<close> naming an executable file starts it in the least free
  process \<open>pid\<close>. The processor goes to user level at the entry point the file states, with the user
  segments, interrupts enabled and its stack at the end of its page; the program sees its whole
  file at 0x8048000 through its own page tables, which belong to \<open>pid\<close>; the kernel stack for its
  system calls is that of \<open>pid\<close>; the block of \<open>pid\<close> remembers the caller's stack registers and, as
  its parent, the process on display (none for the shells 0 to 2). Other process blocks, the file
  system and all memory outside its image are as before, but for the argument of the caller.\<close>

theorem execute_starts_program:
  assumes "cmd_line v a nm b arg" and "\<And>k. k < 128 \<Longrightarrow> v k = Some (g k)" and "running s" and "\<not> is_exit nm"
    and "frame_ok fr" and "program s ds nm cur bytes" and "find (pcb_free (pcb s)) [0..<6] = Some pid"
  shows "\<exists>t. execute fr (Some v) s = Some (Enter_user [entry_word bytes, USER_CS, 0x200, USER_ESP, USER_DS], t) \<and>
     kernel_ok t \<and> paging_inv (Some pid) (pg t) \<and>
     (\<forall>k < length bytes. uview t (PROGRAM_START + k) = Some (bytes ! k)) \<and>
     mem t = poke (user_frame pid PROGRAM_START) bytes (mem s) \<and>
     tss_esp0 t = kernel_stack_top (int pid) \<and> tss_ss0 t = KERNEL_DS \<and>
     stack_ptr (pcb t ! pid) = frame_esp fr \<and> base_ptr (pcb t ! pid) = frame_ebp fr \<and>
     parent (pcb t ! pid) = (if pid < 3 then -1 else shown s) \<and> \<not> pcb_free (pcb t) pid \<and>
     active_process (tmnl_block t ! home_terminal pid s) = int pid \<and>
     (\<forall>i. i \<noteq> pid \<and> i \<noteq> current s \<longrightarrow> pcb t ! i = pcb s ! i) \<and>
     fs t = fs s \<and> fs_image t = fs_image s"
proof -
  obtain s1 p where s1: "argued s s1" and p: "paging_inv (Some pid) p"
    and run: "execute fr (Some v) s = Some (Enter_user [entry_word bytes, USER_CS, 0x200, USER_ESP, USER_DS],
        entered fr pid bytes p (with_process fr pid s1))"
    and ok: "kernel_ok (entered fr pid bytes p (with_process fr pid s1))"
    using execute_program_eq [OF assms] by blast
  note arg = argued [OF assms(3) s1]
  have pid: "pid < 6" using assms(7) find_upt_Some [of "pcb_free (pcb s)" 0 6 pid] by simp
  have len: "length bytes \<le> PROGRAM_MAX" using assms(6) by (simp add: program_def)
  note e = entered_facts [where fr = fr, OF runningD(1) [OF arg(1)] pid p len]
  have home: "home_terminal pid s1 = home_terminal pid s" by (simp add: home_terminal_def arg(9))
  show ?thesis
    using run ok e uview_image [where pid = pid and s = "entered fr pid bytes p (with_process fr pid s1)", OF _ e(4) len] p
    by (intro exI [of _ "entered fr pid bytes p (with_process fr pid s1)"]) (simp add: arg home)
qed

text \<open>A kernel whose file \<open>hi\<close> is a program: the ELF magic number, and the entry point 0x8048000.\<close>

definition sample_elf :: "u8 list" where
  "sample_elf = elf_magic @ replicate 20 0 @ [0x00, 0x80, 0x04, 0x08]"

definition program_kernel :: kst where
  "program_kernel = reading_kernel
     \<lparr>mem := poke (OFF_4MB + 12288) sample_elf ((mem reading_kernel)(OFF_4MB + 4096 := 28))\<rparr>"

lemma program_kernel_running: "running program_kernel" "current program_kernel = 0"
  using reading_kernel_running by (simp_all add: program_kernel_def running_def current_def)

lemma program_kernel_image:
  "fs program_kernel = image_fs"
  "fs_image program_kernel a = (if OFF_4MB \<le> a \<and> a < OFF_8MB then
     Some (poke (OFF_4MB + 12288) sample_elf ((mem reading_kernel)(OFF_4MB + 4096 := 28)) a) else None)"
  by (simp_all add: program_kernel_def reading_kernel_image(1) fs_image_def)

lemma sample_elf: "length sample_elf = 28" "take 4 sample_elf = elf_magic" "entry_word sample_elf = 0x8048000"
  by (simp_all add: sample_elf_def elf_magic_def entry_word_def le32_def nth_append)

lemma program_kernel_program: "program program_kernel sample_dir (bytes_of ''hi'') (sample_dir ! 1) sample_elf"
proof -
  note img = program_kernel_image reading_kernel_def poke_def sample_elf
  have "load_dentry (fs_image program_kernel) (dentry_addr image_fs 0) = Some (sample_dir ! 0)"
    "load_dentry (fs_image program_kernel) (dentry_addr image_fs 1) = Some (sample_dir ! 1)"
    by (simp_all add: load_dentry_def dentry_addr_def image_fs_def sample_dir_def sample_image_def
        rd32_def le32_def unfold_replicate img)
  moreover have "num_dentries image_fs = 2" "length sample_dir = 2"
    by (simp_all add: image_fs_def sample_dir_def)
  ultimately have "dir_ok (fs_image program_kernel) image_fs sample_dir"
    by (auto simp: dir_ok_def less_2_cases_iff)
  moreover have "file_ok (fs_image program_kernel) image_fs 0 sample_elf"
    by (auto simp: file_ok_def inode_length_def inode_data_def inode_addr_def data_addr_def rd32_def
        le32_def sample_image_def image_fs_def img)
  ultimately show ?thesis
    using find_hi sample_elf by (simp add: program_def program_kernel_image(1)) (simp add: sample_dir_def)
qed

lemma program_kernel_free: "find (pcb_free (pcb program_kernel)) [0..<6] = Some 3"
proof -
  have "pcb_free (pcb program_kernel) i \<longleftrightarrow> 3 \<le> i" if "i < 6" for i
    using that by (auto simp: pcb_free_def program_kernel_def reading_kernel_def running_kernel_def
        booted_kernel_def reading_pb_def booted_pb_def nth_append nth_list_update)
  then show ?thesis by (simp add: find_upt_Some del: upt_rec_numeral)
qed

text \<open>The line \<open>hi you\<close>.\<close>

definition hi_line :: view where
  "hi_line = lrd (bytes_of ''hi you'' @ replicate 200 0)"

lemma hi_line: "cmd_line hi_line 0 (bytes_of ''hi'') 1 (bytes_of ''you'')"
  "k < 128 \<Longrightarrow> hi_line k = Some ((bytes_of ''hi you'' @ replicate 200 0) ! k)" "\<not> is_exit (bytes_of ''hi'')"
proof -
  have "cstr hi_line (bytes_of ''hi you'')"
    using cstr_array [of "bytes_of ''hi you''" "replicate 199 0"]
    by (simp add: hi_line_def bytes_of_def unfold_replicate [of "num.Bit0 _"])
  then show "cmd_line hi_line 0 (bytes_of ''hi'') 1 (bytes_of ''you'')"
    by (auto simp: cmd_line_def bytes_of_def name_char_def)
qed (simp_all add: hi_line_def lrd_def is_exit_def bytes_of_def)

lemma sample_frame_ok: "frame_ok sample_frame"
  by (simp add: frame_ok_def sample_frame_def sample_dir_def booted_pb_def)

theorem execute_starts_program_witness:
  "\<exists>t. execute sample_frame (Some hi_line) program_kernel =
       Some (Enter_user [0x8048000, USER_CS, 0x200, USER_ESP, USER_DS], t) \<and>
     uview t 0x8048001 = Some 0x45 \<and> parent (pcb t ! 3) = 0"
proof -
  have shown: "shown program_kernel = 0"
    by (simp add: shown_def program_kernel_def reading_kernel_def running_kernel_def booted_kernel_def booted_tmnl_def)
  obtain t where t: "execute sample_frame (Some hi_line) program_kernel =
       Some (Enter_user [0x8048000, USER_CS, 0x200, USER_ESP, USER_DS], t)"
    "\<forall>k < 28. uview t (PROGRAM_START + k) = Some (sample_elf ! k)" "parent (pcb t ! 3) = 0"
    using execute_starts_program [OF hi_line(1,2) program_kernel_running(1) hi_line(3) sample_frame_ok
        program_kernel_program program_kernel_free]
    by (auto simp: sample_elf(1,3) shown)
  from t(2) [rule_format, of 1] t show ?thesis by (auto simp: sample_elf_def elf_magic_def)
qed

subsection \<open>What execute refuses\<close>

text \<open>C38. What \<open>execute\<close> refuses: a null pointer and a line of spaces; a name that is not in the
  directory or not that of a regular file; a file without the ELF magic number; and any program
  when the process table is full. It returns -1 to its caller, and nothing has changed but, where
  the line had one, the argument of the caller.\<close>

theorem execute_refuses:
  assumes "running s" and "frame_ok fr" and "dir_ok (fs_image s) (fs s) ds"
  shows "execute fr None s = Some (Returned (-1), s) \<and>
    (cstr v (replicate n 0x20) \<longrightarrow> execute fr (Some v) s = Some (Returned (-1), s)) \<and>
    (cmd_line v a nm b arg \<and> (\<forall>k < 128. v k = Some (g k)) \<and> \<not> is_exit nm \<and>
       (case find (\<lambda>d. dentry_name d = nm) ds of
          None \<Rightarrow> True
        | Some cur \<Rightarrow> file_type cur \<noteq> 2 \<or>
            (\<exists>bytes. file_ok (fs_image s) (fs s) (unat (inode_num cur)) bytes \<and> 4 \<le> length bytes \<and>
               take 4 bytes \<noteq> elf_magic) \<or>
            (\<exists>bytes. program s ds nm cur bytes \<and> (\<forall>i < 6. \<not> pcb_free (pcb s) i))) \<longrightarrow>
     (\<exists>s1. execute fr (Some v) s = Some (Returned (-1), s1) \<and> argued s s1))"
proof (intro conjI impI)
  show "execute fr None s = Some (Returned (-1), s)" by (simp add: execute_def)
next
  assume c: "cstr v (replicate n 0x20)"
  have "v k = Some 0x20" if "k < n" for k using cstr_get [OF c, of k] that by (simp add: nth_append)
  moreover have z: "v n = Some 0" using cstr_get [OF c, of n] by (simp add: nth_append)
  ultimately have "skip_spaces v 0 = Some n" using skip_spaces_eq [of n v 0 0] by simp
  then show "execute fr (Some v) s = Some (Returned (-1), s)" using z by (simp add: execute_def parse_cmd_def)
next
  assume a: "cmd_line v a nm b arg \<and> (\<forall>k < 128. v k = Some (g k)) \<and> \<not> is_exit nm \<and>
       (case find (\<lambda>d. dentry_name d = nm) ds of
          None \<Rightarrow> True
        | Some cur \<Rightarrow> file_type cur \<noteq> 2 \<or>
            (\<exists>bytes. file_ok (fs_image s) (fs s) (unat (inode_num cur)) bytes \<and> 4 \<le> length bytes \<and>
               take 4 bytes \<noteq> elf_magic) \<or>
            (\<exists>bytes. program s ds nm cur bytes \<and> (\<forall>i < 6. \<not> pcb_free (pcb s) i)))"
  obtain s1 where s1: "argued s s1" "execute fr (Some v) s = run_program fr (padded_name nm) s1"
    using execute_parsed [where v = v and a = a and nm = nm and b = b and arg = arg and s = s and fr = fr and g = g]
      a assms(1) by blast
  note arg = argued [OF assms(1) s1(1)] and name = cmd_line_nonzero [OF conjunct1 [OF a]]
  note ok = runningD(1) [OF arg(1)] and nm = cstr_padded_name [OF name]
  have dir: "dir_ok (fs_image s1) (fs s1) ds" using assms(3) by (simp add: arg)
  have refused: "run_program fr (padded_name nm) s1 = Some (Returned (-1), s1)"
  proof (cases "case find (\<lambda>d. dentry_name d = nm) ds of None \<Rightarrow> True | Some cur \<Rightarrow> file_type cur \<noteq> 2")
    case True
    then show ?thesis
      using exec_dentry_missing [OF ok assms(2) dir nm] by (simp add: run_program_def)
  next
    case False
    then obtain cur where cur: "find (\<lambda>d. dentry_name d = nm) ds = Some cur" "file_type cur = 2"
      by (auto split: option.splits)
    then consider bytes where "file_ok (fs_image s) (fs s) (unat (inode_num cur)) bytes" "4 \<le> length bytes"
        "take 4 bytes \<noteq> elf_magic"
      | bytes where "program s ds nm cur bytes" "\<forall>i < 6. \<not> pcb_free (pcb s) i"
      using a by auto
    then show ?thesis
    proof cases
      case 1
      then show ?thesis
        using exec_dentry_eq [OF ok assms(2) dir nm cur, of bytes] by (simp add: run_program_def arg)
    next
      case 2
      then have "program s1 ds nm cur bytes" "find (pcb_free (pcb s1)) [0..<6] = None"
        by (auto simp: program_def arg find_None_iff simp del: upt_rec_numeral)
      then show ?thesis using run_program_full [OF ok assms(2) _ name] by blast
    qed
  qed
  with s1 show "\<exists>s1. execute fr (Some v) s = Some (Returned (-1), s1) \<and> argued s s1" by auto
qed

theorem execute_refuses_witness:
  "\<exists>s1. execute sample_frame (Some hi_line) reading_kernel = Some (Returned (-1), s1) \<and> argued reading_kernel s1"
proof -
  have "file_ok (fs_image reading_kernel) (fs reading_kernel) 0 (bytes_of ''Hello'')"
    using reading_kernel_reading by (simp add: reading_def reading_kernel_fd open_fd_def)
  moreover have "take 4 (bytes_of ''Hello'') \<noteq> elf_magic" "unat (inode_num (sample_dir ! 1)) = 0"
    by (simp_all add: bytes_of_def elf_magic_def sample_dir_def)
  ultimately have "\<exists>bytes. file_ok (fs_image reading_kernel) (fs reading_kernel) (unat (inode_num (sample_dir ! 1))) bytes \<and>
      4 \<le> length bytes \<and> take 4 bytes \<noteq> elf_magic"
    by (intro exI [of _ "bytes_of ''Hello''"]) simp
  then show ?thesis
    using execute_refuses [OF reading_kernel_running(1) sample_frame_ok reading_kernel_dir, of hi_line 0 0
        "bytes_of ''hi''" 1 "bytes_of ''you''" "\<lambda>k. (bytes_of ''hi you'' @ replicate 200 0) ! k"]
      hi_line find_hi by auto
qed

subsection \<open>Ending a program\<close>

text \<open>C12. \<open>halt\<close> in a program with a parent \<open>p\<close>: the processor goes on in the \<open>execute\<close> of \<open>p\<close>, at the
  stack registers the block of the program remembers, with the status, zero-extended, as result.
  \<open>p\<close> is the process of the terminal again, in its own page and with its own kernel stack, and the
  slot of the program is free; memory, the file system, the terminals and the blocks of the other
  processes are as before. In a base shell \<open>halt\<close> does nothing: it returns 0.\<close>

theorem halt_returns_to_parent:
  assumes "running s" and "\<not> pcb_free (pcb s) (current s)"
  shows "(parent (pcb s ! current s) = -1 \<longrightarrow> halt status s = Some (Returned 0, s)) \<and>
    (\<forall>p < 6. parent (pcb s ! current s) = int p \<and> p \<noteq> current s \<longrightarrow>
      (\<exists>t. halt status s = Some (Halt_return (ucast status) (stack_ptr (pcb s ! current s))
           (base_ptr (pcb s ! current s)), t) \<and>
         running t \<and> current t = p \<and> paging_inv (Some p) (pg t) \<and> tss_esp0 t = kernel_stack_top (int p) \<and>
         pcb_free (pcb t) (current s) \<and> mem t = mem s \<and> fs t = fs s \<and>
         tmnl_block t = (tmnl_block s)[nat (exec_terminal s) :=
           (tmnl_block s ! nat (exec_terminal s))\<lparr>active_process := int p\<rparr>] \<and>
         (\<forall>q. q \<noteq> current s \<and> q \<noteq> p \<longrightarrow> pcb t ! q = pcb s ! q)))"
  using halt_base [OF assms(1)] halt_ok [OF assms(1) _ _ _ assms(2)] by (fastforce simp: halted_def)

text \<open>The program \<open>hi\<close> started on the kernel above.\<close>

definition started_kernel :: kst where
  "started_kernel = snd (the (execute sample_frame (Some hi_line) program_kernel))"

lemma program_kernel_terminals:
  "active_terminal program_kernel = 0" "exec_terminal program_kernel = 0" "shown program_kernel = 0"
  by (simp_all add: shown_def program_kernel_def reading_kernel_def running_kernel_def booted_kernel_def booted_tmnl_def)

lemma started_kernel:
  "execute sample_frame (Some hi_line) program_kernel =
     Some (Enter_user [0x8048000, USER_CS, 0x200, USER_ESP, USER_DS], started_kernel)"
  "running started_kernel" "current started_kernel = 3" "parent (pcb started_kernel ! 3) = 0"
  "\<not> pcb_free (pcb started_kernel) 3" "stack_ptr (pcb started_kernel ! 3) = 0x7F9F00"
  "base_ptr (pcb started_kernel ! 3) = 0x7F9F80" "exec_terminal started_kernel = 0"
  "fd_table (pcb started_kernel ! 0) = fd_table (pcb program_kernel ! 0)"
proof -
  note t = program_kernel_terminals
  obtain s1 p where s1: "argued program_kernel s1" and p: "paging_inv (Some 3) p"
    and run: "execute sample_frame (Some hi_line) program_kernel =
        Some (Enter_user [0x8048000, USER_CS, 0x200, USER_ESP, USER_DS],
          entered sample_frame 3 sample_elf p (with_process sample_frame 3 s1))"
    and ok: "kernel_ok (entered sample_frame 3 sample_elf p (with_process sample_frame 3 s1))"
    using execute_program_eq [OF hi_line(1,2) program_kernel_running(1) hi_line(3) sample_frame_ok
        program_kernel_program program_kernel_free] by (auto simp: sample_elf)
  note arg = argued [OF program_kernel_running(1) s1, unfolded program_kernel_running(2)]
  have eq: "started_kernel = entered sample_frame 3 sample_elf p (with_process sample_frame 3 s1)"
    using run by (simp add: started_kernel_def)
  have e: "exec_terminal s1 = 0" "home_terminal 3 s1 = 0" "shown s1 = 0"
    using arg t by (simp_all add: home_terminal_def)
  note f = entered_facts [where fr = sample_frame, OF runningD(1) [OF arg(1)] _ p, of sample_elf]
  show "execute sample_frame (Some hi_line) program_kernel =
     Some (Enter_user [0x8048000, USER_CS, 0x200, USER_ESP, USER_DS], started_kernel)"
    using run eq by simp
  have ex: "exec_terminal started_kernel = 0" using f(6) e by (simp add: eq sample_elf)
  have a: "active_process (tmnl_block started_kernel ! 0) = 3" using f(7) e by (simp add: eq sample_elf)
  show "exec_terminal started_kernel = 0" by (rule ex)
  show "running started_kernel" using ok a ex by (simp add: running_def eq)
  show "current started_kernel = 3" using a ex by (simp add: current_def)
  show "parent (pcb started_kernel ! 3) = 0" "\<not> pcb_free (pcb started_kernel) 3"
    "stack_ptr (pcb started_kernel ! 3) = 0x7F9F00" "base_ptr (pcb started_kernel ! 3) = 0x7F9F80"
    using f(10-13) e by (simp_all add: eq sample_elf sample_frame_def)
  obtain A where "pcb s1 ! 0 = (pcb program_kernel ! 0)\<lparr>argument := A\<rparr>" using arg(13) by auto
  then show "fd_table (pcb started_kernel ! 0) = fd_table (pcb program_kernel ! 0)"
    using f(9) [of 0] by (simp add: eq sample_elf)
qed

theorem halt_returns_to_parent_witness:
  "\<exists>t. halt 7 started_kernel = Some (Halt_return 7 0x7F9F00 0x7F9F80, t) \<and> current t = 0 \<and> pcb_free (pcb t) 3"
  using halt_returns_to_parent [OF started_kernel(2), of 7] started_kernel(3-7) by force

text \<open>C40. A program that ends closes the files of its parent: \<open>end_process\<close> calls \<open>rem_fd\<close> after \<open>halt\<close>
  has made the parent the running process, so that the descriptors 2 to 7 of the parent, and not
  those of the program, are marked free.\<close>

theorem halt_closes_parent_files:
  assumes "running s" and "\<not> pcb_free (pcb s) (current s)"
    and "parent (pcb s ! current s) = int p" and "p < 6" and "p \<noteq> current s"
  shows "\<exists>c t. halt status s = Some (c, t) \<and> current t = p \<and>
    (\<forall>i \<in> {2..<8}. fd_flags (cur_fd t i) = FD_ABSENT) \<and>
    (\<forall>i \<in> {0, 1}. cur_fd t i = fd_table (pcb s ! p) ! i)"
proof -
  obtain c t where t: "halt status s = Some (c, t)" "halted (current s) p s t"
    using halt_ok [OF assms(1,3,4,5,2)] by blast
  have "length (fd_table (pcb s ! p)) = 8"
    using kernel_ok_pb [OF runningD(1) [OF assms(1)] assms(4)] by (simp add: pb_ok_def)
  then show ?thesis using t by (auto simp: halted_def cur_fd_def closed_from_nth)
qed

theorem halt_closes_parent_files_witness:
  "fd_flags (fd_table (pcb started_kernel ! 0) ! 2) = FD_EXISTS \<and>
   (\<exists>c t. halt 0 started_kernel = Some (c, t) \<and> current t = 0 \<and> fd_flags (cur_fd t 2) = FD_ABSENT)"
proof
  have "fd_table (pcb program_kernel ! 0) = fd_table (pcb reading_kernel ! 0)" by (simp add: program_kernel_def)
  then show "fd_flags (fd_table (pcb started_kernel ! 0) ! 2) = FD_EXISTS"
    using reading_kernel_fd(1) by (simp add: started_kernel(9) cur_fd_def reading_kernel_running(2) open_fd_def)
  show "\<exists>c t. halt 0 started_kernel = Some (c, t) \<and> current t = 0 \<and> fd_flags (cur_fd t 2) = FD_ABSENT"
    using halt_closes_parent_files [OF started_kernel(2), of 0 0] started_kernel(3-5) by force
qed

subsection \<open>execute and halt together\<close>

text \<open>
  What a program that runs leaves as it found it: the links of its process block and the number of
  the terminals; everything else (memory, files, screens, its descriptors) it may have changed.
\<close>

definition kept :: "nat \<Rightarrow> kst \<Rightarrow> kst \<Rightarrow> bool" where
  "kept pid t u \<longleftrightarrow> running u \<and> current u = pid \<and> exec_terminal u = exec_terminal t \<and>
     \<not> pcb_free (pcb u) pid \<and> parent (pcb u ! pid) = parent (pcb t ! pid) \<and>
     stack_ptr (pcb u ! pid) = stack_ptr (pcb t ! pid) \<and> base_ptr (pcb u ! pid) = base_ptr (pcb t ! pid)"

text \<open>C1. The round trip: where the process \<open>p\<close> on display executes a program, and the program, after
  anything it does that keeps its process links (\<open>kept\<close>), halts with a status, the \<open>execute\<close> that \<open>p\<close>
  called returns exactly this status: the stack registers are the ones of that call, \<open>p\<close> is the
  running process again, with its own page and kernel stack, and the slot is free for the next
  program.\<close>

theorem execute_halt_roundtrip:
  assumes "cmd_line v a nm b arg" and "\<And>k. k < 128 \<Longrightarrow> v k = Some (g k)" and "running s" and "\<not> is_exit nm"
    and "frame_ok fr" and "program s ds nm cur bytes" and "find (pcb_free (pcb s)) [0..<6] = Some pid"
    and "3 \<le> pid" and "active_terminal s = exec_terminal s" and "\<not> pcb_free (pcb s) (current s)"
  shows "\<exists>ws t. execute fr (Some v) s = Some (Enter_user ws, t) \<and> kept pid t t \<and>
    (\<forall>u status. kept pid t u \<longrightarrow>
      (\<exists>w. halt status u = Some (Halt_return (ucast status) (frame_esp fr) (frame_ebp fr), w) \<and>
         running w \<and> current w = current s \<and> paging_inv (Some (current s)) (pg w) \<and>
         tss_esp0 w = kernel_stack_top (int (current s)) \<and> pcb_free (pcb w) pid))"
proof -
  have pid: "pid < 6" using assms(7) find_upt_Some [of "pcb_free (pcb s)" 0 6 pid] by simp
  note r = runningD [OF assms(3)]
  have shown: "shown s = int (current s)"
    using assms(3,9) by (simp add: shown_def current_def running_def)
  have ne: "current s \<noteq> pid" using assms(7,10) find_upt_Some [of "pcb_free (pcb s)" 0 6 pid] by auto
  obtain s1 p where s1: "argued s s1" and p: "paging_inv (Some pid) p"
    and run: "execute fr (Some v) s = Some (Enter_user [entry_word bytes, USER_CS, 0x200, USER_ESP, USER_DS],
        entered fr pid bytes p (with_process fr pid s1))"
    and ok: "kernel_ok (entered fr pid bytes p (with_process fr pid s1))"
    using execute_program_eq [OF assms(1-7)] by blast
  let ?t = "entered fr pid bytes p (with_process fr pid s1)"
  note arg = argued [OF assms(3) s1]
  have len: "length bytes \<le> PROGRAM_MAX" using assms(6) by (simp add: program_def)
  note e = entered_facts [where fr = fr, OF runningD(1) [OF arg(1)] pid p len]
  have home: "home_terminal pid s1 = nat (exec_terminal s)"
    using assms(8,9) by (simp add: home_terminal_def arg)
  have et: "exec_terminal ?t = exec_terminal s" using e(6) assms(8) by (simp add: arg)
  have "active_process (tmnl_block ?t ! nat (exec_terminal ?t)) = int pid" using e(7) home et by simp
  then have "kept pid ?t ?t" using ok e(10) by (simp add: kept_def running_def current_def)
  moreover have "\<exists>w. halt status u = Some (Halt_return (ucast status) (frame_esp fr) (frame_ebp fr), w) \<and>
         running w \<and> current w = current s \<and> paging_inv (Some (current s)) (pg w) \<and>
         tss_esp0 w = kernel_stack_top (int (current s)) \<and> pcb_free (pcb w) pid" if u: "kept pid ?t u" for u status
  proof -
    have "parent (pcb u ! current u) = int (current s)"
      using u e(11) assms(8) shown by (simp add: kept_def arg)
    then obtain w where "halt status u = Some (Halt_return (ucast status) (stack_ptr (pcb u ! current u))
      (base_ptr (pcb u ! current u)), w)" "halted (current u) (current s) u w"
      using halt_ok [of u "current s" status] u r(3) ne by (auto simp: kept_def)
    then show ?thesis using u e(12,13) by (auto simp: kept_def halted_def)
  qed
  ultimately show ?thesis using run by blast
qed

theorem execute_halt_roundtrip_witness:
  "\<exists>ws t w. execute sample_frame (Some hi_line) program_kernel = Some (Enter_user ws, t) \<and>
     halt 9 t = Some (Halt_return 9 0x7F9F00 0x7F9F80, w) \<and> current w = 0"
proof -
  have "\<not> pcb_free (pcb program_kernel) (current program_kernel)"
    by (simp add: program_kernel_running(2))
      (simp add: pcb_free_def program_kernel_def reading_kernel_def running_kernel_def booted_kernel_def
        reading_pb_def booted_pb_def)
  then obtain ws t where t: "execute sample_frame (Some hi_line) program_kernel = Some (Enter_user ws, t)" "kept 3 t t"
    and ret: "\<And>u status. kept 3 t u \<Longrightarrow>
      \<exists>w. halt status u = Some (Halt_return (ucast status) (frame_esp sample_frame) (frame_ebp sample_frame), w) \<and>
        current w = current program_kernel"
    using execute_halt_roundtrip [OF hi_line(1,2) program_kernel_running(1) hi_line(3) sample_frame_ok
        program_kernel_program program_kernel_free] program_kernel_terminals by (simp del: upt_rec_numeral) blast
  from ret [OF t(2), of 9] t(1) show ?thesis
    by (auto simp: program_kernel_running(2) sample_frame_def)
qed

text \<open>Every command whose name begins with \<open>exit\<close> ends the running program, whatever follows: no
  file of such a name can be started from a program with a parent.\<close>

theorem exit_prefix_halts:
  assumes "cmd_line v a nm b arg" and "\<And>k. k < 128 \<Longrightarrow> v k = Some (g k)" and "running s" and "is_exit nm"
    and "parent (pcb s ! current s) = int p" and "p < 6" and "p \<noteq> current s" and "\<not> pcb_free (pcb s) (current s)"
  shows "\<exists>t. execute fr (Some v) s = Some (Halt_return 0 (stack_ptr (pcb s ! current s))
      (base_ptr (pcb s ! current s)), t) \<and> running t \<and> current t = p"
proof -
  obtain s1 where s1: "argued s s1" and run: "parse_cmd v (replicate 128 0) s =
      Some (int (length nm) + 1, nm @ replicate (128 - length nm) 0, s1)"
    using parse_cmd_argued [OF assms(1-3)] by blast
  note arg = argued [OF assms(3) s1]
  have len: "length nm < 128" using assms(1) by (simp add: cmd_line_def)
  obtain A where A: "pcb s1 ! current s = (pcb s ! current s)\<lparr>argument := A\<rparr>" using arg(13) by blast
  then obtain t where "halt 0 s1 = Some (Halt_return 0 (stack_ptr (pcb s ! current s))
      (base_ptr (pcb s ! current s)), t)" "halted (current s) p s1 t"
    using halt_ok [OF arg(1), of p 0] assms(5-8) arg by auto
  then show ?thesis
    using run fill_spaces [OF len] exit_bool_iff [of nm] assms(4)
    by (auto simp: execute_def halted_def simp del: upt_rec_numeral)
qed

text \<open>The line \<open>exitcode\<close>.\<close>

theorem exit_prefix_halts_witness:
  "\<exists>t. execute sample_frame (Some (lrd (bytes_of ''exitcode'' @ replicate 200 0))) started_kernel =
     Some (Halt_return 0 0x7F9F00 0x7F9F80, t) \<and> current t = 0"
proof -
  let ?v = "lrd (bytes_of ''exitcode'' @ replicate 200 0)"
  have "cstr ?v (bytes_of ''exitcode'')"
    using cstr_array [of "bytes_of ''exitcode''" "replicate 199 0"]
    by (simp add: bytes_of_def unfold_replicate [of "num.Bit0 _"])
  then have line: "cmd_line ?v 0 (bytes_of ''exitcode'') 0 []"
    by (auto simp: cmd_line_def bytes_of_def name_char_def)
  have read: "?v k = Some ((bytes_of ''exitcode'' @ replicate 200 0) ! k)" if "k < 128" for k
    using that by (simp add: lrd_def)
  have "is_exit (bytes_of ''exitcode'')" by (simp add: is_exit_def bytes_of_def)
  then show ?thesis
    using exit_prefix_halts [OF line read started_kernel(2), of 0 sample_frame] started_kernel(3-7) by force
qed

end
