(* ===== verification/Vidmap.thy ===== *)
theory Vidmap
  imports Programs
begin

text \<open>
  The video page of user programs (\<open>vidmap\<close>, \<open>vidmap_helper\<close>, \<open>remap_vidmem\<close>) as the program sees it
  through its page tables, and the dispatch of the system calls by number.
\<close>

subsection \<open>The page at 0x8800000\<close>

text \<open>The video page is mapped, and shows the frame that begins at \<open>f\<close>.\<close>

definition vid_page :: "nat \<Rightarrow> paging \<Rightarrow> bool" where
  "vid_page f p \<longleftrightarrow> page_directory p ! 34 = page_table_2_addr p OR 0x7 \<and>
     page_table_2 p ! 0 = word_of_nat f OR 0x7 \<and> f \<in> {0xB8000, 0xB9000, 0xBA000, 0xBB000}"

lemma user_vid_page:
  assumes "paging_inv prog p" and "vid_page f p" and "k < 0x1000"
  shows "user_xlat p (0x8800000 + k) = Some (f + k)"
proof -
  have ok: "tables_ok p" "paging_on p" using assms(1) by (simp_all add: paging_inv_def)
  have d: "(0x8800000 + k) div 0x400000 = 34" "(0x8800000 + k) div 0x1000 mod 1024 = 0"
    "(0x8800000 + k) mod 0x1000 = k"
  proof -
    show "(0x8800000 + k) div 0x400000 = 34" using assms(3) by (intro div_nat_eqI) simp_all
    have "(0x8800000 + k) div 0x1000 = 0x8800" using assms(3) by (intro div_nat_eqI) simp_all
    then show "(0x8800000 + k) div 0x1000 mod 1024 = 0" by simp
    show "(0x8800000 + k) mod 0x1000 = k" using assms(3) by (intro mod_nat_eqI) simp_all
  qed
  let ?e = "page_table_2 p ! 0"
  have "walk p (0x8800000 + k) = (if bit ?e 0 then Some \<lparr>phys_addr = unat (?e AND 0xFFFFF000) + k,
       user_page = bit (7 :: u32) 2 \<and> bit ?e 2, writable = bit ?e 1\<rparr> else None)"
    using ok assms(2) d
    by (subst walk_4kB [where base = "page_table_2_addr p" and t = 7 and k = 34 and table = "page_table_2 p"])
      (auto simp: tables_ok_def table_at_def vid_page_def)
  moreover have "bit ?e 0" "bit ?e 2" "unat (?e AND 0xFFFFF000) = f"
    using assms(2) by (auto simp: vid_page_def)
  ultimately show ?thesis by (simp add: user_xlat_def)
qed

lemma vidmap_helper_page:
  assumes "paging_inv prog p"
  shows "\<exists>p'. vidmap_helper VIDM_ADDR p = Some p' \<and> paging_inv prog p' \<and> vid_page VIDEO p'"
proof -
  obtain p' where "vidmap_helper 0x8800000 p = Some p'" "paging_inv prog p'"
    using paging_inv_vidmap [OF assms] by blast
  moreover have "length (page_directory p) = 1024" "length (page_table_2 p) = 1024"
    using assms by (simp_all add: paging_inv_def tables_ok_def)
  then have "vid_page VIDEO p'" using \<open>vidmap_helper 0x8800000 p = Some p'\<close>
    by (auto simp: vidmap_helper_def set_pde_def set_pte_2_def arr_set_in vid_page_def)
  ultimately show ?thesis by blast
qed

lemma remap_vidmem_page:
  assumes "paging_inv prog p" and "process \<in> {-1, 0, 1, 2}" and "vid_page f p"
  shows "\<exists>p'. remap_vidmem process p = Some p' \<and> paging_inv prog p' \<and>
    vid_page (nat (0x1000 * (0xB8 + process + 1))) p'"
proof -
  obtain p' where "remap_vidmem process p = Some p'" "paging_inv prog p'"
    using paging_inv_remap [OF assms(1,2)] by blast
  moreover have "length (page_table_2 p) = 1024"
    using assms(1) by (simp add: paging_inv_def tables_ok_def)
  then have "vid_page (nat (0x1000 * (0xB8 + process + 1))) p'"
    using \<open>remap_vidmem process p = Some p'\<close> assms(2,3)
    by (auto simp: remap_vidmem_def set_pte_2_def arr_set_in vid_page_def)
  ultimately show ?thesis by blast
qed

subsection \<open>vidmap\<close>

lemma vidmap_eq:
  assumes "paging_inv (Some pid) (pg s)" and a: "OFF_128MB \<le> a \<and> a < OFF_128MB + OFF_4MB - 4"
  shows "\<exists>p. vidmap a s = Some (0, s\<lparr>pg := p, mem := poke (user_frame pid a) (le_bytes VIDM_ADDR) (mem s)\<rparr>) \<and>
    paging_inv (Some pid) p \<and> vid_page VIDEO p"
proof -
  obtain p where p: "vidmap_helper VIDM_ADDR (pg s) = Some p" "paging_inv (Some pid) p" "vid_page VIDEO p"
    using vidmap_helper_page [OF assms(1)] by blast
  let ?s = "s\<lparr>pg := p\<rparr>"
  have "user_range ?s pid a (length (le_bytes VIDM_ADDR))"
    using a p(2) by (simp add: user_range_def del: length_le_bytes) (simp add: length_le_bytes)
  then have "for_each [0..<length (le_bytes VIDM_ADDR)] (\<lambda>i. kput (a + i) (le_bytes VIDM_ADDR ! i)) ?s
      = Some (?s\<lparr>mem := poke (user_frame pid a) (le_bytes VIDM_ADDR) (mem ?s)\<rparr>)"
    by (rule copy_out) simp
  then have "vidmap a s = Some (0, ?s\<lparr>mem := poke (user_frame pid a) (le_bytes VIDM_ADDR) (mem s)\<rparr>)"
    using a p(1) by (simp add: vidmap_def on_paging_def Let_def del: upt_rec_numeral)
  then show ?thesis using p by auto
qed

text \<open>C27. \<open>vidmap\<close>: a pointer outside 128 MB to 132 MB less 4 bytes is refused with -1 and nothing
  changes. Otherwise the call returns 0 and the word at the pointer is 0x8800000; from then on the
  program reads and writes the video memory of the screen through the 4 kB at that address, and
  nothing else of memory or of the page tables has changed.\<close>

theorem vidmap_maps_screen:
  assumes "kernel_ok s" and "paging_inv (Some pid) (pg s)"
  shows "(a < OFF_128MB \<or> OFF_128MB + OFF_4MB - 4 \<le> a \<longrightarrow> vidmap a s = Some (-1, s)) \<and>
    (OFF_128MB \<le> a \<and> a < OFF_128MB + OFF_4MB - 4 \<longrightarrow>
      (\<exists>p. vidmap a s = Some (0, s\<lparr>pg := p, mem := poke (user_frame pid a) (le_bytes VIDM_ADDR) (mem s)\<rparr>) \<and>
        paging_inv (Some pid) p \<and> (\<forall>k < 0x1000. user_xlat p (unat VIDM_ADDR + k) = Some (VIDEO + k))))"
proof (intro conjI impI)
  show "vidmap a s = Some (-1, s)" if "a < OFF_128MB \<or> OFF_128MB + OFF_4MB - 4 \<le> a"
    using that by (auto simp: vidmap_def)
next
  assume a: "OFF_128MB \<le> a \<and> a < OFF_128MB + OFF_4MB - 4"
  then obtain p where "vidmap a s = Some (0, s\<lparr>pg := p, mem := poke (user_frame pid a) (le_bytes VIDM_ADDR) (mem s)\<rparr>)"
    "paging_inv (Some pid) p" "vid_page VIDEO p"
    using vidmap_eq [OF assms(2)] by blast
  then show "\<exists>p. vidmap a s = Some (0, s\<lparr>pg := p, mem := poke (user_frame pid a) (le_bytes VIDM_ADDR) (mem s)\<rparr>) \<and>
        paging_inv (Some pid) p \<and> (\<forall>k < 0x1000. user_xlat p (unat VIDM_ADDR + k) = Some (VIDEO + k))"
    using user_vid_page [of "Some pid"] by auto
qed

theorem vidmap_maps_screen_witness:
  "\<exists>p. vidmap 0x8048100 running_kernel = Some (0, running_kernel
     \<lparr>pg := p, mem := poke 0x848100 [0x00, 0x00, 0x80, 0x08] (mem running_kernel)\<rparr>) \<and>
   user_xlat p 0x8800002 = Some 0xB8002"
proof -
  obtain p where p: "vidmap 0x8048100 running_kernel = Some (0, running_kernel
     \<lparr>pg := p, mem := poke (user_frame 0 0x8048100) (le_bytes VIDM_ADDR) (mem running_kernel)\<rparr>)"
    "\<forall>k < 0x1000. user_xlat p (unat VIDM_ADDR + k) = Some (VIDEO + k)"
    using vidmap_maps_screen [OF running_kernel_ok running_kernel_inv, of "0x8048100"] by auto
  have "le_bytes VIDM_ADDR = [0x00, 0x00, 0x80, 0x08]" by (simp add: le_bytes_def)
  with p(2) [rule_format, of 2] p(1) show ?thesis by (auto simp: user_frame_def)
qed

subsection \<open>Dispatch\<close>

text \<open>The numbers of the system calls: every number below 1 or above 10, read as a signed number,
  is refused with -1 and changes nothing. The numbers 9 and 10, which the check lets through although
  the table ends with the entry of 8, have no outcome: the wrapper calls the word after the table.\<close>

theorem syscall_numbers:
  shows "(sint n < 1 \<or> 10 < sint n \<longrightarrow> syscall env fr n b c d s = Some (Returned (-1), s)) \<and>
    (n \<in> {9, 10} \<longrightarrow> syscall env fr n b c d s = None)"
  by (auto simp: syscall_def)

theorem syscall_numbers_witness:
  "syscall (\<lambda>_. Some) sample_frame (-1) 0 0 0 running_kernel = Some (Returned (-1), running_kernel) \<and>
   syscall (\<lambda>_. Some) sample_frame 9 0 0 0 running_kernel = None"
  using syscall_numbers [of "-1" "\<lambda>_. Some" sample_frame 0 0 0 running_kernel]
    syscall_numbers [of 9 "\<lambda>_. Some" sample_frame 0 0 0 running_kernel] by simp

end
