(* ===== verification/Scheduler.thy ===== *)
theory Scheduler
  imports Vidmap
begin

text \<open>
  The round-robin scheduler of \<^verbatim>\<open>student-distrib/scheduler.c\<close>: the timer's set-up and its interrupt
  handler, which changes to the process of the next terminal or, where that terminal has none,
  starts a shell in it. A change of stacks is the outcome \<open>Switch_stack\<close>: execution goes on where the
  process that saved the two registers was interrupted. The registers of the interrupted process
  are the parameters \<open>esp\<close> and \<open>ebp\<close>.

  The lemmas show one switch and what it saves; the properties put switches together: after three
  ticks the first process goes on with the registers it had, and from boot three ticks start the
  three shells.
\<close>

abbreviation PIT_CMDR :: u16 where "PIT_CMDR \<equiv> 0x43"
abbreviation PIT_CH0 :: u16 where "PIT_CH0 \<equiv> 0x40"
abbreviation OPM_SQM3 :: u8 where "OPM_SQM3 \<equiv> 0x36"
abbreviation DIV_20HZ :: u32 where "DIV_20HZ \<equiv> 11932"

definition init_scheduler :: "device \<Rightarrow> kst \<Rightarrow> kst" where
  "init_scheduler inb s =
     (let s = on_ports (outb OPM_SQM3 PIT_CMDR) s;
          s = on_ports (outb (ucast (DIV_20HZ AND 0xFF)) PIT_CH0) s;
          s = on_ports (outb (ucast (drop_bit 8 DIV_20HZ)) PIT_CH0) s
      in on_ports (enable_irq inb 0) s)"

text \<open>The string literal \<open>"shell"\<close> of the kernel's data.\<close>

definition shell_command :: view where
  "shell_command = lrd (bytes_of ''shell'' @ [0])"

definition switch_stacks :: "int \<Rightarrow> kst \<Rightarrow> (control \<times> kst) option" where
  "switch_stacks next s = do { p \<leftarrow> get_pb next s; Some (Switch_stack (prev_sp p) (prev_bp p), s) }"

text \<open>\<open>curr_pb\<close> is the index of the process block the pointer of that name points to.\<close>

definition change_context :: "frame \<Rightarrow> u32 \<Rightarrow> u32 \<Rightarrow> int \<Rightarrow> int \<Rightarrow> kst \<Rightarrow> (control \<times> kst) option" where
  "change_context fr esp ebp curr_pb sched_next s =
     do { t \<leftarrow> get_tmnl sched_next s;
          let next = active_process t;
          s \<leftarrow> on_paging (remap_vidmem (if sched_next = active_terminal s then -1 else sched_next)) s;
          s \<leftarrow> (if tmnl_flags t = TMNL_RUN then on_paging (create_process_page (word_of_int next)) s else Some s);
          let s = s\<lparr>tss_ss0 := KERNEL_DS, tss_esp0 := OFF_8MB - OFF_8KB * word_of_int next - 4\<rparr>;
          s \<leftarrow> upd_pb curr_pb (\<lambda>p. p\<lparr>prev_sp := esp, prev_bp := ebp\<rparr>) s;
          let s = s\<lparr>exec_terminal := sched_next\<rparr>;
          if tmnl_flags t = TMNL_IDLE then
            do { s \<leftarrow> upd_tmnl sched_next (\<lambda>t. t\<lparr>tmnl_flags := TMNL_RUN\<rparr>) s;
                 (c, s) \<leftarrow> execute fr (Some shell_command) s;
                 case c of Returned _ \<Rightarrow> switch_stacks next s | _ \<Rightarrow> Some (c, s) }
          else switch_stacks next s }"

definition sched_handler :: "frame \<Rightarrow> u32 \<Rightarrow> u32 \<Rightarrow> kst \<Rightarrow> (control \<times> kst) option" where
  "sched_handler fr esp ebp s =
     do { let s = on_ports (send_eoi 0) s;
          let next_terminal = (exec_terminal s + 1) mod NUM_TERMINAL;
          t \<leftarrow> get_tmnl (exec_terminal s) s;
          change_context fr esp ebp (active_process t) next_terminal s }"

subsection \<open>One switch\<close>

text \<open>Every terminal runs a process; no two the same.\<close>

definition proc_of :: "kst \<Rightarrow> nat \<Rightarrow> nat" where
  "proc_of s i = nat (active_process (tmnl_block s ! i))"

definition occupied :: "kst \<Rightarrow> bool" where
  "occupied s \<longleftrightarrow> (\<forall>i < 3. tmnl_flags (tmnl_block s ! i) = TMNL_RUN \<and> 0 \<le> active_process (tmnl_block s ! i))"

definition all_run :: "kst \<Rightarrow> bool" where
  "all_run s \<longleftrightarrow> (\<forall>i < 3. tmnl_flags (tmnl_block s ! i) = TMNL_RUN \<and> 0 \<le> active_process (tmnl_block s ! i)) \<and>
     inj_on (proc_of s) {..<3}"

lemma all_run_occupied: "all_run s \<Longrightarrow> occupied s"
  by (simp add: all_run_def occupied_def)

text \<open>The state after a tick: \<open>i\<close> is the terminal that ran, \<open>j\<close> the next one.\<close>

definition switched :: "u32 \<Rightarrow> u32 \<Rightarrow> nat \<Rightarrow> nat \<Rightarrow> kst \<Rightarrow> kst \<Rightarrow> bool" where
  "switched esp ebp i j s t \<longleftrightarrow>
     exec_terminal t = int j \<and> active_terminal t = active_terminal s \<and> tmnl_block t = tmnl_block s \<and>
     pcb t = (pcb s)[proc_of s i := (pcb s ! proc_of s i)\<lparr>prev_sp := esp, prev_bp := ebp\<rparr>] \<and>
     paging_inv (Some (proc_of s j)) (pg t) \<and> tss_esp0 t = kernel_stack_top (int (proc_of s j)) \<and>
     tss_ss0 t = KERNEL_DS \<and> mem t = mem s \<and> fs t = fs s \<and> rtc_block t = rtc_block s \<and>
     (\<forall>f. vid_page f (pg s) \<longrightarrow> vid_page (if int j = active_terminal s then VIDEO else 0xB9000 + 0x1000 * j) (pg t))"

lemma remap_next:
  assumes "paging_inv prog p" and "j < 3"
  shows "\<exists>p'. remap_vidmem (if int j = a then -1 else int j) p = Some p' \<and> paging_inv prog p' \<and>
    (\<forall>f. vid_page f p \<longrightarrow> vid_page (if int j = a then VIDEO else 0xB9000 + 0x1000 * j) p')"
proof -
  define k where "k = (if int j = a then -1 else int j)"
  have k: "k \<in> {-1, 0, 1, 2}" "nat (0x1000 * (0xB8 + k + 1)) = (if int j = a then VIDEO else 0xB9000 + 0x1000 * j)"
    using assms(2) by (auto simp: k_def)
  show ?thesis
    using paging_inv_remap [OF assms(1) k(1)] remap_vidmem_page [OF assms(1) k(1)]
    unfolding k(2) k_def [symmetric] by fastforce
qed

lemma vid_page_process:
  assumes "vid_page f p" and "create_process_page pid p = Some p'"
  shows "vid_page f p'"
  using assms by (auto simp: create_process_page_def set_pde_def arr_set_def arr_get_def vid_page_def
      split: if_splits Option.bind_splits)

lemma kernel_stack_top_alt: "OFF_8MB - OFF_8KB * word_of_int pid - 4 = kernel_stack_top pid"
  by (simp add: kernel_stack_top_def algebra_simps)

lemma change_context_run:
  assumes "kernel_ok s" and "i < 3" and "j < 3" and "occupied s"
  shows "\<exists>t. change_context fr esp ebp (int (proc_of s i)) (int j) s =
      Some (Switch_stack (prev_sp (pcb t ! proc_of s j)) (prev_bp (pcb t ! proc_of s j)), t) \<and>
    kernel_ok t \<and> switched esp ebp i j s t \<and> port_log t = port_log s"
proof -
  note ok = kernel_okD [OF assms(1)]
  have act: "active_process (tmnl_block s ! k) = int (proc_of s k)" "proc_of s k < 6"
    "tmnl_flags (tmnl_block s ! k) = TMNL_RUN" if "k < 3" for k
    using assms(4) kernel_ok_tmnl [OF assms(1) that] that by (auto simp: occupied_def proc_of_def tmnl_ok_def)
  note ai = act [OF assms(2)] and aj = act [OF assms(3)]
  obtain prog where "paging_inv prog (pg s)" using assms(1) by (auto simp: kernel_ok_def)
  then obtain p1 where p1: "remap_vidmem (if int j = active_terminal s then -1 else int j) (pg s) = Some p1"
    "paging_inv prog p1" "\<forall>f. vid_page f (pg s) \<longrightarrow> vid_page (if int j = active_terminal s then VIDEO else 0xB9000 + 0x1000 * j) p1"
    using remap_next [OF _ assms(3)] by blast
  obtain p2 where p2: "create_process_page (word_of_nat (proc_of s j)) p1 = Some p2" "paging_inv (Some (proc_of s j)) p2"
    using paging_inv_process [OF p1(2) aj(2)] by blast
  let ?b = "(pcb s ! proc_of s i)\<lparr>prev_sp := esp, prev_bp := ebp\<rparr>"
  let ?t = "s\<lparr>pg := p2, tss_ss0 := KERNEL_DS, tss_esp0 := kernel_stack_top (int (proc_of s j)),
     pcb := (pcb s)[proc_of s i := ?b], exec_terminal := int j\<rparr>"
  have pb: "pb_ok ?b" using kernel_ok_pb [OF assms(1) ai(2)] by (simp add: pb_ok_def)
  have "kernel_ok ?t"
    using kernel_ok_upd_pb [OF assms(1) pb, of "proc_of s i"] p2(2) assms(3)
    by (auto simp: kernel_ok_def screen_ok_def)
  moreover have "switched esp ebp i j s ?t"
    using p1(3) p2 vid_page_process [OF _ p2(1)] by (auto simp: switched_def)
  moreover have "change_context fr esp ebp (int (proc_of s i)) (int j) s =
      Some (Switch_stack (prev_sp (pcb ?t ! proc_of s j)) (prev_bp (pcb ?t ! proc_of s j)), ?t)"
    using p1(1) p2(1) ok assms(2,3) ai aj
    by (simp add: change_context_def get_tmnl_in on_paging_def Let_def upd_pb_in switch_stacks_def get_pb_in
        kernel_stack_top_alt del: add_diff_eq)
  ultimately show ?thesis by (intro exI [of _ ?t]) simp
qed

lemma sched_handler_switches:
  assumes "kernel_ok s" and "occupied s" and "exec_terminal s = int i" and "j = Suc i mod 3"
  shows "\<exists>t. sched_handler fr esp ebp s =
      Some (Switch_stack (prev_sp (pcb t ! proc_of s j)) (prev_bp (pcb t ! proc_of s j)), t) \<and>
    kernel_ok t \<and> switched esp ebp i j s t \<and> port_log t = send_eoi 0 (port_log s)"
proof -
  let ?s = "on_ports (send_eoi 0) s"
  have i: "i < 3" "j < 3" using kernel_okD [OF assms(1)] assms(3,4) by auto
  have run: "occupied ?s" "kernel_ok ?s" using assms(1,2) by (simp_all add: occupied_def on_ports_def)
  obtain t where t: "change_context fr esp ebp (int (proc_of ?s i)) (int j) ?s =
      Some (Switch_stack (prev_sp (pcb t ! proc_of ?s j)) (prev_bp (pcb t ! proc_of ?s j)), t)"
    "kernel_ok t" "switched esp ebp i j ?s t" "port_log t = port_log ?s"
    using change_context_run [OF run(2) i run(1), of fr esp ebp] by blast
  have same: "proc_of ?s = proc_of s" "switched esp ebp i j ?s t = switched esp ebp i j s t"
    by (simp_all add: proc_of_def [abs_def] on_ports_def switched_def)
  have next_t: "(exec_terminal ?s + 1) mod NUM_TERMINAL = int j"
    using assms(3,4) by (simp add: on_ports_def zmod_int add.commute)
  have "get_tmnl (exec_terminal ?s) ?s = Some (tmnl_block s ! i)" "active_process (tmnl_block s ! i) = int (proc_of s i)"
    using assms(2,3) i kernel_okD [OF assms(1)] by (simp_all add: get_tmnl_in on_ports_def occupied_def proc_of_def)
  then have "sched_handler fr esp ebp s =
      Some (Switch_stack (prev_sp (pcb t ! proc_of s j)) (prev_bp (pcb t ! proc_of s j)), t)"
    using t(1) next_t by (simp add: sched_handler_def Let_def same)
  then show ?thesis using t same by (auto simp: on_ports_def)
qed

lemma sched_handler_run:
  assumes "kernel_ok s" and "all_run s" and "exec_terminal s = int i" and "j = Suc i mod 3"
  shows "\<exists>t. sched_handler fr esp ebp s =
      Some (Switch_stack (prev_sp (pcb t ! proc_of s j)) (prev_bp (pcb t ! proc_of s j)), t) \<and>
    kernel_ok t \<and> all_run t \<and> switched esp ebp i j s t \<and> port_log t = send_eoi 0 (port_log s)"
proof -
  obtain t where t: "sched_handler fr esp ebp s =
      Some (Switch_stack (prev_sp (pcb t ! proc_of s j)) (prev_bp (pcb t ! proc_of s j)), t)"
    "kernel_ok t" "switched esp ebp i j s t" "port_log t = send_eoi 0 (port_log s)"
    using sched_handler_switches [OF assms(1) all_run_occupied [OF assms(2)] assms(3,4)] by blast
  have "all_run t" using t(3) assms(2) by (simp add: switched_def all_run_def proc_of_def [abs_def])
  with t show ?thesis by blast
qed

subsection \<open>Starting the shells\<close>

abbreviation shell_name :: "u8 list" where "shell_name \<equiv> bytes_of ''shell''"

lemma shell_line: "cmd_line shell_command 0 shell_name 0 []" "\<not> is_exit shell_name" "0 \<notin> set shell_name"
proof -
  have "cstr shell_command shell_name"
    unfolding shell_command_def by (rule cstr_array) (simp add: bytes_of_def)
  then show "cmd_line shell_command 0 shell_name 0 []"
    by (auto simp: cmd_line_def bytes_of_def name_char_def)
qed (simp_all add: is_exit_def bytes_of_def)

lemma execute_shell: "execute fr (Some shell_command) s = run_program fr (padded_name shell_name) s"
proof -
  note nm = parse_name [OF shell_line(1)]
  have "shell_command (0 + length shell_name) = Some 0" by (simp add: shell_command_def lrd_def bytes_of_def)
  then have "parse_cmd shell_command (replicate 128 0) s = Some (6, shell_name @ replicate 123 0, s)"
    using nm by (simp add: parse_cmd_def Let_def)
  then show ?thesis
    using fill_spaces [of shell_name] exit_bool_iff [of shell_name] shell_line(2)
    by (simp add: execute_def del: upt_rec_numeral)
qed

text \<open>A tick in front of a terminal that has no process yet.\<close>

definition before_shell :: "u32 \<Rightarrow> u32 \<Rightarrow> int \<Rightarrow> nat \<Rightarrow> paging \<Rightarrow> kst \<Rightarrow> kst" where
  "before_shell esp ebp i j p s =
     (let t = s\<lparr>pg := p, tss_ss0 := KERNEL_DS, tss_esp0 := kernel_stack_top (-1)\<rparr>;
          u = (if i = -1 then t\<lparr>pcb_before := (pcb_before s)\<lparr>prev_sp := esp, prev_bp := ebp\<rparr>\<rparr>
               else t\<lparr>pcb := (pcb s)[nat i := (pcb s ! nat i)\<lparr>prev_sp := esp, prev_bp := ebp\<rparr>]\<rparr>)
      in u\<lparr>exec_terminal := int j,
           tmnl_block := (tmnl_block s)[j := (tmnl_block s ! j)\<lparr>tmnl_flags := TMNL_RUN\<rparr>]\<rparr>)"

lemma change_context_idle:
  assumes "length (tmnl_block s) = 3" and "length (pcb s) = 6" and "paging_inv prog (pg s)"
    and "-1 \<le> i" and "i < 6" and "j < 3"
    and "tmnl_flags (tmnl_block s ! j) = TMNL_IDLE" and "active_process (tmnl_block s ! j) = -1"
  shows "\<exists>p. paging_inv prog p \<and> change_context fr esp ebp i (int j) s =
    do { (c, s) \<leftarrow> run_program fr (padded_name shell_name) (before_shell esp ebp i j p s);
         case c of Returned _ \<Rightarrow> switch_stacks (-1) s | _ \<Rightarrow> Some (c, s) }"
proof -
  obtain p where p: "remap_vidmem (if int j = active_terminal s then -1 else int j) (pg s) = Some p" "paging_inv prog p"
    using remap_next [OF assms(3,6)] by blast
  have m: "kernel_stack_top (-1) = OFF_8MB - OFF_8KB * word_of_int (-1) - 4" by (simp add: kernel_stack_top_def)
  show ?thesis
    using p assms
    by (intro exI [of _ p]) (auto simp: change_context_def get_tmnl_in on_paging_def upd_pb_in upd_tmnl_in
        execute_shell before_shell_def m upd_pb_def arr_get_def arr_set_def Let_def
        cong: control.case_cong)
qed

text \<open>
  The stages of the boot: \<open>n\<close> shells run, in the terminals below \<open>n\<close>; the others wait. Before the
  first tick both terminal numbers are -1, and the tick saves the registers of the boot code in the
  block that the bytes before the terminals name.
\<close>

definition stage :: "nat \<Rightarrow> kst \<Rightarrow> bool" where
  "stage n s \<longleftrightarrow>
     kernel_ok (s\<lparr>active_terminal := 0, exec_terminal := int (n - 1)\<rparr>) \<and>
     active_terminal s = (if n = 0 then -1 else 0) \<and> exec_terminal s = int n - 1 \<and>
     (n = 0 \<longrightarrow> -1 \<le> active_process (tmnl_before s) \<and> active_process (tmnl_before s) < 6) \<and>
     (\<forall>i < 3. tmnl_flags (tmnl_block s ! i) = (if i < n then TMNL_RUN else TMNL_IDLE) \<and>
        active_process (tmnl_block s ! i) = (if i < n then int i else -1)) \<and>
     (\<forall>p < 6. pcb_free (pcb s) p \<longleftrightarrow> n \<le> p) \<and> (\<forall>i < n. parent (pcb s ! i) = -1)"

lemma stage_kernel_ok: "stage n s \<Longrightarrow> 0 < n \<Longrightarrow> kernel_ok s"
proof -
  assume st: "stage n s" and n: "0 < n"
  then have "s\<lparr>active_terminal := 0, exec_terminal := int (n - 1)\<rparr> = s"
    by (intro kst.equality) (auto simp: stage_def of_nat_diff)
  then show ?thesis using st by (simp add: stage_def)
qed

lemma before_shell_facts:
  fixes esp ebp :: u32 and i :: int
  assumes "kernel_ok (s\<lparr>active_terminal := 0, exec_terminal := e\<rparr>)" and "paging_inv prog p" and "j < 3"
  defines "u \<equiv> before_shell esp ebp i j p s"
  shows "kernel_ok (u\<lparr>active_terminal := 0\<rparr>)" "pcb_free (pcb u) = pcb_free (pcb s)"
    "q < 6 \<Longrightarrow> parent (pcb u ! q) = parent (pcb s ! q)" "length (pcb u) = 6" "active_terminal u = active_terminal s"
    "exec_terminal u = int j" "fs u = fs s" "fs_image u = fs_image s" "mem u = mem s" "port_log u = port_log s"
    "tmnl_block u = (tmnl_block s)[j := (tmnl_block s ! j)\<lparr>tmnl_flags := TMNL_RUN\<rparr>]"
proof -
  have len: "length (pcb s) = 6" and pbs: "\<forall>q < 6. pb_ok (pcb s ! q)" using assms(1) by (auto simp: kernel_ok_def)
  let ?f = "\<lambda>p. p\<lparr>prev_sp := esp, prev_bp := ebp\<rparr>"
  have pcb: "pcb u = (if i = -1 then pcb s else (pcb s)[nat i := ?f (pcb s ! nat i)])"
    by (simp add: u_def before_shell_def Let_def)
  show "length (pcb u) = 6" using len pcb by simp
  show "pcb_free (pcb u) = pcb_free (pcb s)"
    by (cases "nat i < 6") (auto simp: pcb len pcb_free_def fun_eq_iff nth_list_update list_update_beyond)
  show "q < 6 \<Longrightarrow> parent (pcb u ! q) = parent (pcb s ! q)"
    by (cases "nat i = q") (auto simp: pcb len)
  have "pb_ok (?f (pcb s ! q))" if "q < 6" for q using pbs that by (simp add: pb_ok_def)
  then have "pb_ok (pcb u ! q)" if "q < 6" for q
    using pbs len that by (cases "nat i = q") (auto simp: pcb)
  then have "\<forall>b \<in> set (pcb u). pb_ok b"
    using \<open>length (pcb u) = 6\<close> by (auto simp: in_set_conv_nth)
  moreover have "tmnl_ok j ((tmnl_block s ! j)\<lparr>tmnl_flags := TMNL_RUN\<rparr>)"
    using assms(1,3) by (simp add: kernel_ok_def tmnl_ok_def)
  ultimately show "kernel_ok (u\<lparr>active_terminal := 0\<rparr>)"
    using assms(1-3) \<open>length (pcb u) = 6\<close>
    by (auto simp: u_def before_shell_def Let_def kernel_ok_def screen_ok_def nth_list_update split: if_splits)
qed (simp_all add: u_def before_shell_def Let_def fs_image_def fun_eq_iff)

lemma new_pid_stage:
  assumes "kernel_ok (u\<lparr>active_terminal := 0\<rparr>)" and "frame_ok fr" and "\<forall>p < 6. pcb_free (pcb u) p \<longleftrightarrow> n \<le> p" and "n < 3"
    and "active_terminal u = (if n = 0 then -1 else 0)"
    and "n = 0 \<Longrightarrow> active_process (tmnl_block u ! 0) = -1"
  shows "new_pid fr u = Some (int n, with_process fr n (u\<lparr>active_terminal := 0\<rparr>))"
proof -
  have free: "find (pcb_free (pcb u)) [0..<6] = Some n"
    using assms(3,4) by (auto simp: find_upt_Some simp del: upt_rec_numeral)
  show ?thesis
  proof (cases "n = 0")
    case True
    then have sh: "shown (u\<lparr>active_terminal := 0\<rparr>) = -1" using assms(6) by (simp add: shown_def)
    have ex: "(fresh_pb (frame_process fr) (-1))\<lparr>pb_flags := PCB_EXISTS\<rparr> = fresh_pb (frame_process fr) (-1)"
      by (simp add: fresh_pb_def)
    have "create_process (frame_process fr) (-1) u = Some (0, u\<lparr>pcb := (pcb u)[0 := fresh_pb (frame_process fr) (-1)]\<rparr>)"
      using create_process_slots [of u "frame_process fr" "-1"] kernel_okD(2) [OF assms(1)] assms(2) free True ex
      by (simp add: frame_ok_def procs.alloc_def pcb_fill_def del: upt_rec_numeral)
    then show ?thesis using True assms(5) sh by (simp add: new_pid_def with_process_def)
  next
    case False
    then have "u\<lparr>active_terminal := 0\<rparr> = u" using assms(5) by (intro kst.equality) simp_all
    then show ?thesis using new_pid_eq [of u fr] assms(1,2) free by (simp del: upt_rec_numeral)
  qed
qed

lemma stage_tick:
  assumes "stage n s" and "n < 3" and "frame_ok fr" and "program s ds shell_name cur bytes"
  shows "\<exists>t. sched_handler fr esp ebp s = Some (Enter_user [entry_word bytes, USER_CS, 0x200, USER_ESP, USER_DS], t) \<and>
    stage (Suc n) t \<and> paging_inv (Some n) (pg t) \<and> tss_esp0 t = kernel_stack_top (int n) \<and>
    (\<forall>k < length bytes. uview t (PROGRAM_START + k) = Some (bytes ! k)) \<and>
    fs t = fs s \<and> fs_image t = fs_image s"
proof -
  let ?s = "on_ports (send_eoi 0) s"
  have st: "active_terminal s = (if n = 0 then -1 else 0)" "exec_terminal s = int n - 1"
    "kernel_ok (s\<lparr>active_terminal := 0, exec_terminal := int (n - 1)\<rparr>)"
    "n = 0 \<Longrightarrow> -1 \<le> active_process (tmnl_before s) \<and> active_process (tmnl_before s) < 6"
    "\<forall>p < 6. pcb_free (pcb s) p \<longleftrightarrow> n \<le> p" "\<forall>i < n. parent (pcb s ! i) = -1"
    using assms(1) by (auto simp: stage_def)
  have tm: "tmnl_flags (tmnl_block s ! k) = (if k < n then TMNL_RUN else TMNL_IDLE)"
      "active_process (tmnl_block s ! k) = (if k < n then int k else -1)" if "k < 3" for k
    using assms(1) that by (auto simp: stage_def)
  define i where "i = (if n = 0 then active_process (tmnl_before s) else int (n - 1))"
  obtain prog where inv: "paging_inv prog (pg ?s)" using st(3) by (auto simp: kernel_ok_def on_ports_def)
  have len: "length (tmnl_block s) = 3" "length (pcb s) = 6" using st(3) by (simp_all add: kernel_ok_def)
  have "get_tmnl (exec_terminal ?s) ?s = Some (if n = 0 then tmnl_before s else tmnl_block s ! (n - 1))"
    using st(2) len assms(2) by (auto simp: get_tmnl_def on_ports_def arr_get_def nat_diff_distrib)
  moreover have next_t: "(exec_terminal ?s + 1) mod NUM_TERMINAL = int n"
    using st(2) assms(2) by (simp add: on_ports_def)
  moreover have "active_process (tmnl_block s ! (n - 1)) = int (n - 1)" if "n \<noteq> 0"
    using tm(2) [of "n - 1"] that assms(2) by simp
  ultimately have sched: "sched_handler fr esp ebp s = change_context fr esp ebp i (int n) ?s"
    by (auto simp: sched_handler_def Let_def i_def)
  have i: "-1 \<le> i" "i < 6" using st(4) assms(2) by (auto simp: i_def)
  obtain p where p: "paging_inv prog p" "change_context fr esp ebp i (int n) ?s =
      do { (c, s) \<leftarrow> run_program fr (padded_name shell_name) (before_shell esp ebp i n p ?s);
           case c of Returned _ \<Rightarrow> switch_stacks (-1) s | _ \<Rightarrow> Some (c, s) }"
    using change_context_idle [of ?s prog i n fr esp ebp] len inv i assms(2) tm [OF assms(2)]
    by (auto simp: on_ports_def)
  define u where "u = before_shell esp ebp i n p ?s"
  let ?k = "u\<lparr>active_terminal := 0\<rparr>" and ?w = "with_process fr n (u\<lparr>active_terminal := 0\<rparr>)"
  have "kernel_ok (?s\<lparr>active_terminal := 0, exec_terminal := int (n - 1)\<rparr>)"
    using st(3) by (simp add: kernel_ok_def screen_ok_def on_ports_def)
  note f = before_shell_facts [OF this p(1) assms(2), where esp = esp and ebp = ebp and i = i, folded u_def]
  have same: "pcb ?s = pcb s" "fs ?s = fs s" "fs_image ?s = fs_image s" "tmnl_block ?s = tmnl_block s"
    "active_terminal ?s = active_terminal s" "mem ?s = mem s" by (simp_all add: on_ports_def fs_image_def fun_eq_iff)
  note f = f [unfolded same]
  have img: "fs_image ?k = fs_image s" "fs ?k = fs s" using f(7,9) by (simp_all add: fs_image_def fun_eq_iff)
  have prog: "program ?k ds shell_name cur bytes" using assms(4) unfolding program_def img .
  have found: "exec_dentry fr (padded_name shell_name) u = Some (Some (set_dentry cur (frame_dentry fr)))"
  proof -
    have v: "kview ?k = kview u" "fs ?k = fs u" by (simp_all add: kview_def)
    show ?thesis using program_found [OF f(1) assms(3) prog shell_line(3)] unfolding exec_dentry_def v .
  qed
  have free: "\<forall>p < 6. pcb_free (pcb u) p \<longleftrightarrow> n \<le> p" using st(5) unfolding f(2) .
  have idle: "n = 0 \<Longrightarrow> active_process (tmnl_block u ! 0) = -1" using tm(2) [of 0] len by (simp add: f(11))
  have act: "active_terminal u = (if n = 0 then -1 else 0)" using st(1) by (simp add: f(5))
  note pid = new_pid_stage [OF f(1) assms(3) free assms(2) act idle]
  note w = with_process_ok [OF f(1) assms(3)]
  have "program ?w ds shell_name cur bytes" using prog unfolding program_def w .
  then obtain q where q: "run_program fr (padded_name shell_name) u =
      Some (Enter_user [entry_word bytes, USER_CS, 0x200, USER_ESP, USER_DS], entered fr n bytes q ?w)"
    "paging_inv (Some n) q" "kernel_ok (entered fr n bytes q ?w)"
    using run_program_from [OF found pid w(1) assms(3)] assms(2) by force
  let ?t = "entered fr n bytes q ?w"
  have run: "sched_handler fr esp ebp s = Some (Enter_user [entry_word bytes, USER_CS, 0x200, USER_ESP, USER_DS], ?t)"
    using q(1) p(2) by (simp add: sched u_def)
  have max: "length bytes \<le> PROGRAM_MAX" using assms(4) by (simp add: program_def)
  have n6: "n < 6" and home: "home_terminal n ?k = n" using assms(2) by (simp_all add: home_terminal_def)
  note e = entered_facts [where fr = fr, OF f(1) n6 q(2) max, unfolded home]
  have stage: "stage (Suc n) ?t"
    unfolding stage_def
  proof (intro conjI allI impI)
    have "?t\<lparr>active_terminal := 0, exec_terminal := int (Suc n - 1)\<rparr> = ?t"
      using e(5,6) assms(2) by (intro kst.equality) simp_all
    then show "kernel_ok (?t\<lparr>active_terminal := 0, exec_terminal := int (Suc n - 1)\<rparr>)" using q(3) by simp
    show "active_terminal ?t = (if Suc n = 0 then -1 else 0)" "exec_terminal ?t = int (Suc n) - 1"
      using e(5,6) assms(2) by simp_all
    fix k :: nat assume k: "k < 3"
    show "active_process (tmnl_block ?t ! k) = (if k < Suc n then int k else -1)"
      using e(7) e(8) [of k] tm(2) [OF k] len by (cases "k = n") (auto simp: f(11) nth_list_update)
    have "tmnl_flags (tmnl_block ?t ! k) = tmnl_flags (tmnl_block u ! k)"
      using home assms(2) f(11) len k
      by (auto simp: entered_def placed_def with_process_def home_terminal_def Let_def nth_list_update)
    then show "tmnl_flags (tmnl_block ?t ! k) = (if k < Suc n then TMNL_RUN else TMNL_IDLE)"
      using tm(1) [OF k] len k by (cases "k = n") (auto simp: f(11))
  next
    fix r :: nat assume r: "r < 6"
    show "pcb_free (pcb ?t) r \<longleftrightarrow> Suc n \<le> r"
      using e(9) [of r] e(10) free r by (cases "r = n") (auto simp: pcb_free_def)
  next
    fix r assume r: "r < Suc n"
    show "parent (pcb ?t ! r) = -1"
      using e(9) [of r] e(11) f(3) [of r] st(6) r assms(2) by (cases "r = n") auto
  qed auto
  have "uview ?t (PROGRAM_START + k) = Some (bytes ! k)" if "k < length bytes" for k
    using uview_image [where pid = n and s = ?t, OF _ e(4) max that] e(1) q(2) by simp
  then show ?thesis using run stage q(2) e(1,2,15,16) img by auto
qed

subsection \<open>Properties\<close>

text \<open>C13. One tick while every terminal runs a process: the processor goes on with the process of the
  next terminal, at the registers its block holds, in its own page and with its own kernel stack;
  the registers of the interrupted process are saved in its block, the interrupt is acknowledged,
  and a program that has the video page sees the screen through it exactly if its terminal is on
  display, and the saved screen of its terminal otherwise.\<close>

theorem tick_switches:
  assumes "kernel_ok s" and "all_run s" and "exec_terminal s = int i" and "j = Suc i mod 3"
  shows "\<exists>t. sched_handler fr esp ebp s =
      Some (Switch_stack (prev_sp (pcb t ! proc_of s j)) (prev_bp (pcb t ! proc_of s j)), t) \<and>
    kernel_ok t \<and> switched esp ebp i j s t \<and> port_log t = send_eoi 0 (port_log s) \<and>
    (\<forall>f k. vid_page f (pg s) \<and> k < 0x1000 \<longrightarrow> user_xlat (pg t) (0x8800000 + k) =
       Some ((if int j = active_terminal s then VIDEO else vidmem_ptr (tmnl_block s ! j)) + k))"
proof -
  obtain t where t: "sched_handler fr esp ebp s =
      Some (Switch_stack (prev_sp (pcb t ! proc_of s j)) (prev_bp (pcb t ! proc_of s j)), t)"
    "kernel_ok t" "switched esp ebp i j s t" "port_log t = send_eoi 0 (port_log s)"
    using sched_handler_run [OF assms] by blast
  have "j < 3" using assms(4) by simp
  then have "vidmem_ptr (tmnl_block s ! j) = 0xB9000 + 0x1000 * j"
    using kernel_ok_tmnl [OF assms(1)] by (simp add: tmnl_ok_def)
  then show ?thesis
    using t user_vid_page [of "Some (proc_of s j)" "pg t"]
    by (intro exI [of _ t]) (auto simp: switched_def)
qed

text \<open>The kernel of the instances runs the processes 0, 1 and 2.\<close>

lemma program_kernel_runs: "kernel_ok program_kernel" "all_run program_kernel" "proc_of program_kernel i = (if i < 3 then i else proc_of program_kernel i)"
proof -
  show "kernel_ok program_kernel" by (rule runningD(1) [OF program_kernel_running(1)])
  have t: "tmnl_block program_kernel = map booted_tmnl [0..<3]"
    by (simp add: program_kernel_def reading_kernel_def running_kernel_def booted_kernel_def)
  then have p: "proc_of program_kernel i = i" if "i < 3" for i
    using that by (simp add: proc_of_def booted_tmnl_def del: upt_rec_numeral)
  then show "proc_of program_kernel i = (if i < 3 then i else proc_of program_kernel i)" by simp
  have "inj_on (proc_of program_kernel) {..<3}" using p by (auto intro: inj_onI)
  then show "all_run program_kernel" using t by (auto simp: all_run_def booted_tmnl_def simp del: upt_rec_numeral)
qed

theorem tick_switches_witness:
  "\<exists>t c. sched_handler sample_frame 0x7FDF00 0x7FDF80 program_kernel = Some (c, t) \<and> kernel_ok t \<and>
     exec_terminal t = 1 \<and> prev_sp (pcb t ! 0) = 0x7FDF00"
proof -
  have len: "length (pcb program_kernel) = 6" by (rule kernel_okD(2) [OF program_kernel_runs(1)])
  have p: "proc_of program_kernel 0 = 0" using program_kernel_runs(3) [of 0] by simp
  show ?thesis
    using tick_switches [OF program_kernel_runs(1,2), of 0 1 sample_frame "0x7FDF00" "0x7FDF80"]
      program_kernel_terminals len p by (auto simp: switched_def)
qed

text \<open>
  What may happen between two ticks, as far as the terminal \<open>i\<close> is concerned: anything the other
  processes do (they may start and end programs) that leaves the process of \<open>i\<close> and the registers
  saved for it alone.
\<close>

definition undisturbed :: "nat \<Rightarrow> kst \<Rightarrow> kst \<Rightarrow> bool" where
  "undisturbed i s t \<longleftrightarrow> kernel_ok t \<and> all_run t \<and> exec_terminal t = exec_terminal s \<and> proc_of t i = proc_of s i \<and>
     prev_sp (pcb t ! proc_of s i) = prev_sp (pcb s ! proc_of s i) \<and>
     prev_bp (pcb t ! proc_of s i) = prev_bp (pcb s ! proc_of s i)"

lemma switched_keeps:
  assumes "switched esp ebp i j s t" and "all_run s" and "k < 3" and "i < 3" and "k \<noteq> i"
  shows "pcb t ! proc_of s k = pcb s ! proc_of s k" "proc_of t = proc_of s"
proof -
  have "proc_of s k \<noteq> proc_of s i" using assms(2-5) by (auto simp: all_run_def inj_on_def)
  then show "pcb t ! proc_of s k = pcb s ! proc_of s k" using assms(1) by (simp add: switched_def)
  show "proc_of t = proc_of s" using assms(1) by (simp add: switched_def proc_of_def [abs_def])
qed

text \<open>C3. Round robin: after three ticks the process that ran goes on exactly where it was interrupted,
  with the stack registers it had, in its own page and with its own kernel stack, whatever the
  processes of the other terminals did in the time between.\<close>

theorem round_robin_resumes:
  assumes "kernel_ok s" and "all_run s" and "i = nat (exec_terminal s)"
  shows "\<exists>c1 s1. sched_handler fr esp ebp s = Some (c1, s1) \<and> undisturbed i s1 s1 \<and>
    (\<forall>s1'. undisturbed i s1 s1' \<longrightarrow>
      (\<exists>c2 s2. sched_handler fr' esp' ebp' s1' = Some (c2, s2) \<and> undisturbed i s2 s2 \<and>
        (\<forall>s2'. undisturbed i s2 s2' \<longrightarrow>
          (\<exists>s3. sched_handler fr'' esp'' ebp'' s2' = Some (Switch_stack esp ebp, s3) \<and>
             exec_terminal s3 = exec_terminal s \<and> proc_of s3 i = proc_of s i \<and>
             paging_inv (Some (proc_of s i)) (pg s3) \<and> tss_esp0 s3 = kernel_stack_top (int (proc_of s i))))))"
proof -
  let ?j = "Suc i mod 3" and ?k = "Suc (Suc i mod 3) mod 3"
  have i: "i < 3" "exec_terminal s = int i" using assms(3) kernel_okD [OF assms(1)] by auto
  then have "i = 0 \<or> i = 1 \<or> i = 2" by auto
  then have jk: "?j < 3" "?k < 3" "i \<noteq> ?j" "i \<noteq> ?k" "Suc ?k mod 3 = i" by auto
  obtain c1 s1 where s1: "sched_handler fr esp ebp s = Some (c1, s1)" "switched esp ebp i ?j s s1"
    "kernel_ok s1" "all_run s1" using sched_handler_run [OF assms(1,2) i(2) refl] by blast
  then have self1: "undisturbed i s1 s1" by (simp add: undisturbed_def)
  have "proc_of s i < 6" using kernel_ok_tmnl [OF assms(1) i(1)] by (auto simp: proc_of_def tmnl_ok_def)
  then have reg1: "prev_sp (pcb s1 ! proc_of s i) = esp" "prev_bp (pcb s1 ! proc_of s i) = ebp"
    using s1(2) kernel_okD(2) [OF assms(1)] by (simp_all add: switched_def)
  have p1: "proc_of s1 = proc_of s" "exec_terminal s1 = int ?j"
    using s1(2) by (simp_all add: switched_def proc_of_def [abs_def])
  have "\<exists>c2 s2. sched_handler fr' esp' ebp' s1' = Some (c2, s2) \<and> undisturbed i s2 s2 \<and>
        (\<forall>s2'. undisturbed i s2 s2' \<longrightarrow>
          (\<exists>s3. sched_handler fr'' esp'' ebp'' s2' = Some (Switch_stack esp ebp, s3) \<and>
             exec_terminal s3 = exec_terminal s \<and> proc_of s3 i = proc_of s i \<and>
             paging_inv (Some (proc_of s i)) (pg s3) \<and> tss_esp0 s3 = kernel_stack_top (int (proc_of s i))))"
    if u1: "undisturbed i s1 s1'" for s1'
  proof -
    have ok1: "kernel_ok s1'" "all_run s1'" "exec_terminal s1' = int ?j" "proc_of s1' i = proc_of s i"
      using u1 p1 by (simp_all add: undisturbed_def)
    obtain c2 s2 where s2: "sched_handler fr' esp' ebp' s1' = Some (c2, s2)" "switched esp' ebp' ?j ?k s1' s2"
      "kernel_ok s2" "all_run s2" using sched_handler_run [OF ok1(1,2,3) refl] by blast
    then have self2: "undisturbed i s2 s2" by (simp add: undisturbed_def)
    note k2 = switched_keeps [OF s2(2) ok1(2) i(1) jk(1,3)]
    have p2: "exec_terminal s2 = int ?k" "proc_of s2 i = proc_of s i"
      "prev_sp (pcb s2 ! proc_of s i) = esp" "prev_bp (pcb s2 ! proc_of s i) = ebp"
      using s2(2) k2 u1 reg1 ok1(4) p1(1) by (simp_all add: switched_def undisturbed_def)
    have "\<exists>s3. sched_handler fr'' esp'' ebp'' s2' = Some (Switch_stack esp ebp, s3) \<and>
             exec_terminal s3 = exec_terminal s \<and> proc_of s3 i = proc_of s i \<and>
             paging_inv (Some (proc_of s i)) (pg s3) \<and> tss_esp0 s3 = kernel_stack_top (int (proc_of s i))"
      if u2: "undisturbed i s2 s2'" for s2'
    proof -
      have ok2: "kernel_ok s2'" "all_run s2'" "exec_terminal s2' = int ?k" "proc_of s2' i = proc_of s i"
        using u2 p2 by (simp_all add: undisturbed_def)
      obtain s3 where s3: "sched_handler fr'' esp'' ebp'' s2' =
          Some (Switch_stack (prev_sp (pcb s3 ! proc_of s2' i)) (prev_bp (pcb s3 ! proc_of s2' i)), s3)"
        "switched esp'' ebp'' ?k i s2' s3"
        using sched_handler_run [OF ok2(1,2,3) jk(5) [symmetric]] by blast
      note k3 = switched_keeps [OF s3(2) ok2(2) i(1) jk(2,4)]
      have "prev_sp (pcb s3 ! proc_of s i) = esp" "prev_bp (pcb s3 ! proc_of s i) = ebp"
        using k3(1) u2 p2 ok2(4) by (simp_all add: undisturbed_def)
      then show ?thesis using s3 k3(2) ok2(4) i(2) by (auto simp: switched_def)
    qed
    with s2(1) self2 show ?thesis by blast
  qed
  with s1(1) self1 show ?thesis by blast
qed

theorem round_robin_resumes_witness:
  "\<exists>c1 s1 c2 s2 s3. sched_handler sample_frame 0x7FDF00 0x7FDF80 program_kernel = Some (c1, s1) \<and>
     sched_handler sample_frame 0 0 s1 = Some (c2, s2) \<and>
     sched_handler sample_frame 0 0 s2 = Some (Switch_stack 0x7FDF00 0x7FDF80, s3) \<and> exec_terminal s3 = 0"
  using round_robin_resumes [OF program_kernel_runs(1,2), of 0 sample_frame "0x7FDF00" "0x7FDF80" sample_frame 0 0 sample_frame 0 0]
    program_kernel_terminals by (simp del: zero_le_numeral) blast

text \<open>C6. Booting: from the state \<open>init_terminal\<close> and \<open>init_pcb\<close> leave, with a program named \<open>shell\<close> in the
  file system, each of the first three ticks starts the shell of the next terminal: shell \<open>n\<close> is the
  process \<open>n\<close>, without parent, enters user level at its entry point with its file in its own page,
  and terminal 0 goes on display. After three ticks every terminal runs a process.\<close>

theorem boot_starts_shells:
  assumes "stage n s" and "frame_ok fr" and "program s ds shell_name cur bytes"
  shows "(n < 3 \<longrightarrow> (\<exists>t. sched_handler fr esp ebp s =
        Some (Enter_user [entry_word bytes, USER_CS, 0x200, USER_ESP, USER_DS], t) \<and>
      stage (Suc n) t \<and> program t ds shell_name cur bytes \<and>
      paging_inv (Some n) (pg t) \<and> tss_esp0 t = kernel_stack_top (int n) \<and>
      (\<forall>k < length bytes. uview t (PROGRAM_START + k) = Some (bytes ! k)))) \<and>
    (n = 3 \<longrightarrow> kernel_ok s \<and> all_run s)"
proof (intro conjI impI)
  assume "n < 3"
  then obtain t where "sched_handler fr esp ebp s = Some (Enter_user [entry_word bytes, USER_CS, 0x200, USER_ESP, USER_DS], t)"
    "stage (Suc n) t" "paging_inv (Some n) (pg t)" "tss_esp0 t = kernel_stack_top (int n)"
    "\<forall>k < length bytes. uview t (PROGRAM_START + k) = Some (bytes ! k)" "fs t = fs s" "fs_image t = fs_image s"
    using stage_tick [OF assms(1) _ assms(2,3)] by blast
  then show "\<exists>t. sched_handler fr esp ebp s =
        Some (Enter_user [entry_word bytes, USER_CS, 0x200, USER_ESP, USER_DS], t) \<and>
      stage (Suc n) t \<and> program t ds shell_name cur bytes \<and>
      paging_inv (Some n) (pg t) \<and> tss_esp0 t = kernel_stack_top (int n) \<and>
      (\<forall>k < length bytes. uview t (PROGRAM_START + k) = Some (bytes ! k))"
    using assms(3) by (auto simp: program_def)
next
  assume n: "n = 3"
  then show "kernel_ok s" using stage_kernel_ok [OF assms(1)] by simp
  have t: "\<forall>i < 3. tmnl_flags (tmnl_block s ! i) = TMNL_RUN \<and> active_process (tmnl_block s ! i) = int i"
    using assms(1) n by (simp add: stage_def)
  then have "\<forall>i < 3. proc_of s i = i" by (simp add: proc_of_def)
  then have "inj_on (proc_of s) {..<3}" by (auto intro!: inj_onI)
  then show "all_run s" using t by (auto simp: all_run_def)
qed

text \<open>A kernel before its first tick.\<close>

definition shell_dir :: "dentry list" where
  "shell_dir = [sample_dir ! 0, (sample_dir ! 1)\<lparr>file_name := shell_name @ replicate 27 0\<rparr>]"

definition boot_kernel :: kst where
  "boot_kernel = program_kernel
     \<lparr>active_terminal := -1, exec_terminal := -1,
      tmnl_block := map (\<lambda>i. (booted_tmnl i)\<lparr>active_process := -1, tmnl_flags := TMNL_IDLE\<rparr>) [0..<3],
      pcb := replicate 6 (booted_pb PCB_ABSENT), mem := poke (OFF_4MB + 128) shell_name (mem program_kernel)\<rparr>"

lemma boot_kernel_stage: "stage 0 boot_kernel"
proof -
  have k: "kernel_ok program_kernel" by (rule program_kernel_runs(1))
  have "tmnl_ok i ((booted_tmnl i)\<lparr>active_process := -1, tmnl_flags := TMNL_IDLE\<rparr>)" for i
    by (simp add: tmnl_ok_def booted_tmnl_def)
  moreover have "pb_ok (booted_pb PCB_ABSENT)" by (simp add: pb_ok_def booted_pb_def blank_fd_def)
  ultimately have "kernel_ok (boot_kernel\<lparr>active_terminal := 0, exec_terminal := 0\<rparr>)"
    using k by (auto simp: boot_kernel_def kernel_ok_def screen_ok_def simp del: upt_rec_numeral)
  then show ?thesis
    by (auto simp: stage_def boot_kernel_def pcb_free_def booted_pb_def program_kernel_def reading_kernel_def
        running_kernel_def booted_kernel_def booted_tmnl_def simp del: upt_rec_numeral)
qed

lemma boot_kernel_program: "program boot_kernel shell_dir shell_name (shell_dir ! 1) sample_elf"
proof -
  have fs: "fs boot_kernel = image_fs" by (simp add: boot_kernel_def program_kernel_def reading_kernel_image(1))
  have img: "fs_image boot_kernel a = (if OFF_4MB \<le> a \<and> a < OFF_8MB then
     Some (poke (OFF_4MB + 128) shell_name (poke (OFF_4MB + 12288) sample_elf
       ((mem reading_kernel)(OFF_4MB + 4096 := 28))) a) else None)" for a
    by (simp add: boot_kernel_def program_kernel_def fs_image_def)
  note simps = img reading_kernel_def poke_def sample_elf
  have "load_dentry (fs_image boot_kernel) (dentry_addr image_fs 0) = Some (shell_dir ! 0)"
    "load_dentry (fs_image boot_kernel) (dentry_addr image_fs 1) = Some (shell_dir ! 1)"
    by (simp_all add: load_dentry_def dentry_addr_def image_fs_def sample_dir_def shell_dir_def sample_image_def
        rd32_def le32_def unfold_replicate bytes_of_def simps)
  moreover have "num_dentries image_fs = 2" "length shell_dir = 2"
    by (simp_all add: image_fs_def shell_dir_def)
  ultimately have "dir_ok (fs_image boot_kernel) image_fs shell_dir"
    by (auto simp: dir_ok_def less_2_cases_iff)
  moreover have "file_ok (fs_image boot_kernel) image_fs 0 sample_elf"
    by (auto simp: file_ok_def inode_length_def inode_data_def inode_addr_def data_addr_def rd32_def
        le32_def sample_image_def image_fs_def bytes_of_def simps)
  moreover have "find (\<lambda>d. dentry_name d = shell_name) shell_dir = Some (shell_dir ! 1)"
    by (simp add: shell_dir_def sample_dir_def dentry_name_def bytes_of_def)
  ultimately show ?thesis
    using sample_elf by (simp add: program_def fs) (simp add: shell_dir_def sample_dir_def)
qed

theorem boot_starts_shells_witness:
  "\<exists>t. sched_handler sample_frame 0 0 boot_kernel =
       Some (Enter_user [0x8048000, USER_CS, 0x200, USER_ESP, USER_DS], t) \<and>
     stage 1 t \<and> program t shell_dir shell_name (shell_dir ! 1) sample_elf"
  using boot_starts_shells [OF boot_kernel_stage sample_frame_ok boot_kernel_program, of 0 0]
  by (auto simp: sample_elf(3))

end
