(* ===== verification/Idt.thy ===== *)
theory Idt
  imports Scheduler
begin

text \<open>
  The interrupt descriptor table of \<^verbatim>\<open>student-distrib/set_idt.c\<close> and \<^verbatim>\<open>x86_desc.h\<close>, and the exception
  handlers. An entry of the table is the record \<open>idt_desc\<close>, one field per bit field of the C union;
  \<open>desc_low\<close> and \<open>desc_high\<close> are the two words the processor reads. The addresses of the handlers,
  which the linker chooses, are the parameter \<open>addr\<close>.

  The lemmas show what the processor finds in an entry after \<open>init_idt\<close>; the properties that only the
  system call gate is open to user level, and that an exception ends the program that caused it.
\<close>

subsection \<open>Exception handlers\<close>

text \<open>What all of them do, each with its own message.\<close>

definition report_and_halt :: "string \<Rightarrow> kst \<Rightarrow> (control \<times> kst) option" where
  "report_and_halt msg s =
     do { s \<leftarrow> clear s;
          s \<leftarrow> kprintf (msg @ [CHR 0x0A]) [] s;
          halt 0 s }"

definition assertion_failure :: "kst \<Rightarrow> (control \<times> kst) option" where
  "assertion_failure = report_and_halt '' assertion failure''"
definition div_err :: "kst \<Rightarrow> (control \<times> kst) option" where
  "div_err = report_and_halt '' dividing by zero''"
definition debug :: "kst \<Rightarrow> (control \<times> kst) option" where
  "debug = report_and_halt '' debug''"
definition nmi_int :: "kst \<Rightarrow> (control \<times> kst) option" where
  "nmi_int = report_and_halt '' non-maskable interrupt''"
definition breakpoint :: "kst \<Rightarrow> (control \<times> kst) option" where
  "breakpoint = report_and_halt '' breakpoint detected''"
definition overflow :: "kst \<Rightarrow> (control \<times> kst) option" where
  "overflow = report_and_halt '' overflow detected''"
definition bound_range_exceeded :: "kst \<Rightarrow> (control \<times> kst) option" where
  "bound_range_exceeded = report_and_halt '' bound range exceeded''"
definition invalid_opcode :: "kst \<Rightarrow> (control \<times> kst) option" where
  "invalid_opcode = report_and_halt '' invalid opcode''"
definition device_not_available :: "kst \<Rightarrow> (control \<times> kst) option" where
  "device_not_available = report_and_halt '' device not available''"
definition double_fault :: "kst \<Rightarrow> (control \<times> kst) option" where
  "double_fault = report_and_halt '' double fault''"
definition coprocessor_segment_overrun :: "kst \<Rightarrow> (control \<times> kst) option" where
  "coprocessor_segment_overrun = report_and_halt '' coprocessor segment overrun''"
definition invalid_tss :: "kst \<Rightarrow> (control \<times> kst) option" where
  "invalid_tss = report_and_halt '' invalid tss''"
definition segment_not_present :: "kst \<Rightarrow> (control \<times> kst) option" where
  "segment_not_present = report_and_halt '' segment not present''"
definition stack_segment_fault :: "kst \<Rightarrow> (control \<times> kst) option" where
  "stack_segment_fault = report_and_halt '' stack segment fault''"
definition general_protection :: "kst \<Rightarrow> (control \<times> kst) option" where
  "general_protection = report_and_halt '' general protection''"
definition page_fault :: "kst \<Rightarrow> (control \<times> kst) option" where
  "page_fault = report_and_halt '' page fault''"
definition reserved_exception :: "kst \<Rightarrow> (control \<times> kst) option" where
  "reserved_exception = report_and_halt '' reserved''"
definition floating_point_error :: "kst \<Rightarrow> (control \<times> kst) option" where
  "floating_point_error = report_and_halt '' floating point error''"
definition alignment_check :: "kst \<Rightarrow> (control \<times> kst) option" where
  "alignment_check = report_and_halt '' alignment check''"
definition machine_check :: "kst \<Rightarrow> (control \<times> kst) option" where
  "machine_check = report_and_halt '' machine check''"
definition simd_floating_point_exception :: "kst \<Rightarrow> (control \<times> kst) option" where
  "simd_floating_point_exception = report_and_halt '' simd floating point exception''"

text \<open>The functions whose addresses the table holds.\<close>

datatype handler =
    Assertion_failure
  | Div_err
  | Debug
  | Nmi_int
  | Breakpoint
  | Overflow
  | Bound_range_exceeded
  | Invalid_opcode
  | Device_not_available
  | Double_fault
  | Coprocessor_segment_overrun
  | Invalid_tss
  | Segment_not_present
  | Stack_segment_fault
  | General_protection
  | Page_fault
  | Reserved_exception
  | Floating_point_error
  | Alignment_check
  | Machine_check
  | Simd_floating_point_exception
  | Rtc_wrapper | Keyboard_wrapper | Syscall_wrapper | Sched_pit_wrapper

definition handlers :: "handler list" where
  "handlers =
     [Div_err, Debug, Nmi_int, Breakpoint,
      Overflow, Bound_range_exceeded, Invalid_opcode, Device_not_available,
      Double_fault, Coprocessor_segment_overrun, Invalid_tss, Segment_not_present,
      Stack_segment_fault, General_protection, Page_fault, Assertion_failure,
      Floating_point_error, Alignment_check, Machine_check, Simd_floating_point_exception] @
     replicate 12 Reserved_exception"

text \<open>The body an exception vector runs; the wrappers are the parts of the other theories.\<close>

fun exception :: "handler \<Rightarrow> kst \<Rightarrow> (control \<times> kst) option" where
  "exception Assertion_failure = assertion_failure"
| "exception Div_err = div_err"
| "exception Debug = debug"
| "exception Nmi_int = nmi_int"
| "exception Breakpoint = breakpoint"
| "exception Overflow = overflow"
| "exception Bound_range_exceeded = bound_range_exceeded"
| "exception Invalid_opcode = invalid_opcode"
| "exception Device_not_available = device_not_available"
| "exception Double_fault = double_fault"
| "exception Coprocessor_segment_overrun = coprocessor_segment_overrun"
| "exception Invalid_tss = invalid_tss"
| "exception Segment_not_present = segment_not_present"
| "exception Stack_segment_fault = stack_segment_fault"
| "exception General_protection = general_protection"
| "exception Page_fault = page_fault"
| "exception Reserved_exception = reserved_exception"
| "exception Floating_point_error = floating_point_error"
| "exception Alignment_check = alignment_check"
| "exception Machine_check = machine_check"
| "exception Simd_floating_point_exception = simd_floating_point_exception"
| "exception _ = (\<lambda>_. None)"

subsection \<open>The table\<close>

abbreviation KERNEL_CS :: u16 where "KERNEL_CS \<equiv> 0x10"

record idt_desc =
  offset_15_00 :: u16
  seg_selector :: u16
  reserved4 :: u8
  reserved3 :: "1 word"
  reserved2 :: "1 word"
  reserved1 :: "1 word"
  size_bit :: "1 word"
  reserved0 :: "1 word"
  dpl :: "2 word"
  present :: "1 word"
  offset_31_16 :: u16

definition SET_IDT_ENTRY :: "u32 \<Rightarrow> idt_desc \<Rightarrow> idt_desc" where
  "SET_IDT_ENTRY handler str = str
     \<lparr>offset_31_16 := ucast (drop_bit 16 (handler AND 0xFFFF0000)),
      offset_15_00 := ucast (handler AND 0xFFFF)\<rparr>"

text \<open>The assignments to one entry: \<open>priv\<close> and \<open>res3\<close> are what differs between the entries.\<close>

definition set_gate :: "2 word \<Rightarrow> 1 word \<Rightarrow> u32 \<Rightarrow> int \<Rightarrow> idt_desc list \<Rightarrow> idt_desc list option" where
  "set_gate priv res3 handler i idt =
     do { d \<leftarrow> arr_get idt i;
          let d = d\<lparr>present := 1, dpl := priv, seg_selector := KERNEL_CS, size_bit := 1,
                    reserved0 := 0, reserved1 := 1, reserved2 := 1, reserved3 := res3, reserved4 := 0\<rparr>;
          arr_set idt i (SET_IDT_ENTRY handler d) }"

definition init_idt :: "(handler \<Rightarrow> u32) \<Rightarrow> idt_desc list \<Rightarrow> idt_desc list option" where
  "init_idt addr idt =
     do { idt \<leftarrow> for_each [0..<32]
            (\<lambda>i idt. do { h \<leftarrow> arr_get handlers (int i); set_gate 0 0 (addr h) (int i) idt }) idt;
          idt \<leftarrow> set_gate 0 0 (addr Rtc_wrapper) 0x28 idt;
          idt \<leftarrow> set_gate 0 0 (addr Keyboard_wrapper) 0x21 idt;
          idt \<leftarrow> set_gate 3 1 (addr Syscall_wrapper) 0x80 idt;
          set_gate 0 0 (addr Sched_pit_wrapper) 0x20 idt }"

subsection \<open>What the processor reads\<close>

text \<open>The layout of the packed union, least significant bit first.\<close>

definition desc_low :: "idt_desc \<Rightarrow> u32" where
  "desc_low d = ucast (offset_15_00 d) OR push_bit 16 (ucast (seg_selector d))"

definition desc_high :: "idt_desc \<Rightarrow> u32" where
  "desc_high d = ucast (reserved4 d) OR push_bit 8 (ucast (reserved3 d)) OR push_bit 9 (ucast (reserved2 d)) OR
     push_bit 10 (ucast (reserved1 d)) OR push_bit 11 (ucast (size_bit d)) OR push_bit 12 (ucast (reserved0 d)) OR
     push_bit 13 (ucast (dpl d)) OR push_bit 15 (ucast (present d)) OR push_bit 16 (ucast (offset_31_16 d))"

text \<open>The processor's reading of a gate: its handler, code segment, type and privilege.\<close>

definition gate_offset :: "idt_desc \<Rightarrow> u32" where
  "gate_offset d = (desc_low d AND 0xFFFF) OR (desc_high d AND 0xFFFF0000)"

definition gate_selector :: "idt_desc \<Rightarrow> u32" where
  "gate_selector d = drop_bit 16 (desc_low d)"

definition gate_kind :: "idt_desc \<Rightarrow> u32" where
  "gate_kind d = drop_bit 8 (desc_high d) AND 0xFF"

abbreviation INTERRUPT_GATE :: u32 where "INTERRUPT_GATE \<equiv> 0x8E"
abbreviation USER_TRAP_GATE :: u32 where "USER_TRAP_GATE \<equiv> 0xEF"

text \<open>An \<open>int n\<close> instruction at user level needs a present gate of privilege 3.\<close>

definition user_callable :: "idt_desc \<Rightarrow> bool" where
  "user_callable d \<longleftrightarrow> bit (desc_high d) 15 \<and> bit (desc_high d) 13 \<and> bit (desc_high d) 14"

definition filled :: "2 word \<Rightarrow> 1 word \<Rightarrow> u32 \<Rightarrow> idt_desc \<Rightarrow> idt_desc" where
  "filled priv res3 handler d = SET_IDT_ENTRY handler (d\<lparr>present := 1, dpl := priv, seg_selector := KERNEL_CS,
     size_bit := 1, reserved0 := 0, reserved1 := 1, reserved2 := 1, reserved3 := res3, reserved4 := 0\<rparr>)"

lemma set_gate_eq:
  "i < length idt \<Longrightarrow> set_gate priv res3 handler (int i) idt = Some (idt[i := filled priv res3 handler (idt ! i)])"
  by (simp add: set_gate_def arr_facts filled_def Let_def)

lemma low_half: "bit (0xFFFF :: int) n \<longleftrightarrow> n < 16"
proof -
  have "(0xFFFF :: int) = mask 16" by (simp add: mask_eq_exp_minus_1)
  then show ?thesis by (simp only: bit_mask_iff) simp
qed

lemma high_half: "bit (0xFFFF0000 :: int) n \<longleftrightarrow> 16 \<le> n \<and> n < 32"
proof -
  have "(0xFFFF0000 :: int) = push_bit 16 (mask 16)" by (simp add: mask_eq_exp_minus_1 push_bit_eq_mult)
  then show ?thesis by (simp only: bit_push_bit_iff bit_mask_iff) auto
qed

lemma low_byte: "bit (0xFF :: int) n \<longleftrightarrow> n < 8"
proof -
  have "(0xFF :: int) = mask 8" by (simp add: mask_eq_exp_minus_1)
  then show ?thesis by (simp only: bit_mask_iff) simp
qed

text \<open>The two halves of an address.\<close>

lemma halves:
  fixes h :: u32
  shows "bit (h AND 0xFFFF) n \<longleftrightarrow> bit h n \<and> n < 16" "bit (h AND 0xFFFF0000) n \<longleftrightarrow> bit h n \<and> 16 \<le> n"
  using bit_imp_le_length [of h n] by (auto simp: bit_simps low_half high_half)

lemma filled_low: "desc_low (filled priv res3 h d) = (h AND 0xFFFF) OR 0x100000"
proof -
  have "ucast (ucast (h AND 0xFFFF) :: u16) = h AND 0xFFFF"
    by (rule bit_word_eqI) (auto simp: bit_ucast_iff halves)
  then show ?thesis by (simp add: desc_low_def filled_def SET_IDT_ENTRY_def)
qed

lemma filled_high:
  "desc_high (filled 0 0 h d) = (h AND 0xFFFF0000) OR 0x8E00"
  "desc_high (filled 3 1 h d) = (h AND 0xFFFF0000) OR 0xEF00"
proof -
  have "push_bit 16 (ucast (ucast (drop_bit 16 (h AND 0xFFFF0000)) :: u16)) = h AND 0xFFFF0000"
    by (rule bit_word_eqI) (auto simp: bit_ucast_iff bit_push_bit_iff bit_drop_bit_eq halves)
  then show "desc_high (filled 0 0 h d) = (h AND 0xFFFF0000) OR 0x8E00"
    "desc_high (filled 3 1 h d) = (h AND 0xFFFF0000) OR 0xEF00"
    by (simp_all add: desc_high_def filled_def SET_IDT_ENTRY_def or.commute [of "h AND 0xFFFF0000"] flip: or.assoc)
qed

lemma filled_gate:
  "gate_offset (filled 0 0 h d) = h" "gate_offset (filled 3 1 h d) = h"
  "gate_selector (filled priv res3 h d) = 0x10"
  "gate_kind (filled 0 0 h d) = INTERRUPT_GATE" "gate_kind (filled 3 1 h d) = USER_TRAP_GATE"
  "\<not> user_callable (filled 0 0 h d)" "user_callable (filled 3 1 h d)"
proof -
  have joined: "((h AND 0xFFFF OR 0x100000) AND 0xFFFF) OR ((h AND 0xFFFF0000 OR w) AND 0xFFFF0000) = h"
    if "w AND 0xFFFF0000 = 0" for w :: u32
  proof -
    have "(0x100000 :: u32) AND 0xFFFF = 0" by simp
    then have "(h AND 0xFFFF OR 0x100000) AND 0xFFFF = h AND 0xFFFF" "(h AND 0xFFFF0000 OR w) AND 0xFFFF0000 = h AND 0xFFFF0000"
      using that by (simp_all add: bit.conj_disj_distrib2 and.assoc)
    moreover have "(h AND 0xFFFF) OR (h AND 0xFFFF0000) = h"
      by (rule bit_word_eqI) (auto simp: bit_or_iff halves)
    ultimately show ?thesis by simp
  qed
  show "gate_offset (filled 0 0 h d) = h" "gate_offset (filled 3 1 h d) = h"
    using joined [of "0x8E00"] joined [of "0xEF00"] by (simp_all add: gate_offset_def filled_low filled_high)
  have "drop_bit 16 (h AND 0xFFFF) = 0" by (rule bit_word_eqI) (auto simp: bit_drop_bit_eq halves)
  then show "gate_selector (filled priv res3 h d) = 0x10" by (simp add: gate_selector_def filled_low)
  define H where "H = h AND 0xFFFF0000"
  have H: "bit H n \<longleftrightarrow> bit h n \<and> 16 \<le> n" for n unfolding H_def by (rule halves)
  have "drop_bit 8 H AND 0xFF = 0" by (rule bit_word_eqI) (auto simp: bit_simps H low_byte)
  then show "gate_kind (filled 0 0 h d) = INTERRUPT_GATE" "gate_kind (filled 3 1 h d) = USER_TRAP_GATE"
    by (simp_all add: gate_kind_def filled_high H_def [symmetric] bit.conj_disj_distrib2)
  have "bit ((h AND 0xFFFF0000) OR w) n \<longleftrightarrow> bit w n" if "n < 16" for w n
    using that by (auto simp: bit_or_iff halves)
  then show "\<not> user_callable (filled 0 0 h d)" "user_callable (filled 3 1 h d)"
    by (simp_all add: user_callable_def filled_high)
qed

text \<open>The function each vector runs.\<close>

definition vector_handler :: "nat \<Rightarrow> handler option" where
  "vector_handler n =
     (if n < 32 then Some (handlers ! n) else if n = 0x20 then Some Sched_pit_wrapper
      else if n = 0x21 then Some Keyboard_wrapper else if n = 0x28 then Some Rtc_wrapper
      else if n = 0x80 then Some Syscall_wrapper else None)"

definition gate_for :: "(handler \<Rightarrow> u32) \<Rightarrow> nat \<Rightarrow> idt_desc \<Rightarrow> idt_desc" where
  "gate_for addr n d = (case vector_handler n of None \<Rightarrow> d
     | Some h \<Rightarrow> if n = 0x80 then filled 3 1 (addr h) d else filled 0 0 (addr h) d)"

lemma init_idt_eq:
  assumes "length idt = 256"
  shows "\<exists>idt'. init_idt addr idt = Some idt' \<and> length idt' = 256 \<and>
    (\<forall>n < 256. idt' ! n = gate_for addr n (idt ! n))"
proof -
  have h: "length handlers = 32" by (simp add: handlers_def)
  let ?step = "\<lambda>i idt. do { h \<leftarrow> arr_get handlers (int i); set_gate 0 0 (addr h) (int i) idt }"
  have "\<exists>t. for_each [0..<32] ?step idt = Some t \<and> (length t = 256 \<and>
      (\<forall>n < 256. t ! n = (if n < 32 then filled 0 0 (addr (handlers ! n)) (idt ! n) else idt ! n)))"
  proof (rule for_each_upt [where P = "\<lambda>i t. length t = 256 \<and>
      (\<forall>n < 256. t ! n = (if n < i then filled 0 0 (addr (handlers ! n)) (idt ! n) else idt ! n))"])
    fix i t assume i: "i < 32" and t: "length t = 256 \<and>
      (\<forall>n < 256. t ! n = (if n < i then filled 0 0 (addr (handlers ! n)) (idt ! n) else idt ! n))"
    then have "?step i t = Some (t[i := filled 0 0 (addr (handlers ! i)) (t ! i)])"
      using h set_gate_eq [of i t] by (simp add: arr_get_nat)
    then show "\<exists>t'. ?step i t = Some t' \<and> length t' = 256 \<and>
      (\<forall>n < 256. t' ! n = (if n < Suc i then filled 0 0 (addr (handlers ! n)) (idt ! n) else idt ! n))"
      using i t by (auto simp: nth_list_update less_Suc_eq)
  qed (use assms in simp_all)
  then obtain t where t: "for_each [0..<32] ?step idt = Some t" "length t = 256"
    "\<forall>n < 256. t ! n = (if n < 32 then filled 0 0 (addr (handlers ! n)) (idt ! n) else idt ! n)" by blast
  let ?idt' = "t[0x28 := filled 0 0 (addr Rtc_wrapper) (t ! 0x28), 0x21 := filled 0 0 (addr Keyboard_wrapper) (t ! 0x21),
    0x80 := filled 3 1 (addr Syscall_wrapper) (t ! 0x80), 0x20 := filled 0 0 (addr Sched_pit_wrapper) (t ! 0x20)]"
  have "init_idt addr idt = Some ?idt'"
    using t set_gate_eq [of "0x28"] set_gate_eq [of "0x21"] set_gate_eq [of "0x80"] set_gate_eq [of "0x20"]
    by (simp add: init_idt_def del: upt_rec_numeral)
  moreover have "?idt' ! n = gate_for addr n (idt ! n)" if "n < 256" for n
  proof -
    consider "n = 0x20" | "n = 0x21" | "n = 0x28" | "n = 0x80" | "n \<notin> {0x20, 0x21, 0x28, 0x80}" by blast
    then show ?thesis using t(2,3) that by cases (simp_all add: gate_for_def vector_handler_def)
  qed
  ultimately show ?thesis using t(2) by auto
qed

lemma running_console:
  assumes "running s" and "kernel_ok t" and "console_frame s t"
  shows "running t" "current t = current s" "pcb t = pcb s" "exec_terminal t = exec_terminal s"
proof -
  note ok = runningD(1) [OF assms(1)]
  have e: "exec_terminal t = exec_terminal s" using assms(3) by (simp add: console_frame_def)
  have "nat (exec_terminal s) < 3" using kernel_okD [OF ok] by simp
  note a = console_frame_tmnl(4) [OF assms(3) ok this]
  show "running t" using assms(1,2) a e by (simp add: running_def)
  show "current t = current s" using a e by (simp add: current_def)
  show "pcb t = pcb s" "exec_terminal t = exec_terminal s" using assms(3) e by (simp_all add: console_frame_def)
qed

lemma report_and_halt_ok:
  assumes "running s" and "render (bytes_of (msg @ [CHR 0x0A])) [] = Some out" and "0 \<notin> set (bytes_of (msg @ [CHR 0x0A]))"
  shows "\<exists>s1 s2. clear s = Some s1 \<and> screen_of s1 = \<lparr>rows = replicate 25 (replicate 80 (0x20, ATTRIB)), crow = 0, ccol = 0\<rparr> \<and>
    for_each out putc s1 = Some s2 \<and> report_and_halt msg s = halt 0 s2 \<and>
    running s2 \<and> current s2 = current s \<and> pcb s2 = pcb s"
proof -
  note ok = runningD(1) [OF assms(1)]
  obtain s1 where s1: "clear s = Some s1" "kernel_ok s1" "console_frame s s1"
    "screen_of s1 = \<lparr>rows = replicate 25 (replicate 80 (0x20, ATTRIB)), crow = 0, ccol = 0\<rparr>"
    using clear_ok [OF ok] by blast
  obtain s2 where s2: "kprintf (msg @ [CHR 0x0A]) [] s1 = Some s2" "for_each out putc s1 = Some s2" "kernel_ok s2"
    "console_frame s1 s2" using kprintf_ok [OF s1(2) assms(3,2)] by blast
  have "console_frame s s2" by (rule console_frame_trans [OF s1(3) s2(4)])
  then show ?thesis
    using s1 s2 running_console [OF assms(1) s2(3)] by (intro exI [of _ s1] exI [of _ s2]) (simp add: report_and_halt_def)
qed

subsection \<open>Properties\<close>

text \<open>C25. The interrupt table: after \<open>init_idt\<close> on the zeroed table, each of the vectors 0 to 31 has an
  interrupt gate of privilege 0 to its exception handler, 0x20, 0x21 and 0x28 have one to the timer,
  keyboard and RTC wrappers, 0x80 has a trap gate to the system call wrapper, all in the kernel's
  code segment and at the handler's address; every other vector stays absent. At user level the
  instruction \<open>int n\<close> passes the privilege check for 0x80 alone.\<close>

theorem idt_gates:
  assumes "length idt = 256" and "\<forall>n < 256. desc_high (idt ! n) = 0"
  shows "\<exists>idt'. init_idt addr idt = Some idt' \<and> length idt' = 256 \<and>
    (\<forall>n < 256. case vector_handler n of
       Some h \<Rightarrow> gate_offset (idt' ! n) = addr h \<and> gate_selector (idt' ! n) = 0x10 \<and>
         gate_kind (idt' ! n) = (if n = 0x80 then USER_TRAP_GATE else INTERRUPT_GATE)
     | None \<Rightarrow> idt' ! n = idt ! n) \<and>
    (\<forall>n < 256. user_callable (idt' ! n) \<longleftrightarrow> n = 0x80)"
proof -
  obtain idt' where i: "init_idt addr idt = Some idt'" "length idt' = 256" "\<forall>n < 256. idt' ! n = gate_for addr n (idt ! n)"
    using init_idt_eq [OF assms(1)] by blast
  have "case vector_handler n of
       Some h \<Rightarrow> gate_offset (idt' ! n) = addr h \<and> gate_selector (idt' ! n) = 0x10 \<and>
         gate_kind (idt' ! n) = (if n = 0x80 then USER_TRAP_GATE else INTERRUPT_GATE)
     | None \<Rightarrow> idt' ! n = idt ! n" if "n < 256" for n
    using i(3) that by (cases "vector_handler n") (simp_all add: gate_for_def filled_gate)
  moreover have "user_callable (idt' ! n) \<longleftrightarrow> n = 0x80" if n: "n < 256" for n
  proof -
    have "\<not> user_callable (idt ! n)" using assms(2) n by (simp add: user_callable_def)
    then show ?thesis
      using i(3) n by (cases "vector_handler n") (auto simp: gate_for_def filled_gate vector_handler_def)
  qed
  ultimately show ?thesis using i(1,2) by blast
qed

theorem idt_gates_witness:
  "\<exists>idt'. init_idt (\<lambda>h. if h = Page_fault then 0x00401234 else 0x00400000)
      (replicate 256 \<lparr>offset_15_00 = 0, seg_selector = 0, reserved4 = 0, reserved3 = 0, reserved2 = 0, reserved1 = 0,
        size_bit = 0, reserved0 = 0, dpl = 0, present = 0, offset_31_16 = 0\<rparr>) = Some idt' \<and>
    gate_offset (idt' ! 14) = 0x00401234 \<and> gate_kind (idt' ! 14) = INTERRUPT_GATE \<and> user_callable (idt' ! 0x80)"
proof -
  let ?z = "\<lparr>offset_15_00 = 0, seg_selector = 0, reserved4 = 0, reserved3 = 0, reserved2 = 0, reserved1 = 0,
        size_bit = 0, reserved0 = 0, dpl = 0, present = 0, offset_31_16 = 0\<rparr> :: idt_desc"
  have z: "length (replicate 256 ?z) = 256" "\<forall>n < 256. desc_high (replicate 256 ?z ! n) = 0"
    by (simp_all add: desc_high_def)
  have pf: "vector_handler 14 = Some Page_fault" by (simp add: vector_handler_def handlers_def)
  obtain idt' where i: "init_idt (\<lambda>h. if h = Page_fault then 0x00401234 else 0x00400000) (replicate 256 ?z) = Some idt'"
    "\<And>n. n < 256 \<Longrightarrow> case vector_handler n of
       Some h \<Rightarrow> gate_offset (idt' ! n) = (if h = Page_fault then 0x00401234 else 0x00400000) \<and>
         gate_selector (idt' ! n) = 0x10 \<and> gate_kind (idt' ! n) = (if n = 0x80 then USER_TRAP_GATE else INTERRUPT_GATE)
     | None \<Rightarrow> idt' ! n = replicate 256 ?z ! n"
    "\<And>n. n < 256 \<Longrightarrow> user_callable (idt' ! n) \<longleftrightarrow> n = 0x80"
    using idt_gates [OF z, of "\<lambda>h. if h = Page_fault then 0x00401234 else 0x00400000"] by blast
  from i(1) i(2) [of 14] i(3) [of "0x80"] pf show ?thesis by auto
qed

text \<open>Plain text is printed as it is.\<close>

lemma render_plain: "0x25 \<notin> set xs \<Longrightarrow> render xs [] = Some xs"
  by (induction xs) simp_all

lemmas exception_bodies = div_err_def debug_def nmi_int_def breakpoint_def overflow_def
  bound_range_exceeded_def invalid_opcode_def device_not_available_def double_fault_def
  coprocessor_segment_overrun_def invalid_tss_def segment_not_present_def stack_segment_fault_def
  general_protection_def page_fault_def assertion_failure_def floating_point_error_def
  alignment_check_def machine_check_def simd_floating_point_exception_def reserved_exception_def

lemma exception_report:
  assumes "h \<in> set handlers"
  shows "\<exists>msg. exception h = report_and_halt msg \<and>
    0 \<notin> set (bytes_of (msg @ [CHR 0x0A])) \<and> 0x25 \<notin> set (bytes_of (msg @ [CHR 0x0A]))"
  by (insert assms, cases h) (simp_all add: handlers_def exception_bodies,
    (rule exI, rule conjI, rule refl, simp add: bytes_of_def)+)

text \<open>C26. An exception in a program that has a parent, raised by any of the 32 vectors: the handler
  clears the screen, prints its message and ends the program, whose parent goes on in its own page
  with the result 0, as after a normal end with status 0; the shell's documentation expects 256. In
  a base shell, which \<open>halt\<close> does not end, the handler returns to its caller.\<close>

theorem exception_ends_program:
  assumes "running s" and "n < 32" and "\<not> pcb_free (pcb s) (current s)"
  shows "\<exists>text s1 s2. clear s = Some s1 \<and> for_each text putc s1 = Some s2 \<and> text \<noteq> [] \<and>
    (parent (pcb s ! current s) = -1 \<longrightarrow> exception (handlers ! n) s = Some (Returned 0, s2)) \<and>
    (\<forall>p < 6. parent (pcb s ! current s) = int p \<and> p \<noteq> current s \<longrightarrow>
       (\<exists>t. exception (handlers ! n) s = Some (Halt_return 0 (stack_ptr (pcb s ! current s)) (base_ptr (pcb s ! current s)), t) \<and>
         running t \<and> current t = p \<and> paging_inv (Some p) (pg t) \<and> pcb_free (pcb t) (current s) \<and> mem t = mem s2))"
proof -
  have "handlers ! n \<in> set handlers" using assms(2) by (intro nth_mem) (simp add: handlers_def)
  then obtain msg where msg: "exception (handlers ! n) = report_and_halt msg"
    "0 \<notin> set (bytes_of (msg @ [CHR 0x0A]))" "0x25 \<notin> set (bytes_of (msg @ [CHR 0x0A]))"
    using exception_report by blast
  obtain s1 s2 where s: "clear s = Some s1" "for_each (bytes_of (msg @ [CHR 0x0A])) putc s1 = Some s2"
    "report_and_halt msg s = halt 0 s2" "running s2" "current s2 = current s" "pcb s2 = pcb s"
    using report_and_halt_ok [OF assms(1) render_plain [OF msg(3)] msg(2)] by blast
  have "bytes_of (msg @ [CHR 0x0A]) \<noteq> []" by (simp add: bytes_of_def)
  moreover have "exception (handlers ! n) s = Some (Returned 0, s2)" if "parent (pcb s ! current s) = -1"
    using halt_base [OF s(4)] that msg(1) s(3,5,6) by simp
  moreover have "\<exists>t. exception (handlers ! n) s = Some (Halt_return 0 (stack_ptr (pcb s ! current s)) (base_ptr (pcb s ! current s)), t) \<and>
         running t \<and> current t = p \<and> paging_inv (Some p) (pg t) \<and> pcb_free (pcb t) (current s) \<and> mem t = mem s2"
    if "p < 6" "parent (pcb s ! current s) = int p \<and> p \<noteq> current s" for p
    using halt_ok [OF s(4), of p 0] that assms(3) msg(1) s(3,5,6) by (auto simp: halted_def)
  ultimately show ?thesis using s(1,2) by blast
qed

theorem exception_ends_program_witness:
  "\<exists>t. exception (handlers ! 0) started_kernel = Some (Halt_return 0 0x7F9F00 0x7F9F80, t) \<and> current t = 0"
  using exception_ends_program [OF started_kernel(2), of 0] started_kernel(3-7) by force

end
