(* ===== verification/Keeps.thy ===== *)
theory Keeps
  imports Idt
begin

text \<open>
  The invariant of the kernel after boot and the relation \<open>keeps\<close>, which says of a step that it
  preserves the invariant and leaves the file system image alone. It is reflexive and transitive, so
  the lemma of an operation follows from those of the operations it calls: the collection \<open>keeping\<close>.
\<close>

named_theorems keeping "operations that keep the kernel's invariant and the file system image"

text \<open>Every terminal runs a process.\<close>

definition alive :: "kst \<Rightarrow> bool" where
  "alive s \<longleftrightarrow> kernel_ok s \<and>
     (\<forall>i < 3. tmnl_flags (tmnl_block s ! i) = TMNL_RUN \<and> 0 \<le> active_process (tmnl_block s ! i))"

definition keeps :: "kst \<Rightarrow> kst \<Rightarrow> bool" where
  "keeps s t \<longleftrightarrow> (alive s \<longrightarrow> alive t \<and> fs t = fs s \<and> fs_image t = fs_image s)"

lemma keeps_refl [simp]: "keeps s s"
  by (simp add: keeps_def)

lemma keeps_trans [trans]: "keeps s t \<Longrightarrow> keeps t u \<Longrightarrow> keeps s u"
  by (simp add: keeps_def)

lemma keepsI:
  "(alive s \<Longrightarrow> alive t \<and> fs t = fs s \<and> fs_image t = fs_image s) \<Longrightarrow> keeps s t"
  by (simp add: keeps_def)

lemma alive_running: "alive s \<Longrightarrow> running s"
  by (auto simp: alive_def running_def kernel_ok_def)

lemma aliveD: "alive s \<Longrightarrow> kernel_ok s"
  by (simp add: alive_def)

text \<open>
  Relations between states that hold between the ends of a step, of no step and of two steps in
  sequence: what they relate, loops and \<open>printf\<close> relate too, whatever the loop does.
\<close>

locale step_relation =
  fixes R :: "'s \<Rightarrow> 's \<Rightarrow> bool"
  assumes refl: "R s s" and trans: "R s t \<Longrightarrow> R t u \<Longrightarrow> R s u"
begin

lemma for_each_related:
  "for_each xs f s = Some t \<Longrightarrow> (\<And>i s t. i \<in> set xs \<Longrightarrow> f i s = Some t \<Longrightarrow> R s t) \<Longrightarrow> R s t"
proof (induction xs arbitrary: s)
  case Nil
  then show ?case by (simp add: refl)
next
  case (Cons i xs)
  from Cons.prems(1) obtain u where u: "f i s = Some u" "for_each xs f u = Some t" by (auto simp: bind_eq_Some_conv)
  have "R s u" by (rule Cons.prems(2) [OF _ u(1)]) simp
  moreover have "R u t" by (rule Cons.IH [OF u(2)]) (rule Cons.prems(2), simp_all)
  ultimately show ?case by (rule trans)
qed

lemma spin_related:
  assumes "spin test env n s = Some t"
  shows "(\<forall>n s t. env n s = Some t \<longrightarrow> R s t) \<longrightarrow> R s t"
proof (rule spin.raw_induct [where P = "\<lambda>test env n s t. (\<forall>n s t. env n s = Some t \<longrightarrow> R s t) \<longrightarrow> R s t", OF _ assms])
  fix rec test env n s t
  assume "\<And>test env n s t. rec test env n s = Some t \<Longrightarrow> (\<forall>n s t. env n s = Some t \<longrightarrow> R s t) \<longrightarrow> R s t"
    and "do { b \<leftarrow> test s; if b then do { s \<leftarrow> env n s; rec test env (Suc n) s } else Some s } = Some t"
  then show "(\<forall>n s t. env n s = Some t \<longrightarrow> R s t) \<longrightarrow> R s t"
    by (auto simp: bind_eq_Some_conv refl split: if_splits) (blast intro: trans)+
qed

definition sink :: "('c \<Rightarrow> 's \<Rightarrow> 's option) \<Rightarrow> bool" where
  "sink put \<longleftrightarrow> (\<forall>c s t. put c s = Some t \<longrightarrow> R s t)"

lemma puts_from_related:
  assumes "puts_from put str k s = Some y"
  shows "sink put \<longrightarrow> R s (snd y)"
proof (rule puts_from.raw_induct [where P = "\<lambda>put str k s y. sink put \<longrightarrow> R s (snd y)", OF _ assms])
  fix rec put str k s y
  assume "\<And>put str k s y. rec put str k s = Some y \<Longrightarrow> sink put \<longrightarrow> R s (snd y)"
    and "do { c \<leftarrow> str k; if c \<noteq> 0 then do { s \<leftarrow> put c s; rec put str (Suc k) s } else Some (k, s) } = Some y"
  then show "sink put \<longrightarrow> R s (snd y)"
    by (cases y) (auto simp: bind_eq_Some_conv refl sink_def split: if_splits, (blast intro: trans)+)
qed

lemma conversion_related: "conversion put alternate c esp s = Some (r, t) \<Longrightarrow> sink put \<Longrightarrow> R s t"
  using puts_from_related [of put _ 0 s]
  by (auto simp: conversion_def puts_def puts_at_def bind_eq_Some_conv refl sink_def
      split: if_splits list.splits varg.splits)

lemma printf_from_related:
  assumes "printf_from put format k esp s = Some y"
  shows "sink put \<longrightarrow> R s (snd y)"
proof (rule printf_from.raw_induct [where P = "\<lambda>put format k esp s y. sink put \<longrightarrow> R s (snd y)", OF _ assms])
  fix rec put format k esp s y
  assume IH: "\<And>put format k esp s y. rec put format k esp s = Some y \<Longrightarrow> sink put \<longrightarrow> R s (snd y)"
    and run: "do { c \<leftarrow> format k;
          if c = 0 then Some (k, s)
          else if c = 0x25 then
            do { (alternate, c, k) \<leftarrow> format_char format False (Suc k);
                 (esp, s) \<leftarrow> conversion put alternate c esp s;
                 rec put format (Suc k) esp s }
          else do { s \<leftarrow> put c s; rec put format (Suc k) esp s } } = Some y"
  show "sink put \<longrightarrow> R s (snd y)"
  proof
    assume sink: "sink put"
    have IH': "rec put format k esp s = Some y \<Longrightarrow> R s (snd y)" for format k esp s y using IH sink by blast
    show "R s (snd y)"
      using run sink conversion_related [OF _ sink] IH'
      by (cases y) (auto simp: bind_eq_Some_conv refl sink_def split: if_splits, (blast intro: trans)+)
  qed
qed

lemma printf_related: "printf put format esp s = Some (n, t) \<Longrightarrow> sink put \<Longrightarrow> R s t"
  using printf_from_related [of put format 0 esp s "(n, t)"] by (simp add: printf_def)

text \<open>Here the states are what the bytes are stored to.\<close>

lemma read_loop_related:
  assumes "\<And>m i b m'. wr m i b = Some m' \<Longrightarrow> R m m'"
  shows "read_loop rdm wr vars inum offset len file_size data_idx i j block_off block_num bytes_read m = Some (r, m') \<Longrightarrow>
    R m m'"
proof (induction "unat len - i" arbitrary: i j block_off block_num bytes_read m)
  case 0
  from "0.prems" "0.hyps" show ?case by (subst (asm) read_loop.simps) (simp add: refl)
next
  case (Suc n)
  have n: "n = unat len - Suc i" using Suc.hyps(2) by simp
  from Suc.prems show ?case
    by (subst (asm) read_loop.simps)
      (auto simp: bind_eq_Some_conv refl split: if_splits dest!: Suc.hyps(1) [OF n] assms intro: trans)
qed

lemma read_data_related:
  assumes "\<And>m i b m'. wr m i b = Some m' \<Longrightarrow> R m m'" and "read_data rdm wr vars inum offset len m = Some (r, m')"
  shows "R m m'"
  using assms(2) read_loop_related [where wr = wr, OF assms(1)]
  by (auto simp: read_data_def bind_eq_Some_conv refl Let_def split: if_splits)

lemma strncpy_related:
  assumes "\<And>m i b m'. dst m i b = Some m' \<Longrightarrow> R m m'" and "strncpy src dst n m = Some m'"
  shows "R m m'"
proof -
  have copy: "strncpy_copy src dst n i m = Some (k, m') \<Longrightarrow> R m m'" for i k m m'
  proof (induction "n - i" arbitrary: i m)
    case 0
    from "0.prems" "0.hyps" show ?case by (subst (asm) strncpy_copy.simps) (auto simp: bind_eq_Some_conv refl)
  next
    case (Suc l)
    have l: "l = n - Suc i" using Suc.hyps(2) by simp
    from Suc.prems show ?case
      by (subst (asm) strncpy_copy.simps)
        (auto simp: bind_eq_Some_conv refl split: if_splits dest!: Suc.hyps(1) [OF l] assms(1) intro: trans)
  qed
  obtain i m1 where m1: "strncpy_copy src dst n 0 m = Some (i, m1)" "for_each [i..<n] (\<lambda>i m. dst m i 0) m1 = Some m'"
    using assms(2) by (auto simp: strncpy_def bind_eq_Some_conv)
  show ?thesis
    by (rule trans [OF copy [OF m1(1)] for_each_related [OF m1(2)]]) (rule assms(1))
qed

end

interpretation kept: step_relation keeps
  by unfold_locales (auto intro: keeps_trans)

subsection \<open>Updates of the state\<close>

lemma keeps_fields [simp]:
  "keeps s (s\<lparr>start_x := v\<rparr>)" "keeps s (s\<lparr>start_y := v\<rparr>)" "keeps s (s\<lparr>caps_flag := v\<rparr>)"
  "keeps s (s\<lparr>shift_count := v\<rparr>)" "keeps s (s\<lparr>ctrl_flag := v\<rparr>)" "keeps s (s\<lparr>alt_flag := v\<rparr>)"
  "keeps s (s\<lparr>if_flag := b\<rparr>)" "keeps s (s\<lparr>tss_esp0 := w\<rparr>)" "keeps s (s\<lparr>tss_ss0 := h\<rparr>)"
  "keeps s (on_ports f s)" "keeps s (cli s)" "keeps s (sti s)"
  by (auto simp: keeps_def alive_def fs_image_def fun_eq_iff on_ports_def cli_def sti_def
      kernel_ok_upd(2) [unfolded on_ports_def])

lemma upd_tmnl_keeps:
  assumes "upd_tmnl i f s = Some t"
    and "\<And>k. alive s \<Longrightarrow> i = int k \<Longrightarrow> k < 3 \<Longrightarrow> tmnl_ok k (f (tmnl_block s ! k)) \<and>
      tmnl_flags (f (tmnl_block s ! k)) = TMNL_RUN \<and> 0 \<le> active_process (f (tmnl_block s ! k))"
  shows "keeps s t"
proof (rule keepsI)
  assume al: "alive s"
  then have len: "length (tmnl_block s) = 3" using kernel_okD(1) [OF aliveD] by blast
  show "alive t \<and> fs t = fs s \<and> fs_image t = fs_image s"
  proof (cases "i = -1")
    case True
    then have "t = s\<lparr>tmnl_before := f (tmnl_before s)\<rparr>" using assms(1) by (simp add: upd_tmnl_def)
    then show ?thesis using al by (simp add: alive_def kernel_ok_def screen_ok_def fs_image_def fun_eq_iff)
  next
    case False
    then have i: "0 \<le> i" "i < 3" and "t = s\<lparr>tmnl_block := (tmnl_block s)[nat i := f (tmnl_block s ! nat i)]\<rparr>"
      using assms(1) len by (auto simp: upd_tmnl_def arr_get_def arr_set_def bind_eq_Some_conv split: if_splits)
    then show ?thesis
      using assms(2) [OF al, of "nat i"] al len
      by (auto simp: alive_def kernel_ok_def screen_ok_def fs_image_def fun_eq_iff nth_list_update)
  qed
qed

lemma upd_pb_keeps:
  assumes "upd_pb i f s = Some t"
    and "\<And>k. alive s \<Longrightarrow> i = int k \<Longrightarrow> k < 6 \<Longrightarrow> pb_ok (f (pcb s ! k))"
  shows "keeps s t"
proof (rule keepsI)
  assume al: "alive s"
  then have len: "length (pcb s) = 6" using kernel_okD(2) [OF aliveD] by blast
  show "alive t \<and> fs t = fs s \<and> fs_image t = fs_image s"
  proof (cases "i = -1")
    case True
    then have "t = s\<lparr>pcb_before := f (pcb_before s)\<rparr>" using assms(1) by (simp add: upd_pb_def)
    then show ?thesis using al by (simp add: alive_def kernel_ok_def screen_ok_def fs_image_def fun_eq_iff)
  next
    case False
    then have i: "0 \<le> i" "i < 6" and t: "t = s\<lparr>pcb := (pcb s)[nat i := f (pcb s ! nat i)]\<rparr>"
      using assms(1) len by (auto simp: upd_pb_def arr_get_def arr_set_def bind_eq_Some_conv split: if_splits)
    then have "pb_ok (f (pcb s ! nat i))" using assms(2) [OF al, of "nat i"] by simp
    then have "kernel_ok t" unfolding t by (rule kernel_ok_upd_pb [OF aliveD [OF al]])
    then show ?thesis using al t by (auto simp: alive_def fs_image_def fun_eq_iff)
  qed
qed

lemma upd_rtc_keeps [keeping]: "upd_rtc i f s = Some t \<Longrightarrow> keeps s t"
  by (auto simp: keeps_def upd_rtc_def arr_set_def bind_eq_Some_conv alive_def kernel_ok_def screen_ok_def
      fs_image_def fun_eq_iff split: if_splits)

text \<open>Page tables that stay within the invariant.\<close>

lemma pg_keeps:
  assumes "\<And>prog. alive s \<Longrightarrow> paging_inv prog (pg s) \<Longrightarrow> \<exists>prog. paging_inv prog p"
  shows "keeps s (s\<lparr>pg := p\<rparr>)"
  using assms by (auto simp: keeps_def alive_def kernel_ok_def screen_ok_def fs_image_def fun_eq_iff)

text \<open>Stores through the page tables outside the kernel's own 4 MB never reach the image.\<close>

lemma xlat_image:
  assumes "paging_inv prog p" and "kernel_xlat p a = Some b" and "\<not> (OFF_4MB \<le> a \<and> a < OFF_8MB)"
  shows "\<not> (OFF_4MB \<le> b \<and> b < OFF_8MB)"
proof -
  obtain t where t: "walk p a = Some t" "b = phys_addr t" using assms(2) by (auto simp: kernel_xlat_def)
  consider "a < OFF_4MB" | "OFF_8MB \<le> a" using assms(3) by linarith
  then show ?thesis
  proof cases
    case 1
    then show ?thesis using walk_low [OF assms(1) 1] t by (auto split: if_splits)
  next
    case 2
    then show ?thesis using walk_high [OF assms(1) 2 t(1)] t(2) by auto
  qed
qed

text \<open>Memory changed only outside the image.\<close>

definition image_same :: "mem \<Rightarrow> mem \<Rightarrow> bool" where
  "image_same m m' \<longleftrightarrow> (\<forall>a. OFF_4MB \<le> a \<and> a < OFF_8MB \<longrightarrow> m' a = m a)"

lemma image_same_refl [simp]: "image_same m m"
  by (simp add: image_same_def)

lemma image_same_trans: "image_same m m' \<Longrightarrow> image_same m' m'' \<Longrightarrow> image_same m m''"
  by (simp add: image_same_def)

lemma mem_keeps: "(alive s \<Longrightarrow> image_same (mem s) m) \<Longrightarrow> keeps s (s\<lparr>mem := m\<rparr>)"
  by (auto simp: keeps_def alive_def fs_image_def fun_eq_iff image_same_def)

lemma st_image_same:
  assumes "st (kernel_xlat p) m a b = Some m'" and "paging_inv prog p" and "\<not> (OFF_4MB \<le> a \<and> a < OFF_8MB)"
  shows "image_same m m'"
  using assms xlat_image [OF assms(2) _ assms(3)] by (auto simp: st_def image_same_def split: option.splits)

lemma kput_keeps:
  assumes "kput a b s = Some t" and "\<not> (OFF_4MB \<le> a \<and> a < OFF_8MB)"
  shows "keeps s t"
proof -
  obtain m where m: "st (kernel_xlat (pg s)) (mem s) a b = Some m" "t = s\<lparr>mem := m\<rparr>"
    using assms(1) by (auto simp: kput_def bind_eq_Some_conv)
  show ?thesis unfolding m(2)
    by (rule mem_keeps) (use st_image_same [OF m(1) _ assms(2)] in \<open>auto simp: alive_def kernel_ok_def\<close>)
qed

subsection \<open>The console\<close>

lemma console_keeps:
  assumes "\<And>s. kernel_ok s \<Longrightarrow> \<exists>t. f s = Some t \<and> kernel_ok t \<and> console_frame s t" and "f s = Some t"
  shows "keeps s t"
proof (rule keepsI)
  assume al: "alive s"
  then have t: "kernel_ok t" "console_frame s t" using assms(1) [OF aliveD] assms(2) by fastforce+
  have "fs_image t = fs_image s" using t(2) by (auto simp: fs_image_def console_frame_def fun_eq_iff)
  then show "alive t \<and> fs t = fs s \<and> fs_image t = fs_image s"
    using al t console_frame_tmnl(4,5) [OF t(2) aliveD [OF al]] by (simp add: alive_def console_frame_def)
qed

lemma putc_keeps [keeping]: "putc c s = Some t \<Longrightarrow> keeps s t"
  by (rule console_keeps [of "putc c"]) (auto dest: putc_step)

lemma clear_keeps [keeping]: "clear s = Some t \<Longrightarrow> keeps s t"
  by (rule console_keeps [of clear]) (auto dest: clear_ok)

lemma kprintf_keeps [keeping]: "kprintf format args s = Some t \<Longrightarrow> keeps s t"
  using kept.printf_related [of putc "lrd (bytes_of format @ [0])" args s]
  by (auto simp: kprintf_def kept.sink_def putc_keeps)

subsection \<open>Processes and descriptors\<close>

lemma alive_pb: "alive s \<Longrightarrow> k < 6 \<Longrightarrow> pb_ok (pcb s ! k)"
  by (rule kernel_ok_pb [OF aliveD])

text \<open>A descriptor that is set stays with a table of operations.\<close>

lemma upd_fd_keeps:
  assumes "upd_fd i k f s = Some t"
    and "\<And>d. fd_flags d \<noteq> FD_ABSENT \<longrightarrow> file_operations_table d \<noteq> None \<Longrightarrow>
      fd_flags (f d) \<noteq> FD_ABSENT \<longrightarrow> file_operations_table (f d) \<noteq> None"
  shows "keeps s t"
proof -
  obtain p q where p: "get_pb i s = Some p" "set_fd k f p = Some q" "upd_pb i (\<lambda>_. q) s = Some t"
    using assms(1) by (auto simp: upd_fd_def bind_eq_Some_conv)
  show ?thesis
  proof (rule upd_pb_keeps [OF p(3)])
    fix j assume j: "alive s" "i = int j" "j < 6"
    then have "p = pcb s ! j" using p(1) kernel_okD(2) [OF aliveD [OF j(1)]] by (simp add: get_pb_in)
    then have ok: "pb_ok p" using alive_pb [OF j(1,3)] by simp
    define d where "d = fd_table p ! k"
    have d: "d \<in> set (fd_table p)" "q = p\<lparr>fd_table := (fd_table p)[k := f d]\<rparr>"
      using p(2) by (auto simp: d_def set_fd_def arr_get_def arr_set_def bind_eq_Some_conv split: if_splits)
    have "fd_flags (f d) \<noteq> FD_ABSENT \<longrightarrow> file_operations_table (f d) \<noteq> None"
      using assms(2) [of d] ok d(1) by (simp add: pb_ok_def)
    then show "pb_ok q" using ok d(2) set_update_subset_insert [of "fd_table p" k "f d"] by (auto simp: pb_ok_def)
  qed
qed

lemma add_fd_keeps [keeping]: "add_fd ty inum s = Some (r, t) \<Longrightarrow> keeps s t"
  by (auto simp: add_fd_def bind_eq_Some_conv split: option.splits elim!: upd_fd_keeps)

lemma rem_fd_keeps [keeping]: "rem_fd i s = Some (r, t) \<Longrightarrow> keeps s t"
  by (auto simp: rem_fd_def bind_eq_Some_conv split: if_splits elim!: upd_fd_keeps)

text \<open>The argument of a block, changed in place.\<close>

lemma argument_keeps:
  assumes "get_pb i s = Some p" and "arr_set (argument p) k b = Some arg" and "upd_pb i (\<lambda>p. p\<lparr>argument := arg\<rparr>) s = Some t"
  shows "keeps s t"
proof (rule upd_pb_keeps [OF assms(3)])
  fix j assume j: "alive s" "i = int j" "j < 6"
  then have "p = pcb s ! j" using assms(1) kernel_okD(2) [OF aliveD [OF j(1)]] by (simp add: get_pb_in)
  moreover have "length arg = length (argument p)" using assms(2) by (auto simp: arr_set_def split: if_splits)
  ultimately show "pb_ok ((pcb s ! j)\<lparr>argument := arg\<rparr>)" using alive_pb [OF j(1,3)] by (simp add: pb_ok_def)
qed

lemma pb_flags_keeps: "upd_pb i (\<lambda>p. p\<lparr>pb_flags := v\<rparr>) s = Some t \<Longrightarrow> keeps s t"
  by (rule upd_pb_keeps) (auto simp: pb_ok_def dest: alive_pb)

lemma end_process_keeps [keeping]:
  assumes "end_process pid s = Some (r, t)"
  shows "keeps s t"
proof -
  have loop: "keeps u v" if "for_each [2..<FDT_SIZE] (\<lambda>i s. map_option snd (rem_fd (int i) s)) u = Some v" for u v
    using that by (rule kept.for_each_related) (auto dest: rem_fd_keeps)
  from assms consider "t = s" | s1 p arg s2 where "upd_pb pid (\<lambda>p. p\<lparr>pb_flags := PCB_ABSENT\<rparr>) s = Some s1"
      "get_pb pid s1 = Some p" "arr_set (argument p) 0 0 = Some arg" "upd_pb pid (\<lambda>p. p\<lparr>argument := arg\<rparr>) s1 = Some s2"
      "for_each [2..<FDT_SIZE] (\<lambda>i s. map_option snd (rem_fd (int i) s)) s2 = Some t"
    by (auto simp: end_process_def bind_eq_Some_conv split: if_splits)
  then show ?thesis
  proof cases
    case 2
    then show ?thesis
      by (blast intro: keeps_trans [OF pb_flags_keeps keeps_trans [OF argument_keeps loop]])
  qed simp
qed

subsection \<open>Reading files\<close>

interpretation image: step_relation image_same
  by unfold_locales (auto intro: image_same_trans)

text \<open>Addresses from the end of the kernel's page on.\<close>

lemma store_high:
  assumes "alive s" and "st (kernel_xlat (pg s)) m (buf + i) b = Some m'" and "OFF_8MB \<le> buf"
  shows "image_same m m'"
proof -
  obtain prog where "paging_inv prog (pg s)" using assms(1) by (auto simp: alive_def kernel_ok_def)
  then show ?thesis using st_image_same [OF assms(2)] assms(3) by simp
qed

lemma read_data_mem_keeps:
  assumes "read_data_mem inum offset buf len s = Some (r, t)" and "OFF_8MB \<le> buf"
  shows "keeps s t"
proof -
  obtain m where m: "read_data (ld (kernel_xlat (pg s))) (\<lambda>m i b. st (kernel_xlat (pg s)) m (buf + i) b)
      (fs s) inum offset len (mem s) = Some (r, m)" "t = s\<lparr>mem := m\<rparr>"
    using assms(1) by (auto simp: read_data_mem_def Let_def)
  show ?thesis
    unfolding m(2) by (rule mem_keeps) (rule image.read_data_related [OF _ m(1)], rule store_high [OF _ _ assms(2)])
qed

lemma fd_position_keeps: "upd_fd i k (\<lambda>d. d\<lparr>file_position := f d\<rparr>) s = Some t \<Longrightarrow> keeps s t"
  by (erule upd_fd_keeps) simp

lemma file_read_keeps: "file_read fdn buf nbytes s = Some (r, t) \<Longrightarrow> OFF_8MB \<le> buf \<Longrightarrow> keeps s t"
  by (auto simp: file_read_def bind_eq_Some_conv split: if_splits
      dest!: fd_position_keeps read_data_mem_keeps intro: keeps_trans)

lemma dir_read_keeps:
  assumes "dir_read dentry0 fdn buf s = Some (r, t)" and "OFF_8MB \<le> buf"
  shows "keeps s t"
proof -
  have copy: "keeps u (u\<lparr>mem := m\<rparr>)"
    if "strncpy src (\<lambda>m i b. st (kernel_xlat (pg u)) m (buf + i) b) len (mem u) = Some m" for u src len m
    by (rule mem_keeps) (rule image.strncpy_related [OF _ that], rule store_high [OF _ _ assms(2)])
  have nul: "keeps u v" if "kput (buf + FNAME_SIZE) 0 u = Some v" for u v
    by (rule kput_keeps [OF that]) (use assms(2) in simp)
  from assms(1) show ?thesis
    by (auto simp: dir_read_def Let_def bind_eq_Some_conv split: if_splits
        dest!: fd_position_keeps copy nul intro: keeps_trans)
qed

subsection \<open>Terminal and RTC files\<close>

lemma keeps_if: "(alive s \<Longrightarrow> keeps s t) \<Longrightarrow> keeps s t"
  by (simp add: keeps_def)

text \<open>A terminal whose buffer, size, cursor or enter flag change keeps its process and flags.\<close>

lemma tmnl_upd_keeps:
  assumes "upd_tmnl i f s = Some t"
    and "\<And>t. tmnl_flags (f t) = tmnl_flags t \<and> active_process (f t) = active_process t"
    and "\<And>k. alive s \<Longrightarrow> i = int k \<Longrightarrow> k < 3 \<Longrightarrow> tmnl_ok k (tmnl_block s ! k) \<Longrightarrow> tmnl_ok k (f (tmnl_block s ! k))"
  shows "keeps s t"
  by (rule upd_tmnl_keeps [OF assms(1)])
    (use assms(2,3) kernel_ok_tmnl [OF aliveD] in \<open>auto simp: alive_def\<close>)

lemma enter_flag_keeps: "upd_tmnl i (\<lambda>t. t\<lparr>enter_flag := v\<rparr>) s = Some t \<Longrightarrow> keeps s t"
  by (erule tmnl_upd_keeps) (simp_all add: tmnl_ok_def)

lemma buffer_keeps:
  assumes "get_tmnl i s = Some u" and "arr_set (buffer u) k c = Some b" and "upd_tmnl i (\<lambda>t. t\<lparr>buffer := b\<rparr>) s = Some t"
  shows "keeps s t"
proof (rule tmnl_upd_keeps [OF assms(3)])
  fix j assume j: "alive s" "i = int j" "j < 3" "tmnl_ok j (tmnl_block s ! j)"
  then have "u = tmnl_block s ! j" using assms(1) kernel_okD(1) [OF aliveD [OF j(1)]] by (simp add: get_tmnl_in)
  moreover have "length b = length (buffer u)" using assms(2) by (auto simp: arr_set_def split: if_splits)
  ultimately show "tmnl_ok j ((tmnl_block s ! j)\<lparr>buffer := b\<rparr>)" using j(4) by (simp add: tmnl_ok_def)
qed simp

lemma clear_buffer_keeps:
  assumes "clear_buffer i s = Some (r, t)"
  shows "keeps s t"
proof -
  obtain s1 where s1: "for_each [0..<BUF_SIZE]
            (\<lambda>j s. do { t \<leftarrow> get_tmnl i s;
                        b \<leftarrow> arr_set (buffer t) (int j) 0;
                        upd_tmnl i (\<lambda>t. t\<lparr>buffer := b\<rparr>) s }) s = Some s1"
    "upd_tmnl i (\<lambda>t. t\<lparr>buffer_size := 0\<rparr>) s1 = Some t"
    using assms by (auto simp: clear_buffer_def bind_eq_Some_conv)
  have "keeps s s1" by (rule kept.for_each_related [OF s1(1)]) (auto simp: bind_eq_Some_conv dest: buffer_keeps)
  moreover have "keeps s1 t" by (rule tmnl_upd_keeps [OF s1(2)]) (simp_all add: tmnl_ok_def)
  ultimately show ?thesis by (rule keeps_trans)
qed

lemma terminal_read_keeps:
  assumes "terminal_read env buf nbytes s = Some (r, t)" and "OFF_8MB \<le> buf"
    and "\<And>n s t. env n s = Some t \<Longrightarrow> keeps s t"
  shows "keeps s t"
proof -
  have spin: "keeps u v" if "wait_enter env u = Some v" for u v
    using kept.spin_related [OF that [unfolded wait_enter_def]] assms(3) by blast
  have copy: "keeps u v" if "for_each [0..<n]
                   (\<lambda>i s. do { t \<leftarrow> get_tmnl (exec_terminal s) s;
                               c \<leftarrow> arr_get (buffer t) (int i);
                               kput (buf + i) c s }) u = Some v" for n u v
    by (rule kept.for_each_related [OF that]) (use assms(2) in \<open>auto simp: bind_eq_Some_conv elim!: kput_keeps\<close>)
  from assms(1) consider "t = cli s" | n s1 s2 s3 v s4 where "wait_enter env (sti (cli s)) = Some s1"
      "upd_tmnl (exec_terminal s1) (\<lambda>t. t\<lparr>enter_flag := KB_PENDING\<rparr>) (cli s1) = Some s2"
      "for_each [0..<n]
                   (\<lambda>i s. do { t \<leftarrow> get_tmnl (exec_terminal s) s;
                               c \<leftarrow> arr_get (buffer t) (int i);
                               kput (buf + i) c s }) s2 = Some s3"
      "clear_buffer (exec_terminal s3) s3 = Some (v, s4)" "t = sti s4"
    by (auto simp: terminal_read_def Let_def bind_eq_Some_conv cli_def split: if_splits)
  then show ?thesis
  proof cases
    case 2
    have "keeps s (sti (cli s))" by (rule keeps_trans [of _ "cli s"]) simp_all
    also note spin [OF 2(1)]
    also have "keeps s1 (cli s1)" by simp
    also note enter_flag_keeps [OF 2(2)]
    also note copy [OF 2(3)]
    also note clear_buffer_keeps [OF 2(4)]
    also have "keeps s4 t" using 2(5) by simp
    finally show ?thesis .
  qed simp
qed

lemma terminal_write_keeps:
  assumes "terminal_write buf nbytes s = Some (r, t)"
  shows "keeps s t"
proof -
  from assms consider "t = cli s" | s1 where "for_each [0..<nat nbytes]
      (\<lambda>i s. do { c \<leftarrow> kview s (buf + i); kprintf ''%c'' [Num (scast c)] s }) (cli s) = Some s1" "t = sti s1"
    by (auto simp: terminal_write_def Let_def bind_eq_Some_conv split: if_splits)
  then show ?thesis
  proof cases
    case 2
    have "keeps (cli s) s1" by (rule kept.for_each_related [OF 2(1)]) (auto simp: bind_eq_Some_conv dest: kprintf_keeps)
    then show ?thesis using 2(2) keeps_trans [of s "cli s" s1] keeps_trans [of s s1 t] by simp
  qed simp
qed

lemma rtc_set_freq_keeps: "rtc_set_freq freq s = Some (r, t) \<Longrightarrow> keeps s t"
  by (auto simp: rtc_set_freq_def bind_eq_Some_conv split: option.splits dest: upd_rtc_keeps)

lemma rtc_files_keep:
  "rtc_write buf s = Some (r, t) \<Longrightarrow> keeps s t"
  "rtc_open s = Some (r, t) \<Longrightarrow> keeps s t"
  "rtc_close s = Some (r, t) \<Longrightarrow> keeps s t"
  by (auto simp: rtc_write_def rtc_open_def rtc_close_def bind_eq_Some_conv split: if_splits
      dest!: upd_rtc_keeps rtc_set_freq_keeps intro: keeps_trans)

lemma rtc_read_keeps:
  assumes "rtc_read env s = Some (r, t)" and "\<And>n s t. env n s = Some t \<Longrightarrow> keeps s t"
  shows "keeps s t"
proof -
  obtain s1 where s1: "wait_tick env s = Some s1" "upd_rtc (exec_terminal s1) (\<lambda>c. c\<lparr>rtc_flags := RTC_WAIT\<rparr>) s1 = Some t"
    using assms(1) by (auto simp: rtc_read_def bind_eq_Some_conv)
  have "keeps s s1" using kept.spin_related [OF s1(1) [unfolded wait_tick_def]] assms(2) by blast
  also have "keeps s1 t" by (rule upd_rtc_keeps [OF s1(2)])
  finally show ?thesis .
qed

lemma rtc_handler_keeps:
  assumes "rtc_handler inb s = Some t"
  shows "keeps s t"
proof (rule keepsI)
  assume al: "alive s"
  have "length (rtc_block s) = 3" by (rule kernel_okD(3) [OF aliveD [OF al]])
  then have "t = s\<lparr>rtc_block := map tick_client (rtc_block s), port_log := rtc_ports (port_log s)\<rparr>"
    using rtc_handler_eq assms by fastforce
  then show "alive t \<and> fs t = fs s \<and> fs_image t = fs_image s"
    using al by (simp add: alive_def kernel_ok_def screen_ok_def fs_image_def fun_eq_iff)
qed

subsection \<open>The file calls\<close>

lemma ops_read_keeps:
  assumes "ops_read env d table fdn buf nbytes s = Some (r, t)" and "OFF_8MB \<le> buf"
    and "\<And>n s t. env n s = Some t \<Longrightarrow> keeps s t"
  shows "keeps s t"
  using assms(1) terminal_read_keeps [OF _ assms(2,3)] rtc_read_keeps [OF _ assms(3)] dir_read_keeps [OF _ assms(2)]
    file_read_keeps [OF _ assms(2)]
  by (cases table) (auto simp: ops_read_def invalid_op_def)

lemma ops_keep:
  "ops_write table buf nbytes s = Some (r, t) \<Longrightarrow> keeps s t"
  "ops_open table s = Some (r, t) \<Longrightarrow> keeps s t"
  "ops_close table s = Some (r, t) \<Longrightarrow> keeps s t"
  by (cases table; auto simp: ops_write_def ops_open_def ops_close_def invalid_op_def dir_write_def file_write_def
      terminal_open_def terminal_close_def dir_open_def dir_close_def file_open_def file_close_def
      dest: terminal_write_keeps rtc_files_keep)+

lemma sys_read_keeps:
  assumes "sys_read env fr fdn buf nbytes s = Some (r, t)" and "OFF_8MB \<le> buf"
    and "\<And>n s t. env n s = Some t \<Longrightarrow> keeps s t"
  shows "keeps s t"
  using assms(1) ops_read_keeps [OF _ assms(2,3)] by (auto simp: sys_read_def bind_eq_Some_conv split: if_splits)

lemma sys_write_keeps: "sys_write fdn buf nbytes s = Some (r, t) \<Longrightarrow> keeps s t"
  using ops_keep(1) by (auto simp: sys_write_def bind_eq_Some_conv split: if_splits)

lemma sys_open_keeps:
  assumes "sys_open fr name s = Some (r, t)"
  shows "keeps s t"
proof -
  from assms consider "t = s"
    | ty inum fdn s1 where "add_fd ty inum s = Some (fdn, s1)" "t = s1"
    | ty inum fdn s1 table v where "add_fd ty inum s = Some (fdn, s1)" "ops_open table s1 = Some (v, t)"
    unfolding sys_open_def by (fastforce simp: bind_eq_Some_conv split: if_splits)
  then show ?thesis
  proof cases
    case 3
    then show ?thesis by (rule keeps_trans [OF add_fd_keeps ops_keep(2)])
  qed (auto dest: add_fd_keeps)
qed

lemma sys_close_keeps:
  assumes "sys_close fdn s = Some (r, t)"
  shows "keeps s t"
proof -
  from assms consider s1 v where "rem_fd fdn s = Some (v, s1)" "t = s1"
    | s1 v table where "rem_fd fdn s = Some (v, s1)" "ops_close table s1 = Some (r, t)"
    unfolding sys_close_def by (fastforce simp: bind_eq_Some_conv split: if_splits)
  then show ?thesis
  proof cases
    case 2
    then show ?thesis by (rule keeps_trans [OF rem_fd_keeps ops_keep(3)])
  qed (auto dest: rem_fd_keeps)
qed

lemma getargs_loop_keeps: "getargs_loop arg buf nbytes i s = Some (n, t) \<Longrightarrow> OFF_8MB \<le> buf \<Longrightarrow> keeps s t"
proof (induction "nat nbytes - i" arbitrary: i s)
  case 0
  from "0.prems" "0.hyps" show ?case by (subst (asm) getargs_loop.simps) (simp split: if_splits)
next
  case (Suc k)
  have k: "k = nat nbytes - Suc i" using Suc.hyps(2) by simp
  have put: "keeps u v" if "kput (buf + i) b u = Some v" for b u v
    by (rule kput_keeps [OF that]) (use Suc.prems(2) in simp)
  from Suc.prems(1) consider "t = s" | c s1 where "kput (buf + i) c s = Some s1" "getargs_loop arg buf nbytes (Suc i) s1 = Some (n, t)"
    by (subst (asm) getargs_loop.simps) (auto simp: bind_eq_Some_conv split: if_splits)
  then show ?case
  proof cases
    case 2
    show ?thesis by (rule keeps_trans [OF put [OF 2(1)] Suc.hyps(1) [OF k 2(2) Suc.prems(2)]])
  qed simp
qed

lemma getargs_keeps:
  assumes "getargs buf nbytes s = Some (r, t)" and "OFF_8MB \<le> buf"
  shows "keeps s t"
proof -
  have put: "keeps u v" if "kput (buf + i) 0 u = Some v" for i u v
    by (rule kput_keeps [OF that]) (use assms(2) in simp)
  from assms(1) show ?thesis
    by (auto simp: getargs_def Let_def bind_eq_Some_conv split: if_splits
        dest!: put getargs_loop_keeps [OF _ assms(2)] intro: keeps_trans)
qed

lemma vidmap_keeps:
  assumes "vidmap a s = Some (r, t)"
  shows "keeps s t"
proof -
  from assms consider "t = s" | s1 where "OFF_8MB \<le> a" "on_paging (vidmap_helper VIDM_ADDR) s = Some s1"
      "for_each [0..<4] (\<lambda>i. kput (a + i) (le_bytes VIDM_ADDR ! i)) s1 = Some t"
    by (auto simp: vidmap_def Let_def bind_eq_Some_conv split: if_splits)
  then show ?thesis
  proof cases
    case 2
    then obtain p where p: "vidmap_helper VIDM_ADDR (pg s) = Some p" "s1 = s\<lparr>pg := p\<rparr>"
      by (auto simp: on_paging_def bind_eq_Some_conv)
    have "keeps s s1" unfolding p(2) by (rule pg_keeps) (use vidmap_helper_page p(1) in fastforce)
    also have "keeps s1 t" by (rule kept.for_each_related [OF 2(3)]) (rule kput_keeps, assumption, use 2(1) in simp)
    finally show ?thesis .
  qed simp
qed

end
