(* ===== verification/Handled.thy ===== *)
theory Handled
  imports Keeps
begin

text \<open>
  Which events the kernel handles without a fault: an access outside an array or to an unmapped address
  is the result \<open>None\<close> of a step. In a kernel that is \<open>alive\<close> the clock, the timer, the exceptions and
  the calls \<open>halt\<close> and \<open>close\<close> never fault; the keyboard does in exactly two situations, \<open>key_overruns\<close>.
\<close>

subsection \<open>The line buffer\<close>

lemma upd_active_returns: "kernel_ok s \<Longrightarrow> upd_tmnl (active_terminal s) f s \<noteq> None"
  using kernel_okD [of s] by (simp add: upd_tmnl_in)

lemma put_char_returns:
  assumes "kernel_ok s"
  obtains t where "kprintf ''%c'' [Num (ucast (c :: u8))] s = Some t" "kernel_ok t"
  using putc_step [OF assms, of c] kprintf_byte [OF assms, of c] by auto

lemma input_char_faults:
  assumes "kernel_ok s"
  shows "input_char c s = None \<longleftrightarrow> c = 0x0D \<and> buffer_size (tmnl_block s ! nat (active_terminal s)) = 128"
proof -
  define u where "u = tmnl_block s ! nat (active_terminal s)"
  have "nat (active_terminal s) < 3" using kernel_okD(5) [OF assms] by simp
  then have u: "tmnl_ok (nat (active_terminal s)) u" unfolding u_def by (rule kernel_ok_tmnl [OF assms])
  then have l: "length (buffer u) = 128" "unat (buffer_size u) \<le> 128" by (simp_all add: tmnl_ok_def)
  have small: "uint (buffer_size u) < 128 \<longleftrightarrow> unat (buffer_size u) < 128" unfolding uint_nat by linarith
  have set: "arr_set (buffer u) (uint (buffer_size u)) x \<noteq> None \<longleftrightarrow> unat (buffer_size u) < 128" for x
    using l(1) small by (simp add: arr_set_def)
  have full: "buffer_size u = 128 \<longleftrightarrow> \<not> unat (buffer_size u) < 128"
    using l(2) word_unat_eq_iff [of "buffer_size u"] by auto
  have get: "get_tmnl (active_terminal s) s = Some u" unfolding u_def by (rule get_active [OF assms])
  obtain s1 where put: "kprintf ''%c'' [Num (ucast c)] s = Some s1" "kernel_ok s1" by (rule put_char_returns [OF assms])
  consider (enter) "c = 0x0D" | (bs) "c = BACKSPACE" | (char) "c \<noteq> 0x0D" "c \<noteq> BACKSPACE" by blast
  then show ?thesis
  proof cases
    case enter
    show ?thesis
    proof (cases "unat (buffer_size u) < 128")
      case True
      note app = append_char [OF u True, of "0x0A"]
      let ?f = "\<lambda>t. t\<lparr>buffer := (buffer u)[unat (buffer_size u) := 0x0A], buffer_size := buffer_size t + 1\<rparr>"
      note s1 = update_active [OF assms, of ?f, folded u_def, OF app(3)]
      obtain s2 where "kprintf [CHR 0x0A] [] (s\<lparr>tmnl_block := (tmnl_block s)[nat (active_terminal s) := ?f u]\<rparr>) = Some s2"
          "kernel_ok s2"
        using putc_step [OF s1(2), of "0x0A"] kprintf_newline [OF s1(2)] by auto
      then show ?thesis
        using enter True full s1(1) app(1) upd_active_returns [of s2] by (simp add: input_char_def get u_def [symmetric])
    next
      case False
      then show ?thesis using enter set [of "0x0A"] full by (simp add: input_char_def get u_def [symmetric])
    qed
  next
    case bs
    have "input_char c s \<noteq> None"
    proof (cases "buffer_size u = 0")
      case False
      then have "0 < unat (buffer_size u)" by (simp add: unat_gt_0)
      then have "0 \<le> uint (buffer_size u) - 1" "uint (buffer_size u) - 1 < 128"
        using l(2) unfolding uint_nat by linarith+
      then have "arr_set (buffer u) (uint (buffer_size u) - 1) 0x20 \<noteq> None" using l(1) by (simp add: arr_set_def)
      then show ?thesis
        using bs False put upd_active_returns [OF put(2)] by (auto simp: input_char_def get)
    qed (use bs get in \<open>simp add: input_char_def\<close>)
    then show ?thesis using bs by simp
  next
    case char
    have "input_char c s \<noteq> None"
    proof (cases "uint (buffer_size u) < 127")
      case True
      then have "arr_set (buffer u) (uint (buffer_size u)) c \<noteq> None" using set small by simp
      then show ?thesis
        using char True put upd_active_returns [OF put(2)] by (auto simp: input_char_def get)
    qed (use char get in \<open>simp add: input_char_def\<close>)
    then show ?thesis using char by simp
  qed
qed

text \<open>Printing the line buffer, which need not end with a zero.\<close>

lemma puts_unterminated: "0 \<notin> set xs \<Longrightarrow> puts_from put (lrd xs) k s = None"
proof (induction "length xs - k" arbitrary: k s)
  case 0
  then show ?case by (subst puts_from.simps) (simp add: lrd_def)
next
  case (Suc n)
  then show ?case by (subst puts_from.simps) (auto simp: lrd_def split: Option.bind_split dest: nth_mem)
qed

lemma kprintf_unterminated: "0 \<notin> set b \<Longrightarrow> kprintf ''%s'' [Str (lrd b)] s = None"
  by (simp add: kprintf_def printf_def printf_from.simps [of _ _ 0] format_char.simps conversion_def puts_at_def puts_def
      bytes_of_def lrd_def puts_unterminated)

lemma redraw_faults:
  assumes "kernel_ok s"
  shows "do { s \<leftarrow> clear s; t \<leftarrow> get_tmnl (active_terminal s) s; kprintf ''%s'' [Str (lrd (buffer t))] s } = None \<longleftrightarrow>
    0 \<notin> set (buffer (tmnl_block s ! nat (active_terminal s)))"
proof -
  obtain s1 where s1: "clear s = Some s1" "kernel_ok s1" "console_frame s s1"
    using clear_ok [OF assms] by blast
  let ?b = "buffer (tmnl_block s ! nat (active_terminal s))"
  have "nat (active_terminal s) < 3" using kernel_okD(5) [OF assms] by simp
  then have get: "get_tmnl (active_terminal s1) s1 = Some (tmnl_block s1 ! nat (active_terminal s))"
    "buffer (tmnl_block s1 ! nat (active_terminal s)) = ?b"
    using get_active [OF s1(2)] s1(3) console_frame_tmnl(1) [OF s1(3) assms] by (simp_all add: console_frame_def)
  have "kprintf ''%s'' [Str (lrd ?b)] s1 \<noteq> None" if "0 \<in> set ?b"
  proof -
    have "render (bytes_of ''%s'') [Str (lrd ?b)] = Some (takeWhile (\<lambda>c. c \<noteq> 0) ?b)"
      using cstr_takeWhile [OF that] by (simp add: bytes_of_def conversion_text_def c_string_cstr [symmetric])
    then show ?thesis using kprintf_ok [OF s1(2), of "''%s''"] by (auto simp: bytes_of_def)
  qed
  then show ?thesis using s1(1) get kprintf_unterminated [of ?b s1] by auto
qed

subsection \<open>The keyboard\<close>

text \<open>
  The key strokes that overrun the line buffer: enter on a line that enter has already filled, and
  control-L, which prints the buffer as a string, where it has no zero.
\<close>

definition key_overruns :: "(nat \<Rightarrow> u8) \<Rightarrow> u8 \<Rightarrow> kst \<Rightarrow> bool" where
  "key_overruns beyond code s \<longleftrightarrow>
     (let t = tmnl_block s ! nat (active_terminal s) in
      alt_flag s \<noteq> 1 \<and>
      (if ctrl_flag s = 1
       then code \<notin> {CTRL_RELEASE, LEFT_ALT_RELEASE, RIGHT_SHIFT_RELEASE, LEFT_SHIFT_RELEASE} \<and>
            scancode beyond code = 0x6C \<and> 0 \<notin> set (buffer t)
       else code = 0x1C \<and> buffer_size t = 128))"

lemma shift_char_enter: "shift_char n m c = 0x0D \<longleftrightarrow> c = 0x0D"
proof -
  have no: "0x0D \<notin> set shift_lookup_table" and enter: "shift_lookup_table ! 13 = 0x20"
    by (simp_all add: shift_lookup_table_def bytes_of_def nth_append)
  have "shift_lookup_table ! unat c \<noteq> 0x0D" if "c < 100"
  proof -
    have "unat c < length shift_lookup_table" using that by (simp add: tables_length word_less_nat_alt)
    from nth_mem [OF this] show ?thesis using no by metis
  qed
  moreover have "c - 0x20 \<noteq> 0x0D" if "is_lower c"
  proof
    assume "c - 0x20 = 0x0D"
    then have "c = 0x2D" by (simp add: diff_eq_eq)
    then show False using that by (simp add: is_lower_def)
  qed
  ultimately show ?thesis using enter by (auto simp: shift_char_def is_lower_def)
qed

lemma enter_scancode:
  assumes "code < KBCODE_SIZE"
  shows "scancode beyond code = 0x0D \<longleftrightarrow> code = 0x1C"
proof -
  have "list_all (\<lambda>i. (kb_scancode ! i = 0x0D) = (i = 28)) [0..<62]" by code_simp
  moreover have "unat code < 62" using assms by (simp add: word_less_nat_alt)
  ultimately have "kb_scancode ! unat code = 0x0D \<longleftrightarrow> unat code = 28" by (auto simp: list_all_iff)
  then show ?thesis using assms word_unat_eq_iff [of code] by (simp add: scancode_def)
qed

lemma handle_code_faults:
  assumes "kernel_ok s"
  shows "handle_code beyond code s = None \<longleftrightarrow> key_overruns beyond code s"
proof -
  have sw: "\<exists>r t. switch_terminal 0 s = Some (r, t)" "\<exists>r t. switch_terminal 1 s = Some (r, t)"
    "\<exists>r t. switch_terminal 2 s = Some (r, t)"
    using switch_terminal_safe [OF assms, of 0] switch_terminal_safe [OF assms, of 1]
      switch_terminal_safe [OF assms, of 2] by auto
  have enter: "scancode beyond 0x1C = 0x0D" using enter_scancode [of "0x1C" beyond] by simp
  show ?thesis
    unfolding handle_code_def Let_def key_overruns_def
    using sw redraw_faults [OF assms] input_char_faults [OF assms] shift_char_enter enter_scancode [of code beyond] enter
    by (auto simp del: bind_eq_None_conv)
qed

lemma keyboard_handler_faults:
  assumes "kernel_ok s"
  shows "keyboard_handler inb beyond s = None \<longleftrightarrow>
    key_overruns beyond (inb (send_eoi 1 (port_log s)) KB_PORT) s"
proof -
  let ?s = "(on_ports (send_eoi 1) s)\<lparr>exec_terminal := active_terminal s\<rparr>"
  have "kernel_ok ?s" using assms by (auto simp: kernel_ok_def screen_ok_def on_ports_def)
  moreover have "keyboard_handler inb beyond s = None \<longleftrightarrow>
      handle_code beyond (inb (send_eoi 1 (port_log s)) KB_PORT) ?s = None"
    by (simp add: keyboard_handler_def Let_def on_ports_def bind_eq_None_conv)
  moreover have "key_overruns beyond code ?s = key_overruns beyond code s" for code
    by (simp add: key_overruns_def on_ports_def)
  ultimately show ?thesis using handle_code_faults by simp
qed

subsection \<open>halt, close and the exceptions\<close>

lemma close_returns:
  assumes "running s"
  shows "\<exists>r t. sys_close fdn s = Some (r, t)"
proof (cases "2 \<le> fdn \<and> fdn < 8")
  case True
  then have "2 \<le> nat fdn" "nat fdn < 8" "int (nat fdn) = fdn" by linarith+
  then show ?thesis using close_any [OF assms, of "nat fdn"] by metis
next
  case False
  then show ?thesis using sys_close_refused [OF assms, of fdn] by auto
qed

lemma end_process_returns:
  assumes "running s" and "pid < 6"
  shows "\<exists>r t. end_process (int pid) s = Some (r, t) \<and> kernel_ok t"
proof (cases "pb_flags (pcb s ! pid) = PCB_ABSENT")
  case True
  have "get_pb (int pid) s = Some (pcb s ! pid)"
    using kernel_okD(2) [OF runningD(1) [OF assms(1)]] assms(2) by (simp add: get_pb_in)
  then show ?thesis using True runningD(1) [OF assms(1)] by (simp add: end_process_def)
next
  case False
  let ?b = "(pcb s ! pid)\<lparr>pb_flags := PCB_ABSENT, argument := (argument (pcb s ! pid))[0 := 0]\<rparr>"
  note ok = runningD(1) [OF assms(1)]
  have "pb_ok ?b" using kernel_ok_pb [OF ok assms(2)] by (simp add: pb_ok_def)
  then have "running (s\<lparr>pcb := (pcb s)[pid := ?b]\<rparr>)"
    using kernel_ok_upd_pb [OF ok] assms(1) by (simp add: running_def)
  from running_with_fds(1) [OF this] show ?thesis
    using end_process_eq [OF assms False] runningD(1) by blast
qed

lemma halt_returns:
  assumes "running s"
  shows "\<exists>c t. halt status s = Some (c, t)"
proof (cases "parent (pcb s ! current s) = -1")
  case True
  then show ?thesis using halt_base [OF assms] by blast
next
  case False
  note r = runningD [OF assms] and cur = get_cur_pb [OF assms]
  define p where "p = nat (parent (pcb s ! current s))"
  have "-1 \<le> parent (pcb s ! current s)" "parent (pcb s ! current s) < 6"
    using kernel_ok_pb [OF r(1,3)] by (simp_all add: pb_ok_def)
  then have p: "parent (pcb s ! current s) = int p" "p < 6" using False unfolding p_def by linarith+
  obtain s1 where s1: "for_each [3..<FDT_SIZE]
       (\<lambda>i s. do { cur \<leftarrow> sched_process s; d \<leftarrow> get_fd cur i s;
                   if fd_flags d = FD_EXISTS then map_option snd (sys_close (int i) s) else Some s }) s = Some s1"
    "running s1" using close_loop [OF assms] by (auto simp: closing_def)
  let ?e = "nat (exec_terminal s1)"
  let ?s2 = "s1\<lparr>tmnl_block := (tmnl_block s1)[?e := (tmnl_block s1 ! ?e)\<lparr>active_process := int p\<rparr>]\<rparr>"
  note ok = runningD(1) [OF s1(2)]
  have e: "?e < 3" "length (tmnl_block s1) = 3" "exec_terminal s1 = int ?e" using kernel_okD [OF ok] by simp_all
  have "kernel_ok ?s2"
    using kernel_ok_upd_tmnl [of s1 "exec_terminal s1" "\<lambda>t. t\<lparr>active_process := int p\<rparr>"] ok
      kernel_ok_tmnl [OF ok e(1)] e p(2) by (simp add: tmnl_ok_def)
  then have run2: "running ?s2" using e by (simp add: running_def)
  have up: "upd_tmnl (exec_terminal s1) (\<lambda>t. t\<lparr>active_process := int p\<rparr>) s1 = Some ?s2"
    using upd_tmnl_in [of "exec_terminal s1" s1] e by simp
  obtain v s3 where s3: "end_process (int (current s)) ?s2 = Some (v, s3)" "kernel_ok s3"
    using end_process_returns [OF run2 r(3)] by blast
  obtain t where "on_paging (create_process_page (word_of_nat p)) s3 = Some t"
    using process_page [OF s3(2) p(2)] by blast
  then show ?thesis using r(2) cur p(1) s1(1) up s3(1) by (simp add: halt_def Let_def del: upt_rec_numeral)
qed

lemma exception_returns:
  assumes "alive s" and "h \<in> set handlers"
  shows "\<exists>c t. exception h s = Some (c, t)"
proof -
  obtain msg where msg: "exception h = report_and_halt msg" "0 \<notin> set (bytes_of (msg @ [CHR 0x0A]))"
    "0x25 \<notin> set (bytes_of (msg @ [CHR 0x0A]))" using exception_report [OF assms(2)] by blast
  obtain s1 where s1: "clear s = Some s1" using clear_ok [OF aliveD [OF assms(1)]] by blast
  then have al1: "alive s1" using clear_keeps assms(1) by (auto simp: keeps_def)
  have "render (bytes_of (msg @ [CHR 0x0A])) [] = Some (bytes_of (msg @ [CHR 0x0A]))"
    by (rule render_plain [OF msg(3)])
  then obtain s2 where s2: "kprintf (msg @ [CHR 0x0A]) [] s1 = Some s2"
    using kprintf_ok [OF aliveD [OF al1] msg(2)] by blast
  then have "running s2" using kprintf_keeps [OF s2] al1 alive_running by (auto simp: keeps_def)
  then show ?thesis using s1 s2 halt_returns [of s2 0] by (simp add: msg(1) report_and_halt_def)
qed

subsection \<open>The clock and the timer\<close>

lemma rtc_handler_returns: "kernel_ok s \<Longrightarrow> \<exists>t. rtc_handler inb s = Some t"
  using rtc_handler_eq [OF kernel_okD(3)] by blast

lemma sched_handler_returns:
  assumes "alive s"
  shows "\<exists>c t. sched_handler fr esp ebp s = Some (c, t)"
proof -
  have "occupied s" using assms by (simp add: alive_def occupied_def)
  moreover have "exec_terminal s = int (nat (exec_terminal s))" using kernel_okD(6) [OF aliveD [OF assms]] by simp
  ultimately show ?thesis using sched_handler_switches [OF aliveD [OF assms]] by blast
qed

end
