(* ===== verification/Invariant.thy ===== *)
theory Invariant
  imports Handled
begin

text \<open>
  The kernel as a transition system: from a booted kernel, any sequence of interrupts, exceptions,
  system calls and stores of user programs. Every step keeps the invariant of the kernel and the
  file system image, so every reachable state has them; and with the invariant comes what theory
  Handled shows: which of the next events can fault.
\<close>

subsection \<open>halt\<close>

lemma process_page_keeps:
  assumes "on_paging (create_process_page pid) s = Some t" and "alive s \<Longrightarrow> \<exists>k < 6. pid = word_of_nat k"
  shows "keeps s t"
proof -
  obtain p where p: "create_process_page pid (pg s) = Some p" "t = s\<lparr>pg := p\<rparr>"
    using assms(1) by (auto simp: on_paging_def bind_eq_Some_conv)
  show ?thesis
    unfolding p(2) by (rule pg_keeps) (use assms(2) p(1) paging_inv_process in fastforce)
qed

lemma active_process_keeps:
  assumes "upd_tmnl i (\<lambda>t. t\<lparr>active_process := q\<rparr>) s = Some t" and "0 \<le> q" and "q < 6"
  shows "keeps s t"
  by (rule upd_tmnl_keeps [OF assms(1)])
    (use assms(2,3) kernel_ok_tmnl [OF aliveD] in \<open>auto simp: alive_def tmnl_ok_def\<close>)

lemma halt_keeps:
  assumes "halt status s = Some (c, t)"
  shows "keeps s t"
proof (rule keeps_if)
  assume al: "alive s"
  let ?close = "\<lambda>i s. do { cur \<leftarrow> sched_process s; d \<leftarrow> get_fd cur i s;
                   if fd_flags d = FD_EXISTS then map_option snd (sys_close (int i) s) else Some s }"
  note r = runningD [OF alive_running [OF al]] and cur = get_cur_pb [OF alive_running [OF al]]
  define q where "q = parent (pcb s ! current s)"
  have q: "-1 \<le> q" "q < 6" using alive_pb [OF al r(3)] by (simp_all add: q_def pb_ok_def)
  from assms consider "t = s" | s1 s2 s3 s4 v where "q \<noteq> -1" "for_each [3..<FDT_SIZE] ?close s = Some s1"
      "upd_tmnl (exec_terminal s1) (\<lambda>t. t\<lparr>active_process := q\<rparr>) s1 = Some s2"
      "end_process (int (current s)) s2 = Some (v, s3)"
      "on_paging (create_process_page (word_of_int q)) s3 = Some s4" "t = s4\<lparr>tss_esp0 := kernel_stack_top q\<rparr>"
    using r(2) cur by (auto simp: halt_def Let_def q_def bind_eq_Some_conv simp del: upt_rec_numeral split: if_splits)
  then show "keeps s t"
  proof cases
    case 2
    then have q0: "0 \<le> q" using q(1) by simp
    have "keeps s s1"
      by (rule kept.for_each_related [OF 2(2)]) (auto simp: bind_eq_Some_conv split: if_splits dest: sys_close_keeps)
    also note active_process_keeps [OF 2(3) q0 q(2)]
    also note end_process_keeps [OF 2(4)]
    also have "keeps s3 s4"
      by (rule process_page_keeps [OF 2(5)]) (use q0 q(2) in \<open>auto intro!: exI [of _ "nat q"]\<close>)
    also have "keeps s4 t" using 2(6) by simp
    finally show ?thesis .
  qed simp
qed

subsection \<open>execute\<close>

lemma copy_arg_keeps:
  "copy_arg v sched i a j s = Some (k, t) \<Longrightarrow> keeps s t"
proof (induction "BUF_SIZE - j" arbitrary: j s)
  case 0
  from "0.prems" "0.hyps" show ?case by (subst (asm) copy_arg.simps) (auto simp: bind_eq_Some_conv)
next
  case (Suc n)
  have n: "n = BUF_SIZE - Suc j" using Suc.hyps(2) by simp
  from Suc.prems consider "t = s" | p b arg s1 where "get_pb sched s = Some p"
      "arr_set (argument p) (int j - int a) b = Some arg" "upd_pb sched (\<lambda>p. p\<lparr>argument := arg\<rparr>) s = Some s1"
      "copy_arg v sched i a (Suc j) s1 = Some (k, t)"
    by (subst (asm) copy_arg.simps) (auto simp: bind_eq_Some_conv split: if_splits)
  then show ?case
  proof cases
    case 2
    show ?thesis by (rule keeps_trans [OF argument_keeps [OF 2(1-3)] Suc.hyps(1) [OF n 2(4)]])
  qed simp
qed

lemma parse_cmd_keeps:
  assumes "parse_cmd v nm s = Some (r, nm', t)"
  shows "keeps s t"
proof -
  from assms consider "t = s" | sched i a k p arg s1 where "copy_arg v sched i a a s = Some (k, s1)" "get_pb sched s1 = Some p"
      "arr_set (argument p) (int k - int a) 0 = Some arg" "upd_pb sched (\<lambda>p. p\<lparr>argument := arg\<rparr>) s1 = Some t"
    unfolding parse_cmd_def Let_def by (fastforce simp: bind_eq_Some_conv split: if_splits)
  then show ?thesis
  proof cases
    case 2
    show ?thesis by (rule keeps_trans [OF copy_arg_keeps [OF 2(1)] argument_keeps [OF 2(2-4)]])
  qed simp
qed

lemma load_prog_keeps:
  assumes "load_prog inum s = Some (r, t)"
  shows "keeps s t"
proof (rule keeps_if)
  assume "alive s"
  then have "program_start (pg s) = PROGRAM_START" by (auto simp: alive_def kernel_ok_def paging_inv_def)
  then show "keeps s t" using assms read_data_mem_keeps [of inum 0 PROGRAM_START OFF_4MB s r t] by (simp add: load_prog_def)
qed

lemma place_process_keeps:
  assumes "place_process pid s = Some t" and "0 \<le> pid" and "pid < 6"
  shows "keeps s t"
proof -
  have base: "keeps u v" if "upd_pb pid (\<lambda>p. p\<lparr>parent := -1\<rparr>) u = Some v" for u v
    by (rule upd_pb_keeps [OF that]) (auto simp: pb_ok_def dest: alive_pb)
  have exec: "keeps u (u\<lparr>exec_terminal := pid\<rparr>)" if "pid < 3" for u
    using that assms(2) by (simp add: keeps_def alive_def kernel_ok_def screen_ok_def fs_image_def fun_eq_iff)
  show ?thesis
  proof (cases "pid = 0 \<or> pid = 1 \<or> pid = 2")
    case True
    then obtain s1 where "upd_pb pid (\<lambda>p. p\<lparr>parent := -1\<rparr>) s = Some s1"
      "upd_tmnl pid (\<lambda>t. t\<lparr>active_process := pid\<rparr>) (s1\<lparr>exec_terminal := pid\<rparr>) = Some t"
      using assms(1) unfolding place_process_def if_P [OF True] by (auto simp: bind_eq_Some_conv)
    note s1 = this
    have "keeps s s1" by (rule base [OF s1(1)])
    also have "keeps s1 (s1\<lparr>exec_terminal := pid\<rparr>)" using True by (intro exec) auto
    also have "keeps (s1\<lparr>exec_terminal := pid\<rparr>) t" by (rule active_process_keeps [OF s1(2) assms(2,3)])
    finally show ?thesis .
  next
    case False
    then show ?thesis using assms(1) active_process_keeps [OF _ assms(2,3)] by (simp add: place_process_def)
  qed
qed

lemma with_process_keeps: "frame_ok fr \<Longrightarrow> keeps s (with_process fr pid s)"
proof (rule keepsI)
  assume "frame_ok fr" and al: "alive s"
  then show "alive (with_process fr pid s) \<and> fs (with_process fr pid s) = fs s \<and> fs_image (with_process fr pid s) = fs_image s"
    using with_process_ok [OF aliveD [OF al]] by (simp add: alive_def) (simp add: with_process_def)
qed

lemma new_pid_keeps:
  assumes "new_pid fr s = Some (pid, t)" and "frame_ok fr" and "alive s"
  shows "keeps s t" "pid \<noteq> -1 \<longrightarrow> 0 \<le> pid \<and> pid < 6"
proof -
  have "keeps s t \<and> (pid \<noteq> -1 \<longrightarrow> 0 \<le> pid \<and> pid < 6)"
  proof (cases "find (pcb_free (pcb s)) [0..<6]")
    case None
    then show ?thesis using assms(1) new_pid_eq [OF aliveD [OF assms(3)] assms(2)] by (simp del: upt_rec_numeral)
  next
    case (Some i)
    then have "i < 6" using find_upt_Some [of "pcb_free (pcb s)" 0 6 i] by simp
    then show ?thesis
      using Some assms(1) new_pid_eq [OF aliveD [OF assms(3)] assms(2)] with_process_keeps [OF assms(2)]
      by (auto simp del: upt_rec_numeral)
  qed
  then show "keeps s t" "pid \<noteq> -1 \<longrightarrow> 0 \<le> pid \<and> pid < 6" by blast+
qed

lemma start_program_keeps:
  assumes "start_program fr entry pid s = Some (c, t)" and "0 \<le> pid" and "pid < 6"
  shows "keeps s t"
proof -
  from assms(1) obtain s1 s2 ret s3 where s: "place_process pid s = Some s1"
      "on_paging (create_process_page (word_of_int pid)) s1 = Some s2" "load_prog (inode_num entry) s2 = Some (ret, s3)"
    and rest: "if ret \<le> 0 then t = s3
      else \<exists>s4. upd_pb pid (\<lambda>p. p\<lparr>base_ptr := frame_ebp fr, stack_ptr := frame_esp fr\<rparr>) s3 = Some s4 \<and>
        t = s4\<lparr>tss_esp0 := kernel_stack_top pid, tss_ss0 := KERNEL_DS\<rparr>"
    unfolding start_program_def Let_def by (fastforce simp: bind_eq_Some_conv split: if_splits)
  have "keeps s s1" by (rule place_process_keeps [OF s(1) assms(2,3)])
  also have "keeps s1 s2"
    by (rule process_page_keeps [OF s(2)]) (use assms(2,3) in \<open>auto intro!: exI [of _ "nat pid"]\<close>)
  also have "keeps s2 s3" by (rule load_prog_keeps [OF s(3)])
  also have "keeps s3 t"
  proof (cases "ret \<le> 0")
    case False
    then obtain s4 where s4: "upd_pb pid (\<lambda>p. p\<lparr>base_ptr := frame_ebp fr, stack_ptr := frame_esp fr\<rparr>) s3 = Some s4"
      "t = s4\<lparr>tss_esp0 := kernel_stack_top pid, tss_ss0 := KERNEL_DS\<rparr>" using rest by auto
    have "keeps s3 s4" by (rule upd_pb_keeps [OF s4(1)]) (auto simp: pb_ok_def dest: alive_pb)
    also have "keeps s4 (s4\<lparr>tss_esp0 := kernel_stack_top pid\<rparr>)" by simp
    also have "keeps (s4\<lparr>tss_esp0 := kernel_stack_top pid\<rparr>) t" unfolding s4(2) by (rule keeps_fields)
    finally show ?thesis .
  qed (use rest in simp)
  finally show ?thesis .
qed

lemma run_program_keeps:
  assumes "run_program fr nm s = Some (c, t)" and "frame_ok fr"
  shows "keeps s t"
proof (rule keeps_if)
  assume al: "alive s"
  from assms(1) consider "t = s" | s1 where "new_pid fr s = Some (-1, s1)" "t = s1"
    | pid s1 entry where "new_pid fr s = Some (pid, s1)" "pid \<noteq> -1" "start_program fr entry pid s1 = Some (c, t)"
    unfolding run_program_def by (fastforce simp: bind_eq_Some_conv split: if_splits option.splits)
  then show "keeps s t"
  proof cases
    case 3
    then show ?thesis
      using new_pid_keeps [OF 3(1) assms(2) al] start_program_keeps [OF 3(3)] by (blast intro: keeps_trans)
  qed (use new_pid_keeps(1) [OF _ assms(2) al] in auto)
qed

lemma execute_keeps:
  assumes "execute fr command s = Some (c, t)" and "frame_ok fr"
  shows "keeps s t"
proof (cases command)
  case None
  then show ?thesis using assms(1) by (simp add: execute_def)
next
  case (Some cmd)
  then obtain ret nm s1 where s1: "parse_cmd cmd (replicate BUF_SIZE 0) s = Some (ret, nm, s1)"
    and rest: "(if ret = -1 then Some (Returned (-1), s1)
       else do { nm \<leftarrow> for_each [nat ret..<BUF_SIZE] (\<lambda>i nm. arr_set nm (int i) 0x20) nm;
                 if exit_bool nm = 4 then
                   do { (c, s) \<leftarrow> halt 0 s1;
                        case c of Returned _ \<Rightarrow> run_program fr nm s | _ \<Rightarrow> Some (c, s) }
                 else run_program fr nm s1 }) = Some (c, t)"
    using assms(1) unfolding execute_def by (auto simp: bind_eq_Some_conv [where f = "parse_cmd _ _ _"])
  have run: "keeps u t" if "run_program fr nm u = Some (c, t)" for u nm
    by (rule run_program_keeps [OF that assms(2)])
  have after: "keeps u t" if "(case c' of Returned _ \<Rightarrow> run_program fr nm u | _ \<Rightarrow> Some (c', u)) = Some (c, t)" for c' u nm
    using that run by (cases c') auto
  have "keeps s1 t"
  proof (cases "ret = -1")
    case False
    then obtain nm' where nm': "(if exit_bool nm' = 4 then
        do { (c, s) \<leftarrow> halt 0 s1; case c of Returned _ \<Rightarrow> run_program fr nm' s | _ \<Rightarrow> Some (c, s) }
      else run_program fr nm' s1) = Some (c, t)"
      using rest by (auto simp: bind_eq_Some_conv [where f = "for_each _ _ _"])
    show ?thesis
    proof (cases "exit_bool nm' = 4")
      case True
      then obtain c' s2 where "halt 0 s1 = Some (c', s2)"
        "(case c' of Returned _ \<Rightarrow> run_program fr nm' s2 | _ \<Rightarrow> Some (c', s2)) = Some (c, t)"
        using nm' by (auto simp: bind_eq_Some_conv [where f = "halt _ _"])
      then show ?thesis by (blast intro: keeps_trans [OF halt_keeps after])
    qed (use nm' run in simp)
  qed (use rest in simp)
  with parse_cmd_keeps [OF s1] show ?thesis by (rule keeps_trans)
qed

subsection \<open>The keyboard\<close>

lemma exec_terminal_keeps: "(alive s \<Longrightarrow> 0 \<le> e \<and> e < 3) \<Longrightarrow> keeps s (s\<lparr>exec_terminal := e\<rparr>)"
  by (simp add: keeps_def alive_def kernel_ok_def screen_ok_def fs_image_def fun_eq_iff)

text \<open>A buffer and its size, changed together.\<close>

lemma line_keeps:
  assumes "arr_set (buffer u) k c = Some b" and "upd_tmnl (active_terminal s) (\<lambda>t. t\<lparr>buffer := b, buffer_size := f (buffer_size t)\<rparr>) s = Some t"
    and "alive s" and "tmnl_ok a u" and "buffer_size (tmnl_block s ! nat (active_terminal s)) = buffer_size u"
    and "unat (f (buffer_size u)) \<le> 128"
  shows "keeps s t"
proof (rule tmnl_upd_keeps [OF assms(2)])
  fix j assume "active_terminal s = int j" "tmnl_ok j (tmnl_block s ! j)"
  moreover have "length b = 128" using assms(1,4) by (auto simp: arr_set_def tmnl_ok_def split: if_splits)
  ultimately show "tmnl_ok j ((tmnl_block s ! j)\<lparr>buffer := b, buffer_size := f (buffer_size (tmnl_block s ! j))\<rparr>)"
    using assms(5,6) by (simp add: tmnl_ok_def)
qed simp

lemma put_char_keeps:
  assumes "kprintf ''%c'' [Num (ucast (c :: u8))] s = Some t" and "alive s"
  shows "keeps s t" "active_terminal t = active_terminal s"
    "buffer_size (tmnl_block t ! nat (active_terminal s)) = buffer_size (tmnl_block s ! nat (active_terminal s))"
proof -
  note ok = kernel_okD [OF aliveD [OF assms(2)]]
  have frame: "console_frame s t"
    using assms(1) putc_step [OF aliveD [OF assms(2)], of c] by (auto simp: kprintf_byte [OF aliveD [OF assms(2)]])
  show "keeps s t" by (rule kprintf_keeps [OF assms(1)])
  show "active_terminal t = active_terminal s" using frame by (simp add: console_frame_def)
  show "buffer_size (tmnl_block t ! nat (active_terminal s)) = buffer_size (tmnl_block s ! nat (active_terminal s))"
    by (rule console_frame_tmnl(2) [OF frame aliveD [OF assms(2)]]) (use ok in linarith)
qed

lemma input_char_keeps:
  assumes "input_char c s = Some t"
  shows "keeps s t"
proof (rule keeps_if)
  assume al: "alive s"
  define u where "u = tmnl_block s ! nat (active_terminal s)"
  note ok = kernel_okD [OF aliveD [OF al]] and get = get_active [OF aliveD [OF al]]
  have u: "tmnl_ok (nat (active_terminal s)) u"
    unfolding u_def by (rule kernel_ok_tmnl [OF aliveD [OF al]]) (use ok in linarith)
  have size: "unat (buffer_size u) \<le> 128" "length (buffer u) = 128" using u by (simp_all add: tmnl_ok_def)
  have grow: "unat (buffer_size u + 1) \<le> 128" if "arr_set (buffer u) (uint (buffer_size u)) x = Some b" for x b
  proof -
    have "uint (buffer_size u) < 128" using that size(2) by (simp add: arr_set_def split: if_splits)
    then have "unat (buffer_size u) < 128" by (simp only: uint_nat of_nat_less_numeral_iff)
    then show ?thesis using unat_succ [of "buffer_size u"] by simp
  qed
  have shrink: "unat (buffer_size u - 1) \<le> 128" if "buffer_size u \<noteq> 0"
  proof -
    have "0 < unat (buffer_size u)" using that by (simp add: unat_gt_0)
    then show ?thesis using size unat_sub [of 1 "buffer_size u"] by (simp add: word_le_nat_alt)
  qed
  note line = line_keeps [OF _ _ _ u]
  from assms consider "t = s"
    | b s1 s2 where "arr_set (buffer u) (uint (buffer_size u)) 0x0A = Some b"
        "upd_tmnl (active_terminal s) (\<lambda>t. t\<lparr>buffer := b, buffer_size := buffer_size t + 1\<rparr>) s = Some s1"
        "kprintf [CHR 0x0A] [] s1 = Some s2"
        "upd_tmnl (active_terminal s2) (\<lambda>t. t\<lparr>enter_flag := KB_PRESSED\<rparr>) s2 = Some t"
    | s1 b where "buffer_size u \<noteq> 0" "kprintf ''%c'' [Num (ucast c)] s = Some s1"
        "arr_set (buffer u) (uint (buffer_size u) - 1) 0x20 = Some b"
        "upd_tmnl (active_terminal s1) (\<lambda>t. t\<lparr>buffer := b, buffer_size := buffer_size t - 1\<rparr>) s1 = Some t"
    | s1 b where "kprintf ''%c'' [Num (ucast c)] s = Some s1"
        "arr_set (buffer u) (uint (buffer_size u)) c = Some b"
        "upd_tmnl (active_terminal s1) (\<lambda>t. t\<lparr>buffer := b, buffer_size := buffer_size t + 1\<rparr>) s1 = Some t"
    unfolding input_char_def get u_def [symmetric] bind.bind_lunit by (simp add: bind_eq_Some_conv split: if_splits) blast+
  then show "keeps s t"
  proof cases
    case 2
    have "keeps s s1" by (rule line [OF 2(1,2) al _ grow [OF 2(1)]]) (simp add: u_def)
    also note kprintf_keeps [OF 2(3)]
    also note enter_flag_keeps [OF 2(4)]
    finally show ?thesis .
  next
    case 3
    note put = put_char_keeps [OF 3(2) al]
    have "keeps s1 t" by (rule line [OF 3(3,4) _ _ shrink [OF 3(1)]]) (use put al in \<open>simp_all add: keeps_def u_def\<close>)
    with put(1) show ?thesis by (rule keeps_trans)
  next
    case 4
    note put = put_char_keeps [OF 4(1) al]
    have "keeps s1 t" by (rule line [OF 4(2,3) _ _ grow [OF 4(2)]]) (use put al in \<open>simp_all add: keeps_def u_def\<close>)
    with put(1) show ?thesis by (rule keeps_trans)
  qed simp
qed

text \<open>The saved screens and the video page are below the kernel's 4 MB.\<close>

lemma save_terminal_keeps:
  assumes "save_terminal i s = Some t" and "alive s" and "0 \<le> i" and "i < 3"
  shows "keeps s t"
proof -
  define k where "k = nat i"
  have k: "i = int k" "k < 3" using assms(3,4) by (simp_all add: k_def)
  have t: "t = s\<lparr>mem := blit (0xB9000 + 0x1000 * k) VIDEO 4096 (mem s),
      tmnl_block := (tmnl_block s)[k := (tmnl_block s ! k)\<lparr>pos_x := screen_x s, pos_y := screen_y s\<rparr>]\<rparr>"
    using assms(1) save_terminal_eq(1) [OF aliveD [OF assms(2)] k(2)] k(1) by simp
  have "kernel_ok t" unfolding t by (rule save_terminal_eq(2) [OF aliveD [OF assms(2)] k(2)])
  moreover have "tmnl_flags (tmnl_block t ! j) = tmnl_flags (tmnl_block s ! j)"
    "active_process (tmnl_block t ! j) = active_process (tmnl_block s ! j)" for j
    using k(2) kernel_okD(1) [OF aliveD [OF assms(2)]] by (simp_all add: t nth_list_update)
  moreover have "fs_image t = fs_image s" using k(2) by (auto simp: t fs_image_def blit_def fun_eq_iff)
  moreover have "fs t = fs s" by (simp add: t)
  ultimately show ?thesis using assms(2) by (simp add: keeps_def alive_def)
qed

lemma restore_terminal_keeps: "restore_terminal i s = Some t \<Longrightarrow> 0 \<le> i \<Longrightarrow> i < 3 \<Longrightarrow> keeps s t"
  using restore_terminal_ok [of _ "nat i"] by (intro console_keeps [of "restore_terminal i" s t]) fastforce+

lemma switch_terminal_keeps:
  assumes "switch_terminal i s = Some (r, t)"
  shows "keeps s t"
proof (rule keeps_if)
  assume al: "alive s"
  note ok = kernel_okD [OF aliveD [OF al]]
  define m where "m = do { s1 \<leftarrow> save_terminal (active_terminal s) s; s2 \<leftarrow> restore_terminal i s1;
                           Some (0 :: int, s2\<lparr>active_terminal := i\<rparr>) }"
  have "t = s \<or> 0 \<le> i \<and> i < 3 \<and> m = Some (r, t)"
    using assms unfolding switch_terminal_def m_def [symmetric]
    by (auto simp: Option.bind_eq_Some_conv [where f = "get_tmnl _ _"] split: if_splits)
  then show "keeps s t"
  proof
    assume i: "0 \<le> i \<and> i < 3 \<and> m = Some (r, t)"
    then obtain s1 s2 where s1: "save_terminal (active_terminal s) s = Some s1"
      and s2: "restore_terminal i s1 = Some s2" and t: "t = s2\<lparr>active_terminal := i\<rparr>"
      unfolding m_def bind_eq_Some_conv by (elim conjE exE) simp
    note save_terminal_keeps [OF s1 al ok(4,5)]
    also note restore_terminal_keeps [OF s2 i [THEN conjunct1] i [THEN conjunct2, THEN conjunct1]]
    also have "keeps s2 t"
      using i by (simp add: t keeps_def alive_def kernel_ok_def screen_ok_def fs_image_def fun_eq_iff)
    finally show ?thesis .
  qed simp
qed

lemma redraw_keeps:
  assumes "do { s \<leftarrow> clear s; t \<leftarrow> get_tmnl (active_terminal s) s; kprintf ''%s'' [Str (lrd (buffer t))] s } = Some t"
  shows "keeps s t"
  using assms by (auto simp: bind_eq_Some_conv intro: keeps_trans [OF clear_keeps kprintf_keeps])

lemma keeps_flags:
  "keeps s (s\<lparr>ctrl_flag := v\<rparr>)" "keeps s (s\<lparr>alt_flag := v\<rparr>)" "keeps s (s\<lparr>shift_count := v\<rparr>)" "keeps s (s\<lparr>caps_flag := v\<rparr>)"
  by simp_all

text \<open>What a computation leaves, when it returns, is kept.\<close>

definition keeping_from :: "kst \<Rightarrow> kst option \<Rightarrow> bool" where
  "keeping_from s r \<longleftrightarrow> (\<forall>t. r = Some t \<longrightarrow> keeps s t)"

lemma keeping_from_if: "(c \<Longrightarrow> keeping_from s r) \<Longrightarrow> (\<not> c \<Longrightarrow> keeping_from s r') \<Longrightarrow> keeping_from s (if c then r else r')"
  by simp

lemma keeping_from_Some: "keeps s t \<Longrightarrow> keeping_from s (Some t)"
  by (simp add: keeping_from_def)

lemma handle_code_keeps: "handle_code beyond code s = Some t \<Longrightarrow> keeps s t"
proof -
  have sw: "keeping_from s (map_option snd (switch_terminal i s))" for i
    using switch_terminal_keeps by (auto simp: keeping_from_def)
  have rd: "keeping_from s (do { s \<leftarrow> clear s; t \<leftarrow> get_tmnl (active_terminal s) s; kprintf ''%s'' [Str (lrd (buffer t))] s })"
    using redraw_keeps by (simp add: keeping_from_def)
  have inp: "keeping_from s (input_char c s)" for c using input_char_keeps by (simp add: keeping_from_def)
  have "keeping_from s (handle_code beyond code s)"
    unfolding handle_code_def Let_def
    by (intro keeping_from_if keeping_from_Some sw rd inp keeps_flags keeps_refl)
  then show "handle_code beyond code s = Some t \<Longrightarrow> keeps s t" by (simp add: keeping_from_def)
qed

lemma keyboard_handler_keeps:
  assumes "keyboard_handler inb beyond s = Some t"
  shows "keeps s t"
proof (rule keeps_if)
  assume al: "alive s"
  note ok = kernel_okD [OF aliveD [OF al]]
  define s1 where "s1 = (on_ports (send_eoi 1) s)\<lparr>exec_terminal := active_terminal s\<rparr>"
  obtain s2 where s2: "handle_code beyond (inb (port_log s1) KB_PORT) s1 = Some s2" "t = s2\<lparr>exec_terminal := exec_terminal s\<rparr>"
    using assms by (auto simp: keyboard_handler_def Let_def bind_eq_Some_conv s1_def on_ports_def)
  have "keeps s (on_ports (send_eoi 1) s)" by simp
  also have "keeps (on_ports (send_eoi 1) s) s1"
    unfolding s1_def by (rule exec_terminal_keeps) (use ok in auto)
  also note handle_code_keeps [OF s2(1)]
  also have "keeps s2 t" unfolding s2(2) by (rule exec_terminal_keeps) (use ok in auto)
  finally show "keeps s t" .
qed

subsection \<open>The timer and the exceptions\<close>

lemma remap_keeps:
  assumes "on_paging (remap_vidmem (if j = active_terminal s then -1 else j)) s = Some t" and "0 \<le> j" and "j < 3"
  shows "keeps s t"
proof -
  obtain p where p: "remap_vidmem (if j = active_terminal s then -1 else j) (pg s) = Some p" "t = s\<lparr>pg := p\<rparr>"
    using assms(1) by (auto simp: on_paging_def bind_eq_Some_conv)
  have k: "int (nat j) = j" "nat j < 3" using assms(2,3) by simp_all
  show ?thesis
  proof (unfold p(2), rule pg_keeps)
    fix prog assume "paging_inv prog (pg s)"
    then show "\<exists>prog. paging_inv prog p"
      using remap_next [of prog "pg s" "nat j" "active_terminal s", unfolded k(1), OF _ k(2)] p(1) by auto
  qed
qed

lemma prev_keeps: "upd_pb i (\<lambda>p. p\<lparr>prev_sp := a, prev_bp := b\<rparr>) s = Some t \<Longrightarrow> keeps s t"
  by (rule upd_pb_keeps) (auto simp: pb_ok_def dest: alive_pb)

lemma change_context_keeps:
  assumes "change_context fr esp ebp cur j s = Some (c, t)" and "alive s" and "0 \<le> j" and "j < 3"
  shows "keeps s t"
proof -
  let ?u = "tmnl_block s ! nat j"
  have u: "get_tmnl j s = Some ?u" using assms(3,4) kernel_okD(1) [OF aliveD [OF assms(2)]] by (simp add: get_tmnl_in)
  have run: "tmnl_flags ?u = TMNL_RUN" "0 \<le> active_process ?u" using assms(2-4) by (auto simp: alive_def)
  have small: "active_process ?u < 6"
    using kernel_ok_tmnl [OF aliveD [OF assms(2)], of "nat j"] assms(4) by (simp add: tmnl_ok_def)
  obtain s1 s2 s3 where s1: "on_paging (remap_vidmem (if j = active_terminal s then -1 else j)) s = Some s1"
    and s2: "on_paging (create_process_page (word_of_int (active_process ?u))) s1 = Some s2"
    and s3: "upd_pb cur (\<lambda>p. p\<lparr>prev_sp := esp, prev_bp := ebp\<rparr>)
        (s2\<lparr>tss_ss0 := KERNEL_DS, tss_esp0 := OFF_8MB - OFF_8KB * word_of_int (active_process ?u) - 4\<rparr>) = Some s3"
    and sw: "switch_stacks (active_process ?u) (s3\<lparr>exec_terminal := j\<rparr>) = Some (c, t)"
    using assms(1) run(1) unfolding change_context_def u Let_def bind.bind_lunit by (auto simp: bind_eq_Some_conv)
  note remap_keeps [OF s1 assms(3,4)]
  also have "keeps s1 s2"
    by (rule process_page_keeps [OF s2]) (use run(2) small in \<open>auto intro!: exI [of _ "nat (active_process ?u)"]\<close>)
  also have "keeps s2 (s2\<lparr>tss_ss0 := KERNEL_DS\<rparr>)" by simp
  also have "keeps (s2\<lparr>tss_ss0 := KERNEL_DS\<rparr>)
      (s2\<lparr>tss_ss0 := KERNEL_DS, tss_esp0 := OFF_8MB - OFF_8KB * word_of_int (active_process ?u) - 4\<rparr>)"
    by (rule keeps_fields)
  also note prev_keeps [OF s3]
  also have "keeps s3 (s3\<lparr>exec_terminal := j\<rparr>)" by (rule exec_terminal_keeps) (use assms(3,4) in simp)
  also have "s3\<lparr>exec_terminal := j\<rparr> = t" using sw by (auto simp: switch_stacks_def bind_eq_Some_conv)
  finally show ?thesis .
qed

lemma sched_handler_keeps:
  assumes "sched_handler fr esp ebp s = Some (c, t)"
  shows "keeps s t"
proof (rule keeps_if)
  assume al: "alive s"
  have eoi: "keeps s (on_ports (send_eoi 0) s)" by simp
  then have al1: "alive (on_ports (send_eoi 0) s)" using al by (simp add: keeps_def)
  obtain cur where "change_context fr esp ebp cur ((exec_terminal s + 1) mod 3) (on_ports (send_eoi 0) s) = Some (c, t)"
    using assms by (auto simp: sched_handler_def Let_def bind_eq_Some_conv on_ports_def)
  from keeps_trans [OF eoi change_context_keeps [OF this al1]] show "keeps s t" by simp
qed

lemma report_and_halt_keeps: "report_and_halt msg s = Some (c, t) \<Longrightarrow> keeps s t"
  by (auto simp: report_and_halt_def bind_eq_Some_conv
      intro: keeps_trans [OF clear_keeps keeps_trans [OF kprintf_keeps halt_keeps]])

lemma exception_keeps: "exception h s = Some (c, t) \<Longrightarrow> keeps s t"
  by (cases h) (auto simp: exception_bodies dest: report_and_halt_keeps)

text \<open>A store at user level never reaches the image.\<close>

lemma user_store_keeps:
  assumes "st (user_xlat (pg s)) (mem s) a b = Some m"
  shows "keeps s (s\<lparr>mem := m\<rparr>)"
proof (rule mem_keeps)
  assume "alive s"
  then obtain prog where prog: "paging_inv prog (pg s)" by (auto simp: alive_def kernel_ok_def)
  obtain p where p: "user_xlat (pg s) a = Some p" "m = (mem s)(p := b)"
    using assms by (auto simp: st_def split: option.splits)
  show "image_same (mem s) m" using user_frames [OF prog p(1)] by (auto simp: p(2) image_same_def)
qed

subsection \<open>The system\<close>

text \<open>
  The pointers a program passes to \<open>read\<close> and \<open>getargs\<close> lie above the kernel's memory. The calls do
  not check it themselves: \<open>getargs_overwrites_kernel\<close> below.
\<close>

definition user_pointers :: "u32 \<Rightarrow> u32 \<Rightarrow> u32 \<Rightarrow> bool" where
  "user_pointers eax ebx ecx \<longleftrightarrow> (eax = 3 \<longrightarrow> OFF_8MB \<le> unat ecx) \<and> (eax = 7 \<longrightarrow> OFF_8MB \<le> unat ebx)"

text \<open>
  What can happen to a running kernel: a key, a tick of the RTC or of the timer, an exception, a call
  of a program, which may wait while other steps happen (\<open>env\<close>), and a store of a program. A step
  that faults in the kernel (an access outside an array or to an unmapped address) and a call that
  never returns have no successor here: which events cannot fault is a part of the property below.
\<close>

inductive reaches :: "kst \<Rightarrow> kst \<Rightarrow> bool" where
  reaches_refl: "reaches s s"
| reaches_key: "reaches s t \<Longrightarrow> keyboard_handler inb beyond t = Some u \<Longrightarrow> reaches s u"
| reaches_rtc: "reaches s t \<Longrightarrow> rtc_handler inb t = Some u \<Longrightarrow> reaches s u"
| reaches_tick: "reaches s t \<Longrightarrow> sched_handler fr esp ebp t = Some (c, u) \<Longrightarrow> reaches s u"
| reaches_exception: "reaches s t \<Longrightarrow> exception h t = Some (c, u) \<Longrightarrow> reaches s u"
| reaches_call: "reaches s t \<Longrightarrow> (\<forall>n v w. env n v = Some w \<longrightarrow> reaches v w) \<Longrightarrow> frame_ok fr \<Longrightarrow>
    user_pointers eax ebx ecx \<Longrightarrow> syscall env fr eax ebx ecx edx t = Some (c, u) \<Longrightarrow> reaches s u"
| reaches_store: "reaches s t \<Longrightarrow> st (user_xlat (pg t)) (mem t) a b = Some m \<Longrightarrow> reaches s (t\<lparr>mem := m\<rparr>)"

lemma returning_keeps: "returning r = Some (c, t) \<Longrightarrow> (\<And>v. r = Some (v, t) \<Longrightarrow> keeps s t) \<Longrightarrow> keeps s t"
  by (auto simp: returning_def)

lemma syscall_keeps:
  assumes "syscall env fr eax ebx ecx edx s = Some (c, t)" and "user_pointers eax ebx ecx" and "frame_ok fr"
    and "\<And>n s t. env n s = Some t \<Longrightarrow> keeps s t"
  shows "keeps s t"
proof -
  from assms(1) consider "t = s" | "halt (ucast ebx) s = Some (c, t)"
    | cmd where "execute fr cmd s = Some (c, t)"
    | "eax = 3" "returning (sys_read env fr (sint ebx) (unat ecx) (sint edx) s) = Some (c, t)"
    | "returning (sys_write (sint ebx) (unat ecx) (sint edx) s) = Some (c, t)"
    | "returning (sys_open fr (\<lambda>i. kview s (unat ebx + i)) s) = Some (c, t)"
    | "returning (sys_close (sint ebx) s) = Some (c, t)"
    | "eax = 7" "returning (getargs (unat ebx) (sint ecx) s) = Some (c, t)"
    | "returning (vidmap (unat ebx) s) = Some (c, t)"
    by (auto simp: syscall_def split: if_splits)
  then show ?thesis
  proof cases
    case 4
    then show ?thesis
      using assms(2) by (auto intro: returning_keeps sys_read_keeps [OF _ _ assms(4)] simp: user_pointers_def)
  next
    case 8
    then show ?thesis using assms(2) by (auto intro: returning_keeps getargs_keeps simp: user_pointers_def)
  qed (auto intro: halt_keeps execute_keeps [OF _ assms(3)] returning_keeps sys_write_keeps sys_open_keeps
      sys_close_keeps vidmap_keeps)
qed

lemma reaches_keeps: "reaches s t \<Longrightarrow> keeps s t"
proof (induction rule: reaches.induct)
  case (reaches_call s t env fr eax ebx ecx edx c u)
  have "keeps t u" by (rule syscall_keeps [OF reaches_call.hyps(4,3,2)]) (use reaches_call.IH(2) in blast)
  with reaches_call.IH(1) show ?case by (rule keeps_trans)
qed (auto intro: keeps_trans keyboard_handler_keeps rtc_handler_keeps sched_handler_keeps exception_keeps user_store_keeps)

subsection \<open>Properties\<close>

text \<open>C5. The invariant of the whole kernel: from a state in which every terminal runs a process, no
  sequence of key strokes, RTC and timer interrupts, exceptions, stores of user programs and system
  calls that return (with interrupts in the middle of a waiting call) leaves the invariant (tables of
  the right size, valid terminal, process and descriptor numbers, cursors on the screen, line lengths
  within their buffers, well-formed page tables, every terminal running), nor changes the file system
  image. The buffers of \<open>read\<close> and \<open>getargs\<close> are assumed to be above the kernel's memory
  (\<open>user_pointers\<close>), which the kernel does not check. In every state reached this way the next RTC or
  timer interrupt, the next exception and the next call of \<open>halt\<close> or \<open>close\<close> are handled without a
  fault. The next key stroke overruns the line buffer in exactly two cases (\<open>key_overruns\<close>): enter on
  a line that is 128 characters long already, and control-L while the buffer holds no zero.\<close>

theorem kernel_invariant:
  assumes "reaches s t" and "alive s"
  shows "alive t \<and> fs t = fs s \<and> fs_image t = fs_image s \<and>
    (\<exists>u. rtc_handler inb t = Some u) \<and>
    (\<exists>c u. sched_handler fr esp ebp t = Some (c, u)) \<and>
    (\<forall>h \<in> set handlers. \<exists>c u. exception h t = Some (c, u)) \<and>
    (\<exists>c u. syscall env fr 1 ebx ecx edx t = Some (c, u)) \<and>
    (\<exists>c u. syscall env fr 6 ebx ecx edx t = Some (c, u)) \<and>
    (keyboard_handler inb beyond t = None \<longleftrightarrow> key_overruns beyond (inb (send_eoi 1 (port_log t)) KB_PORT) t)"
proof -
  have t: "alive t" "fs t = fs s" "fs_image t = fs_image s"
    using reaches_keeps [OF assms(1)] assms(2) by (simp_all add: keeps_def)
  note ok = aliveD [OF t(1)] and run = alive_running [OF t(1)]
  have "\<exists>c u. syscall env fr 1 ebx ecx edx t = Some (c, u)" "\<exists>c u. syscall env fr 6 ebx ecx edx t = Some (c, u)"
    using halt_returns [OF run] close_returns [OF run, of "sint ebx"] by (auto simp: syscall_def)
  then show ?thesis
    using t rtc_handler_returns [OF ok] sched_handler_returns [OF t(1)] exception_returns [OF t(1)]
      keyboard_handler_faults [OF ok] by blast
qed

text \<open>After a tick from the kernel above: terminal 1 runs, and the enter key is handled.\<close>

theorem kernel_invariant_witness:
  "\<exists>t. reaches program_kernel t \<and> exec_terminal t = 1 \<and> alive t \<and> fs_image t = fs_image program_kernel \<and>
    (\<exists>u. keyboard_handler (\<lambda>_ _. 0x1C) (\<lambda>_. 0) t = Some u)"
proof -
  have al: "alive program_kernel" using program_kernel_runs by (simp add: alive_def all_run_def)
  obtain t c where t: "sched_handler sample_frame 0 0 program_kernel = Some (c, t)" "exec_terminal t = 1"
    "tmnl_block t = tmnl_block program_kernel" "active_terminal t = active_terminal program_kernel"
    using sched_handler_run [OF program_kernel_runs(1,2), of 0 1 sample_frame 0 0] program_kernel_terminals
    by (auto simp: switched_def)
  have "buffer_size (tmnl_block t ! nat (active_terminal t)) \<noteq> 128"
    unfolding t(3,4) program_kernel_terminals
    by (simp add: program_kernel_def reading_kernel_def running_kernel_def booted_kernel_def booted_tmnl_def)
  then have no: "\<not> key_overruns (\<lambda>_. 0) 0x1C t"
    using enter_scancode [of "0x1C" "\<lambda>_. 0"] by (simp add: key_overruns_def)
  have r: "reaches program_kernel t" by (rule reaches_tick [OF reaches_refl t(1)])
  from kernel_invariant [OF r al, of "\<lambda>_ _. 0x1C" _ _ _ _ _ _ _ "\<lambda>_. 0"] t(2) r no show ?thesis by blast
qed

text \<open>Without \<open>user_pointers\<close> the invariant would be lost: \<open>getargs\<close> stores through any address that
  is mapped for the kernel. With a length of 0 it still stores the terminator, here in the kernel's
  own 4 MB, which hold the file system image.\<close>

theorem getargs_overwrites_kernel:
  assumes "running s" and "parent (pcb s ! current s) = int par" and "par < 6"
    and "argument (pcb s ! par) ! 0 \<noteq> 0" and "OFF_4MB \<le> unat ebx" and "unat ebx < OFF_8MB"
  shows "syscall env fr 7 ebx 0 edx s = Some (Returned 0, s\<lparr>mem := (mem s)(unat ebx := 0)\<rparr>)"
proof -
  note r = runningD [OF assms(1)]
  have get: "get_pb (int par) s = Some (pcb s ! par)" using assms(3) kernel_okD(2) [OF r(1)] by (simp add: get_pb_in)
  have "length (argument (pcb s ! par)) = 128" using kernel_ok_pb [OF r(1) assms(3)] by (simp add: pb_ok_def)
  then have c0: "arr_get (argument (pcb s ! par)) 0 = Some (argument (pcb s ! par) ! 0)" by (simp add: arr_get_def)
  obtain prog where prog: "paging_inv prog (pg s)" using r(1) by (auto simp: kernel_ok_def)
  have "kput (unat ebx) 0 s = Some (s\<lparr>mem := (mem s)(unat ebx := 0)\<rparr>)"
    using walk_kernel_page [OF prog assms(5,6)] by (simp add: kput_def st_def kernel_xlat_def)
  then have "getargs (unat ebx) 0 s = Some (0, s\<lparr>mem := (mem s)(unat ebx := 0)\<rparr>)"
    using assms(2,4,5) get c0 r get_cur_pb [OF assms(1)] getargs_loop.simps [of _ _ 0 0]
    by (auto simp: getargs_def Let_def)
  then show ?thesis by (simp add: syscall_def)
qed

end
