(* ===== verification/Boot.thy ===== *)
theory Boot
  imports Invariant
begin

text \<open>
  The C part of the boot, \<open>entry\<close> of \<^verbatim>\<open>student-distrib/kernel.c\<close>: the report on what the boot
  loader left in memory, the descriptors of the LDT and of the TSS (\<^verbatim>\<open>x86_desc.h\<close>), and the
  initialisation of every part of the kernel in the order of the code. \<open>boot_reaches_shells\<close> composes
  it with the scheduler: the kernel it leaves is the one from which the timer starts the three shells.

  The addresses and sizes that the linker gives are the fields of \<open>image\<close>; a descriptor that the code
  builds on the stack starts with what the stack held there (\<open>stack_desc\<close>). \<open>cpu\<close> holds what the
  kernel sets up for the processor beside the page tables.
\<close>

abbreviation MULTIBOOT_BOOTLOADER_MAGIC :: u32 where "MULTIBOOT_BOOTLOADER_MAGIC \<equiv> 0x2BADB002"
abbreviation TSS_SIZE :: u32 where "TSS_SIZE \<equiv> 104"
abbreviation KERNEL_TSS :: u16 where "KERNEL_TSS \<equiv> 0x30"
abbreviation KERNEL_LDT :: u16 where "KERNEL_LDT \<equiv> 0x38"

subsection \<open>Segment descriptors\<close>

record seg_desc =
  seg_lim_15_00 :: u16
  base_15_00 :: u16
  base_23_16 :: u8
  seg_type :: "4 word"
  seg_sys :: "1 word"
  seg_dpl :: "2 word"
  seg_present :: "1 word"
  seg_lim_19_16 :: "4 word"
  seg_avail :: "1 word"
  seg_reserved :: "1 word"
  opsize :: "1 word"
  granularity :: "1 word"
  base_31_24 :: u8

definition SET_LDT_PARAMS :: "u32 \<Rightarrow> u32 \<Rightarrow> seg_desc \<Rightarrow> seg_desc" where
  "SET_LDT_PARAMS addr lim str = str
     \<lparr>base_31_24 := ucast (drop_bit 24 (addr AND 0xFF000000)),
      base_23_16 := ucast (drop_bit 16 (addr AND 0x00FF0000)),
      base_15_00 := ucast (addr AND 0x0000FFFF),
      seg_lim_19_16 := ucast (drop_bit 16 (lim AND 0x000F0000)),
      seg_lim_15_00 := ucast (lim AND 0x0000FFFF)\<rparr>"

definition SET_TSS_PARAMS :: "u32 \<Rightarrow> u32 \<Rightarrow> seg_desc \<Rightarrow> seg_desc" where
  "SET_TSS_PARAMS addr lim str = str
     \<lparr>base_31_24 := ucast (drop_bit 24 (addr AND 0xFF000000)),
      base_23_16 := ucast (drop_bit 16 (addr AND 0x00FF0000)),
      base_15_00 := ucast (addr AND 0x0000FFFF),
      seg_lim_19_16 := ucast (drop_bit 16 (lim AND 0x000F0000)),
      seg_lim_15_00 := ucast (lim AND 0x0000FFFF)\<rparr>"

text \<open>The segment that a descriptor describes.\<close>

definition seg_base :: "seg_desc \<Rightarrow> u32" where
  "seg_base d = ucast (base_15_00 d) OR push_bit 16 (ucast (base_23_16 d)) OR push_bit 24 (ucast (base_31_24 d))"

definition seg_limit :: "seg_desc \<Rightarrow> u32" where
  "seg_limit d = ucast (seg_lim_15_00 d) OR push_bit 16 (ucast (seg_lim_19_16 d))"

lemma params_masks:
  "(0xFF000000 :: u32) = push_bit 24 (mask 8)" "(0x00FF0000 :: u32) = push_bit 16 (mask 8)"
  "(0x0000FFFF :: u32) = mask 16" "(0x000F0000 :: u32) = push_bit 16 (mask 4)"
  by (simp_all add: mask_eq_exp_minus_1 push_bit_eq_mult)

lemma split_base:
  "ucast (ucast (addr AND mask 16) :: u16) OR
     push_bit 16 (ucast (ucast (drop_bit 16 (addr AND push_bit 16 (mask 8))) :: u8)) OR
     push_bit 24 (ucast (ucast (drop_bit 24 (addr AND push_bit 24 (mask 8))) :: u8)) = (addr :: u32)"
proof (rule bit_word_eqI)
  fix n assume "n < LENGTH(32)"
  then show "bit (ucast (ucast (addr AND mask 16) :: u16) OR
     push_bit 16 (ucast (ucast (drop_bit 16 (addr AND push_bit 16 (mask 8))) :: u8)) OR
     push_bit 24 (ucast (ucast (drop_bit 24 (addr AND push_bit 24 (mask 8))) :: u8)) :: u32) n = bit addr n"
    by (cases "n < 16"; cases "n < 24") (simp_all add: bit_or_iff bit_and_iff bit_ucast_iff bit_push_bit_iff bit_drop_bit_eq bit_mask_iff, auto)
qed

lemma split_limit:
  "ucast (ucast (lim AND mask 16) :: u16) OR
     push_bit 16 (ucast (ucast (drop_bit 16 (lim AND push_bit 16 (mask 4))) :: 4 word)) = (take_bit 20 lim :: u32)"
proof (rule bit_word_eqI)
  fix n assume "n < LENGTH(32)"
  then show "bit (ucast (ucast (lim AND mask 16) :: u16) OR
     push_bit 16 (ucast (ucast (drop_bit 16 (lim AND push_bit 16 (mask 4))) :: 4 word)) :: u32) n = bit (take_bit 20 lim) n"
    by (cases "n < 16"; cases "n < 20") (simp_all add: bit_or_iff bit_and_iff bit_ucast_iff bit_push_bit_iff bit_drop_bit_eq bit_mask_iff bit_take_bit_iff, auto)
qed

lemma params_fields:
  fixes addr lim :: u32 and d :: seg_desc
  defines "d1 \<equiv> SET_TSS_PARAMS addr lim d" and "d2 \<equiv> SET_LDT_PARAMS addr lim d"
  shows "base_15_00 d1 = ucast (addr AND mask 16)" "base_23_16 d1 = ucast (drop_bit 16 (addr AND push_bit 16 (mask 8)))"
    "base_31_24 d1 = ucast (drop_bit 24 (addr AND push_bit 24 (mask 8)))" "seg_lim_15_00 d1 = ucast (lim AND mask 16)"
    "seg_lim_19_16 d1 = ucast (drop_bit 16 (lim AND push_bit 16 (mask 4)))"
    "base_15_00 d2 = ucast (addr AND mask 16)" "base_23_16 d2 = ucast (drop_bit 16 (addr AND push_bit 16 (mask 8)))"
    "base_31_24 d2 = ucast (drop_bit 24 (addr AND push_bit 24 (mask 8)))" "seg_lim_15_00 d2 = ucast (lim AND mask 16)"
    "seg_lim_19_16 d2 = ucast (drop_bit 16 (lim AND push_bit 16 (mask 4)))"
  unfolding params_masks [symmetric] by (simp_all add: d1_def d2_def SET_TSS_PARAMS_def SET_LDT_PARAMS_def)

lemma set_params:
  "seg_base (SET_TSS_PARAMS addr lim d) = addr" "seg_base (SET_LDT_PARAMS addr lim d) = addr"
  "seg_limit (SET_TSS_PARAMS addr lim d) = take_bit 20 lim" "seg_limit (SET_LDT_PARAMS addr lim d) = take_bit 20 lim"
  unfolding seg_base_def seg_limit_def params_fields split_base split_limit by (rule refl)+

record image =
  ldt_addr :: u32
  ldt_size :: u32
  tss_addr :: u32
  tss_size :: u32
  handler_addr :: "handler \<Rightarrow> u32"
  stack_desc :: seg_desc

record cpu =
  ldt_desc_ptr :: seg_desc
  tss_desc_ptr :: seg_desc
  ldt_register :: u16
  task_register :: u16
  ldt_segment_selector :: u16
  idt_table :: "idt_desc list"

definition set_ldt :: "image \<Rightarrow> cpu \<Rightarrow> cpu" where
  "set_ldt im c =
     (let the_ldt_desc = (stack_desc im)\<lparr>granularity := 0, opsize := 1, seg_reserved := 0, seg_avail := 0,
            seg_present := 1, seg_dpl := 0, seg_sys := 0, seg_type := 2\<rparr>;
          the_ldt_desc = SET_LDT_PARAMS (ldt_addr im) (ldt_size im) the_ldt_desc
      in c\<lparr>ldt_desc_ptr := the_ldt_desc, ldt_register := KERNEL_LDT\<rparr>)"

definition set_tss :: "image \<Rightarrow> cpu \<times> kst \<Rightarrow> cpu \<times> kst" where
  "set_tss im = (\<lambda>(c, s).
     let the_tss_desc = (stack_desc im)\<lparr>granularity := 0, opsize := 0, seg_reserved := 0, seg_avail := 0,
            seg_lim_19_16 := ucast (TSS_SIZE AND 0x000F0000), seg_present := 1, seg_dpl := 0, seg_sys := 0,
            seg_type := 9, seg_lim_15_00 := ucast (TSS_SIZE AND 0x0000FFFF)\<rparr>;
         the_tss_desc = SET_TSS_PARAMS (tss_addr im) (tss_size im) the_tss_desc
     in (c\<lparr>tss_desc_ptr := the_tss_desc, ldt_segment_selector := KERNEL_LDT, task_register := KERNEL_TSS\<rparr>,
         s\<lparr>tss_ss0 := KERNEL_DS, tss_esp0 := 0x800000\<rparr>))"

subsection \<open>What the boot loader left\<close>

text \<open>The field of a structure at an offset, read through the page tables as they are.\<close>

definition field :: "u32 \<Rightarrow> u32 \<Rightarrow> kst \<Rightarrow> u32 option" where
  "field p off s = rd32 (kview s) (unat (p + off))"

text \<open>The first bytes of a module are printed as the \<open>int\<close> a \<open>char\<close> is promoted to.\<close>

definition print_module :: "u32 \<Rightarrow> u32 \<Rightarrow> kst \<Rightarrow> kst option" where
  "print_module mod_count md s =
     do { start \<leftarrow> field md 0 s;
          s \<leftarrow> kprintf (''Module %d loaded at address: 0x%#x'' @ newline) [Num mod_count, Num start] s;
          end_addr \<leftarrow> field md 4 s;
          s \<leftarrow> kprintf (''Module %d ends at address: 0x%#x'' @ newline) [Num mod_count, Num end_addr] s;
          s \<leftarrow> kprintf (''First few bytes of module:'' @ newline) [] s;
          s \<leftarrow> for_each [0..<16]
            (\<lambda>i s. do { start \<leftarrow> field md 0 s;
                        b \<leftarrow> kview s (unat (start + word_of_nat i));
                        kprintf ''0x%x '' [Num (scast b)] s }) s;
          kprintf newline [] s }"

partial_function (option) print_modules :: "u32 \<Rightarrow> u32 \<Rightarrow> u32 \<Rightarrow> kst \<Rightarrow> kst option" where
  "print_modules mbi mod_count md s =
     do { mods_count \<leftarrow> field mbi 20 s;
          if mod_count < mods_count then
            do { s \<leftarrow> print_module mod_count md s;
                 print_modules mbi (mod_count + 1) (md + 16) s }
          else Some s }"

partial_function (option) print_mmap :: "u32 \<Rightarrow> u32 \<Rightarrow> kst \<Rightarrow> kst option" where
  "print_mmap mbi mmap s =
     do { mmap_addr \<leftarrow> field mbi 48 s;
          mmap_length \<leftarrow> field mbi 44 s;
          if mmap < mmap_addr + mmap_length then
            do { entry_size \<leftarrow> field mmap 0 s;
                 base_addr_low \<leftarrow> field mmap 4 s;
                 base_addr_high \<leftarrow> field mmap 8 s;
                 length_low \<leftarrow> field mmap 12 s;
                 length_high \<leftarrow> field mmap 16 s;
                 mm_type \<leftarrow> field mmap 20 s;
                 s \<leftarrow> kprintf (''    size = 0x%x, base_addr = 0x%#x%#x'' @ newline @
                        ''    type = 0x%x,  length    = 0x%#x%#x'' @ newline)
                      [Num entry_size, Num base_addr_high, Num base_addr_low, Num mm_type, Num length_high, Num length_low] s;
                 entry_size \<leftarrow> field mmap 0 s;
                 print_mmap mbi (mmap + entry_size + 4) s }
          else Some s }"

text \<open>A line that is printed when a flag of the boot loader is set.\<close>

definition when_flag :: "u32 \<Rightarrow> nat \<Rightarrow> (kst \<Rightarrow> kst option) \<Rightarrow> kst \<Rightarrow> kst option" where
  "when_flag mbi n f s = do { flags \<leftarrow> field mbi 0 s; if bit flags n then f s else Some s }"

text \<open>The lines up to the command line, and those from the section headers on.\<close>

definition report_head :: "u32 \<Rightarrow> kst \<Rightarrow> kst option" where
  "report_head mbi s =
     do { flags \<leftarrow> field mbi 0 s;
          s \<leftarrow> kprintf (''flags = 0x%#x'' @ newline) [Num flags] s;
          s \<leftarrow> when_flag mbi 0 (\<lambda>s. do { mem_lower \<leftarrow> field mbi 4 s; mem_upper \<leftarrow> field mbi 8 s;
                 kprintf (''mem_lower = %uKB, mem_upper = %uKB'' @ newline) [Num mem_lower, Num mem_upper] s }) s;
          s \<leftarrow> when_flag mbi 1 (\<lambda>s. do { boot_device \<leftarrow> field mbi 12 s;
                 kprintf (''boot_device = 0x%#x'' @ newline) [Num boot_device] s }) s;
          when_flag mbi 2 (\<lambda>s. do { cmdline \<leftarrow> field mbi 16 s;
            kprintf (''cmdline = %s'' @ newline) [Str (\<lambda>i. kview s (unat cmdline + i))] s }) s }"

definition report_tail :: "u32 \<Rightarrow> kst \<Rightarrow> kst option" where
  "report_tail mbi s =
     do { s \<leftarrow> when_flag mbi 5 (\<lambda>s. do { num \<leftarrow> field mbi 28 s; size \<leftarrow> field mbi 32 s;
                 addr \<leftarrow> field mbi 36 s; shndx \<leftarrow> field mbi 40 s;
                 kprintf (''elf_sec: num = %u, size = 0x%#x, addr = 0x%#x, shndx = 0x%#x'' @ newline)
                   [Num num, Num size, Num addr, Num shndx] s }) s;
          when_flag mbi 6 (\<lambda>s. do { mmap_addr \<leftarrow> field mbi 48 s; mmap_length \<leftarrow> field mbi 44 s;
            s \<leftarrow> kprintf (''mmap_addr = 0x%#x, mmap_length = 0x%x'' @ newline) [Num mmap_addr, Num mmap_length] s;
            print_mmap mbi mmap_addr s }) s }"

text \<open>
  From the check of the magic number to the memory map. The result is \<open>None\<close> inside the \<open>Some\<close> where
  \<open>entry\<close> returns early, else the address of the file system, 0 when there is no module.
\<close>

definition multiboot_report :: "u32 \<Rightarrow> u32 \<Rightarrow> kst \<Rightarrow> (u32 option \<times> kst) option" where
  "multiboot_report magic mbi s =
     (if magic \<noteq> MULTIBOOT_BOOTLOADER_MAGIC then
        do { s \<leftarrow> kprintf (''Invalid magic number: 0x%#x'' @ newline) [Num magic] s; Some (None, s) }
      else
        do { s \<leftarrow> report_head mbi s;
             flags \<leftarrow> field mbi 0 s;
             (fs_addr, s) \<leftarrow>
               (if bit flags 3 then
                  do { md \<leftarrow> field mbi 24 s;
                       fs_addr \<leftarrow> field md 0 s;
                       s \<leftarrow> print_modules mbi 0 md s;
                       Some (fs_addr, s) }
                else Some (0, s));
             flags \<leftarrow> field mbi 0 s;
             if bit flags 4 \<and> bit flags 5 then
               do { s \<leftarrow> kprintf (''Both bits 4 and 5 are set.'' @ newline) [] s; Some (None, s) }
             else do { s \<leftarrow> report_tail mbi s; Some (Some fs_addr, s) } })"

subsection \<open>entry\<close>

definition say :: "string \<Rightarrow> kst \<Rightarrow> kst option" where
  "say text = kprintf (text @ newline) []"

text \<open>The parts of the kernel, in the order of the code; \<open>launch_tests\<close> has an empty body.\<close>

definition init_tables :: "image \<Rightarrow> device \<Rightarrow> cpu \<times> kst \<Rightarrow> (cpu \<times> kst) option" where
  "init_tables im inb = (\<lambda>(c, s).
     do { idt \<leftarrow> init_idt (handler_addr im) (idt_table c);
          let c = c\<lparr>idt_table := idt\<rparr>;
          s \<leftarrow> say ''initialized IDT'' s;
          let s = on_ports (i8259_init inb) s;
          s \<leftarrow> say ''Initialized PIC'' s;
          s \<leftarrow> init_pcb s;
          s \<leftarrow> say ''Initialized PCB'' s;
          s \<leftarrow> on_paging init_paging s;
          s \<leftarrow> say ''Initialized paging'' s;
          Some (c, s) })"

definition init_devices :: "device \<Rightarrow> u32 \<Rightarrow> kst \<Rightarrow> kst option" where
  "init_devices inb fs_addr s =
     do { s \<leftarrow> init_rtc inb s;
          s \<leftarrow> say ''Initialized RTC'' s;
          let s = init_keyboard inb s;
          s \<leftarrow> say ''Initialized keyboard'' s;
          f \<leftarrow> init_fs (kview s) (unat fs_addr);
          let s = s\<lparr>fs := f\<rparr>;
          s \<leftarrow> say ''Initialized filesystem'' s;
          s \<leftarrow> say ''Enabling Interrupts'' s;
          s \<leftarrow> init_terminal s;
          Some (sti (init_scheduler inb s)) }"

text \<open>The result says whether the function reached its idle loop.\<close>

definition entry :: "image \<Rightarrow> device \<Rightarrow> u32 \<Rightarrow> u32 \<Rightarrow> cpu \<times> kst \<Rightarrow> (bool \<times> cpu \<times> kst) option" where
  "entry im inb magic addr = (\<lambda>(c, s).
     do { s \<leftarrow> clear s;
          (fs_addr, s) \<leftarrow> multiboot_report magic addr s;
          case fs_addr of
            None \<Rightarrow> Some (False, c, s)
          | Some fs_addr \<Rightarrow>
              do { (c, s) \<leftarrow> init_tables im inb (set_tss im (set_ldt im c, s));
                   s \<leftarrow> init_devices inb fs_addr s;
                   Some (True, c, s) } })"

subsection \<open>Printing and the interrupt masks\<close>

text \<open>The masks of the interrupt controllers stay as they are while text is printed.\<close>

definition same_masks :: "kst \<Rightarrow> kst \<Rightarrow> bool" where
  "same_masks s t \<longleftrightarrow> (\<forall>irq. last_out (irq_port irq) (port_log t) = last_out (irq_port irq) (port_log s))"

lemma same_masks_refl [simp]: "same_masks s s"
  by (simp add: same_masks_def)

lemma same_masks_trans: "same_masks s t \<Longrightarrow> same_masks t u \<Longrightarrow> same_masks s u"
  by (simp add: same_masks_def)

interpretation masks: step_relation same_masks
  by unfold_locales (auto intro: same_masks_trans)

lemma same_log: "port_log t = port_log s \<Longrightarrow> same_masks s t"
  by (simp add: same_masks_def)

lemma log_kept:
  "kput a b s = Some t \<Longrightarrow> port_log t = port_log s"
  "upd_tmnl i f s = Some t \<Longrightarrow> port_log t = port_log s"
  by (auto simp: kput_def upd_tmnl_def bind_eq_Some_conv split: if_splits)

lemma update_cursor_masks: "update_cursor x y i s = Some t \<Longrightarrow> same_masks s t"
  by (auto simp: update_cursor_def Let_def bind_eq_Some_conv same_masks_def on_ports_def irq_port_def dest!: log_kept)

lemma scroll_masks: "scroll base attr s = Some t \<Longrightarrow> same_masks s t"
proof -
  assume "scroll base attr s = Some t"
  then obtain m where "blank_last_row base attr (s\<lparr>mem := m\<rparr>) = Some t" by (auto simp: scroll_def bind_eq_Some_conv)
  then have "same_masks (s\<lparr>mem := m\<rparr>) t"
    unfolding blank_last_row_def
    by (rule masks.for_each_related) (auto simp: bind_eq_Some_conv same_masks_def dest!: log_kept)
  then show ?thesis by (simp add: same_masks_def)
qed

lemma same_masks_upd [simp]:
  "same_masks s (t\<lparr>screen_x := x\<rparr>) = same_masks s t" "same_masks s (t\<lparr>screen_y := x\<rparr>) = same_masks s t"
  "same_masks s (t\<lparr>start_x := x\<rparr>) = same_masks s t" "same_masks s (t\<lparr>start_y := x\<rparr>) = same_masks s t"
  "same_masks s (t\<lparr>mem := m\<rparr>) = same_masks s t"
  by (simp_all add: same_masks_def)

text \<open>What a computation leaves, when it returns, has the masks of \<open>s\<close>.\<close>

definition masks_of :: "kst \<Rightarrow> kst option \<Rightarrow> bool" where
  "masks_of s r \<longleftrightarrow> (\<forall>t. r = Some t \<longrightarrow> same_masks s t)"

lemma masks_of_if: "masks_of s a \<Longrightarrow> masks_of s b \<Longrightarrow> masks_of s (if c then a else b)"
  by simp

lemma masks_of_Some: "same_masks s t \<Longrightarrow> masks_of s (Some t)"
  by (simp add: masks_of_def)

lemma masks_of_bind: "masks_of s r \<Longrightarrow> (\<And>t. same_masks s t \<Longrightarrow> masks_of s (f t)) \<Longrightarrow> masks_of s (r \<bind> f)"
  by (auto simp: masks_of_def bind_eq_Some_conv)

lemma masks_of_get:
  "(\<And>v :: u8. masks_of s (f v)) \<Longrightarrow> masks_of s (a \<bind> f)"
  "(\<And>v :: tmnl. masks_of s (g v)) \<Longrightarrow> masks_of s (b \<bind> g)"
  by (auto simp: masks_of_def bind_eq_Some_conv)

lemma masks_of_step:
  "same_masks s t \<Longrightarrow> masks_of s (kput a b t)"
  "same_masks s t \<Longrightarrow> masks_of s (upd_tmnl i f t)"
  "same_masks s t \<Longrightarrow> masks_of s (scroll base attr t)"
  "same_masks s t \<Longrightarrow> masks_of s (update_cursor x y i t)"
  using log_kept same_log scroll_masks update_cursor_masks
  by (auto simp: masks_of_def intro: same_masks_trans)

lemmas masks_rules = masks_of_if masks_of_get masks_of_bind masks_of_step masks_of_Some

lemma putc_masks: "putc c s = Some t \<Longrightarrow> same_masks s t"
proof -
  have "masks_of s (putc_active c s)"
    unfolding putc_active_def Let_def by (intro masks_rules) simp_all
  moreover have "masks_of s (putc_background c s)"
    unfolding putc_background_def Let_def by (intro masks_rules) simp_all
  ultimately show "putc c s = Some t \<Longrightarrow> same_masks s t" by (simp add: putc_def masks_of_def split: if_splits)
qed

lemma kprintf_masks: "kprintf format args s = Some t \<Longrightarrow> same_masks s t"
  using masks.printf_related [of putc "lrd (bytes_of format @ [0])" args s] putc_masks
  by (auto simp: kprintf_def masks.sink_def)

subsection \<open>The report\<close>

text \<open>
  Structures of the boot loader that the screen does not overlap; printing leaves them alone.
\<close>

definition outside :: "u32 \<Rightarrow> nat \<Rightarrow> bool" where
  "outside p n \<longleftrightarrow> unat p + n \<le> VIDEO \<or> 0xBC000 \<le> unat p"

definition word_at :: "mem \<Rightarrow> u32 \<Rightarrow> u32" where
  "word_at m p = le32 (m (unat p)) (m (unat p + 1)) (m (unat p + 2)) (m (unat p + 3))"

text \<open>The entries of the memory map from \<open>a\<close> on, each followed by the next, up to the end.\<close>

fun memory_map :: "mem \<Rightarrow> u32 \<Rightarrow> u32 \<Rightarrow> u32 list \<Rightarrow> bool" where
  "memory_map m end_addr a [] \<longleftrightarrow> \<not> a < end_addr"
| "memory_map m end_addr a (n # ns) \<longleftrightarrow>
     a < end_addr \<and> outside a 4 \<and> word_at m a = n \<and> memory_map m end_addr (a + n + 4) ns"

definition loader_ok :: "mem \<Rightarrow> u32 \<Rightarrow> bool" where
  "loader_ok m mbi \<longleftrightarrow>
     outside mbi 52 \<and> unat mbi + 52 \<le> 2 ^ 32 \<and>
     bit (word_at m mbi) 3 \<and> \<not> (bit (word_at m mbi) 4 \<and> bit (word_at m mbi) 5) \<and>
     outside (word_at m (mbi + 24)) 4 \<and>
     (bit (word_at m mbi) 2 \<longrightarrow> (\<exists>xs. cstr (\<lambda>i. Some (m (unat (word_at m (mbi + 16)) + i))) xs \<and>
        outside (word_at m (mbi + 16)) (length xs + 1))) \<and>
     (bit (word_at m mbi) 6 \<longrightarrow>
        (\<exists>ns. memory_map m (word_at m (mbi + 48) + word_at m (mbi + 44)) (word_at m (mbi + 48)) ns))"

text \<open>The states of the boot: the text printed since \<open>s0\<close> has changed nothing but the screen.\<close>

definition booting :: "kst \<Rightarrow> kst \<Rightarrow> bool" where
  "booting s0 s \<longleftrightarrow> boot_screen s \<and> console_frame s0 s \<and> same_masks s0 s"

definition boots :: "kst \<Rightarrow> kst option \<Rightarrow> bool" where
  "boots s0 r \<longleftrightarrow> (\<exists>t. r = Some t \<and> booting s0 t)"

lemma boots_Some: "booting s0 s \<Longrightarrow> boots s0 (Some s)"
  by (simp add: boots_def)

lemma boots_bind: "boots s0 r \<Longrightarrow> (\<And>t. booting s0 t \<Longrightarrow> boots s0 (f t)) \<Longrightarrow> boots s0 (r \<bind> f)"
  by (auto simp: boots_def)

lemma boots_if: "(c \<Longrightarrow> boots s0 r) \<Longrightarrow> (\<not> c \<Longrightarrow> boots s0 r') \<Longrightarrow> boots s0 (if c then r else r')"
  by simp

lemma boots_print:
  assumes "booting s0 s" and "0 \<notin> set (bytes_of format)" and "\<exists>out. render (bytes_of format) args = Some out"
  shows "boots s0 (kprintf format args s)"
proof -
  obtain out where out: "render (bytes_of format) args = Some out" using assms(3) by blast
  have b: "boot_screen s" using assms(1) by (simp add: booting_def)
  obtain t where t: "kprintf format args s = Some t" "boot_screen t" "console_frame s t"
    using kprintf_boot [OF b assms(2) out] by blast
  then have "booting s0 t"
    using assms(1) kprintf_masks [OF t(1)] by (auto simp: booting_def intro: console_frame_trans same_masks_trans)
  with t(1) show ?thesis by (simp add: boots_def)
qed

lemma booting_frame: "booting s0 s \<Longrightarrow> pg s = pg s0" "booting s0 s \<Longrightarrow> a < VIDEO \<or> 0xBC000 \<le> a \<Longrightarrow> mem s a = mem s0 a"
  by (auto simp: booting_def console_frame_def)

lemma read_off:
  assumes "booting s0 s" and "\<not> paging_on (pg s0)"
  shows "kview s a = Some (mem s a)" "field p k s = Some (word_at (mem s) (p + k))"
  using assms
  by (simp_all add: booting_frame(1) kview_def ld_def kernel_xlat_def walk_def field_def rd32_def word_at_def)

lemma boots_field:
  "booting s0 s \<Longrightarrow> \<not> paging_on (pg s0) \<Longrightarrow> (\<And>v. boots s0 (f v)) \<Longrightarrow> boots s0 (field p k s \<bind> f)"
  by (simp add: read_off(2))

lemma boots_byte:
  "booting s0 s \<Longrightarrow> \<not> paging_on (pg s0) \<Longrightarrow> (\<And>v. boots s0 (f v)) \<Longrightarrow> boots s0 (kview s a \<bind> f)"
  by (simp add: read_off(1))

lemma word_at_outside:
  assumes "booting s0 s" and "outside p 4"
  shows "word_at (mem s) p = word_at (mem s0) p"
  using assms(2) booting_frame(2) [OF assms(1)] by (auto simp: word_at_def outside_def)

lemma field_outside:
  assumes "booting s0 s" and "\<not> paging_on (pg s0)" and "outside (p + k) 4"
  shows "field p k s = Some (word_at (mem s0) (p + k))"
  using read_off(2) [OF assms(1,2)] word_at_outside [OF assms(1,3)] by simp

lemma loader_field:
  assumes "loader_ok (mem s0) mbi" and "k \<le> 48" and "booting s0 s" and "\<not> paging_on (pg s0)"
  shows "field mbi k s = Some (word_at (mem s0) (mbi + k))"
proof (rule field_outside [OF assms(3,4)])
  have k: "unat k \<le> 48" using assms(2) by (simp add: word_le_nat_alt)
  then have "unat (mbi + k) = unat mbi + unat k" using assms(1) by (intro unat_plus_simple [THEN iffD1, OF no_olen_add_nat [THEN iffD2]])
      (simp add: loader_ok_def)
  then show "outside (mbi + k) 4" using assms(1) k by (auto simp: loader_ok_def outside_def)
qed

lemma boots_for_each:
  "booting s0 s \<Longrightarrow> (\<And>i s. booting s0 s \<Longrightarrow> boots s0 (f i s)) \<Longrightarrow> boots s0 (for_each xs f s)"
  by (induction xs arbitrary: s) (auto intro: boots_Some boots_bind)

lemmas boots_rules = boots_print boots_field boots_byte boots_for_each boots_Some

lemma print_module_boots:
  assumes "booting s0 s" and "\<not> paging_on (pg s0)"
  shows "boots s0 (print_module n md s)"
  unfolding print_module_def
  by (intro boots_rules boots_bind assms) (simp_all add: bytes_of_def conversion_text_def)

lemma print_modules_boots:
  assumes "loader_ok (mem s0) mbi" and "\<not> paging_on (pg s0)" and "booting s0 s"
  shows "boots s0 (print_modules mbi n md s)"
  using assms(3)
proof (induction "unat (word_at (mem s0) (mbi + 20)) - unat n" arbitrary: n md s)
  case 0
  have "field mbi 20 s = Some (word_at (mem s0) (mbi + 20))" by (rule loader_field [OF assms(1) _ "0.prems" assms(2)]) simp
  moreover have "\<not> n < word_at (mem s0) (mbi + 20)" using "0.hyps" by (simp add: word_less_nat_alt)
  ultimately show ?case using "0.prems" by (subst print_modules.simps) (simp add: boots_def)
next
  case (Suc k)
  have f: "field mbi 20 s = Some (word_at (mem s0) (mbi + 20))" by (rule loader_field [OF assms(1) _ Suc.prems assms(2)]) simp
  have less: "n < word_at (mem s0) (mbi + 20)" using Suc.hyps(2) by (simp add: word_less_nat_alt)
  have "unat n + 1 < 2 ^ 32"
    using less unsigned_less [of "word_at (mem s0) (mbi + 20)", where 'a = nat] by (simp add: word_less_nat_alt)
  then have "unat (n + 1) = unat n + 1" by (simp add: unat_word_ariths)
  then have k: "k = unat (word_at (mem s0) (mbi + 20)) - unat (n + 1)" using Suc.hyps(2) by simp
  have "boots s0 (print_module n md s \<bind> print_modules mbi (n + 1) (md + 16))"
    by (intro boots_bind print_module_boots Suc.prems assms(2) Suc.hyps(1) [OF k])
  then show ?case using f less by (subst print_modules.simps) simp
qed

lemma print_mmap_boots:
  assumes "loader_ok (mem s0) mbi" and "\<not> paging_on (pg s0)"
  shows "memory_map (mem s0) (word_at (mem s0) (mbi + 48) + word_at (mem s0) (mbi + 44)) a ns \<Longrightarrow> booting s0 s \<Longrightarrow>
    boots s0 (print_mmap mbi a s)"
proof (induction ns arbitrary: a s)
  case Nil
  have "field mbi 48 s = Some (word_at (mem s0) (mbi + 48))" "field mbi 44 s = Some (word_at (mem s0) (mbi + 44))"
    by (rule loader_field [OF assms(1) _ Nil.prems(2) assms(2)], simp)+
  then show ?case using Nil.prems by (subst print_mmap.simps) (simp add: boots_def)
next
  case (Cons n ns)
  have f: "field mbi 48 s = Some (word_at (mem s0) (mbi + 48))" "field mbi 44 s = Some (word_at (mem s0) (mbi + 44))"
    by (rule loader_field [OF assms(1) _ Cons.prems(2) assms(2)], simp)+
  have size: "field a 0 u = Some n" if "booting s0 u" for u
    using field_outside [OF that assms(2), of a 0] Cons.prems(1) by simp
  have next_entry: "boots s0 (field a 0 u \<bind> (\<lambda>n. print_mmap mbi (a + n + 4) u))" if "booting s0 u" for u
    using size [OF that] Cons.IH [OF _ that] Cons.prems(1) by simp
  show ?case
    using Cons.prems(1)
    by (subst print_mmap.simps)
      (simp add: f, intro boots_rules boots_bind next_entry Cons.prems(2) assms(2),
        simp_all add: bytes_of_def conversion_text_def)
qed

lemma when_flag_boots:
  assumes "loader_ok (mem s0) mbi" and "\<not> paging_on (pg s0)" and "booting s0 s"
    and "bit (word_at (mem s0) mbi) n \<Longrightarrow> boots s0 (f s)"
  shows "boots s0 (when_flag mbi n f s)"
  using assms(4) boots_Some [OF assms(3)] loader_field [OF assms(1) _ assms(3,2), of 0] by (simp add: when_flag_def)

lemma cmdline_boots:
  assumes "loader_ok (mem s0) mbi" and "\<not> paging_on (pg s0)" and "booting s0 s" and "bit (word_at (mem s0) mbi) 2"
  shows "boots s0 (do { cmdline \<leftarrow> field mbi 16 s;
     kprintf (''cmdline = %s'' @ newline) [Str (\<lambda>i. kview s (unat cmdline + i))] s })"
proof -
  define p where "p = word_at (mem s0) (mbi + 16)"
  obtain xs where xs: "cstr (\<lambda>i. Some (mem s0 (unat p + i))) xs" "outside p (length xs + 1)"
    using assms(1,4) by (auto simp: loader_ok_def p_def)
  have "mem s (unat p + i) = mem s0 (unat p + i)" if "i \<le> length xs" for i
    using that xs(2) by (intro booting_frame(2) [OF assms(3)]) (auto simp: outside_def)
  then have "cstr (\<lambda>i. kview s (unat p + i)) xs"
    using xs(1) by (simp add: cstr_def read_off(1) [OF assms(3,2)])
  then have "c_string (\<lambda>i. kview s (unat p + i)) = Some xs" by (simp add: c_string_cstr)
  then have "boots s0 (kprintf (''cmdline = %s'' @ newline) [Str (\<lambda>i. kview s (unat p + i))] s)"
    by (intro boots_print assms(3)) (simp_all add: bytes_of_def conversion_text_def)
  moreover have "field mbi 16 s = Some p" unfolding p_def by (rule loader_field [OF assms(1) _ assms(3,2)]) simp
  ultimately show ?thesis by simp
qed

lemma report_head_boots:
  assumes "loader_ok (mem s0) mbi" and "\<not> paging_on (pg s0)" and "booting s0 s"
  shows "boots s0 (report_head mbi s)"
  unfolding report_head_def
  by (intro boots_rules boots_bind when_flag_boots [OF assms(1,2)] cmdline_boots assms)
    (simp_all add: bytes_of_def conversion_text_def)

lemma report_tail_boots:
  assumes "loader_ok (mem s0) mbi" and "\<not> paging_on (pg s0)" and "booting s0 s"
  shows "boots s0 (report_tail mbi s)"
  unfolding report_tail_def
proof (intro boots_bind when_flag_boots [OF assms(1,2)] assms(3))
  show "boots s0 (do { num \<leftarrow> field mbi 28 s; size \<leftarrow> field mbi 32 s; addr \<leftarrow> field mbi 36 s; shndx \<leftarrow> field mbi 40 s;
      kprintf (''elf_sec: num = %u, size = 0x%#x, addr = 0x%#x, shndx = 0x%#x'' @ newline)
        [Num num, Num size, Num addr, Num shndx] s })"
    by (intro boots_rules assms(2,3)) (simp_all add: bytes_of_def conversion_text_def)
next
  fix t assume t: "booting s0 t" and six: "bit (word_at (mem s0) mbi) 6"
  have "boots s0 (do { s \<leftarrow> kprintf (''mmap_addr = 0x%#x, mmap_length = 0x%x'' @ newline)
        [Num (word_at (mem s0) (mbi + 48)), Num (word_at (mem s0) (mbi + 44))] t;
      print_mmap mbi (word_at (mem s0) (mbi + 48)) s })"
    using t six assms(1) print_mmap_boots [OF assms(1,2)]
    by (intro boots_bind boots_print) (auto simp: loader_ok_def bytes_of_def conversion_text_def)
  then show "boots s0 (do { mmap_addr \<leftarrow> field mbi 48 t; mmap_length \<leftarrow> field mbi 44 t;
      s \<leftarrow> kprintf (''mmap_addr = 0x%#x, mmap_length = 0x%x'' @ newline) [Num mmap_addr, Num mmap_length] t;
      print_mmap mbi mmap_addr s })"
    using loader_field [OF assms(1) _ t assms(2), of 48] loader_field [OF assms(1) _ t assms(2), of 44] by simp
qed

text \<open>The whole report: it returns the address of the first module.\<close>

lemma report_boots:
  assumes "loader_ok (mem s0) mbi" and "\<not> paging_on (pg s0)" and "booting s0 s"
  shows "\<exists>t. multiboot_report MULTIBOOT_BOOTLOADER_MAGIC mbi s = Some (Some (word_at (mem s0) (word_at (mem s0) (mbi + 24))), t) \<and>
    booting s0 t"
proof -
  let ?md = "word_at (mem s0) (mbi + 24)"
  have flags: "field mbi 0 t = Some (word_at (mem s0) mbi)" if "booting s0 t" for t
    using loader_field [OF assms(1) _ that assms(2), of 0] by simp
  have module: "field mbi 24 t = Some ?md" "field ?md 0 t = Some (word_at (mem s0) ?md)" if "booting s0 t" for t
    using loader_field [OF assms(1) _ that assms(2), of 24] field_outside [OF that assms(2), of ?md 0] assms(1)
    by (simp_all add: loader_ok_def)
  obtain s1 where s1: "report_head mbi s = Some s1" "booting s0 s1"
    using report_head_boots [OF assms] by (auto simp: boots_def)
  obtain s2 where s2: "print_modules mbi 0 ?md s1 = Some s2" "booting s0 s2"
    using print_modules_boots [OF assms(1,2) s1(2)] by (auto simp: boots_def)
  obtain s3 where s3: "report_tail mbi s2 = Some s3" "booting s0 s3"
    using report_tail_boots [OF assms(1,2) s2(2)] by (auto simp: boots_def)
  have bits: "bit (word_at (mem s0) mbi) 3" "\<not> (bit (word_at (mem s0) mbi) 4 \<and> bit (word_at (mem s0) mbi) 5)"
    using assms(1) by (auto simp: loader_ok_def)
  have "multiboot_report MULTIBOOT_BOOTLOADER_MAGIC mbi s = Some (Some (word_at (mem s0) ?md), s3)"
    using bits by (auto simp: multiboot_report_def s1 s2 s3 flags module)
  then show ?thesis using s3(2) by blast
qed

subsection \<open>The parts of the kernel\<close>

definition idle_pb :: "pb \<Rightarrow> pb" where
  "idle_pb p = p\<lparr>pb_flags := PCB_ABSENT,
     fd_table := stdin_fd # stdout_fd # map (\<lambda>d. d\<lparr>fd_flags := FD_ABSENT\<rparr>) (drop 2 (fd_table p))\<rparr>"

lemma list_8: "length xs = 8 \<Longrightarrow> \<exists>a b c d e f g h. xs = [a, b, c, d, e, f, g, h]"
  by (auto simp: length_Suc_conv numeral_eq_Suc)

lemma init_pcb_block:
  assumes "i < length (pcb s)" and "length (fd_table (pcb s ! i)) = 8"
  shows "do { s \<leftarrow> upd_fd (int i) 0 (\<lambda>_. stdin_fd) s;
              s \<leftarrow> upd_fd (int i) 1 (\<lambda>_. stdout_fd) s;
              s \<leftarrow> upd_pb (int i) (\<lambda>p. p\<lparr>pb_flags := PCB_ABSENT\<rparr>) s;
              for_each [2..<FDT_SIZE] (\<lambda>j. upd_fd (int i) j (\<lambda>d. d\<lparr>fd_flags := FD_ABSENT\<rparr>)) s }
    = Some (s\<lparr>pcb := (pcb s)[i := idle_pb (pcb s ! i)]\<rparr>)"
proof -
  obtain a b c d e f g h where t: "fd_table (pcb s ! i) = [a, b, c, d, e, f, g, h]" using list_8 [OF assms(2)] by blast
  show ?thesis
    using assms(1)
    by (simp add: upd_fd_def set_fd_def get_pb_in upd_pb_in arr_get_def arr_set_def t upt_rec idle_pb_def)
qed

lemma init_pcb_eq:
  assumes "length (pcb s) = 6" and "\<forall>p \<in> set (pcb s). length (fd_table p) = 8"
  shows "init_pcb s = Some (s\<lparr>pcb := map idle_pb (pcb s)\<rparr>)"
proof -
  have "\<exists>t. init_pcb s = Some t \<and> t = s\<lparr>pcb := map idle_pb (take 6 (pcb s)) @ drop 6 (pcb s)\<rparr>"
    unfolding init_pcb_def
  proof (rule for_each_upt [where P = "\<lambda>i t. t = s\<lparr>pcb := map idle_pb (take i (pcb s)) @ drop i (pcb s)\<rparr>"])
    fix i t assume i: "i < (6 :: nat)" and t: "t = s\<lparr>pcb := map idle_pb (take i (pcb s)) @ drop i (pcb s)\<rparr>"
    have g: "pcb t ! i = pcb s ! i" "length (pcb t) = 6" using i assms(1) by (simp_all add: t nth_append)
    have fds: "length (fd_table (pcb t ! i)) = 8" using g(1) assms i by simp
    have "(map idle_pb (take i (pcb s)) @ drop i (pcb s))[i := idle_pb (pcb s ! i)]
        = map idle_pb (take (Suc i) (pcb s)) @ drop (Suc i) (pcb s)"
      using i assms(1) by (simp add: list_update_append take_Suc_conv_app_nth Cons_nth_drop_Suc [symmetric])
    then have u: "t\<lparr>pcb := (pcb t)[i := idle_pb (pcb t ! i)]\<rparr> = s\<lparr>pcb := map idle_pb (take (Suc i) (pcb s)) @ drop (Suc i) (pcb s)\<rparr>"
      using g(1) by (simp add: t)
    have "i < length (pcb t)" using i g(2) by simp
    from init_pcb_block [OF this fds] show "\<exists>t'. do { s \<leftarrow> upd_fd (int i) 0 (\<lambda>_. stdin_fd) t;
              s \<leftarrow> upd_fd (int i) 1 (\<lambda>_. stdout_fd) s;
              s \<leftarrow> upd_pb (int i) (\<lambda>p. p\<lparr>pb_flags := PCB_ABSENT\<rparr>) s;
              for_each [2..<FDT_SIZE] (\<lambda>j. upd_fd (int i) j (\<lambda>d. d\<lparr>fd_flags := FD_ABSENT\<rparr>)) s } = Some t' \<and>
        t' = s\<lparr>pcb := map idle_pb (take (Suc i) (pcb s)) @ drop (Suc i) (pcb s)\<rparr>"
      unfolding u by blast
  qed simp_all
  then show ?thesis using assms(1) by simp
qed

lemma init_rtc_eq:
  assumes "length (rtc_block s) = 3"
  shows "\<exists>log. init_rtc inb s = Some (s\<lparr>rtc_block := replicate 3 booted_rtcc, port_log := enable_irq inb 8 log\<rparr>) \<and>
    (\<forall>irq. last_out (irq_port irq) log = last_out (irq_port irq) (port_log s))"
proof -
  obtain a b c where r: "rtc_block s = [a, b, c]" using assms by (auto simp: length_Suc_conv numeral_eq_Suc)
  have reset: "(x :: rtcc)\<lparr>client := -1, rate := -1, count := 0, rtc_flags := RTC_WAIT\<rparr> = booted_rtcc" for x
    by (cases x) (simp add: booted_rtcc_def)
  show ?thesis
    by (simp add: init_rtc_def Let_def on_ports_def upd_rtc_def r arr_get_def arr_set_def upt_rec reset numeral_eq_Suc)
      (auto simp: irq_port_def)
qed

text \<open>\<open>init_terminal\<close> sets every field of the terminals and blanks their saved screens.\<close>

definition new_tmnl :: "nat \<Rightarrow> tmnl" where
  "new_tmnl i = \<lparr>pos_x = 0, pos_y = 0, active_process = -1, buffer = replicate 128 0, buffer_size = 0,
     enter_flag = KB_PENDING, vidmem_ptr = 0xB9000 + 0x1000 * i, tmnl_flags = TMNL_IDLE\<rparr>"

text \<open>Memory that has changed in the video pages only.\<close>

definition drawn :: "mem \<Rightarrow> mem \<Rightarrow> bool" where
  "drawn m m' \<longleftrightarrow> (\<forall>a. a < VIDEO \<or> 0xBC000 \<le> a \<longrightarrow> m' a = m a)"

lemma kput_id:
  assumes "id_mapped (kernel_xlat (pg s)) VIDEO 0x4000" and "VIDEO \<le> a" and "a < 0xBC000"
  shows "kput a b s = Some (s\<lparr>mem := (mem s)(a := b)\<rparr>)"
  using st_id [OF assms(1), of a] assms(2,3) by (simp add: kput_def)

lemma draw_cells:
  assumes "id_mapped (kernel_xlat (pg s)) VIDEO 0x4000" and "VIDEO \<le> base" and "base + 4000 \<le> 0xBC000"
    and "\<And>i m. i < 2000 \<Longrightarrow> f i (s\<lparr>mem := m\<rparr>) =
      do { s \<leftarrow> kput (base + 2 * i) c (s\<lparr>mem := m\<rparr>); kput (base + 2 * i + 1) attr s }"
  shows "\<exists>m. for_each [0..<NUM_ROWS * NUM_COLS] f s = Some (s\<lparr>mem := m\<rparr>) \<and> drawn (mem s) m"
proof -
  have "\<exists>t. for_each [0..<NUM_ROWS * NUM_COLS] f s = Some t \<and> (\<exists>m. t = s\<lparr>mem := m\<rparr> \<and> drawn (mem s) m)"
  proof (rule for_each_upt [where P = "\<lambda>_ t. \<exists>m. t = s\<lparr>mem := m\<rparr> \<and> drawn (mem s) m"])
    fix i t assume i: "i < (NUM_ROWS * NUM_COLS :: nat)" and "\<exists>m. t = s\<lparr>mem := m\<rparr> \<and> drawn (mem s) m"
    then obtain m where t: "t = s\<lparr>mem := m\<rparr>" "drawn (mem s) m" by blast
    have "f i t = Some (s\<lparr>mem := m(base + 2 * i := c, base + 2 * i + 1 := attr)\<rparr>)"
      using i assms by (simp add: t(1) kput_id)
    moreover have "drawn (mem s) (m(base + 2 * i := c, base + 2 * i + 1 := attr))"
      using i t(2) assms(2,3) by (auto simp: drawn_def)
    ultimately show "\<exists>t'. f i t = Some t' \<and> (\<exists>m. t' = s\<lparr>mem := m\<rparr> \<and> drawn (mem s) m)" by blast
  qed (auto simp: drawn_def intro: exI [of _ "mem s"])
  then show ?thesis by blast
qed

lemma init_tmnl_buffer:
  assumes "i < length (tmnl_block s)" and "length (buffer (tmnl_block s ! i)) = 128"
  shows "for_each [0..<BUF_SIZE]
       (\<lambda>j s. do { t \<leftarrow> get_tmnl (int i) s;
                   b \<leftarrow> arr_set (buffer t) (int j) 0;
                   upd_tmnl (int i) (\<lambda>t. t\<lparr>buffer := b\<rparr>) s }) s =
    Some (s\<lparr>tmnl_block := (tmnl_block s)[i := (tmnl_block s ! i)\<lparr>buffer := replicate 128 0\<rparr>]\<rparr>)"
proof -
  let ?t = "tmnl_block s ! i"
  have "\<exists>s'. for_each [0..<BUF_SIZE]
       (\<lambda>j s. do { t \<leftarrow> get_tmnl (int i) s;
                   b \<leftarrow> arr_set (buffer t) (int j) 0;
                   upd_tmnl (int i) (\<lambda>t. t\<lparr>buffer := b\<rparr>) s }) s = Some s' \<and>
     s' = s\<lparr>tmnl_block := (tmnl_block s)[i := ?t\<lparr>buffer := replicate 128 0 @ drop 128 (buffer ?t)\<rparr>]\<rparr>"
    by (rule for_each_upt [where P = "\<lambda>j s'. s' = s\<lparr>tmnl_block := (tmnl_block s)
          [i := ?t\<lparr>buffer := replicate j 0 @ drop j (buffer ?t)\<rparr>]\<rparr>"])
      (use assms in \<open>auto simp: get_tmnl_in upd_tmnl_in arr_set_nat list_update_append
         replicate_app_Cons_same Cons_nth_drop_Suc [symmetric]\<close>)
  then show ?thesis using assms(2) by simp
qed

lemma init_one_terminal:
  assumes "id_mapped (kernel_xlat (pg s)) VIDEO 0x4000" and "length (tmnl_block s) = 3" and "i < 3"
    and "length (buffer (tmnl_block s ! i)) = 128"
  shows "\<exists>m. do { s \<leftarrow> upd_tmnl (int i) (\<lambda>t. t\<lparr>active_process := -1, enter_flag := KB_PENDING,
                     tmnl_flags := TMNL_IDLE, vidmem_ptr := FOUR_KB * (VM_ADDR + i + 1)\<rparr>) s;
              s \<leftarrow> for_each [0..<BUF_SIZE]
                (\<lambda>j s. do { t \<leftarrow> get_tmnl (int i) s;
                            b \<leftarrow> arr_set (buffer t) (int j) 0;
                            upd_tmnl (int i) (\<lambda>t. t\<lparr>buffer := b\<rparr>) s }) s;
              s \<leftarrow> upd_tmnl (int i) (\<lambda>t. t\<lparr>buffer_size := 0\<rparr>) s;
              (_, s) \<leftarrow> clear_tmnl_vidmem (int i) s;
              Some s } = Some (s\<lparr>tmnl_block := (tmnl_block s)[i := new_tmnl i], mem := m\<rparr>) \<and> drawn (mem s) m"
proof -
  let ?f = "\<lambda>t. t\<lparr>active_process := -1, enter_flag := KB_PENDING, tmnl_flags := TMNL_IDLE,
      vidmem_ptr := FOUR_KB * (VM_ADDR + i + 1)\<rparr>"
  let ?t = "(?f (tmnl_block s ! i))\<lparr>buffer := replicate 128 0, buffer_size := 0\<rparr>"
  let ?s = "s\<lparr>tmnl_block := (tmnl_block s)[i := ?t]\<rparr>"
  have first: "upd_tmnl (int i) ?f s = Some (s\<lparr>tmnl_block := (tmnl_block s)[i := ?f (tmnl_block s ! i)]\<rparr>)"
    using assms(2,3) by (simp add: upd_tmnl_in)
  have buf: "for_each [0..<BUF_SIZE]
       (\<lambda>j s. do { t \<leftarrow> get_tmnl (int i) s; b \<leftarrow> arr_set (buffer t) (int j) 0; upd_tmnl (int i) (\<lambda>t. t\<lparr>buffer := b\<rparr>) s })
       (s\<lparr>tmnl_block := (tmnl_block s)[i := ?f (tmnl_block s ! i)]\<rparr>) =
     Some (s\<lparr>tmnl_block := (tmnl_block s)[i := (?f (tmnl_block s ! i))\<lparr>buffer := replicate 128 0\<rparr>]\<rparr>)"
    using init_tmnl_buffer [of i "s\<lparr>tmnl_block := (tmnl_block s)[i := ?f (tmnl_block s ! i)]\<rparr>"] assms(2-4) by simp
  have attr: "arr_get tmnl_attrib 0 = Some (tmnl_attrib ! 0)" by (simp add: arr_get_def tmnl_attrib_def)
  define base where "base = 0xB9000 + 0x1000 * i"
  let ?g = "\<lambda>j s. do { t \<leftarrow> get_tmnl (int i) s;
                  s \<leftarrow> kput (vidmem_ptr t + 2 * j) 0x20 s;
                  attr \<leftarrow> arr_get tmnl_attrib 0;
                  kput (vidmem_ptr t + 2 * j + 1) attr s }"
  have ptr: "vidmem_ptr ?t = base" by (simp add: base_def)
  have get: "get_tmnl (int i) (?s\<lparr>mem := m\<rparr>) = Some ?t" for m using assms(2,3) by (simp add: get_tmnl_in)
  have step: "?g j (?s\<lparr>mem := m\<rparr>) = do { s \<leftarrow> kput (base + 2 * j) 0x20 (?s\<lparr>mem := m\<rparr>); kput (base + 2 * j + 1) (tmnl_attrib ! 0) s }" for j m
    by (simp only: get attr bind.bind_lunit ptr)
  have "VIDEO \<le> base" "base + 4000 \<le> 0xBC000" using assms(3) by (simp_all add: base_def)
  then obtain m where m: "for_each [0..<NUM_ROWS * NUM_COLS] ?g ?s = Some (?s\<lparr>mem := m\<rparr>)" "drawn (mem ?s) m"
    using draw_cells [of ?s base ?g "0x20" "tmnl_attrib ! 0"] assms(1) step by auto
  have new: "?t\<lparr>pos_x := 0, pos_y := 0\<rparr> = new_tmnl i" by (simp add: new_tmnl_def add.commute)
  have range: "\<not> (int i < 0 \<or> int i > NUM_TERMINAL - 1)" using assms(3) by simp
  have pos: "upd_tmnl (int i) (\<lambda>t. t\<lparr>pos_x := 0\<rparr>) (?s\<lparr>mem := m\<rparr>) =
      Some (s\<lparr>tmnl_block := (tmnl_block s)[i := ?t\<lparr>pos_x := 0\<rparr>], mem := m\<rparr>)"
    "upd_tmnl (int i) (\<lambda>t. t\<lparr>pos_y := 0\<rparr>) (s\<lparr>tmnl_block := (tmnl_block s)[i := ?t\<lparr>pos_x := 0\<rparr>], mem := m\<rparr>) =
      Some (s\<lparr>tmnl_block := (tmnl_block s)[i := ?t\<lparr>pos_x := 0, pos_y := 0\<rparr>], mem := m\<rparr>)"
    using assms(2,3) by (simp_all add: upd_tmnl_in)
  have clear: "clear_tmnl_vidmem (int i) ?s = Some (0, s\<lparr>tmnl_block := (tmnl_block s)[i := new_tmnl i], mem := m\<rparr>)"
    unfolding clear_tmnl_vidmem_def if_not_P [OF range] m(1) bind.bind_lunit pos new by simp
  have size: "upd_tmnl (int i) (\<lambda>t. t\<lparr>buffer_size := 0\<rparr>)
      (s\<lparr>tmnl_block := (tmnl_block s)[i := (?f (tmnl_block s ! i))\<lparr>buffer := replicate 128 0\<rparr>]\<rparr>) = Some ?s"
    using assms(2,3) by (simp add: upd_tmnl_in)
  have "drawn (mem s) m" using m(2) by simp
  then show ?thesis unfolding first bind.bind_lunit buf size clear by auto
qed

lemma init_terminal_eq:
  assumes "id_mapped (kernel_xlat (pg s)) VIDEO 0x4000" and "length (tmnl_block s) = 3"
    and "\<forall>t \<in> set (tmnl_block s). length (buffer t) = 128"
  shows "\<exists>m log. init_terminal s = Some (s\<lparr>tmnl_block := map new_tmnl [0..<3], mem := m, active_terminal := -1,
      exec_terminal := -1, screen_x := 0, screen_y := 0, port_log := log,
      tmnl_before := (tmnl_before s)\<lparr>pos_x := 0, pos_y := 0\<rparr>\<rparr>) \<and> drawn (mem s) m \<and>
    (\<forall>irq. last_out (irq_port irq) log = last_out (irq_port irq) (port_log s))"
proof -
  let ?P = "\<lambda>i t. \<exists>m. t = s\<lparr>tmnl_block := map new_tmnl [0..<i] @ drop i (tmnl_block s), mem := m\<rparr> \<and> drawn (mem s) m"
  let ?body = "\<lambda>i s. do { s \<leftarrow> upd_tmnl (int i) (\<lambda>t. t\<lparr>active_process := -1, enter_flag := KB_PENDING,
                               tmnl_flags := TMNL_IDLE, vidmem_ptr := FOUR_KB * (VM_ADDR + i + 1)\<rparr>) s;
                        s \<leftarrow> for_each [0..<BUF_SIZE]
                          (\<lambda>j s. do { t \<leftarrow> get_tmnl (int i) s;
                                      b \<leftarrow> arr_set (buffer t) (int j) 0;
                                      upd_tmnl (int i) (\<lambda>t. t\<lparr>buffer := b\<rparr>) s }) s;
                        s \<leftarrow> upd_tmnl (int i) (\<lambda>t. t\<lparr>buffer_size := 0\<rparr>) s;
                        (_, s) \<leftarrow> clear_tmnl_vidmem (int i) s;
                        Some s }"
  have "\<exists>t. for_each [0..<NUM_TERMINAL] ?body s = Some t \<and> ?P 3 t"
  proof (rule for_each_upt [where P = ?P])
    fix i t assume i: "i < (3 :: nat)" and "?P i t"
    then obtain m where t: "t = s\<lparr>tmnl_block := map new_tmnl [0..<i] @ drop i (tmnl_block s), mem := m\<rparr>" "drawn (mem s) m"
      by blast
    have len: "length (tmnl_block t) = 3" using i assms(2) by (simp add: t(1))
    have "tmnl_block t ! i = tmnl_block s ! i" using i assms(2) by (simp add: t(1) nth_append)
    then have buf: "length (buffer (tmnl_block t ! i)) = 128" using i assms(2,3) by simp
    have vid: "id_mapped (kernel_xlat (pg t)) VIDEO 0x4000" using assms(1) by (simp add: t(1))
    obtain m' where m': "?body i t = Some (t\<lparr>tmnl_block := (tmnl_block t)[i := new_tmnl i], mem := m'\<rparr>)" "drawn (mem t) m'"
      using init_one_terminal [OF vid len i buf] by blast
    have "(map new_tmnl [0..<i] @ drop i (tmnl_block s))[i := new_tmnl i] = map new_tmnl [0..<Suc i] @ drop (Suc i) (tmnl_block s)"
      using i assms(2) by (simp add: list_update_append Cons_nth_drop_Suc [symmetric])
    then have "t\<lparr>tmnl_block := (tmnl_block t)[i := new_tmnl i], mem := m'\<rparr> =
        s\<lparr>tmnl_block := map new_tmnl [0..<Suc i] @ drop (Suc i) (tmnl_block s), mem := m'\<rparr>" by (simp add: t(1))
    moreover have "drawn (mem s) m'" using m'(2) t by (simp add: drawn_def)
    ultimately show "\<exists>t'. ?body i t = Some t' \<and> ?P (Suc i) t'" using m'(1) by auto
  qed (auto simp: drawn_def intro: exI [of _ "mem s"])
  then obtain m where m: "for_each [0..<NUM_TERMINAL] ?body s = Some (s\<lparr>tmnl_block := map new_tmnl [0..<3], mem := m\<rparr>)"
    "drawn (mem s) m" using assms(2) by auto
  let ?s = "s\<lparr>tmnl_block := map new_tmnl [0..<3], mem := m, active_terminal := -1, exec_terminal := -1\<rparr>"
  have vid: "id_mapped (kernel_xlat (pg ?s)) VIDEO 0x4000" using assms(1) by simp
  obtain m' where m': "for_each [0..<NUM_ROWS * NUM_COLS]
      (\<lambda>i s. do { s \<leftarrow> kput (VIDEO + 2 * i) 0x20 s; kput (VIDEO + 2 * i + 1) ATTRIB s }) ?s = Some (?s\<lparr>mem := m'\<rparr>)"
    "drawn (mem ?s) m'"
    using draw_cells [OF vid, of VIDEO "\<lambda>i s. do { s \<leftarrow> kput (VIDEO + 2 * i) 0x20 s; kput (VIDEO + 2 * i + 1) ATTRIB s }"] by auto
  have d: "drawn (mem s) m'" using m(2) m'(2) by (simp add: drawn_def)
  have "\<exists>log. clear ?s = Some (s\<lparr>tmnl_block := map new_tmnl [0..<3], mem := m', active_terminal := -1,
      exec_terminal := -1, screen_x := 0, screen_y := 0, port_log := log,
      tmnl_before := (tmnl_before s)\<lparr>pos_x := 0, pos_y := 0\<rparr>\<rparr>) \<and>
    (\<forall>irq. last_out (irq_port irq) log = last_out (irq_port irq) (port_log s))"
    unfolding clear_def m'(1) bind.bind_lunit
    by (rule exI [of _ "outb 0 0x3D5 (outb 0x0E 0x3D4 (outb 0 0x3D5 (outb 0x0F 0x3D4 (port_log s))))"])
      (simp add: Let_def update_cursor_def on_ports_def upd_tmnl_def irq_port_def)
  then show ?thesis unfolding init_terminal_def m(1) bind.bind_lunit Let_def using d by blast
qed

subsection \<open>The order of the initialisation\<close>

text \<open>The lines that the masks let through; every mask has been written.\<close>

definition open_lines :: "outs \<Rightarrow> u32 set \<Rightarrow> bool" where
  "open_lines log lines \<longleftrightarrow>
     (\<forall>irq. last_out (irq_port irq) log \<noteq> None) \<and> (\<forall>irq < 16. masked log irq \<longleftrightarrow> irq \<notin> lines)"

lemma open_lines_init: "mask_readback inb \<Longrightarrow> open_lines (i8259_init inb log) {2}"
  using i8259_init_masked(1) i8259_init_masked(2) [of inb 0] by (auto simp: open_lines_def)

lemma open_lines_enable:
  assumes "mask_readback inb" and "open_lines log lines" and "irq < 16"
  shows "open_lines (enable_irq inb irq log) (insert irq lines)"
proof -
  have "last_out (irq_port i) (enable_irq inb irq log) \<noteq> None" for i
    unfolding last_out_enable_irq using assms(2) by (simp add: open_lines_def)
  then show ?thesis using enable_irq_masked [OF assms(1) _ assms(3)] assms(2) by (auto simp: open_lines_def)
qed

lemma open_lines_same:
  "open_lines log lines \<Longrightarrow> \<forall>irq. last_out (irq_port irq) log' = last_out (irq_port irq) log \<Longrightarrow> open_lines log' lines"
  by (simp add: open_lines_def masked_def)

lemma open_lines_masks: "open_lines (port_log s) lines \<Longrightarrow> same_masks s t \<Longrightarrow> open_lines (port_log t) lines"
  by (auto intro: open_lines_same simp: same_masks_def)

lemma boot_screen_upd [simp]:
  "boot_screen (s\<lparr>pcb := a\<rparr>) = boot_screen s" "boot_screen (s\<lparr>rtc_block := b\<rparr>) = boot_screen s"
  "boot_screen (s\<lparr>fs := c\<rparr>) = boot_screen s" "boot_screen (s\<lparr>tss_ss0 := d\<rparr>) = boot_screen s"
  "boot_screen (s\<lparr>tss_esp0 := e\<rparr>) = boot_screen s" "boot_screen (s\<lparr>port_log := l\<rparr>) = boot_screen s"
  "boot_screen (on_ports f s) = boot_screen s" "boot_screen (s\<lparr>mem := m\<rparr>) = boot_screen s"
  by (simp_all add: boot_screen_def screen_ready_def screen_ok_def on_ports_def)

lemma paging_video: "paging_inv prog p \<Longrightarrow> id_mapped (kernel_xlat p) VIDEO 0x4000"
  using walk_low by (auto simp: id_mapped_def kernel_xlat_def)

lemma boot_screen_paging: "boot_screen s \<Longrightarrow> paging_inv prog p \<Longrightarrow> boot_screen (s\<lparr>pg := p\<rparr>)"
  using paging_video by (simp add: boot_screen_def screen_ready_def screen_ok_def)

lemma say_ok:
  assumes "boot_screen s" and "{0, 0x25} \<inter> set (bytes_of (txt @ newline)) = {}"
  shows "\<exists>t. say txt s = Some t \<and> booting s t"
proof -
  have b: "booting s s" using assms(1) by (simp add: booting_def)
  have "render (bytes_of (txt @ newline)) [] = Some (bytes_of (txt @ newline))" using assms(2) by (intro render_plain) auto
  then have "boots s (say txt s)"
    using assms(2) boots_print [OF b, of "txt @ newline" "[]"] by (simp add: say_def)
  then show ?thesis by (simp add: boots_def)
qed

lemma init_tables_boots:
  assumes "boot_screen s" and "tables_ok (pg s)" and "zero_tables (pg s)" and "length (pcb s) = 6"
    and "\<forall>p \<in> set (pcb s). length (fd_table p) = 8" and "length (idt_table c) = 256" and "mask_readback inb"
  shows "\<exists>idt p t. init_tables im inb (c, s) = Some (c\<lparr>idt_table := idt\<rparr>, t) \<and> boot_screen t \<and>
    init_idt (handler_addr im) (idt_table c) = Some idt \<and> paging_inv None p \<and>
    console_frame (s\<lparr>pcb := map idle_pb (pcb s), pg := p\<rparr>) t \<and> open_lines (port_log t) {2}"
proof -
  obtain idt where idt: "init_idt (handler_addr im) (idt_table c) = Some idt" using init_idt_eq [OF assms(6)] by blast
  obtain s1 where s1: "say ''initialized IDT'' s = Some s1" "booting s s1"
    using say_ok [OF assms(1), of "''initialized IDT''"] by (auto simp: bytes_of_def)
  let ?s2 = "on_ports (i8259_init inb) s1"
  have b2: "boot_screen ?s2" using s1(2) by (simp add: booting_def)
  obtain s3 where s3: "say ''Initialized PIC'' ?s2 = Some s3" "booting ?s2 s3"
    using say_ok [OF b2, of "''Initialized PIC''"] by (auto simp: bytes_of_def)
  have same: "pcb s3 = pcb s" "pg s3 = pg s"
    using s1(2) s3(2) by (simp_all add: booting_def console_frame_def on_ports_def)
  have pcb: "init_pcb s3 = Some (s3\<lparr>pcb := map idle_pb (pcb s)\<rparr>)" using init_pcb_eq [of s3] assms(4,5) same by simp
  let ?s4 = "s3\<lparr>pcb := map idle_pb (pcb s)\<rparr>"
  have b4: "boot_screen ?s4" using s3(2) by (simp add: booting_def)
  obtain s5 where s5: "say ''Initialized PCB'' ?s4 = Some s5" "booting ?s4 s5"
    using say_ok [OF b4, of "''Initialized PCB''"] by (auto simp: bytes_of_def)
  obtain p where p: "init_paging (pg s) = Some p" "paging_inv None p" using paging_inv_init [OF assms(2,3)] by blast
  have "pg s5 = pg s" using s5(2) same by (simp add: booting_def console_frame_def)
  then have paging: "on_paging init_paging s5 = Some (s5\<lparr>pg := p\<rparr>)" using p(1) by (simp add: on_paging_def)
  have b6: "boot_screen (s5\<lparr>pg := p\<rparr>)" using s5(2) p(2) by (simp add: booting_def boot_screen_paging)
  obtain t where t: "say ''Initialized paging'' (s5\<lparr>pg := p\<rparr>) = Some t" "booting (s5\<lparr>pg := p\<rparr>) t"
    using say_ok [OF b6, of "''Initialized paging''"] by (auto simp: bytes_of_def)
  have run: "init_tables im inb (c, s) = Some (c\<lparr>idt_table := idt\<rparr>, t)"
    by (simp add: init_tables_def idt s1(1) s3(1) pcb s5(1) paging t(1))
  have frame: "console_frame (s\<lparr>pcb := map idle_pb (pcb s), pg := p\<rparr>) t"
    using s1(2) s3(2) s5(2) t(2) by (simp add: booting_def console_frame_def on_ports_def)
  have "open_lines (port_log ?s2) {2}" using open_lines_init [OF assms(7)] by (simp add: on_ports_def)
  then have "open_lines (port_log s3) {2}" by (rule open_lines_masks) (use s3(2) in \<open>simp add: booting_def\<close>)
  then have "open_lines (port_log ?s4) {2}" by simp
  then have "open_lines (port_log s5) {2}" by (rule open_lines_masks) (use s5(2) in \<open>simp add: booting_def\<close>)
  then have "open_lines (port_log (s5\<lparr>pg := p\<rparr>)) {2}" by simp
  then have "open_lines (port_log t) {2}" by (rule open_lines_masks) (use t(2) in \<open>simp add: booting_def\<close>)
  with run frame idt p(2) t(2) show ?thesis by (auto simp: booting_def)
qed

lemma init_fs_mono: "v \<subseteq>\<^sub>m w \<Longrightarrow> init_fs v a = Some f \<Longrightarrow> init_fs w a = Some f"
  using rd32_mono [of v w] by (auto simp: init_fs_def bind_eq_Some_conv)

lemma frame_buffers:
  assumes "console_frame s t" and "\<forall>x \<in> set (tmnl_block s). length (buffer x) = n"
  shows "\<forall>x \<in> set (tmnl_block t). length (buffer x) = n"
proof
  fix x assume "x \<in> set (tmnl_block t)"
  then have "no_pos x \<in> set (map no_pos (tmnl_block t))" by simp
  then have "no_pos x \<in> set (map no_pos (tmnl_block s))" using assms(1) by (simp only: console_frame_def)
  then obtain y where y: "y \<in> set (tmnl_block s)" "no_pos x = no_pos y" by auto
  have "buffer (no_pos x) = buffer x" "buffer (no_pos y) = buffer y" by (simp_all add: no_pos_def)
  then show "length (buffer x) = n" using assms(2) y by metis
qed

text \<open>The state \<open>init_terminal\<close> leaves is the first stage of the start of the shells.\<close>

lemma stage_0I:
  assumes "tmnl_block t = map new_tmnl [0..<3]" and "active_terminal t = -1" and "exec_terminal t = -1"
    and "screen_x t = 0" and "screen_y t = 0" and "length (rtc_block t) = 3" and "length (pcb t) = 6"
    and "\<forall>p \<in> set (pcb t). pb_ok p \<and> pb_flags p = PCB_ABSENT" and "paging_inv None (pg t)"
    and "-1 \<le> active_process (tmnl_before t)" and "active_process (tmnl_before t) < 6"
  shows "stage 0 t"
  using assms
  by (auto simp: stage_def kernel_ok_def screen_ok_def tmnl_ok_def new_tmnl_def pcb_free_def simp del: upt_rec_numeral)

lemma init_devices_boots:
  assumes "boot_screen s" and "paging_inv None (pg s)" and "length (rtc_block s) = 3" and "length (pcb s) = 6"
    and "\<forall>p \<in> set (pcb s). pb_ok p \<and> pb_flags p = PCB_ABSENT"
    and "\<forall>x \<in> set (tmnl_block s). length (buffer x) = 128"
    and "-1 \<le> active_process (tmnl_before s)" and "active_process (tmnl_before s) < 6"
    and "open_lines (port_log s) {2}" and "mask_readback inb" and "init_fs (fs_image s) (unat a) = Some f"
  shows "\<exists>t. init_devices inb a s = Some t \<and> stage 0 t \<and> fs t = f \<and> fs_image t = fs_image s \<and>
    open_lines (port_log t) {0, 1, 2, 8} \<and> if_flag t \<and> tss_esp0 t = tss_esp0 s \<and> tss_ss0 t = tss_ss0 s"
proof -
  obtain log where rtc: "init_rtc inb s = Some (s\<lparr>rtc_block := replicate 3 booted_rtcc, port_log := enable_irq inb 8 log\<rparr>)"
    and log: "\<forall>irq. last_out (irq_port irq) log = last_out (irq_port irq) (port_log s)"
    using init_rtc_eq [OF assms(3)] by blast
  let ?s1 = "s\<lparr>rtc_block := replicate 3 booted_rtcc, port_log := enable_irq inb 8 log\<rparr>"
  have l1: "open_lines (port_log ?s1) {8, 2}"
    using open_lines_enable [OF assms(10) open_lines_same [OF assms(9) log], of 8] by simp
  have b1: "boot_screen ?s1" using assms(1) by simp
  obtain s2 where s2: "say ''Initialized RTC'' ?s1 = Some s2" "booting ?s1 s2"
    using say_ok [OF b1, of "''Initialized RTC''"] by (auto simp: bytes_of_def)
  have "open_lines (port_log s2) {8, 2}" by (rule open_lines_masks [OF l1]) (use s2(2) in \<open>simp add: booting_def\<close>)
  then have l3: "open_lines (port_log (init_keyboard inb s2)) {1, 8, 2}"
    using open_lines_enable [OF assms(10), of "port_log s2" "{8, 2}" 1] by (simp add: init_keyboard_def on_ports_def)
  have b3: "boot_screen (init_keyboard inb s2)" using s2(2) by (simp add: init_keyboard_def booting_def)
  obtain s4 where s4: "say ''Initialized keyboard'' (init_keyboard inb s2) = Some s4" "booting (init_keyboard inb s2) s4"
    using say_ok [OF b3, of "''Initialized keyboard''"] by (auto simp: bytes_of_def)
  have l4: "open_lines (port_log s4) {1, 8, 2}" by (rule open_lines_masks [OF l3]) (use s4(2) in \<open>simp add: booting_def\<close>)
  have f4: "console_frame ?s1 s4"
    using s2(2) s4(2) by (auto simp: booting_def console_frame_def init_keyboard_def on_ports_def)
  have "fs_image s4 = fs_image s" using frame_image [OF f4] by (simp add: fs_image_def fun_eq_iff)
  moreover have "pg s4 = pg s" using f4 by (simp add: console_frame_def)
  ultimately have fs: "init_fs (kview s4) (unat a) = Some f"
    using init_fs_mono [OF fs_image_le assms(11)] fs_image_le [of None s4] assms(2,11) by (auto intro: init_fs_mono)
  let ?s5 = "s4\<lparr>fs := f\<rparr>"
  have b5: "boot_screen ?s5" using s4(2) by (simp add: booting_def)
  obtain s6 where s6: "say ''Initialized filesystem'' ?s5 = Some s6" "booting ?s5 s6"
    using say_ok [OF b5, of "''Initialized filesystem''"] by (auto simp: bytes_of_def)
  have b6: "boot_screen s6" using s6(2) by (simp add: booting_def)
  obtain s7 where s7: "say ''Enabling Interrupts'' s6 = Some s7" "booting s6 s7"
    using say_ok [OF b6, of "''Enabling Interrupts''"] by (auto simp: bytes_of_def)
  have b7: "boot_screen s7" using s7(2) by (simp add: booting_def)
  have f7: "console_frame (s\<lparr>rtc_block := replicate 3 booted_rtcc, fs := f\<rparr>) s7"
    using f4 s6(2) s7(2) by (auto simp: booting_def console_frame_def)
  have "same_masks s4 s7" using s6(2) s7(2) by (simp add: booting_def same_masks_def)
  note l7 = open_lines_masks [OF l4 this]
  have "\<forall>x \<in> set (tmnl_block s7). length (buffer x) = 128" by (rule frame_buffers [OF f7]) (use assms(6) in simp)
  moreover have "id_mapped (kernel_xlat (pg s7)) VIDEO 0x4000" "length (tmnl_block s7) = 3"
    using b7 by (simp_all add: boot_screen_def screen_ready_def)
  ultimately obtain m log' where fin: "init_terminal s7 = Some (s7\<lparr>tmnl_block := map new_tmnl [0..<3], mem := m, active_terminal := -1,
      exec_terminal := -1, screen_x := 0, screen_y := 0, port_log := log',
      tmnl_before := (tmnl_before s7)\<lparr>pos_x := 0, pos_y := 0\<rparr>\<rparr>)" "drawn (mem s7) m"
    "\<forall>irq. last_out (irq_port irq) log' = last_out (irq_port irq) (port_log s7)"
    using init_terminal_eq by blast
  let ?s8 = "s7\<lparr>tmnl_block := map new_tmnl [0..<3], mem := m, active_terminal := -1,
      exec_terminal := -1, screen_x := 0, screen_y := 0, port_log := log',
      tmnl_before := (tmnl_before s7)\<lparr>pos_x := 0, pos_y := 0\<rparr>\<rparr>"
  let ?t = "sti (init_scheduler inb ?s8)"
  have t: "?t = ?s8\<lparr>port_log := port_log ?t, if_flag := True\<rparr>"
    by (simp add: sti_def init_scheduler_def Let_def on_ports_def)
  have "open_lines (port_log ?t) (insert 0 {1, 8, 2})"
  proof -
    let ?log = "outb (ucast (drop_bit 8 DIV_20HZ)) PIT_CH0 (outb (ucast (DIV_20HZ AND 0xFF)) PIT_CH0 (outb OPM_SQM3 PIT_CMDR log'))"
    have "open_lines ?log {1, 8, 2}"
      by (rule open_lines_same [OF l7]) (use fin(3) in \<open>simp add: irq_port_def\<close>)
    from open_lines_enable [OF assms(10) this, of 0] show ?thesis
      by (simp add: sti_def init_scheduler_def Let_def on_ports_def)
  qed
  then have lines: "open_lines (port_log ?t) {0, 1, 2, 8}" by (simp add: insert_commute)
  have run: "init_devices inb a s = Some ?t"
    by (simp only: init_devices_def rtc bind.bind_lunit s2(1) Let_def s4(1) fs s6(1) s7(1) fin(1))
  have "stage 0 ?t"
    by (subst t, rule stage_0I) (use f7 assms in \<open>simp_all add: console_frame_def del: upt_rec_numeral\<close>)
  moreover have "fs ?t = f" "tss_esp0 ?t = tss_esp0 s" "tss_ss0 ?t = tss_ss0 s" "if_flag ?t"
    using f7 by (subst t, simp add: console_frame_def)+
  moreover have "fs_image ?t = fs_image s"
    using f7 fin(2) by (subst t) (auto simp: fs_image_def console_frame_def drawn_def fun_eq_iff)
  ultimately show ?thesis using run lines by blast
qed

subsection \<open>Properties\<close>

text \<open>
  The kernel's data as the boot loader loads it: paging off, the zeroed tables where the linker put
  them, arrays of their sizes. The record before the terminals is whatever the linker put there.
\<close>

definition loaded :: "kst \<Rightarrow> bool" where
  "loaded s \<longleftrightarrow>
     \<not> paging_on (pg s) \<and> tables_ok (pg s) \<and> zero_tables (pg s) \<and>
     active_terminal s = 0 \<and> exec_terminal s = 0 \<and> screen_ok s \<and>
     length (tmnl_block s) = 3 \<and> (\<forall>t \<in> set (tmnl_block s). length (buffer t) = 128 \<and> pos_ok t) \<and>
     -1 \<le> active_process (tmnl_before s) \<and> active_process (tmnl_before s) < 6 \<and>
     length (rtc_block s) = 3 \<and> length (pcb s) = 6 \<and>
     (\<forall>p \<in> set (pcb s). length (fd_table p) = 8 \<and> length (argument p) = 128 \<and> -1 \<le> parent p \<and> parent p < 6)"

lemma loaded_screen: "loaded s \<Longrightarrow> boot_screen s"
  by (auto simp: loaded_def boot_screen_def screen_ready_def id_mapped_def kernel_xlat_def walk_def)

lemma idle_pb_ok:
  "length (fd_table p) = 8 \<Longrightarrow> length (argument p) = 128 \<Longrightarrow> -1 \<le> parent p \<Longrightarrow> parent p < 6 \<Longrightarrow>
    pb_ok (idle_pb p) \<and> pb_flags (idle_pb p) = PCB_ABSENT"
  by (auto simp: idle_pb_def pb_ok_def stdin_fd_def stdout_fd_def)

lemma clear_boots:
  assumes "boot_screen s"
  shows "\<exists>t. clear s = Some t \<and> booting s t"
proof -
  have ready: "screen_ready s" using assms by (simp add: boot_screen_def)
  obtain t where t: "clear s = Some t" "screen_ready t" "console_frame s t" using clear_ready [OF ready] by blast
  have "masks_of s (clear s)"
    unfolding clear_def Let_def
  proof (intro masks_of_bind masks_of_step)
    show "masks_of s (for_each [0..<NUM_ROWS * NUM_COLS]
            (\<lambda>i s. do { s \<leftarrow> kput (VIDEO + 2 * i) 0x20 s; kput (VIDEO + 2 * i + 1) ATTRIB s }) s)"
      unfolding masks_of_def
      by (intro allI impI, erule masks.for_each_related) (auto simp: bind_eq_Some_conv same_masks_def dest!: log_kept)
  qed simp
  with t assms show ?thesis by (auto simp: booting_def boot_screen_def console_frame_def masks_of_def)
qed

lemma stage_alive: "stage 3 s \<Longrightarrow> alive s"
  using stage_kernel_ok [of 3 s] by (simp add: alive_def stage_def)

lemma three_ticks:
  assumes "stage 0 s" and "frame_ok fr" and "program s ds shell_name cur bytes"
  shows "\<exists>t1 t2 t3 c. sched_handler fr esp ebp s = Some (c, t1) \<and> sched_handler fr esp ebp t1 = Some (c, t2) \<and>
    sched_handler fr esp ebp t2 = Some (c, t3) \<and> c = Enter_user [entry_word bytes, USER_CS, 0x200, USER_ESP, USER_DS] \<and>
    alive t3 \<and> fs t3 = fs s \<and> fs_image t3 = fs_image s"
proof -
  let ?c = "Enter_user [entry_word bytes, USER_CS, 0x200, USER_ESP, USER_DS]"
  have step: "\<exists>t. sched_handler fr esp ebp u = Some (?c, t) \<and> stage (Suc n) t \<and> fs t = fs u \<and> fs_image t = fs_image u"
    if "stage n u" "n < 3" "fs u = fs s" "fs_image u = fs_image s" for n u
    using stage_tick [OF that(1,2) assms(2), of ds cur bytes esp ebp] assms(3) that(3,4) by (auto simp: program_def)
  obtain t1 where t1: "sched_handler fr esp ebp s = Some (?c, t1)" "stage 1 t1" "fs t1 = fs s" "fs_image t1 = fs_image s"
    using step [OF assms(1)] by auto
  obtain t2 where t2: "sched_handler fr esp ebp t1 = Some (?c, t2)" "stage 2 t2" "fs t2 = fs s" "fs_image t2 = fs_image s"
    using step [OF t1(2) _ t1(3,4)] t1 by (auto simp: numeral_2_eq_2)
  obtain t3 where t3: "sched_handler fr esp ebp t2 = Some (?c, t3)" "stage 3 t3" "fs t3 = fs s" "fs_image t3 = fs_image s"
    using step [OF t2(2) _ t2(3,4)] t2 by (auto simp: numeral_3_eq_3)
  show ?thesis using t1(1) t2(1) t3 stage_alive [OF t3(2)] by blast
qed

text \<open>C30. From power-on to the shells: started by a multiboot loader with a readable report and with a
  file system module inside the kernel's 4 MB that has a program named \<open>shell\<close>, \<open>entry\<close> reaches its
  idle loop with every part of the kernel initialised: interrupts on and only the lines of the timer,
  the keyboard, the slave controller and the RTC let through, the IDT filled, the TSS set up, the file
  system at the module's address; and the next three timer ticks start the three shells, from when on
  the invariant of the running kernel holds.\<close>

theorem boot_reaches_shells:
  assumes "loaded s" and "loader_ok (mem s) mbi" and "mask_readback inb" and "length (idt_table c) = 256" and "frame_ok fr"
    and "init_fs (fs_image s) (unat (word_at (mem s) (word_at (mem s) (mbi + 24)))) = Some f"
    and "program (s\<lparr>fs := f\<rparr>) ds shell_name cur bytes"
  shows "\<exists>c' t. entry im inb 0x2BADB002 mbi (c, s) = Some (True, c', t) \<and>
    if_flag t \<and> (\<forall>irq < 16. masked (port_log t) irq \<longleftrightarrow> irq \<notin> {0, 1, 2, 8}) \<and> fs t = f \<and> fs_image t = fs_image s \<and>
    init_idt (handler_addr im) (idt_table c) = Some (idt_table c') \<and> task_register c' = KERNEL_TSS \<and>
    seg_base (tss_desc_ptr c') = tss_addr im \<and> seg_base (ldt_desc_ptr c') = ldt_addr im \<and> tss_ss0 t = KERNEL_DS \<and> tss_esp0 t = 0x800000 \<and>
    (\<exists>t1 t2 t3 k. sched_handler fr esp ebp t = Some (k, t1) \<and> sched_handler fr esp ebp t1 = Some (k, t2) \<and>
       sched_handler fr esp ebp t2 = Some (k, t3) \<and>
       k = Enter_user [entry_word bytes, USER_CS, 0x200, USER_ESP, USER_DS] \<and> alive t3)"
proof -
  let ?a = "word_at (mem s) (word_at (mem s) (mbi + 24))"
  note l = assms(1) [unfolded loaded_def]
  obtain s1 where s1: "clear s = Some s1" "booting s s1" using clear_boots [OF loaded_screen [OF assms(1)]] by blast
  obtain s2 where s2: "multiboot_report MULTIBOOT_BOOTLOADER_MAGIC mbi s1 = Some (Some ?a, s2)" "booting s s2"
    using report_boots [OF assms(2) _ s1(2)] l by blast
  define s3 where "s3 = s2\<lparr>tss_ss0 := KERNEL_DS, tss_esp0 := 0x800000\<rparr>"
  obtain c3 where c3: "set_tss im (set_ldt im c, s2) = (c3, s3)" "idt_table c3 = idt_table c" "task_register c3 = KERNEL_TSS"
    "seg_base (tss_desc_ptr c3) = tss_addr im" "seg_base (ldt_desc_ptr c3) = ldt_addr im"
    by (simp add: set_tss_def set_ldt_def Let_def s3_def set_params)
  have b3: "boot_screen s3" using s2(2) by (simp add: booting_def s3_def)
  have f3: "console_frame (s\<lparr>tss_ss0 := KERNEL_DS, tss_esp0 := 0x800000\<rparr>) s3"
    using s2(2) by (auto simp: booting_def console_frame_def s3_def)
  obtain idt p s4 where s4: "init_tables im inb (c3, s3) = Some (c3\<lparr>idt_table := idt\<rparr>, s4)" "boot_screen s4"
    "init_idt (handler_addr im) (idt_table c) = Some idt" "paging_inv None p"
    "console_frame (s3\<lparr>pcb := map idle_pb (pcb s3), pg := p\<rparr>) s4" "open_lines (port_log s4) {2}"
    using init_tables_boots [OF b3, of c3 inb im] f3 l assms(3,4) c3(2) by (auto simp: console_frame_def)
  have f4: "console_frame (s\<lparr>tss_ss0 := KERNEL_DS, tss_esp0 := 0x800000, pcb := map idle_pb (pcb s), pg := p\<rparr>) s4"
    using f3 s4(5) by (auto simp: console_frame_def)
  have img: "fs_image s4 = fs_image s" using frame_image [OF f4] by (simp add: fs_image_def fun_eq_iff)
  have buf: "\<forall>x \<in> set (tmnl_block s4). length (buffer x) = 128" by (rule frame_buffers [OF f4]) (use l in simp)
  have pbs: "pcb s4 = map idle_pb (pcb s)" "rtc_block s4 = rtc_block s" "tmnl_before s4 = tmnl_before s" "pg s4 = p"
    "tss_ss0 s4 = KERNEL_DS" "tss_esp0 s4 = 0x800000"
    using f4 by (simp_all add: console_frame_def)
  obtain t where t: "init_devices inb ?a s4 = Some t" "stage 0 t" "fs t = f" "fs_image t = fs_image s"
    "open_lines (port_log t) {0, 1, 2, 8}" "if_flag t" "tss_esp0 t = 0x800000" "tss_ss0 t = KERNEL_DS"
    using init_devices_boots [OF s4(2), of inb ?a f] pbs img buf l s4(4,6) assms(3,6) idle_pb_ok by auto
  have run: "entry im inb 0x2BADB002 mbi (c, s) = Some (True, c3\<lparr>idt_table := idt\<rparr>, t)"
    by (simp add: entry_def s1(1) s2(1) c3(1) s4(1) t(1))
  have "fs_image (s\<lparr>fs := f\<rparr>) = fs_image s" by (simp add: fs_image_def fun_eq_iff)
  then have "program t ds shell_name cur bytes" using assms(7) by (simp add: program_def t(3,4))
  then obtain t1 t2 t3 k where "sched_handler fr esp ebp t = Some (k, t1)" "sched_handler fr esp ebp t1 = Some (k, t2)"
    "sched_handler fr esp ebp t2 = Some (k, t3)" "k = Enter_user [entry_word bytes, USER_CS, 0x200, USER_ESP, USER_DS]" "alive t3"
    using three_ticks [OF t(2) assms(5)] by blast
  with run t s4(3) c3(3-5) show ?thesis by (intro exI [of _ "c3\<lparr>idt_table := idt\<rparr>"] exI [of _ t]) (auto simp: open_lines_def)
qed

text \<open>A machine the boot loader has just loaded: a report with one module, the file system.\<close>

definition loaded_kernel :: kst where
  "loaded_kernel = boot_kernel
     \<lparr>active_terminal := 0, exec_terminal := 0, pg := image_paging,
      mem := poke 0x9000 [8, 0, 0, 0] (poke 0x9018 [0, 0x91, 0, 0] (poke 0x9100 [0, 0, 0x40, 0] (mem boot_kernel)))\<rparr>"

definition loaded_image :: image where
  "loaded_image = \<lparr>ldt_addr = 0x404000, ldt_size = 31, tss_addr = 0x405000, tss_size = 103,
     handler_addr = (\<lambda>_. 0x401000),
     stack_desc = \<lparr>seg_lim_15_00 = 0, base_15_00 = 0, base_23_16 = 0, seg_type = 0, seg_sys = 0, seg_dpl = 0,
       seg_present = 0, seg_lim_19_16 = 0, seg_avail = 0, seg_reserved = 0, opsize = 0, granularity = 0, base_31_24 = 0\<rparr>\<rparr>"

definition reset_cpu :: cpu where
  "reset_cpu = \<lparr>ldt_desc_ptr = stack_desc loaded_image, tss_desc_ptr = stack_desc loaded_image, ldt_register = 0,
     task_register = 0, ldt_segment_selector = 0,
     idt_table = replicate 256 \<lparr>offset_15_00 = 0, seg_selector = 0, reserved4 = 0, reserved3 = 0, reserved2 = 0,
       reserved1 = 0, size_bit = 0, reserved0 = 0, dpl = 0, present = 0, offset_31_16 = 0\<rparr>\<rparr>"

definition readback :: device where
  "readback log port = (case last_out port log of None \<Rightarrow> 0 | Some v \<Rightarrow> v)"

lemma readback_ok: "mask_readback readback"
  by (simp add: mask_readback_def readback_def)

lemma loaded_kernel_ok: "loaded loaded_kernel"
  using image_paging_ok
  by (auto simp: loaded_def loaded_kernel_def boot_kernel_def program_kernel_def reading_kernel_def running_kernel_def
      booted_kernel_def booted_tmnl_def booted_pb_def image_paging_def screen_ok_def pos_ok_def simp del: upt_rec_numeral)

lemma loaded_kernel_words:
  "word_at (mem loaded_kernel) 0x9000 = 8" "word_at (mem loaded_kernel) 0x9018 = 0x9100"
  "word_at (mem loaded_kernel) 0x9100 = 0x400000"
  by (simp_all add: word_at_def loaded_kernel_def poke_def le32_def)

lemma loaded_kernel_report: "loader_ok (mem loaded_kernel) 0x9000"
  using loaded_kernel_words by (simp add: loader_ok_def outside_def bit_numeral_rec)

lemma loaded_kernel_image: "fs_image loaded_kernel = fs_image boot_kernel"
  by (auto simp: loaded_kernel_def fs_image_def poke_def fun_eq_iff)

lemma loaded_kernel_fs: "init_fs (fs_image loaded_kernel) 0x400000 = Some image_fs"
  by (simp add: loaded_kernel_image init_fs_def rd32_def le32_def fs_image_def boot_kernel_def program_kernel_def
      reading_kernel_def poke_def sample_elf sample_image_def image_fs_def bytes_of_def)

theorem boot_reaches_shells_witness:
  "\<exists>c t t1 t2 t3 k. entry loaded_image readback 0x2BADB002 0x9000 (reset_cpu, loaded_kernel) = Some (True, c, t) \<and>
     \<not> masked (port_log t) 0 \<and> masked (port_log t) 14 \<and> seg_base (tss_desc_ptr c) = 0x405000 \<and>
     sched_handler sample_frame 0 0 t = Some (k, t1) \<and> sched_handler sample_frame 0 0 t1 = Some (k, t2) \<and>
     sched_handler sample_frame 0 0 t2 = Some (k, t3) \<and> alive t3"
proof -
  have p: "program (loaded_kernel\<lparr>fs := image_fs\<rparr>) shell_dir shell_name (shell_dir ! 1) sample_elf"
  proof -
    have "fs boot_kernel = image_fs" by (simp add: boot_kernel_def program_kernel_def reading_kernel_image(1))
    moreover have "fs_image (loaded_kernel\<lparr>fs := image_fs\<rparr>) = fs_image loaded_kernel" by (simp add: fs_image_def fun_eq_iff)
    ultimately have "fs boot_kernel = image_fs" "fs_image (loaded_kernel\<lparr>fs := image_fs\<rparr>) = fs_image boot_kernel"
      by (simp_all add: loaded_kernel_image)
    then show ?thesis using boot_kernel_program by (simp add: program_def)
  qed
  have a: "unat (word_at (mem loaded_kernel) (word_at (mem loaded_kernel) (0x9000 + 24))) = 0x400000"
    using loaded_kernel_words by simp
  have idt: "length (idt_table reset_cpu) = 256" by (simp add: reset_cpu_def)
  obtain c t where e: "entry loaded_image readback 0x2BADB002 0x9000 (reset_cpu, loaded_kernel) = Some (True, c, t)"
    "\<forall>irq < 16. masked (port_log t) irq \<longleftrightarrow> irq \<notin> {0, 1, 2, 8}" "seg_base (tss_desc_ptr c) = tss_addr loaded_image"
    "\<exists>t1 t2 t3 k. sched_handler sample_frame 0 0 t = Some (k, t1) \<and> sched_handler sample_frame 0 0 t1 = Some (k, t2) \<and>
       sched_handler sample_frame 0 0 t2 = Some (k, t3) \<and>
       k = Enter_user [entry_word sample_elf, USER_CS, 0x200, USER_ESP, USER_DS] \<and> alive t3"
    using boot_reaches_shells [OF loaded_kernel_ok loaded_kernel_report readback_ok idt sample_frame_ok _ p,
        of loaded_image 0 0] loaded_kernel_fs unfolding a by blast
  have "masked (port_log t) 14" "\<not> masked (port_log t) 0" using e(2) by simp_all
  then show ?thesis using e(1,3,4) by (auto simp: loaded_image_def)
qed

end
