(* ===== verification/User_Lib.thy ===== *)
theory User_Lib
  imports Lib_Number
begin

text \<open>
  The support library the user programs are linked with, \<^verbatim>\<open>syscalls/ece391support.c\<close>, but for
  \<open>ece391_fdputs\<close>, which makes a system call (theory User_Calls). The routines compute what those of
  the kernel's own library do, by other loops: lengths and counts are 32-bit, the counts run down,
  and the terminator is copied by the same assignment as the characters. Each is proved equal to its
  kernel counterpart (theories Lib_String and Lib_Number), so the facts about those carry over.
\<close>

subsection \<open>The routines\<close>

partial_function (option) ece391_strlen_from :: "view \<Rightarrow> nat \<Rightarrow> u32 \<Rightarrow> u32 option" where
  "ece391_strlen_from s i len =
     do { c \<leftarrow> s i; if c \<noteq> 0 then ece391_strlen_from s (Suc i) (len + 1) else Some len }"

definition ece391_strlen :: "view \<Rightarrow> u32 option" where
  "ece391_strlen s = ece391_strlen_from s 0 0"

partial_function (option) ece391_strcpy_from ::
  "('m \<Rightarrow> nat \<Rightarrow> u8 option) \<Rightarrow> ('m \<Rightarrow> nat \<Rightarrow> u8 \<Rightarrow> 'm option) \<Rightarrow> nat \<Rightarrow> 'm \<Rightarrow> 'm option" where
  "ece391_strcpy_from src dst i m =
     do { c \<leftarrow> src m i;
          m \<leftarrow> dst m i c;
          if c \<noteq> 0 then ece391_strcpy_from src dst (Suc i) m else Some m }"

definition ece391_strcpy ::
  "('m \<Rightarrow> nat \<Rightarrow> u8 option) \<Rightarrow> ('m \<Rightarrow> nat \<Rightarrow> u8 \<Rightarrow> 'm option) \<Rightarrow> 'm \<Rightarrow> 'm option" where
  "ece391_strcpy src dst m = ece391_strcpy_from src dst 0 m"

partial_function (option) ece391_strcmp_from :: "view \<Rightarrow> view \<Rightarrow> nat \<Rightarrow> int option" where
  "ece391_strcmp_from s1 s2 i =
     do { a \<leftarrow> s1 i; b \<leftarrow> s2 i;
          if a = b then if a = 0 then Some 0 else ece391_strcmp_from s1 s2 (Suc i)
          else Some (uint a - uint b) }"

definition ece391_strcmp :: "view \<Rightarrow> view \<Rightarrow> int option" where
  "ece391_strcmp s1 s2 = ece391_strcmp_from s1 s2 0"

function ece391_strncmp_from :: "view \<Rightarrow> view \<Rightarrow> nat \<Rightarrow> u32 \<Rightarrow> int option" where
  "ece391_strncmp_from s1 s2 i n =
     do { a \<leftarrow> s1 i; b \<leftarrow> s2 i;
          if a = b then
            if a = 0 then Some 0
            else let n = n - 1 in if n = 0 then Some 0 else ece391_strncmp_from s1 s2 (Suc i) n
          else Some (uint a - uint b) }"
  by pat_completeness auto
termination
proof (relation "measure (\<lambda>(s1, s2, i, n). unat (n - 1))")
  fix n m :: u32
  assume m: "m = n - 1" "m \<noteq> 0"
  then have "0 < unat m" by (simp add: unat_gt_0)
  then show "((s1, s2, Suc i, m), (s1, s2, i, n)) \<in> measure (\<lambda>(s1, s2, i, n). unat (n - 1))" for s1 s2 i
    using m unat_minus_one [OF m(2)] by simp
qed simp

declare ece391_strncmp_from.simps [simp del]

definition ece391_strncmp :: "view \<Rightarrow> view \<Rightarrow> u32 \<Rightarrow> int option" where
  "ece391_strncmp s1 s2 n = (if n = 0 then Some 0 else ece391_strncmp_from s1 s2 0 n)"

text \<open>The loop of \<open>ece391_strrev\<close> is that of the kernel's \<open>strrev\<close>, after a test of its own.\<close>

definition ece391_strrev ::
  "('m \<Rightarrow> nat \<Rightarrow> u8 option) \<Rightarrow> ('m \<Rightarrow> nat \<Rightarrow> u8 \<Rightarrow> 'm option) \<Rightarrow> 'm \<Rightarrow> 'm option" where
  "ece391_strrev rd wr m =
     do { n \<leftarrow> ece391_strlen (rd m);
          let end = sint (n - 1);
          if end \<le> 0 then Some m else strrev_loop rd wr 0 end m }"

definition ece391_itoa ::
  "('m \<Rightarrow> nat \<Rightarrow> u8 option) \<Rightarrow> ('m \<Rightarrow> nat \<Rightarrow> u8 \<Rightarrow> 'm option) \<Rightarrow> u32 \<Rightarrow> u32 \<Rightarrow> 'm \<Rightarrow> 'm option"
where
  "ece391_itoa rd wr val radix m =
     (if val = 0 then do { m \<leftarrow> wr m 0 0x30; wr m 1 0 }
      else do { (k, m) \<leftarrow> itoa_digits wr radix 0 val m;
                m \<leftarrow> wr m k 0;
                ece391_strrev rd wr m })"

subsection \<open>Equality with the kernel's routines\<close>

lemma option_eqI: "(\<And>y. a = Some y \<Longrightarrow> b = Some y) \<Longrightarrow> (\<And>y. b = Some y \<Longrightarrow> a = Some y) \<Longrightarrow> a = b"
  by (cases a; cases b) auto

lemma ece391_strlen_from_SomeD:
  assumes "ece391_strlen_from s i len = Some r"
  shows "\<exists>n. strlen_from s i = Some n"
proof (rule ece391_strlen_from.raw_induct [OF _ assms])
  fix f and s :: view and i len r
  assume IH: "\<And>s i len r. f s i len = Some r \<Longrightarrow> \<exists>n. strlen_from s i = Some n"
    and eq: "(do { c \<leftarrow> s i; if c \<noteq> 0 then f s (Suc i) (len + 1) else Some len }) = Some r"
  from eq obtain c where "s i = Some c" "c \<noteq> 0 \<longrightarrow> f s (Suc i) (len + 1) = Some r"
    by (auto simp: bind_eq_Some_conv split: if_splits)
  then show "\<exists>n. strlen_from s i = Some n"
    using IH [of s "Suc i" "len + 1" r] by (subst strlen_from.simps) auto
qed

lemma ece391_strlen_fromI:
  assumes "i \<le> n" and "s n = Some 0" and "\<And>j. i \<le> j \<Longrightarrow> j < n \<Longrightarrow> \<exists>c. s j = Some c \<and> c \<noteq> 0"
  shows "ece391_strlen_from s i len = Some (len + word_of_nat (n - i))"
  using assms
proof (induction "n - i" arbitrary: i len)
  case 0
  then show ?case by (subst ece391_strlen_from.simps) simp
next
  case (Suc k)
  then have i: "i < n" "n - i = Suc (n - Suc i)" by simp_all
  with Suc.prems(3) [of i] obtain c where "s i = Some c" "c \<noteq> 0" by auto
  moreover have "ece391_strlen_from s (Suc i) (len + 1) = Some (len + 1 + word_of_nat (n - Suc i))"
    using Suc.hyps(2) i(1) Suc.prems by (intro Suc.hyps(1)) auto
  ultimately show ?case using i by (subst ece391_strlen_from.simps) simp
qed

lemma ece391_strlen_eq: "ece391_strlen s = map_option word_of_nat (strlen s)"
proof (rule option_eqI)
  fix r assume r: "ece391_strlen s = Some r"
  then obtain n where n: "strlen s = Some n"
    using ece391_strlen_from_SomeD [of s 0 0 r] by (auto simp: ece391_strlen_def strlen_def)
  then have "ece391_strlen s = Some (word_of_nat n)"
    using strlen_from_SomeD [of s 0 n] ece391_strlen_fromI [of 0 n s 0]
    by (auto simp: ece391_strlen_def strlen_def)
  with r n show "map_option word_of_nat (strlen s) = Some r" by simp
next
  fix r :: u32 assume "map_option word_of_nat (strlen s) = Some r"
  then show "ece391_strlen s = Some r"
    using strlen_from_SomeD [of s 0] ece391_strlen_fromI [of 0 _ s 0]
    by (auto simp: ece391_strlen_def strlen_def)
qed

lemma ece391_strlen_cstr: "cstr s xs \<Longrightarrow> ece391_strlen s = Some (word_of_nat (length xs))"
  by (simp add: ece391_strlen_eq strlen_cstr)

lemma ece391_strcpy_fromD:
  assumes "ece391_strcpy_from src dst i m = Some m'"
  shows "strcpy_from src dst i m = Some m'"
proof (rule ece391_strcpy_from.raw_induct [OF _ assms])
  fix f and src :: "'a \<Rightarrow> nat \<Rightarrow> u8 option" and dst i m m'
  assume IH: "\<And>src dst i m m'. f src dst i m = Some m' \<Longrightarrow> strcpy_from src dst i m = Some m'"
    and eq: "(do { c \<leftarrow> src m i; m \<leftarrow> dst m i c; if c \<noteq> 0 then f src dst (Suc i) m else Some m }) = Some m'"
  from eq show "strcpy_from src dst i m = Some m'"
    by (subst strcpy_from.simps) (auto simp: bind_eq_Some_conv intro: IH split: if_splits)
qed

lemma ece391_strcpy_fromI:
  assumes "strcpy_from src dst i m = Some m'"
  shows "ece391_strcpy_from src dst i m = Some m'"
proof (rule strcpy_from.raw_induct [OF _ assms])
  fix f and src :: "'a \<Rightarrow> nat \<Rightarrow> u8 option" and dst i m m'
  assume IH: "\<And>src dst i m m'. f src dst i m = Some m' \<Longrightarrow> ece391_strcpy_from src dst i m = Some m'"
    and eq: "(do { c \<leftarrow> src m i; if c \<noteq> 0 then do { m \<leftarrow> dst m i c; f src dst (Suc i) m } else dst m i 0 }) = Some m'"
  from eq show "ece391_strcpy_from src dst i m = Some m'"
    by (subst ece391_strcpy_from.simps) (auto simp: bind_eq_Some_conv intro: IH split: if_splits)
qed

lemma ece391_strcpy_eq: "ece391_strcpy src dst m = strcpy src dst m"
  unfolding ece391_strcpy_def strcpy_def
  by (rule option_eqI) (rule ece391_strcpy_fromD ece391_strcpy_fromI, assumption)+

text \<open>The count that runs down and the index that runs up.\<close>

lemma ece391_strncmp_from_eq:
  "n \<noteq> 0 \<Longrightarrow> i + unat n = k \<Longrightarrow> ece391_strncmp_from s1 s2 i n = strncmp_from s1 s2 k i"
proof (induction "unat n" arbitrary: i n)
  case 0
  then show ?case by (simp add: unat_eq_0)
next
  case (Suc u)
  have i: "i < k" using Suc.hyps(2) Suc.prems(2) by simp
  have u: "unat (n - 1) = u" using unat_minus_one [OF Suc.prems(1)] Suc.hyps(2) by simp
  have last: "ece391_strncmp_from s1 s2 (Suc i) (n - 1) = strncmp_from s1 s2 k (Suc i)" if "n - 1 \<noteq> 0"
    using Suc.hyps(1) [of "n - 1" "Suc i"] Suc.hyps(2) Suc.prems(2) u that by simp
  have stop: "strncmp_from s1 s2 k (Suc i) = Some 0" if "n - 1 = 0"
    using that u Suc.hyps(2) Suc.prems(2) by (subst strncmp_from.simps) simp
  show ?case
    by (subst ece391_strncmp_from.simps, subst strncmp_from.simps)
      (use i last stop in \<open>auto simp: Let_def split: Option.bind_splits\<close>)
qed

lemma ece391_strncmp_eq: "ece391_strncmp s1 s2 n = strncmp s1 s2 (unat n)"
  using ece391_strncmp_from_eq [of n 0 "unat n" s1 s2] strncmp_from.simps [of s1 s2 0 0]
  by (simp add: ece391_strncmp_def strncmp_def)

lemma ece391_strcmp_from_eq:
  assumes "cstr s1 xs" and "cstr s2 ys" and "i \<le> length xs" and "length xs < n"
  shows "ece391_strcmp_from s1 s2 i = strncmp_from s1 s2 n i"
  using assms(3)
proof (induction "length xs - i" arbitrary: i)
  case 0
  then have "s1 i = Some 0" using cstr_end [OF assms(1)] by simp
  then show ?case using 0 assms(4)
    by (subst ece391_strcmp_from.simps, subst strncmp_from.simps) (auto split: Option.bind_splits)
next
  case (Suc k)
  then have "ece391_strcmp_from s1 s2 (Suc i) = strncmp_from s1 s2 n (Suc i)" by simp
  moreover have "i < n" using Suc.prems assms(4) by simp
  ultimately show ?case
    by (subst ece391_strcmp_from.simps, subst strncmp_from.simps) (auto split: Option.bind_splits)
qed

lemma ece391_strcmp_eq:
  "cstr s1 xs \<Longrightarrow> cstr s2 ys \<Longrightarrow> length xs < n \<Longrightarrow> ece391_strcmp s1 s2 = strncmp s1 s2 n"
  using ece391_strcmp_from_eq [of s1 xs s2 ys 0 n] by (simp add: ece391_strcmp_def strncmp_def)

lemma ece391_strcmp_zero_iff:
  assumes "cstr s1 xs" and "cstr s2 ys"
  shows "\<exists>r. ece391_strcmp s1 s2 = Some r \<and> (r = 0 \<longleftrightarrow> xs = ys)"
proof -
  let ?n = "Suc (length xs + length ys)"
  obtain r where "strncmp s1 s2 ?n = Some r" "r = 0 \<longleftrightarrow> take ?n (xs @ [0]) = take ?n (ys @ [0])"
    using strncmp_zero_iff [OF assms, of ?n] by blast
  then show ?thesis using ece391_strcmp_eq [OF assms, of ?n] by simp
qed

lemma sint_word_of_int_in: "- (2 ^ 31) \<le> x \<Longrightarrow> x < 2 ^ 31 \<Longrightarrow> sint (word_of_int x :: u32) = x"
  by (simp add: sint_sbintrunc' signed_take_bit_int_eq_self)

lemma ece391_strrev_eq:
  assumes "cstr (rd m) xs" and "length xs < 2 ^ 31"
  shows "ece391_strrev rd wr m = strrev rd wr m"
proof -
  have "sint (word_of_nat (length xs) - 1 :: u32) = int (length xs) - 1"
    using sint_word_of_int_in [of "int (length xs) - 1"] assms(2) by simp
  moreover have "strrev_loop rd wr 0 (int (length xs) - 1) m = Some m" if "int (length xs) - 1 \<le> 0"
    using that by (subst strrev_loop.simps) simp
  ultimately show ?thesis
    using assms(1) by (simp add: ece391_strrev_def strrev_def ece391_strlen_cstr strlen_cstr)
qed

text \<open>The digits of a 32-bit number are at most 32, so the length that \<open>ece391_strrev\<close> computes is exact.\<close>

context byte_store
begin

lemma ece391_itoa_eq:
  assumes "2 \<le> unat radix" and "unat radix \<le> 36"
    and room: "\<And>i. i \<le> length (radix_string (unat radix) (unat val)) \<Longrightarrow> rd m i \<noteq> None"
  shows "ece391_itoa rd wr val radix m = itoa rd wr val radix m"
proof (cases "val = 0")
  case True
  then show ?thesis by (simp add: ece391_itoa_def itoa_def)
next
  case False
  let ?ds = "radix_string (unat radix) (unat val)"
  obtain k m1 m2 where w: "itoa_digits wr radix 0 val m = Some (k, m1)" "wr m1 k 0 = Some m2"
    "cstr (rd m2) (rev ?ds)"
    using itoa_digits_written [OF assms(1,2) False room] by blast
  have "unat val < 2 ^ 32" using unsigned_less [of val] by simp
  also have "(2 :: nat) ^ 32 \<le> unat radix ^ 32" using assms(1) by (rule power_mono) simp
  finally have "length ?ds \<le> 32" by (rule length_radix_string) simp
  then have "ece391_strrev rd wr m2 = strrev rd wr m2"
    by (intro ece391_strrev_eq [of rd m2 "rev ?ds" wr] w(3)) simp
  then show ?thesis using False w(1,2) by (simp add: ece391_itoa_def itoa_def)
qed

end

subsection \<open>Properties\<close>

text \<open>The support library of the user programs and the library of the kernel agree. The length is
  that of the kernel's \<open>strlen\<close> modulo 2^32, and one returns where the other does; the two string copies
  store the same bytes in the same order, also where the buffers overlap; the bounded comparison
  gives the kernel's result for every pair of pointers and every count, so it reads nothing past the
  \<open>n\<close>-th byte; on C strings the unbounded comparison is 0 exactly for equal strings, and is the
  bounded one with any count beyond the first string; reversing agrees on every string shorter than
  2^31.\<close>

theorem support_matches_kernel:
  "ece391_strlen s = map_option word_of_nat (strlen s) \<and>
   ece391_strcpy src dst m = strcpy src dst m \<and>
   ece391_strncmp s1 s2 n = strncmp s1 s2 (unat n) \<and>
   (cstr s1 xs \<and> cstr s2 ys \<longrightarrow> (\<exists>r. ece391_strcmp s1 s2 = Some r \<and> (r = 0 \<longleftrightarrow> xs = ys)) \<and>
      (\<forall>k > length xs. ece391_strcmp s1 s2 = strncmp s1 s2 k)) \<and>
   (cstr (rd m) zs \<and> length zs < 2 ^ 31 \<longrightarrow> ece391_strrev rd wr m = strrev rd wr m)"
  using ece391_strcmp_zero_iff [of s1 xs s2 ys] ece391_strcmp_eq [of s1 xs s2 ys] ece391_strrev_eq [of rd m zs wr]
  by (auto simp: ece391_strlen_eq ece391_strcpy_eq ece391_strncmp_eq)

theorem support_matches_kernel_witness:
  "ece391_strcmp (lrd [1, 0]) (lrd [2, 0]) = strncmp (lrd [1, 0]) (lrd [2, 0]) 2 \<and>
   ece391_strcmp (lrd [1, 0]) (lrd [2, 0]) \<noteq> Some 0 \<and>
   ece391_strrev lrd lwr [1, 2, 0] = strrev lrd lwr [1, 2, 0]"
proof -
  have c: "cstr (lrd ([1] @ [0])) [1]" "cstr (lrd ([2] @ [0])) [2]" "cstr (lrd ([1, 2] @ [0])) [1, 2]"
    by (rule cstr_array, simp)+
  show ?thesis
    using support_matches_kernel [of _ _ _ "[1, 2, 0]" "lrd [1, 0]" "lrd [2, 0]" _ "[1]" "[2]" lrd "[1, 2]" lwr] c
    by auto
qed

end
