(* ===== verification/User_Calls.thy ===== *)
theory User_Calls
  imports Invariant User_Lib
begin

text \<open>
  How the user programs reach the kernel: the wrappers of \<^verbatim>\<open>syscalls/ece391syscall.S\<close>, which load the
  registers and execute \<open>int 0x80\<close>, stores of a program into its own memory, and \<open>ece391_fdputs\<close>.
  A program runs on the state of the kernel model: it loads and stores through the page tables as
  user-level code (\<open>uview\<close>, \<open>user_store\<close>), and its calls are those of theory Syscall. A pointer of a
  program is a number; a stack array is given by its address.

  A call may wait, and may leave the program for another one, which in the end comes back: what
  happens meanwhile is not the program's, and is a parameter, as are the addresses at which the
  compiler has put the string literals. The program's own instructions are not interrupted.
\<close>

record world =
  waits :: "nat \<Rightarrow> kst \<Rightarrow> kst option"
  frames :: "kst \<Rightarrow> frame"
  goes_on :: "control \<Rightarrow> kst \<Rightarrow> (int \<times> kst) option"
  lit :: "string \<Rightarrow> nat"

definition user_store :: "nat \<Rightarrow> u8 \<Rightarrow> kst \<Rightarrow> kst option" where
  "user_store a b s = do { m \<leftarrow> st (user_xlat (pg s)) (mem s) a b; Some (s\<lparr>mem := m\<rparr>) }"

text \<open>The bytes from a pointer on.\<close>

definition ptr :: "kst \<Rightarrow> nat \<Rightarrow> view" where
  "ptr s a = (\<lambda>i. uview s (a + i))"

subsection \<open>The wrappers\<close>

text \<open>
  \<open>DO_CALL\<close>: the number in \<open>eax\<close>, the three words above the return address in \<open>ebx\<close>, \<open>ecx\<close> and \<open>edx\<close>,
  of which a call reads as many as it has arguments; the result is \<open>eax\<close>, an \<open>int32_t\<close>.
\<close>

definition do_call :: "world \<Rightarrow> u32 \<Rightarrow> u32 \<Rightarrow> u32 \<Rightarrow> u32 \<Rightarrow> kst \<Rightarrow> (int \<times> kst) option" where
  "do_call w number ebx ecx edx s =
     do { (c, s) \<leftarrow> syscall (waits w) (frames w s) number ebx ecx edx s;
          case c of
            Returned r \<Rightarrow> Some (sint (word_of_int r :: u32), s)
          | _ \<Rightarrow> goes_on w c s }"

definition ece391_halt :: "world \<Rightarrow> u8 \<Rightarrow> kst \<Rightarrow> (int \<times> kst) option" where
  "ece391_halt w status s = do_call w 1 (ucast status) 0 0 s"

definition ece391_execute :: "world \<Rightarrow> nat \<Rightarrow> kst \<Rightarrow> (int \<times> kst) option" where
  "ece391_execute w command s = do_call w 2 (word_of_nat command) 0 0 s"

definition ece391_read :: "world \<Rightarrow> int \<Rightarrow> nat \<Rightarrow> int \<Rightarrow> kst \<Rightarrow> (int \<times> kst) option" where
  "ece391_read w fd buf nbytes s = do_call w 3 (word_of_int fd) (word_of_nat buf) (word_of_int nbytes) s"

definition ece391_write :: "world \<Rightarrow> int \<Rightarrow> nat \<Rightarrow> int \<Rightarrow> kst \<Rightarrow> (int \<times> kst) option" where
  "ece391_write w fd buf nbytes s = do_call w 4 (word_of_int fd) (word_of_nat buf) (word_of_int nbytes) s"

definition ece391_open :: "world \<Rightarrow> nat \<Rightarrow> kst \<Rightarrow> (int \<times> kst) option" where
  "ece391_open w filename s = do_call w 5 (word_of_nat filename) 0 0 s"

definition ece391_close :: "world \<Rightarrow> int \<Rightarrow> kst \<Rightarrow> (int \<times> kst) option" where
  "ece391_close w fd s = do_call w 6 (word_of_int fd) 0 0 s"

definition ece391_getargs :: "world \<Rightarrow> nat \<Rightarrow> int \<Rightarrow> kst \<Rightarrow> (int \<times> kst) option" where
  "ece391_getargs w buf nbytes s = do_call w 7 (word_of_nat buf) (word_of_int nbytes) 0 s"

definition ece391_vidmap :: "world \<Rightarrow> nat \<Rightarrow> kst \<Rightarrow> (int \<times> kst) option" where
  "ece391_vidmap w screen_start s = do_call w 8 (word_of_nat screen_start) 0 0 s"

definition ece391_set_handler :: "world \<Rightarrow> int \<Rightarrow> nat \<Rightarrow> kst \<Rightarrow> (int \<times> kst) option" where
  "ece391_set_handler w signum handler s = do_call w 9 (word_of_int signum) (word_of_nat handler) 0 s"

definition ece391_sigreturn :: "world \<Rightarrow> kst \<Rightarrow> (int \<times> kst) option" where
  "ece391_sigreturn w s = do_call w 10 0 0 0 s"

definition ece391_fdputs :: "world \<Rightarrow> int \<Rightarrow> nat \<Rightarrow> kst \<Rightarrow> kst option" where
  "ece391_fdputs w fd str s =
     do { len \<leftarrow> ece391_strlen (ptr s str);
          (_, s) \<leftarrow> ece391_write w fd str (uint len) s;
          Some s }"

text \<open>\<open>_start\<close>: \<open>main\<close>, then \<open>halt\<close> with what it returned. Where the kernel goes on is not the program any more.\<close>

definition user_start ::
  "world \<Rightarrow> (kst \<Rightarrow> (int \<times> kst) option) \<Rightarrow> kst \<Rightarrow> (control \<times> kst) option" where
  "user_start w main s =
     do { (r, s) \<leftarrow> main s; syscall (waits w) (frames w s) 1 (word_of_int r) 0 0 s }"

lemma do_call_returning:
  "syscall (waits w) (frames w s) n a b c s = returning (Some (r, t)) \<Longrightarrow> - (2 ^ 31) \<le> r \<Longrightarrow> r < 2 ^ 31 \<Longrightarrow>
     do_call w n a b c s = Some (r, t)"
  by (simp add: do_call_def sint_word_of_int_in)

subsection \<open>The calls of a program\<close>

text \<open>Numbers and pointers of a program fit their registers.\<close>

definition fits :: "nat \<Rightarrow> bool" where "fits a \<longleftrightarrow> a < 2 ^ 32"
definition fits_int :: "int \<Rightarrow> bool" where "fits_int n \<longleftrightarrow> - (2 ^ 31) \<le> n \<and> n < 2 ^ 31"

lemma fits_unat: "fits a \<Longrightarrow> unat (word_of_nat a :: u32) = a"
  by (simp add: fits_def unat_of_nat take_bit_eq_mod)

lemma fits_sint: "fits_int n \<Longrightarrow> sint (word_of_int n :: u32) = n"
  by (simp add: fits_int_def sint_word_of_int_in)

lemma read_call:
  assumes "fits_int fd" and "fits buf" and "fits_int n" and "fits_int r"
    and "sys_read (waits w) (frames w s) fd buf n s = Some (r, t)"
  shows "ece391_read w fd buf n s = Some (r, t)"
  unfolding ece391_read_def
  by (rule do_call_returning) (use assms in \<open>auto simp: syscall_def fits_unat fits_sint fits_int_def [of r]\<close>)

lemma write_call:
  assumes "fits_int fd" and "fits buf" and "fits_int n" and "fits_int r"
    and "sys_write fd buf n s = Some (r, t)"
  shows "ece391_write w fd buf n s = Some (r, t)"
  unfolding ece391_write_def
  by (rule do_call_returning) (use assms in \<open>auto simp: syscall_def fits_unat fits_sint fits_int_def [of r]\<close>)

lemma open_call:
  assumes "fits filename" and "fits_int r" and "sys_open (frames w s) (\<lambda>i. kview s (filename + i)) s = Some (r, t)"
  shows "ece391_open w filename s = Some (r, t)"
  unfolding ece391_open_def
  by (rule do_call_returning) (use assms in \<open>auto simp: syscall_def fits_unat fits_int_def [of r]\<close>)

lemma close_call:
  assumes "fits_int fd" and "fits_int r" and "sys_close fd s = Some (r, t)"
  shows "ece391_close w fd s = Some (r, t)"
  unfolding ece391_close_def
  by (rule do_call_returning) (use assms in \<open>auto simp: syscall_def fits_sint fits_int_def [of r]\<close>)

lemma getargs_call:
  assumes "fits buf" and "fits_int n" and "fits_int r" and "getargs buf n s = Some (r, t)"
  shows "ece391_getargs w buf n s = Some (r, t)"
  unfolding ece391_getargs_def
  by (rule do_call_returning) (use assms in \<open>auto simp: syscall_def fits_unat fits_sint fits_int_def [of r]\<close>)

lemma vidmap_call:
  assumes "fits p" and "fits_int r" and "vidmap p s = Some (r, t)"
  shows "ece391_vidmap w p s = Some (r, t)"
  unfolding ece391_vidmap_def
  by (rule do_call_returning) (use assms in \<open>auto simp: syscall_def fits_unat fits_int_def [of r]\<close>)

subsection \<open>A program on display\<close>

text \<open>A program that runs on the terminal on display, with standard output where \<open>execute\<close> put it.\<close>

definition on_show :: "kst \<Rightarrow> bool" where
  "on_show s \<longleftrightarrow> running s \<and> exec_terminal s = active_terminal s \<and> paging_inv (Some (current s)) (pg s) \<and>
     fd_flags (cur_fd s 1) = FD_EXISTS \<and> file_operations_table (cur_fd s 1) = Some Stdout_ops"

text \<open>Bytes in the program's own page.\<close>

definition user_bytes :: "kst \<Rightarrow> nat \<Rightarrow> u8 list \<Rightarrow> bool" where
  "user_bytes s a bs \<longleftrightarrow> OFF_128MB \<le> a \<and> a + length bs \<le> OFF_128MB + OFF_4MB \<and>
     (\<forall>i < length bs. mem s (user_frame (current s) a + i) = bs ! i)"

definition user_room :: "nat \<Rightarrow> nat \<Rightarrow> bool" where
  "user_room a n \<longleftrightarrow> OFF_128MB \<le> a \<and> a + n \<le> OFF_128MB + OFF_4MB"

lemma user_bytes_room: "user_bytes s a bs \<Longrightarrow> user_room a (length bs)"
  by (simp add: user_bytes_def user_room_def)

lemma user_room_less: "user_room a n \<Longrightarrow> k \<le> n \<Longrightarrow> user_room a k"
  by (simp add: user_room_def)

lemma user_room_fits: "user_room a n \<Longrightarrow> fits a \<and> a \<noteq> 0 \<and> fits_int (int n)"
  by (simp add: user_room_def fits_def fits_int_def)

lemma user_room_range: "on_show s \<Longrightarrow> user_room a n \<Longrightarrow> user_range s (current s) a n"
  by (simp add: user_range_def user_room_def on_show_def)

lemma user_bytes_kview:
  assumes "on_show s" and "user_bytes s a bs" and "i < length bs"
  shows "kview s (a + i) = Some (bs ! i)"
  using kview_user [OF user_room_range [OF assms(1) user_bytes_room [OF assms(2)]] assms(3)] assms(2,3)
  by (simp add: user_bytes_def)

lemma user_xlat_room:
  assumes "on_show s" and "user_room a n" and "i < n"
  shows "user_xlat (pg s) (a + i) = Some (user_frame (current s) a + i)"
  using assms walk_process_page [of "current s" "pg s" "a + i"]
  by (simp add: user_xlat_def on_show_def user_room_def user_frame_def)

lemma user_bytes_uview:
  assumes "on_show s" and "user_bytes s a bs" and "i < length bs"
  shows "uview s (a + i) = Some (bs ! i)"
  using user_xlat_room [OF assms(1) user_bytes_room [OF assms(2)] assms(3)] assms(2,3)
  by (simp add: uview_def ld_def user_bytes_def)

lemma user_bytes_cstr:
  assumes "on_show s" and "user_bytes s a (xs @ 0 # ys)" and "0 \<notin> set xs"
  shows "cstr (ptr s a) xs" "cstr (\<lambda>i. kview s (a + i)) xs"
  using user_bytes_uview [OF assms(1,2)] user_bytes_kview [OF assms(1,2)] assms(3)
  by (simp_all add: cstr_def ptr_def nth_append)

subsection \<open>Printing\<close>

definition typed :: "kst \<Rightarrow> u8 list \<Rightarrow> grid" where
  "typed s cs = fold (type_char (tmnl_attrib_2 ! nat (active_terminal s))) cs (screen_of s)"

text \<open>The console has printed \<open>cs\<close>, and nothing else has changed but perhaps the interrupt flag.\<close>

definition prints :: "u8 list \<Rightarrow> kst \<Rightarrow> kst \<Rightarrow> bool" where
  "prints cs s t \<longleftrightarrow> kernel_ok t \<and> console_frame (sti s) (sti t) \<and> screen_of t = typed s cs"

lemma prints_Nil: "kernel_ok s \<Longrightarrow> prints [] s s"
  by (simp add: prints_def typed_def)

lemma prints_fields:
  assumes "prints cs s t"
  shows "active_terminal t = active_terminal s" "exec_terminal t = exec_terminal s" "pg t = pg s"
    "pcb t = pcb s" "fs t = fs s" "fs_image t = fs_image s" "rtc_block t = rtc_block s"
    "a < VIDEO \<or> 0xBC000 \<le> a \<Longrightarrow> mem t a = mem s a"
proof -
  have fr: "console_frame (sti s) (sti t)" using assms by (simp add: prints_def)
  then show "active_terminal t = active_terminal s" "exec_terminal t = exec_terminal s" "pg t = pg s"
    "pcb t = pcb s" "fs t = fs s" "rtc_block t = rtc_block s"
    by (simp_all add: console_frame_def sti_def)
  show "a < VIDEO \<or> 0xBC000 \<le> a \<Longrightarrow> mem t a = mem s a" using fr by (auto simp: console_frame_def sti_def)
  have "fs_image (sti u) = fs_image u" for u by (intro ext) (simp add: fs_image_def sti_def)
  then show "fs_image t = fs_image s" using frame_image [OF fr] by simp
qed

lemma prints_trans:
  assumes "prints cs s t" and "prints ds t u"
  shows "prints (cs @ ds) s u"
proof -
  have "typed t ds = typed s (cs @ ds)"
    using prints_fields(1) [OF assms(1)] assms(1) by (simp add: typed_def prints_def)
  then show ?thesis
    using assms console_frame_trans unfolding prints_def by metis
qed

lemma prints_tmnl:
  assumes "prints cs s t" and "kernel_ok s" and "i < 3"
  shows "no_pos (tmnl_block t ! i) = no_pos (tmnl_block s ! i)"
proof -
  have "map no_pos (tmnl_block t) = map no_pos (tmnl_block s)"
    using assms(1) by (simp add: prints_def console_frame_def sti_def)
  moreover have "length (tmnl_block t) = 3" "length (tmnl_block s) = 3"
    using assms(1,2) by (simp_all add: prints_def kernel_ok_def)
  ultimately show ?thesis using assms(3) by (metis nth_map)
qed

lemma prints_running:
  assumes "prints cs s t" and "running s"
  shows "running t" "current t = current s" "cur_fd t = cur_fd s"
proof -
  note r = runningD [OF assms(2)]
  have e: "nat (exec_terminal s) < 3" using kernel_okD(6,7) [OF r(1)] by simp
  have "active_process (no_pos (tmnl_block t ! nat (exec_terminal s))) =
      active_process (no_pos (tmnl_block s ! nat (exec_terminal s)))"
    by (simp only: prints_tmnl [OF assms(1) r(1) e])
  then have "active_process (tmnl_block t ! nat (exec_terminal s)) = active_process (tmnl_block s ! nat (exec_terminal s))"
    by (simp add: no_pos_def)
  then show "running t" "current t = current s"
    using assms prints_fields(2) [OF assms(1)] by (simp_all add: running_def current_def prints_def)
  then show "cur_fd t = cur_fd s" using prints_fields(4) [OF assms(1)] by (simp add: cur_fd_def fun_eq_iff)
qed

lemma prints_on_show:
  assumes "prints cs s t" and "on_show s"
  shows "on_show t"
  using assms prints_running [OF assms(1)] prints_fields [OF assms(1)] by (simp add: on_show_def)

lemma prints_bytes:
  assumes "prints cs s t" and "running s"
  shows "user_bytes t a bs = user_bytes s a bs"
  using prints_running(2) [OF assms] prints_fields(8) [OF assms(1)]
  by (auto simp: user_bytes_def user_frame_def)

lemma putc_types:
  assumes "kernel_ok s" and "active_terminal s = exec_terminal s" and "c \<noteq> BACKSPACE"
  shows "\<exists>t. putc c s = Some t \<and> kernel_ok t \<and> console_frame s t \<and> screen_of t = typed s [c]"
proof -
  obtain t where "putc c s = Some t" "screen_ready t" "console_frame s t" "screen_of t = typed s [c]"
    using putc_active_step [OF kernel_ok_ready [OF assms(1)], of c] assms(2,3)
    by (auto simp: putc_def console_step_def typed_def)
  then show ?thesis using frame_kernel_ok [OF assms(1)] by blast
qed

lemma putc_loop_types:
  assumes "kernel_ok s" and "active_terminal s = exec_terminal s" and "BACKSPACE \<notin> set cs"
    and "for_each cs putc s = Some t"
  shows "screen_of t = typed s cs"
  using assms
proof (induction cs arbitrary: s)
  case Nil
  then show ?case by (simp add: typed_def)
next
  case (Cons c cs)
  then obtain s1 where s1: "putc c s = Some s1" "kernel_ok s1" "console_frame s s1" "screen_of s1 = typed s [c]"
    using putc_types by fastforce
  have same: "active_terminal s1 = active_terminal s" "exec_terminal s1 = exec_terminal s"
    using s1(3) by (simp_all add: console_frame_def)
  with Cons s1 have "screen_of t = typed s1 cs" by simp
  also have "\<dots> = typed s (c # cs)" using s1(4) same by (simp add: typed_def)
  finally show ?case .
qed

lemma write_prints:
  assumes "on_show s" and "user_bytes s a cs" and "BACKSPACE \<notin> set cs"
  shows "\<exists>t. ece391_write w 1 a (int (length cs)) s = Some (int (length cs), t) \<and> prints cs s t"
proof -
  have run: "running s" using assms(1) by (simp add: on_show_def)
  note ok = runningD(1) [OF run]
  note room = user_room_fits [OF user_bytes_room [OF assms(2)]]
  obtain t where t: "for_each cs putc (cli s) = Some t" "kernel_ok t" "console_frame (cli s) t"
    "terminal_write a (int (length cs)) s = Some (int (length cs), sti t)"
    using terminal_write_prints [OF ok user_room_range [OF assms(1) user_bytes_room [OF assms(2)]]]
      user_bytes_kview [OF assms(1,2)] room by blast
  have "screen_of t = typed (cli s) cs"
    using assms(1) by (intro putc_loop_types [OF _ _ assms(3) t(1)]) (simp_all add: ok on_show_def cli_def)
  then have "prints cs s (sti t)"
    using t(2,3) by (simp add: prints_def console_frame_def typed_def screen_of_def cli_def sti_def)
  moreover have "sys_write 1 a (int (length cs)) s = terminal_write a (int (length cs)) s"
    using cur_fd_get [OF run, of 1] assms(1) room by (simp add: sys_write_def ops_write_def on_show_def)
  ultimately show ?thesis
    using t(4) room write_call [of 1 a "int (length cs)" "int (length cs)" s "sti t" w] by (auto simp: fits_int_def)
qed

text \<open>A string of the program.\<close>

definition user_string :: "kst \<Rightarrow> nat \<Rightarrow> u8 list \<Rightarrow> bool" where
  "user_string s a xs \<longleftrightarrow> user_bytes s a (xs @ [0]) \<and> 0 \<notin> set xs"

lemma user_bytes_append: "user_bytes s a (xs @ ys) \<Longrightarrow> user_bytes s a xs"
  by (auto simp: user_bytes_def nth_append split: if_splits)

lemma fdputs_prints:
  assumes "on_show s" and "user_string s a xs" and "BACKSPACE \<notin> set xs"
  shows "\<exists>t. ece391_fdputs w 1 a s = Some t \<and> prints xs s t"
proof -
  have b: "user_bytes s a (xs @ [0])" "user_bytes s a xs" "0 \<notin> set xs"
    using assms(2) user_bytes_append by (auto simp: user_string_def)
  have len: "uint (word_of_nat (length xs) :: u32) = int (length xs)"
    using user_bytes_room [OF b(2)] by (simp add: user_room_def unsigned_of_nat take_bit_eq_mod)
  have "cstr (ptr s a) xs" using user_bytes_cstr(1) [OF assms(1) _ b(3), of a "[]"] b(1) by simp
  then show ?thesis
    using write_prints [OF assms(1) b(2) assms(3), of w] len
    by (auto simp: ece391_fdputs_def ece391_strlen_cstr)
qed

lemma prints_string: "prints cs s t \<Longrightarrow> running s \<Longrightarrow> user_string t a xs = user_string s a xs"
  by (simp add: user_string_def prints_bytes)

end
