(* ===== verification/User_Output.thy ===== *)
theory User_Output
  imports User_Calls
begin

text \<open>
  How the properties of user programs are composed. \<open>emits A cs s t\<close> says that between the states
  \<open>s\<close> and \<open>t\<close> a program has printed the bytes \<open>cs\<close> and has changed nothing outside the physical
  addresses \<open>A\<close> of its own arrays, the video memory, and the descriptors and arguments of processes;
  the clients of the clock are the same. Printing, storing into an
  array, opening a file and reading it are such steps, and steps compose.
\<close>

definition same_block :: "pb \<Rightarrow> pb \<Rightarrow> bool" where
  "same_block p q \<longleftrightarrow> q\<lparr>fd_table := [], argument := []\<rparr> = p\<lparr>fd_table := [], argument := []\<rparr>"

definition emits :: "nat set \<Rightarrow> u8 list \<Rightarrow> kst \<Rightarrow> kst \<Rightarrow> bool" where
  "emits A cs s t \<longleftrightarrow>
     on_show s \<and> on_show t \<and> screen_of t = typed s cs \<and>
     current t = current s \<and> active_terminal t = active_terminal s \<and> pg t = pg s \<and>
     fs t = fs s \<and> fs_image t = fs_image s \<and> map client (rtc_block t) = map client (rtc_block s) \<and>
     (\<forall>q. q \<noteq> current s \<longrightarrow> pcb t ! q = pcb s ! q) \<and> same_block (pcb s ! current s) (pcb t ! current s) \<and>
     (\<forall>a. (a < VIDEO \<or> 0xBC000 \<le> a) \<and> a \<notin> A \<longrightarrow> mem t a = mem s a)"

text \<open>The physical addresses of an array of the program.\<close>

definition array_at :: "nat \<Rightarrow> nat \<Rightarrow> nat \<Rightarrow> nat set" where
  "array_at pid a n = {user_frame pid a..<user_frame pid a + n}"

lemma emitsD:
  assumes "emits A cs s t"
  shows "on_show s" "on_show t" "screen_of t = typed s cs" "current t = current s"
    "active_terminal t = active_terminal s" "pg t = pg s" "fs t = fs s" "fs_image t = fs_image s"
  using assms by (simp_all add: emits_def)

lemma emits_blocks:
  "emits A cs s t \<Longrightarrow> same_block (pcb s ! current s) (pcb t ! current s) \<and> (\<forall>q. q \<noteq> current s \<longrightarrow> pcb t ! q = pcb s ! q)"
  by (simp add: emits_def)

lemma same_block_refl [simp]: "same_block p p"
  by (simp add: same_block_def)

lemma emits_refl: "on_show s \<Longrightarrow> emits A [] s s"
  by (simp add: emits_def typed_def)

lemma emits_trans:
  assumes "emits A cs s t" and "emits A ds t u"
  shows "emits A (cs @ ds) s u"
proof -
  have "typed t ds = typed s (cs @ ds)"
    using emitsD(3,5) [OF assms(1)] by (simp add: typed_def)
  then show ?thesis using assms by (auto simp: emits_def same_block_def)
qed

lemma emits_mono: "emits A cs s t \<Longrightarrow> A \<subseteq> B \<Longrightarrow> emits B cs s t"
  by (auto simp: emits_def)

lemma on_show_running: "on_show s \<Longrightarrow> running s"
  by (simp add: on_show_def)

lemma prints_emits:
  assumes "prints cs s t" and "on_show s"
  shows "emits A cs s t"
  using assms prints_on_show [OF assms] prints_running [OF assms(1) on_show_running [OF assms(2)]]
    prints_fields [OF assms(1)]
  by (simp add: emits_def prints_def)

subsection \<open>Stores\<close>

definition put_user :: "nat \<Rightarrow> u8 list \<Rightarrow> kst \<Rightarrow> kst" where
  "put_user a bs s = s\<lparr>mem := poke (user_frame (current s) a) bs (mem s)\<rparr>"

lemma screen_of_high:
  "(\<And>a. a < 0xBC000 \<Longrightarrow> m a = mem s a) \<Longrightarrow> screen_of (s\<lparr>mem := m\<rparr>) = screen_of s"
  by (simp add: screen_of_def cells_at_def)

lemma put_user_emits:
  assumes "on_show s" and "user_room a (length bs)" and "array_at (current s) a (length bs) \<subseteq> A"
  shows "emits A [] s (put_user a bs s)"
proof -
  let ?m = "poke (user_frame (current s) a) bs (mem s)"
  have hi: "0x800000 \<le> user_frame (current s) a" by (simp add: user_frame_def)
  have "screen_of (s\<lparr>mem := ?m\<rparr>) = screen_of s"
    using hi by (intro screen_of_high) (simp add: poke_def)
  moreover have "fs_image (s\<lparr>mem := ?m\<rparr>) = fs_image s"
    using hi by (auto simp: fs_image_def poke_def fun_eq_iff)
  ultimately show ?thesis
    using assms by (auto simp: emits_def put_user_def on_show_def typed_def poke_def array_at_def)
qed

lemma put_user_bytes: "user_room a (length bs) \<Longrightarrow> user_bytes (put_user a bs s) a bs"
  by (simp add: user_bytes_def user_room_def put_user_def poke_def)

lemma put_user_fields [simp]:
  "cur_fd (put_user a bs s) = cur_fd s" "pcb (put_user a bs s) = pcb s" "current (put_user a bs s) = current s"
  by (simp_all add: put_user_def)

lemma user_store_eq:
  assumes "on_show s" and "user_room a (Suc i)"
  shows "user_store (a + i) b s = Some (put_user (a + i) [b] s)"
proof -
  have "user_frame (current s) a + i = user_frame (current s) (a + i)"
    using assms(2) by (simp add: user_frame_def user_room_def)
  then show ?thesis
    using user_xlat_room [OF assms, of i] poke_Cons [of _ "[]" "mem s" b]
    by (simp add: user_store_def st_def put_user_def)
qed

text \<open>Data outside the arrays that are written stays.\<close>

lemma emits_bytes:
  assumes "emits A cs s t" and "user_bytes s a bs" and "array_at (current s) a (length bs) \<inter> A = {}"
  shows "user_bytes t a bs"
proof -
  have "mem t (user_frame (current s) a + i) = mem s (user_frame (current s) a + i)" if "i < length bs" for i
  proof -
    have "user_frame (current s) a + i \<notin> A" using assms(3) that by (auto simp: array_at_def disjoint_iff)
    then show ?thesis using assms(1) by (simp add: emits_def user_frame_def)
  qed
  then show ?thesis using assms(2) emitsD(4) [OF assms(1)] by (simp add: user_bytes_def)
qed

lemma emits_string:
  "emits A cs s t \<Longrightarrow> user_string s a xs \<Longrightarrow> array_at (current s) a (Suc (length xs)) \<inter> A = {} \<Longrightarrow> user_string t a xs"
  using emits_bytes [of A cs s t a "xs @ [0]"] by (simp add: user_string_def)

subsection \<open>Descriptors\<close>

lemma put_fd_emits:
  assumes "on_show s" and "2 \<le> i" and "fd_flags d \<noteq> FD_ABSENT \<longrightarrow> file_operations_table d \<noteq> None"
  shows "emits A [] s (put_fd i d s)"
proof -
  note p = put_fd [OF on_show_running [OF assms(1)] assms(3), where i = i]
  have "same_block (pcb s ! current s) (pcb (put_fd i d s) ! current s)"
    "\<forall>q. q \<noteq> current s \<longrightarrow> pcb (put_fd i d s) ! q = pcb s ! q"
    using runningD [OF on_show_running [OF assms(1)]] by (simp_all add: put_fd_def same_block_def kernel_okD(2))
  moreover have "cur_fd (put_fd i d s) 1 = cur_fd s 1" using p(4) assms(2) by simp
  moreover have "active_terminal (put_fd i d s) = active_terminal s" "exec_terminal (put_fd i d s) = exec_terminal s"
    "screen_of (put_fd i d s) = screen_of s" "rtc_block (put_fd i d s) = rtc_block s"
    by (simp_all add: put_fd_def screen_of_def)
  ultimately show ?thesis
    using assms(1) p(1,2) by (simp add: emits_def on_show_def typed_def)
qed

lemma set_position_put_fd: "set_position i p s = put_fd i ((cur_fd s i)\<lparr>file_position := p\<rparr>) s"
  by (simp add: set_position_def put_fd_def)

lemma emits_reading:
  assumes "emits A cs s t" and "reading s fdn bytes" and "cur_fd t fdn = cur_fd s fdn"
  shows "reading t fdn bytes"
  using assms on_show_running [OF emitsD(2) [OF assms(1)]] emitsD(7,8) [OF assms(1)] by (simp add: reading_def)

text \<open>A descriptor a program has open on a file with the content \<open>bytes\<close>.\<close>

definition open_file :: "kst \<Rightarrow> nat \<Rightarrow> u8 list \<Rightarrow> bool" where
  "open_file s fdn bytes \<longleftrightarrow> 2 \<le> fdn \<and> reading s fdn bytes \<and> file_operations_table (cur_fd s fdn) = Some File_ops"

definition position :: "kst \<Rightarrow> nat \<Rightarrow> nat" where
  "position s fdn = unat (file_position (cur_fd s fdn))"

lemma sys_read_table:
  assumes "on_show s" and "fdn < 8" and "buf \<noteq> 0" and "fd_flags (cur_fd s fdn) \<noteq> FD_ABSENT"
    and "file_operations_table (cur_fd s fdn) = Some table"
  shows "sys_read env fr (int fdn) buf n s = ops_read env (frame_dentry fr) table fdn buf n s"
  using cur_fd_get [OF on_show_running [OF assms(1)] assms(2)] assms(2-5) by (simp add: sys_read_def)

lemma read_file_call:
  assumes "on_show s" and "open_file s fdn bytes" and "user_room buf n"
    and "array_at (current s) buf n \<subseteq> A" and "part = take n (drop (position s fdn) bytes)"
  shows "\<exists>t. ece391_read w (int fdn) buf (int n) s = Some (int (length part), t) \<and> emits A [] s t \<and>
     open_file t fdn bytes \<and> user_bytes t buf part \<and> position t fdn = position s fdn + length part \<and>
     (\<forall>i < 8. i \<noteq> fdn \<longrightarrow> cur_fd t i = cur_fd s i)"
proof -
  note o = assms(2) [unfolded open_file_def]
  have fdn: "fdn < 8" and flags: "fd_flags (cur_fd s fdn) = FD_EXISTS" using o by (simp_all add: reading_def)
  have le: "length part \<le> n" by (simp add: assms(5))
  have room: "user_room buf (length part)" by (rule user_room_less [OF assms(3) le])
  have n: "n < 2 ^ 31" using user_room_fits [OF assms(3)] by (simp add: fits_int_def)
  let ?u = "put_user buf part s"
  let ?d = "(cur_fd s fdn)\<lparr>file_position := file_position (cur_fd s fdn) + word_of_nat (length part)\<rparr>"
  let ?t = "put_fd fdn ?d ?u"
  have sub: "array_at (current s) buf (length part) \<subseteq> A" using le assms(4) by (auto simp: array_at_def)
  have eu: "emits A [] s ?u" by (rule put_user_emits [OF assms(1) room sub])
  have d: "fd_flags ?d \<noteq> FD_ABSENT \<longrightarrow> file_operations_table ?d \<noteq> None" using o by simp
  have "emits A [] ?u ?t" by (rule put_fd_emits [OF emitsD(2) [OF eu] _ d]) (use o in simp)
  then have et: "emits A [] s ?t" using emits_trans [OF eu] by fastforce
  have part': "part = take (nat (int n)) (drop (unat (file_position (cur_fd s fdn))) bytes)"
    using assms(5) by (simp add: position_def)
  have word: "unat (word_of_int (int n) :: u32) = n" using n by (simp add: unat_of_nat take_bit_eq_mod)
  have t: "file_read fdn buf (int n) s = Some (int (length part), ?t)"
    using file_read_eq [of s fdn bytes part "int n" "current s" buf] o reading_position [of s fdn bytes] word assms(5)
      user_room_range [OF assms(1) room]
    by (simp add: reading_def position_def set_position_put_fd put_user_def)
  obtain t' where t': "file_read fdn buf (int n) s = Some (int (length part), t')" "reading t' fdn bytes"
    "unat (file_position (cur_fd t' fdn)) = unat (file_position (cur_fd s fdn)) + length part"
    using file_read_step [OF _ _ _ part' user_room_range [OF assms(1) room]] o n by auto
  note p = put_fd [OF on_show_running [OF emitsD(2) [OF eu]] d, where i = fdn]
  have "ece391_read w (int fdn) buf (int n) s = Some (int (length part), ?t)"
  proof (rule read_call)
    show "sys_read (waits w) (frames w s) (int fdn) buf (int n) s = Some (int (length part), ?t)"
      using sys_read_table [OF assms(1) fdn, of buf File_ops] user_room_fits [OF assms(3)] flags o t
      by (simp add: ops_read_def)
  qed (use fdn user_room_fits [OF assms(3)] user_room_fits [OF room] in \<open>auto simp: fits_int_def\<close>)
  moreover have "open_file ?t fdn bytes \<and> position ?t fdn = position s fdn + length part"
    using t t' p(3) fdn o by (simp add: open_file_def position_def)
  moreover have "user_bytes ?t buf part"
    using put_user_bytes [OF room, of s] p(2) by (simp add: user_bytes_def)
  ultimately show ?thesis using et p(4) by auto
qed

subsection \<open>Opening\<close>

text \<open>The frames of the calls have a directory entry of the right size.\<close>

definition frames_ok :: "world \<Rightarrow> bool" where
  "frames_ok w \<longleftrightarrow> (\<forall>s. length (file_name (frame_dentry (frames w s))) = FNAME_SIZE)"

definition fresh_fd :: "dentry \<Rightarrow> fd" where
  "fresh_fd cur = \<lparr>file_operations_table = Some (fileops_table ! unat (file_type cur)),
     inode = inode_num cur, file_position = 0, fd_flags = FD_EXISTS\<rparr>"

definition free_fd :: "kst \<Rightarrow> nat option" where
  "free_fd s = find (\<lambda>i. fd_flags (cur_fd s i) = FD_ABSENT) [2..<8]"

lemma free_fdD: "free_fd s = Some i \<Longrightarrow> 2 \<le> i \<and> i < 8 \<and> fd_flags (cur_fd s i) = FD_ABSENT"
  using find_upt_Some [of "\<lambda>i. fd_flags (cur_fd s i) = FD_ABSENT" 2 8 i] by (simp add: free_fd_def)

lemma free_fdI: "2 \<le> i \<Longrightarrow> i < 8 \<Longrightarrow> fd_flags (cur_fd s i) = FD_ABSENT \<Longrightarrow> free_fd s \<noteq> None"
  unfolding free_fd_def find_None_iff by (metis atLeastLessThan_iff set_upt)

lemma user_string_cstr:
  assumes "on_show s" and "user_string s a xs"
  shows "cstr (ptr s a) xs" "cstr (\<lambda>i. kview s (a + i)) xs"
  using user_bytes_cstr [OF assms(1), of a xs "[]"] assms(2) by (simp_all add: user_string_def)

lemma user_string_fits: "user_string s a xs \<Longrightarrow> fits a"
  using user_room_fits [OF user_bytes_room] by (auto simp: user_string_def)

lemma open_entry_call:
  assumes "on_show s" and "user_string s a nm" and "frames_ok w" and "dir_ok (fs_image s) (fs s) ds"
    and "find (\<lambda>d. dentry_name d = nm) ds = Some cur" and "file_type cur \<in> {1, 2}"
  shows "ece391_open w a s = (case free_fd s of None \<Rightarrow> Some (-1, s) | Some i \<Rightarrow> Some (int i, put_fd i (fresh_fd cur) s))"
proof -
  have sys: "sys_open (frames w s) (\<lambda>i. kview s (a + i)) s =
      (case free_fd s of None \<Rightarrow> Some (-1, s) | Some i \<Rightarrow> Some (int i, put_fd i (fresh_fd cur) s))"
    using sys_open_file [OF on_show_running [OF assms(1)] assms(4) user_string_cstr(2) [OF assms(1,2)] _ assms(5,6),
        folded fresh_fd_def free_fd_def] assms(3)
    by (simp add: frames_ok_def)
  show ?thesis
  proof (cases "free_fd s")
    case None
    then show ?thesis using open_call [of a "-1" w s s] sys user_string_fits [OF assms(2)] by (simp add: fits_int_def)
  next
    case (Some i)
    then show ?thesis
      using open_call [of a "int i" w s "put_fd i (fresh_fd cur) s"] sys user_string_fits [OF assms(2)] free_fdD [OF Some]
      by (simp add: fits_int_def)
  qed
qed

lemma find_missing: "nm \<notin> dentry_name ` set ds \<Longrightarrow> find (\<lambda>d. dentry_name d = nm) ds = None"
  unfolding find_None_iff by (blast intro: image_eqI [OF sym])

lemma open_missing_call:
  assumes "on_show s" and "user_string s a nm" and "frames_ok w" and "dir_ok (fs_image s) (fs s) ds"
    and "find (\<lambda>d. dentry_name d = nm) ds = None"
  shows "ece391_open w a s = Some (-1, s)"
proof -
  have "sys_open (frames w s) (\<lambda>i. kview s (a + i)) s = Some (-1, s)"
    using find_name [OF on_show_running [OF assms(1)] assms(4) user_string_cstr(2) [OF assms(1,2)],
        of "frame_dentry (frames w s)"] assms(3,5)
    by (simp add: sys_open_def frames_ok_def)
  then show ?thesis using open_call [of a "-1" w s s] user_string_fits [OF assms(2)] by (simp add: fits_int_def)
qed

lemma open_fd_step:
  assumes "on_show s" and "free_fd s = Some i" and "file_type cur \<in> {1, 2}"
  shows "emits A [] s (put_fd i (fresh_fd cur) s)"
    "cur_fd (put_fd i (fresh_fd cur) s) i = fresh_fd cur"
    "j < 8 \<Longrightarrow> j \<noteq> i \<Longrightarrow> cur_fd (put_fd i (fresh_fd cur) s) j = cur_fd s j"
  using free_fdD [OF assms(2)] put_fd_emits [OF assms(1), of i "fresh_fd cur"]
    put_fd [OF on_show_running [OF assms(1)], of "fresh_fd cur"]
  by (simp_all add: fresh_fd_def)

text \<open>A file of the directory and its content.\<close>

definition named_file :: "kst \<Rightarrow> dentry list \<Rightarrow> u8 list \<Rightarrow> dentry \<Rightarrow> u8 list \<Rightarrow> bool" where
  "named_file s ds nm cur bytes \<longleftrightarrow> dir_ok (fs_image s) (fs s) ds \<and>
     find (\<lambda>d. dentry_name d = nm) ds = Some cur \<and> file_type cur = 2 \<and>
     file_ok (fs_image s) (fs s) (unat (inode_num cur)) bytes \<and> length bytes < INODE_DB * BLOCK_SIZE"

lemma open_file_call:
  assumes "on_show s" and "user_string s a nm" and "frames_ok w" and "named_file s ds nm cur bytes"
    and "free_fd s = Some i"
  shows "\<exists>t. ece391_open w a s = Some (int i, t) \<and> emits A [] s t \<and> open_file t i bytes \<and> position t i = 0 \<and>
     (\<forall>j < 8. j \<noteq> i \<longrightarrow> cur_fd t j = cur_fd s j)"
proof -
  let ?t = "put_fd i (fresh_fd cur) s"
  note f = assms(4) [unfolded named_file_def]
  have ty: "file_type cur \<in> {1, 2}" using f by simp
  note o = open_fd_step [OF assms(1,5) ty]
  have "open_file ?t i bytes"
    using f free_fdD [OF assms(5)] o(2) on_show_running [OF emitsD(2) [OF o(1)]] emitsD(7,8) [OF o(1)]
    by (simp add: open_file_def reading_def fresh_fd_def fileops_table_def)
  then show ?thesis
    using open_entry_call [OF assms(1-3) _ _ ty] f o assms(5) by (auto simp: position_def fresh_fd_def)
qed

subsection \<open>Arguments\<close>

text \<open>The argument \<open>execute\<close> left for the running program, with its parent.\<close>

definition has_argument :: "kst \<Rightarrow> u8 list \<Rightarrow> bool" where
  "has_argument s arg \<longleftrightarrow> (\<exists>par < 6. parent (pcb s ! current s) = int par \<and> cstr (lrd (argument (pcb s ! par))) arg)"

lemma getargs_step:
  assumes "on_show s" and "has_argument s arg" and "n = 1024" and "user_room buf n"
    and "array_at (current s) buf n \<subseteq> A"
  shows "if arg = [] then ece391_getargs w buf (int n) s = Some (-1, s)
    else \<exists>t. ece391_getargs w buf (int n) s = Some (0, t) \<and> emits A [] s t \<and>
      user_string t buf (first_line 128 arg) \<and> cur_fd t = cur_fd s \<and> pcb t = pcb s"
proof -
  let ?xs = "first_line 128 arg"
  obtain par where par: "par < 6" "parent (pcb s ! current s) = int par" "cstr (lrd (argument (pcb s ! par))) arg"
    using assms(2) by (auto simp: has_argument_def)
  have len: "length ?xs \<le> 128"
    using length_takeWhile_le [of "\<lambda>c. c \<noteq> 0x0A" "take 128 arg"] by (simp add: first_line_def)
  have zero: "0 \<notin> set ?xs"
    using par(3) by (auto simp: first_line_def cstr_def dest!: set_takeWhileD in_set_takeD)
  have room: "user_room buf (length (?xs @ [0]))" using user_room_less [OF assms(4)] len assms(3) by simp
  note fits = user_room_fits [OF assms(4)]
  have eq: "getargs buf (int n) s = (if arg = [] then Some (-1, s) else Some (0, put_user buf (?xs @ [0]) s))"
    using getargs_eq [OF on_show_running [OF assms(1)] par(2,1,3), of buf "int n" ?xs "current s"] fits
      user_room_range [OF assms(1) room] assms(3)
    by (simp add: put_user_def)
  show ?thesis
  proof (cases "arg = []")
    case True
    then show ?thesis using eq fits getargs_call [of buf "int n" "-1" s s w] by (simp add: fits_int_def)
  next
    case False
    have "array_at (current s) buf (length (?xs @ [0])) \<subseteq> A" using assms(3,5) len by (auto simp: array_at_def)
    then have "emits A [] s (put_user buf (?xs @ [0]) s)" by (rule put_user_emits [OF assms(1) room])
    then show ?thesis
      using eq fits getargs_call [of buf "int n" 0 s _ w] put_user_bytes [OF room, of s] zero False
      by (auto simp: fits_int_def user_string_def)
  qed
qed

subsection \<open>The end of a program\<close>

text \<open>A program on display that was started by another one.\<close>

definition child :: "kst \<Rightarrow> bool" where
  "child s \<longleftrightarrow> on_show s \<and> \<not> pcb_free (pcb s) (current s) \<and>
     (\<exists>p < 6. p \<noteq> current s \<and> parent (pcb s ! current s) = int p)"

text \<open>
  The program has printed \<open>cs\<close> and ended: the \<open>execute\<close> that started it returns \<open>r\<close>, its parent runs
  again in its own page and on the same terminal, with its descriptors from 2 on closed (see
  \<open>halt_closes_parent_files\<close>), its slot is free, and no memory but the video pages and \<open>A\<close> has changed.
\<close>

definition leaves :: "nat set \<Rightarrow> u32 \<Rightarrow> u8 list \<Rightarrow> kst \<Rightarrow> (control \<times> kst) option \<Rightarrow> bool" where
  "leaves A r cs s res \<longleftrightarrow> (\<exists>u.
     res = Some (Halt_return r (stack_ptr (pcb s ! current s)) (base_ptr (pcb s ! current s)), u) \<and>
     running u \<and> int (current u) = parent (pcb s ! current s) \<and> paging_inv (Some (current u)) (pg u) \<and>
     pcb_free (pcb u) (current s) \<and> screen_of u = typed s cs \<and> fs u = fs s \<and> fs_image u = fs_image s \<and>
     exec_terminal u = exec_terminal s \<and> active_terminal u = active_terminal s \<and>
     pcb u ! current u = (pcb s ! current u)\<lparr>fd_table := closed_from 2 8 (fd_table (pcb s ! current u))\<rparr> \<and>
     (\<forall>q. q \<noteq> current s \<and> q \<noteq> current u \<longrightarrow> pcb u ! q = pcb s ! q) \<and>
     (\<forall>a. (a < VIDEO \<or> 0xBC000 \<le> a) \<and> a \<notin> A \<longrightarrow> mem u a = mem s a))"

lemma child_on_show: "child s \<Longrightarrow> on_show s"
  by (simp add: child_def)

lemma same_blockD:
  assumes "same_block p q"
  shows "parent q = parent p" "stack_ptr q = stack_ptr p" "base_ptr q = base_ptr p" "pb_flags q = pb_flags p"
  using assms by (cases q; cases p; simp add: same_block_def)+

lemma program_ends:
  assumes "child s" and "main s = Some (r, t)" and "emits A cs s t"
  shows "leaves A (ucast (word_of_int r :: u8)) cs s (user_start w main s)"
proof -
  note e = emitsD [OF assms(3)] and b = same_blockD [OF conjunct1 [OF emits_blocks [OF assms(3)]]]
  obtain p where p: "p < 6" "p \<noteq> current s" "parent (pcb s ! current s) = int p"
    using assms(1) by (auto simp: child_def)
  have free: "\<not> pcb_free (pcb t) (current t)" using assms(1) b(4) e(4) by (simp add: child_def pcb_free_def)
  have par: "parent (pcb t ! current t) = int p" using b(1) p(3) e(4) by simp
  obtain u where u: "halt (word_of_int r) t = Some (Halt_return (ucast (word_of_int r :: u8))
      (stack_ptr (pcb t ! current t)) (base_ptr (pcb t ! current t)), u)" "halted (current t) p t u"
    using halt_ok [OF on_show_running [OF e(2)] par p(1) _ free] p(2) e(4) by auto
  have low: "(ucast (word_of_int r :: u32) :: u8) = word_of_int r" by transfer (simp add: take_bit_take_bit)
  have "fs_image u = fs_image t" by (intro ext) (use u(2) in \<open>simp add: halted_def fs_image_def\<close>)
  moreover have "screen_of u = screen_of t" using u(2) by (simp add: halted_def screen_of_def)
  moreover have "exec_terminal t = exec_terminal s" using e(1,2,5) by (simp add: on_show_def)
  moreover have "pcb t ! p = pcb s ! p" "\<forall>q. q \<noteq> current s \<longrightarrow> pcb t ! q = pcb s ! q"
    using emits_blocks [OF assms(3)] p(2) by simp_all
  moreover have "\<forall>a. (a < VIDEO \<or> 0xBC000 \<le> a) \<and> a \<notin> A \<longrightarrow> mem u a = mem s a"
    using u(2) assms(3) by (simp add: halted_def emits_def)
  moreover have "user_start w main s = Some (Halt_return (ucast (word_of_int r :: u8))
      (stack_ptr (pcb s ! current s)) (base_ptr (pcb s ! current s)), u)"
    using u(1) assms(2) b(2,3) e(4) low by (simp add: user_start_def syscall_def)
  ultimately show ?thesis
    using u(2) p(3) e(3-5,7,8) unfolding leaves_def halted_def by (intro exI [of _ u]) simp
qed

subsection \<open>Texts of a program\<close>

lemma puts_emits:
  assumes "on_show s" and "user_string s a xs" and "BACKSPACE \<notin> set xs"
  shows "\<exists>t. ece391_fdputs w 1 a s = Some t \<and> emits A xs s t \<and> cur_fd t = cur_fd s"
  using fdputs_prints [OF assms, of w] prints_emits [OF _ assms(1)] prints_running(3) [OF _ on_show_running [OF assms(1)]]
  by blast

text \<open>The string literals of a program, which lie apart from the arrays \<open>A\<close> it writes.\<close>

definition literals :: "world \<Rightarrow> nat set \<Rightarrow> string list \<Rightarrow> kst \<Rightarrow> bool" where
  "literals w A txts s \<longleftrightarrow> (\<forall>x \<in> set txts. user_string s (lit w x) (bytes_of x) \<and>
     array_at (current s) (lit w x) (Suc (length x)) \<inter> A = {} \<and> BACKSPACE \<notin> set (bytes_of x))"

lemma literals_emits:
  assumes "emits A cs s t" and "literals w A txts s"
  shows "literals w A txts t"
  using assms emits_string [OF assms(1)] emitsD(4) [OF assms(1)] by (simp add: literals_def)

lemma puts_lit:
  assumes "emits A cs s t" and "literals w A txts s" and "x \<in> set txts"
  shows "\<exists>u. ece391_fdputs w 1 (lit w x) t = Some u \<and> emits A (cs @ bytes_of x) s u \<and> cur_fd u = cur_fd t"
proof -
  have "user_string t (lit w x) (bytes_of x)" "BACKSPACE \<notin> set (bytes_of x)"
    using literals_emits [OF assms(1,2)] assms(3) by (simp_all add: literals_def)
  then show ?thesis using puts_emits [OF emitsD(2) [OF assms(1)], of "lit w x" "bytes_of x" w A] emits_trans [OF assms(1)]
    by blast
qed

text \<open>Storing one byte behind those of an array.\<close>

lemma store_next:
  assumes "on_show s" and "user_bytes s buf xs" and "user_room buf (Suc (length xs))"
    and "array_at (current s) buf (Suc (length xs)) \<subseteq> A"
  shows "\<exists>t. user_store (buf + length xs) b s = Some t \<and> emits A [] s t \<and> user_bytes t buf (xs @ [b]) \<and>
     cur_fd t = cur_fd s"
proof -
  let ?t = "put_user (buf + length xs) [b] s"
  have room: "user_room (buf + length xs) (length [b])" using assms(3) by (simp add: user_room_def)
  have fr: "user_frame (current s) (buf + length xs) = user_frame (current s) buf + length xs"
    using assms(3) by (simp add: user_frame_def user_room_def)
  have "array_at (current s) (buf + length xs) (length [b]) \<subseteq> A" using assms(4) by (auto simp: array_at_def fr)
  then have "emits A [] s ?t" by (rule put_user_emits [OF assms(1) room])
  moreover have "user_bytes ?t buf (xs @ [b])"
    using assms(2,3) by (auto simp: user_bytes_def put_user_def poke_def fr nth_append user_room_def less_Suc_eq)
  ultimately show ?thesis using user_store_eq [OF assms(1,3)] by simp
qed

subsection \<open>Reading the directory\<close>

definition open_dir :: "kst \<Rightarrow> nat \<Rightarrow> bool" where
  "open_dir s fdn \<longleftrightarrow> 2 \<le> fdn \<and> fdn < 8 \<and> fd_flags (cur_fd s fdn) = FD_EXISTS \<and>
     file_operations_table (cur_fd s fdn) = Some Dir_ops"

lemma open_dir_call:
  assumes "on_show s" and "user_string s a nm" and "frames_ok w" and "dir_ok (fs_image s) (fs s) ds"
    and "find (\<lambda>d. dentry_name d = nm) ds = Some cur" and "file_type cur = 1" and "free_fd s = Some i"
  shows "\<exists>t. ece391_open w a s = Some (int i, t) \<and> emits A [] s t \<and> open_dir t i \<and> position t i = 0 \<and>
     (\<forall>j < 8. j \<noteq> i \<longrightarrow> cur_fd t j = cur_fd s j)"
proof -
  have ty: "file_type cur \<in> {1, 2}" using assms(6) by simp
  note o = open_fd_step [OF assms(1,7) ty]
  have "open_dir (put_fd i (fresh_fd cur) s) i" "position (put_fd i (fresh_fd cur) s) i = 0"
    using free_fdD [OF assms(7)] o(2) assms(6) by (simp_all add: open_dir_def position_def fresh_fd_def fileops_table_def)
  then show ?thesis using open_entry_call [OF assms(1-5) ty] assms(7) o by auto
qed

lemma dir_call:
  assumes "on_show s" and "open_dir s fdn" and "fits buf" and "buf \<noteq> 0" and "fits_int n" and "fits_int r"
    and "dir_read (frame_dentry (frames w s)) fdn buf s = Some (r, t)"
  shows "ece391_read w (int fdn) buf n s = Some (r, t)"
  using assms sys_read_table [OF assms(1), of fdn buf Dir_ops "waits w" "frames w s" n]
  by (intro read_call) (auto simp: open_dir_def ops_read_def fits_int_def)

lemma read_dir_call:
  assumes "on_show s" and "open_dir s fdn" and "frames_ok w" and "dir_ok (fs_image s) (fs s) ds"
    and "position s fdn < length ds" and "unat (file_type (ds ! position s fdn)) < 3"
    and "user_room buf 33" and "array_at (current s) buf 33 \<subseteq> A" and "fits_int n"
  shows "\<exists>t. ece391_read w (int fdn) buf n s = Some (int (length (dentry_name (ds ! position s fdn))), t) \<and>
     emits A [] s t \<and> open_dir t fdn \<and> position t fdn = Suc (position s fdn) \<and>
     user_bytes t buf (listed_name (ds ! position s fdn)) \<and> (\<forall>i < 8. i \<noteq> fdn \<longrightarrow> cur_fd t i = cur_fd s i)"
proof -
  let ?e = "ds ! position s fdn" and ?d = "(cur_fd s fdn)\<lparr>file_position := file_position (cur_fd s fdn) + 1\<rparr>"
  note o = assms(2) [unfolded open_dir_def]
  have len: "length (listed_name ?e) \<le> 33" using length_dentry_name [of ?e] by (simp add: listed_name_def)
  have room: "user_room buf (length (listed_name ?e))" by (rule user_room_less [OF assms(7) len])
  let ?u = "put_user buf (listed_name ?e) s"
  let ?t = "put_fd fdn ?d ?u"
  have "array_at (current s) buf (length (listed_name ?e)) \<subseteq> A" using len assms(8) by (auto simp: array_at_def)
  then have eu: "emits A [] s ?u" by (rule put_user_emits [OF assms(1) room])
  have d: "fd_flags ?d \<noteq> FD_ABSENT \<longrightarrow> file_operations_table ?d \<noteq> None" using o by simp
  have "emits A [] ?u ?t" by (rule put_fd_emits [OF emitsD(2) [OF eu] _ d]) (use o in simp)
  then have et: "emits A [] s ?t" using emits_trans [OF eu] by fastforce
  have "dir_read (frame_dentry (frames w s)) fdn buf s = Some (int (length (dentry_name ?e)), ?t)"
    using dir_read_entry [OF on_show_running [OF assms(1)] _ _ _ assms(4) position_def [symmetric] assms(5,6)
        user_room_range [OF assms(1) room]] o assms(3) user_room_fits [OF assms(7)]
    by (simp add: frames_ok_def set_position_put_fd put_user_def)
  then have "ece391_read w (int fdn) buf n s = Some (int (length (dentry_name ?e)), ?t)"
    using dir_call [OF assms(1,2) _ _ assms(9)] user_room_fits [OF assms(7)] length_dentry_name [of ?e]
    by (simp add: fits_int_def)
  moreover have "position ?t fdn = Suc (position s fdn)"
  proof -
    have "length ds = unat (num_dentries (fs s))" using assms(4) by (simp add: dir_ok_def)
    then have "Suc (unat (file_position (cur_fd s fdn))) < 2 ^ 32"
      using assms(5) unsigned_less [of "num_dentries (fs s)", where 'a = nat] by (simp add: position_def)
    then have "unat (file_position (cur_fd s fdn) + 1) = Suc (unat (file_position (cur_fd s fdn)))"
      by (simp add: unat_word_ariths)
    then show ?thesis using put_fd(3) [OF on_show_running [OF emitsD(2) [OF eu]] d, of fdn] o by (simp add: position_def)
  qed
  moreover have "open_dir ?t fdn"
    using put_fd(3) [OF on_show_running [OF emitsD(2) [OF eu]] d, of fdn] o by (simp add: open_dir_def)
  moreover have "user_bytes ?t buf (listed_name ?e)"
    using put_user_bytes [OF room, of s] put_fd(2) [OF on_show_running [OF emitsD(2) [OF eu]] d, of fdn]
    by (simp add: user_bytes_def)
  moreover have "\<forall>i < 8. i \<noteq> fdn \<longrightarrow> cur_fd ?t i = cur_fd s i"
    using put_fd(4) [OF on_show_running [OF emitsD(2) [OF eu]] d, of _ fdn] by simp
  ultimately show ?thesis using et by blast
qed

lemma read_dir_end:
  assumes "on_show s" and "open_dir s fdn" and "frames_ok w" and "dir_ok (fs_image s) (fs s) ds"
    and "position s fdn = length ds" and "fits buf" and "buf \<noteq> 0" and "fits_int n"
  shows "\<exists>t. ece391_read w (int fdn) buf n s = Some (0, t) \<and> emits A [] s t"
proof -
  note o = assms(2) [unfolded open_dir_def]
  have "file_position (cur_fd s fdn) = num_dentries (fs s)"
    using assms(4,5) by (simp add: dir_ok_def position_def word_unat_eq_iff)
  then have "dir_read (frame_dentry (frames w s)) fdn buf s = Some (0, set_position fdn 0 s)"
    using dir_read_end [OF on_show_running [OF assms(1)]] o assms(7) by simp
  then have "ece391_read w (int fdn) buf n s = Some (0, set_position fdn 0 s)"
    using dir_call [OF assms(1,2,6,7,8)] by (simp add: fits_int_def)
  then show ?thesis using put_fd_emits [OF assms(1)] o by (simp add: set_position_put_fd)
qed

end
