(* ===== verification/User_Instances.thy ===== *)
theory User_Instances
  imports User_Output
begin

text \<open>
  A concrete machine for the instances of the properties of user programs: process 3, the child of
  shell 0, runs on the terminal on display with the argument \<open>arg\<close>; the file system is that of
  theory File_Ops; the program's string literals lie one after the other at 0x8050000.
\<close>

definition sample_child :: "u8 list \<Rightarrow> kst" where
  "sample_child arg = child_kernel ((put_arg (arg @ replicate (128 - length arg) 0) reading_kernel)
     \<lparr>pg := the (create_process_page 3 booted_paging)\<rparr>)"

lemma sample_child:
  assumes "length arg < 128"
  shows "child (sample_child arg)" "current (sample_child arg) = 3" "free_fd (sample_child arg) = Some 2"
    "fs (sample_child arg) = fs reading_kernel" "fs_image (sample_child arg) = fs_image reading_kernel"
    "stack_ptr (pcb (sample_child arg) ! 3) = 0" "parent (pcb (sample_child arg) ! 3) = 0"
    "fd_table (pcb (sample_child arg) ! 3) = fd_table (booted_pb PCB_ABSENT)"
    "exec_terminal (sample_child arg) = 0" "enter_flag (tmnl_block (sample_child arg) ! 0) = KB_PENDING"
proof -
  let ?A = "arg @ replicate (128 - length arg) 0"
  let ?p = "the (create_process_page 3 booted_paging)"
  let ?s = "(put_arg ?A reading_kernel)\<lparr>pg := ?p\<rparr>" and ?c = "sample_child arg"
  have pg: "paging_inv (Some 3) ?p" using paging_inv_process [OF booted_paging_inv, of 3] by auto
  note run = put_arg [OF reading_kernel_running(1), of ?A]
  have "kernel_ok ?s" using runningD(1) [OF run(1)] assms pg by (auto simp: kernel_ok_def screen_ok_def)
  then have s: "running ?s" using run(1) assms by (simp add: running_def)
  have same: "exec_terminal ?s = 0" "active_terminal ?s = 0"
    by (simp_all add: put_arg_def reading_kernel_def running_kernel_def booted_kernel_def)
  note ch = child_kernel [OF s same(1), folded sample_child_def]
  have pb: "fd_table (pcb ?c ! 3) = fd_table (booted_pb PCB_ABSENT)" "pb_flags (pcb ?c ! 3) = PCB_EXISTS"
    "stack_ptr (pcb ?c ! 3) = 0"
    by (simp_all add: sample_child_def child_kernel_def put_arg_def reading_kernel_running(2))
      (simp_all add: reading_kernel_def running_kernel_def booted_kernel_def booted_pb_def nth_append)
  then show "stack_ptr (pcb ?c ! 3) = 0" "fd_table (pcb ?c ! 3) = fd_table (booted_pb PCB_ABSENT)" by simp_all
  show "exec_terminal ?c = 0" "enter_flag (tmnl_block ?c ! 0) = KB_PENDING"
    using same by (simp_all add: sample_child_def child_kernel_def put_arg_def reading_kernel_def running_kernel_def
        booted_kernel_def booted_tmnl_def)
  show "parent (pcb ?c ! 3) = 0" by (rule ch(3))
  show "current ?c = 3" by (rule ch(2))
  have "pg ?c = ?p" "exec_terminal ?c = active_terminal ?c"
    using same by (simp_all add: sample_child_def child_kernel_def)
  then have "on_show ?c" using ch(1,2) pg pb(1) by (simp add: on_show_def cur_fd_def booted_pb_def)
  then show "child ?c" using ch(2,3) pb(2) by (auto simp: child_def pcb_free_def)
  show "free_fd ?c = Some 2" using ch(2) pb(1) by (simp add: free_fd_def cur_fd_def booted_pb_def blank_fd_def)
  show "fs ?c = fs reading_kernel" by (simp add: sample_child_def child_kernel_def put_arg_def)
  show "fs_image ?c = fs_image reading_kernel"
    by (simp add: sample_child_def child_kernel_def put_arg_def fs_image_def fun_eq_iff)
qed

lemma sample_child_argument:
  assumes "length arg < 128" and "0 \<notin> set arg"
  shows "has_argument (sample_child arg) arg"
proof -
  have a: "argument (pcb (sample_child arg) ! 0) = arg @ replicate (128 - length arg) 0"
    by (simp add: sample_child_def child_kernel_def put_arg_def reading_kernel_running(2))
      (simp add: reading_kernel_def running_kernel_def booted_kernel_def)
  have "replicate (128 - length arg) (0 :: u8) = 0 # replicate (127 - length arg) 0"
    using assms(1) by (cases "128 - length arg") (auto simp: Suc_diff_le)
  then have "cstr (lrd (argument (pcb (sample_child arg) ! 0))) arg"
    using cstr_array [OF assms(2)] a by simp
  then show ?thesis
    using sample_child(2,7) [OF assms(1)] by (auto simp: has_argument_def intro!: exI [of _ 0])
qed

subsection \<open>Literals\<close>

abbreviation LITERALS :: nat where "LITERALS \<equiv> 0x8050000"

definition literal_image :: "string list \<Rightarrow> u8 list" where
  "literal_image txts = concat (map (\<lambda>x. bytes_of x @ [0]) txts)"

definition literal_offset :: "string list \<Rightarrow> string \<Rightarrow> nat" where
  "literal_offset txts x = length (literal_image (takeWhile (\<lambda>y. y \<noteq> x) txts))"

definition sample_world :: "string list \<Rightarrow> world" where
  "sample_world txts = \<lparr>waits = (\<lambda>_. Some), frames = (\<lambda>_. sample_frame), goes_on = (\<lambda>_ _. None),
     lit = (\<lambda>x. LITERALS + literal_offset txts x)\<rparr>"

definition sample_program :: "u8 list \<Rightarrow> string list \<Rightarrow> kst" where
  "sample_program arg txts = put_user LITERALS (literal_image txts) (sample_child arg)"

lemma sample_world_frames: "frames_ok (sample_world txts)"
  by (simp add: frames_ok_def sample_world_def sample_frame_name)

lemma literal_split:
  assumes "x \<in> set txts"
  shows "\<exists>ys. literal_image txts = literal_image (takeWhile (\<lambda>y. y \<noteq> x) txts) @ (bytes_of x @ [0]) @ ys"
proof -
  let ?P = "\<lambda>y. y \<noteq> x"
  have "dropWhile ?P txts \<noteq> []" using assms by (simp add: dropWhile_eq_Nil_conv)
  moreover from this have "hd (dropWhile ?P txts) = x" using hd_dropWhile by blast
  ultimately obtain zs where "dropWhile ?P txts = x # zs" by (cases "dropWhile ?P txts") auto
  moreover have "literal_image txts = literal_image (takeWhile ?P txts @ dropWhile ?P txts)"
    by (simp only: takeWhile_dropWhile_id)
  ultimately have "literal_image txts = literal_image (takeWhile ?P txts @ x # zs)" by (simp only:)
  also have "\<dots> = literal_image (takeWhile ?P txts) @ (bytes_of x @ [0]) @ literal_image zs"
    by (simp add: literal_image_def)
  finally show ?thesis by blast
qed

lemma user_bytes_middle:
  "user_bytes s a (xs @ ys @ zs) \<Longrightarrow> user_bytes s (a + length xs) ys"
proof -
  assume b: "user_bytes s a (xs @ ys @ zs)"
  have "mem s (user_frame (current s) (a + length xs) + i) = ys ! i" if "i < length ys" for i
  proof -
    have "mem s (user_frame (current s) a + (length xs + i)) = (xs @ ys @ zs) ! (length xs + i)"
      using b that by (simp add: user_bytes_def)
    moreover have "user_frame (current s) (a + length xs) + i = user_frame (current s) a + (length xs + i)"
      using b by (simp add: user_frame_def user_bytes_def)
    ultimately show ?thesis using that by (simp add: nth_append add.assoc)
  qed
  then show ?thesis using b by (simp add: user_bytes_def)
qed

lemma sample_program:
  assumes "length arg < 128" and "length (literal_image txts) \<le> 0x10000"
  shows "child (sample_program arg txts)" "current (sample_program arg txts) = 3"
    "free_fd (sample_program arg txts) = Some 2" "fs (sample_program arg txts) = fs reading_kernel"
    "fs_image (sample_program arg txts) = fs_image reading_kernel"
    "stack_ptr (pcb (sample_program arg txts) ! 3) = 0"
    "screen_of (sample_program arg txts) = screen_of (sample_child arg)"
    "active_terminal (sample_program arg txts) = 0"
    "user_bytes (sample_program arg txts) LITERALS (literal_image txts)"
    "pcb (sample_program arg txts) = pcb (sample_child arg)" "tmnl_block (sample_program arg txts) = tmnl_block (sample_child arg)"
    "exec_terminal (sample_program arg txts) = 0"
proof -
  note c = sample_child [OF assms(1)]
  have room: "user_room LITERALS (length (literal_image txts))" using assms(2) by (simp add: user_room_def)
  have e: "emits UNIV [] (sample_child arg) (sample_program arg txts)"
    unfolding sample_program_def by (rule put_user_emits [OF child_on_show [OF c(1)] room]) simp
  have same: "pcb (sample_program arg txts) = pcb (sample_child arg)"
    "cur_fd (sample_program arg txts) = cur_fd (sample_child arg)"
    by (simp_all add: sample_program_def)
  show "pcb (sample_program arg txts) = pcb (sample_child arg)" by (rule same(1))
  show "tmnl_block (sample_program arg txts) = tmnl_block (sample_child arg)" "exec_terminal (sample_program arg txts) = 0"
    using c(9) by (simp_all add: sample_program_def put_user_def)
  show cur: "current (sample_program arg txts) = 3" using emitsD(4) [OF e] c(2) by simp
  show "child (sample_program arg txts)" using emitsD(2) [OF e] c(1,2) cur same(1) by (simp add: child_def)
  show "free_fd (sample_program arg txts) = Some 2" using c(3) same(2) by (simp add: free_fd_def)
  show "fs (sample_program arg txts) = fs reading_kernel" "fs_image (sample_program arg txts) = fs_image reading_kernel"
    using emitsD(7,8) [OF e] c(4,5) by simp_all
  show "stack_ptr (pcb (sample_program arg txts) ! 3) = 0" using c(6) same(1) by simp
  show "screen_of (sample_program arg txts) = screen_of (sample_child arg)" using emitsD(3) [OF e] by (simp add: typed_def)
  have "active_terminal (sample_child arg) = 0"
    by (simp add: sample_child_def child_kernel_def put_arg_def reading_kernel_def running_kernel_def booted_kernel_def)
  then show "active_terminal (sample_program arg txts) = 0" using emitsD(5) [OF e] by simp
  show "user_bytes (sample_program arg txts) LITERALS (literal_image txts)"
    unfolding sample_program_def by (rule put_user_bytes [OF room])
qed

lemma sample_program_argument:
  "length arg < 128 \<Longrightarrow> 0 \<notin> set arg \<Longrightarrow> has_argument (sample_program arg txts) arg"
  using sample_child_argument [of arg] by (simp add: has_argument_def sample_program_def)

text \<open>Arrays below the literals, and texts of ordinary characters.\<close>

lemma placed_literals:
  assumes "user_bytes s LITERALS (literal_image txts)"
    and "\<forall>a \<in> A. a < user_frame (current s) LITERALS" and "\<forall>x \<in> set txts. \<forall>c \<in> set (bytes_of x). c \<noteq> 0 \<and> c \<noteq> BACKSPACE"
    and "lit w = lit (sample_world txts)"
  shows "literals w A txts s"
  unfolding literals_def assms(4)
proof (intro ballI conjI)
  fix x assume x: "x \<in> set txts"
  obtain ys where "literal_image txts = literal_image (takeWhile (\<lambda>y. y \<noteq> x) txts) @ (bytes_of x @ [0]) @ ys"
    using literal_split [OF x] by blast
  then have "user_bytes s (lit (sample_world txts) x) (bytes_of x @ [0])"
    using assms(1) user_bytes_middle [of _ LITERALS "literal_image (takeWhile (\<lambda>y. y \<noteq> x) txts)" "bytes_of x @ [0]" ys]
    by (simp add: sample_world_def literal_offset_def)
  then show "user_string s (lit (sample_world txts) x) (bytes_of x)"
    using assms(3) x by (auto simp: user_string_def)
  have "\<forall>a \<in> array_at pid (lit (sample_world txts) x) n. user_frame pid LITERALS \<le> a" for pid n
    by (auto simp: array_at_def user_frame_def sample_world_def)
  then show "array_at (current s) (lit (sample_world txts) x) (Suc (length x)) \<inter> A = {}"
    using assms(2) by (fastforce simp: disjoint_iff)
  show "BACKSPACE \<notin> set (bytes_of x)" using assms(3) x by auto
qed

lemma sample_literals:
  assumes "length arg < 128" and "length (literal_image txts) \<le> 0x10000"
    and "\<forall>a \<in> A. a < user_frame 3 LITERALS" and "\<forall>x \<in> set txts. \<forall>c \<in> set (bytes_of x). c \<noteq> 0 \<and> c \<noteq> BACKSPACE"
  shows "literals (sample_world txts) A txts (sample_program arg txts)"
  using placed_literals [OF sample_program(9) [OF assms(1,2)] _ assms(4) refl] sample_program(2) [OF assms(1,2)] assms(3)
  by simp

subsection \<open>The file \<open>hi\<close>\<close>

lemma sample_hi:
  assumes "fs s = fs reading_kernel" and "fs_image s = fs_image reading_kernel"
  shows "named_file s sample_dir (bytes_of ''hi'') (sample_dir ! 1) (bytes_of ''Hello'')"
proof -
  have "file_ok (fs_image reading_kernel) (fs reading_kernel) 0 (bytes_of ''Hello'')"
    using reading_kernel_reading by (simp add: reading_def reading_kernel_fd open_fd_def)
  moreover have "file_type (sample_dir ! 1) = 2" "inode_num (sample_dir ! 1) = 0" by (simp_all add: sample_dir_def)
  ultimately show ?thesis using assms reading_kernel_dir find_hi by (simp add: named_file_def)
qed

end
