(* ===== verification/User_Programs.thy ===== *)
theory User_Programs
  imports User_Instances
begin

text \<open>
  The user programs of \<^verbatim>\<open>syscalls/\<close> that print files, names and texts: \<open>cat\<close>, \<open>ls\<close>, \<open>hello\<close> and
  \<open>testprint\<close>. Each is its \<open>main\<close> with the addresses of its arrays as arguments; a result is the value
  \<open>main\<close> returns. The properties say what appears on the screen when such a program runs on the
  kernel: from the program's source through the system calls, the file system and the console.
\<close>

subsection \<open>cat\<close>

text \<open>The loop ends when a read delivers nothing; it might not end (\<open>partial_function\<close>).\<close>

partial_function (option) cat_loop :: "world \<Rightarrow> nat \<Rightarrow> int \<Rightarrow> kst \<Rightarrow> (int \<times> kst) option" where
  "cat_loop w buf fd s =
     do { (cnt, s) \<leftarrow> ece391_read w fd buf 1024 s;
          if cnt = 0 then Some (0, s)
          else if cnt = -1 then
            do { s \<leftarrow> ece391_fdputs w 1 (lit w (''file read failed'' @ newline)) s; Some (3, s) }
          else
            do { (r, s) \<leftarrow> ece391_write w 1 buf cnt s;
                 if r = -1 then Some (3, s) else cat_loop w buf fd s } }"

definition cat_main :: "world \<Rightarrow> nat \<Rightarrow> kst \<Rightarrow> (int \<times> kst) option" where
  "cat_main w buf s =
     do { (r, s) \<leftarrow> ece391_getargs w buf 1024 s;
          if r \<noteq> 0 then
            do { s \<leftarrow> ece391_fdputs w 1 (lit w (''could not read arguments'' @ newline)) s; Some (3, s) }
          else
            do { (fd, s) \<leftarrow> ece391_open w buf s;
                 if fd = -1 then
                   do { s \<leftarrow> ece391_fdputs w 1 (lit w (''file not found'' @ newline)) s; Some (2, s) }
                 else cat_loop w buf fd s } }"

lemma take_drop_length: "take n xs @ drop (length (take n xs)) xs = xs"
  by (cases "n \<le> length xs") simp_all

lemma cat_loop_prints:
  assumes "on_show s" and "open_file s fdn bytes" and "user_room buf 1024"
    and "array_at (current s) buf 1024 \<subseteq> A" and "BACKSPACE \<notin> set bytes"
  shows "\<exists>t. cat_loop w buf (int fdn) s = Some (0, t) \<and> emits A (drop (position s fdn) bytes) s t"
  using assms(1,2,4)
proof (induction "length bytes - position s fdn" arbitrary: s rule: less_induct)
  case less
  define part where "part = take 1024 (drop (position s fdn) bytes)"
  obtain u where u: "ece391_read w (int fdn) buf 1024 s = Some (int (length part), u)" "emits A [] s u"
    "open_file u fdn bytes" "user_bytes u buf part" "position u fdn = position s fdn + length part"
    using read_file_call [OF less.prems(1,2) assms(3) less.prems(3) part_def, of w] by auto
  show ?case
  proof (cases "part = []")
    case True
    then have "drop (position s fdn) bytes = []" by (simp add: part_def)
    then show ?thesis using u(1,2) True by (subst cat_loop.simps) simp
  next
    case False
    have "BACKSPACE \<notin> set part"
      using assms(5) by (auto simp: part_def dest!: in_set_takeD in_set_dropD)
    then obtain v where v: "ece391_write w 1 buf (int (length part)) u = Some (int (length part), v)" "prints part u v"
      using write_prints [OF emitsD(2) [OF u(2)] u(4)] by blast
    have ev: "emits A part u v" by (rule prints_emits [OF v(2) emitsD(2) [OF u(2)]])
    have fd: "cur_fd v = cur_fd u" by (rule prints_running [OF v(2) on_show_running [OF emitsD(2) [OF u(2)]]])
    have "open_file v fdn bytes"
      using u(3) emits_reading [OF ev, of fdn bytes] fd by (simp add: open_file_def)
    moreover have pos: "position v fdn = position s fdn + length part" using u(5) fd by (simp add: position_def)
    moreover have "current v = current s" using emitsD(4) [OF u(2)] emitsD(4) [OF ev] by simp
    moreover have "length part \<noteq> 0" "length part \<le> length bytes - position s fdn" using False by (auto simp: part_def)
    then have "length bytes - (position s fdn + length part) < length bytes - position s fdn" by linarith
    ultimately obtain t where t: "cat_loop w buf (int fdn) v = Some (0, t)"
      "emits A (drop (position s fdn + length part) bytes) v t"
      using less.hyps [of v] emitsD(2) [OF ev] less.prems(3) by auto
    have "part @ drop (position s fdn + length part) bytes = drop (position s fdn) bytes"
      using take_drop_length [of 1024 "drop (position s fdn) bytes"]
      by (simp only: part_def [symmetric] drop_drop add.commute)
    then have "emits A (drop (position s fdn) bytes) s t"
      using emits_trans [OF u(2) emits_trans [OF ev t(2)]] by simp
    moreover have "cat_loop w buf (int fdn) s = Some (0, t)"
      using u(1) v(1) t(1) False by (subst cat_loop.simps) simp
    ultimately show ?thesis by blast
  qed
qed

lemma cat_main_prints:
  assumes "on_show s" and "frames_ok w" and "has_argument s arg" and "arg \<noteq> []"
    and "named_file s ds (first_line 128 arg) cur bytes" and "free_fd s \<noteq> None"
    and "user_room buf 1024" and "BACKSPACE \<notin> set bytes"
  shows "\<exists>t. cat_main w buf s = Some (0, t) \<and> emits (array_at (current s) buf 1024) bytes s t"
proof -
  let ?A = "array_at (current s) buf 1024"
  obtain t where t: "ece391_getargs w buf 1024 s = Some (0, t)" "emits ?A [] s t"
    "user_string t buf (first_line 128 arg)" "cur_fd t = cur_fd s"
    using getargs_step [OF assms(1,3) refl assms(7) order_refl, of w] assms(4) by auto
  obtain i where i: "free_fd t = Some i" using assms(6) t(4) by (auto simp: free_fd_def)
  have "named_file t ds (first_line 128 arg) cur bytes"
    using assms(5) emitsD(7,8) [OF t(2)] by (simp add: named_file_def)
  from open_file_call [OF emitsD(2) [OF t(2)] t(3) assms(2) this i] obtain u where
    u: "ece391_open w buf t = Some (int i, u)" "emits ?A [] t u" "open_file u i bytes" "position u i = 0" by blast
  have "current u = current s" using emitsD(4) [OF u(2)] emitsD(4) [OF t(2)] by simp
  then obtain v where v: "cat_loop w buf (int i) u = Some (0, v)" "emits ?A bytes u v"
    using cat_loop_prints [OF emitsD(2) [OF u(2)] u(3) assms(7) _ assms(8), of ?A w] u(4) by auto
  have "emits ?A bytes s v" using emits_trans [OF t(2) emits_trans [OF u(2) v(2)]] by simp
  then show ?thesis using t(1) u(1) v(1) by (simp add: cat_main_def)
qed

lemma cat_main_refuses:
  assumes "on_show s" and "frames_ok w" and "has_argument s arg" and "user_room buf 1024"
    and "literals w (array_at (current s) buf 1024) [''could not read arguments'' @ newline, ''file not found'' @ newline] s"
    and "dir_ok (fs_image s) (fs s) ds" and "first_line 128 arg \<notin> dentry_name ` set ds"
  shows "\<exists>t. cat_main w buf s = Some (if arg = [] then 3 else 2, t) \<and> emits (array_at (current s) buf 1024)
    (bytes_of (if arg = [] then ''could not read arguments'' @ newline else ''file not found'' @ newline)) s t"
proof (cases "arg = []")
  case True
  then show ?thesis
    using getargs_step [OF assms(1,3) refl assms(4) order_refl, of w] puts_lit [OF emits_refl [OF assms(1)] assms(5)]
    by (fastforce simp: cat_main_def)
next
  case False
  let ?A = "array_at (current s) buf 1024"
  obtain t where t: "ece391_getargs w buf 1024 s = Some (0, t)" "emits ?A [] s t"
    "user_string t buf (first_line 128 arg)"
    using getargs_step [OF assms(1,3) refl assms(4) order_refl, of w] False by auto
  have "find (\<lambda>d. dentry_name d = first_line 128 arg) ds = None" by (rule find_missing [OF assms(7)])
  then have "ece391_open w buf t = Some (-1, t)"
    using open_missing_call [OF emitsD(2) [OF t(2)] t(3) assms(2)] assms(6) emitsD(7,8) [OF t(2)] by simp
  moreover obtain u where "ece391_fdputs w 1 (lit w (''file not found'' @ newline)) t = Some u"
    "emits ?A (bytes_of (''file not found'' @ newline)) s u"
    using puts_lit [OF t(2) assms(5), of "''file not found'' @ newline"] by auto
  ultimately show ?thesis using t(1) False by (simp add: cat_main_def)
qed

subsection \<open>ls\<close>

partial_function (option) ls_loop :: "world \<Rightarrow> nat \<Rightarrow> int \<Rightarrow> kst \<Rightarrow> (int \<times> kst) option" where
  "ls_loop w buf fd s =
     do { (cnt, s) \<leftarrow> ece391_read w fd buf 32 s;
          if cnt = 0 then Some (0, s)
          else if cnt = -1 then
            do { s \<leftarrow> ece391_fdputs w 1 (lit w (''directory entry read failed'' @ newline)) s; Some (3, s) }
          else
            do { s \<leftarrow> user_store (nat (int buf + cnt)) 0x0A s;
                 (r, s) \<leftarrow> ece391_write w 1 buf (cnt + 1) s;
                 if r = -1 then Some (3, s) else ls_loop w buf fd s } }"

definition ls_main :: "world \<Rightarrow> nat \<Rightarrow> kst \<Rightarrow> (int \<times> kst) option" where
  "ls_main w buf s =
     do { (fd, s) \<leftarrow> ece391_open w (lit w ''.'') s;
          if fd = -1 then
            do { s \<leftarrow> ece391_fdputs w 1 (lit w (''directory open failed'' @ newline)) s; Some (2, s) }
          else ls_loop w buf fd s }"

text \<open>A listing: each name on a line of its own.\<close>

definition listing :: "dentry list \<Rightarrow> u8 list" where
  "listing ds = concat (map (\<lambda>d. dentry_name d @ [0x0A]) ds)"

text \<open>The entries a program sees that stops at the first read of length 0.\<close>

definition named_entries :: "dentry list \<Rightarrow> dentry list" where
  "named_entries ds = takeWhile (\<lambda>d. dentry_name d \<noteq> []) ds"

definition lists_ok :: "kst \<Rightarrow> dentry list \<Rightarrow> bool" where
  "lists_ok s ds \<longleftrightarrow> dir_ok (fs_image s) (fs s) ds \<and>
     (\<forall>d \<in> set ds. unat (file_type d) < 3 \<and> BACKSPACE \<notin> set (dentry_name d))"

lemma ls_loop_prints:
  assumes "on_show s" and "open_dir s fdn" and "frames_ok w" and "lists_ok s ds" and "user_room buf 33"
    and "array_at (current s) buf 33 \<subseteq> A" and "position s fdn \<le> length ds"
  shows "\<exists>t. ls_loop w buf (int fdn) s = Some (0, t) \<and> emits A (listing (named_entries (drop (position s fdn) ds))) s t"
  using assms(1,2,4,6,7)
proof (induction "length ds - position s fdn" arbitrary: s)
  case 0
  then have p: "position s fdn = length ds" by simp
  have dir: "dir_ok (fs_image s) (fs s) ds" using "0.prems"(3) by (simp add: lists_ok_def)
  show ?case
    using read_dir_end [OF "0.prems"(1,2) assms(3) dir p, of buf 32 A] assms(5) p user_room_fits [OF assms(5)]
    by (subst ls_loop.simps) (auto simp: fits_int_def listing_def named_entries_def)
next
  case (Suc k)
  let ?p = "position s fdn" and ?nm = "dentry_name (ds ! position s fdn)"
  have p: "?p < length ds" and k: "k = length ds - Suc ?p" using Suc.hyps(2) by linarith+
  have dir: "dir_ok (fs_image s) (fs s) ds" and ty: "unat (file_type (ds ! ?p)) < 3" "BACKSPACE \<notin> set ?nm"
    using Suc.prems(3) p by (simp_all add: lists_ok_def)
  obtain t where t: "ece391_read w (int fdn) buf 32 s = Some (int (length ?nm), t)" "emits A [] s t"
    "open_dir t fdn" "position t fdn = Suc ?p" "user_bytes t buf (listed_name (ds ! ?p))"
    using read_dir_call [OF Suc.prems(1,2) assms(3) dir p ty(1) assms(5) Suc.prems(4), of 32] by (auto simp: fits_int_def)
  have split: "drop ?p ds = ds ! ?p # drop (Suc ?p) ds" using p by (simp add: Cons_nth_drop_Suc)
  show ?case
  proof (cases "?nm = []")
    case True
    then show ?thesis using t(1,2)
      by (subst ls_loop.simps) (simp add: split listing_def named_entries_def)
  next
    case False
    have len: "length ?nm \<le> 32" by (rule length_dentry_name)
    have b: "user_bytes t buf ?nm" using t(5) user_bytes_append by (simp add: listed_name_def)
    have cur: "current t = current s" by (rule emitsD(4) [OF t(2)])
    have "array_at (current t) buf (Suc (length ?nm)) \<subseteq> A" using Suc.prems(4) cur len by (auto simp: array_at_def)
    moreover have "user_room buf (Suc (length ?nm))" by (rule user_room_less [OF assms(5)]) (use len in simp)
    ultimately obtain u where u: "user_store (buf + length ?nm) 0x0A t = Some u" "emits A [] t u"
      "user_bytes u buf (?nm @ [0x0A])" "cur_fd u = cur_fd t"
      using store_next [OF emitsD(2) [OF t(2)] b] by blast
    obtain v where v: "ece391_write w 1 buf (int (length (?nm @ [0x0A]))) u = Some (int (length (?nm @ [0x0A])), v)"
      "prints (?nm @ [0x0A]) u v"
      using write_prints [OF emitsD(2) [OF u(2)] u(3)] ty(2) by fastforce
    have ev: "emits A (?nm @ [0x0A]) u v" by (rule prints_emits [OF v(2) emitsD(2) [OF u(2)]])
    have fd: "cur_fd v = cur_fd t"
      using prints_running(3) [OF v(2) on_show_running [OF emitsD(2) [OF u(2)]]] u(4) by simp
    note esv = emits_trans [OF t(2) emits_trans [OF u(2) ev], simplified]
    have "lists_ok v ds" using Suc.prems(3) emitsD(7,8) [OF esv] by (simp add: lists_ok_def)
    moreover have "open_dir v fdn" "position v fdn = Suc ?p"
      using t(3,4) fd by (simp_all add: open_dir_def position_def)
    ultimately obtain x where x: "ls_loop w buf (int fdn) v = Some (0, x)"
      "emits A (listing (named_entries (drop (Suc ?p) ds))) v x"
      using Suc.hyps(1) [of v] k emitsD(2,4) [OF esv] Suc.prems(4) p by auto
    have "listing (named_entries (drop ?p ds)) = ?nm @ 0x0A # listing (named_entries (drop (Suc ?p) ds))"
      using False by (simp add: split listing_def named_entries_def)
    then have "emits A (listing (named_entries (drop ?p ds))) s x" using emits_trans [OF esv x(2)] by simp
    moreover have "ls_loop w buf (int fdn) s = Some (0, x)"
      using t(1) u(1) v(1) x(1) False
      by (subst ls_loop.simps) (simp add: nat_add_distrib add.commute)
    ultimately show ?thesis by blast
  qed
qed

lemma ls_main_prints:
  assumes "on_show s" and "frames_ok w" and "lists_ok s ds"
    and "find (\<lambda>d. dentry_name d = bytes_of ''.'') ds = Some cur" and "file_type cur = 1" and "free_fd s \<noteq> None"
    and "user_room buf 33" and "literals w (array_at (current s) buf 33) [''.''] s"
  shows "\<exists>t. ls_main w buf s = Some (0, t) \<and> emits (array_at (current s) buf 33) (listing (named_entries ds)) s t"
proof -
  let ?A = "array_at (current s) buf 33"
  obtain i where i: "free_fd s = Some i" using assms(6) by blast
  have dir: "dir_ok (fs_image s) (fs s) ds" using assms(3) by (simp add: lists_ok_def)
  have name: "user_string s (lit w ''.'') (bytes_of ''.'')" using assms(8) by (simp add: literals_def)
  obtain t where t: "ece391_open w (lit w ''.'') s = Some (int i, t)" "emits ?A [] s t" "open_dir t i" "position t i = 0"
    using open_dir_call [OF assms(1) name assms(2) dir assms(4,5) i] by blast
  note e = emitsD [OF t(2)]
  have "lists_ok t ds" using assms(3) e(7,8) by (simp add: lists_ok_def)
  then obtain u where u: "ls_loop w buf (int i) t = Some (0, u)" "emits ?A (listing (named_entries ds)) t u"
    using ls_loop_prints [OF e(2) t(3) assms(2) _ assms(7), of ds ?A] e(4) t(4) by auto
  then show ?thesis using emits_trans [OF t(2) u(2)] t(1) by (simp add: ls_main_def)
qed

subsection \<open>Properties\<close>

text \<open>C16. \<open>cat\<close>: started as the child of another process on the terminal on display, with the name of
  a file as its argument and a descriptor free, the program prints exactly the bytes of the file, in
  order, from wherever the cursor is, and ends with status 0: control goes back to the \<open>execute\<close>
  that started it, with its parent running again and its slot free. The loop ends, whatever the
  length of the file, and the file system is as before. (The name is the first line of the argument;
  a file with backspace characters would also erase.)\<close>

theorem cat_prints_file:
  assumes "child s" and "frames_ok w" and "has_argument s arg" and "arg \<noteq> []"
    and "named_file s ds (first_line 128 arg) cur bytes" and "free_fd s \<noteq> None"
    and "user_room buf 1024" and "BACKSPACE \<notin> set bytes"
  shows "leaves (array_at (current s) buf 1024) 0 bytes s (user_start w (cat_main w buf) s)"
  using cat_main_prints [OF child_on_show [OF assms(1)] assms(2-8)] program_ends [OF assms(1)] by fastforce

theorem cat_prints_file_witness:
  "leaves (array_at 3 0x8048000 1024) 0 (bytes_of ''Hello'') (sample_program (bytes_of ''hi'') [])
     (user_start (sample_world []) (cat_main (sample_world []) 0x8048000) (sample_program (bytes_of ''hi'') []))"
proof -
  have len: "length (bytes_of ''hi'') < 128" "length (literal_image []) \<le> 0x10000" by (simp_all add: literal_image_def)
  have hi: "0 \<notin> set (bytes_of ''hi'')" "first_line 128 (bytes_of ''hi'') = bytes_of ''hi''"
    by (simp_all add: bytes_of_def first_line_def)
  note p = sample_program [OF len]
  show ?thesis
  proof (rule cat_prints_file [where s = "sample_program (bytes_of ''hi'') []", unfolded p(2), OF p(1) sample_world_frames sample_program_argument [OF len(1) hi(1)]])
    show "named_file (sample_program (bytes_of ''hi'') []) sample_dir (first_line 128 (bytes_of ''hi''))
       (sample_dir ! 1) (bytes_of ''Hello'')"
      unfolding hi(2) by (rule sample_hi [OF p(4,5)])
  qed (use p(3) in \<open>simp_all add: bytes_of_def user_room_def\<close>)
qed

text \<open>What \<open>cat\<close> refuses: without an argument it prints "could not read arguments" and ends with
  status 3; with the name of no entry of the directory it prints "file not found" and ends with
  status 2. Nothing else is printed.\<close>

theorem cat_refuses:
  assumes "child s" and "frames_ok w" and "has_argument s arg" and "user_room buf 1024"
    and "literals w (array_at (current s) buf 1024) [''could not read arguments'' @ newline, ''file not found'' @ newline] s"
    and "dir_ok (fs_image s) (fs s) ds" and "first_line 128 arg \<notin> dentry_name ` set ds"
  shows "leaves (array_at (current s) buf 1024) (if arg = [] then 3 else 2)
    (bytes_of (if arg = [] then ''could not read arguments'' @ newline else ''file not found'' @ newline)) s
    (user_start w (cat_main w buf) s)"
proof -
  obtain t where "cat_main w buf s = Some (if arg = [] then 3 else 2, t)" "emits (array_at (current s) buf 1024)
    (bytes_of (if arg = [] then ''could not read arguments'' @ newline else ''file not found'' @ newline)) s t"
    using cat_main_refuses [OF child_on_show [OF assms(1)] assms(2-7)] by blast
  from program_ends [OF assms(1), where main = "cat_main w buf", OF this] show ?thesis by (cases "arg = []") simp_all
qed

theorem cat_refuses_witness:
  "let txts = [''could not read arguments'' @ newline, ''file not found'' @ newline];
     s = sample_program (bytes_of ''no'') txts
   in leaves (array_at 3 0x8048000 1024) 2 (bytes_of (''file not found'' @ newline)) s
     (user_start (sample_world txts) (cat_main (sample_world txts) 0x8048000) s)"
proof -
  let ?txts = "[''could not read arguments'' @ newline, ''file not found'' @ newline]"
  let ?s = "sample_program (bytes_of ''no'') ?txts"
  have len: "length (bytes_of ''no'') < 128" "length (literal_image ?txts) \<le> 0x10000" by (simp_all add: literal_image_def)
  have no: "0 \<notin> set (bytes_of ''no'')" "first_line 128 (bytes_of ''no'') = bytes_of ''no''"
    by (simp_all add: bytes_of_def first_line_def)
  note p = sample_program [OF len]
  have "leaves (array_at (current ?s) 0x8048000 1024) (if bytes_of ''no'' = [] then 3 else 2)
    (bytes_of (if bytes_of ''no'' = [] then ''could not read arguments'' @ newline else ''file not found'' @ newline)) ?s
    (user_start (sample_world ?txts) (cat_main (sample_world ?txts) 0x8048000) ?s)"
  proof (rule cat_refuses [OF p(1) sample_world_frames sample_program_argument [OF len(1) no(1)]])
    show "literals (sample_world ?txts) (array_at (current ?s) 0x8048000 1024) ?txts ?s"
      unfolding p(2) by (rule sample_literals [OF len]) (auto simp: array_at_def user_frame_def bytes_of_def)
    show "dir_ok (fs_image ?s) (fs ?s) sample_dir" unfolding p(4,5) by (rule reading_kernel_dir)
    show "first_line 128 (bytes_of ''no'') \<notin> dentry_name ` set sample_dir"
      unfolding no(2) by (simp add: sample_dir_def dentry_name_def bytes_of_def)
  qed (simp add: user_room_def)
  from this [unfolded p(2)] show ?thesis by (simp add: Let_def bytes_of_def)
qed

text \<open>C17. \<open>ls\<close> prints the names of the directory in order, each on a line of its own, up to the first
  entry with an empty name, and ends with status 0. Names of 32 characters, which the kernel stores
  with a terminator, fit the array of 33 bytes too.\<close>

theorem ls_lists_directory:
  assumes "child s" and "frames_ok w" and "lists_ok s ds"
    and "find (\<lambda>d. dentry_name d = bytes_of ''.'') ds = Some cur" and "file_type cur = 1" and "free_fd s \<noteq> None"
    and "user_room buf 33" and "literals w (array_at (current s) buf 33) [''.''] s"
  shows "leaves (array_at (current s) buf 33) 0 (listing (named_entries ds)) s (user_start w (ls_main w buf) s)"
  using ls_main_prints [OF child_on_show [OF assms(1)] assms(2-8)] program_ends [OF assms(1)] by fastforce

theorem ls_lists_directory_witness:
  "leaves (array_at 3 0x8048000 33) 0 (bytes_of (''.'' @ newline @ ''hi'' @ newline)) (sample_program [] [''.''])
     (user_start (sample_world [''.'']) (ls_main (sample_world [''.'']) 0x8048000) (sample_program [] [''.'']))"
proof -
  let ?s = "sample_program [] [''.'']"
  have len: "length ([] :: u8 list) < 128" "length (literal_image [''.'']) \<le> 0x10000" by (simp_all add: literal_image_def)
  note p = sample_program [OF len]
  have "leaves (array_at (current ?s) 0x8048000 33) 0 (listing (named_entries sample_dir)) ?s (user_start (sample_world [''.'']) (ls_main (sample_world [''.'']) 0x8048000) ?s)"
  proof (rule ls_lists_directory [OF p(1) sample_world_frames])
    show "lists_ok ?s sample_dir"
      unfolding lists_ok_def p(4,5) using reading_kernel_dir by (simp add: sample_dir_def dentry_name_def)
    show "find (\<lambda>d. dentry_name d = bytes_of ''.'') sample_dir = Some (sample_dir ! 0)"
      by (simp add: sample_dir_def dentry_name_def bytes_of_def)
    show "literals (sample_world [''.'']) (array_at (current ?s) 0x8048000 33) [''.''] ?s"
      unfolding p(2) by (rule sample_literals [OF len]) (auto simp: array_at_def user_frame_def bytes_of_def)
  qed (use p(3) in \<open>simp_all add: user_room_def sample_dir_def\<close>)
  from this [unfolded p(2)] show ?thesis
    by (simp add: listing_def named_entries_def sample_dir_def dentry_name_def bytes_of_def)
qed

end
