(* ===== verification/User_Shell.thy ===== *)
theory User_Shell
  imports User_Instances
begin

text \<open>
  The interactive programs of \<^verbatim>\<open>syscalls/\<close>: \<open>hello\<close>, \<open>testprint\<close> and the shell \<open>ece391shell.c\<close>, with the line
  a user types as a parameter (\<open>types_line\<close>). The terminal delivers its whole buffer of 128 bytes, the
  line with its newline and zeros behind it, whatever the length of the line.
\<close>

subsection \<open>Reading a line\<close>

definition stdin_open :: "kst \<Rightarrow> bool" where
  "stdin_open s \<longleftrightarrow> fd_flags (cur_fd s 0) = FD_EXISTS \<and> file_operations_table (cur_fd s 0) = Some Stdin_ops"

definition line_buffer :: "kst \<Rightarrow> u8 list" where
  "line_buffer s = buffer (tmnl_block s ! nat (exec_terminal s))"

text \<open>
  While a program waits for a line, the user types \<open>input\<close>, which echoes as \<open>echo\<close>, and ends it with
  enter; \<open>types_line\<close> is the same once the program, in state \<open>s\<close> now, has printed \<open>prompt\<close>.
\<close>

definition enters :: "world \<Rightarrow> u8 list \<Rightarrow> u8 list \<Rightarrow> kst \<Rightarrow> bool" where
  "enters w echo input s \<longleftrightarrow> length input \<le> 128 \<and>
     (\<exists>t. wait_enter (waits w) (sti (cli s)) = Some t \<and> emits {} echo s t \<and>
        cur_fd t = cur_fd s \<and> line_buffer t = input @ replicate (128 - length input) 0)"

definition types_line :: "world \<Rightarrow> string \<Rightarrow> u8 list \<Rightarrow> u8 list \<Rightarrow> kst \<Rightarrow> bool" where
  "types_line w prompt echo input s \<longleftrightarrow> length input \<le> 128 \<and>
     (\<forall>t. prints (bytes_of prompt) s t \<longrightarrow> enters w echo input t)"

lemma prompts:
  assumes "on_show s" and "literals w A txts s" and "x \<in> set txts" and "types_line w x echo input s"
  shows "\<exists>t. ece391_fdputs w 1 (lit w x) s = Some t \<and> emits A (bytes_of x) s t \<and> cur_fd t = cur_fd s \<and> enters w echo input t"
proof -
  have "user_string s (lit w x) (bytes_of x)" "BACKSPACE \<notin> set (bytes_of x)"
    using assms(2,3) by (simp_all add: literals_def)
  then obtain t where t: "ece391_fdputs w 1 (lit w x) s = Some t" "prints (bytes_of x) s t"
    using fdputs_prints [OF assms(1)] by blast
  then show ?thesis
    using prints_emits [OF t(2) assms(1)] prints_running(3) [OF t(2) on_show_running [OF assms(1)]] assms(4)
    by (auto simp: types_line_def)
qed

text \<open>What is in the line of the terminal, and its flag, shows on no screen.\<close>

definition with_line :: "u8 \<Rightarrow> u8 list \<Rightarrow> u8 \<Rightarrow> kst \<Rightarrow> kst" where
  "with_line flag bs n s = s\<lparr>tmnl_block := (tmnl_block s)[nat (exec_terminal s) :=
     (tmnl_block s ! nat (exec_terminal s))\<lparr>enter_flag := flag, buffer := bs, buffer_size := n\<rparr>], if_flag := True\<rparr>"

lemma with_line_emits:
  assumes "on_show s" and "length bs = 128" and "unat n \<le> 128"
  shows "emits A [] s (with_line flag bs n s)" "cur_fd (with_line flag bs n s) = cur_fd s"
    "current (with_line flag bs n s) = current s" "line_buffer (with_line flag bs n s) = bs"
proof -
  let ?e = "nat (exec_terminal s)" and ?t = "with_line flag bs n s"
  note r = runningD [OF on_show_running [OF assms(1)]]
  have e: "?e < 3" "length (tmnl_block s) = 3" using kernel_okD [OF r(1)] by simp_all
  let ?f = "\<lambda>x. x\<lparr>enter_flag := flag, buffer := bs, buffer_size := n\<rparr>"
  have "tmnl_ok ?e (?f (tmnl_block s ! ?e))"
    using kernel_ok_tmnl [OF r(1) e(1)] assms(2,3) by (simp add: tmnl_ok_def)
  then have "kernel_ok (s\<lparr>tmnl_block := (tmnl_block s)[?e := ?f (tmnl_block s ! ?e)]\<rparr>)"
    using kernel_ok_upd_tmnl [OF r(1), of "exec_terminal s" ?f] kernel_okD(6,7) [OF r(1)] by simp
  then have ok: "kernel_ok ?t" by (simp add: kernel_ok_def screen_ok_def with_line_def)
  show "line_buffer ?t = bs" using e by (simp add: line_buffer_def with_line_def)
  have ap: "active_process (tmnl_block ?t ! nat (exec_terminal ?t)) = active_process (tmnl_block s ! nat (exec_terminal s))"
    using e by (simp add: with_line_def)
  show cur: "current ?t = current s" using ap by (simp add: current_def)
  show fd: "cur_fd ?t = cur_fd s" using cur by (simp add: cur_fd_def with_line_def fun_eq_iff)
  have "running ?t" using ok ap on_show_running [OF assms(1)] by (simp add: running_def)
  moreover have "exec_terminal ?t = exec_terminal s" "active_terminal ?t = active_terminal s" "pg ?t = pg s"
    "pcb ?t = pcb s" "fs ?t = fs s" "mem ?t = mem s" "screen_of ?t = screen_of s" "fs_image ?t = fs_image s"
    "rtc_block ?t = rtc_block s"
    by (simp_all add: with_line_def screen_of_def fs_image_def fun_eq_iff)
  ultimately show "emits A [] s ?t" using assms(1) cur fd by (simp add: emits_def on_show_def typed_def)
qed

abbreviation cleared :: "kst \<Rightarrow> kst" where
  "cleared \<equiv> with_line KB_PENDING (replicate 128 0) 0"

lemma read_line_call:
  assumes "on_show s" and "stdin_open s" and "enters w echo input s" and "0 \<le> n" and "n < 2 ^ 31"
    and "k = min (nat n) 128" and "user_room buf (Suc k)" and "array_at (current s) buf k \<subseteq> A"
  shows "\<exists>t. ece391_read w 0 buf n s = Some (int k, t) \<and> emits A echo s t \<and> cur_fd t = cur_fd s \<and>
     user_bytes t buf (take k (input @ replicate (128 - length input) 0))"
proof -
  let ?all = "input @ replicate (128 - length input) (0 :: u8)"
  let ?bs = "take k ?all"
  obtain u where u: "wait_enter (waits w) (sti (cli s)) = Some u" "emits {} echo s u" "cur_fd u = cur_fd s"
    "line_buffer u = ?all" and len: "length input \<le> 128"
    using assms(3) by (auto simp: enters_def)
  have show_u: "on_show u" by (rule emitsD(2) [OF u(2)])
  let ?v = "cleared u"
  note v = with_line_emits(1-3) [where bs = "replicate 128 0" and n = 0 and flag = KB_PENDING, OF show_u, simplified]
  have lbs: "length ?bs = k" using len assms(6) by (simp add: min_def)
  have roomk: "user_room buf k" by (rule user_room_less [OF assms(7)]) simp
  have room: "user_room buf (length ?bs)" using roomk by (simp only: lbs)
  note fits = user_room_fits [OF assms(7)]
  have cu: "current u = current s" "current ?v = current s" using emitsD(4) [OF u(2)] v(3) by simp_all
  have "terminal_read (waits w) buf n s = Some (int k, sti (cli u\<lparr>
     tmnl_block := (tmnl_block u)[nat (exec_terminal u) := (tmnl_block u ! nat (exec_terminal u))
       \<lparr>enter_flag := KB_PENDING, buffer := replicate 128 0, buffer_size := 0\<rparr>],
     mem := poke (user_frame (current u) buf) (take k (buffer (tmnl_block u ! nat (exec_terminal u)))) (mem u)\<rparr>))"
    using fits assms(4,6) user_room_range [OF show_u roomk]
    by (intro terminal_read_ok [OF u(1) runningD(1) [OF on_show_running [OF show_u]]]) auto
  also have "sti (cli u\<lparr>
     tmnl_block := (tmnl_block u)[nat (exec_terminal u) := (tmnl_block u ! nat (exec_terminal u))
       \<lparr>enter_flag := KB_PENDING, buffer := replicate 128 0, buffer_size := 0\<rparr>],
     mem := poke (user_frame (current u) buf) (take k (buffer (tmnl_block u ! nat (exec_terminal u)))) (mem u)\<rparr>)
     = put_user buf ?bs ?v"
    using u(4) v(3) [unfolded with_line_def]
    by (simp add: put_user_def with_line_def line_buffer_def cli_def sti_def del: take_append)
  finally have tr: "terminal_read (waits w) buf n s = Some (int k, put_user buf ?bs ?v)" .
  have "sys_read (waits w) (frames w s) 0 buf n s = Some (int k, put_user buf ?bs ?v)"
    using sys_read_table [OF assms(1), of 0 buf Stdin_ops] assms(2) fits tr
    by (simp add: stdin_open_def ops_read_def del: take_append)
  then have "ece391_read w 0 buf n s = Some (int k, put_user buf ?bs ?v)"
    using fits assms(4-6) by (intro read_call) (auto simp: fits_int_def)
  moreover have "emits A [] ?v (put_user buf ?bs ?v)"
    by (rule put_user_emits [OF emitsD(2) [OF v(1)] room]) (use assms(8) cu lbs in \<open>simp only: lbs\<close>)
  then have "emits A echo s (put_user buf ?bs ?v)"
    using emits_trans [OF emits_mono [OF u(2) empty_subsetI] emits_trans [OF v(1)]] by fastforce
  moreover have "user_bytes (put_user buf ?bs ?v) buf ?bs" by (rule put_user_bytes [OF room])
  moreover have "cur_fd (put_user buf ?bs ?v) = cur_fd s" using v(2) u(3) by simp
  ultimately show ?thesis by blast
qed

text \<open>The whole line, into a buffer with room for a terminator.\<close>

lemma read_all_call:
  assumes "on_show s" and "stdin_open s" and "enters w echo input s"
    and "user_room buf 129" and "array_at (current s) buf 129 \<subseteq> A"
  shows "\<exists>t. ece391_read w 0 buf 1023 s = Some (128, t) \<and> emits A echo s t \<and> cur_fd t = cur_fd s \<and>
     user_bytes t buf (input @ replicate (128 - length input) 0)"
proof -
  have "array_at (current s) buf 128 \<subseteq> A" using assms(5) by (auto simp: array_at_def)
  moreover have "length input \<le> 128" using assms(3) by (simp add: enters_def)
  ultimately show ?thesis using read_line_call [OF assms(1-3), of 1023 128 buf A] assms(4) by simp
qed

subsection \<open>hello and testprint\<close>

definition hello_main :: "world \<Rightarrow> nat \<Rightarrow> kst \<Rightarrow> (int \<times> kst) option" where
  "hello_main w buf s =
     do { s \<leftarrow> ece391_fdputs w 1 (lit w ''Hi, what's your name? '') s;
          (cnt, s) \<leftarrow> ece391_read w 0 buf 1023 s;
          if cnt = -1 then
            do { s \<leftarrow> ece391_fdputs w 1 (lit w (''Can't read name from keyboard.'' @ newline)) s; Some (3, s) }
          else
            do { s \<leftarrow> user_store (nat (int buf + cnt)) 0 s;
                 s \<leftarrow> ece391_fdputs w 1 (lit w ''Hello, '') s;
                 s \<leftarrow> ece391_fdputs w 1 buf s;
                 Some (0, s) } }"

definition testprint_main :: "world \<Rightarrow> kst \<Rightarrow> (int \<times> kst) option" where
  "testprint_main w s =
     do { s \<leftarrow> ece391_fdputs w 1 (lit w (''Hello, if this ran, the program was correct. Yay!'' @ newline)) s;
          Some (0, s) }"

text \<open>The terminator a program stores behind the buffer it has read.\<close>

lemma terminate_line:
  assumes "on_show s" and "user_bytes s buf (input @ replicate (128 - length input) 0)" and "length input \<le> 128"
    and "0 \<notin> set input" and "user_room buf 129" and "array_at (current s) buf 129 \<subseteq> A"
  shows "\<exists>t. user_store (buf + 128) 0 s = Some t \<and> emits A [] s t \<and> user_string t buf input \<and> cur_fd t = cur_fd s"
proof -
  let ?t = "put_user (buf + 128) [0] s"
  have room: "user_room (buf + 128) (length [0 :: u8])" using assms(5) by (simp add: user_room_def)
  have fr: "user_frame (current s) (buf + 128) = user_frame (current s) buf + 128"
    using assms(5) by (simp add: user_frame_def user_room_def)
  have "array_at (current s) (buf + 128) (length [0 :: u8]) \<subseteq> A" using assms(6) by (auto simp: array_at_def fr)
  then have e: "emits A [] s ?t" by (rule put_user_emits [OF assms(1) room])
  have "mem ?t (user_frame (current s) buf + i) = (input @ [0]) ! i" if "i < length (input @ [0])" for i
  proof -
    have "mem s (user_frame (current s) buf + i) = (input @ replicate (128 - length input) 0) ! i" if "i < 128"
      using assms(2,3) that by (simp add: user_bytes_def)
    then show ?thesis using that assms(3) by (cases "i = 128") (auto simp: put_user_def poke_def fr nth_append)
  qed
  then have "user_string ?t buf input"
    using assms(2-5) by (auto simp: user_string_def user_bytes_def user_room_def)
  then show ?thesis using user_store_eq [OF assms(1), of buf 128 0] assms(5) e by simp
qed

lemma hello_main_prints:
  assumes "on_show s" and "stdin_open s" and "types_line w ''Hi, what's your name? '' echo input s" and "0 \<notin> set input" and "BACKSPACE \<notin> set input"
    and "user_room buf 129" and "literals w (array_at (current s) buf 129) [''Hi, what's your name? '', ''Hello, ''] s"
  shows "\<exists>t. hello_main w buf s = Some (0, t) \<and> emits (array_at (current s) buf 129)
    (bytes_of ''Hi, what's your name? '' @ echo @ bytes_of ''Hello, '' @ input) s t"
proof -
  let ?A = "array_at (current s) buf 129"
  have len: "length input \<le> 128" using assms(3) by (simp add: types_line_def)
  obtain s1 where s1: "ece391_fdputs w 1 (lit w ''Hi, what's your name? '') s = Some s1"
    "emits ?A (bytes_of ''Hi, what's your name? '') s s1" "cur_fd s1 = cur_fd s" "enters w echo input s1"
    using prompts [OF assms(1,7) _ assms(3)] by auto
  have sub: "array_at (current s1) buf 129 \<subseteq> ?A" using emitsD(4) [OF s1(2)] by simp
  have "stdin_open s1" using assms(2) s1(3) by (simp add: stdin_open_def)
  then obtain s2 where s2: "ece391_read w 0 buf 1023 s1 = Some (128, s2)" "emits ?A echo s1 s2" "cur_fd s2 = cur_fd s1"
    "user_bytes s2 buf (input @ replicate (128 - length input) 0)"
    using read_all_call [OF emitsD(2) [OF s1(2)] _ s1(4) assms(6) sub] by auto
  note e2 = emits_trans [OF s1(2) s2(2)]
  have "array_at (current s2) buf 129 \<subseteq> ?A" using emitsD(4) [OF e2] by simp
  then obtain s3 where s3: "user_store (buf + 128) 0 s2 = Some s3" "emits ?A [] s2 s3" "user_string s3 buf input"
    using terminate_line [OF emitsD(2) [OF s2(2)] s2(4) len assms(4,6)] by blast
  note e3 = emits_trans [OF e2 s3(2), simplified]
  obtain s4 where s4: "ece391_fdputs w 1 (lit w ''Hello, '') s3 = Some s4"
    "emits ?A ((bytes_of ''Hi, what's your name? '' @ echo) @ bytes_of ''Hello, '') s s4" "prints (bytes_of ''Hello, '') s3 s4"
  proof -
    have l: "user_string s3 (lit w ''Hello, '') (bytes_of ''Hello, '')" "BACKSPACE \<notin> set (bytes_of ''Hello, '')"
      using literals_emits [OF e3 assms(7)] by (simp_all add: literals_def)
    show thesis
      using fdputs_prints [OF emitsD(2) [OF s3(2)] l, of w] prints_emits [OF _ emitsD(2) [OF s3(2)]] emits_trans [OF e3] that
      by blast
  qed
  have "user_string s4 buf input"
    using prints_string [OF s4(3) on_show_running [OF emitsD(2) [OF s3(2)]]] s3(3) by simp
  then obtain s5 where "ece391_fdputs w 1 buf s4 = Some s5" "emits ?A input s4 s5"
    using puts_emits [OF emitsD(2) [OF s4(2)] _ assms(5)] by blast
  moreover from this(2) have "emits ?A (bytes_of ''Hi, what's your name? '' @ echo @ bytes_of ''Hello, '' @ input) s s5"
    using emits_trans [OF s4(2)] by fastforce
  ultimately show ?thesis using s1(1) s2(1) s3(1) s4(1) by (simp add: hello_main_def nat_add_distrib)
qed

subsection \<open>The shell\<close>

definition report :: "world \<Rightarrow> int \<Rightarrow> kst \<Rightarrow> kst option" where
  "report w rval s =
     (if rval = -1 then ece391_fdputs w 1 (lit w (''no such command'' @ newline)) s
      else if rval = 256 then ece391_fdputs w 1 (lit w (''program terminated by exception'' @ newline)) s
      else if rval \<noteq> 0 then ece391_fdputs w 1 (lit w (''program terminated abnormally'' @ newline)) s
      else Some s)"

partial_function (option) shell_loop :: "world \<Rightarrow> nat \<Rightarrow> kst \<Rightarrow> (int \<times> kst) option" where
  "shell_loop w buf s =
     do { s \<leftarrow> ece391_fdputs w 1 (lit w ''391OS> '') s;
          (cnt, s) \<leftarrow> ece391_read w 0 buf 1023 s;
          if cnt = -1 then
            do { s \<leftarrow> ece391_fdputs w 1 (lit w (''read from keyboard failed'' @ newline)) s; Some (3, s) }
          else
            do { cnt \<leftarrow> (if cnt > 0 then
                     do { c \<leftarrow> uview s (nat (int buf + cnt - 1)); Some (if c = 0x0A then cnt - 1 else cnt) }
                   else Some cnt);
                 s \<leftarrow> user_store (nat (int buf + cnt)) 0 s;
                 r \<leftarrow> ece391_strcmp (ptr s buf) (ptr s (lit w ''exit''));
                 if r = 0 then Some (0, s)
                 else
                   do { c \<leftarrow> uview s buf;
                        if c = 0 then shell_loop w buf s
                        else
                          do { (rval, s) \<leftarrow> ece391_execute w buf s;
                               s \<leftarrow> report w rval s;
                               shell_loop w buf s } } } }"

definition shell_main :: "world \<Rightarrow> nat \<Rightarrow> kst \<Rightarrow> (int \<times> kst) option" where
  "shell_main w buf s =
     do { s \<leftarrow> ece391_fdputs w 1 (lit w (''Starting 391 Shell'' @ newline)) s; shell_loop w buf s }"

text \<open>
  The line \<open>execute\<close> gets: with its newline, unless it fills the buffer, since \<open>cnt\<close> is 128 for every
  line and only the last byte of the buffer is compared with the newline.
\<close>

definition passed :: "u8 list \<Rightarrow> u8 list" where
  "passed cmd = (if length cmd = 127 then cmd else cmd @ [0x0A])"

lemma user_bytes_nth: "on_show s \<Longrightarrow> user_bytes s a bs \<Longrightarrow> i < length bs \<Longrightarrow> uview s (a + i) = Some (bs ! i)"
  by (rule user_bytes_uview)

lemma cut_line:
  assumes "on_show s" and "length cmd \<le> 127" and "0 \<notin> set cmd"
    and "user_bytes s buf ((cmd @ [0x0A]) @ replicate (128 - length (cmd @ [0x0A])) 0)"
    and "user_room buf 129" and "array_at (current s) buf 129 \<subseteq> A"
  shows "\<exists>n c t. uview s (buf + 127) = Some c \<and> n = (if c = 0x0A then 127 else 128) \<and>
     user_store (buf + n) 0 s = Some t \<and> emits A [] s t \<and> user_string t buf (passed cmd) \<and> cur_fd t = cur_fd s"
proof (cases "length cmd = 127")
  case True
  then have b: "user_bytes s buf (cmd @ [0x0A])" using assms(4) by simp
  then have "uview s (buf + 127) = Some 0x0A" using user_bytes_nth [OF assms(1) b, of 127] True by (simp add: nth_append)
  moreover obtain t where "user_store (buf + 127) 0 s = Some t" "emits A [] s t" "user_bytes t buf (cmd @ [0])" "cur_fd t = cur_fd s"
  proof -
    have "array_at (current s) buf (Suc (length cmd)) \<subseteq> A" using assms(6) True by (auto simp: array_at_def)
    then show thesis
      using store_next [OF assms(1) user_bytes_append [OF b] user_room_less [OF assms(5)], of A 0] True that by auto
  qed
  ultimately show ?thesis using True assms(3) by (auto simp: passed_def user_string_def)
next
  case False
  then have len: "length (cmd @ [0x0A]) \<le> 127" using assms(2) by simp
  have "uview s (buf + 127) = Some (((cmd @ [0x0A]) @ replicate (128 - length (cmd @ [0x0A])) 0) ! 127)"
    by (rule user_bytes_nth [OF assms(1,4)]) (use len in simp)
  also have "((cmd @ [0x0A]) @ replicate (128 - length (cmd @ [0x0A])) 0) ! 127 = (0 :: u8)"
    using len by (subst nth_append) simp
  finally have "uview s (buf + 127) = Some 0" .
  moreover obtain t where "user_store (buf + 128) 0 s = Some t" "emits A [] s t" "user_string t buf (cmd @ [0x0A])" "cur_fd t = cur_fd s"
    using terminate_line [OF assms(1,4) _ _ assms(5,6)] len assms(3) by auto
  ultimately show ?thesis using False by (simp add: passed_def)
qed

lemma shell_round_eq:
  assumes "on_show s" and "stdin_open s" and "types_line w ''391OS> '' echo (cmd @ [0x0A]) s" and "0 \<notin> set cmd"
    and "user_room buf 129" and "literals w (array_at (current s) buf 129) [''391OS> '', ''exit''] s"
  shows "\<exists>u. emits (array_at (current s) buf 129) (bytes_of ''391OS> '' @ echo) s u \<and> cur_fd u = cur_fd s \<and>
     user_string u buf (passed cmd) \<and>
     shell_loop w buf s = do { (rval, t) \<leftarrow> ece391_execute w buf u; t \<leftarrow> report w rval t; shell_loop w buf t }"
proof -
  let ?A = "array_at (current s) buf 129" and ?in = "cmd @ [0x0A]"
  have len: "length cmd \<le> 127" using assms(3) by (simp add: types_line_def)
  obtain s1 where s1: "ece391_fdputs w 1 (lit w ''391OS> '') s = Some s1" "emits ?A (bytes_of ''391OS> '') s s1" "cur_fd s1 = cur_fd s"
    "enters w echo (cmd @ [0x0A]) s1"
    using prompts [OF assms(1,6) _ assms(3)] by auto
  have sub: "array_at (current s1) buf 129 \<subseteq> ?A" using emitsD(4) [OF s1(2)] by simp
  have "stdin_open s1" using assms(2) s1(3) by (simp add: stdin_open_def)
  then obtain s2 where s2: "ece391_read w 0 buf 1023 s1 = Some (128, s2)" "emits ?A echo s1 s2" "cur_fd s2 = cur_fd s1"
    "user_bytes s2 buf (?in @ replicate (128 - length ?in) 0)"
    using read_all_call [OF emitsD(2) [OF s1(2)] _ s1(4) assms(5) sub] by auto
  note e2 = emits_trans [OF s1(2) s2(2)]
  have "array_at (current s2) buf 129 \<subseteq> ?A" using emitsD(4) [OF e2] by simp
  then obtain n c u where u: "uview s2 (buf + 127) = Some c" "n = (if c = 0x0A then 127 else 128)"
    "user_store (buf + n) 0 s2 = Some u" "emits ?A [] s2 u" "user_string u buf (passed cmd)" "cur_fd u = cur_fd s2"
    using cut_line [OF emitsD(2) [OF s2(2)] len assms(4) s2(4) assms(5)] by blast
  note eu = emits_trans [OF e2 u(4), simplified]
  have "user_string u (lit w ''exit'') (bytes_of ''exit'')" using literals_emits [OF eu assms(6)] by (simp add: literals_def)
  note strs = user_string_cstr(1) [OF emitsD(2) [OF u(4)]]
  have "passed cmd \<noteq> bytes_of ''exit''" by (auto simp: passed_def bytes_of_def)
  then obtain r where r: "ece391_strcmp (ptr u buf) (ptr u (lit w ''exit'')) = Some r" "r \<noteq> 0"
    using ece391_strcmp_zero_iff [OF strs strs] \<open>user_string u (lit w ''exit'') _\<close> u(5) by blast
  have ne: "passed cmd \<noteq> []" "0 \<notin> set (passed cmd)" using assms(4) by (auto simp: passed_def)
  have b0: "uview u buf = Some (passed cmd ! 0)" "passed cmd ! 0 \<noteq> 0"
    using cstr_char [OF strs [OF u(5)], of 0] ne by (auto simp: ptr_def in_set_conv_nth)
  have at: "nat (127 + int buf) = buf + 127" "nat (int buf + 127) = buf + 127" "nat (int buf + 128) = buf + 128"
    by (simp_all add: nat_add_distrib)
  have "shell_loop w buf s = do { (rval, t) \<leftarrow> ece391_execute w buf u; t \<leftarrow> report w rval t; shell_loop w buf t }"
    using s1(1) s2(1) u(1-3) at r b0 by (subst shell_loop.simps) (auto split: if_splits)
  then show ?thesis using eu u(5,6) s2(3) s1(3) by auto
qed

subsection \<open>A command the shell does not find\<close>

text \<open>The calls of the program that wait or enter another one find a frame of the right shape.\<close>

definition frames_fit :: "world \<Rightarrow> bool" where
  "frames_fit w \<longleftrightarrow> (\<forall>s. frame_ok (frames w s))"

lemma argued_emits:
  assumes "on_show s" and "argued s t"
  shows "emits A [] s t" "cur_fd t = cur_fd s"
proof -
  note a = argued [OF on_show_running [OF assms(1)] assms(2)]
  have fd: "cur_fd t = cur_fd s" if "length (pcb s) = 6" "current s < 6"
    using assms(2) that a(2) by (auto simp: argued_def put_arg_def cur_fd_def fun_eq_iff)
  have len: "length (pcb s) = 6" "current s < 6"
    using runningD [OF on_show_running [OF assms(1)]] by (simp_all add: kernel_okD(2))
  show "cur_fd t = cur_fd s" by (rule fd [OF len])
  have "same_block (pcb s ! current s) (pcb t ! current s)" "\<forall>q. q \<noteq> current s \<longrightarrow> pcb t ! q = pcb s ! q"
    using assms(2) len by (auto simp: argued_def put_arg_def same_block_def)
  moreover have "screen_of t = screen_of s" "rtc_block t = rtc_block s"
    using assms(2) by (auto simp: argued_def put_arg_def screen_of_def)
  ultimately show "emits A [] s t"
    using assms(1) a fd [OF len] by (simp add: emits_def on_show_def typed_def)
qed

lemma execute_call:
  assumes "fits command" and "command \<noteq> 0"
    and "execute (frames w s) (Some (\<lambda>i. kview s (command + i))) s = Some (c, t)"
  shows "ece391_execute w command s = (case c of Returned r \<Rightarrow> Some (sint (word_of_int r :: u32), t) | _ \<Rightarrow> goes_on w c t)"
proof -
  have "(word_of_nat command :: u32) \<noteq> 0" using fits_unat [OF assms(1)] assms(2) by auto
  then show ?thesis
    using assms(3) fits_unat [OF assms(1)] by (simp add: ece391_execute_def do_call_def syscall_def)
qed

definition command_line :: "u8 list \<Rightarrow> nat \<Rightarrow> u8 list \<Rightarrow> nat \<Rightarrow> u8 list \<Rightarrow> bool" where
  "command_line xs a nm b arg \<longleftrightarrow> xs = replicate a 0x20 @ nm @ replicate b 0x20 @ arg \<and>
     nm \<noteq> [] \<and> (\<forall>c \<in> set nm. name_char c) \<and>
     (arg \<noteq> [] \<longrightarrow> (0 < b \<or> hd arg = 0x0A) \<and> hd arg \<noteq> 0x20) \<and> length xs < 128"

lemma command_line_cstr: "command_line xs a nm b arg \<Longrightarrow> cstr v xs \<Longrightarrow> cmd_line v a nm b arg"
  by (auto simp: command_line_def cmd_line_def)

lemma user_string_line:
  assumes "on_show s" and "user_string s buf xs" and "command_line xs a nm b arg"
  shows "cmd_line (\<lambda>i. kview s (buf + i)) a nm b arg"
  by (rule command_line_cstr [OF assms(3) user_string_cstr(2) [OF assms(1,2)]])

lemma user_readable:
  assumes "on_show s" and "user_room buf n" and "k < n"
  shows "kview s (buf + k) = Some (mem s (user_frame (current s) buf + k))"
  by (rule kview_user [OF user_room_range [OF assms(1,2)] assms(3)])

text \<open>\<open>execute\<close> gets past its test for \<open>exit\<close> in a program without a parent too, where \<open>halt\<close> returns.\<close>

lemma execute_named:
  assumes "cmd_line v a nm b arg" and "\<And>k. k < 128 \<Longrightarrow> v k = Some (g k)" and "running s"
    and "is_exit nm \<longrightarrow> parent (pcb s ! current s) = -1"
  shows "\<exists>s1. argued s s1 \<and> execute fr (Some v) s = run_program fr (padded_name nm) s1"
proof (cases "is_exit nm")
  case False
  then show ?thesis using execute_parsed [OF assms(1-3)] by blast
next
  case True
  have len: "length nm < 128" using assms(1) by (simp add: cmd_line_def)
  obtain t where t: "argued s t" and parse: "parse_cmd v (replicate 128 0) s =
      Some (int (length nm) + 1, nm @ replicate (128 - length nm) 0, t)"
    using parse_cmd_argued [OF assms(1-3)] by auto
  note arg = argued [OF assms(3) t]
  obtain A where "pcb t ! current s = (pcb s ! current s)\<lparr>argument := A\<rparr>" using arg(13) by blast
  then have "halt 0 t = Some (Returned 0, t)" using halt_base [OF arg(1)] assms(4) True arg(2) by simp
  then have "execute fr (Some v) s = run_program fr (padded_name nm) t"
    using parse fill_spaces [OF len] exit_bool_iff [of nm] True by (simp add: execute_def del: upt_rec_numeral)
  then show ?thesis using t by blast
qed

lemma execute_missing_call:
  assumes "on_show s" and "user_string s buf xs" and "user_room buf 129" and "frames_fit w"
    and "command_line xs a nm b arg" and "is_exit nm \<longrightarrow> parent (pcb s ! current s) = -1"
    and "dir_ok (fs_image s) (fs s) ds" and "find (\<lambda>d. dentry_name d = nm) ds = None"
  shows "\<exists>t. ece391_execute w buf s = Some (-1, t) \<and> emits A [] s t \<and> cur_fd t = cur_fd s"
proof -
  note fits = user_room_fits [OF assms(3)]
  let ?v = "\<lambda>i. kview s (buf + i)"
  note line = user_string_line [OF assms(1,2,5)]
  obtain t where t: "argued s t" "execute (frames w s) (Some ?v) s = run_program (frames w s) (padded_name nm) t"
    using execute_named [OF line user_readable [OF assms(1,3)] on_show_running [OF assms(1)] assms(6)] by auto
  note arg = argued [OF on_show_running [OF assms(1)] t(1)]
  have "dir_ok (fs_image t) (fs t) ds" using assms(7) by (simp add: arg)
  then have "exec_dentry (frames w s) (padded_name nm) t = Some None"
    using exec_dentry_missing [OF runningD(1) [OF arg(1)] _ _ cstr_padded_name [OF cmd_line_nonzero [OF line]]] assms(4,8)
    by (simp add: frames_fit_def)
  then have "execute (frames w s) (Some ?v) s = Some (Returned (-1), t)" using t(2) by (simp add: run_program_def)
  moreover have "sint (word_of_int (- 1) :: u32) = - 1" by simp
  ultimately have "ece391_execute w buf s = Some (-1, t)" using execute_call fits by simp
  then show ?thesis using argued_emits [OF assms(1) t(1)] by blast
qed

end
