(* ===== verification/Shell_Instances.thy ===== *)
theory Shell_Instances
  imports User_Shell
begin

text \<open>
  A concrete machine for the instances of the sessions: the shell is process 0 on the terminal on
  display, at its prompt; the file system holds the directory, a program \<open>cat\<close> of 28 bytes and a file
  \<open>me\<close> with the content \<open>Hi\<close>; the user types one line, without an echo.
\<close>

definition shell_image :: view where
  "shell_image a = Some
     (if a = 0 then 3 else if a = 4 then 2 else if a = 8 then 2
      else if a = 64 then 0x2E else if a = 96 then 1
      else if 128 \<le> a \<and> a < 131 then bytes_of ''cat'' ! (a - 128) else if a = 160 then 2
      else if 192 \<le> a \<and> a < 194 then bytes_of ''me'' ! (a - 192) else if a = 224 then 2 else if a = 228 then 1
      else if a = 4096 then 28
      else if a = 8192 then 2 else if a = 8196 then 1
      else if 12288 \<le> a \<and> a < 12316 then sample_elf ! (a - 12288)
      else if 16384 \<le> a \<and> a < 16386 then bytes_of ''Hi'' ! (a - 16384)
      else 0)"

definition shell_fs :: fs_vars where
  "shell_fs = \<lparr>fs_base_addr = OFF_4MB, num_db = 2, num_inodes = 2, num_dentries = 3,
     boot_block = OFF_4MB, inodes = OFF_4MB + 4096, data_blocks = OFF_4MB + 12288\<rparr>"

definition shell_dir :: "dentry list" where
  "shell_dir =
     [\<lparr>file_name = 0x2E # replicate 31 0, file_type = 1, inode_num = 0, reserved = replicate 24 0\<rparr>,
      \<lparr>file_name = bytes_of ''cat'' @ replicate 29 0, file_type = 2, inode_num = 0, reserved = replicate 24 0\<rparr>,
      \<lparr>file_name = bytes_of ''me'' @ replicate 30 0, file_type = 2, inode_num = 1, reserved = replicate 24 0\<rparr>]"

definition bare_shell :: kst where
  "bare_shell = running_kernel\<lparr>fs := shell_fs, mem := (\<lambda>a. if OFF_4MB \<le> a then the (shell_image (a - OFF_4MB)) else 0)\<rparr>"

definition shell_kernel :: "string list \<Rightarrow> kst" where
  "shell_kernel txts = put_user LITERALS (literal_image txts) bare_shell"

lemma bare_shell:
  "on_show bare_shell" "stdin_open bare_shell" "current bare_shell = 0"
  "pcb bare_shell = replicate 3 (booted_pb PCB_EXISTS) @ replicate 3 (booted_pb PCB_ABSENT)"
  "tmnl_block bare_shell = map booted_tmnl [0..<3]" "fs bare_shell = shell_fs"
  "fs_image bare_shell a = (if OFF_4MB \<le> a \<and> a < OFF_8MB then shell_image (a - OFF_4MB) else None)"
proof -
  show cur: "current bare_shell = 0"
    by (simp add: bare_shell_def running_kernel_def current_def booted_kernel_def booted_tmnl_def)
  show pcbs: "pcb bare_shell = replicate 3 (booted_pb PCB_EXISTS) @ replicate 3 (booted_pb PCB_ABSENT)"
    and "tmnl_block bare_shell = map booted_tmnl [0..<3]" and "fs bare_shell = shell_fs"
    by (simp_all add: bare_shell_def running_kernel_def booted_kernel_def del: upt_rec_numeral)
  have "kernel_ok bare_shell"
    using running_kernel_ok by (simp add: bare_shell_def kernel_ok_def screen_ok_def)
  then have "running bare_shell"
    by (simp add: running_def bare_shell_def running_kernel_def booted_kernel_def booted_tmnl_def)
  moreover have "paging_inv (Some 0) (pg bare_shell)" using running_kernel_inv by (simp add: bare_shell_def)
  moreover have "exec_terminal bare_shell = active_terminal bare_shell"
    by (simp add: bare_shell_def running_kernel_def booted_kernel_def)
  moreover have "cur_fd bare_shell 1 = stdout_fd" "cur_fd bare_shell 0 = stdin_fd"
    unfolding cur_fd_def cur pcbs by (simp_all add: booted_pb_def stdout_fd_def stdin_fd_def nth_append)
  ultimately show "on_show bare_shell" "stdin_open bare_shell"
    using cur by (simp_all add: on_show_def stdin_open_def stdout_fd_def stdin_fd_def)
  show "fs_image bare_shell a = (if OFF_4MB \<le> a \<and> a < OFF_8MB then shell_image (a - OFF_4MB) else None)"
    by (simp add: bare_shell_def fs_image_def shell_image_def)
qed

lemma shell_dir_ok: "dir_ok (fs_image bare_shell) shell_fs shell_dir"
proof -
  have d: "load_dentry (fs_image bare_shell) (dentry_addr shell_fs 0) = Some (shell_dir ! 0)"
    "load_dentry (fs_image bare_shell) (dentry_addr shell_fs 1) = Some (shell_dir ! 1)"
    "load_dentry (fs_image bare_shell) (dentry_addr shell_fs 2) = Some (shell_dir ! 2)"
    by (simp_all add: load_dentry_def dentry_addr_def shell_fs_def shell_dir_def shell_image_def bytes_of_def
        rd32_def le32_def unfold_replicate bare_shell(7))
  have "num_dentries shell_fs = 3" "length shell_dir = 3"
    by (simp_all add: shell_fs_def shell_dir_def)
  moreover have "i < 3 \<Longrightarrow> i = 0 \<or> i = 1 \<or> i = 2" for i :: nat by linarith
  ultimately show ?thesis using d by (auto simp: dir_ok_def)
qed

lemma shell_files:
  "file_ok (fs_image bare_shell) shell_fs 0 sample_elf" "file_ok (fs_image bare_shell) shell_fs 1 (bytes_of ''Hi'')"
  by (auto simp: file_ok_def inode_length_def inode_data_def inode_addr_def data_addr_def rd32_def
      le32_def bare_shell(7) shell_image_def shell_fs_def sample_elf)

lemma shell_names:
  "find (\<lambda>d. dentry_name d = bytes_of ''cat'') shell_dir = Some (shell_dir ! 1)"
  "find (\<lambda>d. dentry_name d = bytes_of ''me'') shell_dir = Some (shell_dir ! 2)"
  by (simp_all add: shell_dir_def dentry_name_def bytes_of_def)

subsection \<open>The shell with its literals\<close>

lemma shell_kernel:
  assumes "length (literal_image txts) \<le> 0x10000"
  shows "on_show (shell_kernel txts)" "stdin_open (shell_kernel txts)" "current (shell_kernel txts) = 0"
    "pcb (shell_kernel txts) = pcb bare_shell" "tmnl_block (shell_kernel txts) = tmnl_block bare_shell"
    "fs (shell_kernel txts) = shell_fs" "fs_image (shell_kernel txts) = fs_image bare_shell"
    "screen_of (shell_kernel txts) = screen_of bare_shell" "exec_terminal (shell_kernel txts) = 0"
    "user_bytes (shell_kernel txts) LITERALS (literal_image txts)"
proof -
  have room: "user_room LITERALS (length (literal_image txts))" using assms by (simp add: user_room_def)
  have e: "emits UNIV [] bare_shell (shell_kernel txts)"
    unfolding shell_kernel_def by (rule put_user_emits [OF bare_shell(1) room]) simp
  note d = emitsD [OF e]
  show "on_show (shell_kernel txts)" "fs (shell_kernel txts) = shell_fs" "fs_image (shell_kernel txts) = fs_image bare_shell"
    "current (shell_kernel txts) = 0" "screen_of (shell_kernel txts) = screen_of bare_shell"
    using d bare_shell(3,6) by (simp_all add: typed_def)
  show "stdin_open (shell_kernel txts)" using bare_shell(2) by (simp add: stdin_open_def shell_kernel_def)
  show "pcb (shell_kernel txts) = pcb bare_shell" "tmnl_block (shell_kernel txts) = tmnl_block bare_shell"
    by (simp_all add: shell_kernel_def put_user_def)
  show "exec_terminal (shell_kernel txts) = 0"
    by (simp add: shell_kernel_def put_user_def bare_shell_def running_kernel_def booted_kernel_def)
  show "user_bytes (shell_kernel txts) LITERALS (literal_image txts)"
    unfolding shell_kernel_def by (rule put_user_bytes [OF room])
qed

definition typing_world :: "string list \<Rightarrow> u8 list \<Rightarrow> (control \<Rightarrow> kst \<Rightarrow> (int \<times> kst) option) \<Rightarrow> world" where
  "typing_world txts input goes = (sample_world txts)
     \<lparr>waits := (\<lambda>_ s. Some (with_line KB_PRESSED (input @ replicate (128 - length input) 0) (word_of_nat (length input)) s)),
      goes_on := goes\<rparr>"

lemma typing_world_frames: "frames_fit (typing_world txts input goes)"
  by (simp add: frames_fit_def typing_world_def sample_world_def sample_frame_ok)

lemma typing_line:
  assumes "on_show s" and "enter_flag (tmnl_block s ! nat (exec_terminal s)) = KB_PENDING" and "length input \<le> 128"
  shows "types_line (typing_world txts input goes) prompt [] input s"
  unfolding types_line_def
proof (intro conjI allI impI)
  let ?w = "typing_world txts input goes" and ?bs = "input @ replicate (128 - length input) (0 :: u8)"
  let ?e = "nat (exec_terminal s)"
  show "length input \<le> 128" by (rule assms(3))
  fix t assume t: "prints (bytes_of prompt) s t"
  note r = runningD [OF on_show_running [OF assms(1)]]
  have show_t: "on_show t" by (rule prints_on_show [OF t assms(1)])
  have n: "length ?bs = 128" "unat (word_of_nat (length input) :: u8) \<le> 128"
    using assms(3) by (simp_all add: unat_of_nat take_bit_eq_mod)
  let ?u = "with_line KB_PRESSED ?bs (word_of_nat (length input)) t"
  note u = with_line_emits [where flag = KB_PRESSED, OF show_t n]
  have et: "exec_terminal t = exec_terminal s" by (rule prints_fields(2) [OF t])
  have e: "?e < 3" using kernel_okD(7) [OF r(1)] by simp
  have "no_pos (tmnl_block t ! ?e) = no_pos (tmnl_block s ! ?e)" by (rule prints_tmnl [OF t r(1) e])
  then have "enter_flag (tmnl_block t ! ?e) = KB_PENDING"
    using assms(2) by (cases "tmnl_block t ! ?e"; cases "tmnl_block s ! ?e") (simp add: no_pos_def)
  then have pend: "enter_pending (sti (cli t))" using et by (simp add: enter_pending_def cli_def sti_def)
  have ok: "kernel_ok t" "kernel_ok ?u" using runningD(1) [OF on_show_running] show_t emitsD(2) [OF u(1)] by blast+
  have "length (tmnl_block t) = 3" by (rule kernel_okD(1) [OF ok(1)])
  then have "\<not> enter_pending ?u" using et e by (simp add: enter_pending_def with_line_def)
  moreover have "env_run (waits ?w) 1 (sti (cli t)) = Some ?u"
    by (simp add: typing_world_def with_line_def cli_def sti_def)
  ultimately have "wait_enter (waits ?w) (sti (cli t)) = Some ?u"
    by (intro wait_enter_returns [where k = 1]) (use ok pend in auto)
  then show "enters ?w [] input t" using assms(3) u by (auto simp: enters_def)
qed

lemma shell_pending: "length (literal_image txts) \<le> 0x10000 \<Longrightarrow> enter_flag (tmnl_block (shell_kernel txts) ! nat (exec_terminal (shell_kernel txts))) = KB_PENDING"
  using shell_kernel(5,9) [of txts] bare_shell(5) by (simp add: booted_tmnl_def)

text \<open>The sample program as one that reads from the terminal.\<close>

lemma sample_reader:
  assumes "length (literal_image txts) \<le> 0x10000" and "\<forall>x \<in> set txts. \<forall>c \<in> set (bytes_of x). c \<noteq> 0 \<and> c \<noteq> BACKSPACE"
    and "\<forall>a \<in> A. a < user_frame 3 LITERALS" and "length input \<le> 128"
  shows "child (sample_program [] txts)" "stdin_open (sample_program [] txts)" "current (sample_program [] txts) = 3"
    "literals (typing_world txts input goes) A txts (sample_program [] txts)"
    "types_line (typing_world txts input goes) prompt [] input (sample_program [] txts)"
    "cur_fd (sample_program [] txts) i = fd_table (booted_pb PCB_ABSENT) ! i"
proof -
  have len: "length ([] :: u8 list) < 128" by simp
  note p = sample_program [OF len assms(1)] and c = sample_child [OF len]
  show "child (sample_program [] txts)" "current (sample_program [] txts) = 3" by (rule p(1), rule p(2))
  have fd: "cur_fd (sample_program [] txts) i = fd_table (booted_pb PCB_ABSENT) ! i" for i
    using c(8) p(2,10) by (simp add: cur_fd_def)
  then show "cur_fd (sample_program [] txts) i = fd_table (booted_pb PCB_ABSENT) ! i" .
  show "stdin_open (sample_program [] txts)" by (simp add: stdin_open_def fd booted_pb_def)
  show "literals (typing_world txts input goes) A txts (sample_program [] txts)"
    by (rule placed_literals [OF p(9) _ assms(2)]) (use assms(3) p(2) in \<open>simp_all add: typing_world_def\<close>)
  show "types_line (typing_world txts input goes) prompt [] input (sample_program [] txts)"
    by (rule typing_line [OF child_on_show [OF p(1)] _ assms(4)]) (use p(11,12) c(10) in simp)
qed

end
