(* ===== verification/User_Session.thy ===== *)
theory User_Session
  imports User_Programs Shell_Instances
begin

text \<open>
  A session: the shell starts a program, the program runs, and the shell goes on. The kernel calls of
  the two programs, the loading of the one by the other and the return from \<open>halt\<close> are those of the
  kernel model; the parameter \<open>goes_on\<close> of the world is instantiated by the program's own source
  (\<open>runs_as\<close>).
\<close>

subsection \<open>What a session keeps\<close>

text \<open>The physical memory behind the page of a process.\<close>

definition page_of :: "nat \<Rightarrow> nat set" where
  "page_of pid = {OFF_8MB + OFF_4MB * pid..<OFF_8MB + OFF_4MB * pid + OFF_4MB}"

text \<open>
  Between \<open>s\<close> and \<open>t\<close> the screen has got the bytes \<open>cs\<close>, and the program that runs in both is as before:
  its memory but for \<open>A\<close>, its standard input and process links; no slot is lost.
\<close>

definition session :: "nat set \<Rightarrow> u8 list \<Rightarrow> kst \<Rightarrow> kst \<Rightarrow> bool" where
  "session A cs s t \<longleftrightarrow>
     on_show s \<and> on_show t \<and> screen_of t = typed s cs \<and> current t = current s \<and>
     active_terminal t = active_terminal s \<and> fs t = fs s \<and> fs_image t = fs_image s \<and>
     cur_fd t 0 = cur_fd s 0 \<and> same_block (pcb s ! current s) (pcb t ! current s) \<and>
     pcb_free (pcb t) = pcb_free (pcb s) \<and> (\<forall>a \<in> page_of (current s) - A. mem t a = mem s a)"

lemma page_of_high: "a \<in> page_of pid \<Longrightarrow> 0xBC000 \<le> a"
  by (simp add: page_of_def)

lemma array_page: "user_room a n \<Longrightarrow> array_at pid a n \<subseteq> page_of pid"
  by (auto simp: array_at_def page_of_def user_frame_def user_room_def)

lemma page_disjoint: "p \<noteq> q \<Longrightarrow> page_of p \<inter> page_of q = {}"
proof -
  assume "p \<noteq> q"
  then consider "Suc p \<le> q" | "Suc q \<le> p" by linarith
  then show ?thesis
  proof cases
    case 1
    then have "OFF_4MB * Suc p \<le> OFF_4MB * q" by (rule mult_le_mono2)
    then show ?thesis by (auto simp: page_of_def)
  next
    case 2
    then have "OFF_4MB * Suc q \<le> OFF_4MB * p" by (rule mult_le_mono2)
    then show ?thesis by (auto simp: page_of_def)
  qed
qed

lemma emits_slots:
  assumes "emits A cs s t"
  shows "pcb_free (pcb t) = pcb_free (pcb s)"
proof
  fix q
  show "pcb_free (pcb t) q = pcb_free (pcb s) q"
    using emits_blocks [OF assms] same_blockD(4) [of "pcb s ! current s" "pcb t ! current s"]
    by (cases "q = current s") (simp_all add: pcb_free_def)
qed

lemma emits_session:
  assumes "emits A cs s t" and "cur_fd t 0 = cur_fd s 0"
  shows "session A cs s t"
  using assms emits_slots [OF assms(1)] emits_blocks [OF assms(1)] page_of_high by (auto simp: session_def emits_def)

lemma session_trans:
  assumes "session A cs s t" and "session A ds t u"
  shows "session A (cs @ ds) s u"
proof -
  have "typed t ds = typed s (cs @ ds)" using assms(1) by (simp add: session_def typed_def)
  then show ?thesis using assms by (simp add: session_def same_block_def)
qed

lemma session_literals:
  assumes "session A cs s t" and "literals w A txts s"
  shows "literals w A txts t"
  unfolding literals_def
proof (intro ballI conjI)
  note s = assms(1) [unfolded session_def]
  fix x assume x: "x \<in> set txts"
  note l = assms(2) [unfolded literals_def, rule_format, OF x]
  show "BACKSPACE \<notin> set (bytes_of x)" using l by simp
  show disj: "array_at (current t) (lit w x) (Suc (length x)) \<inter> A = {}" using l s by simp
  have b: "user_bytes s (lit w x) (bytes_of x @ [0])" "0 \<notin> set (bytes_of x)" using l by (simp_all add: user_string_def)
  have "mem t (user_frame (current s) (lit w x) + i) = mem s (user_frame (current s) (lit w x) + i)" if i: "i < Suc (length x)" for i
  proof -
    have "user_frame (current s) (lit w x) + i \<in> array_at (current s) (lit w x) (Suc (length x))" using i by (simp add: array_at_def)
    then have "user_frame (current s) (lit w x) + i \<in> page_of (current s) - A"
      using array_page [OF user_bytes_room [OF b(1)], of "current s"] l by auto
    then show ?thesis using s by blast
  qed
  then show "user_string t (lit w x) (bytes_of x)"
    using b s by (auto simp: user_string_def user_bytes_def)
qed

subsection \<open>Starting a program\<close>

text \<open>
  The state in which the program of the file \<open>img\<close> starts as process \<open>pid\<close>, the child of the one that
  runs in \<open>s\<close>, and what it has of \<open>s\<close>.
\<close>

definition spawned :: "kst \<Rightarrow> nat \<Rightarrow> u8 list \<Rightarrow> kst \<Rightarrow> bool" where
  "spawned s pid img c \<longleftrightarrow>
     child c \<and> current c = pid \<and> pid \<noteq> current s \<and> parent (pcb c ! pid) = int (current s) \<and>
     free_fd c = Some 2 \<and> stdin_open c \<and> user_bytes c PROGRAM_START img \<and>
     screen_of c = screen_of s \<and> active_terminal c = active_terminal s \<and> fs c = fs s \<and> fs_image c = fs_image s \<and>
     (\<forall>a. a \<notin> page_of pid \<longrightarrow> mem c a = mem s a) \<and>
     (\<exists>arg. pcb c ! current s = (pcb s ! current s)\<lparr>argument := arg\<rparr>) \<and>
     (\<forall>q. q \<noteq> pid \<and> q \<noteq> current s \<longrightarrow> pcb c ! q = pcb s ! q)"

lemma fresh_descriptors:
  assumes "frame_ok fr" and "fd_table (pcb c ! current c) = fd_table (fresh_pb (frame_process fr) par)"
  shows "cur_fd c 0 = stdin_fd" "cur_fd c 1 = stdout_fd" "free_fd c = Some 2"
proof -
  show "cur_fd c 0 = stdin_fd" "cur_fd c 1 = stdout_fd"
    using assms(2) by (simp_all add: cur_fd_def fresh_pb_def)
  have "fd_flags (cur_fd c 2) = FD_ABSENT"
    using assms by (simp add: cur_fd_def fresh_pb_def frame_ok_def)
  then show "free_fd c = Some 2" by (simp add: free_fd_def upt_rec)
qed

lemma poke_page:
  assumes "length bytes \<le> PROGRAM_MAX" and "a \<notin> page_of pid"
  shows "poke (user_frame pid PROGRAM_START) bytes m a = m a"
  using assms by (auto simp: poke_def page_of_def user_frame_def)

lemma poked_image:
  "length bytes \<le> PROGRAM_MAX \<Longrightarrow> mem c = poke (user_frame (current c) PROGRAM_START) bytes m \<Longrightarrow> user_bytes c PROGRAM_START bytes"
  by (simp add: user_bytes_def poke_def)

lemma shown_current: "on_show s \<Longrightarrow> shown s = int (current s)"
  by (auto simp: on_show_def shown_def current_def running_def)

lemma execute_spawns:
  assumes "on_show s" and "user_string s buf xs" and "user_room buf 129" and "frames_fit w"
    and "command_line xs a nm b arg" and "\<not> is_exit nm" and "program s ds nm cur img"
    and "find (pcb_free (pcb s)) [0..<6] = Some pid" and "3 \<le> pid" and "pid \<noteq> current s"
  shows "\<exists>ws c. execute (frames w s) (Some (\<lambda>i. kview s (buf + i))) s = Some (Enter_user ws, c) \<and>
     spawned s pid img c \<and> (arg \<noteq> [] \<longrightarrow> has_argument c (arg_text b arg))"
proof -
  let ?fr = "frames w s"
  have fr: "frame_ok ?fr" using assms(4) by (simp add: frames_fit_def)
  have run: "running s" by (rule on_show_running [OF assms(1)])
  obtain s1 p where s1: "argued s s1" "kept_argument b arg s1" and p: "paging_inv (Some pid) p"
    and ex: "execute ?fr (Some (\<lambda>i. kview s (buf + i))) s = Some (Enter_user [entry_word img, USER_CS, 0x200, USER_ESP, USER_DS],
        entered ?fr pid img p (with_process ?fr pid s1))"
    and ok: "kernel_ok (entered ?fr pid img p (with_process ?fr pid s1))"
    using execute_program_eq [OF user_string_line [OF assms(1,2,5)] user_readable [OF assms(1,3)] run assms(6) fr assms(7,8)]
    by auto
  let ?c = "entered ?fr pid img p (with_process ?fr pid s1)"
  note arg = argued [OF run s1(1)]
  have pid: "pid < 6" using assms(8) find_upt_Some [of "pcb_free (pcb s)" 0 6 pid] by simp
  have len: "length img \<le> PROGRAM_MAX" using assms(7) by (simp add: program_def)
  note e = entered_facts [where fr = ?fr, OF runningD(1) [OF arg(1)] pid p len]
  have same: "exec_terminal s = active_terminal s" using assms(1) by (simp add: on_show_def)
  have home: "home_terminal pid s1 = nat (exec_terminal s)" using assms(9) same by (simp add: home_terminal_def arg)
  have et: "exec_terminal ?c = exec_terminal s" "active_terminal ?c = active_terminal s" using e(5,6) assms(9) by (simp_all add: arg)
  have ap: "active_process (tmnl_block ?c ! nat (exec_terminal ?c)) = int pid" using e(7) home et(1) by simp
  have rc: "running ?c" "current ?c = pid" using ok ap by (simp_all add: running_def current_def)
  have fds: "fd_table (pcb ?c ! current ?c) = fd_table (fresh_pb (frame_process ?fr) (shown s1))" using e(14) rc(2) by simp
  note f = fresh_descriptors [OF fr fds]
  have par: "parent (pcb ?c ! pid) = int (current s)" using e(11) assms(9) by (simp add: arg shown_current [OF assms(1)])
  have show_c: "on_show ?c" using rc e(1) p et same f(2) by (simp add: on_show_def stdout_fd_def)
  have "screen_of ?c = screen_of s"
  proof -
    have "mem ?c a = mem s a" if "a < 0xBC000" for a
      using e(4) that by (simp add: arg poke_def user_frame_def)
    moreover have "screen_x ?c = screen_x s" "screen_y ?c = screen_y s"
      using s1(1) by (auto simp: entered_def placed_def with_process_def Let_def argued_def put_arg_def)
    ultimately show ?thesis by (simp add: screen_of_def cells_at_def)
  qed
  moreover have "child ?c"
    using show_c e(10) par rc(2) runningD(3) [OF run] assms(10) by (auto simp: child_def)
  moreover have "user_bytes ?c PROGRAM_START img" by (rule poked_image [OF len]) (use e(4) rc(2) in simp)
  moreover have "\<exists>A. pcb ?c ! current s = (pcb s ! current s)\<lparr>argument := A\<rparr>" using e(9) [of "current s"] arg(13) assms(10) by auto
  ultimately have "spawned s pid img ?c"
    using rc(2) assms(10) par f poke_page [OF len] e by (simp add: spawned_def stdin_open_def stdin_fd_def arg et)
  moreover have "has_argument ?c (arg_text b arg)" if "arg \<noteq> []"
    using that s1(2) par e(9) [of "current s"] assms(10) runningD(3) [OF run] rc(2)
    by (simp add: has_argument_def kept_argument_def cur_arg_def arg)
  ultimately show ?thesis using ex by blast
qed

subsection \<open>Running a program\<close>

lemma session_mono: "session A cs s t \<Longrightarrow> A \<subseteq> B \<Longrightarrow> session B cs s t"
  by (auto simp: session_def)

lemma child_returns:
  assumes "on_show s" and "spawned s pid img c" and "pcb_free (pcb s) pid" and "leaves A r cs c res" and "A \<subseteq> page_of pid"
  shows "\<exists>u. res = Some (Halt_return r (stack_ptr (pcb c ! pid)) (base_ptr (pcb c ! pid)), u) \<and> session {} cs s u"
proof -
  note p = assms(2) [unfolded spawned_def]
  have c: "current c = pid" "current s \<noteq> pid" "parent (pcb c ! pid) = int (current s)" using p by auto
  obtain u where res: "res = Some (Halt_return r (stack_ptr (pcb c ! pid)) (base_ptr (pcb c ! pid)), u)"
    and u: "running u" "current u = current s" "paging_inv (Some (current s)) (pg u)" "pcb_free (pcb u) pid"
      "screen_of u = typed c cs" "fs u = fs c" "fs_image u = fs_image c"
      "exec_terminal u = exec_terminal c" "active_terminal u = active_terminal c"
      "pcb u ! current s = (pcb c ! current s)\<lparr>fd_table := closed_from 2 8 (fd_table (pcb c ! current s))\<rparr>"
      "\<And>q. q \<noteq> pid \<Longrightarrow> q \<noteq> current s \<Longrightarrow> pcb u ! q = pcb c ! q"
      "\<And>a. a < VIDEO \<or> 0xBC000 \<le> a \<Longrightarrow> a \<notin> A \<Longrightarrow> mem u a = mem c a"
    using assms(4) c by (auto simp: leaves_def)
  obtain arg where pb: "pcb c ! current s = (pcb s ! current s)\<lparr>argument := arg\<rparr>" using p by blast
  have others: "\<And>q. q \<noteq> pid \<Longrightarrow> q \<noteq> current s \<Longrightarrow> pcb c ! q = pcb s ! q" "\<And>a. a \<notin> page_of pid \<Longrightarrow> mem c a = mem s a"
    using p by blast+
  have same: "screen_of c = screen_of s" "active_terminal c = active_terminal s" "fs c = fs s" "fs_image c = fs_image s"
    using p by blast+
  have shown_c: "on_show c" using p child_on_show by blast
  note r = runningD [OF on_show_running [OF assms(1)]]
  have len: "length (fd_table (pcb s ! current s)) = 8" using kernel_ok_pb [OF r(1,3)] by (simp add: pb_ok_def)
  have fd: "cur_fd u 0 = cur_fd s 0" "cur_fd u 1 = cur_fd s 1"
    using u(2,10) pb len by (simp_all add: cur_fd_def closed_from_nth)
  have "on_show u" using u fd shown_c assms(1) by (simp add: on_show_def)
  moreover have "pcb_free (pcb u) = pcb_free (pcb s)"
  proof
    fix q
    show "pcb_free (pcb u) q = pcb_free (pcb s) q"
    proof (cases "q = pid \<or> q = current s")
      case True
      then show ?thesis using u(4,10) pb assms(3) by (auto simp: pcb_free_def)
    next
      case False
      then show ?thesis using u(11) [of q] others(1) [of q] by (simp add: pcb_free_def)
    qed
  qed
  moreover have "mem u a = mem s a" if "a \<in> page_of (current s)" for a
  proof -
    have "a \<notin> page_of pid" using page_disjoint [OF c(2)] that by blast
    then show ?thesis using u(12) [of a] others(2) [of a] assms(5) page_of_high [OF that] by auto
  qed
  moreover have "typed c cs = typed s cs" using same by (simp add: typed_def)
  ultimately have "session {} cs s u"
    using assms(1) same u(2,5-10) pb fd(1) by (simp add: session_def same_block_def)
  with res show ?thesis by blast
qed

text \<open>
  The program in the file \<open>img\<close> is the compiled \<open>main\<close> (with the literals of \<open>w'\<close>): where the kernel enters
  it, it runs from \<open>_start\<close>, and with \<open>halt\<close> the \<open>execute\<close> whose stack registers its block remembers
  returns the status, as an \<open>int32_t\<close>.
\<close>

definition runs_as :: "world \<Rightarrow> u8 list \<Rightarrow> world \<Rightarrow> (kst \<Rightarrow> (int \<times> kst) option) \<Rightarrow> bool" where
  "runs_as w img w' main \<longleftrightarrow> (\<forall>ws c r u. on_show c \<and> user_bytes c PROGRAM_START img \<and>
     user_start w' main c = Some (Halt_return r (stack_ptr (pcb c ! current c)) (base_ptr (pcb c ! current c)), u) \<longrightarrow>
     goes_on w (Enter_user ws) c = Some (sint r, u))"

text \<open>A command line that names a program, and the free slot it gets.\<close>

definition runnable :: "kst \<Rightarrow> dentry list \<Rightarrow> u8 list \<Rightarrow> u8 list \<Rightarrow> nat \<Rightarrow> bool" where
  "runnable s ds nm img pid \<longleftrightarrow> \<not> is_exit nm \<and> (\<exists>cur. program s ds nm cur img) \<and>
     find (pcb_free (pcb s)) [0..<6] = Some pid \<and> 3 \<le> pid \<and> \<not> pcb_free (pcb s) (current s)"

lemma execute_runs:
  assumes "on_show s" and "user_string s buf xs" and "user_room buf 129" and "frames_fit w"
    and "command_line xs a nm b arg" and "runnable s ds nm img pid" and "runs_as w img w' main"
    and "\<And>c. spawned s pid img c \<Longrightarrow> (arg \<noteq> [] \<Longrightarrow> has_argument c (arg_text b arg)) \<Longrightarrow> leaves A r cs c (user_start w' main c)"
    and "A \<subseteq> page_of pid"
  shows "\<exists>u. ece391_execute w buf s = Some (sint r, u) \<and> session {} cs s u"
proof -
  note run = assms(6) [unfolded runnable_def]
  have free: "pcb_free (pcb s) pid" using run find_upt_Some [of "pcb_free (pcb s)" 0 6 pid] by simp
  then have ne: "pid \<noteq> current s" using run by auto
  obtain cur where prog: "program s ds nm cur img" using run by blast
  obtain ws c where c: "execute (frames w s) (Some (\<lambda>i. kview s (buf + i))) s = Some (Enter_user ws, c)"
    "spawned s pid img c" "arg \<noteq> [] \<longrightarrow> has_argument c (arg_text b arg)"
    using execute_spawns [OF assms(1-5) _ prog _ _ ne] run by blast
  have cp: "current c = pid" "on_show c" "user_bytes c PROGRAM_START img"
    using c(2) child_on_show by (simp_all add: spawned_def)
  obtain u where u: "user_start w' main c = Some (Halt_return r (stack_ptr (pcb c ! pid)) (base_ptr (pcb c ! pid)), u)"
    "session {} cs s u"
    using child_returns [OF assms(1) c(2) free assms(8) [OF c(2)] assms(9)] c(3) by blast
  have "goes_on w (Enter_user ws) c = Some (sint r, u)" using assms(7) cp u(1) unfolding runs_as_def by blast
  then show ?thesis using execute_call [OF _ _ c(1)] user_room_fits [OF assms(3)] u(2) by auto
qed

subsection \<open>A round of the shell\<close>

text \<open>What the shell says about a status.\<close>

definition remark :: "int \<Rightarrow> string" where
  "remark rval = (if rval = -1 then ''no such command'' @ newline
     else if rval = 256 then ''program terminated by exception'' @ newline
     else if rval \<noteq> 0 then ''program terminated abnormally'' @ newline else '''')"

definition shell_texts :: "string list" where
  "shell_texts = [''391OS> '', ''exit'', ''no such command'' @ newline, ''program terminated by exception'' @ newline,
     ''program terminated abnormally'' @ newline]"

lemma report_emits:
  assumes "on_show s" and "literals w A shell_texts s"
  shows "\<exists>t. report w rval s = Some t \<and> emits A (bytes_of (remark rval)) s t \<and> cur_fd t = cur_fd s"
proof (cases "rval = 0")
  case True
  then show ?thesis using emits_refl [OF assms(1)] emits_mono [of "{}" "[]" s s A] by (simp add: report_def remark_def bytes_of_def)
next
  case False
  then have "remark rval \<in> set shell_texts" "report w rval s = ece391_fdputs w 1 (lit w (remark rval)) s"
    by (simp_all add: remark_def shell_texts_def report_def)
  then show ?thesis using puts_lit [OF emits_refl [OF assms(1)] assms(2)] by fastforce
qed

text \<open>A shell that can run programs, about to read the line \<open>cmd\<close>.\<close>

definition prompting :: "world \<Rightarrow> nat \<Rightarrow> u8 list \<Rightarrow> u8 list \<Rightarrow> kst \<Rightarrow> bool" where
  "prompting w buf echo cmd s \<longleftrightarrow> on_show s \<and> stdin_open s \<and> frames_fit w \<and> user_room buf 129 \<and>
     types_line w ''391OS> '' echo (cmd @ [0x0A]) s \<and> 0 \<notin> set cmd \<and> literals w (array_at (current s) buf 129) shell_texts s"

lemma frames_fit_ok: "frames_fit w \<Longrightarrow> frames_ok w"
  by (simp add: frames_fit_def frames_ok_def frame_ok_def)

lemma shell_round:
  assumes "prompting w buf echo cmd s"
    and "\<And>u. emits (array_at (current s) buf 129) (bytes_of ''391OS> '' @ echo) s u \<Longrightarrow> user_string u buf (passed cmd) \<Longrightarrow>
      \<exists>v. ece391_execute w buf u = Some (rval, v) \<and> session (array_at (current s) buf 129) cs u v"
  shows "\<exists>t. shell_loop w buf s = shell_loop w buf t \<and>
    session (array_at (current s) buf 129) (bytes_of ''391OS> '' @ echo @ cs @ bytes_of (remark rval)) s t"
proof -
  let ?A = "array_at (current s) buf 129"
  note p = assms(1) [unfolded prompting_def]
  have lits: "literals w ?A shell_texts s" using p by blast
  then have few: "literals w ?A [''391OS> '', ''exit''] s" by (simp add: literals_def shell_texts_def)
  obtain u where u: "emits ?A (bytes_of ''391OS> '' @ echo) s u" "cur_fd u = cur_fd s" "user_string u buf (passed cmd)"
    "shell_loop w buf s = do { (rval, t) \<leftarrow> ece391_execute w buf u; t \<leftarrow> report w rval t; shell_loop w buf t }"
    using shell_round_eq [where w = w and buf = buf and s = s and cmd = cmd and echo = echo] p few by blast
  obtain v where v: "ece391_execute w buf u = Some (rval, v)" "session ?A cs u v" using assms(2) [OF u(1,3)] by blast
  have su: "session ?A (bytes_of ''391OS> '' @ echo) s u" using emits_session [OF u(1)] u(2) by simp
  note sv = session_trans [OF su v(2)]
  have "on_show v" using sv by (simp add: session_def)
  then obtain t where t: "report w rval v = Some t" "emits ?A (bytes_of (remark rval)) v t" "cur_fd t = cur_fd v"
    using report_emits [OF _ session_literals [OF sv lits]] by blast
  have "session ?A ((bytes_of ''391OS> '' @ echo) @ cs @ bytes_of (remark rval)) s t"
    using session_trans [OF sv emits_session [OF t(2)]] t(3) by simp
  then show ?thesis using u(4) v(1) t(1) by auto
qed

lemma shell_runs:
  assumes "prompting w buf echo cmd s" and "command_line (passed cmd) a nm b arg" and "runnable s ds nm img pid"
    and "runs_as w img w' main" and "A \<subseteq> page_of pid"
    and "\<And>u c. emits (array_at (current s) buf 129) (bytes_of ''391OS> '' @ echo) s u \<Longrightarrow> spawned u pid img c \<Longrightarrow>
      (arg \<noteq> [] \<Longrightarrow> has_argument c (arg_text b arg)) \<Longrightarrow> leaves A r cs c (user_start w' main c)"
  shows "\<exists>t. shell_loop w buf s = shell_loop w buf t \<and>
    session (array_at (current s) buf 129) (bytes_of ''391OS> '' @ echo @ cs @ bytes_of (remark (sint r))) s t"
proof (rule shell_round [OF assms(1)])
  note p = assms(1) [unfolded prompting_def]
  fix u assume u: "emits (array_at (current s) buf 129) (bytes_of ''391OS> '' @ echo) s u" "user_string u buf (passed cmd)"
  have "runnable u ds nm img pid"
    using assms(3) emitsD(4,7,8) [OF u(1)] emits_slots [OF u(1)] by (simp add: runnable_def program_def)
  then obtain v where "ece391_execute w buf u = Some (sint r, v)" "session {} cs u v"
    using execute_runs [OF emitsD(2) [OF u(1)] u(2) _ _ assms(2) _ assms(4) assms(6) [OF u(1)] assms(5)] p by blast
  then show "\<exists>v. ece391_execute w buf u = Some (sint r, v) \<and> session (array_at (current s) buf 129) cs u v"
    using session_mono by blast
qed

text \<open>The instances: the sample shell at its prompt, with a user who types one line.\<close>

definition sample_runner :: "control \<Rightarrow> kst \<Rightarrow> (int \<times> kst) option" where
  "sample_runner c s =
     (case user_start (sample_world []) (cat_main (sample_world []) 0x8049000) s of
        Some (Halt_return r sp bp, t) \<Rightarrow> Some (sint r, t)
      | _ \<Rightarrow> None)"

definition session_world :: "string \<Rightarrow> world" where
  "session_world cmd = typing_world shell_texts (bytes_of cmd @ [0x0A]) sample_runner"

abbreviation sample_shell :: kst where "sample_shell \<equiv> shell_kernel shell_texts"

lemma sample_runs_cat: "runs_as (session_world cmd) img (sample_world []) (cat_main (sample_world []) 0x8049000)"
  by (simp add: runs_as_def session_world_def typing_world_def sample_runner_def)

lemma shell_texts_length: "length (literal_image shell_texts) \<le> 0x10000"
  by (simp add: shell_texts_def literal_image_def)

lemma sample_prompting:
  assumes "length cmd < 128" and "0 \<notin> set (bytes_of cmd)"
  shows "prompting (session_world cmd) 0x8048000 [] (bytes_of cmd) sample_shell"
proof -
  note k = shell_kernel [OF shell_texts_length]
  have "literals (session_world cmd) (array_at (current sample_shell) 0x8048000 129) shell_texts sample_shell"
    by (rule placed_literals [OF k(10)])
      (auto simp: k(3) array_at_def user_frame_def shell_texts_def bytes_of_def session_world_def typing_world_def sample_world_def)
  then show ?thesis
    using k(1,2) typing_line [OF k(1) shell_pending [OF shell_texts_length], of "bytes_of cmd @ [0x0A]"] typing_world_frames assms
    by (simp add: prompting_def session_world_def user_room_def)
qed

subsection \<open>Properties\<close>

lemma cat_leaves:
  assumes "child s" and "frames_ok w" and "has_argument s arg" and "arg \<noteq> []"
    and "named_file s ds (first_line 128 arg) cur bytes" and "free_fd s \<noteq> None"
    and "user_room buf 1024" and "BACKSPACE \<notin> set bytes"
  shows "leaves (array_at (current s) buf 1024) 0 bytes s (user_start w (cat_main w buf) s)"
  using cat_main_prints [OF child_on_show [OF assms(1)] assms(2-8)] program_ends [OF assms(1)] by fastforce

text \<open>C8. A session, from the line to the screen: a shell on display whose user types \<open>cat\<close> and the name
  of a file prints its prompt, the echo of the line, and then the bytes of the file appear, printed by
  the program that \<open>execute\<close> has loaded from the file system into the page of the free process \<open>pid\<close>; the
  shell prints nothing of its own and waits for the next line. It goes on in its own page, with the
  memory of the page as it was but for its line buffer, its standard input, output and process links
  kept, and the process slot free again.\<close>

theorem shell_runs_cat:
  assumes "prompting w buf echo cmd s" and "command_line (passed cmd) a (bytes_of ''cat'') b arg" and "arg \<noteq> []" and "0 < b"
    and "runnable s ds (bytes_of ''cat'') img pid" and "runs_as w img w' (cat_main w' buf')" and "frames_ok w'"
    and "named_file s ds (first_line 128 arg) cur bytes" and "user_room buf' 1024" and "BACKSPACE \<notin> set bytes"
  shows "\<exists>t. shell_loop w buf s = shell_loop w buf t \<and>
    session (array_at (current s) buf 129) (bytes_of ''391OS> '' @ echo @ bytes) s t"
proof -
  have "leaves (array_at pid buf' 1024) 0 bytes c (user_start w' (cat_main w' buf') c)"
    if u: "emits (array_at (current s) buf 129) (bytes_of ''391OS> '' @ echo) s u" and c: "spawned u pid img c"
      and arg: "arg \<noteq> [] \<Longrightarrow> has_argument c (arg_text b arg)" for u c
  proof -
    have "named_file c ds (first_line 128 arg) cur bytes"
      using assms(8) c emitsD(7,8) [OF u] by (simp add: named_file_def spawned_def)
    then show ?thesis
      using cat_leaves [of c w' arg ds cur bytes buf'] c arg assms(3,4,7,9,10) by (simp add: spawned_def arg_text_def)
  qed
  from shell_runs [OF assms(1,2,5,6) array_page [OF assms(9)] this]
  show ?thesis by (simp add: remark_def bytes_of_def)
qed

theorem shell_runs_cat_witness:
  "\<exists>t. shell_loop (session_world ''cat me'') 0x8048000 sample_shell = shell_loop (session_world ''cat me'') 0x8048000 t \<and>
     session (array_at (current sample_shell) 0x8048000 129) (bytes_of ''391OS> '' @ [] @ bytes_of ''Hi'') sample_shell t"
proof (rule shell_runs_cat [OF sample_prompting _ _ _ _ sample_runs_cat sample_world_frames])
  note k = shell_kernel [OF shell_texts_length]
  show "command_line (passed (bytes_of ''cat me'')) 0 (bytes_of ''cat'') 1 (bytes_of ''me'' @ [0x0A])"
    by (simp add: command_line_def passed_def bytes_of_def name_char_def)
  have "pcb_free (pcb sample_shell) i \<longleftrightarrow> 3 \<le> i" if "i < 6" for i
    using that by (simp add: k(4) bare_shell(4) pcb_free_def nth_append booted_pb_def)
  then show "runnable sample_shell shell_dir (bytes_of ''cat'') sample_elf 3"
    using shell_dir_ok shell_files(1) shell_names(1) sample_elf
    by (auto simp: runnable_def program_def k find_upt_Some is_exit_def bytes_of_def shell_dir_def simp del: upt_rec_numeral)
  show "named_file sample_shell shell_dir (first_line 128 (bytes_of ''me'' @ [0x0A])) (shell_dir ! 2) (bytes_of ''Hi'')"
    using shell_dir_ok shell_files(2) shell_names(2)
    by (simp add: named_file_def k first_line_def bytes_of_def) (simp add: shell_dir_def)
qed (simp_all add: bytes_of_def user_room_def)

text \<open>C37. A line whose first word is not the name of a file: the shell prints "no such command" and
  waits for the next line, with nothing else changed but the argument \<open>parse_cmd\<close> has kept. In a shell
  without a parent, such as the three the kernel starts, this is what \<open>exit\<close> does too: the shell's own
  test for \<open>exit\<close> does not see the word, since the line it gets still has its newline, and the kernel's
  \<open>halt\<close>, which every command that begins with \<open>exit\<close> calls, returns to it.\<close>

theorem shell_unknown_command:
  assumes "prompting w buf echo cmd s" and "command_line (passed cmd) a nm b arg"
    and "take 4 nm = bytes_of ''exit'' \<longrightarrow> parent (pcb s ! current s) = -1"
    and "dir_ok (fs_image s) (fs s) ds" and "nm \<notin> dentry_name ` set ds"
  shows "\<exists>t. shell_loop w buf s = shell_loop w buf t \<and>
    session (array_at (current s) buf 129) (bytes_of ''391OS> '' @ echo @ bytes_of (''no such command'' @ newline)) s t"
proof -
  let ?A = "array_at (current s) buf 129"
  have none: "find (\<lambda>d. dentry_name d = nm) ds = None" by (rule find_missing [OF assms(5)])
  have "\<exists>v. ece391_execute w buf u = Some (-1, v) \<and> session ?A [] u v"
    if u: "emits ?A (bytes_of ''391OS> '' @ echo) s u" "user_string u buf (passed cmd)" for u
  proof -
    have "is_exit nm \<longrightarrow> parent (pcb u ! current u) = -1"
      using assms(3) emitsD(4) [OF u(1)] same_blockD(1) [OF conjunct1 [OF emits_blocks [OF u(1)]]] by (simp add: is_exit_def)
    then show ?thesis
      using execute_missing_call [OF emitsD(2) [OF u(1)] u(2) _ _ assms(2) _ _ none, of w ?A]
        assms(1,4) emitsD(7,8) [OF u(1)] emits_session by (fastforce simp: prompting_def)
  qed
  from shell_round [OF assms(1) this] show ?thesis by (simp add: remark_def)
qed

theorem shell_unknown_command_witness:
  "\<exists>t. shell_loop (session_world ''exit'') 0x8048000 sample_shell = shell_loop (session_world ''exit'') 0x8048000 t \<and>
     session (array_at (current sample_shell) 0x8048000 129)
       (bytes_of ''391OS> '' @ [] @ bytes_of (''no such command'' @ newline)) sample_shell t"
proof (rule shell_unknown_command [OF sample_prompting])
  note k = shell_kernel [OF shell_texts_length]
  show "command_line (passed (bytes_of ''exit'')) 0 (bytes_of ''exit'') 0 [0x0A]"
    by (simp add: command_line_def passed_def bytes_of_def name_char_def)
  show "take 4 (bytes_of ''exit'') = bytes_of ''exit'' \<longrightarrow> parent (pcb sample_shell ! current sample_shell) = - 1"
    by (simp add: k bare_shell(4) nth_append booted_pb_def)
  show "dir_ok (fs_image sample_shell) (fs sample_shell) shell_dir" using shell_dir_ok by (simp add: k)
  show "bytes_of ''exit'' \<notin> dentry_name ` set shell_dir"
    by (simp add: shell_dir_def dentry_name_def bytes_of_def)
qed (simp_all add: bytes_of_def)

end
