(* ===== verification/User_Syserr.thy ===== *)
theory User_Syserr
  imports Shell_Instances
begin

text \<open>
  The program \<open>syserr\<close> of \<^verbatim>\<open>syscalls/\<close>, the test of the error returns of the system calls: eight tests,
  each a sequence of calls that must return -1, and \<open>main\<close>, which runs the one the user chooses or all of
  them. A test is a function of the state with its verdict as result, 0 when it passes. The local array
  of test \<open>k\<close> is at the address \<open>loc k\<close>; what the registers of a call without arguments hold is \<open>regs\<close>.
\<close>

abbreviation NEG_FD :: int where "NEG_FD \<equiv> -1073741823"
abbreviation BIG_FD :: int where "BIG_FD \<equiv> 1073741823"
abbreviation BIG_NUM :: int where "BIG_NUM \<equiv> 1073741823"
abbreviation NEG_NUM :: int where "NEG_NUM \<equiv> -1073741823"

definition call_sys :: "world \<Rightarrow> u32 \<times> u32 \<times> u32 \<Rightarrow> int \<Rightarrow> kst \<Rightarrow> (int \<times> kst) option" where
  "call_sys w regs num s = (case regs of (ebx, ecx, edx) \<Rightarrow> do_call w (word_of_int num) ebx ecx edx s)"

text \<open>\<open>if (-1 != call) { fail = 2; ece391_fdputs(1, msg); }\<close>\<close>

definition expect_error :: "world \<Rightarrow> (kst \<Rightarrow> (int \<times> kst) option) \<Rightarrow> string \<Rightarrow> int \<times> kst \<Rightarrow> (int \<times> kst) option" where
  "expect_error w call msg r =
     (case r of (fail, s) \<Rightarrow>
        do { (r, s) \<leftarrow> call s;
             if r \<noteq> -1 then do { s \<leftarrow> ece391_fdputs w 1 (lit w msg) s; Some (2, s) } else Some (fail, s) })"

definition verdict :: "world \<Rightarrow> string \<Rightarrow> int \<times> kst \<Rightarrow> (int \<times> kst) option" where
  "verdict w name r =
     (case r of (fail, s) \<Rightarrow>
        do { s \<leftarrow> ece391_fdputs w 1 (lit w (name @ (if fail \<noteq> 0 then '': FAIL'' else '': PASS'') @ newline)) s;
             Some (fail, s) })"

subsection \<open>The tests\<close>

definition err_neg_fd :: "world \<Rightarrow> nat \<Rightarrow> kst \<Rightarrow> (int \<times> kst) option" where
  "err_neg_fd w buf s =
     do { r \<leftarrow> expect_error w (ece391_read w NEG_FD buf 31) (''read fail'' @ newline) (0, s);
          r \<leftarrow> expect_error w (ece391_write w NEG_FD buf 31) (''write fail'' @ newline) r;
          r \<leftarrow> expect_error w (ece391_close w NEG_FD) (''close fail'' @ newline) r;
          verdict w ''err_neg_fd'' r }"

definition err_big_fd :: "world \<Rightarrow> nat \<Rightarrow> kst \<Rightarrow> (int \<times> kst) option" where
  "err_big_fd w buf s =
     do { r \<leftarrow> expect_error w (ece391_read w BIG_FD buf 31) (''read fail'' @ newline) (0, s);
          r \<leftarrow> expect_error w (ece391_write w BIG_FD buf 31) (''write fail'' @ newline) r;
          r \<leftarrow> expect_error w (ece391_close w BIG_FD) (''close fail'' @ newline) r;
          verdict w ''err_big_fd'' r }"

definition err_open_lots :: "world \<Rightarrow> kst \<Rightarrow> (int \<times> kst) option" where
  "err_open_lots w s =
     do { (cnt, s) \<leftarrow> for_each [0..<7]
            (\<lambda>_ (cnt, s). do { (r, s) \<leftarrow> ece391_open w (lit w ''.'') s; Some (if r = -1 then cnt + 1 else cnt, s) })
            (0 :: int, s);
          s \<leftarrow> for_each [2..<8] (\<lambda>i s. map_option snd (ece391_close w (int i) s)) s;
          if cnt = 1 then
            do { s \<leftarrow> ece391_fdputs w 1 (lit w (''err_open_lots: PASS'' @ newline)) s; Some (0, s) }
          else
            do { s \<leftarrow> ece391_fdputs w 1 (lit w (''err_open_lots: FAIL'' @ newline)) s; Some (2, s) } }"

definition err_open :: "world \<Rightarrow> kst \<Rightarrow> (int \<times> kst) option" where
  "err_open w s =
     do { r \<leftarrow> expect_error w (ece391_open w (lit w ''helloo'')) (CHR 0x27 # ''helloo' fail'' @ newline) (0, s);
          r \<leftarrow> expect_error w (ece391_open w (lit w ''shel'')) (CHR 0x27 # ''shel' fail'' @ newline) r;
          r \<leftarrow> expect_error w (ece391_open w (lit w '''')) (''empty string fail'' @ newline) r;
          verdict w ''err_open'' r }"

definition err_unopened :: "world \<Rightarrow> nat \<Rightarrow> kst \<Rightarrow> (int \<times> kst) option" where
  "err_unopened w buf s =
     do { r \<leftarrow> for_each [0..<8]
            (\<lambda>i. expect_error w (ece391_close w (int i)) (''close unopened or invalid fd fail'' @ newline)) (0, s);
          r \<leftarrow> for_each [2..<8]
            (\<lambda>i. expect_error w (ece391_read w (int i) buf 31) (''read from unopened fd fail'' @ newline)) r;
          r \<leftarrow> for_each [2..<8]
            (\<lambda>i. expect_error w (ece391_write w (int i) buf 31) (''write to unopened fd fail'' @ newline)) r;
          verdict w ''err_unopened'' r }"

definition err_vidmap :: "world \<Rightarrow> kst \<Rightarrow> (int \<times> kst) option" where
  "err_vidmap w s =
     do { r \<leftarrow> expect_error w (ece391_vidmap w 0) (''Null pointer fail'' @ newline) (0, s);
          r \<leftarrow> expect_error w (ece391_vidmap w 0x400000) (''Kernel pointer fail fail'' @ newline) r;
          verdict w ''err_vidmap'' r }"

definition err_stdin_out :: "world \<Rightarrow> nat \<Rightarrow> kst \<Rightarrow> (int \<times> kst) option" where
  "err_stdin_out w buf s =
     do { r \<leftarrow> expect_error w (ece391_write w 0 buf 31) (''write to stdin fail'' @ newline) (0, s);
          r \<leftarrow> expect_error w (ece391_read w 1 buf 31) (''read from stdout fail'' @ newline) r;
          verdict w ''err_stdin_out'' r }"

definition err_syscall_num :: "world \<Rightarrow> u32 \<times> u32 \<times> u32 \<Rightarrow> kst \<Rightarrow> (int \<times> kst) option" where
  "err_syscall_num w regs s =
     do { r \<leftarrow> expect_error w (call_sys w regs BIG_NUM) (''syscall 0 fail'' @ newline) (0, s);
          r \<leftarrow> expect_error w (call_sys w regs NEG_NUM) (''big num syscall fail'' @ newline) r;
          r \<leftarrow> expect_error w (call_sys w regs 0) (''neg num syscall fail'' @ newline) r;
          verdict w ''err_syscall_num'' r }"

text \<open>The cases of \<open>main\<close> in order, \<open>fail += test()\<close>, and \<open>main\<close>.\<close>

definition syserr_tests :: "world \<Rightarrow> (nat \<Rightarrow> nat) \<Rightarrow> u32 \<times> u32 \<times> u32 \<Rightarrow> (kst \<Rightarrow> (int \<times> kst) option) list" where
  "syserr_tests w loc regs =
     [err_neg_fd w (loc 1), err_big_fd w (loc 2), err_open_lots w, err_open w,
      err_unopened w (loc 5), err_vidmap w, err_stdin_out w (loc 7), err_syscall_num w regs]"

definition add_result :: "(kst \<Rightarrow> (int \<times> kst) option) \<Rightarrow> int \<times> kst \<Rightarrow> (int \<times> kst) option" where
  "add_result test r = (case r of (fail, s) \<Rightarrow> do { (f, s) \<leftarrow> test s; Some (fail + f, s) })"

definition syserr_main :: "world \<Rightarrow> nat \<Rightarrow> (nat \<Rightarrow> nat) \<Rightarrow> u32 \<times> u32 \<times> u32 \<Rightarrow> kst \<Rightarrow> (int \<times> kst) option" where
  "syserr_main w buf loc regs s =
     do { s \<leftarrow> ece391_fdputs w 1 (lit w ''Choose from tests 1-8. 0 to run all: '') s;
          (cnt, s) \<leftarrow> ece391_read w 0 buf 127 s;
          if cnt = -1 then
            do { s \<leftarrow> ece391_fdputs w 1 (lit w (''Can't read test #'' @ newline)) s; Some (2, s) }
          else
            do { c \<leftarrow> uview s buf;
                 let select = uint c - 0x30;
                 if select = 0 then
                   do { (fail, s) \<leftarrow> for_each (syserr_tests w loc regs) add_result (0, s);
                        s \<leftarrow> ece391_fdputs w 1 (lit w (newline @ ''Overall Tests: '' @
                          (if fail \<noteq> 0 then ''FAIL'' else ''PASS'') @ newline)) s;
                        Some (fail, s) }
                 else if 1 \<le> select \<and> select \<le> 8 then (syserr_tests w loc regs ! nat (select - 1)) s
                 else
                   do { s \<leftarrow> ece391_fdputs w 1 (lit w ''Invalid test number. Choose from tests 1-8 or 0'') s;
                        Some (0, s) } } }"

subsection \<open>Calls that are refused\<close>

lemma refused: "call s = Some (-1, s) \<Longrightarrow> expect_error w call msg (f, s) = Some (f, s)"
  by (simp add: expect_error_def)

lemma refused_loop:
  "(\<And>i. i \<in> set is \<Longrightarrow> call i s = Some (-1, s)) \<Longrightarrow> for_each is (\<lambda>i. expect_error w (call i) msg) (f, s) = Some (f, s)"
  by (induction "is") (simp_all add: refused)

lemma read_refused:
  assumes "on_show s" and "user_room buf 32" and "fits_int fd"
    and "fd < 0 \<or> 8 \<le> fd \<or> fd_flags (cur_fd s (nat fd)) = FD_ABSENT \<or> file_operations_table (cur_fd s (nat fd)) = Some Stdout_ops"
  shows "ece391_read w fd buf 31 s = Some (-1, s)"
proof (rule read_call)
  show "sys_read (waits w) (frames w s) fd buf 31 s = Some (-1, s)"
  proof (cases "fd < 0 \<or> 8 \<le> fd")
    case True
    then show ?thesis by (auto simp: sys_read_def)
  next
    case False
    then show ?thesis
      using assms(4) runningD(2) [OF on_show_running [OF assms(1)]] cur_fd_get [OF on_show_running [OF assms(1)], of "nat fd"]
      by (auto simp: sys_read_def ops_read_def invalid_op_def)
  qed
qed (use assms(3) user_room_fits [OF assms(2)] in \<open>simp_all add: fits_int_def\<close>)

lemma write_refused:
  assumes "on_show s" and "user_room buf 32" and "fits_int fd"
    and "fd < 0 \<or> 8 \<le> fd \<or> fd_flags (cur_fd s (nat fd)) = FD_ABSENT \<or> file_operations_table (cur_fd s (nat fd)) = Some Stdin_ops"
  shows "ece391_write w fd buf 31 s = Some (-1, s)"
proof (rule write_call)
  show "sys_write fd buf 31 s = Some (-1, s)"
  proof (cases "fd < 0 \<or> 8 \<le> fd")
    case True
    then show ?thesis by (auto simp: sys_write_def)
  next
    case False
    then show ?thesis
      using assms(4) runningD(2) [OF on_show_running [OF assms(1)]] cur_fd_get [OF on_show_running [OF assms(1)], of "nat fd"]
      by (auto simp: sys_write_def ops_write_def invalid_op_def)
  qed
qed (use assms(3) user_room_fits [OF assms(2)] in \<open>simp_all add: fits_int_def\<close>)

lemma close_refused:
  assumes "on_show s" and "fits_int fd" and "fd < 2 \<or> 8 \<le> fd \<or> fd_flags (cur_fd s (nat fd)) = FD_ABSENT"
  shows "ece391_close w fd s = Some (-1, s)"
  using sys_close_refused [OF on_show_running [OF assms(1)] assms(3)] assms(2) by (intro close_call) (simp_all add: fits_int_def)

lemma vidmap_refused:
  assumes "p < OFF_128MB"
  shows "ece391_vidmap w p s = Some (-1, s)"
  by (rule vidmap_call) (use assms in \<open>simp_all add: fits_def fits_int_def vidmap_def\<close>)

lemma number_refused:
  assumes "fits_int n" and "n < 1 \<or> 10 < n"
  shows "call_sys w regs n s = Some (-1, s)"
  using assms fits_sint [OF assms(1)] by (cases regs) (simp add: call_sys_def do_call_def syscall_def)

subsection \<open>Passing tests\<close>

definition syserr_names :: "string list" where
  "syserr_names = [''err_neg_fd'', ''err_big_fd'', ''err_open_lots'', ''err_open'', ''err_unopened'', ''err_vidmap'',
     ''err_stdin_out'', ''err_syscall_num'']"

definition passed_text :: "string \<Rightarrow> string" where
  "passed_text name = name @ '': PASS'' @ newline"

definition syserr_texts :: "string list" where
  "syserr_texts = ''Choose from tests 1-8. 0 to run all: '' # ''.'' # ''helloo'' # ''shel'' # '''' #
     (newline @ ''Overall Tests: PASS'' @ newline) # map passed_text syserr_names"

text \<open>
  A program that has opened no file, in a directory with the entry \<open>.\<close> and none of the three names
  that \<open>err_open\<close> tries.
\<close>

definition testable :: "nat set \<Rightarrow> world \<Rightarrow> dentry list \<Rightarrow> kst \<Rightarrow> bool" where
  "testable A w ds s \<longleftrightarrow> on_show s \<and> stdin_open s \<and> (\<forall>i \<in> {2..<8}. fd_flags (cur_fd s i) = FD_ABSENT) \<and>
     dir_ok (fs_image s) (fs s) ds \<and> (\<exists>cur. find (\<lambda>d. dentry_name d = bytes_of ''.'') ds = Some cur \<and> file_type cur = 1) \<and>
     dentry_name ` set ds \<inter> bytes_of ` {''helloo'', ''shel'', ''''} = {} \<and>
     literals w A syserr_texts s \<and> frames_ok w"

lemma testable_emits:
  assumes "testable A w ds s" and "emits A cs s t" and "cur_fd t 0 = cur_fd s 0"
    and "\<forall>i \<in> {2..<8}. fd_flags (cur_fd t i) = FD_ABSENT"
  shows "testable A w ds t"
  using assms emitsD(2,7,8) [OF assms(2)] literals_emits [OF assms(2)] by (simp add: testable_def stdin_open_def)

definition passes :: "nat set \<Rightarrow> world \<Rightarrow> dentry list \<Rightarrow> (kst \<Rightarrow> (int \<times> kst) option) \<Rightarrow> string \<Rightarrow> bool" where
  "passes A w ds test name \<longleftrightarrow> (\<forall>s. testable A w ds s \<longrightarrow>
     (\<exists>t. test s = Some (0, t) \<and> emits A (bytes_of (passed_text name)) s t \<and> testable A w ds t))"

lemma says_passed:
  assumes "testable A w ds s" and "emits A [] s t" and "testable A w ds t" and "name \<in> set syserr_names"
  shows "\<exists>u. ece391_fdputs w 1 (lit w (passed_text name)) t = Some u \<and>
    emits A (bytes_of (passed_text name)) s u \<and> testable A w ds u"
proof -
  have mem: "passed_text name \<in> set syserr_texts" using assms(4) by (simp add: syserr_texts_def)
  have lits: "literals w A syserr_texts s" "literals w A syserr_texts t" and shown_t: "on_show t"
    using assms(1,3) by (simp_all add: testable_def)
  obtain u where u: "ece391_fdputs w 1 (lit w (passed_text name)) t = Some u"
    "emits A ([] @ bytes_of (passed_text name)) s u" "cur_fd u = cur_fd t"
    using puts_lit [OF assms(2) lits(1) mem] by blast
  obtain v where "ece391_fdputs w 1 (lit w (passed_text name)) t = Some v" "emits A ([] @ bytes_of (passed_text name)) t v"
    using puts_lit [OF emits_refl [OF shown_t] lits(2) mem] by blast
  with u(1) have e: "emits A (bytes_of (passed_text name)) t u" by simp
  have "\<forall>i \<in> {2..<8}. fd_flags (cur_fd u i) = FD_ABSENT" using assms(3) u(3) unfolding testable_def by simp
  then have "testable A w ds u" using testable_emits [OF assms(3) e] u(3) by simp
  then show ?thesis using u(1,2) by simp
qed

text \<open>A test whose calls are all refused.\<close>

lemma passesI:
  assumes "\<And>s. testable A w ds s \<Longrightarrow> test s = verdict w name (0, s)" and "name \<in> set syserr_names"
  shows "passes A w ds test name"
  unfolding passes_def
proof (intro allI impI)
  fix s assume s: "testable A w ds s"
  have "emits A [] s s" using s emits_refl by (simp add: testable_def)
  from says_passed [OF s this s assms(2)] assms(1) [OF s]
  show "\<exists>t. test s = Some (0, t) \<and> emits A (bytes_of (passed_text name)) s t \<and> testable A w ds t"
    by (auto simp: verdict_def passed_text_def)
qed

lemma err_fd_passes:
  assumes "user_room buf 32"
  shows "passes A w ds (err_neg_fd w buf) ''err_neg_fd''" "passes A w ds (err_big_fd w buf) ''err_big_fd''"
  by (rule passesI; simp add: err_neg_fd_def err_big_fd_def refused read_refused write_refused close_refused
      assms testable_def fits_int_def syserr_names_def)+

lemma err_vidmap_passes: "passes A w ds (err_vidmap w) ''err_vidmap''"
  by (rule passesI) (simp_all add: err_vidmap_def refused vidmap_refused syserr_names_def)

lemma err_syscall_num_passes: "passes A w ds (err_syscall_num w regs) ''err_syscall_num''"
  by (rule passesI) (simp_all add: err_syscall_num_def refused number_refused fits_int_def syserr_names_def)

lemma err_stdin_out_passes:
  "user_room buf 32 \<Longrightarrow> passes A w ds (err_stdin_out w buf) ''err_stdin_out''"
  by (rule passesI)
    (simp_all add: err_stdin_out_def refused read_refused write_refused testable_def stdin_open_def on_show_def fits_int_def
      syserr_names_def)

lemma err_unopened_passes:
  assumes "user_room buf 32"
  shows "passes A w ds (err_unopened w buf) ''err_unopened''"
proof (rule passesI)
  fix s assume s: "testable A w ds s"
  have shown_s: "on_show s" and absent: "i \<in> {2..<8} \<Longrightarrow> fd_flags (cur_fd s i) = FD_ABSENT" for i
    using s by (simp_all add: testable_def)
  have "ece391_close w (int i) s = Some (-1, s)" if "i \<in> set [0..<8]" for i
    using close_refused [OF shown_s, of "int i"] absent [of i] that by (cases "i < 2") (auto simp: fits_int_def simp del: upt_rec_numeral)
  then have "for_each [0..<8] (\<lambda>i. expect_error w (ece391_close w (int i)) msg) (0, s) = Some (0, s)" for msg
    by (intro refused_loop)
  moreover have r: "ece391_read w (int i) buf 31 s = Some (-1, s)" "ece391_write w (int i) buf 31 s = Some (-1, s)"
    if "i \<in> set [2..<8]" for i
    using read_refused [OF shown_s assms, of "int i"] write_refused [OF shown_s assms, of "int i"] absent [of i] that
    by (auto simp: fits_int_def simp del: upt_rec_numeral)
  have "for_each [2..<8] (\<lambda>i. expect_error w (ece391_read w (int i) buf 31) msg) (0, s) = Some (0, s)"
    "for_each [2..<8] (\<lambda>i. expect_error w (ece391_write w (int i) buf 31) msg) (0, s) = Some (0, s)" for msg
    using r by (intro refused_loop; simp only:)+
  ultimately show "err_unopened w buf s = verdict w ''err_unopened'' (0, s)"
    by (simp add: err_unopened_def del: upt_rec_numeral for_each.simps)
qed (simp add: syserr_names_def)

lemma err_open_passes: "passes A w ds (err_open w) ''err_open''"
proof (rule passesI)
  fix s assume s: "testable A w ds s"
  have "ece391_open w (lit w x) s = Some (-1, s)" if x: "x \<in> {''helloo'', ''shel'', ''''}" for x
  proof -
    have "x \<in> set syserr_texts" using x by (auto simp: syserr_texts_def)
    then have "user_string s (lit w x) (bytes_of x)" using s by (simp add: testable_def literals_def)
    moreover have "find (\<lambda>d. dentry_name d = bytes_of x) ds = None"
      by (rule find_missing) (use s x in \<open>auto simp: testable_def\<close>)
    ultimately show ?thesis using open_missing_call [of s "lit w x" "bytes_of x" w ds] s by (simp add: testable_def)
  qed
  then show "err_open w s = verdict w ''err_open'' (0, s)" by (simp add: err_open_def refused)
qed (simp add: syserr_names_def)

subsection \<open>Opening until the table is full\<close>

text \<open>The descriptors from \<open>lo\<close> to \<open>hi\<close> are open on the directory, the others from 2 on free.\<close>

definition opened :: "nat \<Rightarrow> nat \<Rightarrow> kst \<Rightarrow> bool" where
  "opened lo hi s \<longleftrightarrow> (\<forall>j \<in> {2..<8}. if lo \<le> j \<and> j < hi
     then fd_flags (cur_fd s j) = FD_EXISTS \<and> file_operations_table (cur_fd s j) = Some Dir_ops
     else fd_flags (cur_fd s j) = FD_ABSENT)"

lemma opened_free:
  assumes "opened 2 (2 + i) s" and "i \<le> 6"
  shows "free_fd s = (if i = 6 then None else Some (2 + i))"
proof (cases "i = 6")
  case True
  then have "\<forall>j \<in> set [2..<8]. fd_flags (cur_fd s j) \<noteq> FD_ABSENT" using assms(1) by (auto simp: opened_def simp del: upt_rec_numeral)
  then show ?thesis using True by (auto simp: free_fd_def find_None_iff simp del: upt_rec_numeral)
next
  case False
  then show ?thesis
    using assms by (auto simp: free_fd_def find_upt_Some opened_def simp del: upt_rec_numeral)
qed

lemma open_loop:
  assumes "testable A w ds s"
  shows "\<exists>t. for_each [0..<7]
       (\<lambda>_ (cnt, s). do { (r, s) \<leftarrow> ece391_open w (lit w ''.'') s; Some (if r = -1 then cnt + 1 else cnt, s) }) (0 :: int, s) =
     Some (1, t) \<and> emits A [] s t \<and> cur_fd t 0 = cur_fd s 0 \<and> opened 2 8 t"
proof -
  obtain cur where dir: "dir_ok (fs_image s) (fs s) ds" "find (\<lambda>d. dentry_name d = bytes_of ''.'') ds = Some cur" "file_type cur = 1"
    and s: "on_show s" "literals w A syserr_texts s" "frames_ok w"
    using assms by (auto simp: testable_def)
  have ty: "file_type cur \<in> {1, 2}" using dir(3) by simp
  let ?P = "\<lambda>i (cnt, t). emits A [] s t \<and> cur_fd t 0 = cur_fd s 0 \<and> cnt = (if i = 7 then 1 else 0 :: int) \<and> opened 2 (2 + min i 6) t"
  let ?f = "\<lambda>_ (cnt, s). do { (r, s) \<leftarrow> ece391_open w (lit w ''.'') s; Some (if r = -1 then cnt + 1 else cnt, s) }"
  have step: "\<exists>r'. ?f i r = Some r' \<and> ?P (Suc i) r'"
    if i: "i < 7" and r: "?P i r" for i r
  proof -
    obtain t where t: "r = (0, t)" "emits A [] s t" "cur_fd t 0 = cur_fd s 0" "opened 2 (2 + i) t" using r i by (cases r) auto
    note e = emitsD [OF t(2)]
    have "user_string t (lit w ''.'') (bytes_of ''.'')"
      using literals_emits [OF t(2) s(2)] by (simp add: literals_def syserr_texts_def)
    then have op: "ece391_open w (lit w ''.'') t =
        (if i = 6 then Some (-1, t) else Some (int (2 + i), put_fd (2 + i) (fresh_fd cur) t))"
      using open_entry_call [OF e(2) _ s(3) _ dir(2) ty] opened_free [OF t(4)] i dir(1) e(7,8) by auto
    show ?thesis
    proof (cases "i = 6")
      case True
      then show ?thesis using op t by simp
    next
      case False
      then have fr: "free_fd t = Some (2 + i)" "i < 6" using opened_free [OF t(4)] i by simp_all
      note f = open_fd_step [OF e(2) fr(1) ty]
      let ?u = "put_fd (2 + i) (fresh_fd cur) t"
      have "opened 2 (2 + Suc i) ?u"
        unfolding opened_def
      proof
        fix j :: nat assume j: "j \<in> {2..<8}"
        show "if 2 \<le> j \<and> j < 2 + Suc i
            then fd_flags (cur_fd ?u j) = FD_EXISTS \<and> file_operations_table (cur_fd ?u j) = Some Dir_ops
            else fd_flags (cur_fd ?u j) = FD_ABSENT"
          using j t(4) f(2) f(3) [of j] dir(3) by (cases "j = 2 + i") (auto simp: opened_def fresh_fd_def fileops_table_def)
      qed
      moreover have "cur_fd ?u 0 = cur_fd s 0" using f(3) [of 0] t(3) by simp
      moreover have "emits A [] s ?u" using emits_trans [OF t(2) f(1)] by simp
      ultimately show ?thesis using op t(1) fr(2) False by auto
    qed
  qed
  have base: "?P 0 (0 :: int, s)"
    using assms emits_refl [OF s(1)] by (auto simp: testable_def opened_def)
  have "\<exists>r. for_each [0..<7] ?f (0 :: int, s) = Some r \<and> ?P 7 r"
    by (rule for_each_upt [where P = ?P and f = ?f, OF _ base step]) simp_all
  then show ?thesis by (auto simp del: upt_rec_numeral for_each.simps)
qed

lemma close_loop_user:
  assumes "on_show s" and "opened 2 8 s"
  shows "\<exists>t. for_each [2..<8] (\<lambda>i s. map_option snd (ece391_close w (int i) s)) s = Some t \<and>
     emits A [] s t \<and> cur_fd t 0 = cur_fd s 0 \<and> opened 8 8 t"
proof -
  let ?P = "\<lambda>i t. emits A [] s t \<and> cur_fd t 0 = cur_fd s 0 \<and> opened i 8 t"
  have step: "\<exists>u. map_option snd (ece391_close w (int i) t) = Some u \<and> ?P (Suc i) u" if i: "2 \<le> i" "i < 8" and t: "?P i t" for i t
  proof -
    note e = emitsD(2) [OF conjunct1 [OF t]]
    let ?d = "(cur_fd t i)\<lparr>fd_flags := FD_ABSENT\<rparr>"
    have open_i: "fd_flags (cur_fd t i) \<noteq> FD_ABSENT" "file_operations_table (cur_fd t i) = Some Dir_ops"
      using t i by (auto simp: opened_def)
    have c: "ece391_close w (int i) t = Some (0, put_fd i ?d t)"
      using sys_close_file [OF on_show_running [OF e] i] open_i i by (intro close_call) (simp_all add: fits_int_def)
    note p = put_fd [OF on_show_running [OF e], where d = ?d and i = i, simplified]
    have "emits A [] s (put_fd i ?d t)"
      using emits_trans [OF conjunct1 [OF t] put_fd_emits [OF e i(1), of ?d]] by simp
    moreover have "opened (Suc i) 8 (put_fd i ?d t)"
      unfolding opened_def
    proof
      fix j :: nat assume j: "j \<in> {2..<8}"
      show "if Suc i \<le> j \<and> j < 8
          then fd_flags (cur_fd (put_fd i ?d t) j) = FD_EXISTS \<and> file_operations_table (cur_fd (put_fd i ?d t) j) = Some Dir_ops
          else fd_flags (cur_fd (put_fd i ?d t) j) = FD_ABSENT"
        using j t i p(3) p(4) [of j] by (cases "j = i") (auto simp: opened_def)
    qed
    ultimately show ?thesis using c t p(4) [of 0] i by simp
  qed
  show ?thesis
    by (rule for_each_upt [where P = ?P, OF _ _ step]) (use assms emits_refl in auto)
qed

lemma err_open_lots_passes: "passes A w ds (err_open_lots w) ''err_open_lots''"
  unfolding passes_def
proof (intro allI impI)
  fix s assume s: "testable A w ds s"
  obtain t where t: "for_each [0..<7]
       (\<lambda>_ (cnt, s). do { (r, s) \<leftarrow> ece391_open w (lit w ''.'') s; Some (if r = -1 then cnt + 1 else cnt, s) }) (0 :: int, s) =
     Some (1, t)" "emits A [] s t" "cur_fd t 0 = cur_fd s 0" "opened 2 8 t" using open_loop [OF s] by blast
  obtain u where u: "for_each [2..<8] (\<lambda>i s. map_option snd (ece391_close w (int i) s)) t = Some u"
     "emits A [] t u" "cur_fd u 0 = cur_fd t 0" "opened 8 8 u" using close_loop_user [OF emitsD(2) [OF t(2)] t(4)] by blast
  have e: "emits A [] s u" using emits_trans [OF t(2) u(2)] by simp
  have "testable A w ds u" using testable_emits [OF s e] t(3) u(3,4) by (simp add: opened_def)
  from says_passed [OF s e this, of "''err_open_lots''"]
  show "\<exists>t. err_open_lots w s = Some (0, t) \<and> emits A (bytes_of (passed_text ''err_open_lots'')) s t \<and> testable A w ds t"
    using t(1) u(1) by (auto simp: err_open_lots_def passed_text_def syserr_names_def simp del: upt_rec_numeral for_each.simps)
qed

subsection \<open>The whole program\<close>

lemma tests_pass:
  assumes "\<forall>k \<in> {1, 2, 5, 7}. user_room (loc k) 32"
  shows "list_all2 (passes A w ds) (syserr_tests w loc regs) syserr_names"
  using err_fd_passes err_open_lots_passes err_open_passes err_unopened_passes err_vidmap_passes err_stdin_out_passes
    err_syscall_num_passes assms
  by (simp add: syserr_tests_def syserr_names_def)

lemma add_results:
  assumes "list_all2 (passes A w ds) tests names" and "testable A w ds s"
  shows "\<exists>t. for_each tests add_result (0, s) = Some (0, t) \<and>
    emits A (concat (map (\<lambda>n. bytes_of (passed_text n)) names)) s t \<and> testable A w ds t"
  using assms
proof (induction arbitrary: s rule: list_all2_induct)
  case Nil
  then show ?case using emits_refl by (auto simp: testable_def)
next
  case (Cons test tests name names)
  obtain t where t: "test s = Some (0, t)" "emits A (bytes_of (passed_text name)) s t" "testable A w ds t"
    using Cons.hyps(1) Cons.prems by (auto simp: passes_def)
  obtain u where u: "for_each tests add_result (0, t) = Some (0, u)"
    "emits A (concat (map (\<lambda>n. bytes_of (passed_text n)) names)) t u" "testable A w ds u"
    using Cons.IH [OF t(3)] by blast
  have "add_result test (0, s) = Some (0, t)" using t(1) by (simp add: add_result_def)
  then show ?case using u emits_trans [OF t(2) u(2)] by auto
qed

lemma syserr_main_prints:
  assumes "testable A w ds s" and "types_line w ''Choose from tests 1-8. 0 to run all: '' echo (c # rest) s"
    and "0x30 \<le> c" and "c \<le> 0x38" and "user_room buf 128" and "array_at (current s) buf 127 \<subseteq> A"
    and "\<forall>k \<in> {1, 2, 5, 7}. user_room (loc k) 32"
    and "result = (if c = 0x30 then concat (map (\<lambda>n. bytes_of (passed_text n)) syserr_names) @
        bytes_of (newline @ ''Overall Tests: PASS'' @ newline)
      else bytes_of (passed_text (syserr_names ! (unat c - 0x31))))"
  shows "\<exists>t. syserr_main w buf loc regs s = Some (0, t) \<and>
    emits A (bytes_of ''Choose from tests 1-8. 0 to run all: '' @ echo @ result) s t"
proof -
  let ?prompt = "''Choose from tests 1-8. 0 to run all: ''"
  have s: "on_show s" "stdin_open s" "literals w A syserr_texts s" using assms(1) by (simp_all add: testable_def)
  obtain t where t: "ece391_fdputs w 1 (lit w ?prompt) s = Some t" "emits A (bytes_of ?prompt) s t" "cur_fd t = cur_fd s"
    "enters w echo (c # rest) t"
    using prompts [OF s(1,3) _ assms(2)] by (auto simp: syserr_texts_def)
  have "array_at (current t) buf 127 \<subseteq> A" using assms(6) emitsD(4) [OF t(2)] by simp
  then obtain u where u: "ece391_read w 0 buf 127 t = Some (127, u)" "emits A echo t u" "cur_fd u = cur_fd t"
    "user_bytes u buf (take 127 ((c # rest) @ replicate (128 - length (c # rest)) 0))"
    using read_line_call [OF emitsD(2) [OF t(2)] _ t(4), of 127 127 buf A] s(2) t(3) assms(5) by (auto simp: stdin_open_def)
  note e = emits_trans [OF t(2) u(2)]
  have tu: "testable A w ds u" using testable_emits [OF assms(1) e] assms(1) t(3) u(3) by (simp add: testable_def)
  have b: "uview u buf = Some c" using user_bytes_uview [OF emitsD(2) [OF u(2)] u(4), of 0] by simp
  define n where "n = unat c"
  have sel: "0x30 \<le> n" "n \<le> 0x38" "n = 0x30 \<longleftrightarrow> c = 0x30"
    using assms(3,4) by (simp_all add: n_def word_le_nat_alt word_unat_eq_iff)
  have int: "uint c = int n" unfolding n_def by (rule uint_nat)
  have tests: "list_all2 (passes A w ds) (syserr_tests w loc regs) syserr_names" by (rule tests_pass [OF assms(7)])
  show ?thesis
  proof (cases "c = 0x30")
    case True
    obtain v where v: "for_each (syserr_tests w loc regs) add_result (0, u) = Some (0, v)"
      "emits A (concat (map (\<lambda>n. bytes_of (passed_text n)) syserr_names)) u v" "testable A w ds v"
      using add_results [OF tests tu] by blast
    let ?over = "newline @ ''Overall Tests: PASS'' @ newline"
    have "?over \<in> set syserr_texts" by (simp add: syserr_texts_def)
    then obtain x where x: "ece391_fdputs w 1 (lit w ?over) v = Some x"
      "emits A ((bytes_of ?prompt @ echo) @ concat (map (\<lambda>n. bytes_of (passed_text n)) syserr_names) @ bytes_of ?over) s x"
      using puts_lit [OF emits_trans [OF e v(2)] s(3)] by fastforce
    then show ?thesis using t(1) u(1) b v(1) True assms(8) by (simp add: syserr_main_def)
  next
    case False
    let ?k = "n - 0x31"
    have k: "?k < 8" "nat (uint c - 0x30 - 1) = ?k" "1 \<le> uint c - 0x30" "uint c - 0x30 \<le> 8" "uint c - 0x30 \<noteq> 0"
      using sel False unfolding int by auto
    have "passes A w ds (syserr_tests w loc regs ! ?k) (syserr_names ! ?k)"
      using list_all2_nthD [OF tests, of ?k] k(1) by (simp add: syserr_tests_def)
    then obtain v where v: "(syserr_tests w loc regs ! ?k) u = Some (0, v)" "emits A (bytes_of (passed_text (syserr_names ! ?k))) u v"
      using tu unfolding passes_def by blast
    moreover have "syserr_main w buf loc regs s = (syserr_tests w loc regs ! ?k) u"
      using t(1) u(1) b k(2-5) by (simp add: syserr_main_def)
    ultimately show ?thesis using emits_trans [OF e v(2)] False assms(8) by (simp add: n_def)
  qed
qed

subsection \<open>Properties\<close>

text \<open>C19. The system calls pass the repository's own test of their error returns: \<open>syserr\<close>, started as the
  child of another process with no file open, prints its question, the echo of the answer and, for
  the answer 1 to 8, that the test of this number has passed, for 0 that all eight have; it ends with
  status 0. So descriptors outside the table and closed ones, a seventh \<open>open\<close>, names that are not
  in the directory, pointers outside the program's page, the wrong direction on the standard streams
  and unknown call numbers are all refused with -1.\<close>

theorem syserr_passes:
  assumes "child s" and "testable (array_at (current s) buf 128) w ds s"
    and "types_line w ''Choose from tests 1-8. 0 to run all: '' echo (c # rest) s" and "0x30 \<le> c" and "c \<le> 0x38"
    and "user_room buf 128" and "\<forall>k \<in> {1, 2, 5, 7}. user_room (loc k) 32"
  shows "leaves (array_at (current s) buf 128) 0
    (bytes_of ''Choose from tests 1-8. 0 to run all: '' @ echo @
      (if c = 0x30 then concat (map (\<lambda>n. bytes_of (passed_text n)) syserr_names) @
         bytes_of (newline @ ''Overall Tests: PASS'' @ newline)
       else bytes_of (passed_text (syserr_names ! (unat c - 0x31)))))
    s (user_start w (syserr_main w buf loc regs) s)"
proof -
  have "array_at (current s) buf 127 \<subseteq> array_at (current s) buf 128" by (auto simp: array_at_def)
  from syserr_main_prints [where regs = regs, OF assms(2-6) this assms(7) refl] obtain t where t:
    "syserr_main w buf loc regs s = Some (0, t)"
    "emits (array_at (current s) buf 128) (bytes_of ''Choose from tests 1-8. 0 to run all: '' @ echo @
      (if c = 0x30 then concat (map (\<lambda>n. bytes_of (passed_text n)) syserr_names) @
         bytes_of (newline @ ''Overall Tests: PASS'' @ newline)
       else bytes_of (passed_text (syserr_names ! (unat c - 0x31))))) s t" by (elim exE conjE) (rule that)
  have "(ucast (word_of_int 0 :: u8) :: u32) = 0" by simp
  with program_ends [where main = "syserr_main w buf loc regs" and w = w, OF assms(1) t] show ?thesis by (simp only:)
qed

lemma syserr_texts_plain:
  "length (literal_image syserr_texts) \<le> 0x10000"
  "\<forall>x \<in> set syserr_texts. \<forall>c \<in> set (bytes_of x). c \<noteq> 0 \<and> c \<noteq> BACKSPACE"
  by (auto simp: literal_image_def syserr_texts_def syserr_names_def passed_text_def bytes_of_def)

lemma sample_testable:
  assumes "\<forall>a \<in> A. a < user_frame 3 LITERALS" and "length input \<le> 128"
  shows "testable A (typing_world syserr_texts input goes) sample_dir (sample_program [] syserr_texts)"
proof -
  let ?s = "sample_program [] syserr_texts"
  note p = sample_program [of "[]", OF _ syserr_texts_plain(1), simplified] and r = sample_reader [OF syserr_texts_plain assms]
  have "\<forall>i \<in> {2..<8}. fd_flags (cur_fd ?s i) = FD_ABSENT"
    by (auto simp: r(6) booted_pb_def blank_fd_def nth_Cons')
  moreover have "dir_ok (fs_image ?s) (fs ?s) sample_dir" unfolding p(4,5) by (rule reading_kernel_dir)
  moreover have "find (\<lambda>d. dentry_name d = bytes_of ''.'') sample_dir = Some (sample_dir ! 0)" "file_type (sample_dir ! 0) = 1"
    "dentry_name ` set sample_dir \<inter> bytes_of ` {''helloo'', ''shel'', ''''} = {}"
    by (simp_all add: sample_dir_def dentry_name_def bytes_of_def)
  moreover have "frames_ok (typing_world syserr_texts input goes)"
    using sample_world_frames by (simp add: frames_ok_def typing_world_def)
  ultimately show ?thesis using child_on_show [OF r(1)] r(2,4) by (auto simp: testable_def)
qed

theorem syserr_passes_witness:
  "let w = typing_world syserr_texts [0x37, 0x0A] (\<lambda>_ _. None); s = sample_program [] syserr_texts
   in leaves (array_at (current s) 0x8048000 128) 0
     (bytes_of ''Choose from tests 1-8. 0 to run all: '' @ [] @ bytes_of (''err_stdin_out: PASS'' @ newline))
     s (user_start w (syserr_main w 0x8048000 (\<lambda>_. 0x8049000) (0, 0, 0)) s)"
proof -
  let ?w = "typing_world syserr_texts [0x37, 0x0A] (\<lambda>_ _. None)" and ?s = "sample_program [] syserr_texts"
  have low: "\<forall>a \<in> array_at 3 0x8048000 128. a < user_frame 3 LITERALS" by (auto simp: array_at_def user_frame_def)
  have len: "length [0x37, 0x0A :: u8] \<le> 128" by simp
  note r = sample_reader [OF syserr_texts_plain low len]
  have "testable (array_at (current ?s) 0x8048000 128) ?w sample_dir ?s"
    unfolding r(3) by (rule sample_testable [OF low len])
  then have "leaves (array_at (current ?s) 0x8048000 128) 0
    (bytes_of ''Choose from tests 1-8. 0 to run all: '' @ [] @
      (if (0x37 :: u8) = 0x30 then concat (map (\<lambda>n. bytes_of (passed_text n)) syserr_names) @
         bytes_of (newline @ ''Overall Tests: PASS'' @ newline)
       else bytes_of (passed_text (syserr_names ! (unat (0x37 :: u8) - 0x31)))))
    ?s (user_start ?w (syserr_main ?w 0x8048000 (\<lambda>_. 0x8049000) (0, 0, 0)) ?s)"
    by (rule syserr_passes [OF r(1) _ r(5)]) (simp_all add: user_room_def)
  then show ?thesis by (simp add: Let_def syserr_names_def passed_text_def)
qed

end
