(* ===== verification/User_Arrays.thy ===== *)
theory User_Arrays
  imports User_Shell
begin

text \<open>
  The library routines on an array of a running program. A state in which the array at \<open>buf\<close> has
  the content \<open>xs\<close> is \<open>put_user buf xs s\<close>; loads and stores of the program act on \<open>xs\<close> as the accesses
  \<open>lrd\<close> and \<open>lwr\<close> of a list do (\<open>mirrors\<close>), so what the routines do with lists they do with the array.
\<close>

subsection \<open>Two stores with the same contents\<close>

definition mirrors :: "nat \<Rightarrow> (u8 list \<Rightarrow> 'm) \<Rightarrow> ('m \<Rightarrow> nat \<Rightarrow> u8 option) \<Rightarrow> ('m \<Rightarrow> nat \<Rightarrow> u8 \<Rightarrow> 'm option) \<Rightarrow> bool" where
  "mirrors n h rd wr \<longleftrightarrow> (\<forall>xs i b. length xs = n \<and> i < n \<longrightarrow>
     rd (h xs) i = Some (xs ! i) \<and> wr (h xs) i b = Some (h (xs[i := b])))"

lemma mirrors_rd: "mirrors n h rd wr \<Longrightarrow> length xs = n \<Longrightarrow> lrd xs i = Some c \<Longrightarrow> rd (h xs) i = Some c"
  by (auto simp: mirrors_def lrd_def split: if_splits)

lemma mirrors_wr:
  "mirrors n h rd wr \<Longrightarrow> length xs = n \<Longrightarrow> lwr xs i b = Some ys \<Longrightarrow> wr (h xs) i b = Some (h ys) \<and> length ys = n"
  by (auto simp: mirrors_def lwr_def split: if_splits)

lemma mirrors_cstr: "mirrors n h rd wr \<Longrightarrow> length xs = n \<Longrightarrow> cstr (lrd xs) zs \<Longrightarrow> cstr (rd (h xs)) zs"
  by (auto simp: cstr_def mirrors_rd)

lemma mirrors_put_bytes:
  assumes "mirrors n h rd wr"
  shows "length xs = n \<Longrightarrow> put_bytes lwr a bs xs = Some ys \<Longrightarrow> put_bytes wr a bs (h xs) = Some (h ys) \<and> length ys = n"
proof (induction bs arbitrary: a xs)
  case Nil
  then show ?case by simp
next
  case (Cons b bs)
  then obtain zs where z: "lwr xs a b = Some zs" "put_bytes lwr (Suc a) bs zs = Some ys" by (auto simp: bind_eq_Some_conv)
  note w = mirrors_wr [OF assms Cons.prems(1) z(1)]
  then show ?case using Cons.IH [OF _ z(2)] by simp
qed

lemma mirrors_strrev_loop:
  assumes "mirrors n h rd wr"
  shows "length xs = n \<Longrightarrow> strrev_loop lrd lwr beg end xs = Some ys \<Longrightarrow>
    strrev_loop rd wr beg end (h xs) = Some (h ys) \<and> length ys = n"
proof (induction "nat (end - beg)" arbitrary: beg "end" xs rule: less_induct)
  case less
  show ?case
  proof (cases "beg < end")
    case False
    then show ?thesis using less.prems by (simp add: strrev_loop.simps)
  next
    case True
    obtain t c m1 m2 where l: "lrd xs (nat end) = Some t" "lrd xs (nat beg) = Some c" "lwr xs (nat end) c = Some m1"
      "lwr m1 (nat beg) t = Some m2" "strrev_loop lrd lwr (beg + 1) (end - 1) m2 = Some ys"
      using less.prems(2) True by (subst (asm) strrev_loop.simps) (auto simp: bind_eq_Some_conv)
    note w1 = mirrors_wr [OF assms less.prems(1) l(3)]
    note w2 = mirrors_wr [OF assms conjunct2 [OF w1] l(4)]
    have "strrev_loop rd wr (beg + 1) (end - 1) (h m2) = Some (h ys) \<and> length ys = n"
      by (rule less.hyps [OF _ conjunct2 [OF w2] l(5)]) (use True in simp)
    then show ?thesis
      using True mirrors_rd [OF assms less.prems(1)] l(1,2) w1 w2 by (subst strrev_loop.simps) simp
  qed
qed

lemma length_decimal: "length (radix_string 10 (unat (val :: u32))) \<le> 10"
proof -
  have "unat val < 10 ^ 10" using unsigned_less [of val, where 'a = nat] by simp
  then show ?thesis by (rule length_radix_string) simp
qed

lemma mirrors_itoa:
  assumes "mirrors n h rd wr" and "length xs = n" and "10 < n"
  shows "\<exists>ys. length ys = n \<and> ece391_itoa rd wr val 10 (h xs) = Some (h ys) \<and> cstr (lrd ys) (radix_string 10 (unat val))"
proof (cases "val = 0")
  case True
  let ?ys = "xs[0 := 0x30, 1 := 0]"
  have "ece391_itoa rd wr val 10 (h xs) = Some (h ?ys)"
    using True assms by (simp add: ece391_itoa_def mirrors_def)
  moreover have "cstr (lrd ?ys) [0x30]" using assms(2,3) by (simp add: cstr_def lrd_def)
  ultimately show ?thesis using True assms(2) by (intro exI [of _ ?ys]) (simp add: radix_string_def)
next
  case False
  let ?s = "radix_string 10 (unat val)"
  have room: "lrd xs i \<noteq> None" if "i \<le> length ?s" for i
    using that length_decimal [of val] assms(2,3) by (simp add: lrd_def)
  have u10: "unat (10 :: u32) = 10" by simp
  obtain k m1 m2 where w: "itoa_digits lwr 10 0 val xs = Some (k, m1)" "lwr m1 k 0 = Some m2" "cstr (lrd m2) (rev ?s)"
    using arr.itoa_digits_written [of 10 val xs] False room by auto
  obtain ys where ys: "strrev lrd lwr m2 = Some ys" "cstr (lrd ys) ?s" using arr.strrev_cstr [OF w(3)] by auto
  have len: "length (rev ?s) < 2 ^ 31" using length_decimal [of val] by simp
  have d: "itoa_digits wr 10 0 val (h xs) = Some (k, h m1)" "length m1 = n"
    using w(1) mirrors_put_bytes [OF assms(1,2), of 0 _ m1] by (auto simp: itoa_digits_eq)
  note w2 = mirrors_wr [OF assms(1) d(2) w(2)]
  have c2: "cstr (rd (h m2)) (rev ?s)" by (rule mirrors_cstr [OF assms(1) conjunct2 [OF w2] w(3)])
  have "strrev rd wr (h m2) = Some (h ys) \<and> length ys = n"
    using ys(1) mirrors_strrev_loop [OF assms(1) conjunct2 [OF w2]] strlen_cstr [OF w(3)] strlen_cstr [OF c2]
    by (simp add: strrev_def)
  then show ?thesis
    using d(1) w2 ys(2) False ece391_strrev_eq [where rd = rd and m = "h m2" and wr = wr, OF c2 len] by (auto simp: ece391_itoa_def)
qed

subsection \<open>The array of a program\<close>

lemma put_user_twice:
  assumes "length ys = length xs"
  shows "put_user buf ys (put_user buf xs s) = put_user buf ys s"
proof -
  have "poke f ys (poke f xs m) = poke f ys m" for f m using assms by (auto simp: poke_def fun_eq_iff)
  then show ?thesis by (simp add: put_user_def current_def)
qed

lemma poke_nth_update:
  "i < length xs \<Longrightarrow> poke (f + i) [b] (poke f xs m) = poke f (xs[i := b]) m"
  by (auto simp: poke_def fun_eq_iff nth_list_update)

lemma mirrors_array:
  assumes "on_show s" and "user_room buf n"
  shows "mirrors n (\<lambda>xs. put_user buf xs s) (\<lambda>s i. uview s (buf + i)) (\<lambda>s i b. user_store (buf + i) b s)"
  unfolding mirrors_def
proof (intro allI impI conjI)
  fix xs :: "u8 list" and i and b :: u8 assume i: "length xs = n \<and> i < n"
  then have room: "user_room buf (length xs)" using assms(2) by simp
  have shown_t: "on_show (put_user buf xs s)" by (rule emitsD(2) [OF put_user_emits [OF assms(1) room subset_UNIV]])
  show "uview (put_user buf xs s) (buf + i) = Some (xs ! i)"
    by (rule user_bytes_uview [OF shown_t put_user_bytes [OF room]]) (use i in simp)
  have "user_frame (current s) (buf + i) = user_frame (current s) buf + i"
    using assms(2) by (simp add: user_frame_def user_room_def)
  then have "put_user (buf + i) [b] (put_user buf xs s) = put_user buf (xs[i := b]) s"
    using i by (simp add: put_user_def current_def poke_nth_update)
  then show "user_store (buf + i) b (put_user buf xs s) = Some (put_user buf (xs[i := b]) s)"
    using user_store_eq [OF shown_t, of buf i b] user_room_less [OF assms(2), of "Suc i"] i by simp
qed

text \<open>Every array has some content.\<close>

lemma array_content:
  assumes "on_show s" and "user_room buf n"
  shows "\<exists>xs. length xs = n \<and> put_user buf xs s = s"
proof -
  let ?xs = "map (\<lambda>i. mem s (user_frame (current s) buf + i)) [0..<n]"
  have "poke (user_frame (current s) buf) ?xs (mem s) = mem s" by (auto simp: poke_def fun_eq_iff)
  then show ?thesis by (intro exI [of _ ?xs]) (simp add: put_user_def)
qed

end
