(* ===== verification/User_Counter.thy ===== *)
theory User_Counter
  imports User_Arrays Shell_Instances
begin

text \<open>
  The program \<open>counter\<close> of \<^verbatim>\<open>syscalls/\<close>: it asks for a choice and prints the numbers up to 100, 10000 or
  100000. The number is formatted into the array that held the answer, by \<open>ece391_itoa\<close>.
\<close>

definition counter_loop :: "world \<Rightarrow> nat \<Rightarrow> nat \<Rightarrow> kst \<Rightarrow> kst option" where
  "counter_loop w buf max_num s =
     for_each [0..<max_num]
       (\<lambda>i s. do { s \<leftarrow> ece391_itoa (\<lambda>s k. uview s (buf + k)) (\<lambda>s k b. user_store (buf + k) b s) (word_of_nat (i + 1)) 10 s;
                   s \<leftarrow> ece391_fdputs w 1 buf s;
                   ece391_fdputs w 1 (lit w newline) s }) s"

definition counter_main :: "world \<Rightarrow> nat \<Rightarrow> kst \<Rightarrow> (int \<times> kst) option" where
  "counter_main w buf s =
     do { s \<leftarrow> ece391_fdputs w 1 (lit w (''Enter the Test Number: (0): 100, (1): 10000, (2): 100000'' @ newline)) s;
          (cnt, s) \<leftarrow> ece391_read w 0 buf 1023 s;
          if cnt = -1 then
            do { s \<leftarrow> ece391_fdputs w 1 (lit w (''Can't read the number from keyboard.'' @ newline)) s; Some (3, s) }
          else
            do { s \<leftarrow> user_store (nat (int buf + cnt)) 0 s;
                 n \<leftarrow> ece391_strlen (ptr s buf);
                 c \<leftarrow> uview s buf;
                 if n > 2 \<or> (n = 2 \<and> (c < 0x30 \<or> c > 0x32)) then
                   do { s \<leftarrow> ece391_fdputs w 1 (lit w (''Wrong Choice!'' @ newline)) s; Some (0, s) }
                 else
                   do { s \<leftarrow> counter_loop w buf
                          (if c = 0x30 then 100 else if c = 0x31 then 10000 else if c = 0x32 then 100000 else 0) s;
                        Some (0, s) } } }"

subsection \<open>Counting\<close>

lemma itoa_call:
  assumes "on_show s" and "user_room buf 129" and "array_at (current s) buf 129 \<subseteq> A"
  shows "\<exists>t. ece391_itoa (\<lambda>s k. uview s (buf + k)) (\<lambda>s k b. user_store (buf + k) b s) val 10 s = Some t \<and>
     emits A [] s t \<and> cur_fd t = cur_fd s \<and> user_string t buf (radix_string 10 (unat val))"
proof -
  obtain xs where xs: "length xs = 129" "put_user buf xs s = s" using array_content [OF assms(1,2)] by blast
  obtain ys where ys: "length ys = 129" "cstr (lrd ys) (radix_string 10 (unat val))"
    "ece391_itoa (\<lambda>s k. uview s (buf + k)) (\<lambda>s k b. user_store (buf + k) b s) val 10 s = Some (put_user buf ys s)"
    using mirrors_itoa [OF mirrors_array [OF assms(1,2)] xs(1)] xs(2) by auto
  have room: "user_room buf (length ys)" using assms(2) ys(1) by simp
  have "emits A [] s (put_user buf ys s)" by (rule put_user_emits [OF assms(1) room]) (use assms(3) ys(1) in simp)
  moreover have "user_string (put_user buf ys s) buf (radix_string 10 (unat val))"
  proof -
    let ?zs = "radix_string 10 (unat val)"
    have "user_bytes (put_user buf ys s) buf ys" by (rule put_user_bytes [OF room])
    moreover have "ys = (?zs @ [0]) @ drop (Suc (length ?zs)) ys"
    proof -
      have "length ?zs < length ys" using length_decimal [of val] ys(1) by simp
      moreover have "ys ! i = (?zs @ [0]) ! i" if "i \<le> length ?zs" for i
        using cstr_get [OF ys(2) that] by (simp add: lrd_def split: if_splits)
      ultimately have "take (Suc (length ?zs)) ys = ?zs @ [0]" by (intro nth_equalityI) auto
      then show ?thesis by (metis append_take_drop_id)
    qed
    ultimately have "user_bytes (put_user buf ys s) buf (?zs @ [0])" using user_bytes_append by metis
    then show ?thesis using radix_string_nonzero [of 10 "unat val"] by (simp add: user_string_def)
  qed
  ultimately show ?thesis using ys(3) by auto
qed

definition counter_texts :: "string list" where
  "counter_texts = [''Enter the Test Number: (0): 100, (1): 10000, (2): 100000'' @ newline, ''Wrong Choice!'' @ newline, newline]"

definition counted :: "nat \<Rightarrow> u8 list" where
  "counted n = concat (map (\<lambda>i. radix_string 10 (Suc i) @ [0x0A]) [0..<n])"

text \<open>How far the program counts for an answer.\<close>

definition chosen :: "u8 list \<Rightarrow> nat" where
  "chosen ans = (if ans = [0x30] then 100 else if ans = [0x31] then 10000 else if ans = [0x32] then 100000 else 0)"

lemma digit_char_plain: "d < 36 \<Longrightarrow> digit_char d \<noteq> BACKSPACE"
  by (auto simp: digit_char_ascii word_unat_eq_iff unat_of_nat take_bit_eq_mod simp del: of_nat_add of_nat_numeral)

lemma counter_loop_prints:
  assumes "on_show s" and "user_room buf 129" and "array_at (current s) buf 129 \<subseteq> A" and "literals w A counter_texts s"
    and "n < 2 ^ 32"
  shows "\<exists>t. counter_loop w buf n s = Some t \<and> emits A (counted n) s t"
  unfolding counter_loop_def
proof (rule for_each_upt [where P = "\<lambda>i t. emits A (counted i) s t"])
  show "emits A (counted 0) s s" using emits_refl [OF assms(1)] emits_mono by (auto simp: counted_def)
  fix i t assume i: "i < n" and t: "emits A (counted i) s t"
  have sub: "array_at (current t) buf 129 \<subseteq> A" using assms(3) emitsD(4) [OF t] by simp
  obtain u where u: "ece391_itoa (\<lambda>s k. uview s (buf + k)) (\<lambda>s k b. user_store (buf + k) b s) (word_of_nat (i + 1)) 10 t = Some u"
    "emits A [] t u" "user_string u buf (radix_string 10 (unat (word_of_nat (i + 1) :: u32)))"
    using itoa_call [OF emitsD(2) [OF t] assms(2) sub] by blast
  have n: "unat (word_of_nat (i + 1) :: u32) = Suc i" using i assms(5) by (simp add: unat_of_nat take_bit_eq_mod del: of_nat_add of_nat_Suc)
  have plain: "BACKSPACE \<notin> set (radix_string 10 (Suc i))"
    using digit_char_plain by (auto simp: radix_string_def dest!: radix_digits_less)
  obtain v where v: "ece391_fdputs w 1 buf u = Some v" "emits A (radix_string 10 (Suc i)) u v"
    using puts_emits [OF emitsD(2) [OF u(2)] u(3) [unfolded n] plain] by blast
  note e = emits_trans [OF t emits_trans [OF u(2) v(2)]]
  obtain x where x: "ece391_fdputs w 1 (lit w newline) v = Some x"
    "emits A ((counted i @ [] @ radix_string 10 (Suc i)) @ bytes_of newline) s x"
    using puts_lit [OF e assms(4), of newline] by (auto simp: counter_texts_def)
  then show "\<exists>x. (do { s \<leftarrow> ece391_itoa (\<lambda>s k. uview s (buf + k)) (\<lambda>s k b. user_store (buf + k) b s) (word_of_nat (i + 1)) 10 t;
                   s \<leftarrow> ece391_fdputs w 1 buf s;
                   ece391_fdputs w 1 (lit w newline) s }) = Some x \<and> emits A (counted (Suc i)) s x"
    using u(1) v(1) by (simp add: counted_def bytes_of_def)
qed simp

lemma counter_main_prints:
  assumes "on_show s" and "stdin_open s" and "literals w (array_at (current s) buf 129) counter_texts s"
    and "types_line w (''Enter the Test Number: (0): 100, (1): 10000, (2): 100000'' @ newline) echo (ans @ [0x0A]) s"
    and "user_room buf 129" and "0 \<notin> set ans"
  shows "\<exists>t. counter_main w buf s = Some (0, t) \<and> emits (array_at (current s) buf 129)
    (bytes_of (''Enter the Test Number: (0): 100, (1): 10000, (2): 100000'' @ newline) @ echo @
     (if ans = [] \<or> 0 < chosen ans then counted (chosen ans) else bytes_of (''Wrong Choice!'' @ newline))) s t"
proof -
  let ?prompt = "''Enter the Test Number: (0): 100, (1): 10000, (2): 100000'' @ newline" and ?A = "array_at (current s) buf 129"
  obtain s1 where s1: "ece391_fdputs w 1 (lit w ?prompt) s = Some s1" "emits ?A (bytes_of ?prompt) s s1" "cur_fd s1 = cur_fd s"
    "enters w echo (ans @ [0x0A]) s1"
    using prompts [OF assms(1,3) _ assms(4)] by (auto simp: counter_texts_def)
  have "array_at (current s1) buf 129 \<subseteq> ?A" "stdin_open s1"
    using emitsD(4) [OF s1(2)] assms(2) s1(3) by (simp_all add: stdin_open_def)
  then obtain s2 where s2: "ece391_read w 0 buf 1023 s1 = Some (128, s2)" "emits ?A echo s1 s2"
    "user_bytes s2 buf ((ans @ [0x0A]) @ replicate (128 - length (ans @ [0x0A])) 0)"
    using read_all_call [OF emitsD(2) [OF s1(2)] _ s1(4) assms(5)] by blast
  note e2 = emits_trans [OF s1(2) s2(2)]
  have len: "length (ans @ [0x0A]) \<le> 128" using s1(4) by (simp add: enters_def)
  have z: "0 \<notin> set (ans @ [0x0A])" using assms(6) by simp
  have "array_at (current s2) buf 129 \<subseteq> ?A" using emitsD(4) [OF e2] by simp
  then obtain s3 where s3: "user_store (buf + 128) 0 s2 = Some s3" "emits ?A [] s2 s3" "user_string s3 buf (ans @ [0x0A])"
    using terminate_line [OF emitsD(2) [OF s2(2)] s2(3) len z assms(5)] by blast
  note e3 = emits_trans [OF e2 s3(2), simplified]
  note shown3 = emitsD(2) [OF s3(2)]
  have cs: "cstr (ptr s3 buf) (ans @ [0x0A])" by (rule user_string_cstr(1) [OF shown3 s3(3)])
  define m where "m = length ans"
  have strlen: "ece391_strlen (ptr s3 buf) = Some (word_of_nat (Suc m))"
    using ece391_strlen_cstr [OF cs] by (simp add: m_def)
  have m: "m < 128" using len by (simp add: m_def)
  have um: "unat (word_of_nat (Suc m) :: u32) = Suc m" using m by (simp add: unat_of_nat take_bit_eq_mod del: of_nat_Suc)
  have cmp: "(word_of_nat (Suc m) > (2 :: u32)) = (1 < m)" "(word_of_nat (Suc m) = (2 :: u32)) = (m = 1)"
    unfolding word_less_nat_alt word_unat_eq_iff um by auto
  have c0: "uview s3 buf = Some ((ans @ [0x0A]) ! 0)" using cstr_char [OF cs, of 0] by (simp add: ptr_def)
  have at: "nat (int buf + 128) = buf + 128" by simp
  note run = s1(1) s2(1) s3(1) strlen c0 at cmp
  show ?thesis
  proof (cases "ans = [] \<or> 0 < chosen ans")
    case True
    have sub: "array_at (current s3) buf 129 \<subseteq> ?A" using emitsD(4) [OF e3] by simp
    have "chosen ans < 2 ^ 32" by (simp add: chosen_def)
    then obtain t where t: "counter_loop w buf (chosen ans) s3 = Some t" "emits ?A (counted (chosen ans)) s3 t"
      using counter_loop_prints [OF shown3 assms(5) sub literals_emits [OF e3 assms(3)]] by blast
    have "counter_main w buf s = Some (0, t)"
      using True run t(1) m_def unfolding counter_main_def
      by (auto simp: chosen_def split: if_splits simp del: of_nat_Suc)
    then show ?thesis using True emits_trans [OF e3 t(2)] by auto
  next
    case False
    obtain t where t: "ece391_fdputs w 1 (lit w (''Wrong Choice!'' @ newline)) s3 = Some t"
      "emits ?A ((bytes_of ?prompt @ echo) @ bytes_of (''Wrong Choice!'' @ newline)) s t"
      using puts_lit [OF e3 assms(3), of "''Wrong Choice!'' @ newline"] by (auto simp: counter_texts_def)
    have wrong: "1 < m \<or> m = 1 \<and> (ans ! 0 < 0x30 \<or> 0x32 < ans ! 0)"
    proof (cases "1 < m")
      case one: False
      then obtain c where c: "ans = [c]" using False by (cases ans; cases "tl ans") (auto simp: m_def)
      then have "c \<noteq> 0x30" "c \<noteq> 0x31" "c \<noteq> 0x32" using False by (auto simp: chosen_def)
      then have "unat c \<noteq> 0x30" "unat c \<noteq> 0x31" "unat c \<noteq> 0x32" by (auto simp: word_unat_eq_iff)
      then have "unat c < 0x30 \<or> 0x32 < unat c" by linarith
      then show ?thesis using c by (auto simp: m_def word_less_nat_alt)
    qed simp
    have "counter_main w buf s = Some (0, t)"
      using False wrong run t(1) unfolding counter_main_def by (auto simp: nth_append m_def simp del: of_nat_Suc)
    then show ?thesis using False t(2) by auto
  qed
qed

subsection \<open>Properties\<close>

text \<open>\<open>counter\<close> asks for a choice and, for the answer 0, 1 or 2, prints the numbers from 1 to 100, 10000
  or 100000 in decimal, each on a line of its own; for any other answer it prints "Wrong Choice!", and
  for an empty line nothing. It ends with status 0.\<close>

theorem counter_counts:
  assumes "child s" and "stdin_open s" and "literals w (array_at (current s) buf 129) counter_texts s"
    and "types_line w (''Enter the Test Number: (0): 100, (1): 10000, (2): 100000'' @ newline) echo (ans @ [0x0A]) s"
    and "user_room buf 129" and "0 \<notin> set ans"
  shows "leaves (array_at (current s) buf 129) 0
    (bytes_of (''Enter the Test Number: (0): 100, (1): 10000, (2): 100000'' @ newline) @ echo @
     (if ans = [] \<or> 0 < chosen ans then counted (chosen ans) else bytes_of (''Wrong Choice!'' @ newline))) s
    (user_start w (counter_main w buf) s)"
proof -
  obtain t where t: "counter_main w buf s = Some (0, t)" "emits (array_at (current s) buf 129)
    (bytes_of (''Enter the Test Number: (0): 100, (1): 10000, (2): 100000'' @ newline) @ echo @
     (if ans = [] \<or> 0 < chosen ans then counted (chosen ans) else bytes_of (''Wrong Choice!'' @ newline))) s t"
    using counter_main_prints [OF child_on_show [OF assms(1)] assms(2-6)] by (elim exE conjE) (rule that)
  have "(ucast (word_of_int 0 :: u8) :: u32) = 0" by simp
  with program_ends [where main = "counter_main w buf" and w = w, OF assms(1) t] show ?thesis by (simp only:)
qed

lemma counter_texts_plain:
  "length (literal_image counter_texts) \<le> 0x10000"
  "\<forall>x \<in> set counter_texts. \<forall>c \<in> set (bytes_of x). c \<noteq> 0 \<and> c \<noteq> BACKSPACE"
  by (auto simp: literal_image_def counter_texts_def bytes_of_def)

theorem counter_counts_witness:
  "let w = typing_world counter_texts [0x30, 0x0A] (\<lambda>_ _. None); s = sample_program [] counter_texts
   in leaves (array_at (current s) 0x8048000 129) 0
     (bytes_of (''Enter the Test Number: (0): 100, (1): 10000, (2): 100000'' @ newline) @ [] @ counted 100)
     s (user_start w (counter_main w 0x8048000) s)"
proof -
  let ?w = "typing_world counter_texts [0x30, 0x0A] (\<lambda>_ _. None)" and ?s = "sample_program [] counter_texts"
  have low: "\<forall>a \<in> array_at 3 0x8048000 129. a < user_frame 3 LITERALS" by (auto simp: array_at_def user_frame_def)
  have len: "length [0x30, 0x0A :: u8] \<le> 128" by simp
  note r = sample_reader [OF counter_texts_plain low len]
  have "literals ?w (array_at (current ?s) 0x8048000 129) counter_texts ?s" using r(3,4) by simp
  from counter_counts [OF r(1,2) this, of "[]" "[0x30]"] r(5)
  show ?thesis by (simp add: Let_def user_room_def chosen_def)
qed

end
