(* ===== verification/Clock_Time.thy ===== *)
theory Clock_Time
  imports User_Output
begin

text \<open>
  Time as the machine shows it: the number of clock interrupts so far, which the log of the ports tells,
  and steps that take none (\<open>quiet\<close>). Printing is quiet, whatever it prints.
\<close>

text \<open>The handler of the clock selects register C after every interrupt; nothing else does.\<close>

definition clock_irqs :: "kst \<Rightarrow> nat" where
  "clock_irqs s = length (filter (\<lambda>x. x = (RTC_PORT, 0x0C)) (port_log s))"

definition quiet :: "kst \<Rightarrow> kst \<Rightarrow> bool" where
  "quiet s t \<longleftrightarrow> rtc_block t = rtc_block s \<and> exec_terminal t = exec_terminal s \<and> clock_irqs t = clock_irqs s"

lemma quiet_trans [trans]: "quiet s t \<Longrightarrow> quiet t u \<Longrightarrow> quiet s u"
  by (simp add: quiet_def)

interpretation quiet: step_relation quiet
  by unfold_locales (auto simp: quiet_def)

lemma quiet_fields [simp]:
  "quiet s s" "quiet s (s\<lparr>mem := m\<rparr>)" "quiet s (s\<lparr>screen_x := x\<rparr>)" "quiet s (s\<lparr>screen_y := x\<rparr>)"
  "quiet s (s\<lparr>start_x := x\<rparr>)" "quiet s (s\<lparr>start_y := x\<rparr>)" "quiet s (s\<lparr>pcb := ps\<rparr>)" "quiet s (cli s)" "quiet s (sti s)"
  "quiet s (put_user a bs s)"
  by (simp_all add: quiet_def clock_irqs_def cli_def sti_def put_user_def)

subsection \<open>The console\<close>

lemma upd_tmnl_quiet: "upd_tmnl i f s = Some t \<Longrightarrow> quiet s t"
  by (auto simp: upd_tmnl_def quiet_def clock_irqs_def bind_eq_Some_conv split: if_splits)

lemma kput_quiet: "kput a b s = Some t \<Longrightarrow> quiet s t"
  by (auto simp: kput_def bind_eq_Some_conv)

lemma cursor_quiet: "update_cursor x y i s = Some t \<Longrightarrow> quiet s t"
  by (auto simp: update_cursor_def Let_def bind_eq_Some_conv dest!: upd_tmnl_quiet)
    (simp add: quiet_def clock_irqs_def on_ports_def outb_def)

lemma scroll_quiet:
  assumes "scroll base attr s = Some t"
  shows "quiet s t"
proof -
  obtain m where "blank_last_row base attr (s\<lparr>mem := m\<rparr>) = Some t"
    using assms by (auto simp: scroll_def bind_eq_Some_conv)
  then have "quiet (s\<lparr>mem := m\<rparr>) t"
    unfolding blank_last_row_def
    by (rule quiet.for_each_related) (auto simp: bind_eq_Some_conv intro: quiet_trans dest!: kput_quiet)
  then show ?thesis using quiet_trans [OF quiet_fields(2)] by blast
qed

text \<open>A computation whose end, when it has one, is quiet.\<close>

definition quietly :: "kst \<Rightarrow> kst option \<Rightarrow> bool" where
  "quietly s r \<longleftrightarrow> (\<forall>t. r = Some t \<longrightarrow> quiet s t)"

lemma quietly_bind: "quietly s r \<Longrightarrow> (\<And>t. quietly t (f t)) \<Longrightarrow> quietly s (r \<bind> f)"
  by (auto simp: quietly_def bind_eq_Some_conv intro: quiet_trans)

lemma quietly_attr: "(\<And>x. quietly s (f x)) \<Longrightarrow> quietly s ((r :: u8 option) \<bind> f)"
  by (auto simp: quietly_def bind_eq_Some_conv)

lemma quietly_tmnl: "(\<And>x. quietly s (f x)) \<Longrightarrow> quietly s ((r :: tmnl option) \<bind> f)"
  by (auto simp: quietly_def bind_eq_Some_conv)

lemma quietly_if: "quietly s r \<Longrightarrow> quietly s r' \<Longrightarrow> quietly s (if c then r else r')"
  by simp

lemma quiet_if: "quiet s t \<Longrightarrow> quiet s t' \<Longrightarrow> quiet s (if c then t else t')"
  by simp

lemma quietly_steps:
  "quiet s t \<Longrightarrow> quietly s (Some t)" "quiet s t \<Longrightarrow> quietly s (update_cursor x y i t)" "quietly s (upd_tmnl i f s)"
  "quietly s (kput a b s)" "quietly s (scroll base attr s)"
  by (auto simp: quietly_def intro: quiet_trans dest: upd_tmnl_quiet kput_quiet scroll_quiet cursor_quiet)

lemma quiet_updates:
  "quiet s t \<Longrightarrow> quiet s (t\<lparr>screen_x := x\<rparr>)" "quiet s t \<Longrightarrow> quiet s (t\<lparr>screen_y := x\<rparr>)"
  "quiet s t \<Longrightarrow> quiet s (t\<lparr>start_x := x\<rparr>)" "quiet s t \<Longrightarrow> quiet s (t\<lparr>start_y := x\<rparr>)"
  by (simp_all add: quiet_def clock_irqs_def)

lemmas quietly_rules = quietly_bind quietly_attr quietly_tmnl quietly_if quietly_steps quiet_if quiet_updates quiet_fields(1)

lemma putc_quiet: "putc c s = Some t \<Longrightarrow> quiet s t"
proof -
  have "quietly s (putc_active c s)" unfolding putc_active_def Let_def by (intro quietly_rules)
  moreover have "quietly s (putc_background c s)" unfolding putc_background_def Let_def by (intro quietly_rules)
  ultimately show "putc c s = Some t \<Longrightarrow> quiet s t" by (simp add: putc_def quietly_def split: if_splits)
qed

lemma kprintf_quiet: "kprintf format args s = Some t \<Longrightarrow> quiet s t"
  using quiet.printf_related [of putc "lrd (bytes_of format @ [0])" args s]
  by (auto simp: kprintf_def quiet.sink_def putc_quiet)

lemma terminal_write_quiet:
  assumes "terminal_write buf n s = Some (r, t)"
  shows "quiet s t"
proof -
  from assms consider "t = cli s" | s1 where "for_each [0..<nat n]
      (\<lambda>i s. do { c \<leftarrow> kview s (buf + i); kprintf ''%c'' [Num (scast c)] s }) (cli s) = Some s1" "t = sti s1"
    by (auto simp: terminal_write_def Let_def bind_eq_Some_conv split: if_splits)
  then show ?thesis
  proof cases
    case 2
    have "quiet s (cli s)" by simp
    also have "quiet (cli s) s1"
      by (rule quiet.for_each_related [OF 2(1)]) (auto simp: bind_eq_Some_conv dest: kprintf_quiet)
    also have "quiet s1 t" using 2(2) by simp
    finally show ?thesis .
  qed simp
qed

lemma fdputs_quiet:
  assumes "on_show s" and "ece391_fdputs w 1 a s = Some t"
  shows "quiet s t"
proof -
  have fd: "fd_flags (cur_fd s 1) = FD_EXISTS" "file_operations_table (cur_fd s 1) = Some Stdout_ops"
    using assms(1) by (simp_all add: on_show_def)
  have sys: "quiet s u" if "sys_write 1 buf n s = Some (r, u)" for buf n r u
    using that cur_fd_get [OF on_show_running [OF assms(1)], of 1] fd
    by (auto simp: sys_write_def ops_write_def dest: terminal_write_quiet split: if_splits)
  obtain len v where "ece391_write w 1 a (uint (len :: u32)) s = Some (v, t)"
    using assms(2) by (auto simp: ece391_fdputs_def bind_eq_Some_conv)
  then show ?thesis
    by (auto simp: ece391_write_def do_call_def syscall_def returning_def bind_eq_Some_conv dest: sys)
qed

end
