(* ===== verification/User_Clock.thy ===== *)
theory User_Clock
  imports User_Arrays Clock_Time
begin

text \<open>
  The clock as a program on display sees it: opening \<^verbatim>\<open>rtc\<close>, setting its frequency and waiting for a
  tick (theory Rtc) through the system calls, while only clock interrupts arrive. \<open>paced n s t\<close> says of a
  part of a run that it waits for \<open>n\<close> ticks, and for nothing else, and how many interrupts that takes.
\<close>

subsection \<open>Variables of 32 bits\<close>

definition store32 :: "nat \<Rightarrow> u32 \<Rightarrow> kst \<Rightarrow> kst option" where
  "store32 a x s = put_bytes (\<lambda>s i b. user_store i b s) a (le_bytes x) s"

lemma put_bytes_user:
  "on_show s \<Longrightarrow> user_room a (length bs) \<Longrightarrow> put_bytes (\<lambda>s i b. user_store i b s) a bs s = Some (put_user a bs s)"
proof (induction bs arbitrary: a s)
  case Nil
  then show ?case by (simp add: put_user_def)
next
  case (Cons b bs)
  let ?u = "put_user a [b] s"
  have st: "user_store a b s = Some ?u" using user_store_eq [OF Cons.prems(1), of a 0 b] Cons.prems(2) by (simp add: user_room_def)
  have "on_show ?u" using put_user_emits [OF Cons.prems(1), of a "[b]" UNIV] Cons.prems(2) emitsD(2) by (simp add: user_room_def)
  moreover have "user_room (Suc a) (length bs)" using Cons.prems(2) by (simp add: user_room_def)
  moreover have "put_user (Suc a) bs ?u = put_user a (b # bs) s"
  proof -
    have "user_frame (current s) (Suc a) = Suc (user_frame (current s) a)"
      using Cons.prems(2) unfolding user_frame_def user_room_def by simp linarith
    moreover have "poke f [b] (mem s) = (mem s)(f := b)" for f using poke_Cons [of f "[]" "mem s" b] by simp
    ultimately show ?thesis by (simp add: put_user_def current_def poke_Cons)
  qed
  ultimately show ?case using Cons.IH [of ?u "Suc a"] st by simp
qed

lemma store32_eq: "on_show s \<Longrightarrow> user_room a 4 \<Longrightarrow> store32 a x s = Some (put_user a (le_bytes x) s)"
  using put_bytes_user [of s a "le_bytes x"] by (simp add: store32_def length_le_bytes)

lemma store32_emits:
  assumes "emits A cs s t" and "user_room a 4" and "array_at (current s) a 4 \<subseteq> A"
  shows "\<exists>u. store32 a x t = Some u \<and> emits A cs s u \<and> user_bytes u a (le_bytes x) \<and> cur_fd u = cur_fd t \<and>
    emits (array_at (current s) a 4) [] t u \<and> quiet t u"
proof -
  have len: "user_room a (length (le_bytes x))" using assms(2) by (simp add: length_le_bytes)
  have e: "emits (array_at (current s) a 4) [] t (put_user a (le_bytes x) t)"
    by (rule put_user_emits [OF emitsD(2) [OF assms(1)] len]) (simp add: length_le_bytes emitsD(4) [OF assms(1)])
  have "emits A cs s (put_user a (le_bytes x) t)" using emits_trans [OF assms(1) emits_mono [OF e assms(3)]] by simp
  then show ?thesis
    using store32_eq [OF emitsD(2) [OF assms(1)] assms(2)] put_user_bytes [OF len] e by simp
qed

subsection \<open>The clients of the clock\<close>

definition with_rtc :: "rtcc list \<Rightarrow> outs \<Rightarrow> kst \<Rightarrow> kst" where
  "with_rtc rs log s = s\<lparr>rtc_block := rs, port_log := log\<rparr>"

lemma with_rtc_fields [simp]:
  "current (with_rtc rs log s) = current s" "cur_fd (with_rtc rs log s) = cur_fd s" "pcb (with_rtc rs log s) = pcb s"
  "screen_of (with_rtc rs log s) = screen_of s" "fs (with_rtc rs log s) = fs s" "fs_image (with_rtc rs log s) = fs_image s"
  "pg (with_rtc rs log s) = pg s" "mem (with_rtc rs log s) = mem s" "active_terminal (with_rtc rs log s) = active_terminal s"
  "exec_terminal (with_rtc rs log s) = exec_terminal s" "rtc_block (with_rtc rs log s) = rs" "port_log (with_rtc rs log s) = log"
  "with_rtc rs' log' (with_rtc rs log s) = with_rtc rs' log' s" "kview (with_rtc rs log s) = kview s"
  by (simp_all add: with_rtc_def current_def cur_fd_def screen_of_def fs_image_def kview_def fun_eq_iff)

lemma with_rtc_on_show: "on_show s \<Longrightarrow> length rs = 3 \<Longrightarrow> on_show (with_rtc rs log s)"
  unfolding on_show_def running_def kernel_ok_def screen_ok_def by (auto simp: with_rtc_def current_def cur_fd_def)

lemma with_rtc_emits:
  "on_show s \<Longrightarrow> length rs = 3 \<Longrightarrow> map client rs = map client (rtc_block s) \<Longrightarrow> emits A [] s (with_rtc rs log s)"
  using with_rtc_on_show [of s rs log] by (simp add: emits_def typed_def)

text \<open>The client of the terminal a program runs on.\<close>

definition own_clock :: "kst \<Rightarrow> rtcc" where
  "own_clock s = rtc_block s ! nat (exec_terminal s)"

definition set_clock :: "rtcc \<Rightarrow> kst \<Rightarrow> kst" where
  "set_clock c s = with_rtc ((rtc_block s)[nat (exec_terminal s) := c]) (port_log s) s"

lemma on_show_clock:
  assumes "on_show s"
  shows "length (rtc_block s) = 3" "nat (exec_terminal s) < 3" "0 \<le> exec_terminal s" "exec_terminal s < 3"
  using kernel_okD [OF runningD(1) [OF on_show_running [OF assms]]] by simp_all

lemma set_clock_upd: "on_show s \<Longrightarrow> upd_rtc (exec_terminal s) f s = Some (set_clock (f (own_clock s)) s)"
  using on_show_clock [of s] by (simp add: upd_rtc_in set_clock_def with_rtc_def own_clock_def)

lemma set_clock_on_show: "on_show s \<Longrightarrow> on_show (set_clock c s)"
  using on_show_clock [of s] by (simp add: set_clock_def with_rtc_on_show)

lemma set_clock_own [simp]:
  "cur_fd (set_clock c s) = cur_fd s" "current (set_clock c s) = current s" "screen_of (set_clock c s) = screen_of s"
  "active_terminal (set_clock c s) = active_terminal s" "set_clock d (set_clock c s) = set_clock d s"
  "exec_terminal (set_clock c s) = exec_terminal s" "fs (set_clock c s) = fs s" "fs_image (set_clock c s) = fs_image s"
  "mem (set_clock c s) = mem s"
  by (simp_all add: set_clock_def)

lemma own_set_clock: "on_show s \<Longrightarrow> own_clock (set_clock c s) = c"
  using on_show_clock [of s] by (simp add: set_clock_def own_clock_def)

lemma set_clock_emits: "on_show s \<Longrightarrow> client c = client (own_clock s) \<Longrightarrow> emits A [] s (set_clock c s)"
  unfolding set_clock_def using on_show_clock [of s]
  by (intro with_rtc_emits) (auto simp: own_clock_def map_update intro!: nth_equalityI simp: nth_list_update)

lemma emits_clock:
  assumes "emits A cs s t"
  shows "client (own_clock t) = client (own_clock s)"
proof -
  have "exec_terminal t = exec_terminal s" using emitsD(1,2,5) [OF assms] by (simp add: on_show_def)
  moreover have "map client (rtc_block t) = map client (rtc_block s)" using assms by (simp add: emits_def)
  ultimately show ?thesis
    using on_show_clock [OF emitsD(1) [OF assms]] on_show_clock [OF emitsD(2) [OF assms]]
    by (metis nth_map own_clock_def)
qed

subsection \<open>Waiting for a tick\<close>

definition only_clock :: "world \<Rightarrow> bool" where
  "only_clock w \<longleftrightarrow> (\<exists>inb. waits w = (\<lambda>_. rtc_handler inb))"

lemma client_ticks: "client ((tick_client ^^ n) c) = client c"
  by (induction n) (simp_all add: tick_client_def)

text \<open>
  How many interrupts \<open>rtc_read\<close> waits for, whatever the divisor and the counter of the client are, and
  the client it leaves.
\<close>

definition wait_of :: "rtcc \<Rightarrow> nat" where
  "wait_of c = (if rtc_flags c \<noteq> RTC_WAIT then 0 else if count c < rate c then nat (rate c - count c) else 1)"

definition after_wait :: "rtcc \<Rightarrow> rtcc" where
  "after_wait c = (if rtc_flags c \<noteq> RTC_WAIT then c\<lparr>rtc_flags := RTC_WAIT\<rparr> else c\<lparr>count := 0\<rparr>)"

lemma after_wait_fields [simp]: "client (after_wait c) = client c" "rate (after_wait c) = rate c" "rtc_flags (after_wait c) = RTC_WAIT"
  by (simp_all add: after_wait_def)

lemma after_waits_client: "client ((after_wait ^^ n) c) = client c"
  by (induction n) simp_all

lemma wait_below:
  assumes "client c \<noteq> -1" and "k < wait_of c"
  shows "rtc_flags ((tick_client ^^ k) c) = RTC_WAIT"
proof (cases "count c < rate c")
  case True
  then have "(tick_client ^^ k) c = c\<lparr>count := count c + int k\<rparr>"
    using assms by (intro tick_pow) (auto simp: wait_of_def split: if_splits)
  then show ?thesis using assms(2) by (simp add: wait_of_def split: if_splits)
qed (use assms(2) in \<open>simp add: wait_of_def split: if_splits\<close>)

lemma wait_over:
  assumes "client c \<noteq> -1"
  shows "rtc_flags ((tick_client ^^ wait_of c) c) \<noteq> RTC_WAIT"
    and "((tick_client ^^ wait_of c) c)\<lparr>rtc_flags := RTC_WAIT\<rparr> = after_wait c"
proof -
  consider "rtc_flags c \<noteq> RTC_WAIT" | "rtc_flags c = RTC_WAIT" "count c < rate c" | "rtc_flags c = RTC_WAIT" "\<not> count c < rate c"
    by blast
  then have "rtc_flags ((tick_client ^^ wait_of c) c) \<noteq> RTC_WAIT \<and>
    ((tick_client ^^ wait_of c) c)\<lparr>rtc_flags := RTC_WAIT\<rparr> = after_wait c"
  proof cases
    case 2
    then show ?thesis using tick_pow_fires [OF assms] by (cases c) (simp add: wait_of_def after_wait_def)
  next
    case 3
    then show ?thesis using assms by (cases c) (simp add: wait_of_def after_wait_def tick_client_def)
  qed (simp add: wait_of_def after_wait_def)
  then show "rtc_flags ((tick_client ^^ wait_of c) c) \<noteq> RTC_WAIT"
    "((tick_client ^^ wait_of c) c)\<lparr>rtc_flags := RTC_WAIT\<rparr> = after_wait c" by simp_all
qed

lemma wait_tick_returns:
  assumes "on_show s" and "client (own_clock s) \<noteq> -1"
  shows "wait_tick (\<lambda>_. rtc_handler inb) s =
    Some (with_rtc (map (tick_client ^^ wait_of (own_clock s)) (rtc_block s)) ((rtc_ports ^^ wait_of (own_clock s)) (port_log s)) s)"
proof -
  let ?s = "\<lambda>n. with_rtc (map (tick_client ^^ n) (rtc_block s)) ((rtc_ports ^^ n) (port_log s)) s"
  note c = on_show_clock [OF assms(1)]
  have run: "env_run (\<lambda>_. rtc_handler inb) k s = Some (?s k)" for k
    using handler_run [OF c(1)] by (simp add: with_rtc_def)
  have test: "do { c \<leftarrow> get_rtc (exec_terminal (?s k)) (?s k); Some (rtc_flags c = RTC_WAIT) } =
      Some (rtc_flags ((tick_client ^^ k) (own_clock s)) = RTC_WAIT)" for k
    using c by (simp add: get_rtc_def arr_facts own_clock_def)
  show ?thesis
    unfolding wait_tick_def
  proof (rule spin_returns [OF run])
    show "do { c \<leftarrow> get_rtc (exec_terminal (?s (wait_of (own_clock s)))) (?s (wait_of (own_clock s)));
        Some (rtc_flags c = RTC_WAIT) } = Some False"
      unfolding test using wait_over(1) [OF assms(2)] by simp
    fix k assume "k < wait_of (own_clock s)"
    then show "\<exists>t. env_run (\<lambda>_. rtc_handler inb) k s = Some t \<and>
        do { c \<leftarrow> get_rtc (exec_terminal t) t; Some (rtc_flags c = RTC_WAIT) } = Some True"
      using run test wait_below [OF assms(2)] by fastforce
  qed
qed

text \<open>
  A part of a run that waits for \<open>n\<close> ticks of its own client: as many interrupts as these waits take,
  and every other client counts them all.
\<close>

definition waits_for :: "nat \<Rightarrow> rtcc \<Rightarrow> nat" where
  "waits_for n c = (\<Sum>i < n. wait_of ((after_wait ^^ i) c))"

definition paced :: "nat \<Rightarrow> kst \<Rightarrow> kst \<Rightarrow> bool" where
  "paced n s t \<longleftrightarrow> exec_terminal t = exec_terminal s \<and> own_clock t = (after_wait ^^ n) (own_clock s) \<and>
     clock_irqs t = clock_irqs s + waits_for n (own_clock s) \<and> length (rtc_block t) = length (rtc_block s) \<and>
     (\<forall>i < length (rtc_block s). i \<noteq> nat (exec_terminal s) \<longrightarrow>
        rtc_block t ! i = (tick_client ^^ waits_for n (own_clock s)) (rtc_block s ! i))"

lemma pow_pow: "(f ^^ n) ((f ^^ m) x) = (f ^^ (m + n)) x"
  by (simp add: add.commute [of m] funpow_add)

lemma waits_for_add: "waits_for (m + n) c = waits_for m c + waits_for n ((after_wait ^^ m) c)"
  by (induction n) (simp_all add: waits_for_def pow_pow)

lemma paced_trans: "paced m s t \<Longrightarrow> paced n t u \<Longrightarrow> paced (m + n) s u"
  by (simp add: paced_def waits_for_add pow_pow)

lemma quiet_paced: "quiet s t \<Longrightarrow> paced 0 s t"
  by (simp add: quiet_def paced_def waits_for_def own_clock_def)

lemma paced_refl: "paced 0 s s"
  by (simp add: quiet_paced)

lemma paced_quiet: "paced n s t \<Longrightarrow> quiet t u \<Longrightarrow> paced n s u"
  using paced_trans [OF _ quiet_paced, of n s t u] by simp

lemma quiet_then_paced: "quiet s t \<Longrightarrow> paced n t u \<Longrightarrow> paced n s u"
  using paced_trans [OF quiet_paced, of s t n u] by simp

text \<open>
  The ticks of a client come every \<open>rate\<close> interrupts; only the first one or two come early, by what the
  counter and the flag were ahead when the client began to wait.
\<close>

definition head_start :: "rtcc \<Rightarrow> int" where
  "head_start c = min (count c) (rate c - 1) + (if rtc_flags c = RTC_WAIT then 0 else rate c)"

lemma at_rest:
  assumes "rtc_flags c = RTC_WAIT" and "count c = 0" and "0 < rate c"
  shows "(after_wait ^^ n) c = c" "int (waits_for n c) = int n * rate c"
proof -
  have c: "after_wait c = c" using assms by (cases c) (simp add: after_wait_def)
  then show pow: "(after_wait ^^ n) c = c" for n by (induction n) simp_all
  show "int (waits_for n c) = int n * rate c"
    unfolding waits_for_def pow using assms by (simp add: wait_of_def)
qed

lemma waits_for_total:
  assumes "0 < rate c" and "2 \<le> n"
  shows "int (waits_for n c) = int n * rate c - head_start c" "(after_wait ^^ n) c = c\<lparr>count := 0, rtc_flags := RTC_WAIT\<rparr>"
proof -
  obtain m where n: "n = 2 + m" using assms(2) by (auto simp: nat_le_iff_add)
  define d where "d = c\<lparr>count := 0, rtc_flags := RTC_WAIT\<rparr>"
  have two: "(after_wait ^^ 2) c = d"
    by (cases c) (simp add: d_def numeral_2_eq_2 after_wait_def)
  have "int (waits_for 2 c) = 2 * rate c - head_start c"
    using assms(1) by (simp add: waits_for_def numeral_2_eq_2 wait_of_def after_wait_def head_start_def)
  moreover have "int (waits_for m d) = int m * rate c" using at_rest(2) [of d m] assms(1) by (simp add: d_def)
  ultimately show "int (waits_for n c) = int n * rate c - head_start c"
    unfolding n waits_for_add two by (simp add: algebra_simps)
  show "(after_wait ^^ n) c = c\<lparr>count := 0, rtc_flags := RTC_WAIT\<rparr>"
    using at_rest(1) [of d m] assms(1) unfolding n pow_pow [symmetric] two by (simp add: d_def)
qed

lemma irqs_ports: "length (filter (\<lambda>x. x = (RTC_PORT, 0x0C)) ((rtc_ports ^^ n) log)) = length (filter (\<lambda>x. x = (RTC_PORT, 0x0C)) log) + n"
  by (induction n) (simp_all add: rtc_ports_def send_eoi_def outb_def)

lemma rtc_read_ticks:
  assumes "on_show s" and "client (own_clock s) \<noteq> -1" and "only_clock w"
  shows "\<exists>t. rtc_read (waits w) s = Some (0, t) \<and> emits A [] s t \<and> cur_fd t = cur_fd s \<and> paced 1 s t"
proof -
  let ?n = "wait_of (own_clock s)"
  let ?u = "with_rtc (map (tick_client ^^ ?n) (rtc_block s)) ((rtc_ports ^^ ?n) (port_log s)) s"
  note c = on_show_clock [OF assms(1)]
  obtain inb where "waits w = (\<lambda>_. rtc_handler inb)" using assms(3) by (auto simp: only_clock_def)
  then have "wait_tick (waits w) s = Some ?u" using wait_tick_returns [OF assms(1,2), of inb] by simp
  moreover have e: "emits A [] s ?u"
    using c by (intro with_rtc_emits [OF assms(1)]) (simp_all add: client_ticks)
  let ?t = "set_clock ((own_clock ?u)\<lparr>rtc_flags := RTC_WAIT\<rparr>) ?u"
  have "emits A [] s ?t" using emits_trans [OF e set_clock_emits [OF emitsD(2) [OF e]]] by simp
  moreover have "upd_rtc (exec_terminal ?u) (\<lambda>c. c\<lparr>rtc_flags := RTC_WAIT\<rparr>) ?u = Some ?t"
    by (rule set_clock_upd [OF emitsD(2) [OF e]])
  moreover have "own_clock ?t = after_wait (own_clock s)"
    using own_set_clock [OF emitsD(2) [OF e]] wait_over(2) [OF assms(2)] c by (simp add: own_clock_def)
  then have "paced 1 s ?t"
    using c by (simp add: paced_def waits_for_def set_clock_def clock_irqs_def irqs_ports with_rtc_def)
  ultimately show ?thesis by (simp add: rtc_read_def)
qed

subsection \<open>The calls\<close>

text \<open>A descriptor that is open on the clock.\<close>

definition open_clock :: "kst \<Rightarrow> nat \<Rightarrow> bool" where
  "open_clock s fdn \<longleftrightarrow> 2 \<le> fdn \<and> fdn < 8 \<and> fd_flags (cur_fd s fdn) = FD_EXISTS \<and>
     file_operations_table (cur_fd s fdn) = Some Rtc_ops \<and> client (own_clock s) \<noteq> -1"

lemma emits_open_clock: "emits A cs s t \<Longrightarrow> cur_fd t = cur_fd s \<Longrightarrow> open_clock s fdn \<Longrightarrow> open_clock t fdn"
  using emits_clock [of A cs s t] by (simp add: open_clock_def)

lemma tick_call:
  assumes "on_show s" and "open_clock s fdn" and "only_clock w" and "fits buf" and "buf \<noteq> 0" and "fits_int n"
  shows "\<exists>t. ece391_read w (int fdn) buf n s = Some (0, t) \<and> emits A [] s t \<and> cur_fd t = cur_fd s \<and> paced 1 s t"
proof -
  note o = assms(2) [unfolded open_clock_def]
  obtain t where t: "rtc_read (waits w) s = Some (0, t)" "emits A [] s t" "cur_fd t = cur_fd s" "paced 1 s t"
    using rtc_read_ticks [OF assms(1) _ assms(3)] o by blast
  have "ece391_read w (int fdn) buf n s = Some (0, t)"
  proof (rule read_call)
    show "sys_read (waits w) (frames w s) (int fdn) buf n s = Some (0, t)"
      using sys_read_table [OF assms(1) _ assms(5), of fdn Rtc_ops] o t(1) by (simp add: ops_read_def)
  qed (use assms(4,6) o in \<open>auto simp: fits_int_def\<close>)
  then show ?thesis using t(2-4) by blast
qed

lemma frequency_call:
  assumes "on_show s" and "open_clock s fdn" and "user_bytes s buf (le_bytes freq)" and "rtc_rate freq = Some r" and "fits_int n"
  shows "ece391_write w (int fdn) buf n s = Some (4, set_clock ((own_clock s)\<lparr>rate := r\<rparr>) s)"
proof (rule write_call)
  note o = assms(2) [unfolded open_clock_def] and room = user_bytes_room [OF assms(3)]
  note k = user_bytes_kview [OF assms(1,3), unfolded length_le_bytes]
  have "rd32 (kview s) buf = Some freq"
    using k [of 0] k [of 1] k [of 2] k [of 3] by (simp add: rd32_def le32_le_bytes del: One_nat_def)
  then have "ops_write Rtc_ops buf n s = Some (4, set_clock ((own_clock s)\<lparr>rate := r\<rparr>) s)"
    using set_clock_upd [OF assms(1)] assms(4) by (simp add: ops_write_def rtc_write_def rtc_set_freq_def)
  then show "sys_write (int fdn) buf n s = Some (4, set_clock ((own_clock s)\<lparr>rate := r\<rparr>) s)"
    using cur_fd_get [OF on_show_running [OF assms(1)], of fdn] o user_room_fits [OF room] by (simp add: sys_write_def)
  show "fits_int (int fdn)" "fits buf" "fits_int n" "fits_int 4"
    using o user_room_fits [OF room] assms(5) by (simp_all add: fits_int_def)
qed

lemma quiet_set_clock:
  assumes "quiet (set_clock c s) t" and "on_show s"
  shows "quiet (set_clock d s) (set_clock d t)" "own_clock t = c"
proof -
  have "rtc_block t = (rtc_block s)[nat (exec_terminal s) := c]" "exec_terminal t = exec_terminal s" "clock_irqs t = clock_irqs s"
    using assms(1) by (simp_all add: quiet_def set_clock_def clock_irqs_def with_rtc_def)
  then show "quiet (set_clock d s) (set_clock d t)" "own_clock t = c"
    using on_show_clock [OF assms(2)] by (simp_all add: quiet_def set_clock_def with_rtc_def clock_irqs_def own_clock_def)
qed

text \<open>Opening the clock makes the process of the terminal its client, at 2 Hz.\<close>

definition clock_of :: "kst \<Rightarrow> rtcc" where
  "clock_of s = (own_clock s)\<lparr>client := int (current s), rate := 512\<rparr>"

definition clock_entry :: "kst \<Rightarrow> dentry list \<Rightarrow> dentry \<Rightarrow> bool" where
  "clock_entry s ds cur \<longleftrightarrow> dir_ok (fs_image s) (fs s) ds \<and>
     find (\<lambda>d. dentry_name d = bytes_of ''rtc'') ds = Some cur \<and> file_type cur = 0"

lemma rtc_open_eq:
  assumes "on_show s"
  shows "rtc_open s = Some (0, set_clock (clock_of s) s)"
proof -
  let ?e = "nat (exec_terminal s)"
  note r = on_show_running [OF assms] and c = on_show_clock [OF assms]
  have "get_tmnl (exec_terminal s) s = Some (tmnl_block s ! ?e)"
    using kernel_okD(1) [OF runningD(1) [OF r]] c(2,3) by (simp add: get_tmnl_def arr_facts)
  moreover have "active_process (tmnl_block s ! ?e) = int (current s)"
    using r by (simp add: running_def current_def)
  moreover have "rtc_rate 2 = Some 512" by (simp add: rtc_rate_def)
  ultimately show ?thesis
    using set_clock_upd [OF assms] set_clock_upd [OF set_clock_on_show [OF assms]] own_set_clock [OF assms]
    by (simp add: rtc_open_def rtc_set_freq_def clock_of_def)
qed

lemma open_clock_call:
  assumes "on_show s" and "user_string s a (bytes_of ''rtc'')" and "frames_ok w" and "clock_entry s ds cur"
    and "free_fd s = Some i"
  shows "\<exists>t. ece391_open w a s = Some (int i, t) \<and> on_show t \<and> open_clock t i \<and> cur_fd t = cur_fd (put_fd i (fresh_fd cur) s) \<and>
     emits A [] (set_clock (clock_of s) s) t \<and> quiet (set_clock (clock_of s) s) t"
proof -
  let ?d = "fresh_fd cur" and ?u = "put_fd i (fresh_fd cur) s"
  let ?t = "set_clock (clock_of ?u) ?u"
  note f = free_fdD [OF assms(5)] and run = on_show_running [OF assms(1)] and e = assms(4) [unfolded clock_entry_def]
  have table: "fileops_table ! unat (file_type cur) = Rtc_ops" "unat (file_type cur) < 3" using e by (simp_all add: fileops_table_def)
  have d: "fd_flags ?d \<noteq> FD_ABSENT \<longrightarrow> file_operations_table ?d \<noteq> None" by (simp add: fresh_fd_def)
  have "emits A [] s ?u" using put_fd_emits [OF assms(1) _ d] f by simp
  note u = emitsD(2) [OF this]
  note p = put_fd [OF run d, where i = i]
  have nm: "read_dentry_by_name (kview s) (fs s) (\<lambda>j. kview s (a + j)) (Some (frame_dentry (frames w s))) =
      Some (0, Some (set_dentry cur (frame_dentry (frames w s))))"
    using find_name [OF run _ user_string_cstr(2) [OF assms(1,2)], of ds "frame_dentry (frames w s)"] e assms(3)
    by (simp add: frames_ok_def)
  have "add_fd (file_type cur) (inode_num cur) s = Some (int i, ?u)"
    using add_fd_alloc [OF run table(2), of "inode_num cur", unfolded fds.alloc_def cur_fd_free] assms(5)
    by (simp add: cur_fd_free free_fd_def fd_fill_def put_fd_def fresh_fd_def del: upt_rec_numeral)
  then have "sys_open (frames w s) (\<lambda>j. kview s (a + j)) s = Some (int i, ?t)"
    using nm cur_fd_get [OF p(1), of i] p(2,3) f rtc_open_eq [OF u] table
    by (simp add: sys_open_def set_dentry_def ops_open_def fresh_fd_def)
  then have "ece391_open w a s = Some (int i, ?t)"
    using open_call [of a "int i"] user_string_fits [OF assms(2)] f by (simp add: fits_int_def)
  moreover have "open_clock ?t i"
    using f p(3) own_set_clock [OF u] table by (simp add: open_clock_def fresh_fd_def clock_of_def)
  moreover have t: "?t = put_fd i ?d (set_clock (clock_of s) s)"
    by (simp add: put_fd_def set_clock_def with_rtc_def current_def clock_of_def own_clock_def)
  have "emits A [] (set_clock (clock_of s) s) ?t"
    unfolding t using put_fd_emits [OF set_clock_on_show [OF assms(1)] _ d, of i A] f by auto
  moreover have "quiet (set_clock (clock_of s) s) ?t" unfolding t by (simp add: put_fd_def)
  ultimately show ?thesis using set_clock_on_show [OF u] by auto
qed

end
