(* ===== verification/User_Pingpong.thy ===== *)
theory User_Pingpong
  imports User_Clock
begin

text \<open>
  The program \<open>pingpong\<close> (\<^verbatim>\<open>syscalls/ece391pingpong.c\<close>): a letter that bounces between two walls, for
  ever. A picture is drawn and then a tick of the clock awaited, so that as many ticks pass as pictures,
  32 clock interrupts each. \<open>pingpong k\<close> is the program up to the end of its \<open>k\<close>-th round; \<open>buf\<close>,
  \<open>ret_val\<close> and \<open>garbage\<close> are the addresses of its local variables.
\<close>

definition pingpong_walls :: "nat \<Rightarrow> kst \<Rightarrow> kst option" where
  "pingpong_walls buf s =
     do { s \<leftarrow> for_each [0..<81] (\<lambda>i. user_store (buf + i) 0x20) s;
          s \<leftarrow> user_store (buf + 80) 0 s;
          s \<leftarrow> user_store (buf + 79) 0x0A s;
          s \<leftarrow> user_store (buf + 78) 0x7C s;
          user_store (buf + 1) 0x7C s }"

definition pingpong_start :: "world \<Rightarrow> nat \<Rightarrow> nat \<Rightarrow> kst \<Rightarrow> (int \<times> kst) option" where
  "pingpong_start w buf ret_val s =
     do { s \<leftarrow> pingpong_walls buf s;
          (rtc_fd, s) \<leftarrow> ece391_open w (lit w ''rtc'') s;
          s \<leftarrow> store32 ret_val 32 s;
          (r, s) \<leftarrow> ece391_write w rtc_fd ret_val 4 s;
          s \<leftarrow> store32 ret_val (word_of_int r) s;
          Some (rtc_fd, s) }"

text \<open>The body of the two inner loops.\<close>

definition pingpong_frame :: "world \<Rightarrow> nat \<Rightarrow> nat \<Rightarrow> int \<Rightarrow> u8 \<Rightarrow> nat \<Rightarrow> kst \<Rightarrow> kst option" where
  "pingpong_frame w buf garbage rtc_fd curchar j s =
     do { s \<leftarrow> for_each [2..<78] (\<lambda>i. user_store (buf + i) 0x20) s;
          s \<leftarrow> user_store (buf + j) curchar s;
          s \<leftarrow> ece391_fdputs w 1 buf s;
          (_, s) \<leftarrow> ece391_read w rtc_fd garbage 4 s;
          Some s }"

definition pingpong_round :: "world \<Rightarrow> nat \<Rightarrow> nat \<Rightarrow> int \<Rightarrow> u8 \<times> kst \<Rightarrow> (u8 \<times> kst) option" where
  "pingpong_round w buf garbage rtc_fd = (\<lambda>(curchar, s).
     do { s \<leftarrow> for_each [2..<78] (pingpong_frame w buf garbage rtc_fd curchar) s;
          s \<leftarrow> for_each (rev [2..<78]) (pingpong_frame w buf garbage rtc_fd curchar) s;
          Some (if curchar = 0x5A then 0x41 else curchar + 1, s) })"

definition pingpong :: "world \<Rightarrow> nat \<Rightarrow> nat \<Rightarrow> nat \<Rightarrow> nat \<Rightarrow> kst \<Rightarrow> (u8 \<times> kst) option" where
  "pingpong w buf ret_val garbage k s =
     do { (rtc_fd, s) \<leftarrow> pingpong_start w buf ret_val s;
          for_each [0..<k] (\<lambda>_. pingpong_round w buf garbage rtc_fd) (0x41, s) }"

subsection \<open>What it shows\<close>

text \<open>The letter of a round, and a picture with the letter \<open>c\<close> at column \<open>j\<close>.\<close>

definition letter :: "nat \<Rightarrow> u8" where
  "letter k = word_of_nat (0x41 + k mod 26)"

definition court :: "u8 \<Rightarrow> nat \<Rightarrow> u8 list" where
  "court c j = [0x20, 0x7C] @ (replicate 76 0x20)[j - 2 := c] @ [0x7C, 0x0A]"

definition rally :: "nat \<Rightarrow> u8 list" where
  "rally k = concat (map (court (letter k)) ([2..<78] @ rev [2..<78]))"

lemma court_length: "length (court c j) = 80"
  by (simp add: court_def)

lemma court_chars: "x \<in> set (court c j) \<Longrightarrow> x \<in> {0x20, 0x7C, 0x0A, c}"
  using set_update_subset_insert [of "replicate 76 0x20" "j - 2" c] by (auto simp: court_def)

lemma unat_letter: "unat (letter k) = 0x41 + k mod 26"
proof -
  have "k mod 26 < 26" by simp
  then have "(0x41 + k mod 26) mod 256 = 0x41 + k mod 26" by simp
  then show ?thesis unfolding letter_def by (simp only: unat_of_nat take_bit_eq_mod) simp
qed

lemma letter_facts: "letter k \<noteq> 0 \<and> letter k \<noteq> BACKSPACE"
  using unat_letter [of k] by auto

lemma letter_Suc: "(if letter k = 0x5A then 0x41 else letter k + 1) = letter (Suc k)"
proof (cases "k mod 26 = 25")
  case True
  then show ?thesis by (simp add: letter_def mod_Suc)
next
  case False
  have "letter k \<noteq> 0x5A" using False unat_letter [of k] by auto
  moreover have "Suc k mod 26 = Suc (k mod 26)" using False by (simp add: mod_Suc)
  then have "letter (Suc k) = letter k + 1" unfolding letter_def by (simp only: of_nat_add of_nat_Suc) simp
  ultimately show ?thesis by simp
qed

subsection \<open>Filling an array\<close>

lemma store_fill:
  assumes "on_show s" and "user_room buf n" and "length xs = n" and "a \<le> b" and "b \<le> n"
  shows "for_each [a..<b] (\<lambda>i. user_store (buf + i) c) (put_user buf xs s) =
    Some (put_user buf (take a xs @ replicate (b - a) c @ drop b xs) s)"
proof -
  let ?xs = "\<lambda>i. take a xs @ replicate (i - a) c @ drop i xs"
  have "\<exists>t. for_each [a..<b] (\<lambda>i. user_store (buf + i) c) (put_user buf xs s) = Some t \<and> t = put_user buf (?xs b) s"
  proof (rule for_each_upt [OF assms(4), where P = "\<lambda>i t. t = put_user buf (?xs i) s"])
    show "put_user buf xs s = put_user buf (?xs a) s" by simp
    fix i t assume i: "a \<le> i" "i < b" and t: "t = put_user buf (?xs i) s"
    have "(?xs i)[i := c] = ?xs (Suc i)"
      using i assms(3,5) by (simp add: list_update_append Cons_nth_drop_Suc [symmetric] Suc_diff_le replicate_append_same [symmetric])
    moreover have "length (?xs i) = n" "i < n" using i assms(3,5) by simp_all
    ultimately have "user_store (buf + i) c t = Some (put_user buf (?xs (Suc i)) s)"
      using mirrors_array [OF assms(1,2)] unfolding mirrors_def t by metis
    then show "\<exists>t'. user_store (buf + i) c t = Some t' \<and> t' = put_user buf (?xs (Suc i)) s" by blast
  qed
  then show ?thesis by blast
qed

lemma store_at:
  "on_show s \<Longrightarrow> user_room buf n \<Longrightarrow> length xs = n \<Longrightarrow> i < n \<Longrightarrow>
     user_store (buf + i) c (put_user buf xs s) = Some (put_user buf (xs[i := c]) s)"
  using mirrors_array [of s buf n] by (simp add: mirrors_def)

lemma put_user_bytes_id: "user_bytes s a bs \<Longrightarrow> put_user a bs s = s"
  by (auto simp: put_user_def user_bytes_def poke_def fun_eq_iff intro!: kst.equality) (metis add_diff_inverse_nat nat_add_left_cancel_less not_less)


subsection \<open>The loops\<close>

lemma for_each_paced:
  assumes "on_show s" and "Q s"
    and "\<And>i s. i \<in> set is \<Longrightarrow> on_show s \<Longrightarrow> Q s \<Longrightarrow> \<exists>t. f i s = Some t \<and> emits A (g i) s t \<and> Q t \<and> paced 1 s t"
  shows "\<exists>t. for_each is f s = Some t \<and> emits A (concat (map g is)) s t \<and> Q t \<and> paced (length is) s t"
  using assms
proof (induction "is" arbitrary: s)
  case Nil
  then show ?case using emits_refl paced_refl by simp
next
  case (Cons i "is")
  obtain u where u: "f i s = Some u" "emits A (g i) s u" "Q u" "paced 1 s u"
    using Cons.prems(3) [OF _ Cons.prems(1,2)] by auto
  obtain t where t: "for_each is f u = Some t" "emits A (concat (map g is)) u t" "Q t" "paced (length is) u t"
    using Cons.IH [OF emitsD(2) [OF u(2)] u(3)] Cons.prems(3) by (meson list.set_intros(2))
  then show ?case using u emits_trans [OF u(2) t(2)] paced_trans [OF u(4) t(4)] by auto
qed

text \<open>The state of the game between two pictures.\<close>

definition playing :: "nat \<Rightarrow> nat \<Rightarrow> nat \<Rightarrow> kst \<Rightarrow> bool" where
  "playing pid buf fdn s \<longleftrightarrow> current s = pid \<and> open_clock s fdn \<and>
     (\<exists>mid. length mid = 76 \<and> user_bytes s buf ([0x20, 0x7C] @ mid @ [0x7C, 0x0A, 0]))"

lemma court_playing:
  assumes "open_clock s fdn" and "user_bytes s buf (court c j @ [0])"
  shows "playing (current s) buf fdn s"
  using assms by (auto simp: playing_def court_def intro!: exI [of _ "(replicate 76 0x20)[j - 2 := c]"])

lemma frame_shows:
  assumes "on_show s" and "playing pid buf fdn s" and "2 \<le> j" and "j < 78" and "only_clock w"
    and "user_room garbage 4" and "array_at pid buf 81 \<subseteq> A" and "c \<noteq> 0" and "c \<noteq> BACKSPACE"
  shows "\<exists>t. pingpong_frame w buf garbage (int fdn) c j s = Some t \<and> emits A (court c j) s t \<and> playing pid buf fdn t \<and>
    paced 1 s t"
proof -
  obtain mid where mid: "length mid = 76" "user_bytes s buf ([0x20, 0x7C] @ mid @ [0x7C, 0x0A, 0])"
    and p: "current s = pid" "open_clock s fdn" using assms(2) by (auto simp: playing_def)
  let ?xs = "[0x20, 0x7C] @ mid @ [0x7C, 0x0A, 0]" and ?ys = "[0x20, 0x7C] @ replicate 76 0x20 @ [0x7C, 0x0A, 0 :: u8]"
  let ?u = "put_user buf (court c j @ [0]) s"
  have len: "length ?xs = 81" "length ?ys = 81" "length (court c j @ [0]) = 81" using mid(1) by (simp_all add: court_length)
  have room: "user_room buf 81" using user_bytes_room [OF mid(2)] len(1) by simp
  have "take 2 ?xs @ replicate (78 - 2) 0x20 @ drop 78 ?xs = ?ys" using mid(1) by simp
  then have fill: "for_each [2..<78] (\<lambda>i. user_store (buf + i) 0x20) s = Some (put_user buf ?ys s)"
    using store_fill [OF assms(1) room len(1), of 2 78 "0x20"] put_user_bytes_id [OF mid(2)] by simp
  have "?ys[j := c] = court c j @ [0]"
    using assms(3,4) by (cases j rule: nat.exhaust) (auto simp: court_def list_update_append split: nat.splits)
  then have st: "user_store (buf + j) c (put_user buf ?ys s) = Some ?u"
    using store_at [OF assms(1) room len(2), of j c] assms(4) by simp
  have eu: "emits A [] s ?u" using put_user_emits [OF assms(1), of buf "court c j @ [0]"] room len(3) assms(7) p(1) by simp
  have b: "user_bytes ?u buf (court c j @ [0])" using put_user_bytes [of buf "court c j @ [0]" s] room len(3) by simp
  have "user_string ?u buf (court c j)" "BACKSPACE \<notin> set (court c j)"
    using b court_chars [of 0 c j] court_chars [of BACKSPACE c j] assms(8,9) by (auto simp: user_string_def)
  then obtain v where v: "ece391_fdputs w 1 buf ?u = Some v" "emits {} (court c j) ?u v" "cur_fd v = cur_fd ?u"
    using puts_emits [OF emitsD(2) [OF eu]] by blast
  have quiet: "quiet s v" using quiet_trans [OF quiet_fields(10) fdputs_quiet [OF emitsD(2) [OF eu] v(1)]] .
  have ov: "open_clock v fdn"
    using emits_open_clock [OF v(2,3)] emits_open_clock [OF eu _ p(2)] by simp
  obtain t where t: "ece391_read w (int fdn) garbage 4 v = Some (0, t)" "emits {} [] v t" "cur_fd t = cur_fd v"
    "paced 1 v t" using tick_call [OF emitsD(2) [OF v(2)] ov assms(5), of garbage 4] user_room_fits [OF assms(6)] by (auto simp: fits_int_def)
  have e2: "emits {} (court c j) ?u t" using emits_trans [OF v(2) t(2)] by simp
  have "user_bytes t buf (court c j @ [0])" by (rule emits_bytes [OF e2 b]) simp
  moreover have "open_clock t fdn" by (rule emits_open_clock [OF t(2,3) ov])
  moreover have "emits A (court c j) s t" using emits_trans [OF eu emits_mono [OF e2]] by simp
  ultimately show ?thesis
    using fill st v(1) t(1) court_playing [of t fdn buf c j] emitsD(4) [of A "court c j" s t] p(1)
      quiet_then_paced [OF quiet t(4)]
    by (auto simp: pingpong_frame_def simp del: upt_rec_numeral)
qed

lemma round_shows:
  assumes "on_show s" and "playing pid buf fdn s" and "only_clock w" and "user_room garbage 4" and "array_at pid buf 81 \<subseteq> A"
  shows "\<exists>t. pingpong_round w buf garbage (int fdn) (letter k, s) = Some (letter (Suc k), t) \<and> emits A (rally k) s t \<and>
    playing pid buf fdn t \<and> paced 152 s t"
proof -
  let ?f = "pingpong_frame w buf garbage (int fdn) (letter k)" and ?js = "[2..<78] @ rev [2..<78]"
  have step: "\<exists>t. ?f j s = Some t \<and> emits A (court (letter k) j) s t \<and> playing pid buf fdn t \<and> paced 1 s t"
    if "j \<in> set ?js" "on_show s" "playing pid buf fdn s" for j s
  proof -
    have "2 \<le> j" "j < 78" using that(1) by (simp_all del: upt_rec_numeral)
    then show ?thesis using frame_shows [OF that(2,3) _ _ assms(3-5)] letter_facts [of k] by blast
  qed
  obtain t where t: "for_each ?js ?f s = Some t" "emits A (rally k) s t" "playing pid buf fdn t" "paced (length ?js) s t"
    using for_each_paced [where Q = "playing pid buf fdn", OF assms(1,2), of ?js ?f A "court (letter k)"] step
    unfolding rally_def by blast
  have "do { s \<leftarrow> for_each [2..<78] ?f s; for_each (rev [2..<78]) ?f s } = Some t"
    using t(1) unfolding for_each_append .
  then obtain u where "for_each [2..<78] ?f s = Some u" "for_each (rev [2..<78]) ?f u = Some t"
    unfolding bind_eq_Some_conv by blast
  then show ?thesis
    using t(2-4) letter_Suc [of k] unfolding pingpong_round_def by (simp del: upt_rec_numeral)
qed

subsection \<open>The start\<close>

lemma walls_eq:
  assumes "on_show s" and "user_room buf 81"
  shows "pingpong_walls buf s = Some (put_user buf ([0x20, 0x7C] @ replicate 76 0x20 @ [0x7C, 0x0A, 0]) s)"
proof -
  define xs where "xs = map (\<lambda>i. mem s (user_frame (current s) buf + i)) [0..<81]"
  have xs: "length xs = 81" by (simp add: xs_def)
  have "user_bytes s buf xs" unfolding user_bytes_def xs using assms(2) by (simp add: user_room_def xs_def del: upt_rec_numeral)
  then have s: "put_user buf xs s = s" by (rule put_user_bytes_id)
  have fill: "for_each [0..<81] (\<lambda>i. user_store (buf + i) 0x20) s = Some (put_user buf (replicate 81 0x20) s)"
    using store_fill [OF assms xs, of 0 81 "0x20"] s xs by simp
  have "(replicate 81 0x20)[80 := 0, 79 := 0x0A, 78 := 0x7C, 1 := 0x7C] = [0x20, 0x7C] @ replicate 76 0x20 @ [0x7C, 0x0A, 0 :: u8]"
    by (simp add: unfold_replicate)
  then show ?thesis
    using fill store_at [OF assms, of "replicate 81 0x20" 80 0] store_at [OF assms, of "(replicate 81 0x20)[80 := 0]" 79 "0x0A"]
      store_at [OF assms, of "(replicate 81 0x20)[80 := 0, 79 := 0x0A]" 78 "0x7C"]
      store_at [OF assms, of "(replicate 81 0x20)[80 := 0, 79 := 0x0A, 78 := 0x7C]" 1 "0x7C"]
    by (simp add: pingpong_walls_def del: upt_rec_numeral)
qed

text \<open>
  The arrays the program writes, and the client of the clock it starts with: its own, with the divisor
  32 of 32 Hz, and with the counter and the flag the last client has left.
\<close>

definition pingpong_clock :: "kst \<Rightarrow> rtcc" where
  "pingpong_clock s = (own_clock s)\<lparr>client := int (current s), rate := 32\<rparr>"

definition pingpong_arrays :: "nat \<Rightarrow> nat \<Rightarrow> nat \<Rightarrow> nat set" where
  "pingpong_arrays pid buf ret_val = array_at pid buf 81 \<union> array_at pid ret_val 4"

lemma set_clock_put_user: "set_clock c (put_user a bs s) = put_user a bs (set_clock c s)"
  by (simp add: set_clock_def with_rtc_def put_user_def current_def)

lemma start_plays:
  assumes "on_show s" and "frames_ok w" and "clock_entry s ds cur" and "free_fd s = Some i"
    and "user_room buf 81" and "user_room ret_val 4" and "array_at (current s) buf 81 \<inter> array_at (current s) ret_val 4 = {}"
    and "literals w (pingpong_arrays (current s) buf ret_val) [''rtc''] s"
  shows "\<exists>t. pingpong_start w buf ret_val s = Some (int i, t) \<and> playing (current s) buf i t \<and>
    emits (pingpong_arrays (current s) buf ret_val) [] (set_clock (pingpong_clock s) s) t \<and>
    quiet (set_clock (pingpong_clock s) s) t"
proof -
  define c where "c = clock_of s"
  let ?A = "pingpong_arrays (current s) buf ret_val" and ?mid = "replicate 76 0x20 :: u8 list"
  let ?W = "[0x20, 0x7C] @ ?mid @ [0x7C, 0x0A, 0]"
  let ?u = "put_user buf ?W s"
  have W: "length ?W = 81" by simp
  have sub: "array_at (current s) buf 81 \<subseteq> ?A" "array_at (current s) ret_val 4 \<subseteq> ?A" by (auto simp: pingpong_arrays_def)
  have eu: "emits ?A [] s' (put_user buf ?W s')" if "on_show s'" "current s' = current s" for s'
    using put_user_emits [OF that(1), of buf ?W ?A] assms(5) sub(1) that(2) by simp
  note u = eu [OF assms(1) refl]
  have lit: "user_string ?u (lit w ''rtc'') (bytes_of ''rtc'')"
    using literals_emits [OF u assms(8)] by (simp add: literals_def)
  have entry: "clock_entry ?u ds cur" using assms(3) emitsD(7,8) [OF u] by (simp add: clock_entry_def)
  have free: "free_fd ?u = Some i" using assms(4) by (simp add: free_fd_def del: upt_rec_numeral)
  have cu: "clock_of ?u = c" by (simp add: c_def clock_of_def own_clock_def put_user_def current_def)
  obtain v where v: "ece391_open w (lit w ''rtc'') ?u = Some (int i, v)" "open_clock v i"
    "emits {} [] (set_clock c ?u) v" "quiet (set_clock c ?u) v"
    using open_clock_call [OF emitsD(2) [OF u] lit assms(2) entry free, of "{}"] unfolding cu by blast
  have "user_bytes (set_clock c ?u) buf ?W"
    using put_user_bytes [of buf ?W s] assms(5) by (simp add: user_bytes_def)
  then have bv: "user_bytes v buf ?W" by (intro emits_bytes [OF v(3)]) simp_all
  have ev: "emits ?A [] (set_clock c s) v"
    using emits_trans [OF eu [OF set_clock_on_show [OF assms(1)]] emits_mono [OF v(3) [unfolded set_clock_put_user]]] by simp
  have cur: "current (set_clock c s) = current s" by simp
  obtain x where x: "store32 ret_val 32 v = Some x" "emits ?A [] (set_clock c s) x" "user_bytes x ret_val (le_bytes 32)"
    "cur_fd x = cur_fd v" "emits (array_at (current s) ret_val 4) [] v x" "quiet v x"
    using store32_emits [OF ev assms(6), of 32] sub(2) cur by auto
  have ox: "open_clock x i" by (rule emits_open_clock [OF x(5,4) v(2)])
  let ?y = "set_clock ((own_clock x)\<lparr>rate := 32\<rparr>) x"
  have "rtc_rate 32 = Some 32" by (simp add: rtc_rate_def)
  then have wr: "ece391_write w (int i) ret_val 4 x = Some (4, ?y)"
    using frequency_call [OF emitsD(2) [OF x(2)] ox x(3)] by (simp add: fits_int_def)
  have ey: "emits {} [] x ?y" by (rule set_clock_emits [OF emitsD(2) [OF x(2)]]) simp
  have ey': "emits ?A [] (set_clock c s) ?y" using emits_trans [OF x(2) emits_mono [OF ey]] by simp
  obtain t where t: "store32 ret_val 4 ?y = Some t" "emits ?A [] (set_clock c s) t" "cur_fd t = cur_fd ?y"
    "emits (array_at (current s) ret_val 4) [] ?y t" "quiet ?y t"
    using store32_emits [OF ey' assms(6), of 4] sub(2) cur by auto
  have ev': "emits (array_at (current s) ret_val 4) [] v t"
    using emits_trans [OF emits_trans [OF x(5) emits_mono [OF ey]] t(4)] by simp
  have curv: "current v = current s" using emitsD(4) [OF ev] by simp
  have "user_bytes t buf ?W"
    by (rule emits_bytes [OF ev' bv]) (use assms(7) W in \<open>simp add: curv\<close>)
  moreover have "open_clock t i" by (rule emits_open_clock [OF ev' _ v(2)]) (simp add: t(3) x(4))
  moreover have "current t = current s" using emitsD(4) [OF t(2)] by simp
  ultimately have "playing (current s) buf i t" by (auto simp: playing_def intro!: exI [of _ ?mid])
  moreover have "pingpong_start w buf ret_val s = Some (int i, t)"
    using walls_eq [OF assms(1,5)] v(1) x(1) wr t(1) by (simp add: pingpong_start_def)
  moreover have qx: "quiet (set_clock c s) x"
    using quiet_trans [OF v(4) x(6)] unfolding set_clock_put_user by (rule quiet_trans [OF quiet_fields(10)])
  have "quiet (set_clock (pingpong_clock s) s) ?y"
    using quiet_set_clock [OF qx assms(1)] by (simp add: c_def clock_of_def pingpong_clock_def)
  then have "quiet (set_clock (pingpong_clock s) s) t" using t(5) by (rule quiet_trans)
  moreover have "emits ?A [] (set_clock (pingpong_clock s) s) (set_clock c s)"
    using set_clock_emits [OF set_clock_on_show [OF assms(1)], of c "pingpong_clock s" ?A] own_set_clock [OF assms(1)]
    by (simp add: c_def clock_of_def pingpong_clock_def)
  then have "emits ?A [] (set_clock (pingpong_clock s) s) t" using emits_trans [OF _ t(2)] by fastforce
  ultimately show ?thesis by blast
qed

subsection \<open>Properties\<close>

text \<open>C35. \<open>pingpong\<close>: on the terminal on display, with a free descriptor and while only clock interrupts
  arrive, every round of the program ends: the \<open>k\<close>-th round moves the letter number \<open>k\<close> of the alphabet
  (which begins again after Z) from the left wall to the right one and back, in 152 pictures of 80
  characters. The program runs at 32 pictures a second: with the clock's 1024 interrupts a second, a
  round takes exactly 32 interrupts per picture. Only the first round is shorter, by what the counter
  and the flag that the last client of the terminal has left are ahead (\<open>head_start\<close>). After a round
  the client waits at divisor 32 with its counter at 0 and its flag down. Nothing but the program's
  variables, its descriptor, the video memory and the clients of the clock changes.\<close>

theorem pingpong_bounces:
  assumes "on_show s" and "frames_ok w" and "only_clock w" and "clock_entry s ds cur" and "free_fd s \<noteq> None"
    and "user_room buf 81" and "user_room ret_val 4" and "user_room garbage 4"
    and "array_at (current s) buf 81 \<inter> array_at (current s) ret_val 4 = {}"
    and "literals w (pingpong_arrays (current s) buf ret_val) [''rtc''] s"
  shows "\<exists>t. pingpong w buf ret_val garbage k s = Some (letter k, t) \<and>
    screen_of t = typed s (concat (map rally [0..<k])) \<and>
    emits (pingpong_arrays (current s) buf ret_val) (concat (map rally [0..<k])) (set_clock (pingpong_clock s) s) t \<and>
    int (clock_irqs t) = int (clock_irqs s) + (if k = 0 then 0 else 32 * (152 * int k) - head_start (pingpong_clock s)) \<and>
    own_clock t = (if k = 0 then pingpong_clock s else (pingpong_clock s)\<lparr>count := 0, rtc_flags := RTC_WAIT\<rparr>)"
proof -
  let ?A = "pingpong_arrays (current s) buf ret_val" and ?s = "set_clock (pingpong_clock s) s"
  obtain i where i: "free_fd s = Some i" using assms(5) by blast
  obtain u where u: "pingpong_start w buf ret_val s = Some (int i, u)" "playing (current s) buf i u"
    "emits ?A [] ?s u" "quiet ?s u"
    using start_plays [OF assms(1,2,4) i assms(6,7,9,10)] by (elim exE conjE) (rule that)
  have sub: "array_at (current s) buf 81 \<subseteq> ?A" by (simp add: pingpong_arrays_def)
  let ?P = "\<lambda>k (ch, t). ch = letter k \<and> playing (current s) buf i t \<and> emits ?A (concat (map rally [0..<k])) ?s t \<and>
    paced (152 * k) ?s t"
  have "\<exists>r. for_each [0..<k] (\<lambda>_. pingpong_round w buf garbage (int i)) (0x41, u) = Some r \<and> ?P k r"
  proof (rule for_each_upt)
    show "?P 0 (0x41, u)" using u(2-4) by (simp add: letter_def quiet_paced)
    fix j r assume "?P j r"
    then obtain t where r: "r = (letter j, t)" and t: "playing (current s) buf i t"
      "emits ?A (concat (map rally [0..<j])) ?s t" "paced (152 * j) ?s t" by (cases r) auto
    obtain v where "pingpong_round w buf garbage (int i) (letter j, t) = Some (letter (Suc j), v)" "emits ?A (rally j) t v"
      "playing (current s) buf i v" "paced 152 t v"
      using round_shows [OF emitsD(2) [OF t(2)] t(1) assms(3,8) sub] by blast
    then show "\<exists>r'. pingpong_round w buf garbage (int i) r = Some r' \<and> ?P (Suc j) r'"
      using emits_trans [OF t(2), of "rally j" v] paced_trans [OF t(3), of 152 v] unfolding r by (simp add: add.commute)
  qed simp
  then obtain t where t: "for_each [0..<k] (\<lambda>_. pingpong_round w buf garbage (int i)) (0x41, u) = Some (letter k, t)"
    "emits ?A (concat (map rally [0..<k])) ?s t" "paced (152 * k) ?s t" by auto
  have c: "own_clock ?s = pingpong_clock s" "clock_irqs ?s = clock_irqs s" "rate (pingpong_clock s) = 32"
    using own_set_clock [OF assms(1)] by (simp_all add: pingpong_clock_def clock_irqs_def set_clock_def)
  have "int (clock_irqs t) = int (clock_irqs s) + (if k = 0 then 0 else 32 * (152 * int k) - head_start (pingpong_clock s)) \<and>
      own_clock t = (if k = 0 then pingpong_clock s else (pingpong_clock s)\<lparr>count := 0, rtc_flags := RTC_WAIT\<rparr>)"
    using t(3) waits_for_total [of "pingpong_clock s" "152 * k"] by (auto simp: paced_def c waits_for_def [of 0])
  moreover have "typed ?s cs = typed s cs" for cs by (simp add: typed_def)
  ultimately show ?thesis using u(1) t(1,2) emitsD(3) [OF t(2)] unfolding pingpong_def by auto
qed

text \<open>A machine whose second directory entry is \<^verbatim>\<open>rtc\<close>.\<close>

definition clock_dir :: "dentry list" where
  "clock_dir = [sample_dir ! 0, \<lparr>file_name = bytes_of ''rtc'' @ replicate 29 0, file_type = 0, inode_num = 0,
     reserved = replicate 24 0\<rparr>]"

definition clock_program :: kst where
  "clock_program = (sample_program [] [''rtc''])\<lparr>mem := (mem (sample_program [] [''rtc'']))
     (0x400080 := 0x72, 0x400081 := 0x74, 0x400082 := 0x63, 0x4000A0 := 0)\<rparr>"

definition clock_world :: world where
  "clock_world = (sample_world [''rtc''])\<lparr>waits := (\<lambda>_. rtc_handler (\<lambda>_ _. 0))\<rparr>"

lemma clock_program:
  shows "on_show clock_program" "current clock_program = 3" "free_fd clock_program = Some 2"
    "clock_entry clock_program clock_dir (clock_dir ! 1)"
    "literals clock_world (pingpong_arrays 3 0x8048000 0x8048100) [''rtc''] clock_program"
proof -
  let ?p = "sample_program [] [''rtc'']" and ?A = "pingpong_arrays 3 0x8048000 0x8048100"
  have small: "length ([] :: u8 list) < 128" "length (literal_image [''rtc'']) \<le> 0x10000" by (simp_all add: literal_image_def)
  note p = sample_program [OF small]
  show cur: "current clock_program = 3" using p(2) by (simp add: clock_program_def current_def)
  have fd: "cur_fd clock_program = cur_fd ?p" by (simp add: clock_program_def cur_fd_def current_def fun_eq_iff)
  show "on_show clock_program"
    using child_on_show [OF p(1)] fd cur p(2) unfolding on_show_def running_def kernel_ok_def screen_ok_def
    by (auto simp: clock_program_def)
  show "free_fd clock_program = Some 2" using p(3) by (simp add: free_fd_def fd del: upt_rec_numeral)
  have "literals (sample_world [''rtc'']) ?A [''rtc''] ?p"
    by (rule sample_literals [OF small]) (auto simp: pingpong_arrays_def array_at_def user_frame_def bytes_of_def)
  moreover have "user_bytes clock_program a bs \<longleftrightarrow> user_bytes ?p a bs" for a bs
    using p(2) cur by (auto simp: user_bytes_def clock_program_def user_frame_def)
  ultimately show "literals clock_world ?A [''rtc''] clock_program"
    by (simp add: literals_def user_string_def clock_world_def cur p(2))
  have fs: "fs clock_program = image_fs" using p(4) by (simp add: clock_program_def reading_kernel_image(1))
  have img: "fs_image clock_program = (fs_image reading_kernel)(0x400080 \<mapsto> 0x72, 0x400081 \<mapsto> 0x74, 0x400082 \<mapsto> 0x63, 0x4000A0 \<mapsto> 0)"
    unfolding p(5) [symmetric] by (auto simp: clock_program_def fs_image_def fun_eq_iff)
  have "load_dentry (fs_image clock_program) (dentry_addr image_fs 0) = Some (clock_dir ! 0)"
    "load_dentry (fs_image clock_program) (dentry_addr image_fs 1) = Some (clock_dir ! 1)"
    by (simp_all add: load_dentry_def dentry_addr_def image_fs_def clock_dir_def sample_dir_def sample_image_def
        rd32_def le32_def unfold_replicate reading_kernel_image bytes_of_def img)
  moreover have "num_dentries image_fs = 2" "length clock_dir = 2" by (simp_all add: image_fs_def clock_dir_def)
  ultimately have "dir_ok (fs_image clock_program) (fs clock_program) clock_dir"
    unfolding fs by (auto simp: dir_ok_def less_2_cases_iff)
  then show "clock_entry clock_program clock_dir (clock_dir ! 1)"
    by (simp add: clock_entry_def clock_dir_def sample_dir_def dentry_name_def bytes_of_def)
qed

lemma clock_program_rests: "head_start (pingpong_clock clock_program) = 0"
proof -
  have "rtc_block clock_program ! nat (exec_terminal clock_program) = booted_rtcc"
    by (simp add: clock_program_def sample_program_def sample_child_def child_kernel_def put_arg_def put_user_def
        reading_kernel_def running_kernel_def booted_kernel_def)
  then show ?thesis by (simp add: head_start_def pingpong_clock_def own_clock_def booted_rtcc_def)
qed

text \<open>Thirty rounds are 4560 pictures in 145920 interrupts of the clock.\<close>

theorem pingpong_bounces_witness:
  "\<exists>t. pingpong clock_world 0x8048000 0x8048100 0x8048200 30 clock_program = Some (0x45, t) \<and>
    screen_of t = typed clock_program (concat (map rally [0..<30])) \<and>
    clock_irqs t = clock_irqs clock_program + 145920"
proof -
  note c = clock_program
  have "only_clock clock_world" by (auto simp: only_clock_def clock_world_def)
  moreover have "frames_ok clock_world" using sample_world_frames by (simp add: frames_ok_def clock_world_def)
  moreover have "array_at 3 0x8048000 81 \<inter> array_at 3 0x8048100 4 = {}" by (auto simp: array_at_def user_frame_def)
  moreover have "letter 30 = 0x45" by (simp add: letter_def)
  ultimately show ?thesis
    using pingpong_bounces [OF c(1) _ _ c(4), of clock_world "0x8048000" "0x8048100" "0x8048200" 30] c(2,3,5)
    by (force simp: user_room_def clock_program_rests)
qed

end
