(* ===== verification/User_Grep.thy ===== *)
theory User_Grep
  imports User_Arrays User_Programs "HOL-Library.Sublist"
begin

text \<open>
  The program \<open>grep\<close> of \<^verbatim>\<open>syscalls/\<close>: it prints the lines of every file that contain its argument. Files
  are read in parts into an array of 1025 bytes, and the part of a line at the end of a buffer is moved
  to its start before the next read. The specification (\<open>grep_output\<close>) works on the lines of the whole
  file; the proof follows the buffer from read to read.
\<close>

subsection \<open>do_one_file\<close>

text \<open>\<open>while (line_end < last && '\n' != data[line_end]) line_end++\<close>\<close>

function line_end_from :: "kst \<Rightarrow> nat \<Rightarrow> nat \<Rightarrow> nat \<Rightarrow> nat option" where
  "line_end_from s data got line_end =
     (if line_end < got then
        do { c \<leftarrow> uview s (data + line_end);
             if c \<noteq> 0x0A then line_end_from s data got (Suc line_end) else Some line_end }
      else Some line_end)"
  by pat_completeness auto
termination
  by (relation "measure (\<lambda>(s, data, got, line_end). got - line_end)") auto

declare line_end_from.simps [simp del]

text \<open>The search of one line, from \<open>check\<close> on; the first hit prints the line and ends it.\<close>

function search_line :: "world \<Rightarrow> nat \<Rightarrow> u32 \<Rightarrow> nat \<Rightarrow> nat \<Rightarrow> nat \<Rightarrow> nat \<Rightarrow> nat \<Rightarrow> kst \<Rightarrow> kst option" where
  "search_line w pat s_len fname data line_start check line_end s =
     (if check < line_end then
        do { p \<leftarrow> uview s pat;
             c \<leftarrow> uview s (data + check);
             r \<leftarrow> (if p = c then ece391_strncmp (ptr s (data + check)) (ptr s pat) s_len else Some 1);
             if r = 0 then
               do { s \<leftarrow> ece391_fdputs w 1 fname s;
                    s \<leftarrow> ece391_fdputs w 1 (lit w '':'') s;
                    s \<leftarrow> ece391_fdputs w 1 (data + line_start) s;
                    ece391_fdputs w 1 (lit w newline) s }
             else search_line w pat s_len fname data line_start (Suc check) line_end s }
      else Some s)"
  by pat_completeness auto
termination
  by (relation "measure (\<lambda>(w, pat, s_len, fname, data, line_start, check, line_end, s). line_end - check)") auto

declare search_line.simps [simp del]

text \<open>The inner loop over the lines in the buffer; the result is the new \<open>last\<close>, here \<open>got\<close>.\<close>

partial_function (option) grep_lines ::
  "world \<Rightarrow> nat \<Rightarrow> u32 \<Rightarrow> nat \<Rightarrow> nat \<Rightarrow> int \<Rightarrow> nat \<Rightarrow> nat \<Rightarrow> kst \<Rightarrow> (nat \<times> kst) option" where
  "grep_lines w pat s_len fname data cnt got line_start s =
     do { line_end \<leftarrow> line_end_from s data got line_start;
          c \<leftarrow> uview s (data + line_end);
          if c \<noteq> 0x0A \<and> 0 \<noteq> cnt \<and> line_start \<noteq> 0 then
            do { s \<leftarrow> user_store (data + line_end) 0 s;
                 s \<leftarrow> ece391_strcpy (\<lambda>s i. uview s (data + line_start + i)) (\<lambda>s i b. user_store (data + i) b s) s;
                 Some (got - line_start, s) }
          else
            do { s \<leftarrow> user_store (data + line_end) 0 s;
                 s \<leftarrow> search_line w pat s_len fname data line_start line_start line_end s;
                 let line_start = line_end + 1;
                 if line_start \<ge> got then Some (0, s)
                 else grep_lines w pat s_len fname data cnt got line_start s } }"

partial_function (option) grep_reads ::
  "world \<Rightarrow> nat \<Rightarrow> u32 \<Rightarrow> nat \<Rightarrow> nat \<Rightarrow> int \<Rightarrow> nat \<Rightarrow> kst \<Rightarrow> (int \<times> kst) option" where
  "grep_reads w pat s_len fname data fd got s =
     do { (cnt, s) \<leftarrow> ece391_read w fd (data + got) (1024 - int got) s;
          if cnt = -1 then
            do { s \<leftarrow> ece391_fdputs w 1 (lit w (''file read failed'' @ newline)) s; Some (-1, s) }
          else
            do { (got, s) \<leftarrow> grep_lines w pat s_len fname data cnt (nat (int got + cnt)) 0 s;
                 if cnt = 0 then
                   do { (r, s) \<leftarrow> ece391_close w fd s;
                        if r = -1 then
                          do { s \<leftarrow> ece391_fdputs w 1 (lit w (''file close failed'' @ newline)) s; Some (-1, s) }
                        else Some (0, s) }
                 else grep_reads w pat s_len fname data fd got s } }"

definition do_one_file :: "world \<Rightarrow> nat \<Rightarrow> nat \<Rightarrow> nat \<Rightarrow> kst \<Rightarrow> (int \<times> kst) option" where
  "do_one_file w pat fname data s =
     do { s_len \<leftarrow> ece391_strlen (ptr s pat);
          (fd, s) \<leftarrow> ece391_open w fname s;
          if fd = -1 then
            do { s \<leftarrow> ece391_fdputs w 1 (lit w (''file open failed'' @ newline)) s; Some (-1, s) }
          else grep_reads w pat s_len fname data fd 0 s }"

subsection \<open>main\<close>

partial_function (option) grep_loop :: "world \<Rightarrow> nat \<Rightarrow> nat \<Rightarrow> nat \<Rightarrow> int \<Rightarrow> kst \<Rightarrow> (int \<times> kst) option" where
  "grep_loop w search buf data fd s =
     do { (cnt, s) \<leftarrow> ece391_read w fd buf 32 s;
          if cnt = 0 then Some (0, s)
          else if cnt = -1 then
            do { s \<leftarrow> ece391_fdputs w 1 (lit w (''directory entry read failed'' @ newline)) s; Some (3, s) }
          else
            do { c \<leftarrow> uview s buf;
                 if c = 0x2E then grep_loop w search buf data fd s
                 else
                   do { s \<leftarrow> user_store (nat (int buf + cnt)) 0 s;
                        (r, s) \<leftarrow> do_one_file w search buf data s;
                        if r \<noteq> 0 then Some (3, s) else grep_loop w search buf data fd s } } }"

definition grep_main :: "world \<Rightarrow> nat \<Rightarrow> nat \<Rightarrow> nat \<Rightarrow> kst \<Rightarrow> (int \<times> kst) option" where
  "grep_main w search buf data s =
     do { (r, s) \<leftarrow> ece391_getargs w search 1024 s;
          if r \<noteq> 0 then
            do { s \<leftarrow> ece391_fdputs w 1 (lit w (''could not read argument'' @ newline)) s; Some (3, s) }
          else
            do { (fd, s) \<leftarrow> ece391_open w (lit w ''.'') s;
                 if fd = -1 then
                   do { s \<leftarrow> ece391_fdputs w 1 (lit w (''directory open failed'' @ newline)) s; Some (2, s) }
                 else grep_loop w search buf data fd s } }"

subsection \<open>The specification\<close>

function lines :: "u8 list \<Rightarrow> u8 list list" where
  "lines bs = (if bs = [] then []
     else takeWhile (\<lambda>c. c \<noteq> 0x0A) bs # lines (drop (Suc (length (takeWhile (\<lambda>c. c \<noteq> 0x0A) bs))) bs))"
  by pat_completeness auto
termination
  by (relation "measure length") (auto simp: diff_less)

declare lines.simps [simp del]

definition found :: "u8 list \<Rightarrow> u8 list \<Rightarrow> u8 list \<Rightarrow> u8 list" where
  "found pat name l = (if pat \<noteq> [] \<and> sublist pat l then name @ [0x3A] @ l @ [0x0A] else [])"

definition grep_output :: "u8 list \<Rightarrow> u8 list \<Rightarrow> u8 list \<Rightarrow> u8 list" where
  "grep_output pat name bs = concat (map (found pat name) (lines bs))"

lemma lines_Nil [simp]: "lines [] = []"
  by (simp add: lines.simps)

lemma lines_fragment: "0x0A \<notin> set f \<Longrightarrow> f \<noteq> [] \<Longrightarrow> lines f = [f]"
proof -
  assume f: "0x0A \<notin> set f" "f \<noteq> []"
  then have tw: "takeWhile (\<lambda>c. c \<noteq> 0x0A) f = f" by (auto simp: takeWhile_eq_all_conv)
  show ?thesis using f by (subst lines.simps) (simp add: tw del: takeWhile_eq_all_conv)
qed

lemma lines_line: "0x0A \<notin> set l \<Longrightarrow> lines (l @ 0x0A # bs) = l # lines bs"
proof -
  assume l: "0x0A \<notin> set l"
  then have "takeWhile (\<lambda>c. c \<noteq> 0x0A) (l @ 0x0A # bs) = l" by (subst takeWhile_append2) auto
  then show ?thesis by (subst lines.simps) simp
qed

lemma grep_output_Nil [simp]: "grep_output pat name [] = []"
  by (simp add: grep_output_def)

lemma grep_output_line: "0x0A \<notin> set l \<Longrightarrow> grep_output pat name (l @ 0x0A # bs) = found pat name l @ grep_output pat name bs"
  by (simp add: grep_output_def lines_line)

lemma grep_output_fragment: "0x0A \<notin> set f \<Longrightarrow> grep_output pat name f = found pat name f"
  by (cases "f = []") (auto simp: grep_output_def lines_fragment found_def)

subsection \<open>Arrays in the page of the program\<close>

lemma bytes_appendI:
  assumes "user_bytes s a xs" and "user_bytes s (a + length xs) ys"
  shows "user_bytes s a (xs @ ys)"
proof -
  have "user_frame (current s) (a + length xs) = user_frame (current s) a + length xs"
    using assms(1) by (simp add: user_bytes_def user_frame_def)
  moreover have "mem s (user_frame (current s) a + i) = ys ! (i - length xs)"
    if "length xs \<le> i" "i < length xs + length ys"
      "user_frame (current s) (a + length xs) = user_frame (current s) a + length xs" for i
  proof -
    have "i - length xs < length ys" using that by simp
    then have "mem s (user_frame (current s) (a + length xs) + (i - length xs)) = ys ! (i - length xs)"
      using assms(2) by (simp add: user_bytes_def)
    then show ?thesis using that by simp
  qed
  ultimately show ?thesis using assms by (simp add: user_bytes_def nth_append)
qed

lemma bytes_drop: "user_bytes s a (xs @ ys) \<Longrightarrow> user_bytes s (a + length xs) ys"
  using user_bytes_middle [of s a xs ys "[]"] by simp

lemma string_drop:
  assumes "user_string s a xs" and "k \<le> length xs"
  shows "user_string s (a + k) (drop k xs)"
proof -
  have "xs @ [0] = take k xs @ (drop k xs @ [0])" by simp
  then have "user_bytes s a (take k xs @ (drop k xs @ [0]))" using assms(1) by (simp only: user_string_def)
  from bytes_drop [OF this] assms show ?thesis by (auto simp: user_string_def dest: in_set_dropD)
qed

lemma arrays_apart:
  assumes "OFF_128MB \<le> a" and "OFF_128MB \<le> b" and "a + n \<le> b \<or> b + m \<le> a"
  shows "array_at pid a n \<inter> array_at pid b m = {}"
  using assms by (auto simp: array_at_def user_frame_def)

lemma array_sub: "OFF_128MB \<le> a \<Longrightarrow> k + m \<le> n \<Longrightarrow> array_at pid (a + k) m \<subseteq> array_at pid a n"
  by (auto simp: array_at_def user_frame_def)

text \<open>Stores into the buffer, whose content is the list \<open>ys\<close>.\<close>

definition data_buffer :: "kst \<Rightarrow> nat \<Rightarrow> u8 list \<Rightarrow> bool" where
  "data_buffer s data ys \<longleftrightarrow> length ys = 1025 \<and> user_bytes s data ys"

lemma buffer_store:
  assumes "on_show s" and "data_buffer s data ys" and "i < 1025"
  shows "\<exists>t. user_store (data + i) b s = Some t \<and> emits (array_at (current s) data 1025) [] s t \<and>
     data_buffer t data (ys[i := b]) \<and> cur_fd t = cur_fd s"
proof -
  let ?t = "put_user (data + i) [b] s"
  note b = assms(2) [unfolded data_buffer_def]
  have room: "user_room data 1025" using user_bytes_room [of s data ys] b by simp
  have room1: "user_room (data + i) (length [b])" using room assms(3) by (simp add: user_room_def)
  have fr: "user_frame (current s) (data + i) = user_frame (current s) data + i"
    using room by (simp add: user_frame_def user_room_def)
  have "array_at (current s) (data + i) (length [b]) \<subseteq> array_at (current s) data 1025"
    using assms(3) by (auto simp: array_at_def fr)
  then have "emits (array_at (current s) data 1025) [] s ?t" by (rule put_user_emits [OF assms(1) room1])
  moreover have "data_buffer ?t data (ys[i := b])"
    using b assms(3) by (auto simp: data_buffer_def user_bytes_def put_user_def poke_def fr nth_list_update)
  moreover have "user_store (data + i) b s = Some ?t"
    by (rule user_store_eq [OF assms(1) user_room_less [OF room]]) (use assms(3) in simp)
  ultimately show ?thesis by simp
qed

lemma buffer_load: "on_show s \<Longrightarrow> data_buffer s data ys \<Longrightarrow> i < 1025 \<Longrightarrow> uview s (data + i) = Some (ys ! i)"
  by (simp add: data_buffer_def user_bytes_uview)

lemma buffer_emits: "emits {} cs s t \<Longrightarrow> data_buffer s data ys \<Longrightarrow> data_buffer t data ys"
  using emits_bytes [of "{}" cs s t data ys] by (simp add: data_buffer_def)

lemma buffer_string:
  assumes "data_buffer s data ys" and "ys = xs @ l @ 0 # zs" and "0 \<notin> set l"
  shows "user_string s (data + length xs) l"
  using user_bytes_middle [of s data xs "l @ [0]" zs] assms by (simp add: data_buffer_def user_string_def)

subsection \<open>The search of a line\<close>

text \<open>What a search needs: the pattern, the name and the texts, apart from the buffer.\<close>

definition grepping :: "world \<Rightarrow> nat set \<Rightarrow> nat \<Rightarrow> u8 list \<Rightarrow> nat \<Rightarrow> u8 list \<Rightarrow> kst \<Rightarrow> bool" where
  "grepping w A pat p fname name s \<longleftrightarrow> on_show s \<and>
     user_string s pat p \<and> array_at (current s) pat (Suc (length p)) \<inter> A = {} \<and>
     user_string s fname name \<and> array_at (current s) fname (Suc (length name)) \<inter> A = {} \<and>
     BACKSPACE \<notin> set name \<and> literals w A ['':'', newline] s"

lemma grepping_emits:
  assumes "emits A cs s t" and "grepping w A pat p fname name s"
  shows "grepping w A pat p fname name t"
proof -
  note g = assms(2) [unfolded grepping_def]
  have "user_string t pat p" "user_string t fname name" "literals w A ['':'', newline] t"
    using g emits_string [OF assms(1)] literals_emits [OF assms(1)] by blast+
  then show ?thesis using g emitsD(2,4) [OF assms(1)] by (simp add: grepping_def)
qed

definition hit :: "u8 list \<Rightarrow> u8 list \<Rightarrow> nat \<Rightarrow> bool" where
  "hit p l j \<longleftrightarrow> (p @ [0]) ! 0 = l ! j \<and> take (length p) (drop j l @ [0]) = p"

lemma hit_sublist:
  assumes "0 \<notin> set p" and "0 \<notin> set l"
  shows "(\<exists>j. j < length l \<and> hit p l j) \<longleftrightarrow> p \<noteq> [] \<and> sublist p l"
proof
  assume "\<exists>j. j < length l \<and> hit p l j"
  then obtain j where j: "j < length l" "(p @ [0]) ! 0 = l ! j" "take (length p) (drop j l @ [0]) = p" by (auto simp: hit_def)
  have "l ! j \<noteq> 0" using assms(2) j(1) by (auto simp: in_set_conv_nth)
  then have ne: "p \<noteq> []" using j(2) by auto
  have "length p \<le> length (drop j l)"
  proof (rule ccontr)
    assume n: "\<not> length p \<le> length (drop j l)"
    then have "p ! length (drop j l) = (take (length p) (drop j l @ [0])) ! length (drop j l)" by (simp only: j(3))
    also have "\<dots> = 0" using n by (simp add: nth_append)
    finally show False using assms(1) n nth_mem [of "length (drop j l)" p] by (metis not_le)
  qed
  then have "drop j l = p @ drop (length p) (drop j l)"
    using j(3) append_take_drop_id [of "length p" "drop j l"] by simp
  then have "l = take j l @ p @ drop (length p) (drop j l)" by (metis append_take_drop_id)
  then show "p \<noteq> [] \<and> sublist p l" using ne unfolding sublist_def by blast
next
  assume "p \<noteq> [] \<and> sublist p l"
  then obtain ps ss where l: "l = ps @ p @ ss" "p \<noteq> []" by (auto simp: sublist_def)
  then have "length ps < length l \<and> hit p l (length ps)" by (simp add: hit_def nth_append)
  then show "\<exists>j. j < length l \<and> hit p l j" by blast
qed

definition found_from :: "nat \<Rightarrow> u8 list \<Rightarrow> u8 list \<Rightarrow> u8 list \<Rightarrow> u8 list" where
  "found_from k p name l = (if \<exists>j. k \<le> j \<and> j < length l \<and> hit p l j then name @ [0x3A] @ l @ [0x0A] else [])"

lemma found_from_start: "0 \<notin> set p \<Longrightarrow> 0 \<notin> set l \<Longrightarrow> found_from 0 p name l = found p name l"
  using hit_sublist [of p l] by (simp add: found_from_def found_def)

lemma prints_line:
  assumes "grepping w A pat p fname name s" and "user_string s a l" and "BACKSPACE \<notin> set l"
  shows "\<exists>t. do { s \<leftarrow> ece391_fdputs w 1 fname s;
                    s \<leftarrow> ece391_fdputs w 1 (lit w '':'') s;
                    s \<leftarrow> ece391_fdputs w 1 a s;
                    ece391_fdputs w 1 (lit w newline) s } = Some t \<and>
     emits {} (name @ [0x3A] @ l @ [0x0A]) s t \<and> cur_fd t = cur_fd s"
proof -
  note g = assms(1) [unfolded grepping_def]
  have shown_s: "on_show s" and lits: "literals w {} ['':'', newline] s" using g by (auto simp: literals_def)
  obtain s1 where s1: "ece391_fdputs w 1 fname s = Some s1" "emits {} name s s1" "cur_fd s1 = cur_fd s"
    using puts_emits [OF shown_s, of fname name w "{}"] g by blast
  obtain s2 where s2: "ece391_fdputs w 1 (lit w '':'') s1 = Some s2" "emits {} (name @ bytes_of '':'') s s2" "cur_fd s2 = cur_fd s1"
    using puts_lit [OF s1(2) lits, of "'':''"] by auto
  have "user_string s2 a l" using emits_string [OF s2(2) assms(2)] by simp
  then obtain s3 where s3: "ece391_fdputs w 1 a s2 = Some s3" "emits {} l s2 s3" "cur_fd s3 = cur_fd s2"
    using puts_emits [OF emitsD(2) [OF s2(2)] _ assms(3)] by blast
  obtain s4 where s4: "ece391_fdputs w 1 (lit w newline) s3 = Some s4"
    "emits {} (((name @ bytes_of '':'') @ l) @ bytes_of newline) s s4" "cur_fd s4 = cur_fd s3"
    using puts_lit [OF emits_trans [OF s2(2) s3(2)] lits, of newline] by auto
  then show ?thesis using s1(1,3) s2(1,3) s3(1,3) by (simp add: bytes_of_def)
qed

lemma search_line_prints:
  assumes "grepping w A pat p fname name s" and "user_string s (data + start) l" and "BACKSPACE \<notin> set l" and "k \<le> length l"
    and "length p < 2 ^ 32"
  shows "\<exists>t. search_line w pat (word_of_nat (length p)) fname data start (start + k) (start + length l) s = Some t \<and>
     emits {} (found_from k p name l) s t \<and> cur_fd t = cur_fd s"
  using assms(4)
proof (induction "length l - k" arbitrary: k)
  case 0
  have "on_show s" using assms(1) by (simp add: grepping_def)
  then show ?case using 0 emits_refl by (subst search_line.simps) (auto simp: found_from_def intro: emits_mono)
next
  case (Suc n)
  then have k: "k < length l" by simp
  have shown_s: "on_show s" and pat: "user_string s pat p" using assms(1) by (simp_all add: grepping_def)
  note cp = user_string_cstr(1) [OF shown_s pat] and cl = user_string_cstr(1) [OF shown_s assms(2)]
  have p0: "uview s pat = Some ((p @ [0]) ! 0)" using cstr_get [OF cp, of 0] by (simp add: ptr_def)
  have c: "uview s (data + (start + k)) = Some (l ! k)" using cstr_char [OF cl k] by (simp add: ptr_def add.assoc)
  have cd: "cstr (ptr s (data + (start + k))) (drop k l)"
    using user_string_cstr(1) [OF shown_s string_drop [OF assms(2), of k]] k by (simp add: add.assoc)
  have n: "unat (word_of_nat (length p) :: u32) = length p" using assms(5) by (simp add: unat_of_nat take_bit_eq_mod)
  obtain r where r: "ece391_strncmp (ptr s (data + (start + k))) (ptr s pat) (word_of_nat (length p)) = Some r"
    "r = 0 \<longleftrightarrow> take (length p) (drop k l @ [0]) = take (length p) (p @ [0])"
    using strncmp_zero_iff [OF cd cp, of "length p"] by (auto simp: ece391_strncmp_eq n)
  show ?case
  proof (cases "hit p l k")
    case True
    then have f: "found_from k p name l = name @ [0x3A] @ l @ [0x0A]" using k by (auto simp: found_from_def)
    have "r = 0" "(p @ [0]) ! 0 = l ! k" using True r(2) by (simp_all add: hit_def)
    then show ?thesis
      using prints_line [OF assms(1-3)] p0 c r(1) k by (subst search_line.simps) (simp add: f)
  next
    case False
    have f: "found_from k p name l = found_from (Suc k) p name l"
      using False by (auto simp: found_from_def) (metis Suc_leI le_neq_implies_less)+
    have "(p @ [0]) ! 0 \<noteq> l ! k \<or> r \<noteq> 0" using False r(2) by (auto simp: hit_def)
    then show ?thesis
      using Suc.hyps(1) [of "Suc k"] Suc.hyps(2) k p0 c r(1) by (subst search_line.simps) (auto simp: f)
  qed
qed

subsection \<open>The lines of a buffer\<close>

text \<open>The copy of a fragment to the start of the buffer.\<close>

lemma fragment_moves:
  assumes "on_show s" and "data_buffer s data ys" and "0 < start" and "start + length f < 1025" and "0 \<notin> set f"
    and "\<forall>j \<le> length f. i \<le> j \<longrightarrow> ys ! (start + j) = (f @ [0]) ! j" and "take i ys = take i f" and "i \<le> length f"
  shows "\<exists>t zs. ece391_strcpy_from (\<lambda>s i. uview s (data + start + i)) (\<lambda>s i b. user_store (data + i) b s) i s = Some t \<and>
     emits (array_at (current s) data 1025) [] s t \<and> data_buffer t data zs \<and> take (length f) zs = f \<and> zs ! 1024 = ys ! 1024 \<and>
     cur_fd t = cur_fd s"
  using assms(1,2,6-8)
proof (induction "length f - i" arbitrary: i s ys)
  case 0
  then have i: "i = length f" by simp
  have "ys ! (start + i) = 0" using "0.prems"(3) i by (simp add: nth_append)
  then have rd: "uview s (data + start + i) = Some 0"
    using buffer_load [OF "0.prems"(1,2), of "start + i"] assms(4) i by (simp add: add.assoc)
  obtain t where t: "user_store (data + i) 0 s = Some t" "emits (array_at (current s) data 1025) [] s t"
    "data_buffer t data (ys[i := 0])" "cur_fd t = cur_fd s"
    using buffer_store [OF "0.prems"(1,2), of i 0] assms(4) i by auto
  show ?case
    using t rd "0.prems"(4) i assms(3,4) by (subst ece391_strcpy_from.simps) (intro exI [of _ t] exI [of _ "ys[i := 0]"], simp)
next
  case (Suc n)
  then have i: "i < length f" by simp
  have c: "ys ! (start + i) = f ! i" "f ! i \<noteq> 0" using Suc.prems(3) i assms(5) by (auto simp: nth_append in_set_conv_nth)
  then have rd: "uview s (data + start + i) = Some (f ! i)"
    using buffer_load [OF Suc.prems(1,2), of "start + i"] assms(4) i by (simp add: add.assoc)
  obtain t where t: "user_store (data + i) (f ! i) s = Some t" "emits (array_at (current s) data 1025) [] s t"
    "data_buffer t data (ys[i := f ! i])" "cur_fd t = cur_fd s"
    using buffer_store [OF Suc.prems(1,2), of i "f ! i"] assms(4) i by auto
  have len: "i < length ys" using i assms(4) Suc.prems(2) by (simp add: data_buffer_def)
  have "take (Suc i) (ys[i := f ! i]) = take (Suc i) f"
    using len i Suc.prems(4) by (simp add: take_Suc_conv_app_nth)
  moreover have "\<forall>j \<le> length f. Suc i \<le> j \<longrightarrow> ys[i := f ! i] ! (start + j) = (f @ [0]) ! j"
    using Suc.prems(3) by auto
  moreover have "n = length f - Suc i" using Suc.hyps(2) by simp
  ultimately obtain u zs where u: "ece391_strcpy_from (\<lambda>s i. uview s (data + start + i)) (\<lambda>s i b. user_store (data + i) b s) (Suc i) t = Some u"
    "emits (array_at (current t) data 1025) [] t u" "data_buffer u data zs" "take (length f) zs = f"
    "zs ! 1024 = ys[i := f ! i] ! 1024" "cur_fd u = cur_fd t"
    using Suc.hyps(1) [of "Suc i" t "ys[i := f ! i]"] emitsD(2) [OF t(2)] t(3) i by auto
  have "emits (array_at (current s) data 1025) [] s u" using emits_trans [OF t(2)] u(2) emitsD(4) [OF t(2)] by fastforce
  then show ?case
    using t(1,4) rd c(2) u(1,3-6) i assms(3,4) by (subst ece391_strcpy_from.simps) auto
qed

text \<open>The end of a line.\<close>

lemma line_end_found:
  assumes "on_show s" and "data_buffer s data ys" and "k \<le> got" and "got \<le> 1024"
  shows "line_end_from s data got k = Some (k + length (takeWhile (\<lambda>c. c \<noteq> 0x0A) (take (got - k) (drop k ys))))"
  using assms(3)
proof (induction "got - k" arbitrary: k)
  case 0
  then show ?case by (subst line_end_from.simps) simp
next
  case (Suc n)
  then have k: "k < got" by simp
  have len: "k < length ys" using k assms(2,4) by (simp add: data_buffer_def)
  have "take (got - k) (drop k ys) = ys ! k # take (got - Suc k) (drop (Suc k) ys)"
    using k Cons_nth_drop_Suc [OF len, symmetric] by (simp add: take_Cons' Suc_diff_Suc [symmetric])
  moreover have "line_end_from s data got (Suc k) = Some (Suc k + length (takeWhile (\<lambda>c. c \<noteq> 0x0A) (take (got - Suc k) (drop (Suc k) ys))))"
    by (rule Suc.hyps(1)) (use Suc.hyps(2) k in simp_all)
  ultimately show ?case
    using k buffer_load [OF assms(1,2), of k] assms(4) by (subst line_end_from.simps) simp
qed

lemma line_split:
  assumes "0x0A \<in> set (bs :: u8 list)"
  defines "l \<equiv> takeWhile (\<lambda>c. c \<noteq> 0x0A) bs"
  shows "length l < length bs" "bs ! length l = 0x0A" "bs = l @ 0x0A # drop (Suc (length l)) bs"
proof -
  obtain xs ys where "bs = xs @ 0x0A # ys" "0x0A \<notin> set xs" using split_list_first [OF assms(1)] by blast
  moreover from this have "l = xs" by (subst l_def, simp, subst takeWhile_append2) auto
  ultimately show "length l < length bs" "bs ! length l = 0x0A" "bs = l @ 0x0A # drop (Suc (length l)) bs" by simp_all
qed

text \<open>
  The line that starts at \<open>start\<close>. \<open>bs\<close> is what is left of the buffer \<open>ys\<close> from there; the line ends at the
  newline, or with the buffer, where the code stores a terminator.
\<close>

definition pass :: "nat \<Rightarrow> nat \<Rightarrow> u8 list \<Rightarrow> u8 list \<Rightarrow> bool" where
  "pass start got ys bs \<longleftrightarrow> start \<le> got \<and> got \<le> 1024 \<and> length ys = 1025 \<and> bs = take (got - start) (drop start ys) \<and>
     ys ! 1024 \<noteq> 0x0A \<and> 0 \<notin> set bs \<and> BACKSPACE \<notin> set bs"

definition line_in :: "u8 list \<Rightarrow> u8 list" where
  "line_in bs = takeWhile (\<lambda>c. c \<noteq> 0x0A) bs"

lemma line_in_plain: "0x0A \<notin> set (line_in bs)" "set (line_in bs) \<subseteq> set bs"
  by (auto simp: line_in_def dest: set_takeWhileD)

lemma line_in_all: "0x0A \<notin> set bs \<Longrightarrow> line_in bs = bs"
  by (auto simp: line_in_def takeWhile_eq_all_conv)

lemma passD:
  assumes "pass start got ys bs" and "ending = start + length (line_in bs)"
  shows "length bs = got - start" "start \<le> ending" "ending \<le> got" "(ys[ending := 0]) ! 1024 \<noteq> 0x0A"
    "n < got - start \<Longrightarrow> bs ! n = ys ! (start + n)"
    "ys[ending := 0] = take start ys @ line_in bs @ 0 # drop (Suc ending) ys"
proof -
  note p = assms(1) [unfolded pass_def]
  have "got - start \<le> length (drop start ys)" using p by (simp add: diff_le_mono)
  then show len: "length bs = got - start" using p by (simp only: length_take min_absorb2)
  have "length (line_in bs) \<le> length bs" by (simp add: line_in_def length_takeWhile_le)
  then show e: "start \<le> ending" "ending \<le> got"
    using len conjunct1 [OF p] unfolding assms(2) by linarith+
  show "(ys[ending := 0]) ! 1024 \<noteq> 0x0A" using p e by (simp add: nth_list_update)
  show "n < got - start \<Longrightarrow> bs ! n = ys ! (start + n)" using p by simp
  define k where "k = length (line_in bs)"
  have "k \<le> got - start" using e assms(2) by (simp add: k_def)
  then have "take k (drop start ys) = take k bs" using p by (simp add: min_absorb1)
  also have "take k bs = line_in bs" unfolding k_def line_in_def by (rule takeWhile_eq_take [symmetric])
  finally have "take ending ys = take start ys @ line_in bs" by (simp add: assms(2) k_def take_add)
  then show "ys[ending := 0] = take start ys @ line_in bs @ 0 # drop (Suc ending) ys"
    using e p by (subst upd_conv_take_nth_drop) simp_all
qed

lemma line_terminated:
  assumes "grepping w (array_at (current s) data 1025) pat p fname name s" and "data_buffer s data ys"
    and "pass start got ys bs" and "ending = start + length (line_in bs)"
  shows "\<exists>u. line_end_from s data got start = Some ending \<and> uview s (data + ending) = Some (ys ! ending) \<and>
     user_store (data + ending) 0 s = Some u \<and> emits (array_at (current s) data 1025) [] s u \<and>
     data_buffer u data (ys[ending := 0]) \<and> cur_fd u = cur_fd s \<and> user_string u (data + start) (line_in bs)"
proof -
  note p = assms(3) [unfolded pass_def] and e = passD [OF assms(3,4)]
  have shown_s: "on_show s" using assms(1) by (simp add: grepping_def)
  have "line_end_from s data got start = Some ending"
    using line_end_found [OF shown_s assms(2)] p by (simp add: assms(4) line_in_def)
  moreover have "uview s (data + ending) = Some (ys ! ending)"
    using buffer_load [OF shown_s assms(2), of ending] e(3) p by simp
  moreover obtain u where u: "user_store (data + ending) 0 s = Some u" "emits (array_at (current s) data 1025) [] s u"
    "data_buffer u data (ys[ending := 0])" "cur_fd u = cur_fd s"
    using buffer_store [OF shown_s assms(2), of ending 0] e(3) p by auto
  moreover have "user_string u (data + start) (line_in bs)"
    using buffer_string [OF u(3) e(6)] p line_in_plain(2) [of bs] by auto
  ultimately show ?thesis by blast
qed

text \<open>The first case of the code: the buffer ends within a line, whose start is kept.\<close>

lemma fragment_kept:
  assumes "grepping w (array_at (current s) data 1025) pat p fname name s" and "data_buffer s data ys"
    and "pass start got ys bs" and "ending = start + length (line_in bs)"
    and "ys ! ending \<noteq> 0x0A" and "cnt \<noteq> 0" and "start \<noteq> 0"
  shows "\<exists>v zs. grep_lines w pat s_len fname data cnt got start s = Some (length bs, v) \<and>
     emits (array_at (current s) data 1025) [] s v \<and> data_buffer v data zs \<and> zs ! 1024 \<noteq> 0x0A \<and> cur_fd v = cur_fd s \<and>
     take (length bs) zs = bs \<and> length bs \<le> 1023 \<and> 0x0A \<notin> set bs"
proof -
  let ?A = "array_at (current s) data 1025"
  note p = assms(3) [unfolded pass_def] and e = passD [OF assms(3,4)]
  obtain u where u: "line_end_from s data got start = Some ending" "uview s (data + ending) = Some (ys ! ending)"
    "user_store (data + ending) 0 s = Some u" "emits ?A [] s u" "data_buffer u data (ys[ending := 0])" "cur_fd u = cur_fd s"
    using line_terminated [OF assms(1-4)] by blast
  have nl: "0x0A \<notin> set bs"
  proof
    assume "0x0A \<in> set bs"
    then have "length (line_in bs) < length bs" "bs ! length (line_in bs) = 0x0A"
      using line_split(1,2) [of bs] by (simp_all add: line_in_def)
    then show False using assms(4,5) e(1) e(5) [of "length (line_in bs)"] by simp
  qed
  note lb = line_in_all [OF nl]
  have le: "start + length bs < 1025" using e(1) conjunct1 [OF p] conjunct1 [OF conjunct2 [OF p]] by linarith
  have at: "\<forall>j \<le> length bs. 0 \<le> j \<longrightarrow> (ys[ending := 0]) ! (start + j) = (bs @ [0]) ! j"
    unfolding e(6) lb using p by (simp add: nth_append)
  obtain v zs where v: "ece391_strcpy_from (\<lambda>s i. uview s (data + start + i)) (\<lambda>s i b. user_store (data + i) b s) 0 u = Some v"
    "emits (array_at (current u) data 1025) [] u v" "data_buffer v data zs" "take (length bs) zs = bs"
    "zs ! 1024 = (ys[ending := 0]) ! 1024" "cur_fd v = cur_fd u"
    using fragment_moves [OF emitsD(2) [OF u(4)] u(5) _ le _ at] p assms(7) by auto
  have "emits ?A [] s v" using emits_trans [OF u(4)] v(2) emitsD(4) [OF u(4)] by fastforce
  moreover have "length bs \<le> 1023" using e(1) p assms(7) by linarith
  moreover have "grep_lines w pat s_len fname data cnt got start s = Some (length bs, v)"
    using u(1-3) v(1) assms(5-7) e(1) by (subst grep_lines.simps) (simp add: ece391_strcpy_def)
  ultimately show ?thesis using v(3-6) e(4) u(6) nl by auto
qed

text \<open>The other case: the line is searched, and the pass goes on behind it.\<close>

lemma line_searched:
  assumes "length p < 2 ^ 32" and "grepping w (array_at (current s) data 1025) pat p fname name s"
    and "data_buffer s data ys" and "pass start got ys bs" and "ending = start + length (line_in bs)"
    and "\<not> (ys ! ending \<noteq> 0x0A \<and> 0 \<noteq> cnt \<and> start \<noteq> 0)"
  shows "\<exists>v. emits (array_at (current s) data 1025) (found p name (line_in bs)) s v \<and>
     data_buffer v data (ys[ending := 0]) \<and> cur_fd v = cur_fd s \<and>
     grep_lines w pat (word_of_nat (length p)) fname data cnt got start s =
       (if got \<le> Suc ending then Some (0, v)
        else grep_lines w pat (word_of_nat (length p)) fname data cnt got (Suc ending) v)"
proof -
  let ?A = "array_at (current s) data 1025"
  note pp = assms(4) [unfolded pass_def]
  have zero: "0 \<notin> set p" "0 \<notin> set (line_in bs)" "BACKSPACE \<notin> set (line_in bs)"
    using assms(2) pp line_in_plain(2) [of bs] by (auto simp: grepping_def user_string_def)
  obtain u where u: "line_end_from s data got start = Some ending" "uview s (data + ending) = Some (ys ! ending)"
    "user_store (data + ending) 0 s = Some u" "emits ?A [] s u" "data_buffer u data (ys[ending := 0])" "cur_fd u = cur_fd s"
    "user_string u (data + start) (line_in bs)"
    using line_terminated [OF assms(2-5)] by blast
  obtain v where v: "search_line w pat (word_of_nat (length p)) fname data start start ending u = Some v"
    "emits {} (found p name (line_in bs)) u v" "cur_fd v = cur_fd u"
    using search_line_prints [of w ?A pat p fname name u data start "line_in bs" 0,
        OF grepping_emits [OF u(4) assms(2)] u(7) zero(3) _ assms(1)] found_from_start [OF zero(1,2), of name]
    by (auto simp: assms(5))
  have "emits ?A (found p name (line_in bs)) s v"
    using emits_trans [OF u(4) emits_mono [OF v(2) empty_subsetI]] by simp
  moreover have "data_buffer v data (ys[ending := 0])" by (rule buffer_emits [OF v(2) u(5)])
  moreover have "grep_lines w pat (word_of_nat (length p)) fname data cnt got start s =
      (if got \<le> Suc ending then Some (0, v)
       else grep_lines w pat (word_of_nat (length p)) fname data cnt got (Suc ending) v)"
    using u(1-3) v(1) assms(6) by (subst grep_lines.simps) auto
  ultimately show ?thesis using v(3) u(6) by auto
qed

text \<open>
  One pass over the buffer. \<open>R\<close> is the part of the file that has not been read; the pass handles the
  lines \<open>ls\<close> and keeps the fragment of the next one.
\<close>

lemma grep_lines_prints:
  assumes "length p < 2 ^ 32"
    and "grepping w (array_at (current s) data 1025) pat p fname name s" and "data_buffer s data ys"
    and "pass start got ys bs" and "R = [] \<or> got = 1024 \<and> cnt \<noteq> 0 \<and> (start \<noteq> 0 \<or> 0x0A \<in> set bs)"
  shows "\<exists>kept t zs ls. grep_lines w pat (word_of_nat (length p)) fname data cnt got start s = Some (kept, t) \<and>
     emits (array_at (current s) data 1025) (concat (map (found p name) ls)) s t \<and> data_buffer t data zs \<and>
     zs ! 1024 \<noteq> 0x0A \<and> cur_fd t = cur_fd s \<and> kept \<le> 1023 \<and> 0x0A \<notin> set (take kept zs) \<and>
     set (take kept zs) \<subseteq> set bs \<and> (cnt = 0 \<longrightarrow> kept = 0) \<and> lines (bs @ R) = ls @ lines (take kept zs @ R)"
  using assms(2-5)
proof (induction "got - start" arbitrary: start s ys bs rule: less_induct)
  case less
  let ?A = "array_at (current s) data 1025"
  define ending where "ending = start + length (line_in bs)"
  note e = passD [OF less.prems(3) ending_def] and p = less.prems(3) [unfolded pass_def]
  show ?case
  proof (cases "ys ! ending \<noteq> 0x0A \<and> 0 \<noteq> cnt \<and> start \<noteq> 0")
    case True
    then obtain v zs where v: "grep_lines w pat (word_of_nat (length p)) fname data cnt got start s = Some (length bs, v)"
      "emits ?A [] s v" "data_buffer v data zs" "zs ! 1024 \<noteq> 0x0A" "cur_fd v = cur_fd s" "take (length bs) zs = bs"
      "length bs \<le> 1023" "0x0A \<notin> set bs"
      using fragment_kept [OF less.prems(1-3) ending_def, of cnt "word_of_nat (length p)"] by auto
    then show ?thesis
      using True by (intro exI [of _ "length bs"] exI [of _ v] exI [of _ zs] exI [of _ "[]"]) simp
  next
    case False
    obtain v where v: "emits ?A (found p name (line_in bs)) s v" "data_buffer v data (ys[ending := 0])" "cur_fd v = cur_fd s"
      "grep_lines w pat (word_of_nat (length p)) fname data cnt got start s = (if got \<le> Suc ending then Some (0, v)
        else grep_lines w pat (word_of_nat (length p)) fname data cnt got (Suc ending) v)"
      using line_searched [OF assms(1) less.prems(1-3) ending_def False] by blast
    show ?thesis
    proof (cases "0x0A \<in> set bs")
      case nl: False
      note lb = line_in_all [OF nl]
      have ending: "ending = got" using e(1) conjunct1 [OF p] by (simp only: ending_def lb)
      have R: "R = []" using False nl p less.prems(4) ending by auto
      have "emits ?A (concat (map (found p name) (lines bs))) s v"
        using v(1) [unfolded lb] nl lines_fragment [of bs] by (cases "bs = []") (simp_all add: found_def)
      then show ?thesis
        using v(2-4) e(4) R ending
        by (intro exI [of _ 0] exI [of _ v] exI [of _ "ys[ending := 0]"] exI [of _ "lines bs"]) simp
    next
      case nl: True
      define rest where "rest = drop (Suc (length (line_in bs))) bs"
      have bs: "bs = line_in bs @ 0x0A # rest" using line_split(3) [OF nl] by (simp add: rest_def line_in_def)
      have "bs @ R = (line_in bs @ 0x0A # rest) @ R" by (rule arg_cong [OF bs])
      then have bsR: "lines (bs @ R) = line_in bs # lines (rest @ R)"
        using lines_line [OF line_in_plain(1), of bs "rest @ R"] by (simp only: append_assoc append_Cons)
      have "drop (Suc n) bs = take (got - Suc (start + n)) (drop (Suc (start + n)) (ys[start + n := 0]))" for n
        using p by (simp add: drop_take add.commute)
      then have next_bs: "rest = take (got - Suc ending) (drop (Suc ending) (ys[ending := 0]))"
        by (simp add: rest_def ending_def)
      show ?thesis
      proof (cases "got \<le> Suc ending")
        case True
        then have "rest = []" using next_bs by simp
        then show ?thesis
          using v e(4) bsR True
          by (intro exI [of _ 0] exI [of _ v] exI [of _ "ys[ending := 0]"] exI [of _ "[line_in bs]"]) simp
      next
        case more: False
        have sub: "set rest \<subseteq> set bs" unfolding rest_def by (rule set_drop_subset)
        have ps: "pass (Suc ending) got (ys[ending := 0]) rest"
          using p sub more next_bs e(4) unfolding pass_def by (simp add: subset_iff) blast
        have g: "grepping w (array_at (current v) data 1025) pat p fname name v"
          using grepping_emits [OF v(1) less.prems(1)] emitsD(4) [OF v(1)] by simp
        have lt: "got - Suc ending < got - start" using more e(2) by simp
        have "R = [] \<or> got = 1024 \<and> cnt \<noteq> 0 \<and> (Suc ending \<noteq> 0 \<or> 0x0A \<in> set rest)" using less.prems(4) by auto
        from less.hyps [OF lt g v(2) ps this] obtain kept t zs ls where t:
          "grep_lines w pat (word_of_nat (length p)) fname data cnt got (Suc ending) v = Some (kept, t)"
          "emits (array_at (current v) data 1025) (concat (map (found p name) ls)) v t" "data_buffer t data zs"
          "zs ! 1024 \<noteq> 0x0A" "cur_fd t = cur_fd v" "kept \<le> 1023" "0x0A \<notin> set (take kept zs)"
          "set (take kept zs) \<subseteq> set rest" "cnt = 0 \<longrightarrow> kept = 0" "lines (rest @ R) = ls @ lines (take kept zs @ R)"
          by (elim exE conjE) (rule that)
        have "emits ?A (concat (map (found p name) (line_in bs # ls))) s t"
          using emits_trans [OF v(1), of _ t] t(2) emitsD(4) [OF v(1)] by simp
        then show ?thesis
          using t(1,3-9) v(3,4) more sub bsR t(10)
          by (intro exI [of _ kept] exI [of _ t] exI [of _ zs] exI [of _ "line_in bs # ls"]) auto
      qed
    qed
  qed
qed

end
