(* ===== verification/User_Grep_Files.thy ===== *)
theory User_Grep_Files
  imports User_Grep
begin

text \<open>
  The files and the directory under \<open>grep\<close>: the reads of one file (\<open>do_one_file\<close>), with the fragment of
  a line that each pass over the buffer keeps for the next read, and the loop of \<open>main\<close> over the names.
\<close>

subsection \<open>A file\<close>

text \<open>The bytes of a buffer after a read behind the first \<open>got\<close> of them.\<close>

lemma buffer_content:
  assumes "on_show s" and "user_bytes s data xs" and "length xs \<le> 1024" and "user_room data 1025"
    and "user_bytes s (data + 1024) [c]"
  shows "\<exists>ys. data_buffer s data ys \<and> take (length xs) ys = xs \<and> ys ! 1024 = c"
proof -
  obtain ys where ys: "length ys = 1025" "put_user data ys s = s" using array_content [OF assms(1,4)] by blast
  have b: "user_bytes s data ys" using put_user_bytes [of data ys s] ys assms(4) by simp
  have nth: "ys ! i = xs ! i" if "i < length xs" for i
    using user_bytes_uview [OF assms(1) b, of i] user_bytes_uview [OF assms(1,2) that] that assms(3) ys(1) by simp
  have "ys ! 1024 = c"
    using user_bytes_uview [OF assms(1) b, of 1024] user_bytes_uview [OF assms(1,5), of 0] ys(1) by simp
  moreover have "take (length xs) ys = xs" by (rule nth_equalityI) (use assms(3) ys(1) nth in simp_all)
  ultimately show ?thesis using b ys(1) by (auto simp: data_buffer_def)
qed

text \<open>Reading behind the fragment \<open>take got ys\<close>.\<close>

lemma read_more:
  assumes "on_show s" and "open_file s fdn bytes" and "data_buffer s data ys" and "got \<le> 1023"
    and "part = take (1024 - got) (drop (position s fdn) bytes)"
  shows "\<exists>t zs. ece391_read w (int fdn) (data + got) (1024 - int got) s = Some (int (length part), t) \<and>
     emits (array_at (current s) data 1025) [] s t \<and> open_file t fdn bytes \<and> position t fdn = position s fdn + length part \<and>
     data_buffer t data zs \<and> take (got + length part) zs = take got ys @ part \<and> zs ! 1024 = ys ! 1024 \<and>
     (\<forall>i < 8. i \<noteq> fdn \<longrightarrow> cur_fd t i = cur_fd s i)"
proof -
  note b = assms(3) [unfolded data_buffer_def]
  let ?B = "array_at (current s) (data + got) (1024 - got)" and ?A = "array_at (current s) data 1025"
  have room: "user_room data 1025" using user_bytes_room [of s data ys] b by simp
  have base: "OFF_128MB \<le> data" using room by (simp add: user_room_def)
  have roomg: "user_room (data + got) (1024 - got)" using room assms(4) by (simp add: user_room_def)
  obtain t where t: "ece391_read w (int fdn) (data + got) (int (1024 - got)) s = Some (int (length part), t)" "emits ?B [] s t"
    "open_file t fdn bytes" "user_bytes t (data + got) part" "position t fdn = position s fdn + length part"
    "\<forall>i < 8. i \<noteq> fdn \<longrightarrow> cur_fd t i = cur_fd s i"
    using read_file_call [OF assms(1,2) roomg order_refl assms(5), of w] by blast
  have n: "int (1024 - got) = 1024 - int got" using assms(4) by (simp add: of_nat_diff)
  have sub: "?B \<subseteq> ?A" by (rule array_sub [OF base]) (use assms(4) in simp)
  have split: "ys = take got ys @ drop got ys" "ys = take 1024 ys @ [ys ! 1024] @ []"
    using b id_take_nth_drop [of 1024 ys] by simp_all
  have lg: "length (take got ys) = got" "length (take 1024 ys) = 1024" using b assms(4) by simp_all
  have "user_bytes s data (take got ys)" using b user_bytes_append split(1) by metis
  moreover have "array_at (current s) data (length (take got ys)) \<inter> ?B = {}"
    by (rule arrays_apart [OF base]) (use base lg in simp_all)
  ultimately have f: "user_bytes t data (take got ys)" by (rule emits_bytes [OF t(2)])
  have "user_bytes s (data + length (take 1024 ys)) [ys ! 1024]"
    by (rule user_bytes_middle [where zs = "[]"]) (use b split(2) in simp)
  then have "user_bytes s (data + 1024) [ys ! 1024]" by (simp only: lg)
  moreover have "array_at (current s) (data + 1024) (length [ys ! 1024]) \<inter> ?B = {}"
    by (rule arrays_apart) (use base assms(4) in simp_all)
  ultimately have e: "user_bytes t (data + 1024) [ys ! 1024]" by (rule emits_bytes [OF t(2)])
  have "user_bytes t data (take got ys @ part)" by (rule bytes_appendI [OF f]) (use t(4) lg in simp)
  moreover have "length (take got ys @ part) \<le> 1024" using lg assms(4,5) by simp
  ultimately obtain zs where "data_buffer t data zs" "take (length (take got ys @ part)) zs = take got ys @ part" "zs ! 1024 = ys ! 1024"
    using buffer_content [OF emitsD(2) [OF t(2)] _ _ room e] by blast
  then show ?thesis using t emits_mono [OF t(2) sub] n lg by auto
qed

lemma long_line: "0x0A \<notin> set xs \<Longrightarrow> xs \<noteq> [] \<Longrightarrow> \<exists>l \<in> set (lines (xs @ ys)). length xs \<le> length l"
proof -
  assume xs: "0x0A \<notin> set xs" "xs \<noteq> []"
  have "takeWhile (\<lambda>c. c \<noteq> 0x0A) (xs @ ys) = xs @ takeWhile (\<lambda>c. c \<noteq> 0x0A) ys"
    by (rule takeWhile_append2) (use xs(1) in auto)
  then have "xs @ takeWhile (\<lambda>c. c \<noteq> 0x0A) ys \<in> set (lines (xs @ ys))"
    using xs(2) by (subst lines.simps) simp
  then show ?thesis by (intro bexI) simp_all
qed

lemma close_file_call:
  assumes "on_show s" and "open_file s fdn bytes"
  shows "\<exists>t. ece391_close w (int fdn) s = Some (0, t) \<and> emits A [] s t \<and> fd_flags (cur_fd t fdn) = FD_ABSENT \<and>
     (\<forall>i < 8. i \<noteq> fdn \<longrightarrow> cur_fd t i = cur_fd s i)"
proof -
  note o = assms(2) [unfolded open_file_def reading_def]
  let ?d = "(cur_fd s fdn)\<lparr>fd_flags := FD_ABSENT\<rparr>"
  have fdn: "2 \<le> fdn" "fdn < 8" using o by simp_all
  have "sys_close (int fdn) s = Some (0, put_fd fdn ?d s)"
    by (rule sys_close_file [OF on_show_running [OF assms(1)] fdn]) (use o in simp_all)
  then have "ece391_close w (int fdn) s = Some (0, put_fd fdn ?d s)"
    by (rule close_call [rotated 2]) (use fdn in \<open>simp_all add: fits_int_def\<close>)
  moreover have "emits A [] s (put_fd fdn ?d s)" by (rule put_fd_emits [OF assms(1) fdn(1)]) simp
  ultimately show ?thesis using put_fd(3,4) [OF on_show_running [OF assms(1)], of ?d] fdn(2) by auto
qed

lemma grep_reads_prints:
  assumes "length p < 2 ^ 32" and "0 \<notin> set bytes" and "BACKSPACE \<notin> set bytes"
    and "grepping w (array_at (current s) data 1025) pat p fname name s" and "open_file s fdn bytes"
    and "data_buffer s data ys" and "ys ! 1024 \<noteq> 0x0A" and "got \<le> 1023"
    and "0x0A \<notin> set (take got ys)" and "0 \<notin> set (take got ys)" and "BACKSPACE \<notin> set (take got ys)"
    and "\<forall>l \<in> set (lines (take got ys @ drop (position s fdn) bytes)). length l \<le> 1023"
  shows "\<exists>t. grep_reads w pat (word_of_nat (length p)) fname data (int fdn) got s = Some (0, t) \<and>
     emits (array_at (current s) data 1025) (grep_output p name (take got ys @ drop (position s fdn) bytes)) s t \<and>
     (\<exists>zs. data_buffer t data zs \<and> zs ! 1024 \<noteq> 0x0A) \<and>
     fd_flags (cur_fd t fdn) = FD_ABSENT \<and> (\<forall>i < 8. i \<noteq> fdn \<longrightarrow> cur_fd t i = cur_fd s i)"
  using assms(4-12)
proof (induction "length bytes - position s fdn" arbitrary: s ys got rule: less_induct)
  case less
  let ?A = "array_at (current s) data 1025" and ?f = "take got ys"
  define part where "part = take (1024 - got) (drop (position s fdn) bytes)"
  define R where "R = drop (1024 - got) (drop (position s fdn) bytes)"
  have shown_s: "on_show s" using less.prems(1) by (simp add: grepping_def)
  have fR: "?f @ drop (position s fdn) bytes = (?f @ part) @ R" by (simp add: part_def R_def del: drop_drop)
  obtain t zs where t: "ece391_read w (int fdn) (data + got) (1024 - int got) s = Some (int (length part), t)"
    "emits ?A [] s t" "open_file t fdn bytes" "position t fdn = position s fdn + length part"
    "data_buffer t data zs" "take (got + length part) zs = ?f @ part" "zs ! 1024 = ys ! 1024"
    "\<forall>i < 8. i \<noteq> fdn \<longrightarrow> cur_fd t i = cur_fd s i"
    using read_more [OF shown_s less.prems(2,3,5) part_def, of w] by blast
  have lf: "length ?f = got" using less.prems(3,5) by (simp add: data_buffer_def)
  have full: "length part = 1024 - got \<and> got + length part = 1024 \<and> part \<noteq> []" if "R \<noteq> []"
    using that less.prems(5) by (auto simp: part_def R_def)
  have clean: "0 \<notin> set (?f @ part)" "BACKSPACE \<notin> set (?f @ part)"
    using less.prems(7,8) assms(2,3) by (auto simp: part_def dest!: in_set_takeD in_set_dropD)
  have "0x0A \<in> set (?f @ part)" if R: "R \<noteq> []"
  proof (rule ccontr)
    assume "0x0A \<notin> set (?f @ part)"
    then obtain l where "l \<in> set (lines ((?f @ part) @ R))" "length (?f @ part) \<le> length l"
      using long_line [of "?f @ part" R] full [OF R] by auto
    moreover have "length (?f @ part) = 1024" using full [OF R] lf by simp
    moreover have "\<forall>l \<in> set (lines ((?f @ part) @ R)). length l \<le> 1023" using less.prems(9) by (simp only: fR)
    ultimately show False by fastforce
  qed
  then have R: "R = [] \<or> got + length part = 1024 \<and> int (length part) \<noteq> 0 \<and> (0 \<noteq> (0 :: nat) \<or> 0x0A \<in> set (?f @ part))"
    using full by auto
  have le: "got + length part \<le> 1024" using less.prems(5) by (auto simp: part_def)
  have gt: "grepping w (array_at (current t) data 1025) pat p fname name t"
    using grepping_emits [OF t(2) less.prems(1)] emitsD(4) [OF t(2)] by simp
  have ps: "pass 0 (got + length part) zs (?f @ part)"
    using t(5-7) less.prems(4) le clean by (simp add: pass_def data_buffer_def)
  obtain kept u us ls where u:
    "grep_lines w pat (word_of_nat (length p)) fname data (int (length part)) (got + length part) 0 t = Some (kept, u)"
    "emits (array_at (current t) data 1025) (concat (map (found p name) ls)) t u" "data_buffer u data us"
    "us ! 1024 \<noteq> 0x0A" "cur_fd u = cur_fd t" "kept \<le> 1023" "0x0A \<notin> set (take kept us)"
    "set (take kept us) \<subseteq> set (?f @ part)" "int (length part) = 0 \<longrightarrow> kept = 0" "lines ((?f @ part) @ R) = ls @ lines (take kept us @ R)"
    using grep_lines_prints [OF assms(1) gt t(5) ps R] by (elim exE conjE) (rule that)
  have eu: "emits ?A (concat (map (found p name) ls)) s u"
    using emits_trans [OF t(2)] u(2) emitsD(4) [OF t(2)] by fastforce
  have ofu: "open_file u fdn bytes" and pu: "position u fdn = position s fdn + length part"
    using emits_reading [OF u(2), of fdn bytes] t(3,4) u(5) by (simp_all add: open_file_def position_def)
  have at: "nat (int got + int (length part)) = got + length part" by simp
  show ?case
  proof (cases "part = []")
    case True
    then have "R = []" using full by auto
    moreover have "kept = 0" using u(9) True by simp
    ultimately have ls: "lines (?f @ drop (position s fdn) bytes) = ls" using u(10) by (simp only: fR) simp
    obtain v where v: "ece391_close w (int fdn) u = Some (0, v)" "emits {} [] u v" "fd_flags (cur_fd v fdn) = FD_ABSENT"
      "\<forall>i < 8. i \<noteq> fdn \<longrightarrow> cur_fd v i = cur_fd u i"
      using close_file_call [OF emitsD(2) [OF eu] ofu, of w "{}"] by blast
    have "grep_reads w pat (word_of_nat (length p)) fname data (int fdn) got s = Some (0, v)"
      using t(1) u(1) v(1) True by (subst grep_reads.simps) simp
    moreover have "emits ?A (grep_output p name (?f @ drop (position s fdn) bytes)) s v"
      using emits_trans [OF eu emits_mono [OF v(2) empty_subsetI]] by (simp add: grep_output_def ls)
    moreover have "data_buffer v data us" by (rule buffer_emits [OF v(2) u(3)])
    ultimately show ?thesis using v(3,4) u(4,5) t(8) by auto
  next
    case False
    have rest: "drop (position u fdn) bytes = R"
    proof (cases "R = []")
      case True
      then have "length bytes - position s fdn \<le> 1024 - got" by (simp add: R_def)
      then have "length part = length bytes - position s fdn" by (simp add: part_def)
      then show ?thesis using True pu by simp
    next
      case False
      then show ?thesis using full pu by (simp add: R_def add.commute)
    qed
    have "length bytes - position u fdn < length bytes - position s fdn"
      using False pu less.prems(5) by (auto simp: part_def)
    moreover have "grepping w (array_at (current u) data 1025) pat p fname name u"
      using grepping_emits [OF eu less.prems(1)] emitsD(4) [OF eu] by simp
    moreover have "0 \<notin> set (take kept us)" "BACKSPACE \<notin> set (take kept us)" using u(8) clean by auto
    moreover have "\<forall>l \<in> set (lines (take kept us @ drop (position u fdn) bytes)). length l \<le> 1023"
      using less.prems(9) u(10) by (auto simp: rest fR)
    ultimately obtain v where v: "grep_reads w pat (word_of_nat (length p)) fname data (int fdn) kept u = Some (0, v)"
      "emits (array_at (current u) data 1025) (grep_output p name (take kept us @ drop (position u fdn) bytes)) u v"
      "\<exists>zs. data_buffer v data zs \<and> zs ! 1024 \<noteq> 0x0A" "fd_flags (cur_fd v fdn) = FD_ABSENT" "\<forall>i < 8. i \<noteq> fdn \<longrightarrow> cur_fd v i = cur_fd u i"
      using less.hyps [of u us kept] ofu u(3,4,6,7) by blast
    have "emits ?A (grep_output p name (?f @ drop (position s fdn) bytes)) s v"
    proof -
      have out: "grep_output p name (?f @ drop (position s fdn) bytes) =
          concat (map (found p name) ls) @ grep_output p name (take kept us @ drop (position u fdn) bytes)"
        unfolding fR grep_output_def u(10) rest by simp
      have "emits ?A (grep_output p name (take kept us @ drop (position u fdn) bytes)) u v" using v(2) emitsD(4) [OF eu] by simp
      from emits_trans [OF eu this] show ?thesis by (simp only: out)
    qed
    moreover have "grep_reads w pat (word_of_nat (length p)) fname data (int fdn) got s = Some (0, v)"
      using t(1) u(1) v(1) False at by (subst grep_reads.simps) simp
    ultimately show ?thesis using v(3-5) u(5) t(8) by auto
  qed
qed

text \<open>A file whose lines fit the buffer.\<close>

definition greppable :: "u8 list \<Rightarrow> bool" where
  "greppable bytes \<longleftrightarrow> 0 \<notin> set bytes \<and> BACKSPACE \<notin> set bytes \<and> (\<forall>l \<in> set (lines bytes). length l \<le> 1023)"

definition buffer_ready :: "kst \<Rightarrow> nat \<Rightarrow> bool" where
  "buffer_ready s data \<longleftrightarrow> (\<exists>ys. data_buffer s data ys \<and> ys ! 1024 \<noteq> 0x0A)"

lemma buffer_ready_emits:
  assumes "emits A cs s t" and "buffer_ready s data" and "array_at (current s) data 1025 \<inter> A = {}"
  shows "buffer_ready t data"
  using assms(2,3) emits_bytes [OF assms(1)] unfolding buffer_ready_def data_buffer_def by metis

lemma do_one_file_prints:
  assumes "grepping w (array_at (current s) data 1025) pat p fname name s" and "length p < 2 ^ 32" and "frames_ok w"
    and "named_file s ds name cur bytes" and "greppable bytes" and "free_fd s = Some i" and "buffer_ready s data"
  shows "\<exists>t. do_one_file w pat fname data s = Some (0, t) \<and>
     emits (array_at (current s) data 1025) (grep_output p name bytes) s t \<and> buffer_ready t data \<and>
     fd_flags (cur_fd t i) = FD_ABSENT \<and> (\<forall>j < 8. j \<noteq> i \<longrightarrow> cur_fd t j = cur_fd s j)"
proof -
  let ?A = "array_at (current s) data 1025"
  have shown_s: "on_show s" and pat: "user_string s pat p" and nm: "user_string s fname name"
    using assms(1) by (simp_all add: grepping_def)
  have len: "ece391_strlen (ptr s pat) = Some (word_of_nat (length p))"
    by (rule ece391_strlen_cstr [OF user_string_cstr(1) [OF shown_s pat]])
  obtain t where t: "ece391_open w fname s = Some (int i, t)" "emits {} [] s t" "open_file t i bytes" "position t i = 0"
    "\<forall>j < 8. j \<noteq> i \<longrightarrow> cur_fd t j = cur_fd s j"
    using open_file_call [OF shown_s nm assms(3,4,6)] by blast
  have et: "emits ?A [] s t" by (rule emits_mono [OF t(2) empty_subsetI])
  obtain ys where ys: "data_buffer t data ys" "ys ! 1024 \<noteq> 0x0A"
    using buffer_ready_emits [OF t(2) assms(7)] by (auto simp: buffer_ready_def)
  have g: "grepping w (array_at (current t) data 1025) pat p fname name t"
    using grepping_emits [OF et assms(1)] emitsD(4) [OF et] by simp
  obtain u where u: "grep_reads w pat (word_of_nat (length p)) fname data (int i) 0 t = Some (0, u)"
    "emits (array_at (current t) data 1025) (grep_output p name bytes) t u" "buffer_ready u data"
    "fd_flags (cur_fd u i) = FD_ABSENT" "\<forall>j < 8. j \<noteq> i \<longrightarrow> cur_fd u j = cur_fd t j"
    using grep_reads_prints [OF assms(2) _ _ g t(3) ys, of 0] assms(5) t(4)
    by (auto simp: greppable_def buffer_ready_def)
  have "emits ?A (grep_output p name bytes) s u" using emits_trans [OF et] u(2) emitsD(4) [OF et] by fastforce
  then show ?thesis using len t(1,5) u(1,3-5) by (auto simp: do_one_file_def)
qed

subsection \<open>The directory\<close>

text \<open>What \<open>grep\<close> prints for the entries \<open>ds\<close>, whose files have the contents \<open>content\<close>: names that start
  with a period are left out.\<close>

definition searched :: "dentry \<Rightarrow> bool" where
  "searched d \<longleftrightarrow> hd (dentry_name d) \<noteq> 0x2E"

definition grep_all :: "u8 list \<Rightarrow> (dentry \<Rightarrow> u8 list) \<Rightarrow> dentry list \<Rightarrow> u8 list" where
  "grep_all p content ds = concat (map (\<lambda>d. grep_output p (dentry_name d) (content d)) (filter searched (named_entries ds)))"

lemma grep_all_Nil [simp]: "grep_all p content [] = []"
  by (simp add: grep_all_def named_entries_def)

lemma grep_all_Cons:
  "grep_all p content (d # ds) = (if dentry_name d = [] then []
     else (if searched d then grep_output p (dentry_name d) (content d) else []) @ grep_all p content ds)"
  by (simp add: grep_all_def named_entries_def)

definition grep_dir :: "kst \<Rightarrow> dentry list \<Rightarrow> (dentry \<Rightarrow> u8 list) \<Rightarrow> bool" where
  "grep_dir s ds content \<longleftrightarrow> lists_ok s ds \<and>
     (\<forall>d \<in> set (named_entries ds). searched d \<longrightarrow> named_file s ds (dentry_name d) d (content d) \<and> greppable (content d))"

lemma grep_dir_emits: "emits A cs s t \<Longrightarrow> grep_dir s ds content \<Longrightarrow> grep_dir t ds content"
  using emitsD(7,8) [of A cs s t] by (simp add: grep_dir_def lists_ok_def named_file_def)

lemma other_free:
  assumes "open_dir s fdn" and "\<forall>i \<in> {2..<8}. i \<noteq> fdn \<longrightarrow> fd_flags (cur_fd s i) = FD_ABSENT"
  shows "\<exists>i. free_fd s = Some i \<and> i \<noteq> fdn \<and> i < 8"
proof -
  have "free_fd s \<noteq> None"
    using assms(2) free_fdI [of 2 s] free_fdI [of 3 s] by (cases "fdn = 2") simp_all
  then obtain i where i: "free_fd s = Some i" by blast
  then show ?thesis using free_fdD [OF i] assms(1) by (auto simp: open_dir_def)
qed

text \<open>The arrays of the program: the pattern, the name and the buffer, apart from each other.\<close>

definition grep_arrays :: "nat \<Rightarrow> nat \<Rightarrow> nat \<Rightarrow> bool" where
  "grep_arrays search buf data \<longleftrightarrow> user_room search 1024 \<and> user_room buf 33 \<and> user_room data 1025 \<and>
     (search + 1024 \<le> buf \<or> buf + 33 \<le> search) \<and> (search + 1024 \<le> data \<or> data + 1025 \<le> search) \<and>
     (buf + 33 \<le> data \<or> data + 1025 \<le> buf)"

definition loop_arrays :: "nat \<Rightarrow> nat \<Rightarrow> nat \<Rightarrow> nat set" where
  "loop_arrays pid buf data = array_at pid buf 33 \<union> array_at pid data 1025"

lemma grep_arrays_apart:
  assumes "grep_arrays search buf data"
  shows "n \<le> 1024 \<Longrightarrow> array_at pid search n \<inter> loop_arrays pid buf data = {}"
    "n \<le> 33 \<Longrightarrow> array_at pid buf n \<inter> array_at pid data 1025 = {}"
    "array_at pid data 1025 \<inter> array_at pid buf 33 = {}"
  using assms by (auto simp: grep_arrays_def loop_arrays_def array_at_def user_frame_def user_room_def)

lemma grep_loop_prints:
  assumes "grep_arrays search buf data" and "frames_ok w" and "length p \<le> 128"
    and "on_show s" and "user_string s search p" and "literals w (loop_arrays (current s) buf data) ['':'', newline] s"
    and "open_dir s fdn" and "position s fdn \<le> length ds" and "buffer_ready s data"
    and "\<forall>i \<in> {2..<8}. i \<noteq> fdn \<longrightarrow> fd_flags (cur_fd s i) = FD_ABSENT" and "grep_dir s ds content"
    and "position s fdn \<le> length (named_entries ds)"
  shows "\<exists>t. grep_loop w search buf data (int fdn) s = Some (0, t) \<and>
     emits (loop_arrays (current s) buf data) (grep_all p content (drop (position s fdn) ds)) s t"
  using assms(4-12)
proof (induction "length ds - position s fdn" arbitrary: s)
  case 0
  let ?A = "loop_arrays (current s) buf data"
  have p: "position s fdn = length ds" using "0.hyps" "0.prems"(5) by simp
  have dir: "dir_ok (fs_image s) (fs s) ds" using "0.prems"(8) by (simp add: grep_dir_def lists_ok_def)
  have "user_room buf 33" using assms(1) by (simp add: grep_arrays_def)
  then show ?case
    using read_dir_end [OF "0.prems"(1,4) assms(2) dir p, of buf 32 ?A] p user_room_fits [of buf 33]
    by (subst grep_loop.simps) (auto simp: fits_int_def)
next
  case (Suc k)
  let ?A = "loop_arrays (current s) buf data"
  let ?p = "position s fdn" and ?d = "ds ! position s fdn" and ?nm = "dentry_name (ds ! position s fdn)"
  have p: "?p < length ds" and k: "k = length ds - Suc ?p" using Suc.hyps(2) by linarith+
  have dir: "dir_ok (fs_image s) (fs s) ds" and ty: "unat (file_type ?d) < 3" "BACKSPACE \<notin> set ?nm"
    using Suc.prems(8) p by (simp_all add: grep_dir_def lists_ok_def)
  have rooms: "user_room buf 33" "user_room data 1025" using assms(1) by (simp_all add: grep_arrays_def)
  have subs: "array_at (current s) buf 33 \<subseteq> ?A" "array_at (current s) data 1025 \<subseteq> ?A" by (simp_all add: loop_arrays_def)
  obtain t where t: "ece391_read w (int fdn) buf 32 s = Some (int (length ?nm), t)" "emits (array_at (current s) buf 33) [] s t"
    "open_dir t fdn" "position t fdn = Suc ?p" "user_bytes t buf (listed_name ?d)" "\<forall>i < 8. i \<noteq> fdn \<longrightarrow> cur_fd t i = cur_fd s i"
    using read_dir_call [OF Suc.prems(1,4) assms(2) dir p ty(1) rooms(1) order_refl, of 32] by (auto simp: fits_int_def)
  have split: "drop ?p ds = ?d # drop (Suc ?p) ds" using p by (simp add: Cons_nth_drop_Suc)
  show ?case
  proof (cases "?nm = []")
    case True
    then show ?thesis using t(1) emits_mono [OF t(2) subs(1)]
      by (subst grep_loop.simps) (simp add: split grep_all_Cons)
  next
    case False
    have pn: "?p < length (named_entries ds)"
    proof (rule ccontr)
      assume "\<not> ?thesis"
      then have "?p = length (named_entries ds)" using Suc.prems(9) by simp
      then show False using False p nth_length_takeWhile [of "\<lambda>d. dentry_name d \<noteq> []" ds] by (simp add: named_entries_def)
    qed
    then have mem: "?d \<in> set (named_entries ds)"
      using takeWhile_nth [of ?p "\<lambda>d. dentry_name d \<noteq> []" ds] nth_mem [OF pn] by (simp add: named_entries_def)
    have b: "user_bytes t buf ?nm" using t(5) user_bytes_append by (simp add: listed_name_def)
    have et: "emits ?A [] s t" by (rule emits_mono [OF t(2) subs(1)])
    have first: "uview t buf = Some (hd ?nm)"
      using user_bytes_uview [OF emitsD(2) [OF et] b, of 0] False by (simp add: hd_conv_nth)
    have free_t: "\<forall>i \<in> {2..<8}. i \<noteq> fdn \<longrightarrow> fd_flags (cur_fd t i) = FD_ABSENT" using t(6) Suc.prems(7) by simp
    have at: "nat (int buf + int (length ?nm)) = buf + length ?nm" by simp
    have goal: ?thesis if v: "emits ?A (if searched ?d then grep_output p ?nm (content ?d) else []) s v"
      and stay: "open_dir v fdn" "position v fdn = Suc ?p" "buffer_ready v data"
        "\<forall>i \<in> {2..<8}. i \<noteq> fdn \<longrightarrow> fd_flags (cur_fd v i) = FD_ABSENT"
      and run: "grep_loop w search buf data (int fdn) s = grep_loop w search buf data (int fdn) v" for v
    proof -
      have cur: "current v = current s" by (rule emitsD(4) [OF v])
      have "user_string v search p"
        by (rule emits_string [OF v Suc.prems(2)]) (rule grep_arrays_apart(1) [OF assms(1)], use assms(3) in simp)
      moreover have "literals w ?A ['':'', newline] v" by (rule literals_emits [OF v Suc.prems(3)])
      ultimately obtain x where x: "grep_loop w search buf data (int fdn) v = Some (0, x)"
        "emits ?A (grep_all p content (drop (Suc ?p) ds)) v x"
        using Suc.hyps(1) [of v] k emitsD(2) [OF v] stay grep_dir_emits [OF v Suc.prems(8)] p pn cur by auto
      have "emits ?A (grep_all p content (drop ?p ds)) s x"
        using emits_trans [OF v x(2)] False by (simp add: split grep_all_Cons)
      then show ?thesis using run x(1) by auto
    qed
    show ?thesis
    proof (cases "searched ?d")
      case skip: False
      then have "grep_loop w search buf data (int fdn) s = grep_loop w search buf data (int fdn) t"
        using t(1) first False by (subst grep_loop.simps) (simp add: searched_def)
      moreover have "buffer_ready t data"
        by (rule buffer_ready_emits [OF t(2) Suc.prems(6) grep_arrays_apart(3) [OF assms(1)]])
      ultimately show ?thesis using goal [of t] et t(3,4) free_t skip by simp
    next
      case True
      have cur_t: "current t = current s" by (rule emitsD(4) [OF et])
      have len: "length ?nm \<le> 32" by (rule length_dentry_name)
      have room: "user_room buf (Suc (length ?nm))" by (rule user_room_less [OF rooms(1)]) (use len in simp)
      have "array_at (current t) buf (Suc (length ?nm)) \<subseteq> array_at (current s) buf 33" using len cur_t by (auto simp: array_at_def)
      then obtain u where u: "user_store (buf + length ?nm) 0 t = Some u" "emits (array_at (current s) buf 33) [] t u"
        "user_bytes u buf (?nm @ [0])" "cur_fd u = cur_fd t"
        using store_next [OF emitsD(2) [OF et] b room] by blast
      note esu = emits_trans [OF t(2) u(2), simplified]
      have cur_u: "current u = current s" by (rule emitsD(4) [OF esu])
      have eu: "emits ?A [] s u" by (rule emits_mono [OF esu subs(1)])
      have ready: "buffer_ready u data"
        by (rule buffer_ready_emits [OF esu Suc.prems(6) grep_arrays_apart(3) [OF assms(1)]])
      have g: "grepping w (array_at (current u) data 1025) search p buf ?nm u"
      proof -
        have "user_string u search p"
          by (rule emits_string [OF eu Suc.prems(2)]) (rule grep_arrays_apart(1) [OF assms(1)], use assms(3) in simp)
        moreover have "user_string u buf ?nm" using u(3) dentry_name_nonzero [of ?d] by (simp add: user_string_def)
        moreover have "literals w (array_at (current u) data 1025) ['':'', newline] u"
          using literals_emits [OF eu Suc.prems(3)] subs(2) cur_u by (auto simp: literals_def)
        moreover have "array_at (current u) search (Suc (length p)) \<inter> array_at (current u) data 1025 = {}"
          using grep_arrays_apart(1) [OF assms(1), of "Suc (length p)" "current u"] assms(3) by (auto simp: loop_arrays_def)
        moreover have "array_at (current u) buf (Suc (length ?nm)) \<inter> array_at (current u) data 1025 = {}"
          by (rule grep_arrays_apart(2) [OF assms(1)]) (use len in simp)
        ultimately show ?thesis using emitsD(2) [OF eu] ty(2) by (simp add: grepping_def)
      qed
      obtain i where i: "free_fd u = Some i" "i \<noteq> fdn" "i < 8"
        using other_free [OF t(3) free_t] u(4) by (auto simp: free_fd_def)
      have f: "named_file u ds ?nm ?d (content ?d)" "greppable (content ?d)"
        using grep_dir_emits [OF eu Suc.prems(8)] mem True by (simp_all add: grep_dir_def)
      have p32: "length p < 2 ^ 32" using assms(3) by simp
      obtain v where v: "do_one_file w search buf data u = Some (0, v)"
        "emits (array_at (current u) data 1025) (grep_output p ?nm (content ?d)) u v" "buffer_ready v data"
        "fd_flags (cur_fd v i) = FD_ABSENT" "\<forall>j < 8. j \<noteq> i \<longrightarrow> cur_fd v j = cur_fd u j"
        using do_one_file_prints [OF g p32 assms(2) f i(1) ready] by blast
      have "emits ?A (grep_output p ?nm (content ?d)) u v" by (rule emits_mono [OF v(2)]) (use subs(2) cur_u in simp)
      from emits_trans [OF eu this] have ev: "emits ?A (grep_output p ?nm (content ?d)) s v" by simp
      have fdn: "fdn < 8" using t(3) by (simp add: open_dir_def)
      have same: "cur_fd v fdn = cur_fd t fdn" using v(5) i(2) fdn u(4) by simp
      have "open_dir v fdn" "position v fdn = Suc ?p" using t(3,4) same by (simp_all add: open_dir_def position_def)
      moreover have "\<forall>j \<in> {2..<8}. j \<noteq> fdn \<longrightarrow> fd_flags (cur_fd v j) = FD_ABSENT"
        using v(4,5) free_t u(4) by (metis atLeastLessThan_iff)
      moreover have "grep_loop w search buf data (int fdn) s = grep_loop w search buf data (int fdn) v"
        using t(1) first u(1) v(1) at False True by (subst grep_loop.simps) (simp add: searched_def)
      ultimately show ?thesis using goal [of v] ev v(3) True by simp
    qed
  qed
qed

subsection \<open>The program\<close>

text \<open>All the addresses it writes.\<close>

definition written :: "nat \<Rightarrow> nat \<Rightarrow> nat \<Rightarrow> nat \<Rightarrow> nat set" where
  "written pid search buf data = array_at pid search 1024 \<union> loop_arrays pid buf data"

definition grep_texts :: "string list" where
  "grep_texts = [''.'', '':'', newline]"

lemma grep_main_prints:
  assumes "on_show s" and "frames_ok w" and "has_argument s arg" and "arg \<noteq> []" and "grep_arrays search buf data"
    and "literals w (written (current s) search buf data) grep_texts s"
    and "find (\<lambda>d. dentry_name d = bytes_of ''.'') ds = Some cur" and "file_type cur = 1"
    and "\<forall>i \<in> {2..<8}. fd_flags (cur_fd s i) = FD_ABSENT" and "grep_dir s ds content" and "buffer_ready s data"
  shows "\<exists>t. grep_main w search buf data s = Some (0, t) \<and>
     emits (written (current s) search buf data) (grep_all (first_line 128 arg) content ds) s t"
proof -
  let ?A = "written (current s) search buf data" and ?p = "first_line 128 arg"
  have room: "user_room search 1024" using assms(5) by (simp add: grep_arrays_def)
  obtain t where t: "ece391_getargs w search 1024 s = Some (0, t)" "emits (array_at (current s) search 1024) [] s t"
    "user_string t search ?p" "cur_fd t = cur_fd s"
    using getargs_step [OF assms(1,3) refl room order_refl, of w] assms(4) by auto
  have et: "emits ?A [] s t" by (rule emits_mono [OF t(2)]) (simp add: written_def)
  have dir: "dir_ok (fs_image t) (fs t) ds"
    using grep_dir_emits [OF et assms(10)] by (simp add: grep_dir_def lists_ok_def)
  obtain i where i: "free_fd t = Some i" using free_fdI [of 2 t] assms(9) t(4) by auto
  have lits: "literals w ?A grep_texts t" by (rule literals_emits [OF et assms(6)])
  then have name: "user_string t (lit w ''.'') (bytes_of ''.'')" by (simp add: literals_def grep_texts_def)
  obtain u where u: "ece391_open w (lit w ''.'') t = Some (int i, u)" "emits {} [] t u" "open_dir u i" "position u i = 0"
    "\<forall>j < 8. j \<noteq> i \<longrightarrow> cur_fd u j = cur_fd t j"
    using open_dir_call [OF emitsD(2) [OF et] name assms(2) dir assms(7,8) i] by blast
  have eu: "emits ?A [] s u" using emits_trans [OF et emits_mono [OF u(2) empty_subsetI]] by simp
  have cur: "current u = current s" by (rule emitsD(4) [OF eu])
  have "buffer_ready t data"
    by (rule buffer_ready_emits [OF t(2) assms(11)])
      (use grep_arrays_apart(1) [OF assms(5), of 1024 "current s"] in \<open>auto simp: loop_arrays_def\<close>)
  then have ready: "buffer_ready u data" by (rule buffer_ready_emits [OF u(2)]) simp
  have p: "user_string u search ?p" by (rule emits_string [OF u(2) t(3)]) simp
  have len: "length ?p \<le> 128"
    using length_takeWhile_le [of "\<lambda>c. c \<noteq> 0x0A" "take 128 arg"] by (simp add: first_line_def)
  have "literals w ?A grep_texts u" by (rule literals_emits [OF eu assms(6)])
  then have l: "literals w (loop_arrays (current u) buf data) ['':'', newline] u"
    using cur by (auto simp: literals_def grep_texts_def written_def)
  have free: "\<forall>j \<in> {2..<8}. j \<noteq> i \<longrightarrow> fd_flags (cur_fd u j) = FD_ABSENT" using assms(9) u(5) t(4) by simp
  obtain v where v: "grep_loop w search buf data (int i) u = Some (0, v)"
    "emits (loop_arrays (current u) buf data) (grep_all ?p content ds) u v"
    using grep_loop_prints [OF assms(5,2) len emitsD(2) [OF eu] p l u(3) _ ready free grep_dir_emits [OF eu assms(10)]] u(4)
    by auto
  have "emits ?A (grep_all ?p content ds) u v" by (rule emits_mono [OF v(2)]) (use cur in \<open>simp add: written_def\<close>)
  from emits_trans [OF eu this] show ?thesis using t(1) u(1) v(1) by (simp add: grep_main_def)
qed

subsection \<open>Properties\<close>

text \<open>C18. \<open>grep\<close>: started as the child of another process on the terminal on display, the program searches
  the files of the directory whose names do not start with a period, in order. For every file it prints
  the lines that contain the first line of its argument, each behind the name of the file and a colon,
  and it ends with status 0. Lines have at most 1023 characters and go over the borders of the reads;
  the last one need not end with a newline. (The byte behind the buffer of 1024 bytes must not be a
  newline: the code looks at it before it has stored anything there.)\<close>

theorem grep_finds_lines:
  assumes "child s" and "frames_ok w" and "has_argument s arg" and "arg \<noteq> []" and "grep_arrays search buf data"
    and "literals w (written (current s) search buf data) grep_texts s"
    and "find (\<lambda>d. dentry_name d = bytes_of ''.'') ds = Some cur" and "file_type cur = 1"
    and "\<forall>i \<in> {2..<8}. fd_flags (cur_fd s i) = FD_ABSENT" and "grep_dir s ds content" and "buffer_ready s data"
  shows "leaves (written (current s) search buf data) 0 (grep_all (first_line 128 arg) content ds) s
    (user_start w (grep_main w search buf data) s)"
  using grep_main_prints [OF child_on_show [OF assms(1)] assms(2-11)] program_ends [OF assms(1)] by fastforce

lemma sample_grep:
  defines "s \<equiv> put_user 0x8048C00 [0] (sample_program (bytes_of ''ell'') grep_texts)"
  shows "child s" "current s = 3" "has_argument s (bytes_of ''ell'')"
    "literals (sample_world grep_texts) (written 3 0x8048000 0x8048400 0x8048800) grep_texts s"
    "\<forall>i \<in> {2..<8}. fd_flags (cur_fd s i) = FD_ABSENT" "grep_dir s sample_dir (\<lambda>_. bytes_of ''Hello'')" "buffer_ready s 0x8048800"
proof -
  let ?p = "sample_program (bytes_of ''ell'') grep_texts" and ?A = "written 3 0x8048000 0x8048400 0x8048800"
  have len: "length (bytes_of ''ell'') < 128" "length (literal_image grep_texts) \<le> 0x10000"
    by (simp_all add: literal_image_def grep_texts_def)
  note p = sample_program [OF len]
  have room: "user_room 0x8048C00 (length [0 :: u8])" by (simp add: user_room_def)
  have "array_at 3 0x8048C00 1 \<subseteq> ?A" by (auto simp: written_def loop_arrays_def array_at_def user_frame_def)
  then have e: "emits ?A [] ?p s"
    unfolding s_def by (intro put_user_emits [OF child_on_show [OF p(1)] room]) (simp add: p(2))
  show cur: "current s = 3" using emitsD(4) [OF e] p(2) by simp
  show "child s" using p(1) emitsD(2) [OF e] by (simp add: child_def s_def)
  show "has_argument s (bytes_of ''ell'')"
    using sample_program_argument [OF len(1), of grep_texts] by (simp add: has_argument_def s_def bytes_of_def)
  have "literals (sample_world grep_texts) ?A grep_texts ?p"
    by (rule sample_literals [OF len]) (auto simp: written_def loop_arrays_def array_at_def user_frame_def grep_texts_def bytes_of_def)
  then show "literals (sample_world grep_texts) ?A grep_texts s" by (rule literals_emits [OF e])
  show "\<forall>i \<in> {2..<8}. fd_flags (cur_fd s i) = FD_ABSENT"
    using sample_child(8) [OF len(1)] p(2,10) by (auto simp: s_def cur_fd_def booted_pb_def nth_append blank_fd_def)
  have fs: "fs s = fs reading_kernel" "fs_image s = fs_image reading_kernel" using emitsD(7,8) [OF e] p(4,5) by simp_all
  have "named_file s sample_dir (bytes_of ''hi'') (sample_dir ! 1) (bytes_of ''Hello'')" by (rule sample_hi [OF fs])
  moreover have "lists_ok s sample_dir"
    unfolding lists_ok_def fs using reading_kernel_dir by (simp add: sample_dir_def dentry_name_def)
  moreover have "greppable (bytes_of ''Hello'')"
    by (simp add: greppable_def bytes_of_def lines_fragment)
  ultimately show "grep_dir s sample_dir (\<lambda>_. bytes_of ''Hello'')"
    by (simp add: grep_dir_def searched_def sample_dir_def dentry_name_def bytes_of_def named_entries_def)
  have "user_bytes s (0x8048800 + 1024) [0]" using put_user_bytes [OF room, of ?p] by (simp add: s_def)
  moreover have "user_bytes s 0x8048800 []" by (simp add: user_bytes_def)
  ultimately show "buffer_ready s 0x8048800"
    using buffer_content [OF emitsD(2) [OF e], where data = "0x8048800" and xs = "[]" and c = 0] by (auto simp: buffer_ready_def user_room_def)
qed

theorem grep_finds_lines_witness:
  "let s = put_user 0x8048C00 [0] (sample_program (bytes_of ''ell'') grep_texts)
   in leaves (written (current s) 0x8048000 0x8048400 0x8048800) 0 (bytes_of (''hi:Hello'' @ newline)) s
     (user_start (sample_world grep_texts) (grep_main (sample_world grep_texts) 0x8048000 0x8048400 0x8048800) s)"
proof -
  let ?s = "put_user 0x8048C00 [0] (sample_program (bytes_of ''ell'') grep_texts)"
  note s = sample_grep
  have out: "grep_all (first_line 128 (bytes_of ''ell'')) (\<lambda>_. bytes_of ''Hello'') sample_dir = bytes_of (''hi:Hello'' @ newline)"
    by (simp add: grep_all_def named_entries_def searched_def sample_dir_def dentry_name_def first_line_def bytes_of_def
        grep_output_fragment found_def sublist_code)
  have "leaves (written (current ?s) 0x8048000 0x8048400 0x8048800) 0
    (grep_all (first_line 128 (bytes_of ''ell'')) (\<lambda>_. bytes_of ''Hello'') sample_dir) ?s
    (user_start (sample_world grep_texts) (grep_main (sample_world grep_texts) 0x8048000 0x8048400 0x8048800) ?s)"
  proof (rule grep_finds_lines [OF s(1) sample_world_frames s(3) _ _ _ _ _ s(5-7)])
    show "literals (sample_world grep_texts) (written (current ?s) 0x8048000 0x8048400 0x8048800) grep_texts ?s"
      unfolding s(2) by (rule s(4))
    show "find (\<lambda>d. dentry_name d = bytes_of ''.'') sample_dir = Some (sample_dir ! 0)"
      by (simp add: sample_dir_def dentry_name_def bytes_of_def)
  qed (simp_all add: grep_arrays_def user_room_def sample_dir_def bytes_of_def)
  then show ?thesis by (simp add: Let_def out)
qed

end
