(* ===== verification/Blink.thy ===== *)
theory Blink
  imports User_Output
begin

text \<open>
  The blinking characters of the program \<open>fish\<close>: the driver in \<^verbatim>\<open>fish/blink.S\<close> and the memory
  routines of \<^verbatim>\<open>fish/fish.c\<close> under it. The blinkers are structures in the array \<open>blink_array\<close>, linked
  by pointers from \<open>mp1_list_head\<close>; a pointer is the index of a structure, or \<open>None\<close> for NULL. The
  specification is a list of blinkers and what they show on the screen.
\<close>

subsection \<open>The data\<close>

text \<open>\<open>struct mp1_blink_struct\<close>\<close>

record blinker =
  location :: u16
  on_char :: u8
  off_char :: u8
  on_length :: u16
  off_length :: u16
  countdown :: u16
  status :: u16
  next_blink :: "nat option"

text \<open>
  The variables of the program, the address of \<open>vmem_base_addr\<close>, which the kernel has written, and the
  machine it runs on.
\<close>

record fish =
  blink_array :: "blinker list"
  mp1_list_head :: "nat option"
  vmem_base_addr :: nat
  machine :: kst

definition get_blink :: "nat \<Rightarrow> fish \<Rightarrow> blinker option" where
  "get_blink i s = arr_get (blink_array s) (int i)"

definition upd_blink :: "nat \<Rightarrow> (blinker \<Rightarrow> blinker) \<Rightarrow> fish \<Rightarrow> fish option" where
  "upd_blink i f s =
     do { b \<leftarrow> get_blink i s;
          bs \<leftarrow> arr_set (blink_array s) (int i) (f b);
          Some (s\<lparr>blink_array := bs\<rparr>) }"

subsection \<open>The routines of fish.c\<close>

text \<open>A structure of zeros, as \<open>ece391_memset\<close> leaves it.\<close>

definition blank_blinker :: blinker where
  "blank_blinker = \<lparr>location = 0, on_char = 0, off_char = 0, on_length = 0, off_length = 0, countdown = 0,
     status = 0, next_blink = None\<rparr>"

text \<open>The first structure with location 0.\<close>

definition mp1_malloc :: "fish \<Rightarrow> nat option option" where
  "mp1_malloc s =
     (if length (blink_array s) = 80 * 25
      then Some (find (\<lambda>i. location (blink_array s ! i) = 0) [0..<80 * 25]) else None)"

definition mp1_free :: "nat \<Rightarrow> fish \<Rightarrow> fish option" where
  "mp1_free i s = upd_blink i (\<lambda>_. blank_blinker) s"

subsection \<open>The driver\<close>

definition mp1_poke :: "nat \<Rightarrow> u8 \<Rightarrow> fish \<Rightarrow> fish option" where
  "mp1_poke eax cl s =
     do { edx \<leftarrow> rd32 (uview (machine s)) (vmem_base_addr s);
          k \<leftarrow> user_store (unat (edx + word_of_nat eax)) cl (machine s);
          Some (s\<lparr>machine := k\<rparr>) }"

text \<open>
  The tasklet, once around the loop: the countdown runs as a signed word (\<open>jg\<close>), and a blinker whose time
  is up changes its character.
\<close>

definition blink_once :: "nat \<Rightarrow> fish \<Rightarrow> fish option" where
  "blink_once ebx s =
     do { s \<leftarrow> upd_blink ebx (\<lambda>b. b\<lparr>countdown := countdown b - 1\<rparr>) s;
          b \<leftarrow> get_blink ebx s;
          if 0 <s countdown b then Some s
          else
            do { let eax = 2 * unat (location b);
                 (s, dx) \<leftarrow> (if status b AND 1 \<noteq> 0
                             then do { s \<leftarrow> mp1_poke eax (off_char b) s; Some (s, off_length b) }
                             else do { s \<leftarrow> mp1_poke eax (on_char b) s; Some (s, on_length b) });
                 s \<leftarrow> upd_blink ebx (\<lambda>b. b\<lparr>countdown := dx\<rparr>) s;
                 upd_blink ebx (\<lambda>b. b\<lparr>status := status b XOR 1\<rparr>) s } }"

partial_function (option) tasklet_loop :: "nat option \<Rightarrow> fish \<Rightarrow> fish option" where
  "tasklet_loop ebx s =
     (case ebx of None \<Rightarrow> Some s
      | Some i \<Rightarrow> do { s \<leftarrow> blink_once i s; b \<leftarrow> get_blink i s; tasklet_loop (next_blink b) s })"

definition mp1_rtc_tasklet :: "fish \<Rightarrow> fish option" where
  "mp1_rtc_tasklet s = tasklet_loop (mp1_list_head s) s"

text \<open>\<open>mp1_find_helper\<close>: the first structure of the list at a location.\<close>

partial_function (option) find_loop :: "u16 \<Rightarrow> nat option \<Rightarrow> fish \<Rightarrow> nat option option" where
  "find_loop ax ebx s =
     (case ebx of None \<Rightarrow> Some None
      | Some i \<Rightarrow> do { b \<leftarrow> get_blink i s;
                       if location b = ax then Some (Some i) else find_loop ax (next_blink b) s })"

definition mp1_find_helper :: "u16 \<Rightarrow> fish \<Rightarrow> nat option option" where
  "mp1_find_helper ax s = find_loop ax (mp1_list_head s) s"

text \<open>
  \<open>mp1_ioctl_add\<close>: the argument points to the structure \<open>b\<close> of the caller, of which the routine makes a
  copy on its stack and from there one in the array (\<open>ece391_memcpy\<close> returns 0).
\<close>

definition mp1_ioctl_add :: "blinker \<Rightarrow> fish \<Rightarrow> (int \<times> fish) option" where
  "mp1_ioctl_add b s =
     (if location b \<ge> 80 * 25 then Some (-1, s)
      else
        do { let b = b\<lparr>status := 1\<rparr>;
             let b = b\<lparr>countdown := on_length b\<rparr>;
             p \<leftarrow> mp1_malloc s;
             case p of None \<Rightarrow> Some (-1, s)
             | Some edx \<Rightarrow>
                 do { s \<leftarrow> upd_blink edx (\<lambda>_. b) s;
                      s \<leftarrow> upd_blink edx (\<lambda>b. b\<lparr>next_blink := mp1_list_head s\<rparr>) s;
                      let s = s\<lparr>mp1_list_head := Some edx\<rparr>;
                      b \<leftarrow> get_blink edx s;
                      s \<leftarrow> mp1_poke (2 * unat (location b)) (on_char b) s;
                      Some (0, s) } })"

text \<open>
  \<open>mp1_ioctl_remove\<close>: \<open>edx\<close> runs over the pointers of the list, first \<open>mp1_list_head\<close> and then the \<open>next\<close>
  members, until it is at the one to the structure found.
\<close>

datatype link = Head | Next_of nat

fun load_link :: "link \<Rightarrow> fish \<Rightarrow> nat option option" where
  "load_link Head s = Some (mp1_list_head s)"
| "load_link (Next_of i) s = map_option next_blink (get_blink i s)"

fun store_link :: "link \<Rightarrow> nat option \<Rightarrow> fish \<Rightarrow> fish option" where
  "store_link Head p s = Some (s\<lparr>mp1_list_head := p\<rparr>)"
| "store_link (Next_of i) p s = upd_blink i (\<lambda>b. b\<lparr>next_blink := p\<rparr>) s"

partial_function (option) remove_find_prev :: "nat \<Rightarrow> link \<Rightarrow> fish \<Rightarrow> link option" where
  "remove_find_prev eax edx s =
     do { p \<leftarrow> load_link edx s;
          if p = Some eax then Some edx
          else case p of None \<Rightarrow> None | Some i \<Rightarrow> remove_find_prev eax (Next_of i) s }"

definition mp1_ioctl_remove :: "u32 \<Rightarrow> fish \<Rightarrow> (int \<times> fish) option" where
  "mp1_ioctl_remove arg s =
     do { p \<leftarrow> mp1_find_helper (ucast arg) s;
          case p of None \<Rightarrow> Some (-1, s)
          | Some eax \<Rightarrow>
              do { edx \<leftarrow> remove_find_prev eax Head s;
                   b \<leftarrow> get_blink eax s;
                   s \<leftarrow> store_link edx (next_blink b) s;
                   s \<leftarrow> mp1_free eax s;
                   Some (0, s) } }"

text \<open>
  \<open>mp1_ioctl_sync\<close>. The two characters are chosen by \<open>cmovl\<close>, "move if less" (the sign flag differs from
  the overflow flag), after a \<open>testb\<close> of the status with 1, which clears the overflow flag.
\<close>

definition mp1_ioctl_sync :: "u32 \<Rightarrow> fish \<Rightarrow> (int \<times> fish) option" where
  "mp1_ioctl_sync arg s =
     do { p \<leftarrow> mp1_find_helper (ucast (drop_bit 16 arg)) s;
          case p of None \<Rightarrow> Some (-1, s)
          | Some esi \<Rightarrow>
              do { q \<leftarrow> mp1_find_helper (ucast (arg AND 0xFFFF)) s;
                   case q of None \<Rightarrow> Some (-1, s)
                   | Some edi \<Rightarrow>
                       do { a \<leftarrow> get_blink esi s;
                            s \<leftarrow> upd_blink edi (\<lambda>b. b\<lparr>on_length := on_length a\<rparr>) s;
                            a \<leftarrow> get_blink esi s;
                            s \<leftarrow> upd_blink edi (\<lambda>b. b\<lparr>off_length := off_length a\<rparr>) s;
                            a \<leftarrow> get_blink esi s;
                            s \<leftarrow> upd_blink edi (\<lambda>b. b\<lparr>countdown := countdown a\<rparr>) s;
                            a \<leftarrow> get_blink esi s;
                            s \<leftarrow> upd_blink edi (\<lambda>b. b\<lparr>status := status a\<rparr>) s;
                            b \<leftarrow> get_blink edi s;
                            let sign_flag = bit (ucast (status b) AND (1 :: u8)) 7;
                            let overflow_flag = False;
                            let ecx = (if sign_flag \<noteq> overflow_flag then on_char b else off_char b);
                            s \<leftarrow> mp1_poke (2 * unat (location b)) ecx s;
                            Some (0, s) } } }"

text \<open>\<open>mp1_ioctl_find\<close>: the location is that of the caller's structure \<open>b\<close>, which becomes a copy of the one found.\<close>

definition mp1_ioctl_find :: "blinker \<Rightarrow> fish \<Rightarrow> (int \<times> blinker) option" where
  "mp1_ioctl_find b s =
     do { p \<leftarrow> mp1_find_helper (location b) s;
          case p of None \<Rightarrow> Some (-1, b)
          | Some eax \<Rightarrow> do { c \<leftarrow> get_blink eax s; Some (0, c) } }"

text \<open>
  \<open>mp1_ioctl\<close> jumps through the table of the four routines, whatever the number: a number from 4 on has no
  outcome. The argument is a pointer to a structure, here its contents, or a number.
\<close>

datatype ioctl_arg = Struct blinker | Number u32

definition mp1_ioctl :: "ioctl_arg \<Rightarrow> nat \<Rightarrow> fish \<Rightarrow> (int \<times> ioctl_arg \<times> fish) option" where
  "mp1_ioctl arg cmd s =
     (case (cmd, arg) of
        (0, Struct b) \<Rightarrow> do { (r, s) \<leftarrow> mp1_ioctl_add b s; Some (r, arg, s) }
      | (Suc 0, Number n) \<Rightarrow> do { (r, s) \<leftarrow> mp1_ioctl_remove n s; Some (r, arg, s) }
      | (Suc (Suc 0), Struct b) \<Rightarrow> do { (r, c) \<leftarrow> mp1_ioctl_find b s; Some (r, Struct c, s) }
      | (Suc (Suc (Suc 0)), Number n) \<Rightarrow> do { (r, s) \<leftarrow> mp1_ioctl_sync n s; Some (r, arg, s) }
      | _ \<Rightarrow> None)"

subsection \<open>The specification\<close>

text \<open>What one tick makes of a blinker, and the cells it changes: pairs of an offset and a character.\<close>

definition tick :: "blinker \<Rightarrow> blinker" where
  "tick b = (let b' = b\<lparr>countdown := countdown b - 1\<rparr> in
     if 0 <s countdown b' then b'
     else b'\<lparr>countdown := (if status b AND 1 \<noteq> 0 then off_length b else on_length b), status := status b XOR 1\<rparr>)"

definition change :: "blinker \<Rightarrow> (nat \<times> u8) list" where
  "change b = (if 0 <s countdown b - 1 then []
     else [(2 * unat (location b), if status b AND 1 \<noteq> 0 then off_char b else on_char b)])"

fun draw :: "nat \<Rightarrow> (nat \<times> u8) list \<Rightarrow> mem \<Rightarrow> mem" where
  "draw f [] m = m"
| "draw f ((off, c) # cs) m = draw f cs (m(f + off := c))"

definition started :: "blinker \<Rightarrow> blinker" where
  "started b = b\<lparr>status := 1, countdown := on_length b, next_blink := None\<rparr>"

fun drop_first :: "u16 \<Rightarrow> blinker list \<Rightarrow> blinker list" where
  "drop_first l [] = []"
| "drop_first l (b # bs) = (if location b = l then bs else b # drop_first l bs)"

definition at_location :: "u16 \<Rightarrow> blinker list \<Rightarrow> blinker option" where
  "at_location l bs = find (\<lambda>b. location b = l) bs"

text \<open>The timing of \<open>a\<close> for a blinker, and for the first one at a location.\<close>

definition timed :: "blinker \<Rightarrow> blinker \<Rightarrow> blinker" where
  "timed a b = b\<lparr>on_length := on_length a, off_length := off_length a, countdown := countdown a, status := status a\<rparr>"

fun set_timing :: "blinker \<Rightarrow> u16 \<Rightarrow> blinker list \<Rightarrow> blinker list" where
  "set_timing a l [] = []"
| "set_timing a l (b # bs) =
     (if location b = l then timed a b # bs else b # set_timing a l bs)"

datatype op = Add blinker | Remove u32 | Find blinker | Sync u32 | Tick

text \<open>The answer, the blinkers and the drawings of an operation.\<close>

fun spec :: "op \<Rightarrow> blinker list \<Rightarrow> int \<times> blinker list \<times> (nat \<times> u8) list" where
  "spec (Add b) bs =
     (if location b < 2000 \<and> length bs < 2000 then (0, started b # bs, [(2 * unat (location b), on_char b)]) else (-1, bs, []))"
| "spec (Remove n) bs =
     (if at_location (ucast n) bs = None then (-1, bs, []) else (0, drop_first (ucast n) bs, []))"
| "spec (Find b) bs = (if at_location (location b) bs = None then -1 else 0, bs, [])"
| "spec (Sync n) bs =
     (case (at_location (ucast (drop_bit 16 n)) bs, at_location (ucast n) bs) of
        (Some a, Some b) \<Rightarrow> (0, set_timing a (ucast n) bs, [(2 * unat (location b), off_char b)])
      | _ \<Rightarrow> (-1, bs, []))"
| "spec Tick bs = (0, map tick bs, concat (map change bs))"

text \<open>The operations of the program.\<close>

fun perform :: "op \<Rightarrow> fish \<Rightarrow> (int \<times> fish) option" where
  "perform (Add b) s = do { (r, _, s) \<leftarrow> mp1_ioctl (Struct b) 0 s; Some (r, s) }"
| "perform (Remove n) s = do { (r, _, s) \<leftarrow> mp1_ioctl (Number n) 1 s; Some (r, s) }"
| "perform (Find b) s = do { (r, _, s) \<leftarrow> mp1_ioctl (Struct b) 2 s; Some (r, s) }"
| "perform (Sync n) s = do { (r, _, s) \<leftarrow> mp1_ioctl (Number n) 3 s; Some (r, s) }"
| "perform Tick s = do { s \<leftarrow> mp1_rtc_tasklet s; Some (0, s) }"

subsection \<open>The list of structures\<close>

fun chain :: "blinker list \<Rightarrow> nat option \<Rightarrow> nat list \<Rightarrow> bool" where
  "chain bs p [] \<longleftrightarrow> p = None"
| "chain bs p (i # is) \<longleftrightarrow> p = Some i \<and> i < length bs \<and> chain bs (next_blink (bs ! i)) is"

definition unlinked :: "blinker \<Rightarrow> blinker" where
  "unlinked b = b\<lparr>next_blink := None\<rparr>"

text \<open>The structures in the list are those with a location other than 0.\<close>

definition linked :: "fish \<Rightarrow> nat list \<Rightarrow> bool" where
  "linked s is \<longleftrightarrow> length (blink_array s) = 2000 \<and> chain (blink_array s) (mp1_list_head s) is \<and> distinct is \<and>
     (\<forall>i < 2000. i \<in> set is \<longleftrightarrow> location (blink_array s ! i) \<noteq> 0) \<and>
     (\<forall>i \<in> set is. location (blink_array s ! i) < 2000)"

text \<open>The program sees the screen: the video page is mapped, and \<open>vmem_base_addr\<close> holds its address.\<close>

definition mapped :: "nat \<Rightarrow> fish \<Rightarrow> bool" where
  "mapped f s \<longleftrightarrow> on_show (machine s) \<and> vid_page f (pg (machine s)) \<and>
     user_bytes (machine s) (vmem_base_addr s) (le_bytes VIDM_ADDR)"

definition holds :: "nat \<Rightarrow> fish \<Rightarrow> blinker list \<Rightarrow> bool" where
  "holds f s bs \<longleftrightarrow> mapped f s \<and> (\<exists>is. linked s is \<and> bs = map (\<lambda>i. unlinked (blink_array s ! i)) is)"

lemma chain_bound: "chain bs p is \<Longrightarrow> \<forall>i \<in> set is. i < length bs"
  by (induction "is" arbitrary: p) auto

lemma chain_update:
  "i \<notin> set is \<Longrightarrow> chain (bs[i := b]) p is = chain bs p is"
  by (induction "is" arbitrary: p) auto

lemma chain_same_links:
  assumes "length cs = length bs" and "\<And>i. i \<in> set is \<Longrightarrow> next_blink (cs ! i) = next_blink (bs ! i)"
  shows "chain cs p is = chain bs p is"
  using assms(2) by (induction "is" arbitrary: p) (auto simp: assms(1))

subsection \<open>Drawing\<close>

lemma draw_append: "draw f (cs @ ds) m = draw f ds (draw f cs m)"
  by (induction cs arbitrary: m) (simp_all only: draw.simps append.simps split_paired_all)

definition drawn :: "nat \<Rightarrow> (nat \<times> u8) list \<Rightarrow> fish \<Rightarrow> fish" where
  "drawn f cs s = s\<lparr>machine := (machine s)\<lparr>mem := draw f cs (mem (machine s))\<rparr>\<rparr>"

text \<open>Nothing of the machine has changed but the drawn cells.\<close>

definition draws :: "nat \<Rightarrow> (nat \<times> u8) list \<Rightarrow> fish \<Rightarrow> fish \<Rightarrow> bool" where
  "draws f cs s t \<longleftrightarrow> machine t = (machine s)\<lparr>mem := draw f cs (mem (machine s))\<rparr> \<and> vmem_base_addr t = vmem_base_addr s"

lemma draws_refl: "draws f [] s s"
  by (simp add: draws_def)

lemma draws_trans: "draws f cs s t \<Longrightarrow> draws f ds t u \<Longrightarrow> draws f (cs @ ds) s u"
  by (simp add: draws_def draw_append)

lemma draws_mem: "draws f cs s t \<Longrightarrow> mem (machine t) = draw f cs (mem (machine s))"
  by (simp add: draws_def)

lemma drawn_simps [simp]:
  "drawn f [] s = s" "drawn f ds (drawn f cs s) = drawn f (cs @ ds) s"
  "blink_array (drawn f cs s) = blink_array s" "mp1_list_head (drawn f cs s) = mp1_list_head s"
  "vmem_base_addr (drawn f cs s) = vmem_base_addr s" "machine (drawn f cs s) = (machine s)\<lparr>mem := draw f cs (mem (machine s))\<rparr>"
  "drawn f cs (s\<lparr>blink_array := bs\<rparr>) = (drawn f cs s)\<lparr>blink_array := bs\<rparr>"
  by (simp_all add: drawn_def draw_append)

lemma draw_high: "0x800000 \<le> a \<Longrightarrow> \<forall>(off, c) \<in> set cs. off < 0x1000 \<Longrightarrow> f < 0xC0000 \<Longrightarrow> draw f cs m a = m a"
  by (induction f cs m rule: draw.induct) auto

lemma mapped_drawn:
  assumes "mapped f s" and "\<forall>(off, c) \<in> set cs. off < 0x1000"
  shows "mapped f (drawn f cs s)"
proof -
  let ?k = "machine s"
  have "f < 0xC0000" using assms(1) by (auto simp: mapped_def vid_page_def)
  then have "user_bytes (?k\<lparr>mem := draw f cs (mem ?k)\<rparr>) (vmem_base_addr s) (le_bytes VIDM_ADDR)"
    using assms draw_high [of "user_frame (current ?k) (vmem_base_addr s) + i" cs f "mem ?k" for i]
    by (auto simp: mapped_def user_bytes_def user_frame_def current_def)
  then show ?thesis using assms(1) by (simp add: mapped_def on_show_def)
qed

lemma mapped_array [simp]: "mapped f (s\<lparr>blink_array := bs\<rparr>) = mapped f s" "mapped f (s\<lparr>mp1_list_head := p\<rparr>) = mapped f s"
  by (simp_all add: mapped_def)

lemma poke_draws:
  assumes "mapped f s" and "off < 0x1000"
  shows "mp1_poke off c s = Some (drawn f [(off, c)] s)"
proof -
  let ?k = "machine s"
  note m = assms(1) [unfolded mapped_def]
  have v: "uview ?k (vmem_base_addr s + i) = Some (le_bytes VIDM_ADDR ! i)" if "i < 4" for i
    using user_bytes_uview [of ?k "vmem_base_addr s" "le_bytes VIDM_ADDR" i] m that by (simp add: length_le_bytes)
  have "rd32 (uview ?k) (vmem_base_addr s) = Some VIDM_ADDR"
    using v [of 0] v [of 1] v [of 2] v [of 3] by (simp add: rd32_def le32_le_bytes del: One_nat_def)
  moreover have "unat (VIDM_ADDR + word_of_nat off) = 0x8800000 + off"
    using assms(2) by (simp add: unat_word_ariths unat_of_nat take_bit_eq_mod)
  moreover have "user_xlat (pg ?k) (0x8800000 + off) = Some (f + off)"
    by (rule user_vid_page [of "Some (current ?k)"]) (use m assms(2) in \<open>simp_all add: on_show_def\<close>)
  ultimately show ?thesis by (simp add: mp1_poke_def user_store_def st_def drawn_def)
qed

end
