(* ===== verification/Blink_Ops.thy ===== *)
theory Blink_Ops
  imports Blink
begin

text \<open>
  The driver of \<open>fish\<close> against its specification: every routine walks or changes the linked list as the
  operation on lists of blinkers says, and draws what it says; so does any sequence of routines.
\<close>

subsection \<open>The tasklet\<close>

lemma get_blink_in: "i < length (blink_array s) \<Longrightarrow> get_blink i s = Some (blink_array s ! i)"
  by (simp add: get_blink_def arr_get_nat)

lemma upd_blink_in:
  "i < length (blink_array s) \<Longrightarrow>
     upd_blink i f s = Some (s\<lparr>blink_array := (blink_array s)[i := f (blink_array s ! i)]\<rparr>)"
  by (simp add: upd_blink_def get_blink_in arr_set_nat)

lemma offset_small: "(l :: u16) < 2000 \<Longrightarrow> 2 * unat l < 0x1000"
  by (simp add: word_less_nat_alt)

lemma tick_fields [simp]:
  "location (tick b) = location b" "next_blink (tick b) = next_blink b" "on_char (tick b) = on_char b"
  "off_char (tick b) = off_char b" "on_length (tick b) = on_length b" "off_length (tick b) = off_length b"
  by (simp_all add: tick_def Let_def)

lemma blink_once_ticks:
  assumes "mapped f s" and "i < length (blink_array s)" and "b = blink_array s ! i" and "location b < 2000"
  shows "blink_once i s = Some (drawn f (change b) (s\<lparr>blink_array := (blink_array s)[i := tick b]\<rparr>))"
proof -
  let ?s = "s\<lparr>blink_array := (blink_array s)[i := b\<lparr>countdown := countdown b - 1\<rparr>]\<rparr>"
  have "mapped f ?s" using assms(1) by simp
  note p = poke_draws [OF this offset_small [OF assms(4)]]
  show ?thesis
    using assms(2) p by (simp add: blink_once_def upd_blink_in get_blink_in assms(3) [symmetric] tick_def change_def Let_def)
qed

definition on_set :: "('a \<Rightarrow> 'a) \<Rightarrow> nat set \<Rightarrow> 'a list \<Rightarrow> 'a list" where
  "on_set g I xs = map (\<lambda>i. if i \<in> I then g (xs ! i) else xs ! i) [0..<length xs]"

lemma on_set_empty [simp]: "on_set g {} xs = xs"
  by (simp add: on_set_def map_nth)

lemma length_on_set [simp]: "length (on_set g I xs) = length xs"
  by (simp add: on_set_def)

lemma on_set_nth [simp]: "i < length xs \<Longrightarrow> on_set g I xs ! i = (if i \<in> I then g (xs ! i) else xs ! i)"
  by (simp add: on_set_def)

lemma on_set_insert: "i \<notin> I \<Longrightarrow> i < length xs \<Longrightarrow> on_set g I (xs[i := g (xs ! i)]) = on_set g (insert i I) xs"
  by (rule nth_equalityI) (auto simp: nth_list_update)

lemma tasklet_ticks:
  assumes "mapped f s" and "chain (blink_array s) p is" and "distinct is" and "\<forall>i \<in> set is. location (blink_array s ! i) < 2000"
  shows "tasklet_loop p s = Some (drawn f (concat (map (\<lambda>i. change (blink_array s ! i)) is))
    (s\<lparr>blink_array := on_set tick (set is) (blink_array s)\<rparr>))"
  using assms
proof (induction "is" arbitrary: p s)
  case Nil
  then show ?case by (subst tasklet_loop.simps) simp
next
  case (Cons i "is")
  let ?b = "blink_array s ! i"
  let ?t = "drawn f (change ?b) (s\<lparr>blink_array := (blink_array s)[i := tick ?b]\<rparr>)"
  have i: "p = Some i" "i < length (blink_array s)" "i \<notin> set is" "location ?b < 2000" using Cons.prems by simp_all
  have once: "blink_once i s = Some ?t" by (rule blink_once_ticks [OF Cons.prems(1) i(2) refl i(4)])
  have small: "\<forall>(off, c) \<in> set (change ?b). off < 0x1000"
    using offset_small [OF i(4)] by (simp add: change_def)
  have other: "blink_array ?t ! j = blink_array s ! j" if "j \<in> set is" for j
    using i(3) that by (cases "j = i") simp_all
  have "mapped f ?t" using mapped_drawn [OF _ small] Cons.prems(1) by (simp del: drawn_simps(7))
  moreover have "chain (blink_array ?t) (next_blink ?b) is" using Cons.prems(2) i(3) by (simp add: chain_update)
  moreover have "distinct is" "\<forall>j \<in> set is. location (blink_array ?t ! j) < 2000"
    using Cons.prems(3,4) other by simp_all
  ultimately have run: "tasklet_loop (next_blink ?b) ?t = Some (drawn f (concat (map (\<lambda>j. change (blink_array ?t ! j)) is))
      (?t\<lparr>blink_array := on_set tick (set is) (blink_array ?t)\<rparr>))"
    by (rule Cons.IH)
  have "map (\<lambda>j. change (blink_array ?t ! j)) is = map (\<lambda>j. change (blink_array s ! j)) is"
    using other by (intro map_cong refl) simp
  then have cs: "concat (map (\<lambda>j. change (blink_array ?t ! j)) is) = concat (map (\<lambda>j. change (blink_array s ! j)) is)"
    by (rule arg_cong)
  have "on_set tick (set is) (blink_array ?t) = on_set tick (insert i (set is)) (blink_array s)"
    using on_set_insert [OF i(3,2), of tick] by simp
  then have t: "?t\<lparr>blink_array := on_set tick (set is) (blink_array ?t)\<rparr> =
      drawn f (change ?b) (s\<lparr>blink_array := on_set tick (insert i (set is)) (blink_array s)\<rparr>)"
    by simp
  note rest = run [unfolded cs t drawn_simps(2)]
  have "get_blink i ?t = Some (tick ?b)" using i(2) by (simp add: get_blink_in)
  then show ?case using once rest i(1) by (subst tasklet_loop.simps) simp
qed

lemma unlinked_tick: "unlinked (tick b) = tick (unlinked b)" "change (unlinked b) = change b" "location (unlinked b) = location b"
  by (simp_all add: unlinked_def tick_def change_def Let_def)

lemma tasklet_refines:
  assumes "holds f s bs"
  shows "\<exists>t. mp1_rtc_tasklet s = Some t \<and> holds f t (map tick bs) \<and>
     draws f (concat (map change bs)) s t"
proof -
  obtain "is" where l: "linked s is" "bs = map (\<lambda>i. unlinked (blink_array s ! i)) is" and m: "mapped f s"
    using assms by (auto simp: holds_def)
  note li = l(1) [unfolded linked_def]
  define t where "t = drawn f (concat (map (\<lambda>i. change (blink_array s ! i)) is))
    (s\<lparr>blink_array := on_set tick (set is) (blink_array s)\<rparr>)"
  have b: "\<forall>i \<in> set is. i < 2000" using chain_bound [of "blink_array s"] li by metis
  have run: "mp1_rtc_tasklet s = Some t"
    unfolding mp1_rtc_tasklet_def t_def by (rule tasklet_ticks) (use m li in auto)
  have cs: "concat (map (\<lambda>i. change (blink_array s ! i)) is) = concat (map change bs)"
    by (simp add: l(2) unlinked_tick o_def)
  have "\<forall>(off, c) \<in> set (concat (map change bs)). off < 0x1000"
    using li offset_small by (auto simp: l(2) change_def unlinked_tick split: if_splits)
  then have "mapped f t" using mapped_drawn m by (simp add: t_def cs del: drawn_simps(7))
  moreover have "chain (blink_array t) (mp1_list_head t) is"
    using chain_same_links [of "on_set tick (set is) (blink_array s)" "blink_array s"] li b by (simp add: t_def)
  then have "linked t is" using li b by (simp add: linked_def t_def)
  moreover have "map tick bs = map (\<lambda>i. unlinked (blink_array t ! i)) is"
    using li b by (simp add: l(2) t_def unlinked_tick)
  ultimately show ?thesis using run by (auto simp: holds_def t_def cs draws_def)
qed

subsection \<open>Finding\<close>

lemma find_loop_chain:
  "chain (blink_array s) p is \<Longrightarrow> find_loop l p s = Some (find (\<lambda>i. location (blink_array s ! i) = l) is)"
proof (induction "is" arbitrary: p)
  case Nil
  then show ?case by (subst find_loop.simps) simp
next
  case (Cons i "is")
  then show ?case by (subst find_loop.simps) (simp add: get_blink_in)
qed

lemma find_first:
  assumes "find P xs = Some x"
  shows "\<exists>ys zs. xs = ys @ x # zs \<and> (\<forall>y \<in> set ys. \<not> P y) \<and> P x"
proof -
  obtain i where i: "i < length xs" "P (xs ! i)" "x = xs ! i" "\<forall>j < i. \<not> P (xs ! j)"
    using assms by (auto simp: find_Some_iff)
  have "xs = take i xs @ x # drop (Suc i) xs" using id_take_nth_drop [OF i(1)] i(3) by simp
  moreover have "\<forall>y \<in> set (take i xs). \<not> P y" using i(1,4) by (auto simp: in_set_conv_nth)
  ultimately show ?thesis using i(2,3) by blast
qed

lemma helper_finds:
  assumes "linked s is"
  shows "mp1_find_helper l s = Some (find (\<lambda>i. location (blink_array s ! i) = l) is)"
  using find_loop_chain assms by (simp add: mp1_find_helper_def linked_def)

text \<open>The structure found and the blinker it stands for.\<close>

lemma found_blinker:
  assumes "bs = map (\<lambda>i. unlinked (blink_array s ! i)) is"
  shows "at_location l bs = map_option (\<lambda>i. unlinked (blink_array s ! i)) (find (\<lambda>i. location (blink_array s ! i) = l) is)"
  unfolding assms at_location_def by (induction "is") (auto simp: unlinked_tick)

lemma linked_bound: "linked s is \<Longrightarrow> i \<in> set is \<Longrightarrow> i < length (blink_array s)"
  using chain_bound [of "blink_array s"] by (auto simp: linked_def)

lemma linked_drawn [simp]: "linked (drawn f cs s) is = linked s is"
  by (simp add: linked_def)

lemma holds_drawn:
  assumes "linked t is" and "mapped f t" and "\<forall>(off, c) \<in> set cs. off < 0x1000"
  shows "holds f (drawn f cs t) (map (\<lambda>i. unlinked (blink_array t ! i)) is)"
  using assms(1) mapped_drawn [OF assms(2,3)] unfolding holds_def by (intro conjI exI [of _ "is"]) simp_all

subsection \<open>Adding\<close>

lemma malloc_finds:
  assumes "linked s is"
  shows "if length is < 2000 then \<exists>i. mp1_malloc s = Some (Some i) \<and> i < 2000 \<and> i \<notin> set is else mp1_malloc s = Some None"
proof -
  note li = assms [unfolded linked_def]
  have sub: "set is \<subseteq> {0..<2000}" using linked_bound [OF assms] li by auto
  have card: "card (set is) = length is" using li by (simp add: distinct_card)
  let ?P = "\<lambda>i. location (blink_array s ! i) = 0"
  have none: "find ?P [0..<2000] = None \<longleftrightarrow> {0..<2000} \<subseteq> set is"
    using li by (auto simp: find_None_iff simp del: upt_rec_numeral)
  show ?thesis
  proof (cases "length is < 2000")
    case True
    then have "\<not> {0..<2000} \<subseteq> set is" using card_mono [of "set is" "{0..<2000 :: nat}"] card by auto
    then obtain i where i: "find ?P [0..<2000] = Some i" using none by fastforce
    then have "i < 2000" "?P i" by (auto simp: find_Some_iff simp del: upt_rec_numeral)
    then show ?thesis using i li True by (simp add: mp1_malloc_def del: upt_rec_numeral)
  next
    case False
    then have "set is = {0..<2000}" by (intro card_subset_eq sub) (use card card_mono [OF _ sub] in auto)
    then show ?thesis using none li False by (simp add: mp1_malloc_def del: upt_rec_numeral)
  qed
qed

lemma add_refines:
  assumes "holds f s bs" and "location b \<noteq> 0" and "spec (Add b) bs = (r, bs', cs)"
  shows "\<exists>t. mp1_ioctl_add b s = Some (r, t) \<and> holds f t bs' \<and> draws f cs s t"
proof -
  obtain "is" where l: "linked s is" "bs = map (\<lambda>i. unlinked (blink_array s ! i)) is" and m: "mapped f s"
    using assms(1) by (auto simp: holds_def)
  note li = l(1) [unfolded linked_def]
  have len: "length bs = length is" by (simp add: l(2))
  show ?thesis
  proof (cases "location b < 2000 \<and> length bs < 2000")
    case False
    then have "r = -1" "bs' = bs" "cs = []" using assms(3) by (auto split: if_splits)
    moreover have "mp1_ioctl_add b s = Some (-1, s)"
      using False malloc_finds [OF l(1)] len by (auto simp: mp1_ioctl_add_def Let_def not_less)
    ultimately show ?thesis using assms(1) draws_refl by simp
  next
    case True
    obtain i where i: "mp1_malloc s = Some (Some i)" "i < 2000" "i \<notin> set is"
      using malloc_finds [OF l(1)] True len by auto
    define c where "c = b\<lparr>status := 1, countdown := on_length b, next_blink := mp1_list_head s\<rparr>"
    define t where "t = s\<lparr>blink_array := (blink_array s)[i := c], mp1_list_head := Some i\<rparr>"
    have other: "(blink_array s)[i := c] ! j = blink_array s ! j" if "j \<in> set is" for j
      using i(3) that by (cases "j = i") simp_all
    have ba: "blink_array t ! i = c" using i(2) li by (simp add: t_def)
    have lt: "linked t (i # is)"
      using li i other True assms(2) by (auto simp: linked_def t_def c_def chain_update nth_list_update)
    have bs: "map (\<lambda>i. unlinked (blink_array t ! i)) (i # is) = started b # bs"
      using other ba by (simp add: l(2) t_def) (simp add: c_def started_def unlinked_def)
    have small: "2 * unat (location b) < 0x1000" using True by (simp add: offset_small)
    have mt: "mapped f t" using m by (simp add: t_def mapped_def)
    have "holds f (drawn f [(2 * unat (location b), on_char b)] t) (started b # bs)"
      using holds_drawn [OF lt mt, of "[(2 * unat (location b), on_char b)]"] small unfolding bs by simp
    moreover have "mp1_ioctl_add b s = Some (0, drawn f [(2 * unat (location b), on_char b)] t)"
      using True i(1,2) li poke_draws [OF mt small, of "on_char b"]
      by (simp add: mp1_ioctl_add_def Let_def upd_blink_in get_blink_in t_def c_def not_le)
    ultimately show ?thesis using assms(3) True by (simp add: t_def draws_def)
  qed
qed

subsection \<open>Removing\<close>

lemma chain_unlink:
  "chain bs p (xs @ k # j # ys) \<Longrightarrow> distinct (xs @ k # j # ys) \<Longrightarrow>
     chain (bs[k := (bs ! k)\<lparr>next_blink := next_blink (bs ! j)\<rparr>]) p (xs @ k # ys)"
proof (induction xs arbitrary: p)
  case Nil
  then show ?case by (simp add: chain_update)
next
  case (Cons x xs)
  then show ?case by simp
qed

text \<open>The pointer to the structure \<open>j\<close> behind those of \<open>xs\<close>.\<close>

definition link_behind :: "link \<Rightarrow> nat list \<Rightarrow> link" where
  "link_behind l xs = (if xs = [] then l else Next_of (last xs))"

lemma prev_found:
  "load_link l s = Some p \<Longrightarrow> chain (blink_array s) p (xs @ j # ys) \<Longrightarrow> distinct (xs @ j # ys) \<Longrightarrow>
     remove_find_prev j l s = Some (link_behind l xs)"
proof (induction xs arbitrary: l p)
  case Nil
  then show ?case by (subst remove_find_prev.simps) (simp add: link_behind_def)
next
  case (Cons x xs)
  have "load_link (Next_of x) s = Some (next_blink (blink_array s ! x))" using Cons.prems(2) by (simp add: get_blink_in)
  then have "remove_find_prev j (Next_of x) s = Some (link_behind (Next_of x) xs)"
    by (rule Cons.IH) (use Cons.prems in simp_all)
  moreover have "link_behind (Next_of x) xs = link_behind l (x # xs)" by (simp add: link_behind_def)
  ultimately show ?case using Cons.prems by (subst remove_find_prev.simps) auto
qed

lemma unlink_stores:
  assumes "linked s (xs @ j # ys)"
  shows "\<exists>t. store_link (link_behind Head xs) (next_blink (blink_array s ! j)) s = Some t \<and>
     chain (blink_array t) (mp1_list_head t) (xs @ ys) \<and> length (blink_array t) = 2000 \<and>
     (\<forall>i < 2000. unlinked (blink_array t ! i) = unlinked (blink_array s ! i)) \<and>
     machine t = machine s \<and> vmem_base_addr t = vmem_base_addr s"
proof (cases xs rule: rev_cases)
  case Nil
  then show ?thesis using assms by (simp add: link_behind_def linked_def)
next
  case (snoc zs k)
  have k: "k < length (blink_array s)" by (rule linked_bound [OF assms]) (simp add: snoc)
  have "chain ((blink_array s)[k := (blink_array s ! k)\<lparr>next_blink := next_blink (blink_array s ! j)\<rparr>]) (mp1_list_head s) (zs @ k # ys)"
    by (rule chain_unlink) (use assms in \<open>simp_all add: linked_def snoc\<close>)
  then show ?thesis
    using k assms by (simp add: link_behind_def snoc upd_blink_in linked_def nth_list_update unlinked_def)
qed

lemma drop_first_append:
  "\<forall>b \<in> set bs. location b \<noteq> l \<Longrightarrow> location c = l \<Longrightarrow> drop_first l (bs @ c # cs) = bs @ cs"
  by (induction bs) auto

lemma unlinked_location: "unlinked b = unlinked c \<Longrightarrow> location b = location c"
  using unlinked_tick(3) by metis

lemma remove_refines:
  assumes "holds f s bs" and "spec (Remove n) bs = (r, bs', cs)"
  shows "\<exists>t. mp1_ioctl_remove n s = Some (r, t) \<and> holds f t bs' \<and> draws f cs s t"
proof -
  let ?l = "ucast n :: u16"
  obtain "is" where l: "linked s is" "bs = map (\<lambda>i. unlinked (blink_array s ! i)) is" and m: "mapped f s"
    using assms(1) by (auto simp: holds_def)
  note li = l(1) [unfolded linked_def]
  show ?thesis
  proof (cases "find (\<lambda>i. location (blink_array s ! i) = ?l) is")
    case None
    then show ?thesis
      using assms found_blinker [OF l(2), of ?l] helper_finds [OF l(1), of ?l] by (auto simp: mp1_ioctl_remove_def draws_refl)
  next
    case (Some j)
    then obtain xs ys where xs: "is = xs @ j # ys" "\<forall>i \<in> set xs. location (blink_array s ! i) \<noteq> ?l" "location (blink_array s ! j) = ?l"
      using find_first [OF Some] by blast
    have j: "j < 2000" using linked_bound [OF l(1), of j] li xs(1) by simp
    have prev: "remove_find_prev j Head s = Some (link_behind Head xs)"
      by (rule prev_found [of _ _ "mp1_list_head s" _ _ ys]) (use li xs(1) in simp_all)
    obtain t where t: "store_link (link_behind Head xs) (next_blink (blink_array s ! j)) s = Some t"
      "chain (blink_array t) (mp1_list_head t) (xs @ ys)" "length (blink_array t) = 2000"
      "\<forall>i < 2000. unlinked (blink_array t ! i) = unlinked (blink_array s ! i)"
      "machine t = machine s" "vmem_base_addr t = vmem_base_addr s"
      using unlink_stores l(1) xs(1) by blast
    let ?t = "t\<lparr>blink_array := (blink_array t)[j := blank_blinker]\<rparr>"
    have d: "distinct (xs @ j # ys)" using li xs(1) by simp
    have locs: "location (blink_array t ! i) = location (blink_array s ! i)" if "i < 2000" for i
      using t(4) that unlinked_location by blast
    have b: "i < 2000 \<and> i \<noteq> j" if "i \<in> set (xs @ ys)" for i
      using that d linked_bound [OF l(1), of i] li xs(1) by auto
    have "linked ?t (xs @ ys)"
      using t(2,3) d li b locs j xs(1) by (auto simp: linked_def chain_update nth_list_update blank_blinker_def)
    moreover have "mapped f ?t" using m t(5,6) by (simp add: mapped_def)
    moreover have "map (\<lambda>i. unlinked (blink_array ?t ! i)) (xs @ ys) = bs'"
    proof -
      have "bs' = drop_first ?l bs" using assms(2) found_blinker [OF l(2), of ?l] Some by simp
      also have "\<dots> = map (\<lambda>i. unlinked (blink_array s ! i)) (xs @ ys)"
        unfolding l(2) xs(1) map_append list.map
        by (rule drop_first_append) (use xs(2,3) in \<open>simp_all add: unlinked_tick\<close>)
      finally have bs': "bs' = map (\<lambda>i. unlinked (blink_array s ! i)) (xs @ ys)" .
      have "unlinked (blink_array ?t ! i) = unlinked (blink_array s ! i)" if "i \<in> set (xs @ ys)" for i
        using b [OF that] t(4) by simp
      then show ?thesis unfolding bs' by (intro map_cong refl)
    qed
    ultimately have "holds f ?t bs'" unfolding holds_def by blast
    moreover have "mp1_ioctl_remove n s = Some (0, ?t)"
      using helper_finds [OF l(1), of ?l] Some prev t(1,3) j li
      by (simp add: mp1_ioctl_remove_def get_blink_in mp1_free_def upd_blink_in)
    ultimately show ?thesis using assms(2) found_blinker [OF l(2), of ?l] Some t(5,6) by (auto simp: draws_def)
  qed
qed

subsection \<open>Synchronising\<close>

lemma set_timing_append:
  "\<forall>b \<in> set bs. location b \<noteq> l \<Longrightarrow> location c = l \<Longrightarrow>
     set_timing a l (bs @ c # cs) = bs @ timed a c # cs"
  by (induction bs) auto

lemma sync_copies:
  assumes "i < length (blink_array s)" and "j < length (blink_array s)"
  shows "do { a \<leftarrow> get_blink i s;
              s \<leftarrow> upd_blink j (\<lambda>b. b\<lparr>on_length := on_length a\<rparr>) s;
              a \<leftarrow> get_blink i s;
              s \<leftarrow> upd_blink j (\<lambda>b. b\<lparr>off_length := off_length a\<rparr>) s;
              a \<leftarrow> get_blink i s;
              s \<leftarrow> upd_blink j (\<lambda>b. b\<lparr>countdown := countdown a\<rparr>) s;
              a \<leftarrow> get_blink i s;
              s \<leftarrow> upd_blink j (\<lambda>b. b\<lparr>status := status a\<rparr>) s;
              k s } =
     k (s\<lparr>blink_array := (blink_array s)[j := timed (blink_array s ! i) (blink_array s ! j)]\<rparr>)"
  using assms by (cases "i = j") (simp_all add: get_blink_in upd_blink_in timed_def)

lemma sync_refines:
  assumes "holds f s bs" and "spec (Sync n) bs = (r, bs', cs)"
  shows "\<exists>t. mp1_ioctl_sync n s = Some (r, t) \<and> holds f t bs' \<and> draws f cs s t"
proof -
  let ?k = "ucast (drop_bit 16 n) :: u16" and ?l = "ucast n :: u16"
  have "n AND 0xFFFF = take_bit 16 n" by (simp add: take_bit_eq_mask mask_eq_exp_minus_1)
  then have l16: "ucast (n AND 0xFFFF) = ?l" by (simp add: unsigned_take_bit_eq take_bit_word_eq_self)
  obtain "is" where l: "linked s is" "bs = map (\<lambda>i. unlinked (blink_array s ! i)) is" and m: "mapped f s"
    using assms(1) by (auto simp: holds_def)
  note li = l(1) [unfolded linked_def]
  let ?find = "\<lambda>l. find (\<lambda>i. location (blink_array s ! i) = l) is"
  show ?thesis
  proof (cases "?find ?k = None \<or> ?find ?l = None")
    case True
    then show ?thesis
      using assms found_blinker [OF l(2)] helper_finds [OF l(1)]
      by (cases "?find ?k") (auto simp: mp1_ioctl_sync_def l16 draws_refl)
  next
    case False
    then obtain i j where ij: "?find ?k = Some i" "?find ?l = Some j" by auto
    have i: "i < 2000" using find_first [OF ij(1)] linked_bound [OF l(1), of i] li by auto
    obtain xs ys where xs: "is = xs @ j # ys" "\<forall>i \<in> set xs. location (blink_array s ! i) \<noteq> ?l" "location (blink_array s ! j) = ?l"
      using find_first [OF ij(2)] by blast
    have j: "j < 2000" "j \<in> set is" using linked_bound [OF l(1), of j] li xs(1) by simp_all
    let ?a = "blink_array s ! i" and ?b = "blink_array s ! j"
    define t where "t = s\<lparr>blink_array := (blink_array s)[j := timed ?a ?b]\<rparr>"
    have tb: "location (timed ?a ?b) = location ?b" "next_blink (timed ?a ?b) = next_blink ?b" by (simp_all add: timed_def)
    have "chain (blink_array t) (mp1_list_head t) is"
    proof -
      have "next_blink (blink_array t ! q) = next_blink (blink_array s ! q)" for q
        using tb(2) j(1) li by (cases "q = j") (simp_all add: t_def)
      then show ?thesis using chain_same_links [of "blink_array t" "blink_array s" "is" "mp1_list_head s"] li by (simp add: t_def)
    qed
    then have lt: "linked t is" using li tb j(1) by (simp add: linked_def t_def nth_list_update)
    have mt: "mapped f t" using m by (simp add: t_def)
    have small: "2 * unat (location ?b) < 0x1000" using li j(2) by (simp add: offset_small)
    let ?cs = "[(2 * unat (location ?b), off_char ?b)]"
    have bs: "map (\<lambda>i. unlinked (blink_array t ! i)) is = set_timing (unlinked ?a) ?l bs"
    proof -
      have "set_timing (unlinked ?a) ?l bs =
          map (\<lambda>i. unlinked (blink_array s ! i)) xs @ timed (unlinked ?a) (unlinked ?b) # map (\<lambda>i. unlinked (blink_array s ! i)) ys"
        unfolding l(2) xs(1) map_append list.map
        by (rule set_timing_append) (use xs(2,3) in \<open>simp_all add: unlinked_tick\<close>)
      moreover have "j \<notin> set xs" "j \<notin> set ys" using li xs(1) by auto
      ultimately show ?thesis
        using j(1) li by (auto simp: xs(1) t_def nth_list_update timed_def unlinked_def)
    qed
    have "holds f (drawn f ?cs t) (set_timing (unlinked ?a) ?l bs)"
      using holds_drawn [OF lt mt, of ?cs] small unfolding bs by simp
    moreover have "mp1_ioctl_sync n s = Some (0, drawn f ?cs t)"
    proof -
      have "mp1_poke (2 * unat (location ?b)) (off_char ?b) t = Some (drawn f ?cs t)" by (rule poke_draws [OF mt small])
      then show ?thesis
        using helper_finds [OF l(1)] ij i j(1) li
        by (simp add: mp1_ioctl_sync_def l16 sync_copies t_def [symmetric])
           (simp add: t_def get_blink_in timed_def Let_def bit_simps)
    qed
    moreover have "r = 0 \<and> bs' = set_timing (unlinked ?a) ?l bs \<and> cs = ?cs"
      using assms(2) found_blinker [OF l(2)] ij by (simp add: unlinked_def)
    ultimately show ?thesis by (simp add: t_def draws_def)
  qed
qed

subsection \<open>Any sequence of operations\<close>

fun spec_run :: "op list \<Rightarrow> blinker list \<Rightarrow> int list \<times> blinker list \<times> (nat \<times> u8) list" where
  "spec_run [] bs = ([], bs, [])"
| "spec_run (x # xs) bs =
     (case spec x bs of (r, bs, cs) \<Rightarrow> case spec_run xs bs of (rs, bs, ds) \<Rightarrow> (r # rs, bs, cs @ ds))"

fun perform_all :: "op list \<Rightarrow> fish \<Rightarrow> (int list \<times> fish) option" where
  "perform_all [] s = Some ([], s)"
| "perform_all (x # xs) s = do { (r, s) \<leftarrow> perform x s; (rs, s) \<leftarrow> perform_all xs s; Some (r # rs, s) }"

text \<open>A blinker at location 0 looks like a free structure.\<close>

definition off_origin :: "op \<Rightarrow> bool" where
  "off_origin x \<longleftrightarrow> (case x of Add b \<Rightarrow> location b \<noteq> 0 | _ \<Rightarrow> True)"

lemma find_refines:
  assumes "holds f s bs"
  shows "\<exists>c. mp1_ioctl_find b s = Some (if at_location (location b) bs = None then -1 else 0, c) \<and>
    (\<forall>d. at_location (location b) bs = Some d \<longrightarrow> unlinked c = d)"
proof -
  obtain "is" where l: "linked s is" "bs = map (\<lambda>i. unlinked (blink_array s ! i)) is"
    using assms by (auto simp: holds_def)
  show ?thesis
  proof (cases "find (\<lambda>i. location (blink_array s ! i) = location b) is")
    case None
    then show ?thesis using found_blinker [OF l(2)] helper_finds [OF l(1)] by (simp add: mp1_ioctl_find_def)
  next
    case (Some i)
    then have "i < length (blink_array s)" using find_first [OF Some] linked_bound [OF l(1), of i] by auto
    then show ?thesis using Some found_blinker [OF l(2)] helper_finds [OF l(1)] by (simp add: mp1_ioctl_find_def get_blink_in)
  qed
qed

lemma perform_refines:
  assumes "holds f s bs" and "off_origin x" and "spec x bs = (r, bs', cs)"
  shows "\<exists>t. perform x s = Some (r, t) \<and> holds f t bs' \<and> draws f cs s t"
proof (cases x)
  case (Add b)
  then show ?thesis using add_refines [OF assms(1), of b r bs' cs] assms(2,3) by (auto simp: off_origin_def mp1_ioctl_def)
next
  case (Remove n)
  then show ?thesis using remove_refines [OF assms(1), of n r bs' cs] assms(3) by (auto simp: mp1_ioctl_def)
next
  case (Find b)
  then show ?thesis using find_refines [OF assms(1), of b] assms(1,3) draws_refl by (auto simp: mp1_ioctl_def numeral_2_eq_2)
next
  case (Sync n)
  then show ?thesis using sync_refines [OF assms(1), of n r bs' cs] assms(3) by (auto simp: mp1_ioctl_def numeral_3_eq_3)
next
  case Tick
  then show ?thesis using tasklet_refines [OF assms(1)] assms(3) by auto
qed

lemma perform_all_refines:
  "holds f s bs \<Longrightarrow> \<forall>x \<in> set xs. off_origin x \<Longrightarrow> spec_run xs bs = (rs, bs', cs) \<Longrightarrow>
     \<exists>t. perform_all xs s = Some (rs, t) \<and> holds f t bs' \<and> draws f cs s t"
proof (induction xs arbitrary: s bs rs bs' cs)
  case Nil
  then show ?case by (simp add: draws_refl)
next
  case (Cons x xs)
  obtain r bs1 cs1 where x: "spec x bs = (r, bs1, cs1)" by (rule prod_cases3)
  obtain rs1 bs2 ds where y: "spec_run xs bs1 = (rs1, bs2, ds)" by (rule prod_cases3)
  have eq: "rs = r # rs1" "bs' = bs2" "cs = cs1 @ ds" using Cons.prems(3) x y by simp_all
  have "off_origin x" using Cons.prems(2) by simp
  from perform_refines [OF Cons.prems(1) this x] obtain t where
    t: "perform x s = Some (r, t)" "holds f t bs1" "draws f cs1 s t" by blast
  have "\<forall>x \<in> set xs. off_origin x" using Cons.prems(2) by simp
  from Cons.IH [OF t(2) this y] obtain u where
    u: "perform_all xs t = Some (rs1, u)" "holds f u bs2" "draws f ds t u" by blast
  then show ?case using t draws_trans [OF t(3) u(3)] by (auto simp: eq)
qed

end
