(* ===== verification/Blink_Time.thy ===== *)
theory Blink_Time
  imports Blink_Ops User_Instances
begin

text \<open>
  What the screen shows: the two characters of a blinker in turn, for as many ticks as it says; the
  mapping of the screen by \<open>vidmap\<close>; and what goes wrong with a blinker at location 0.
\<close>

subsection \<open>The blinking\<close>

text \<open>Ticks of a blinker that has just been turned on.\<close>

definition phase :: "blinker \<Rightarrow> nat \<Rightarrow> bool" where
  "phase b n \<longleftrightarrow> n mod (unat (on_length b) + unat (off_length b)) < unat (on_length b)"

definition timed_ok :: "u16 \<Rightarrow> bool" where
  "timed_ok l \<longleftrightarrow> 0 < l \<and> l \<le> 0x8000"

text \<open>The blinker after \<open>n\<close> ticks: which character it shows and how long.\<close>

definition on_for :: "blinker \<Rightarrow> nat \<Rightarrow> blinker" where
  "on_for b k = b\<lparr>status := 1, countdown := word_of_nat k\<rparr>"

definition off_for :: "blinker \<Rightarrow> nat \<Rightarrow> blinker" where
  "off_for b k = b\<lparr>status := 0, countdown := word_of_nat k\<rparr>"

definition blinker_at :: "blinker \<Rightarrow> nat \<Rightarrow> blinker" where
  "blinker_at b n = (let a = unat (on_length b); c = unat (off_length b); m = n mod (a + c) in
     if m < a then on_for b (a - m) else off_for b (a + c - m))"

lemma sint16: "- (2 ^ 15) \<le> x \<Longrightarrow> x < 2 ^ 15 \<Longrightarrow> sint (word_of_int x :: u16) = x"
  by (simp add: sint_sbintrunc' signed_take_bit_int_eq_self)

lemma countdown_runs:
  assumes "0 < k" and "k \<le> 0x8000"
  shows "0 <s (word_of_nat k - 1 :: u16) \<longleftrightarrow> 1 < k" "(word_of_nat k - 1 :: u16) = word_of_nat (k - 1)"
proof -
  have "sint (word_of_nat k - 1 :: u16) = int k - 1" using sint16 [of "int k - 1"] assms by simp
  then show "0 <s (word_of_nat k - 1 :: u16) \<longleftrightarrow> 1 < k" by (simp add: word_sless_alt)
  show "(word_of_nat k - 1 :: u16) = word_of_nat (k - 1)" using assms(1) by (simp add: of_nat_diff)
qed

lemma tick_cases:
  "tick (b\<lparr>status := 1, countdown := x\<rparr>) =
      (if 0 <s x - 1 then b\<lparr>status := 1, countdown := x - 1\<rparr> else b\<lparr>status := 0, countdown := off_length b\<rparr>)"
  "tick (b\<lparr>status := 0, countdown := x\<rparr>) =
      (if 0 <s x - 1 then b\<lparr>status := 0, countdown := x - 1\<rparr> else b\<lparr>status := 1, countdown := on_length b\<rparr>)"
  "change (b\<lparr>status := 1, countdown := x\<rparr>) = (if 0 <s x - 1 then [] else [(2 * unat (location b), off_char b)])"
  "change (b\<lparr>status := 0, countdown := x\<rparr>) = (if 0 <s x - 1 then [] else [(2 * unat (location b), on_char b)])"
  by (simp_all add: tick_def change_def Let_def)

lemma tick_running:
  assumes "0 < k" and "k \<le> 0x8000"
  shows "tick (on_for b k) = (if 1 < k then on_for b (k - 1) else off_for b (unat (off_length b)))"
    "tick (off_for b k) = (if 1 < k then off_for b (k - 1) else on_for b (unat (on_length b)))"
    "change (on_for b k) = (if 1 < k then [] else [(2 * unat (location b), off_char b)])"
    "change (off_for b k) = (if 1 < k then [] else [(2 * unat (location b), on_char b)])"
  unfolding on_for_def off_for_def tick_cases countdown_runs(1) [OF assms]
  by (simp_all only: countdown_runs(2) [OF assms] of_nat_unat ucast_id)

lemma tick_blinker_at:
  assumes "timed_ok (on_length b)" and "timed_ok (off_length b)"
  shows "tick (blinker_at b n) = blinker_at b (Suc n)"
    "change (blinker_at b n) = (if phase b n = phase b (Suc n) then []
       else [(2 * unat (location b), if phase b (Suc n) then on_char b else off_char b)])"
proof -
  define a where "a = unat (on_length b)"
  define c where "c = unat (off_length b)"
  define m where "m = n mod (a + c)"
  have a: "0 < a" "a \<le> 0x8000" and c: "0 < c" "c \<le> 0x8000"
    using assms by (auto simp: timed_ok_def a_def c_def word_less_nat_alt word_le_nat_alt)
  have m: "m < a + c" "Suc n mod (a + c) = (if Suc m = a + c then 0 else Suc m)"
    using a by (simp_all add: m_def mod_Suc)
  have at: "blinker_at b k = (if k mod (a + c) < a then on_for b (a - k mod (a + c))
      else off_for b (a + c - k mod (a + c)))" for k
    by (simp only: blinker_at_def Let_def a_def c_def)
  have ph: "phase b k \<longleftrightarrow> k mod (a + c) < a" for k by (simp only: phase_def a_def c_def)
  consider "Suc m < a" | "Suc m = a" | "a \<le> m" "Suc m < a + c" | "a \<le> m" "Suc m = a + c" using m(1) by linarith
  then have "tick (blinker_at b n) = blinker_at b (Suc n) \<and> change (blinker_at b n) = (if phase b n = phase b (Suc n) then []
       else [(2 * unat (location b), if phase b (Suc n) then on_char b else off_char b)])"
  proof cases
    case 1
    then have "0 < a - m" "a - m \<le> 0x8000" "1 < a - m" "a - m - 1 = a - Suc m" "m < a" "Suc m \<noteq> a + c" using a by simp_all
    then show ?thesis unfolding at ph m(2) m_def [symmetric] using 1 tick_running [of "a - m" b] by simp
  next
    case 2
    then have "a - m = 1" "m < a" "Suc m \<noteq> a + c" "a + c - Suc m = c" using c by simp_all
    then show ?thesis unfolding at ph m(2) m_def [symmetric] using 2 tick_running [of 1 b] by (simp add: a_def [symmetric] c_def [symmetric])
  next
    case 3
    then have "0 < a + c - m" "a + c - m \<le> 0x8000" "1 < a + c - m" "a + c - m - 1 = a + c - Suc m" using c by simp_all
    then show ?thesis unfolding at ph m(2) m_def [symmetric] using 3 tick_running [of "a + c - m" b] by simp
  next
    case 4
    then have "a + c - m = 1" by simp
    then show ?thesis unfolding at ph m(2) m_def [symmetric] using 4 a tick_running [of 1 b] by (simp add: a_def [symmetric] c_def [symmetric])
  qed
  then show "tick (blinker_at b n) = blinker_at b (Suc n)"
    "change (blinker_at b n) = (if phase b n = phase b (Suc n) then []
       else [(2 * unat (location b), if phase b (Suc n) then on_char b else off_char b)])" by simp_all
qed

lemma draw_cell:
  "\<forall>(k, c) \<in> set cs. k = off \<longrightarrow> c = v \<Longrightarrow> draw f cs m (f + off) = (if off \<in> fst ` set cs then v else m (f + off))"
  by (induction f cs m rule: draw.induct) auto

lemma change_location: "(k, c) \<in> set (change b) \<Longrightarrow> k = 2 * unat (location b)"
  by (simp add: change_def split: if_splits)

lemma ticks_show:
  assumes "timed_ok (on_length b)" and "timed_ok (off_length b)"
  shows "holds f s bs \<Longrightarrow> blinker_at b m \<in> set bs \<Longrightarrow> \<forall>c \<in> set bs. location c = location b \<longrightarrow> c = blinker_at b m \<Longrightarrow>
     mem (machine s) (f + 2 * unat (location b)) = (if phase b m then on_char b else off_char b) \<Longrightarrow>
     \<exists>t. perform_all (replicate n Tick) s = Some (replicate n 0, t) \<and> holds f t (map (tick ^^ n) bs) \<and>
       mem (machine t) (f + 2 * unat (location b)) = (if phase b (m + n) then on_char b else off_char b)"
proof (induction n arbitrary: s bs m)
  case 0
  then show ?case by simp
next
  case (Suc n)
  let ?off = "2 * unat (location b)" and ?v = "if phase b (Suc m) then on_char b else off_char b"
  let ?cs = "concat (map change bs)"
  obtain t where t: "mp1_rtc_tasklet s = Some t" "holds f t (map tick bs)" "mem (machine t) = draw f ?cs (mem (machine s))"
    using tasklet_refines [OF Suc.prems(1)] draws_mem by blast
  note at = tick_blinker_at [OF assms, of m]
  have loc: "location (blinker_at b k) = location b" for k by (simp add: blinker_at_def Let_def on_for_def off_for_def)
  have own: "x = (?off, ?v) \<and> phase b m \<noteq> phase b (Suc m)" if x: "x \<in> set ?cs" "fst x = ?off" for x
  proof -
    obtain c where c: "c \<in> set bs" "x \<in> set (change c)" using x(1) by auto
    then have "fst x = 2 * unat (location c)" using change_location [of "fst x" "snd x" c] by simp
    then have "c = blinker_at b m" using Suc.prems(3) c(1) x(2) by (auto simp: word_unat_eq_iff)
    then show ?thesis using c(2) at(2) by (auto split: if_splits)
  qed
  have "?off \<in> fst ` set ?cs \<longleftrightarrow> phase b m \<noteq> phase b (Suc m)"
  proof
    assume "?off \<in> fst ` set ?cs"
    then obtain x where "x \<in> set ?cs" "fst x = ?off" by force
    then show "phase b m \<noteq> phase b (Suc m)" using own by blast
  next
    assume "phase b m \<noteq> phase b (Suc m)"
    then have "(?off, ?v) \<in> set (change (blinker_at b m))" using at(2) by simp
    then have "(?off, ?v) \<in> set ?cs" using Suc.prems(2) by auto
    then show "?off \<in> fst ` set ?cs" by force
  qed
  moreover have "\<forall>(k, c) \<in> set ?cs. k = ?off \<longrightarrow> c = ?v" 
  proof (intro ballI, clarify)
    fix c assume "(?off, c) \<in> set ?cs"
    then show "c = ?v" using own [of "(?off, c)"] by simp
  qed
  ultimately have cell: "mem (machine t) (f + ?off) = ?v"
    using draw_cell [of ?cs ?off ?v f "mem (machine s)"] Suc.prems(4) t(3) by simp
  have mem: "blinker_at b (Suc m) \<in> set (map tick bs)" using Suc.prems(2) at(1) by force
  have uniq: "\<forall>c \<in> set (map tick bs). location c = location b \<longrightarrow> c = blinker_at b (Suc m)"
    using Suc.prems(3) at(1) by auto
  have pow: "map (tick ^^ n) (map tick bs) = map (tick ^^ Suc n) bs" by (simp add: funpow_Suc_right del: funpow.simps)
  obtain u where u: "perform_all (replicate n Tick) t = Some (replicate n 0, u)" "holds f u (map (tick ^^ n) (map tick bs))"
    "mem (machine u) (f + ?off) = (if phase b (Suc m + n) then on_char b else off_char b)"
    using Suc.IH [OF t(2) mem uniq cell] by blast
  then show ?case using t(1) unfolding pow by (simp add: o_def)
qed

lemma started_at: "timed_ok (on_length b) \<Longrightarrow> started b = blinker_at (unlinked b) 0" "phase b 0 = (0 < unat (on_length b))"
  by (auto simp: started_def blinker_at_def Let_def on_for_def unlinked_def timed_ok_def word_less_nat_alt phase_def)

subsection \<open>Location 0\<close>

text \<open>A blinker that is its own successor keeps the tasklet busy for ever.\<close>

lemma get_upd_blink:
  "upd_blink i g s = Some t \<Longrightarrow> get_blink j t = (if j = i then map_option g (get_blink j s) else get_blink j s)"
  by (auto simp: upd_blink_def get_blink_def arr_get_def arr_set_def bind_eq_Some_conv nth_list_update split: if_splits)

lemma blink_once_next:
  assumes "blink_once i s = Some t"
  shows "map_option next_blink (get_blink i t) = map_option next_blink (get_blink i s)"
proof -
  have poke: "get_blink i v = get_blink i u" if "mp1_poke off c u = Some v" for off c u v
    using that by (auto simp: mp1_poke_def get_blink_def bind_eq_Some_conv)
  have upd: "map_option next_blink (get_blink i v) = map_option next_blink (get_blink i u)"
    if "upd_blink i g u = Some v" "\<And>b. next_blink (g b) = next_blink b" for g u v
    using get_upd_blink [OF that(1), of i] that(2) by (cases "get_blink i u") simp_all
  from assms obtain u where u: "upd_blink i (\<lambda>b. b\<lparr>countdown := countdown b - 1\<rparr>) s = Some u"
    and r: "t = u \<or> (\<exists>off c dx. do { v \<leftarrow> mp1_poke off c u; x \<leftarrow> upd_blink i (\<lambda>b. b\<lparr>countdown := dx\<rparr>) v;
      upd_blink i (\<lambda>b. b\<lparr>status := status b XOR 1\<rparr>) x } = Some t)"
    by (simp add: blink_once_def Let_def bind_eq_Some_conv split: if_splits) blast+
  then have rest: "t = u \<or> (\<exists>off c v dx x. mp1_poke off c u = Some v \<and> upd_blink i (\<lambda>b. b\<lparr>countdown := dx\<rparr>) v = Some x \<and>
      upd_blink i (\<lambda>b. b\<lparr>status := status b XOR 1\<rparr>) x = Some t)"
    by (simp add: bind_eq_Some_conv) blast
  have "map_option next_blink (get_blink i u) = map_option next_blink (get_blink i s)" by (rule upd [OF u]) simp
  moreover have "map_option next_blink (get_blink i t) = map_option next_blink (get_blink i u)"
    using rest
  proof (elim disjE exE conjE)
    fix off c v dx x
    assume p: "mp1_poke off c u = Some v" and x: "upd_blink i (\<lambda>b. b\<lparr>countdown := dx\<rparr>) v = Some x"
      and t: "upd_blink i (\<lambda>b. b\<lparr>status := status b XOR 1\<rparr>) x = Some t"
    have "map_option next_blink (get_blink i t) = map_option next_blink (get_blink i x)" by (rule upd [OF t]) simp
    also have "\<dots> = map_option next_blink (get_blink i v)" by (rule upd [OF x]) simp
    finally show ?thesis using poke [OF p] by simp
  qed simp
  ultimately show ?thesis by simp
qed

lemma own_successor:
  assumes "map_option next_blink (get_blink i s) = Some (Some i)"
  shows "tasklet_loop (Some i) s = None"
proof (rule ccontr)
  assume "tasklet_loop (Some i) s \<noteq> None"
  then obtain t where "tasklet_loop (Some i) s = Some t" by blast
  then have "\<forall>j. Some i = Some j \<longrightarrow> map_option next_blink (get_blink j s) \<noteq> Some (Some j)"
  proof (rule tasklet_loop.raw_induct [rotated])
    fix g and p and s t :: fish
    assume IH: "\<And>p s t. g p s = Some t \<Longrightarrow> \<forall>j. p = Some j \<longrightarrow> map_option next_blink (get_blink j s) \<noteq> Some (Some j)"
      and eq: "(case p of None \<Rightarrow> Some s
        | Some i \<Rightarrow> do { s \<leftarrow> blink_once i s; b \<leftarrow> get_blink i s; g (next_blink b) s }) = Some t"
    show "\<forall>j. p = Some j \<longrightarrow> map_option next_blink (get_blink j s) \<noteq> Some (Some j)"
    proof (intro allI impI notI)
      fix j assume p: "p = Some j" and j: "map_option next_blink (get_blink j s) = Some (Some j)"
      from eq p obtain s1 b where "blink_once j s = Some s1" "get_blink j s1 = Some b" "g (next_blink b) s1 = Some t"
        by (auto simp: bind_eq_Some_conv)
      then show False using IH blink_once_next j by fastforce
    qed
  qed
  then show False using assms by blast
qed

lemma add_runs:
  assumes "mapped f s" and "length (blink_array s) = 2000" and "mp1_malloc s = Some (Some i)" and "i < 2000" and "location b < 2000"
  shows "\<exists>t. mp1_ioctl_add b s = Some (0, t) \<and> mapped f t \<and> mp1_list_head t = Some i \<and>
    blink_array t = (blink_array s)[i := b\<lparr>status := 1, countdown := on_length b, next_blink := mp1_list_head s\<rparr>]"
proof -
  let ?c = "b\<lparr>status := 1, countdown := on_length b, next_blink := mp1_list_head s\<rparr>"
  let ?t = "s\<lparr>blink_array := (blink_array s)[i := ?c], mp1_list_head := Some i\<rparr>"
  have m: "mapped f ?t" using assms(1) by (simp add: mapped_def)
  have small: "2 * unat (location b) < 0x1000" by (rule offset_small [OF assms(5)])
  have "mapped f (drawn f [(2 * unat (location b), on_char b)] ?t)" by (rule mapped_drawn [OF m]) (use small in simp)
  then show ?thesis
    using assms(2-5) poke_draws [OF m small, of "on_char b"]
    by (simp add: mp1_ioctl_add_def Let_def upd_blink_in get_blink_in not_le)
qed

lemma add_at_origin:
  assumes "holds f s bs" and "length bs < 2000" and "location b = 0" and "0 < location c" and "location c < 2000"
  shows "\<exists>t u. mp1_ioctl_add b s = Some (0, t) \<and> mp1_ioctl_add c t = Some (0, u) \<and> mp1_rtc_tasklet u = None"
proof -
  obtain "is" where l: "linked s is" "bs = map (\<lambda>i. unlinked (blink_array s ! i)) is" and m: "mapped f s"
    using assms(1) by (auto simp: holds_def)
  have len: "length (blink_array s) = 2000" using l(1) by (simp add: linked_def)
  obtain i where i: "mp1_malloc s = Some (Some i)" "i < 2000" using malloc_finds [OF l(1)] assms(2) l(2) by auto
  have "location b < 2000" using assms(3) by simp
  then obtain t where t: "mp1_ioctl_add b s = Some (0, t)" "mapped f t"
    "blink_array t = (blink_array s)[i := b\<lparr>status := 1, countdown := on_length b, next_blink := mp1_list_head s\<rparr>]"
    "mp1_list_head t = Some i"
    using add_runs [OF m len i] by auto
  have "find (\<lambda>j. location (blink_array s ! j) = 0) [0..<80 * 25] = Some i"
    using i len by (simp add: mp1_malloc_def del: upt_rec_numeral)
  then have zero: "location (blink_array s ! i) = 0" by (auto simp: find_Some_iff simp del: upt_rec_numeral)
  have "location (blink_array t ! j) = location (blink_array s ! j)" for j
    using assms(3) zero len i(2) by (cases "j = i") (simp_all add: t(3))
  moreover have "length (blink_array t) = 2000" using t(3) len by simp
  ultimately have m2: "mp1_malloc t = Some (Some i)" using i(1) len by (simp add: mp1_malloc_def del: upt_rec_numeral)
  have len2: "length (blink_array t) = 2000" using t(3) len by simp
  obtain u where u: "mp1_ioctl_add c t = Some (0, u)" "mp1_list_head u = Some i"
    "blink_array u = (blink_array t)[i := c\<lparr>status := 1, countdown := on_length c, next_blink := mp1_list_head t\<rparr>]"
    using add_runs [OF t(2) len2 m2 i(2) assms(5)] by blast
  have "map_option next_blink (get_blink i u) = Some (Some i)"
    using u(3) t(4) i(2) len2 by (simp add: get_blink_in)
  then have "mp1_rtc_tasklet u = None" using own_successor u(2) by (simp add: mp1_rtc_tasklet_def)
  then show ?thesis using t(1) u(1) by blast
qed

subsection \<open>The screen of the program\<close>

text \<open>\<open>mp1_set_video_mode\<close>: the kernel maps the video page and stores its address in \<open>vmem_base_addr\<close>.\<close>

lemma vidmap_shows:
  assumes "on_show s" and "user_room a 4" and "a < OFF_128MB + OFF_4MB - 4"
  shows "\<exists>p. ece391_vidmap w a s = Some (0, (put_user a (le_bytes VIDM_ADDR) s)\<lparr>pg := p\<rparr>) \<and>
    on_show ((put_user a (le_bytes VIDM_ADDR) s)\<lparr>pg := p\<rparr>) \<and> vid_page VIDEO p"
proof -
  note run = on_show_running [OF assms(1)]
  have inv: "paging_inv (Some (current s)) (pg s)" using assms(1) by (simp add: on_show_def)
  have a: "OFF_128MB \<le> a" using assms(2) by (simp add: user_room_def)
  obtain p where p: "vidmap a s = Some (0, s\<lparr>pg := p, mem := poke (user_frame (current s) a) (le_bytes VIDM_ADDR) (mem s)\<rparr>)"
    "paging_inv (Some (current s)) p" "vid_page VIDEO p"
    using vidmap_eq [OF inv, of a] a assms(3) by blast
  let ?t = "(put_user a (le_bytes VIDM_ADDR) s)\<lparr>pg := p\<rparr>"
  have t: "?t = s\<lparr>pg := p, mem := poke (user_frame (current s) a) (le_bytes VIDM_ADDR) (mem s)\<rparr>" by (simp add: put_user_def)
  have "kernel_ok ?t" using runningD(1) [OF run] p(2) by (auto simp: t kernel_ok_def screen_ok_def)
  then have "on_show ?t" using assms(1) p(2) by (auto simp: on_show_def running_def current_def cur_fd_def t)
  moreover have "ece391_vidmap w a s = Some (0, ?t)"
    by (rule vidmap_call) (use p(1) t user_room_fits [OF assms(2)] in \<open>simp_all add: fits_int_def\<close>)
  ultimately show ?thesis using p(3) by blast
qed

text \<open>The program before its first blinker, on a machine that has run \<open>vidmap\<close>.\<close>

definition sample_fish :: fish where
  "sample_fish = \<lparr>blink_array = replicate 2000 blank_blinker, mp1_list_head = None, vmem_base_addr = 0x8048100,
     machine = snd (the (ece391_vidmap (sample_world []) 0x8048100 (sample_program [] [])))\<rparr>"

lemma no_blinkers:
  assumes "mapped f s" and "blink_array s = replicate 2000 blank_blinker" and "mp1_list_head s = None"
  shows "holds f s []"
proof -
  have "linked s []" using assms(2,3) by (simp add: linked_def blank_blinker_def)
  then show ?thesis using assms(1) unfolding holds_def by (intro conjI exI [of _ "[]"]) simp_all
qed

lemma sample_fish_holds: "holds VIDEO sample_fish []"
proof (rule no_blinkers)
  let ?s = "sample_program [] []" and ?a = "0x8048100 :: nat"
  have len: "length ([] :: u8 list) < 128" "length (literal_image []) \<le> 0x10000" by (simp_all add: literal_image_def)
  have "on_show ?s" by (rule child_on_show [OF sample_program(1) [OF len]])
  moreover have "user_room ?a 4" "?a < OFF_128MB + OFF_4MB - 4" by (simp_all add: user_room_def)
  ultimately obtain p where p: "ece391_vidmap (sample_world []) ?a ?s = Some (0, (put_user ?a (le_bytes VIDM_ADDR) ?s)\<lparr>pg := p\<rparr>)"
    "on_show ((put_user ?a (le_bytes VIDM_ADDR) ?s)\<lparr>pg := p\<rparr>)" "vid_page VIDEO p"
    using vidmap_shows by blast
  have "user_bytes (put_user ?a (le_bytes VIDM_ADDR) ?s) ?a (le_bytes VIDM_ADDR)"
    by (rule put_user_bytes) (simp add: user_room_def length_le_bytes)
  then have "user_bytes ((put_user ?a (le_bytes VIDM_ADDR) ?s)\<lparr>pg := p\<rparr>) ?a (le_bytes VIDM_ADDR)"
    by (simp add: user_bytes_def user_frame_def current_def)
  then show "mapped VIDEO sample_fish" using p by (simp add: mapped_def sample_fish_def)
qed (simp_all add: sample_fish_def)

definition sample_blinker :: blinker where
  "sample_blinker = blank_blinker\<lparr>location := 540, on_char := 0x49, off_char := 0x4D, on_length := 7, off_length := 6\<rparr>"

subsection \<open>Properties\<close>

text \<open>C31. The blinking driver implements its specification, for any sequence of additions, removals, searches,
  synchronisations and ticks: the answers are those of the list of blinkers (an addition puts a blinker
  at the front or fails when the location is not on the screen or all 2000 structures are in use; a
  removal takes the first blinker of the location out), the linked list of structures stays well-formed,
  and the video memory changes exactly by what the blinkers draw. A synchronisation draws the character
  for "off" whatever the status is. Additions at location 0 are excepted.\<close>

theorem blink_driver_refines:
  assumes "holds f s bs" and "\<forall>x \<in> set xs. off_origin x"
  shows "\<exists>t. perform_all xs s = Some (fst (spec_run xs bs), t) \<and> holds f t (fst (snd (spec_run xs bs))) \<and>
     mem (machine t) = draw f (snd (snd (spec_run xs bs))) (mem (machine s))"
  using perform_all_refines [OF assms, of "fst (spec_run xs bs)" "fst (snd (spec_run xs bs))" "snd (snd (spec_run xs bs))"] draws_mem by auto

theorem blink_driver_refines_witness:
  "\<exists>t. perform_all [Add sample_blinker, Sync 0x021C021C, Tick, Remove 540, Remove 540] sample_fish = Some ([0, 0, 0, 0, -1], t) \<and>
     mem (machine t) = (mem (machine sample_fish))(VIDEO + 1080 := 0x4D)"
  using blink_driver_refines [OF sample_fish_holds, of "[Add sample_blinker, Sync 0x021C021C, Tick, Remove 540, Remove 540]"]
  by (auto simp: off_origin_def sample_blinker_def started_def timed_def at_location_def tick_def change_def blank_blinker_def Let_def)

text \<open>C32. A blinker blinks: \<open>n\<close> ticks after it was added the cell of its location shows the character for "on"
  if \<open>n\<close> modulo the sum of its two lengths is less than the length for "on", and the other character
  if not. The lengths are at most 32768, since the countdown is compared as a signed word; the other
  blinkers are anywhere else.\<close>

theorem blinker_blinks:
  assumes "holds f s bs" and "started b \<in> set bs" and "\<forall>c \<in> set bs. location c = location b \<longrightarrow> c = started b"
    and "timed_ok (on_length b)" and "timed_ok (off_length b)" and "mem (machine s) (f + 2 * unat (location b)) = on_char b"
  shows "\<exists>t. perform_all (replicate n Tick) s = Some (replicate n 0, t) \<and>
     mem (machine t) (f + 2 * unat (location b)) =
       (if n mod (unat (on_length b) + unat (off_length b)) < unat (on_length b) then on_char b else off_char b)"
proof -
  let ?b = "unlinked b"
  have b: "location ?b = location b" "on_length ?b = on_length b" "off_length ?b = off_length b"
    "on_char ?b = on_char b" "off_char ?b = off_char b" by (simp_all add: unlinked_def)
  have at: "started b = blinker_at ?b 0" by (rule started_at(1) [OF assms(4)])
  have "0 < unat (on_length b)" using assms(4) by (simp add: timed_ok_def word_less_nat_alt)
  then have "mem (machine s) (f + 2 * unat (location ?b)) = (if phase ?b 0 then on_char ?b else off_char ?b)"
    using assms(6) by (simp add: started_at(2) b)
  moreover have "blinker_at ?b 0 \<in> set bs" using assms(2) at by simp
  moreover have "\<forall>c \<in> set bs. location c = location ?b \<longrightarrow> c = blinker_at ?b 0" using assms(3) at b by simp
  moreover have "timed_ok (on_length ?b)" "timed_ok (off_length ?b)" using assms(4,5) b by simp_all
  ultimately obtain t where "perform_all (replicate n Tick) s = Some (replicate n 0, t)"
    "mem (machine t) (f + 2 * unat (location ?b)) = (if phase ?b (0 + n) then on_char ?b else off_char ?b)"
    using ticks_show assms(1) by blast
  then show ?thesis by (simp add: phase_def b)
qed

theorem blinker_blinks_witness:
  "\<exists>s t. perform (Add sample_blinker) sample_fish = Some (0, s) \<and> perform_all (replicate 20 Tick) s = Some (replicate 20 0, t) \<and>
     mem (machine t) (VIDEO + 1080) = 0x4D"
proof -
  let ?b = sample_blinker
  have "spec (Add ?b) [] = (0, [started ?b], [(1080, 0x49)])" by (simp add: sample_blinker_def blank_blinker_def)
  moreover have "off_origin (Add ?b)" by (simp add: off_origin_def sample_blinker_def)
  ultimately obtain s where s: "perform (Add ?b) sample_fish = Some (0, s)" "holds VIDEO s [started ?b]"
    "mem (machine s) = draw VIDEO [(1080, 0x49)] (mem (machine sample_fish))"
    using perform_refines [OF sample_fish_holds] draws_mem by blast
  have b: "location ?b = 540" "on_length ?b = 7" "off_length ?b = 6" "on_char ?b = 0x49" "off_char ?b = 0x4D"
    by (simp_all add: sample_blinker_def)
  have "\<exists>t. perform_all (replicate 20 Tick) s = Some (replicate 20 0, t) \<and>
     mem (machine t) (VIDEO + 2 * unat (location ?b)) =
       (if 20 mod (unat (on_length ?b) + unat (off_length ?b)) < unat (on_length ?b) then on_char ?b else off_char ?b)"
    by (rule blinker_blinks [OF s(2)]) (use s(3) b in \<open>simp_all add: timed_ok_def\<close>)
  then show ?thesis using s(1) by (simp add: b)
qed

text \<open>C36. A blinker at location 0, the upper left corner, which the driver accepts: its structure still looks
  free, the next blinker that is added takes it, and its pointer to the next structure points to itself.
  The tasklet never returns from such a list.\<close>

theorem blink_origin_loops:
  assumes "holds f s bs" and "length bs < 2000" and "location b = 0" and "0 < location c" and "location c < 2000"
  shows "\<exists>t u. perform (Add b) s = Some (0, t) \<and> perform (Add c) t = Some (0, u) \<and> perform Tick u = None"
  using add_at_origin [OF assms] by (auto simp: mp1_ioctl_def)

theorem blink_origin_loops_witness:
  "\<exists>t u. perform (Add blank_blinker) sample_fish = Some (0, t) \<and> perform (Add sample_blinker) t = Some (0, u) \<and> perform Tick u = None"
  using blink_origin_loops [OF sample_fish_holds, of blank_blinker sample_blinker]
  by (simp add: sample_blinker_def blank_blinker_def)

end
