(* ===== verification/Fish_Program.thy ===== *)
theory Fish_Program
  imports Blink_Time User_Clock
begin

text \<open>
  The program \<open>fish\<close> (\<^verbatim>\<open>fish/fish.c\<close>): it maps the screen, reads two pictures from files, adds a blinker
  for every place where one of them has a character, and lets the clock drive the blinking.
  The blinkers and the driver are those of theory Blink; calls of the kernel act on the machine.
\<close>

subsection \<open>The program\<close>

text \<open>The addresses of the variables whose addresses are taken, and of the names of the files.\<close>

record fish_vars =
  file0_at :: nat
  file1_at :: nat
  c0_at :: nat
  c1_at :: nat
  ret_val_at :: nat
  garbage_at :: nat

definition on_machine :: "(kst \<Rightarrow> ('a \<times> kst) option) \<Rightarrow> fish \<Rightarrow> ('a \<times> fish) option" where
  "on_machine f s = do { (r, k) \<leftarrow> f (machine s); Some (r, s\<lparr>machine := k\<rparr>) }"

definition set_byte :: "nat \<Rightarrow> u8 \<Rightarrow> fish \<Rightarrow> fish option" where
  "set_byte a b s = do { k \<leftarrow> user_store a b (machine s); Some (s\<lparr>machine := k\<rparr>) }"

definition mp1_set_video_mode :: "world \<Rightarrow> fish \<Rightarrow> (u32 \<times> fish) option" where
  "mp1_set_video_mode w s =
     do { (r, s) \<leftarrow> on_machine (ece391_vidmap w (vmem_base_addr s)) s;
          if r = -1 then Some (0, s)
          else do { p \<leftarrow> rd32 (uview (machine s)) (vmem_base_addr s); Some (p, s) } }"

text \<open>The next character of a file, unless its row has ended.\<close>

definition next_char :: "world \<Rightarrow> int \<Rightarrow> nat \<Rightarrow> bool \<Rightarrow> fish \<Rightarrow> (bool \<times> fish) option" where
  "next_char w fd c eof s =
     do { x \<leftarrow> uview (machine s) c;
          if x \<noteq> 0x0A then
            do { (num_bytes, s) \<leftarrow> on_machine (ece391_read w fd c 1) s;
                 if num_bytes = 0 then do { s \<leftarrow> set_byte c 0x0A s; Some (True, s) } else Some (eof, s) }
          else Some (eof, s) }"

text \<open>
  What the loop over the columns of a row does with two characters, and the loop. \<open>blink_struct\<close> is the local
  structure of \<open>add_frames\<close>, whose other members hold what was on the stack.
\<close>

definition frame_cell :: "blinker \<Rightarrow> nat \<Rightarrow> nat \<Rightarrow> u8 \<Rightarrow> u8 \<Rightarrow> fish \<Rightarrow> fish option" where
  "frame_cell blink_struct row col c0 c1 s =
     (if (c0 \<noteq> 0x20 \<and> c0 \<noteq> 0x0A) \<or> (c1 \<noteq> 0x20 \<and> c1 \<noteq> 0x0A) then
        do { let b = blink_struct\<lparr>on_char := if c0 = 0x0A then 0x20 else c0,
               off_char := if c1 = 0x0A then 0x20 else c1, location := word_of_nat (row * 80 + col + 40)\<rparr>;
             (_, _, s) \<leftarrow> mp1_ioctl (Struct b) 0 s;
             Some s }
      else Some s)"

partial_function (option) frame_columns ::
  "world \<Rightarrow> fish_vars \<Rightarrow> int \<Rightarrow> int \<Rightarrow> blinker \<Rightarrow> nat \<Rightarrow> nat \<Rightarrow> bool \<Rightarrow> bool \<Rightarrow> fish \<Rightarrow> (bool \<times> bool \<times> fish) option" where
  "frame_columns w v fd0 fd1 blink_struct row col eof0 eof1 s =
     do { (eof0, s) \<leftarrow> next_char w fd0 (c0_at v) eof0 s;
          (eof1, s) \<leftarrow> next_char w fd1 (c1_at v) eof1 s;
          c0 \<leftarrow> uview (machine s) (c0_at v);
          c1 \<leftarrow> uview (machine s) (c1_at v);
          if c0 = 0x0A \<and> c1 = 0x0A then Some (eof0, eof1, s)
          else
            do { s \<leftarrow> frame_cell blink_struct row col c0 c1 s;
                 frame_columns w v fd0 fd1 blink_struct row (col + 1) eof0 eof1 s } }"

definition end_of_row :: "world \<Rightarrow> int \<Rightarrow> nat \<Rightarrow> bool \<Rightarrow> fish \<Rightarrow> fish option" where
  "end_of_row w fd c eof s =
     (if eof then do { s \<leftarrow> set_byte c 0x0A s; (_, s) \<leftarrow> on_machine (ece391_close w fd) s; Some s }
      else set_byte c 0x30 s)"

partial_function (option) frame_rows ::
  "world \<Rightarrow> fish_vars \<Rightarrow> int \<Rightarrow> int \<Rightarrow> blinker \<Rightarrow> nat \<Rightarrow> bool \<Rightarrow> bool \<Rightarrow> fish \<Rightarrow> fish option" where
  "frame_rows w v fd0 fd1 blink_struct row eof0 eof1 s =
     (if eof0 \<and> eof1 then Some s
      else
        do { (eof0, eof1, s) \<leftarrow> frame_columns w v fd0 fd1 blink_struct row 0 eof0 eof1 s;
             s \<leftarrow> end_of_row w fd0 (c0_at v) eof0 s;
             s \<leftarrow> end_of_row w fd1 (c1_at v) eof1 s;
             frame_rows w v fd0 fd1 blink_struct (row + 1) eof0 eof1 s })"

definition open_frame :: "world \<Rightarrow> nat \<Rightarrow> fish \<Rightarrow> (int \<times> fish) option" where
  "open_frame w f s =
     do { (fd, s) \<leftarrow> on_machine (ece391_open w f) s;
          if fd < 0 then do { (_, s) \<leftarrow> on_machine (ece391_halt w 0xFF) s; Some (fd, s) } else Some (fd, s) }"

definition add_frames :: "world \<Rightarrow> fish_vars \<Rightarrow> blinker \<Rightarrow> fish \<Rightarrow> fish option" where
  "add_frames w v blink_struct s =
     do { s \<leftarrow> set_byte (c0_at v) 0x30 s;
          s \<leftarrow> set_byte (c1_at v) 0x30 s;
          (fd0, s) \<leftarrow> open_frame w (file0_at v) s;
          (fd1, s) \<leftarrow> open_frame w (file1_at v) s;
          frame_rows w v fd0 fd1 (blink_struct\<lparr>on_length := 15, off_length := 15\<rparr>) 0 False False s }"

text \<open>Setting the clock to 32 Hz, the four loops of \<open>main\<close>, and \<open>main\<close>.\<close>

definition set_frequency :: "world \<Rightarrow> fish_vars \<Rightarrow> int \<Rightarrow> fish \<Rightarrow> fish option" where
  "set_frequency w v rtc_fd s =
     do { k \<leftarrow> store32 (ret_val_at v) 32 (machine s);
          (r, k) \<leftarrow> ece391_write w rtc_fd (ret_val_at v) 4 k;
          k \<leftarrow> store32 (ret_val_at v) (word_of_int r) k;
          Some (s\<lparr>machine := k\<rparr>) }"

definition hundred_ticks :: "world \<Rightarrow> fish_vars \<Rightarrow> int \<Rightarrow> fish \<Rightarrow> fish option" where
  "hundred_ticks w v rtc_fd =
     for_each [0..<100] (\<lambda>_ s. do { (_, s) \<leftarrow> on_machine (ece391_read w rtc_fd (garbage_at v) 4) s; mp1_rtc_tasklet s })"

definition fish_main :: "world \<Rightarrow> fish_vars \<Rightarrow> blinker \<Rightarrow> blinker \<Rightarrow> fish \<Rightarrow> (int \<times> fish) option" where
  "fish_main w v blink_struct frame_struct s =
     do { let s = s\<lparr>blink_array := replicate (80 * 25) blank_blinker\<rparr>;
          (p, s) \<leftarrow> mp1_set_video_mode w s;
          if p = 0 then Some (-1, s)
          else
            do { (rtc_fd, s) \<leftarrow> on_machine (ece391_open w (lit w ''rtc'')) s;
                 s \<leftarrow> add_frames w v frame_struct s;
                 s \<leftarrow> set_frequency w v rtc_fd s;
                 s \<leftarrow> hundred_ticks w v rtc_fd s;
                 let b = blink_struct\<lparr>on_char := 0x49, off_char := 0x4D, on_length := 7, off_length := 6,
                   location := 6 * 80 + 60\<rparr>;
                 (_, _, s) \<leftarrow> mp1_ioctl (Struct b) 0 s;
                 s \<leftarrow> hundred_ticks w v rtc_fd s;
                 (_, _, s) \<leftarrow> mp1_ioctl (Number (push_bit 16 40 OR (6 * 80 + 60))) 3 s;
                 s \<leftarrow> hundred_ticks w v rtc_fd s;
                 (_, _, s) \<leftarrow> mp1_ioctl (Number (6 * 80 + 60)) 1 s;
                 s \<leftarrow> hundred_ticks w v rtc_fd s;
                 (_, s) \<leftarrow> on_machine (ece391_close w rtc_fd) s;
                 Some (0, s) } }"

subsection \<open>The pictures\<close>

text \<open>What is left of a file, or \<open>None\<close> when it has ended: the row and what follows it.\<close>

definition row_of :: "u8 list option \<Rightarrow> u8 list" where
  "row_of p = (case p of None \<Rightarrow> [] | Some bs \<Rightarrow> takeWhile (\<lambda>c. c \<noteq> 0x0A) bs)"

definition rest_of :: "u8 list option \<Rightarrow> u8 list option" where
  "rest_of p = (case p of None \<Rightarrow> None | Some bs \<Rightarrow>
     (case dropWhile (\<lambda>c. c \<noteq> 0x0A) bs of [] \<Rightarrow> None | _ # cs \<Rightarrow> Some cs))"

definition shown_char :: "u8 list \<Rightarrow> nat \<Rightarrow> u8" where
  "shown_char r j = (if j < length r then r ! j else 0x20)"

text \<open>The blinker for two characters at a place, if one of them is not a blank, and those of a row from a column on.\<close>

definition cell_blinker :: "blinker \<Rightarrow> nat \<Rightarrow> nat \<Rightarrow> u8 \<Rightarrow> u8 \<Rightarrow> blinker list" where
  "cell_blinker b row col x y = (if x = 0x20 \<and> y = 0x20 then []
     else [b\<lparr>on_char := x, off_char := y, location := word_of_nat (row * 80 + col + 40)\<rparr>])"

definition row_blinkers :: "blinker \<Rightarrow> nat \<Rightarrow> nat \<Rightarrow> u8 list \<Rightarrow> u8 list \<Rightarrow> blinker list" where
  "row_blinkers b row col p q =
     concat (map (\<lambda>j. cell_blinker b row (col + j) (shown_char p j) (shown_char q j)) [0..<max (length p) (length q)])"

definition left_of :: "u8 list option \<Rightarrow> nat" where
  "left_of p = (case p of None \<Rightarrow> 0 | Some bs \<Rightarrow> Suc (length bs))"

lemma rest_of_less: "left_of (rest_of p) \<le> left_of p" "p \<noteq> None \<Longrightarrow> left_of (rest_of p) < left_of p"
proof -
  show less: "left_of (rest_of p) < left_of p" if ne: "p \<noteq> None" for p
  proof -
    obtain bs where p: "p = Some bs" using ne by blast
    have "length (dropWhile (\<lambda>c. c \<noteq> 0x0A) bs) \<le> length bs" by (rule length_dropWhile_le)
    then show ?thesis by (auto simp: rest_of_def left_of_def p split: list.splits)
  qed
  show "left_of (rest_of p) \<le> left_of p" using less [of p] by (cases p) (auto simp: rest_of_def)
qed

text \<open>The blinkers of two pictures, from a row on.\<close>

function picture :: "blinker \<Rightarrow> nat \<Rightarrow> u8 list option \<Rightarrow> u8 list option \<Rightarrow> blinker list" where
  "picture b row p q =
     (if p = None \<and> q = None then []
      else row_blinkers b row 0 (row_of p) (row_of q) @ picture b (Suc row) (rest_of p) (rest_of q))"
  by pat_completeness auto
termination
proof (relation "measure (\<lambda>(b, row, p, q). left_of p + left_of q)", goal_cases)
  case 1
  then show ?case by simp
next
  case (2 b row p q)
  then show ?case using rest_of_less [of p] rest_of_less [of q] by (cases "p = None") (auto intro: add_less_le_mono add_le_less_mono)
qed

declare picture.simps [simp del]

lemma shown_char_tl: "shown_char (tl r) j = shown_char r (Suc j)"
  by (auto simp: shown_char_def nth_tl)

lemma row_blinkers_step:
  "row_blinkers b row col p q = (if p = [] \<and> q = [] then []
     else cell_blinker b row col (shown_char p 0) (shown_char q 0) @ row_blinkers b row (Suc col) (tl p) (tl q))"
proof (cases "max (length p) (length q)")
  case 0
  then show ?thesis by (simp add: row_blinkers_def)
next
  case (Suc n)
  then have n: "max (length (tl p)) (length (tl q)) = n" "\<not> (p = [] \<and> q = [])" by auto
  have upt: "[0..<Suc n] = 0 # map Suc [0..<n]" by (simp only: upt_conv_Cons map_Suc_upt zero_less_Suc)
  have "row_blinkers b row col p q = cell_blinker b row col (shown_char p 0) (shown_char q 0) @
      concat (map (\<lambda>j. cell_blinker b row (col + Suc j) (shown_char p (Suc j)) (shown_char q (Suc j))) [0..<n])"
    unfolding row_blinkers_def Suc upt by (simp add: o_def)
  then show ?thesis unfolding if_not_P [OF n(2)] by (simp add: row_blinkers_def shown_char_tl n(1) del: length_tl)
qed

end
