(* ===== verification/Fish_Rows.thy ===== *)
theory Fish_Rows
  imports Fish_Program
begin

text \<open>
  How the steps of \<open>fish\<close> compose: what they do to the machine (\<open>paints\<close>) and to the blinkers (\<open>plays\<close>), and the
  loops over the rows and columns of the two pictures, against \<open>picture\<close>.
\<close>

subsection \<open>What the program does to its machine\<close>

text \<open>
  Between two states the program has drawn \<open>cs\<close> and has otherwise changed only the bytes \<open>A\<close> and the
  descriptors \<open>F\<close>; the clients of the clock are the same.
\<close>

definition paints :: "nat set \<Rightarrow> nat set \<Rightarrow> (nat \<times> u8) list \<Rightarrow> kst \<Rightarrow> kst \<Rightarrow> bool" where
  "paints A F cs k l \<longleftrightarrow> on_show k \<and> on_show l \<and> current l = current k \<and> pg l = pg k \<and> fs l = fs k \<and> fs_image l = fs_image k \<and>
     client (own_clock l) = client (own_clock k) \<and> (\<forall>i < 8. i \<notin> F \<longrightarrow> cur_fd l i = cur_fd k i) \<and>
     (\<forall>a. (a < VIDEO \<or> 0xBC000 \<le> a) \<and> a \<notin> A \<longrightarrow> mem l a = mem k a) \<and>
     (\<forall>off < 4000. mem l (VIDEO + off) = draw VIDEO cs (mem k) (VIDEO + off))"

lemma screen_cells:
  assumes "screen_of t = screen_of s" and "off < 4000"
  shows "mem t (VIDEO + off) = mem s (VIDEO + off)"
proof -
  let ?r = "off div 2 div 80" and ?c = "off div 2 mod 80"
  have "off div 2 < 2000" using assms(2) by simp
  then have rc: "?r < 25" "?c < 80" "80 * ?r + ?c = off div 2" by simp_all
  have "cells_at VIDEO (mem t) ! ?r ! ?c = cells_at VIDEO (mem s) ! ?r ! ?c" using assms(1) by (simp add: screen_of_def)
  then have "mem t (VIDEO + 2 * (off div 2)) = mem s (VIDEO + 2 * (off div 2))"
    "mem t (VIDEO + 2 * (off div 2) + 1) = mem s (VIDEO + 2 * (off div 2) + 1)"
    using cells_at_nth [OF rc(1,2)] unfolding rc(3) by simp_all
  then show ?thesis using mod_mult_div_eq [of off 2] by (cases "even off") (auto elim!: evenE oddE simp: algebra_simps)
qed

lemma paints_emits:
  assumes "emits A [] k l" and "\<And>i. i < 8 \<Longrightarrow> i \<notin> F \<Longrightarrow> cur_fd l i = cur_fd k i"
  shows "paints A F [] k l"
  using assms emits_clock [OF assms(1)] screen_cells [of l k] by (auto simp: paints_def emits_def typed_def)

lemma draw_agrees: "m (f + off) = m' (f + off) \<Longrightarrow> draw f cs m (f + off) = draw f cs m' (f + off)"
proof (induction f cs m arbitrary: m' rule: draw.induct)
  case (2 f k c cs m)
  have "(m(f + k := c)) (f + off) = (m'(f + k := c)) (f + off)" using 2(2) by simp
  then show ?case unfolding draw.simps by (rule 2)
qed simp

lemma paints_trans: "paints A F cs k l \<Longrightarrow> paints A F ds l m \<Longrightarrow> paints A F (cs @ ds) k m"
  using draw_agrees [of "mem l" VIDEO _ "draw VIDEO cs (mem k)" ds] by (simp add: paints_def draw_append)

lemma paints_mono: "paints A F cs k l \<Longrightarrow> A \<subseteq> B \<Longrightarrow> F \<subseteq> G \<Longrightarrow> paints B G cs k l"
  by (auto simp: paints_def)

lemma draw_elsewhere: "\<forall>(off, c) \<in> set cs. a \<noteq> f + off \<Longrightarrow> draw f cs m a = m a"
  by (induction f cs m rule: draw.induct) auto

lemma paints_draws:
  assumes "on_show k" and "l = k\<lparr>mem := draw VIDEO cs (mem k)\<rparr>" and "\<forall>(off, c) \<in> set cs. off < 0x1000"
  shows "paints A F cs k l"
proof -
  have other: "draw VIDEO cs (mem k) a = mem k a" if "a < VIDEO \<or> 0xB9000 \<le> a" for a
    by (rule draw_elsewhere) (use assms(3) that in auto)
  then have "fs_image l = fs_image k" by (auto simp: assms(2) fs_image_def)
  moreover have "on_show l" using assms(1) unfolding on_show_def running_def kernel_ok_def screen_ok_def
    by (auto simp: assms(2) current_def cur_fd_def)
  ultimately show ?thesis
    using assms(1) other by (auto simp: paints_def assms(2) current_def cur_fd_def own_clock_def)
qed

lemma paints_bytes:
  assumes "paints A F cs k l" and "user_bytes k a bs" and "array_at (current k) a (length bs) \<inter> A = {}"
  shows "user_bytes l a bs"
proof -
  have "mem l (user_frame (current k) a + i) = mem k (user_frame (current k) a + i)" if "i < length bs" for i
  proof -
    have "user_frame (current k) a + i \<notin> A" using assms(3) that by (auto simp: array_at_def disjoint_iff)
    then show ?thesis using assms(1) by (simp add: paints_def user_frame_def)
  qed
  then show ?thesis using assms(1,2) by (simp add: user_bytes_def paints_def)
qed

lemma paints_open_file:
  assumes "paints A F cs k l" and "open_file k fd bytes" and "fd \<notin> F"
  shows "open_file l fd bytes" "position l fd = position k fd"
proof -
  have fd: "fd < 8" using assms(2) by (simp add: open_file_def reading_def)
  then have c: "cur_fd l fd = cur_fd k fd" using assms(1,3) by (simp add: paints_def)
  then show "position l fd = position k fd" by (simp add: position_def)
  have "running l" using assms(1) on_show_running by (simp add: paints_def)
  then show "open_file l fd bytes" using assms(1,2) c by (simp add: open_file_def reading_def paints_def)
qed

subsection \<open>Reading the rows\<close>

text \<open>A file within a row, with what is left of it, or at the end of a row, with what is left behind it.\<close>

datatype side = Reading "u8 list" | Ended "u8 list option"

fun advance :: "side \<Rightarrow> side" where
  "advance (Reading []) = Ended None"
| "advance (Reading (c # r)) = (if c = 0x0A then Ended (Some r) else Reading r)"
| "advance (Ended p) = Ended p"

fun char_after :: "side \<Rightarrow> u8" where
  "char_after (Reading (c # r)) = c"
| "char_after d = 0x0A"

fun line_left :: "side \<Rightarrow> u8 list" where
  "line_left (Reading r) = row_of (Some r)"
| "line_left (Ended p) = []"

fun behind :: "side \<Rightarrow> u8 list option" where
  "behind (Reading r) = rest_of (Some r)"
| "behind (Ended p) = p"

lemma advance_facts:
  "line_left (advance d) = tl (line_left d)" "behind (advance d) = behind d"
  "char_after d = 0x0A \<longleftrightarrow> line_left d = []" "char_after d = 0x0A \<Longrightarrow> advance d = Ended (behind d)"
  "line_left d \<noteq> [] \<Longrightarrow> char_after d = hd (line_left d)"
  by (cases d rule: advance.cases; auto simp: row_of_def rest_of_def)+

definition at_side :: "kst \<Rightarrow> nat \<Rightarrow> u8 list \<Rightarrow> nat \<Rightarrow> bool \<Rightarrow> side \<Rightarrow> bool" where
  "at_side k fd bytes c eof d \<longleftrightarrow> 2 \<le> fd \<and> fd < 8 \<and>
     (case d of
        Reading r \<Rightarrow> \<not> eof \<and> (\<exists>x. x \<noteq> 0x0A \<and> user_bytes k c [x]) \<and> open_file k fd bytes \<and> drop (position k fd) bytes = r
      | Ended p \<Rightarrow> user_bytes k c [0x0A] \<and>
          (case p of Some r \<Rightarrow> \<not> eof \<and> open_file k fd bytes \<and> drop (position k fd) bytes = r
           | None \<Rightarrow> eof \<and> (open_file k fd bytes \<or> fd_flags (cur_fd k fd) = FD_ABSENT)))"

lemma paints_side:
  assumes "paints A F cs k l" and "at_side k fd bytes c eof d" and "fd \<notin> F" and "array_at (current k) c 1 \<inter> A = {}"
  shows "at_side l fd bytes c eof d"
proof -
  have b: "user_bytes l c [x]" if "user_bytes k c [x]" for x using paints_bytes [OF assms(1) that] assms(4) by simp
  have fd: "cur_fd l fd = cur_fd k fd" using assms(1-3) by (simp add: paints_def at_side_def)
  show ?thesis
    using assms(2) b fd paints_open_file [OF assms(1) _ assms(3), of bytes]
    by (auto simp: at_side_def split: side.splits option.splits)
qed

lemma paints_on_show: "paints A F cs k l \<Longrightarrow> on_show k" "paints A F cs k l \<Longrightarrow> on_show l"
  "paints A F cs k l \<Longrightarrow> current l = current k"
  by (simp_all add: paints_def)

lemma user_room_1: "user_bytes k c [x] \<Longrightarrow> user_room c 1"
  using user_bytes_room [of k c "[x]"] by simp

lemma set_byte_paints:
  assumes "on_show (machine s)" and "user_room c 1"
  shows "set_byte c x s = Some (s\<lparr>machine := put_user c [x] (machine s)\<rparr>)"
    "paints (array_at (current (machine s)) c 1) {} [] (machine s) (put_user c [x] (machine s))"
    "user_bytes (put_user c [x] (machine s)) c [x]"
proof -
  show "set_byte c x s = Some (s\<lparr>machine := put_user c [x] (machine s)\<rparr>)"
    using user_store_eq [OF assms(1), of c 0 x] assms(2) by (simp add: set_byte_def)
  have "emits (array_at (current (machine s)) c 1) [] (machine s) (put_user c [x] (machine s))"
    using put_user_emits [OF assms(1), of c "[x]"] assms(2) by simp
  then show "paints (array_at (current (machine s)) c 1) {} [] (machine s) (put_user c [x] (machine s))"
    by (rule paints_emits) simp
  show "user_bytes (put_user c [x] (machine s)) c [x]" using put_user_bytes [of c "[x]"] assms(2) by simp
qed

lemma next_char_step:
  assumes "on_show (machine s)" and "at_side (machine s) fd bytes c eof d"
  shows "\<exists>eof' k. next_char w (int fd) c eof s = Some (eof', s\<lparr>machine := k\<rparr>) \<and>
    paints (array_at (current (machine s)) c 1) {fd} [] (machine s) k \<and> at_side k fd bytes c eof' (advance d) \<and>
    user_bytes k c [char_after d]"
proof -
  let ?k = "machine s" and ?A = "array_at (current (machine s)) c 1"
  have view: "uview l c = Some x" if "on_show l" "user_bytes l c [x]" for l x
    using user_bytes_uview [OF that, of 0] by simp
  show ?thesis
  proof (cases d)
    case (Ended p)
    then have b: "user_bytes ?k c [0x0A]" using assms(2) by (simp add: at_side_def)
    have "paints ?A {fd} [] ?k ?k" using assms(1) by (simp add: paints_def)
    then show ?thesis
      using view [OF assms(1) b] b assms(2) Ended by (intro exI [of _ eof] exI [of _ ?k]) (simp add: next_char_def)
  next
    case (Reading r)
    then obtain x where x: "x \<noteq> 0x0A" "user_bytes ?k c [x]" and o: "open_file ?k fd bytes" "drop (position ?k fd) bytes = r"
      and fd: "2 \<le> fd" "fd < 8" "\<not> eof" using assms(2) by (auto simp: at_side_def)
    note room = user_room_1 [OF x(2)]
    obtain k where k: "ece391_read w (int fd) c (int 1) ?k = Some (int (length (take 1 r)), k)" "emits ?A [] ?k k"
      "open_file k fd bytes" "user_bytes k c (take 1 r)" "position k fd = position ?k fd + length (take 1 r)"
      "\<forall>i < 8. i \<noteq> fd \<longrightarrow> cur_fd k i = cur_fd ?k i"
      using read_file_call [OF assms(1) o(1) room, of ?A "take 1 r" w] o(2) by auto
    have p: "paints ?A {fd} [] ?k k" using k(6) by (intro paints_emits [OF k(2)]) simp
    have "next_char w (int fd) c eof s = (if int (length (take 1 r)) = 0
        then do { s \<leftarrow> set_byte c 0x0A (s\<lparr>machine := k\<rparr>); Some (True, s) } else Some (eof, s\<lparr>machine := k\<rparr>))"
      using view [OF assms(1) x(2)] x(1) k(1) by (simp add: next_char_def on_machine_def)
    then have run: "next_char w (int fd) c eof s =
        (if take 1 r = [] then do { s \<leftarrow> set_byte c 0x0A (s\<lparr>machine := k\<rparr>); Some (True, s) } else Some (eof, s\<lparr>machine := k\<rparr>))"
      by (simp only: of_nat_eq_0_iff length_0_conv)
    have "drop (position k fd) bytes = drop (length (take 1 r)) (drop (position ?k fd) bytes)"
      unfolding k(5) by (simp only: drop_drop add.commute)
    then have rest: "drop (position k fd) bytes = drop 1 r" using o(2) by (cases r) simp_all
    show ?thesis
    proof (cases r)
      case Nil
      let ?l = "put_user c [0x0A] k"
      have ons: "on_show (machine (s\<lparr>machine := k\<rparr>))" using paints_on_show [OF p] by simp
      note sb = set_byte_paints [OF ons room, of "0x0A", simplified]
      have cur: "current k = current ?k" using paints_on_show [OF p] by simp
      have "paints ?A {fd} [] k ?l" using sb(2) paints_mono [of ?A "{}" "[]" k ?l ?A "{fd}"] by (simp add: cur)
      then have "paints ?A {fd} [] ?k ?l" using paints_trans [OF p] by fastforce
      moreover have "open_file ?l fd bytes" using paints_open_file [OF sb(2) k(3)] by simp
      ultimately show ?thesis
        using run Nil sb fd Reading
        by (intro exI [of _ True] exI [of _ ?l]) (simp add: at_side_def)
    next
      case (Cons y ys)
      have b: "user_bytes k c [y]" using k(4) Cons by simp
      then show ?thesis
        using run Cons p fd k(3) rest Reading b
        by (intro exI [of _ eof] exI [of _ k]) (auto simp: at_side_def)
    qed
  qed
qed

subsection \<open>Steps of the program\<close>

text \<open>From the blinkers \<open>bs\<close> to the blinkers \<open>bs'\<close> by the operations \<open>xs\<close> of the driver, with what they draw.\<close>

definition plays :: "nat set \<Rightarrow> nat set \<Rightarrow> op list \<Rightarrow> fish \<Rightarrow> blinker list \<Rightarrow> fish \<Rightarrow> blinker list \<Rightarrow> bool" where
  "plays A F xs s bs t bs' \<longleftrightarrow> holds VIDEO s bs \<and> holds VIDEO t bs' \<and> vmem_base_addr t = vmem_base_addr s \<and>
     (\<exists>rs cs. spec_run xs bs = (rs, bs', cs) \<and> paints A F cs (machine s) (machine t))"

lemma spec_run_append:
  "spec_run xs bs = (rs, bs1, cs) \<Longrightarrow> spec_run ys bs1 = (rs', bs2, ds) \<Longrightarrow> spec_run (xs @ ys) bs = (rs @ rs', bs2, cs @ ds)"
proof (induction xs arbitrary: bs rs cs)
  case Nil
  then show ?case by simp
next
  case (Cons x xs)
  obtain r bs' cs' where x: "spec x bs = (r, bs', cs')" by (rule prod_cases3)
  obtain rs1 bs1' cs1 where y: "spec_run xs bs' = (rs1, bs1', cs1)" by (rule prod_cases3)
  then show ?case using Cons x by (auto simp: x y)
qed

lemma plays_trans: "plays A F xs s bs t bs1 \<Longrightarrow> plays A F ys t bs1 u bs2 \<Longrightarrow> plays A F (xs @ ys) s bs u bs2"
  unfolding plays_def by (auto dest: spec_run_append intro: paints_trans)

lemma plays_mono: "plays A F xs s bs t bs' \<Longrightarrow> A \<subseteq> B \<Longrightarrow> F \<subseteq> G \<Longrightarrow> plays B G xs s bs t bs'"
  unfolding plays_def by (auto intro: paints_mono)

lemma plays_paints: "plays A F xs s bs t bs' \<Longrightarrow> \<exists>cs. paints A F cs (machine s) (machine t)"
  by (auto simp: plays_def)

lemma plays_now: "plays A F xs s bs t bs' \<Longrightarrow> on_show (machine t) \<and> current (machine t) = current (machine s) \<and>
    holds VIDEO t bs' \<and> vmem_base_addr t = vmem_base_addr s"
  by (auto simp: plays_def paints_def)

lemma plays_side:
  assumes "plays A F xs s bs t bs'" and "at_side (machine s) fd bytes c eof d" and "fd \<notin> F" and "array_at (current (machine s)) c 1 \<inter> A = {}"
  shows "at_side (machine t) fd bytes c eof d"
  using plays_paints [OF assms(1)] paints_side [OF _ assms(2-4)] by blast

text \<open>A step of the kernel leaves the blinkers alone, as long as \<open>vmem_base_addr\<close> stays.\<close>

lemma plays_kernel:
  assumes "holds VIDEO s bs" and "paints A F [] (machine s) k" and "array_at (current (machine s)) (vmem_base_addr s) 4 \<inter> A = {}"
  shows "plays A F [] s bs (s\<lparr>machine := k\<rparr>) bs"
proof -
  have "user_bytes (machine s) (vmem_base_addr s) (le_bytes VIDM_ADDR)" using assms(1) by (simp add: holds_def mapped_def)
  then have "user_bytes k (vmem_base_addr s) (le_bytes VIDM_ADDR)"
    using paints_bytes [OF assms(2)] assms(3) by (simp add: length_le_bytes)
  then have "holds VIDEO (s\<lparr>machine := k\<rparr>) bs"
    using assms(1,2) by (simp add: holds_def mapped_def linked_def paints_def)
  then show ?thesis using assms(1,2) by (simp add: plays_def)
qed

text \<open>What the operations draw is on the screen.\<close>

lemma holds_locations: "holds f s bs \<Longrightarrow> \<forall>b \<in> set bs. location b < 2000"
  by (auto simp: holds_def linked_def unlinked_tick)

lemma at_location_in: "at_location l bs = Some b \<Longrightarrow> b \<in> set bs"
  by (auto simp: at_location_def find_Some_iff)

lemma spec_offsets:
  assumes "\<forall>b \<in> set bs. location b < 2000" and "spec x bs = (r, bs', cs)"
  shows "\<forall>(off, c) \<in> set cs. off < 0x1000"
proof (cases x)
  case (Sync n)
  then show ?thesis
    using assms offset_small at_location_in by (fastforce split: option.splits)
next
  case Tick
  then show ?thesis using assms offset_small by (auto simp: change_def split: if_splits)
qed (use assms offset_small in \<open>auto split: if_splits\<close>)

lemma plays_op:
  assumes "holds VIDEO s bs" and "off_origin x"
  shows "\<exists>r t bs'. perform x s = Some (r, t) \<and> plays A F [x] s bs t bs'"
proof -
  obtain r bs' cs where x: "spec x bs = (r, bs', cs)" by (rule prod_cases3)
  obtain t where t: "perform x s = Some (r, t)" "holds VIDEO t bs'" "draws VIDEO cs s t"
    using perform_refines [OF assms x] by blast
  have "on_show (machine s)" using assms(1) by (simp add: holds_def mapped_def)
  then have "paints A F cs (machine s) (machine t)"
    using paints_draws [OF _ _ spec_offsets [OF holds_locations [OF assms(1)] x]] t(3) by (simp add: draws_def)
  then show ?thesis using t x assms(1) by (auto simp: plays_def draws_def)
qed

subsection \<open>A row\<close>

lemma user_bytes_view: "on_show k \<Longrightarrow> user_bytes k c [x] \<Longrightarrow> uview k c = Some x"
  using user_bytes_uview [of k c "[x]" 0] by simp

lemma ioctl_performs: "perform (Add b) s = Some (r, t) \<Longrightarrow> \<exists>a. mp1_ioctl (Struct b) 0 s = Some (r, a, t)"
  by (auto simp: bind_eq_Some_conv)

text \<open>The variables of the two files, and a state of the program between two of its steps.\<close>

definition frame_bytes :: "nat \<Rightarrow> fish_vars \<Rightarrow> nat set" where
  "frame_bytes pid v = array_at pid (c0_at v) 1 \<union> array_at pid (c1_at v) 1"

definition frames_apart :: "nat \<Rightarrow> fish_vars \<Rightarrow> nat \<Rightarrow> bool" where
  "frames_apart pid v vm \<longleftrightarrow> array_at pid (c0_at v) 1 \<inter> array_at pid (c1_at v) 1 = {} \<and> array_at pid vm 4 \<inter> frame_bytes pid v = {}"

definition framing :: "nat \<Rightarrow> fish_vars \<Rightarrow> nat \<Rightarrow> fish \<Rightarrow> blinker list \<Rightarrow> bool" where
  "framing pid v vm s bs \<longleftrightarrow> holds VIDEO s bs \<and> current (machine s) = pid \<and> vmem_base_addr s = vm"

lemma plays_framing: "plays A F xs s bs t bs' \<Longrightarrow> framing pid v vm s bs \<Longrightarrow> framing pid v vm t bs'"
  using plays_now [of A F xs s bs t bs'] by (auto simp: framing_def)

lemma framing_on_show: "framing pid v vm s bs \<Longrightarrow> on_show (machine s)"
  by (simp add: framing_def holds_def mapped_def)

lemma both_chars:
  assumes "framing pid v vm s bs" and "frames_apart pid v vm" and "fd0 \<noteq> fd1"
    and "at_side (machine s) fd0 bytes0 (c0_at v) eof0 d0" and "at_side (machine s) fd1 bytes1 (c1_at v) eof1 d1"
  shows "\<exists>e0 e1 t. do { (eof0, s) \<leftarrow> next_char w (int fd0) (c0_at v) eof0 s; (eof1, s) \<leftarrow> next_char w (int fd1) (c1_at v) eof1 s;
      c0 \<leftarrow> uview (machine s) (c0_at v); c1 \<leftarrow> uview (machine s) (c1_at v); Some (eof0, eof1, c0, c1, s) } =
      Some (e0, e1, char_after d0, char_after d1, t) \<and> plays (frame_bytes pid v) {fd0, fd1} [] s bs t bs \<and>
    at_side (machine t) fd0 bytes0 (c0_at v) e0 (advance d0) \<and> at_side (machine t) fd1 bytes1 (c1_at v) e1 (advance d1)"
proof -
  let ?A0 = "array_at pid (c0_at v) 1" and ?A1 = "array_at pid (c1_at v) 1"
  have cur: "current (machine s) = pid" using assms(1) by (simp add: framing_def)
  have dis: "?A0 \<inter> ?A1 = {}" "?A1 \<inter> ?A0 = {}" using assms(2) by (auto simp: frames_apart_def)
  obtain e0 k where k: "next_char w (int fd0) (c0_at v) eof0 s = Some (e0, s\<lparr>machine := k\<rparr>)" "paints ?A0 {fd0} [] (machine s) k"
    "at_side k fd0 bytes0 (c0_at v) e0 (advance d0)" "user_bytes k (c0_at v) [char_after d0]"
    using next_char_step [OF framing_on_show [OF assms(1)] assms(4), of w] unfolding cur by blast
  have curk: "current k = pid" "on_show k" using paints_on_show [OF k(2)] cur by simp_all
  have "at_side k fd1 bytes1 (c1_at v) eof1 d1" by (rule paints_side [OF k(2) assms(5)]) (use assms(3) dis cur in simp_all)
  then obtain e1 l where l: "next_char w (int fd1) (c1_at v) eof1 (s\<lparr>machine := k\<rparr>) = Some (e1, s\<lparr>machine := l\<rparr>)"
    "paints ?A1 {fd1} [] k l" "at_side l fd1 bytes1 (c1_at v) e1 (advance d1)" "user_bytes l (c1_at v) [char_after d1]"
    using next_char_step [of "s\<lparr>machine := k\<rparr>" fd1 bytes1 "c1_at v" eof1 d1 w] curk by auto
  have "at_side l fd0 bytes0 (c0_at v) e0 (advance d0)" by (rule paints_side [OF l(2) k(3)]) (use assms(3) dis curk in simp_all)
  moreover have "user_bytes l (c0_at v) [char_after d0]" by (rule paints_bytes [OF l(2) k(4)]) (use dis curk in simp)
  moreover have "on_show l" using paints_on_show [OF l(2)] by simp
  moreover have "paints (frame_bytes pid v) {fd0, fd1} [] (machine s) l"
    using paints_trans [OF paints_mono [OF k(2), of "frame_bytes pid v" "{fd0, fd1}"] paints_mono [OF l(2)]]
    by (simp add: frame_bytes_def)
  then have "plays (frame_bytes pid v) {fd0, fd1} [] s bs (s\<lparr>machine := l\<rparr>) bs"
    using plays_kernel assms(1,2) by (simp add: framing_def frames_apart_def)
  ultimately show ?thesis
    using k(1) l(1,3,4) user_bytes_view [of l] by (intro exI [of _ e0] exI [of _ e1] exI [of _ "s\<lparr>machine := l\<rparr>"]) simp
qed

lemma columns_play:
  assumes "frames_apart pid v vm" and "fd0 \<noteq> fd1"
  shows "framing pid v vm s bs \<Longrightarrow> at_side (machine s) fd0 bytes0 (c0_at v) eof0 d0 \<Longrightarrow> at_side (machine s) fd1 bytes1 (c1_at v) eof1 d1 \<Longrightarrow>
    \<forall>b \<in> set (row_blinkers B row col (line_left d0) (line_left d1)). location b \<noteq> 0 \<Longrightarrow>
    \<exists>e0 e1 t bs'. frame_columns w v (int fd0) (int fd1) B row col eof0 eof1 s = Some (e0, e1, t) \<and>
      plays (frame_bytes pid v) {fd0, fd1} (map Add (row_blinkers B row col (line_left d0) (line_left d1))) s bs t bs' \<and>
      at_side (machine t) fd0 bytes0 (c0_at v) e0 (Ended (behind d0)) \<and> at_side (machine t) fd1 bytes1 (c1_at v) e1 (Ended (behind d1))"
proof (induction "max (length (line_left d0)) (length (line_left d1))" arbitrary: s bs d0 d1 eof0 eof1 col rule: less_induct)
  case less
  let ?A = "frame_bytes pid v" and ?F = "{fd0, fd1}"
  let ?l0 = "line_left d0" and ?l1 = "line_left d1" and ?x = "char_after d0" and ?y = "char_after d1"
  obtain e0 e1 u where u: "do { (eof0, s) \<leftarrow> next_char w (int fd0) (c0_at v) eof0 s; (eof1, s) \<leftarrow> next_char w (int fd1) (c1_at v) eof1 s;
      c0 \<leftarrow> uview (machine s) (c0_at v); c1 \<leftarrow> uview (machine s) (c1_at v); Some (eof0, eof1, c0, c1, s) } = Some (e0, e1, ?x, ?y, u)"
    and pu: "plays ?A ?F [] s bs u bs" and side: "at_side (machine u) fd0 bytes0 (c0_at v) e0 (advance d0)"
      "at_side (machine u) fd1 bytes1 (c1_at v) e1 (advance d1)"
    using both_chars [OF less.prems(1) assms(1,2) less.prems(2,3), of w] by blast
  then obtain a where n: "next_char w (int fd0) (c0_at v) eof0 s = Some (e0, a)" "next_char w (int fd1) (c1_at v) eof1 a = Some (e1, u)"
    "uview (machine u) (c0_at v) = Some ?x" "uview (machine u) (c1_at v) = Some ?y"
    by (auto simp: bind_eq_Some_conv)
  show ?case
  proof (cases "?x = 0x0A \<and> ?y = 0x0A")
    case True
    then have "?l0 = []" "?l1 = []" "advance d0 = Ended (behind d0)" "advance d1 = Ended (behind d1)"
      using advance_facts(3,4) by blast+
    moreover have "frame_columns w v (int fd0) (int fd1) B row col eof0 eof1 s = Some (e0, e1, u)"
      using n True by (subst frame_columns.simps) simp
    ultimately show ?thesis using pu side by (auto simp: row_blinkers_def)
  next
    case False
    let ?cell = "cell_blinker B row col (shown_char ?l0 0) (shown_char ?l1 0)"
    have ne: "\<not> (?l0 = [] \<and> ?l1 = [])" using False advance_facts(3) by blast
    have rb: "row_blinkers B row col ?l0 ?l1 = ?cell @ row_blinkers B row (Suc col) (tl ?l0) (tl ?l1)"
      by (subst row_blinkers_step) (simp only: ne if_False)
    have sh: "shown_char (line_left d) 0 = (if char_after d = 0x0A then 0x20 else char_after d)" for d
      using advance_facts(3,5) [of d] by (auto simp: shown_char_def hd_conv_nth)
    let ?b = "B\<lparr>on_char := if ?x = 0x0A then 0x20 else ?x, off_char := if ?y = 0x0A then 0x20 else ?y, location := word_of_nat (row * 80 + col + 40)\<rparr>"
    let ?add = "(?x \<noteq> 0x20 \<and> ?x \<noteq> 0x0A) \<or> (?y \<noteq> 0x20 \<and> ?y \<noteq> 0x0A)"
    have cell: "?cell = (if ?add then [?b] else [])" by (auto simp: cell_blinker_def sh)
    obtain t bs1 where t: "frame_cell B row col ?x ?y u = Some t"
      "plays {} {} (map Add ?cell) u bs t bs1"
    proof (cases ?add)
      case True
      have "off_origin (Add ?b)" using less.prems(4) True unfolding rb cell by (simp add: off_origin_def)
      then obtain r t bs1 where "perform (Add ?b) u = Some (r, t)" "plays {} {} [Add ?b] u bs t bs1"
        using plays_op [of u bs "Add ?b"] plays_now [OF pu] by blast
      then show thesis using ioctl_performs [of ?b u r t] True that [of t bs1] unfolding cell by (auto simp: frame_cell_def Let_def)
    next
      case no: False
      then show thesis using that [of u bs] plays_now [OF pu] unfolding cell by (auto simp: frame_cell_def plays_def paints_def)
    qed
    have pt: "plays ?A ?F (map Add ?cell) s bs t bs1"
      using plays_trans [OF pu plays_mono [OF t(2)]] by simp
    have sides: "at_side (machine t) fd0 bytes0 (c0_at v) e0 (advance d0)" "at_side (machine t) fd1 bytes1 (c1_at v) e1 (advance d1)"
      using plays_side [OF t(2)] side by simp_all
    have "max (length (line_left (advance d0))) (length (line_left (advance d1))) < max (length ?l0) (length ?l1)"
      using ne by (cases ?l0; cases ?l1) (simp_all add: advance_facts(1))
    moreover have "\<forall>b \<in> set (row_blinkers B row (Suc col) (line_left (advance d0)) (line_left (advance d1))). location b \<noteq> 0"
      using less.prems(4) by (simp add: rb advance_facts(1))
    ultimately obtain f0 f1 z bs2 where z: "frame_columns w v (int fd0) (int fd1) B row (Suc col) e0 e1 t = Some (f0, f1, z)"
      "plays ?A ?F (map Add (row_blinkers B row (Suc col) (tl ?l0) (tl ?l1))) t bs1 z bs2"
      "at_side (machine z) fd0 bytes0 (c0_at v) f0 (Ended (behind d0))" "at_side (machine z) fd1 bytes1 (c1_at v) f1 (Ended (behind d1))"
      using less.hyps [OF _ plays_framing [OF pt less.prems(1)] sides, of "Suc col"] by (auto simp: advance_facts(1,2))
    have "frame_columns w v (int fd0) (int fd1) B row col eof0 eof1 s = Some (f0, f1, z)"
      using n False t(1) z(1) by (subst frame_columns.simps) auto
    moreover have "plays ?A ?F (map Add (row_blinkers B row col ?l0 ?l1)) s bs z bs2"
      using plays_trans [OF pt z(2)] by (simp add: rb)
    ultimately show ?thesis using z(3,4) by blast
  qed
qed

subsection \<open>The rows\<close>

fun start_side :: "u8 list option \<Rightarrow> side" where
  "start_side (Some r) = Reading r"
| "start_side None = Ended None"

lemma start_side_facts [simp]: "line_left (start_side p) = row_of p" "behind (start_side p) = rest_of p"
  by (cases p; simp add: row_of_def rest_of_def)+

text \<open>Closing a file, also when it is closed already.\<close>

lemma close_step:
  assumes "on_show k" and "2 \<le> fd" and "fd < 8" and "open_file k fd bytes \<or> fd_flags (cur_fd k fd) = FD_ABSENT"
  shows "\<exists>r l. ece391_close w (int fd) k = Some (r, l) \<and> paints A {fd} [] k l \<and> fd_flags (cur_fd l fd) = FD_ABSENT \<and>
    (\<forall>c x. user_bytes k c [x] \<longrightarrow> user_bytes l c [x])"
proof (cases "fd_flags (cur_fd k fd) = FD_ABSENT")
  case True
  have "sys_close (int fd) k = Some (-1, k)" by (rule sys_close_refused [OF on_show_running [OF assms(1)]]) (use True in simp)
  then have "ece391_close w (int fd) k = Some (-1, k)" using close_call [of "int fd" "-1"] assms(3) by (simp add: fits_int_def)
  then show ?thesis using assms(1) True by (auto simp: paints_def)
next
  case False
  let ?d = "(cur_fd k fd)\<lparr>fd_flags := FD_ABSENT\<rparr>"
  let ?l = "put_fd fd ?d k"
  have "file_operations_table (cur_fd k fd) = Some File_ops" using False assms(4) by (simp add: open_file_def)
  then have "sys_close (int fd) k = Some (0, ?l)"
    using sys_close_file [OF on_show_running [OF assms(1)] assms(2,3) False] by simp
  then have "ece391_close w (int fd) k = Some (0, ?l)" using close_call [of "int fd" 0] assms(3) by (simp add: fits_int_def)
  moreover have d: "fd_flags ?d \<noteq> FD_ABSENT \<longrightarrow> file_operations_table ?d \<noteq> None" by simp
  note p = put_fd [OF on_show_running [OF assms(1)] d, where i = fd]
  have "emits A [] k ?l" by (rule put_fd_emits [OF assms(1,2) d])
  then have "paints A {fd} [] k ?l" by (rule paints_emits) (use p(4) in simp)
  moreover have "user_bytes ?l c [x]" if "user_bytes k c [x]" for c x
    using that p(2) by (simp add: user_bytes_def)
  ultimately show ?thesis using p(3) assms(3) by auto
qed

lemma end_of_row_step:
  assumes "framing pid v vm s bs" and "at_side (machine s) fd bytes c eof (Ended p)" and "array_at pid vm 4 \<inter> array_at pid c 1 = {}"
  shows "\<exists>t. end_of_row w (int fd) c eof s = Some t \<and> plays (array_at pid c 1) {fd} [] s bs t bs \<and>
    at_side (machine t) fd bytes c (p = None) (start_side p)"
proof -
  let ?A = "array_at pid c 1" and ?x = "if p = None then 0x0A else 0x30 :: u8"
  have cur: "current (machine s) = pid" and vm: "vmem_base_addr s = vm" and hold: "holds VIDEO s bs" using assms(1) by (simp_all add: framing_def)
  have b: "user_bytes (machine s) c [0x0A]" and fd: "2 \<le> fd" "fd < 8" and eof: "eof = (p = None)"
    using assms(2) by (auto simp: at_side_def split: option.splits)
  let ?k = "put_user c [?x] (machine s)"
  note sb = set_byte_paints [OF framing_on_show [OF assms(1)] user_room_1 [OF b], of ?x, unfolded cur]
  have pk: "paints ?A {fd} [] (machine s) ?k" by (rule paints_mono [OF sb(2)]) simp_all
  have kernel: "plays ?A {fd} [] s bs (s\<lparr>machine := l\<rparr>) bs" if "paints ?A {fd} [] (machine s) l" for l
    by (rule plays_kernel [OF hold that]) (use assms(3) cur vm in simp)
  show ?thesis
  proof (cases p)
    case (Some r)
    then have o: "open_file (machine s) fd bytes" "drop (position (machine s) fd) bytes = r" using assms(2) by (simp_all add: at_side_def)
    have "at_side ?k fd bytes c False (Reading r)"
      using Some fd o sb(3) paints_open_file [OF sb(2) o(1)] by (auto simp: at_side_def intro!: exI [of _ "0x30"])
    then show ?thesis using Some sb(1) eof kernel [OF pk] by (simp add: end_of_row_def)
  next
    case None
    have "at_side ?k fd bytes c eof (Ended None)"
      using assms(2) None sb(3) paints_open_file [OF sb(2)] paints_on_show(1) [OF sb(2)] sb(2) fd
      by (auto simp: at_side_def paints_def)
    then have "open_file ?k fd bytes \<or> fd_flags (cur_fd ?k fd) = FD_ABSENT" by (simp add: at_side_def)
    from close_step [OF paints_on_show(2) [OF sb(2)] fd this, of w ?A] obtain r l where
      l: "ece391_close w (int fd) ?k = Some (r, l)" "paints ?A {fd} [] ?k l" "fd_flags (cur_fd l fd) = FD_ABSENT" "user_bytes l c [?x]"
      using sb(3) by blast
    have "end_of_row w (int fd) c eof s = Some (s\<lparr>machine := l\<rparr>)"
      using sb(1) l(1) eof None by (simp add: end_of_row_def on_machine_def)
    moreover have "paints ?A {fd} [] (machine s) l" using paints_trans [OF pk l(2)] by simp
    moreover have "at_side l fd bytes c True (Ended None)" using l(3,4) fd None by (simp add: at_side_def)
    ultimately show ?thesis using kernel None by auto
  qed
qed

lemma rows_play:
  assumes "frames_apart pid v vm" and "fd0 \<noteq> fd1"
  shows "framing pid v vm s bs \<Longrightarrow> at_side (machine s) fd0 bytes0 (c0_at v) (p = None) (start_side p) \<Longrightarrow>
    at_side (machine s) fd1 bytes1 (c1_at v) (q = None) (start_side q) \<Longrightarrow> \<forall>b \<in> set (picture B row p q). location b \<noteq> 0 \<Longrightarrow>
    \<exists>t bs'. frame_rows w v (int fd0) (int fd1) B row (p = None) (q = None) s = Some t \<and>
      plays (frame_bytes pid v) {fd0, fd1} (map Add (picture B row p q)) s bs t bs'"
proof (induction B row p q arbitrary: s bs rule: picture.induct)
  case (1 B row p q)
  let ?A = "frame_bytes pid v" and ?F = "{fd0, fd1}"
  show ?case
  proof (cases "p = None \<and> q = None")
    case True
    then have "plays ?A ?F [] s bs s bs"
      using 1(2) framing_on_show [OF 1(2)] by (simp add: framing_def plays_def paints_def)
    then show ?thesis using True by (subst frame_rows.simps) (auto simp: picture.simps)
  next
    case False
    note pic = picture.simps [of B row p q, unfolded if_not_P [OF False]]
    have dis: "array_at pid (c0_at v) 1 \<inter> array_at pid (c1_at v) 1 = {}" "array_at pid (c1_at v) 1 \<inter> array_at pid (c0_at v) 1 = {}"
      "array_at pid vm 4 \<inter> array_at pid (c0_at v) 1 = {}" "array_at pid vm 4 \<inter> array_at pid (c1_at v) 1 = {}"
      using assms(1) by (auto simp: frames_apart_def frame_bytes_def)
    have "\<forall>b \<in> set (row_blinkers B row 0 (line_left (start_side p)) (line_left (start_side q))). location b \<noteq> 0"
      using 1(5) unfolding pic by simp
    from columns_play [OF assms 1(2,3,4) this] obtain e0 e1 t bs1 where
      t: "frame_columns w v (int fd0) (int fd1) B row 0 (p = None) (q = None) s = Some (e0, e1, t)"
      "plays ?A ?F (map Add (row_blinkers B row 0 (row_of p) (row_of q))) s bs t bs1"
      "at_side (machine t) fd0 bytes0 (c0_at v) e0 (Ended (rest_of p))" "at_side (machine t) fd1 bytes1 (c1_at v) e1 (Ended (rest_of q))"
      unfolding start_side_facts by blast
    note ft = plays_framing [OF t(2) 1(2)]
    obtain u where u: "end_of_row w (int fd0) (c0_at v) e0 t = Some u" "plays (array_at pid (c0_at v) 1) {fd0} [] t bs1 u bs1"
      "at_side (machine u) fd0 bytes0 (c0_at v) (rest_of p = None) (start_side (rest_of p))"
      using end_of_row_step [OF ft t(3) dis(3)] by blast
    note fu = plays_framing [OF u(2) ft]
    have cur: "current (machine t) = pid" "current (machine u) = pid" using ft fu by (simp_all add: framing_def)
    have "at_side (machine u) fd1 bytes1 (c1_at v) e1 (Ended (rest_of q))"
      by (rule plays_side [OF u(2) t(4)]) (use assms(2) dis cur in simp_all)
    from end_of_row_step [OF fu this dis(4)] obtain x where
      x: "end_of_row w (int fd1) (c1_at v) e1 u = Some x" "plays (array_at pid (c1_at v) 1) {fd1} [] u bs1 x bs1"
      "at_side (machine x) fd1 bytes1 (c1_at v) (rest_of q = None) (start_side (rest_of q))" by blast
    have sx: "at_side (machine x) fd0 bytes0 (c0_at v) (rest_of p = None) (start_side (rest_of p))"
      by (rule plays_side [OF x(2) u(3)]) (use assms(2) dis cur in simp_all)
    have "\<forall>b \<in> set (picture B (Suc row) (rest_of p) (rest_of q)). location b \<noteq> 0" using 1(5) unfolding pic by simp
    from 1(1) [OF False plays_framing [OF x(2) fu] sx x(3) this] obtain y bs2 where
      y: "frame_rows w v (int fd0) (int fd1) B (Suc row) (rest_of p = None) (rest_of q = None) x = Some y"
      "plays ?A ?F (map Add (picture B (Suc row) (rest_of p) (rest_of q))) x bs1 y bs2" by blast
    have e: "e0 = (rest_of p = None)" "e1 = (rest_of q = None)" using t(3,4) by (auto simp: at_side_def split: option.splits)
    have ends: "plays ?A ?F [] t bs1 u bs1" "plays ?A ?F [] u bs1 x bs1"
      using plays_mono [OF u(2)] plays_mono [OF x(2)] by (simp_all add: frame_bytes_def)
    have "plays ?A ?F (map Add (picture B row p q)) s bs y bs2"
      using plays_trans [OF t(2) plays_trans [OF ends(1) plays_trans [OF ends(2) y(2)]]] unfolding pic by simp
    moreover have "frame_rows w v (int fd0) (int fd1) B row (p = None) (q = None) s = Some y"
      using t(1) u(1) x(1) y(1) False e by (subst frame_rows.simps) auto
    ultimately show ?thesis by blast
  qed
qed

end
