(* ===== verification/Fish_Main.thy ===== *)
theory Fish_Main
  imports Fish_Rows
begin

text \<open>
  The program \<open>fish\<close> as a whole: opening the files, the clock, \<open>main\<close>, and what is on the screen when it ends.
\<close>

subsection \<open>The frames\<close>

lemma plays_string:
  assumes "plays A F xs s bs t bs'" and "user_string (machine s) a ys" and "array_at (current (machine s)) a (Suc (length ys)) \<inter> A = {}"
  shows "user_string (machine t) a ys"
  using plays_paints [OF assms(1)] paints_bytes [of A F _ "machine s" "machine t" a "ys @ [0]"] assms(2,3) by (auto simp: user_string_def)

lemma plays_named: "plays A F xs s bs t bs' \<Longrightarrow> named_file (machine s) ds nm cur bytes \<Longrightarrow> named_file (machine t) ds nm cur bytes"
  by (auto simp: plays_def paints_def named_file_def)

lemma plays_fd: "plays A F xs s bs t bs' \<Longrightarrow> i < 8 \<Longrightarrow> i \<notin> F \<Longrightarrow> cur_fd (machine t) i = cur_fd (machine s) i"
  by (auto simp: plays_def paints_def)

lemma plays_free: "plays A {} xs s bs t bs' \<Longrightarrow> free_fd (machine t) = free_fd (machine s)"
  using plays_fd [of A "{}" xs s bs t bs'] unfolding free_fd_def by (intro find_cong) (auto simp del: upt_rec_numeral)

lemma plays_set_byte:
  assumes "framing pid v vm s bs" and "user_room c 1" and "array_at pid vm 4 \<inter> array_at pid c 1 = {}"
  shows "\<exists>t. set_byte c x s = Some t \<and> plays (array_at pid c 1) {} [] s bs t bs \<and> user_bytes (machine t) c [x]"
proof -
  have f: "current (machine s) = pid" "vmem_base_addr s = vm" "holds VIDEO s bs" using assms(1) by (simp_all add: framing_def)
  note sb = set_byte_paints [OF framing_on_show [OF assms(1)] assms(2), of x]
  have "plays (array_at pid c 1) {} [] s bs (s\<lparr>machine := put_user c [x] (machine s)\<rparr>) bs"
    using plays_kernel [OF f(3) sb(2)] assms(3) f(1,2) by simp
  then show ?thesis using sb(1,3) by auto
qed

lemma open_frame_play:
  assumes "framing pid v vm s bs" and "user_string (machine s) a nm" and "frames_ok w" and "named_file (machine s) ds nm cur bytes"
    and "free_fd (machine s) = Some i"
  shows "\<exists>t. open_frame w a s = Some (int i, t) \<and> plays {} {i} [] s bs t bs \<and> open_file (machine t) i bytes \<and> position (machine t) i = 0 \<and>
     (\<forall>c x. user_bytes (machine s) c [x] \<longrightarrow> user_bytes (machine t) c [x])"
proof -
  obtain k where k: "ece391_open w a (machine s) = Some (int i, k)" "emits {} [] (machine s) k" "open_file k i bytes" "position k i = 0"
    "\<forall>j < 8. j \<noteq> i \<longrightarrow> cur_fd k j = cur_fd (machine s) j"
    using open_file_call [OF framing_on_show [OF assms(1)] assms(2-5), of "{}"] by blast
  have "paints {} {i} [] (machine s) k" using k(5) by (intro paints_emits [OF k(2)]) simp
  then have "plays {} {i} [] s bs (s\<lparr>machine := k\<rparr>) bs" using plays_kernel assms(1) by (simp add: framing_def)
  moreover have "user_bytes k c [x]" if "user_bytes (machine s) c [x]" for c x by (rule emits_bytes [OF k(2) that]) simp
  ultimately show ?thesis using k(1,3,4) by (auto simp: open_frame_def on_machine_def)
qed

definition frame_file :: "nat \<Rightarrow> fish_vars \<Rightarrow> kst \<Rightarrow> dentry list \<Rightarrow> nat \<Rightarrow> string \<Rightarrow> u8 list \<Rightarrow> bool" where
  "frame_file pid v k ds a nm bytes \<longleftrightarrow> user_string k a (bytes_of nm) \<and> array_at pid a (Suc (length nm)) \<inter> frame_bytes pid v = {} \<and>
     (\<exists>cur. named_file k ds (bytes_of nm) cur bytes)"

lemma plays_frame_file:
  assumes "plays A F xs s bs t bs'" and "framing pid v vm s bs" and "frame_file pid v (machine s) ds a nm bytes" and "A \<subseteq> frame_bytes pid v"
  shows "frame_file pid v (machine t) ds a nm bytes"
proof -
  have "array_at (current (machine s)) a (Suc (length (bytes_of nm))) \<inter> A = {}"
    using assms(2-4) by (auto simp: frame_file_def framing_def)
  then have "user_string (machine t) a (bytes_of nm)" using assms(3) plays_string [OF assms(1)] by (simp add: frame_file_def)
  then show ?thesis using assms(3) plays_named [OF assms(1)] unfolding frame_file_def by blast
qed

lemma add_frames_play:
  assumes "framing pid v vm s bs" and "frames_apart pid v vm" and "frames_ok w" and "user_room (c0_at v) 1" and "user_room (c1_at v) 1"
    and "frame_file pid v (machine s) ds (file0_at v) ''frame0.txt'' bytes0" and "frame_file pid v (machine s) ds (file1_at v) ''frame1.txt'' bytes1"
    and "free_fd (machine s) = Some 3" and "fd_flags (cur_fd (machine s) 4) = FD_ABSENT"
    and "\<forall>b \<in> set (picture (B\<lparr>on_length := 15, off_length := 15\<rparr>) 0 (Some bytes0) (Some bytes1)). location b \<noteq> 0"
  shows "\<exists>t bs'. add_frames w v B s = Some t \<and>
    plays (frame_bytes pid v) {3, 4} (map Add (picture (B\<lparr>on_length := 15, off_length := 15\<rparr>) 0 (Some bytes0) (Some bytes1))) s bs t bs'"
proof -
  let ?A = "frame_bytes pid v" and ?F = "{3, 4 :: nat}"
  have dis: "array_at pid vm 4 \<inter> array_at pid (c0_at v) 1 = {}" "array_at pid vm 4 \<inter> array_at pid (c1_at v) 1 = {}"
      "array_at pid (c0_at v) 1 \<inter> array_at pid (c1_at v) 1 = {}"
    using assms(2) by (auto simp: frames_apart_def frame_bytes_def)
  have sub: "array_at pid (c0_at v) 1 \<subseteq> ?A" "array_at pid (c1_at v) 1 \<subseteq> ?A" by (simp_all add: frame_bytes_def)
  obtain s1 where s1: "set_byte (c0_at v) 0x30 s = Some s1" "plays (array_at pid (c0_at v) 1) {} [] s bs s1 bs" "user_bytes (machine s1) (c0_at v) [0x30]"
    using plays_set_byte [OF assms(1,4) dis(1)] by blast
  note f1 = plays_framing [OF s1(2) assms(1)]
  obtain s2 where s2: "set_byte (c1_at v) 0x30 s1 = Some s2" "plays (array_at pid (c1_at v) 1) {} [] s1 bs s2 bs" "user_bytes (machine s2) (c1_at v) [0x30]"
    using plays_set_byte [OF f1 assms(5) dis(2)] by blast
  note f2 = plays_framing [OF s2(2) f1]
  have c0: "user_bytes (machine s2) (c0_at v) [0x30]"
    using plays_paints [OF s2(2)] paints_bytes [OF _ s1(3)] dis(3) f1 by (auto simp: framing_def)
  have files: "frame_file pid v (machine s2) ds (file0_at v) ''frame0.txt'' bytes0" "frame_file pid v (machine s2) ds (file1_at v) ''frame1.txt'' bytes1"
    using plays_frame_file [OF s2(2) f1 plays_frame_file [OF s1(2) assms(1)]] assms(6,7) sub by blast+
  have free: "free_fd (machine s2) = Some 3" using assms(8) plays_free [OF s1(2)] plays_free [OF s2(2)] by simp
  have four: "fd_flags (cur_fd (machine s2) 4) = FD_ABSENT" using assms(9) plays_fd [OF s1(2), of 4] plays_fd [OF s2(2), of 4] by simp
  obtain cur0 where "user_string (machine s2) (file0_at v) (bytes_of ''frame0.txt'')" "named_file (machine s2) ds (bytes_of ''frame0.txt'') cur0 bytes0"
    using files(1) by (auto simp: frame_file_def)
  from open_frame_play [OF f2 this(1) assms(3) this(2) free] obtain s3 where
    s3: "open_frame w (file0_at v) s2 = Some (int 3, s3)" "plays {} {3} [] s2 bs s3 bs" "open_file (machine s3) 3 bytes0" "position (machine s3) 3 = 0"
    "user_bytes (machine s3) (c0_at v) [0x30]" "user_bytes (machine s3) (c1_at v) [0x30]" using c0 s2(3) by blast
  note f3 = plays_framing [OF s3(2) f2]
  have "fd_flags (cur_fd (machine s3) 3) \<noteq> FD_ABSENT" using s3(3) by (simp add: open_file_def reading_def)
  moreover have "fd_flags (cur_fd (machine s3) 2) \<noteq> FD_ABSENT"
    using free plays_fd [OF s3(2), of 2] by (auto simp: free_fd_def split: if_splits)
  moreover have "fd_flags (cur_fd (machine s3) 4) = FD_ABSENT" using four plays_fd [OF s3(2), of 4] by simp
  ultimately have free3: "free_fd (machine s3) = Some 4" by (simp add: free_fd_def)
  have "frame_file pid v (machine s3) ds (file1_at v) ''frame1.txt'' bytes1" by (rule plays_frame_file [OF s3(2) f2 files(2)]) simp
  then obtain cur1 where "user_string (machine s3) (file1_at v) (bytes_of ''frame1.txt'')" "named_file (machine s3) ds (bytes_of ''frame1.txt'') cur1 bytes1"
    by (auto simp: frame_file_def)
  from open_frame_play [OF f3 this(1) assms(3) this(2) free3] obtain s4 where
    s4: "open_frame w (file1_at v) s3 = Some (int 4, s4)" "plays {} {4} [] s3 bs s4 bs" "open_file (machine s4) 4 bytes1" "position (machine s4) 4 = 0"
    "user_bytes (machine s4) (c0_at v) [0x30]" "user_bytes (machine s4) (c1_at v) [0x30]" using s3(5,6) by blast
  note f4 = plays_framing [OF s4(2) f3]
  have "open_file (machine s4) 3 bytes0 \<and> position (machine s4) 3 = 0"
    using plays_paints [OF s4(2)] paints_open_file [OF _ s3(3)] s3(4) by auto
  then have sides: "at_side (machine s4) 3 bytes0 (c0_at v) (Some bytes0 = None) (start_side (Some bytes0))"
    "at_side (machine s4) 4 bytes1 (c1_at v) (Some bytes1 = None) (start_side (Some bytes1))"
    using s4(3-6) by (auto simp: at_side_def intro!: exI [of _ "0x30"])
  have ne: "(3 :: nat) \<noteq> 4" by simp
  have "\<exists>t bs'. frame_rows w v (int 3) (int 4) (B\<lparr>on_length := 15, off_length := 15\<rparr>) 0 False False s4 = Some t \<and>
    plays ?A ?F (map Add (picture (B\<lparr>on_length := 15, off_length := 15\<rparr>) 0 (Some bytes0) (Some bytes1))) s4 bs t bs'"
    using rows_play [where w = w, OF assms(2) ne f4 sides assms(10)] by simp
  then obtain t bs' where
    t: "frame_rows w v (int 3) (int 4) (B\<lparr>on_length := 15, off_length := 15\<rparr>) 0 False False s4 = Some t"
    "plays ?A ?F (map Add (picture (B\<lparr>on_length := 15, off_length := 15\<rparr>) 0 (Some bytes0) (Some bytes1))) s4 bs t bs'"
    by blast
  have p: "plays ?A ?F [] s bs s1 bs" "plays ?A ?F [] s1 bs s2 bs" "plays ?A ?F [] s2 bs s3 bs" "plays ?A ?F [] s3 bs s4 bs"
    using plays_mono [OF s1(2)] plays_mono [OF s2(2)] plays_mono [OF s3(2)] plays_mono [OF s4(2)] sub by simp_all
  have "plays ?A ?F (map Add (picture (B\<lparr>on_length := 15, off_length := 15\<rparr>) 0 (Some bytes0) (Some bytes1))) s bs t bs'"
    using plays_trans [OF p(1) plays_trans [OF p(2) plays_trans [OF p(3) plays_trans [OF p(4) t(2)]]]] by simp
  then show ?thesis using s1(1) s2(1) s3(1) s4(1) t(1) by (auto simp: add_frames_def)
qed

subsection \<open>The clock\<close>

lemma plays_clock: "plays A F xs s bs t bs' \<Longrightarrow> fd \<notin> F \<Longrightarrow> open_clock (machine s) fd \<Longrightarrow> open_clock (machine t) fd"
  by (auto simp: plays_def paints_def open_clock_def)

lemma ticks_play:
  assumes "framing pid v vm s bs" and "open_clock (machine s) fd" and "only_clock w" and "user_room (garbage_at v) 4"
  shows "\<exists>t bs'. hundred_ticks w v (int fd) s = Some t \<and> plays {} {} (replicate 100 Tick) s bs t bs'"
proof -
  let ?f = "\<lambda>_ s. do { (_, s) \<leftarrow> on_machine (ece391_read w (int fd) (garbage_at v) 4) s; mp1_rtc_tasklet s }"
  have "\<exists>t. for_each [0..<100] ?f s = Some t \<and> (\<exists>bs'. plays {} {} (replicate 100 Tick) s bs t bs')"
  proof (rule for_each_upt)
    show "\<exists>bs'. plays {} {} (replicate 0 Tick) s bs s bs'"
      using assms(1) framing_on_show [OF assms(1)] by (auto simp: plays_def paints_def framing_def)
    fix i :: nat and t assume "\<exists>bs'. plays {} {} (replicate i Tick) s bs t bs'"
    then obtain bs1 where t: "plays {} {} (replicate i Tick) s bs t bs1" by blast
    note ft = plays_framing [OF t assms(1)]
    have "open_clock (machine t) fd" by (rule plays_clock [OF t _ assms(2)]) simp
    then obtain k where k: "ece391_read w (int fd) (garbage_at v) 4 (machine t) = Some (0, k)" "emits {} [] (machine t) k" "cur_fd k = cur_fd (machine t)"
      using tick_call [OF framing_on_show [OF ft] _ assms(3), of fd "garbage_at v" 4] user_room_fits [OF assms(4)] by (auto simp: fits_int_def)
    have "paints {} {} [] (machine t) k" by (rule paints_emits [OF k(2)]) (simp add: k(3))
    then have u: "plays {} {} [] t bs1 (t\<lparr>machine := k\<rparr>) bs1" using plays_kernel ft by (simp add: framing_def)
    have "holds VIDEO (t\<lparr>machine := k\<rparr>) bs1" using plays_now [OF u] by simp
    then obtain r x bs2 where "perform Tick (t\<lparr>machine := k\<rparr>) = Some (r, x)" and px: "plays {} {} [Tick] (t\<lparr>machine := k\<rparr>) bs1 x bs2"
      using plays_op [of _ _ Tick] by (fastforce simp: off_origin_def)
    then have "?f i t = Some x" using k(1) by (simp add: on_machine_def bind_eq_Some_conv)
    moreover have "plays {} {} (replicate (Suc i) Tick) s bs x bs2"
      using plays_trans [OF t plays_trans [OF u px]] by (simp add: replicate_append_same)
    ultimately show "\<exists>t'. ?f i t = Some t' \<and> (\<exists>bs'. plays {} {} (replicate (Suc i) Tick) s bs t' bs')" by blast
  qed simp
  then show ?thesis unfolding hundred_ticks_def by blast
qed

lemma frequency_play:
  assumes "framing pid v vm s bs" and "open_clock (machine s) fd" and "user_room (ret_val_at v) 4"
    and "array_at pid vm 4 \<inter> array_at pid (ret_val_at v) 4 = {}"
  shows "\<exists>t. set_frequency w v (int fd) s = Some t \<and> plays (array_at pid (ret_val_at v) 4) {} [] s bs t bs"
proof -
  let ?k = "machine s" and ?A = "array_at pid (ret_val_at v) 4"
  have f: "current ?k = pid" "vmem_base_addr s = vm" "holds VIDEO s bs" using assms(1) by (simp_all add: framing_def)
  obtain x where x: "store32 (ret_val_at v) 32 ?k = Some x" "emits ?A [] ?k x" "user_bytes x (ret_val_at v) (le_bytes 32)" "cur_fd x = cur_fd ?k"
    using store32_emits [OF emits_refl [OF framing_on_show [OF assms(1)]] assms(3), of ?A 32] f(1) by auto
  have ox: "open_clock x fd" by (rule emits_open_clock [OF x(2,4) assms(2)])
  let ?y = "set_clock ((own_clock x)\<lparr>rate := 32\<rparr>) x"
  have "rtc_rate 32 = Some 32" by (simp add: rtc_rate_def)
  then have wr: "ece391_write w (int fd) (ret_val_at v) 4 x = Some (4, ?y)"
    using frequency_call [OF emitsD(2) [OF x(2)] ox x(3)] by (simp add: fits_int_def)
  have ey: "emits ?A [] ?k ?y"
    using emits_trans [OF x(2) set_clock_emits [OF emitsD(2) [OF x(2)], of "(own_clock x)\<lparr>rate := 32\<rparr>"]] by simp
  obtain t where t: "store32 (ret_val_at v) 4 ?y = Some t" "emits ?A [] ?k t" "cur_fd t = cur_fd ?y"
    using store32_emits [OF ey assms(3), of 4] f(1) by auto
  have "paints ?A {} [] ?k t" by (rule paints_emits [OF t(2)]) (simp add: t(3) x(4))
  then have "plays ?A {} [] s bs (s\<lparr>machine := t\<rparr>) bs" using plays_kernel [OF f(3)] f(1,2) assms(4) by simp
  then show ?thesis using x(1) wr t(1) by (auto simp: set_frequency_def)
qed

lemma close_clock_call:
  assumes "on_show k" and "open_clock k fd"
  shows "\<exists>l. ece391_close w (int fd) k = Some (0, l) \<and> on_show l \<and> current l = current k \<and> pg l = pg k \<and> mem l = mem k"
proof -
  note o = assms(2) [unfolded open_clock_def]
  let ?d = "(cur_fd k fd)\<lparr>fd_flags := FD_ABSENT\<rparr>"
  let ?u = "put_fd fd ?d k"
  let ?c = "(own_clock ?u)\<lparr>client := -1, rate := -1, count := 0, rtc_flags := RTC_WAIT\<rparr>"
  have d: "fd_flags ?d \<noteq> FD_ABSENT \<longrightarrow> file_operations_table ?d \<noteq> None" by simp
  note p = put_fd [OF on_show_running [OF assms(1)] d, where i = fd]
  have u: "emits {} [] k ?u" using put_fd_emits [OF assms(1) _ d] o by simp
  have "rem_fd (int fd) k = Some (0, ?u)"
    using rem_fd_eq [OF on_show_running [OF assms(1)], of fd] o by (simp add: cur_fd_free put_fd_def cur_fd_def [symmetric])
  then have "sys_close (int fd) k = Some (0, set_clock ?c ?u)"
    using cur_fd_get [OF p(1), of fd] p(2,3) o set_clock_upd [OF emitsD(2) [OF u], of "\<lambda>c. c\<lparr>client := -1, rate := -1, count := 0, rtc_flags := RTC_WAIT\<rparr>"]
    by (simp add: sys_close_def ops_close_def rtc_close_def)
  then have "ece391_close w (int fd) k = Some (0, set_clock ?c ?u)" using close_call [of "int fd" 0] o by (simp add: fits_int_def)
  moreover have "pg (set_clock ?c ?u) = pg k" "mem (set_clock ?c ?u) = mem k"
    by (simp_all add: set_clock_def with_rtc_def put_fd_def)
  ultimately show ?thesis using set_clock_on_show [OF emitsD(2) [OF u]] p(2) by (intro exI [of _ "set_clock ?c ?u"]) simp
qed

subsection \<open>The program\<close>

text \<open>The operations of the driver that \<open>main\<close> performs, with the two pictures and the other members of its structures.\<close>

definition fish_blinker :: "blinker \<Rightarrow> blinker" where
  "fish_blinker b = b\<lparr>on_char := 0x49, off_char := 0x4D, on_length := 7, off_length := 6, location := 540\<rparr>"

definition frame_blinkers :: "blinker \<Rightarrow> u8 list \<Rightarrow> u8 list \<Rightarrow> blinker list" where
  "frame_blinkers b bytes0 bytes1 = picture (b\<lparr>on_length := 15, off_length := 15\<rparr>) 0 (Some bytes0) (Some bytes1)"

definition fish_ops :: "blinker \<Rightarrow> blinker \<Rightarrow> u8 list \<Rightarrow> u8 list \<Rightarrow> op list" where
  "fish_ops b fb bytes0 bytes1 = map Add (frame_blinkers fb bytes0 bytes1) @ replicate 100 Tick @ [Add (fish_blinker b)] @
     replicate 100 Tick @ [Sync 0x28021C] @ replicate 100 Tick @ [Remove 540] @ replicate 100 Tick"

lemma ioctl_numbers:
  "perform (Sync n) s = Some (r, t) \<Longrightarrow> \<exists>a. mp1_ioctl (Number n) 3 s = Some (r, a, t)"
  "perform (Remove n) s = Some (r, t) \<Longrightarrow> \<exists>a. mp1_ioctl (Number n) 1 s = Some (r, a, t)"
  by (auto simp: bind_eq_Some_conv)

text \<open>The loops of \<open>main\<close> from the first one on.\<close>

lemma main_loops:
  assumes "framing pid v vm s bs" and "open_clock (machine s) fd" and "only_clock w" and "user_room (garbage_at v) 4"
  shows "\<exists>t bs'. do { s \<leftarrow> hundred_ticks w v (int fd) s;
      (_, _, s) \<leftarrow> mp1_ioctl (Struct (fish_blinker b)) 0 s;
      s \<leftarrow> hundred_ticks w v (int fd) s;
      (_, _, s) \<leftarrow> mp1_ioctl (Number 0x28021C) 3 s;
      s \<leftarrow> hundred_ticks w v (int fd) s;
      (_, _, s) \<leftarrow> mp1_ioctl (Number 540) 1 s;
      hundred_ticks w v (int fd) s } = Some t \<and>
    plays {} {} (replicate 100 Tick @ [Add (fish_blinker b)] @ replicate 100 Tick @ [Sync 0x28021C] @ replicate 100 Tick @ [Remove 540] @
      replicate 100 Tick) s bs t bs'"
proof -
  have ticks: "\<exists>t bs'. hundred_ticks w v (int fd) s' = Some t \<and> plays {} {} (xs @ replicate 100 Tick) s bs t bs'"
    if "plays {} {} xs s bs s' bs1" for xs s' bs1
    using ticks_play [OF plays_framing [OF that assms(1)] plays_clock [OF that _ assms(2)] assms(3,4)] plays_trans [OF that] by blast
  have op: "\<exists>r t bs'. perform x s' = Some (r, t) \<and> plays {} {} (xs @ [x]) s bs t bs'"
    if "plays {} {} xs s bs s' bs1" "off_origin x" for x xs s' bs1
    using plays_op [OF _ that(2)] plays_now [OF that(1)] plays_trans [OF that(1)] by blast
  have "plays {} {} [] s bs s bs" using assms(1) framing_on_show [OF assms(1)] by (simp add: plays_def paints_def framing_def)
  from ticks [OF this] obtain s1 bs1 where s1: "hundred_ticks w v (int fd) s = Some s1" "plays {} {} ([] @ replicate 100 Tick) s bs s1 bs1" by blast
  have "off_origin (Add (fish_blinker b))" by (simp add: off_origin_def fish_blinker_def)
  from op [OF s1(2) this] obtain r2 s2 bs2 where s2: "perform (Add (fish_blinker b)) s1 = Some (r2, s2)"
    "plays {} {} (([] @ replicate 100 Tick) @ [Add (fish_blinker b)]) s bs s2 bs2" by blast
  from ticks [OF s2(2)] obtain s3 bs3 where s3: "hundred_ticks w v (int fd) s2 = Some s3"
    "plays {} {} ((([] @ replicate 100 Tick) @ [Add (fish_blinker b)]) @ replicate 100 Tick) s bs s3 bs3" by blast
  have "off_origin (Sync 0x28021C)" by (simp add: off_origin_def)
  from op [OF s3(2) this] obtain r4 s4 bs4 where s4: "perform (Sync 0x28021C) s3 = Some (r4, s4)"
    "plays {} {} (((([] @ replicate 100 Tick) @ [Add (fish_blinker b)]) @ replicate 100 Tick) @ [Sync 0x28021C]) s bs s4 bs4" by blast
  from ticks [OF s4(2)] obtain s5 bs5 where s5: "hundred_ticks w v (int fd) s4 = Some s5"
    "plays {} {} ((((([] @ replicate 100 Tick) @ [Add (fish_blinker b)]) @ replicate 100 Tick) @ [Sync 0x28021C]) @ replicate 100 Tick) s bs s5 bs5"
    by blast
  have "off_origin (Remove 540)" by (simp add: off_origin_def)
  from op [OF s5(2) this] obtain r6 s6 bs6 where s6: "perform (Remove 540) s5 = Some (r6, s6)"
    "plays {} {} (((((([] @ replicate 100 Tick) @ [Add (fish_blinker b)]) @ replicate 100 Tick) @ [Sync 0x28021C]) @ replicate 100 Tick) @ [Remove 540])
      s bs s6 bs6" by blast
  from ticks [OF s6(2)] obtain s7 bs7 where s7: "hundred_ticks w v (int fd) s6 = Some s7"
    "plays {} {} ((((((([] @ replicate 100 Tick) @ [Add (fish_blinker b)]) @ replicate 100 Tick) @ [Sync 0x28021C]) @ replicate 100 Tick) @ [Remove 540]) @
      replicate 100 Tick) s bs s7 bs7" by blast
  obtain a2 a4 a6 where "mp1_ioctl (Struct (fish_blinker b)) 0 s1 = Some (r2, a2, s2)" "mp1_ioctl (Number 0x28021C) 3 s3 = Some (r4, a4, s4)"
    "mp1_ioctl (Number 540) 1 s5 = Some (r6, a6, s6)"
    using ioctl_performs [OF s2(1)] ioctl_numbers(1) [OF s4(1)] ioctl_numbers(2) [OF s6(1)] by blast
  then show ?thesis using s1(1) s3(1) s5(1) s7 by (intro exI [of _ s7] exI [of _ bs7]) simp
qed

text \<open>
  The start of the program: its variables lie apart, the directory has the clock and the two files, no
  descriptor from 2 on is in use, and no character of the files is so far down that its location wraps to 0.
\<close>

definition fish_room :: "fish_vars \<Rightarrow> nat \<Rightarrow> bool" where
  "fish_room v vm \<longleftrightarrow> user_room vm 4 \<and> vm < OFF_128MB + OFF_4MB - 4 \<and> user_room (c0_at v) 1 \<and> user_room (c1_at v) 1 \<and>
     user_room (ret_val_at v) 4 \<and> user_room (garbage_at v) 4"

definition fish_apart :: "nat \<Rightarrow> fish_vars \<Rightarrow> nat \<Rightarrow> bool" where
  "fish_apart pid v vm \<longleftrightarrow> frames_apart pid v vm \<and> array_at pid vm 4 \<inter> array_at pid (ret_val_at v) 4 = {} \<and>
     array_at pid (file0_at v) 11 \<inter> array_at pid vm 4 = {} \<and> array_at pid (file1_at v) 11 \<inter> array_at pid vm 4 = {}"

definition fish_files :: "world \<Rightarrow> nat \<Rightarrow> fish_vars \<Rightarrow> nat \<Rightarrow> kst \<Rightarrow> dentry list \<Rightarrow> u8 list \<Rightarrow> u8 list \<Rightarrow> bool" where
  "fish_files w pid v vm k ds bytes0 bytes1 \<longleftrightarrow> literals w (array_at pid vm 4) [''rtc''] k \<and> (\<exists>cur. clock_entry k ds cur) \<and>
     frame_file pid v k ds (file0_at v) ''frame0.txt'' bytes0 \<and> frame_file pid v k ds (file1_at v) ''frame1.txt'' bytes1 \<and>
     (\<forall>i \<in> {2..<8}. fd_flags (cur_fd k i) = FD_ABSENT)"

text \<open>The page tables make no difference to the data of the program and its files.\<close>

lemma pg_fields [simp]:
  "user_bytes (k\<lparr>pg := p\<rparr>) a bs = user_bytes k a bs" "user_string (k\<lparr>pg := p\<rparr>) a xs = user_string k a xs"
  "named_file (k\<lparr>pg := p\<rparr>) ds nm cur bytes = named_file k ds nm cur bytes" "clock_entry (k\<lparr>pg := p\<rparr>) ds cur = clock_entry k ds cur"
  "cur_fd (k\<lparr>pg := p\<rparr>) = cur_fd k" "current (k\<lparr>pg := p\<rparr>) = current k" "free_fd (k\<lparr>pg := p\<rparr>) = free_fd k"
  "frame_file pid v (k\<lparr>pg := p\<rparr>) ds a txts bytes = frame_file pid v k ds a txts bytes"
proof -
  have i: "fs_image (k\<lparr>pg := p\<rparr>) = fs_image k" by (simp add: fs_image_def fun_eq_iff)
  show "cur_fd (k\<lparr>pg := p\<rparr>) = cur_fd k" "current (k\<lparr>pg := p\<rparr>) = current k" by (simp_all add: cur_fd_def current_def fun_eq_iff)
  then show "free_fd (k\<lparr>pg := p\<rparr>) = free_fd k" by (simp add: free_fd_def del: upt_rec_numeral)
  show b: "user_bytes (k\<lparr>pg := p\<rparr>) a bs = user_bytes k a bs" for a bs by (simp add: user_bytes_def user_frame_def current_def)
  show "user_string (k\<lparr>pg := p\<rparr>) a xs = user_string k a xs" for a xs by (simp add: user_string_def b)
  then show "frame_file pid v (k\<lparr>pg := p\<rparr>) ds a txts bytes = frame_file pid v k ds a txts bytes"
    by (simp add: frame_file_def named_file_def i)
  show "named_file (k\<lparr>pg := p\<rparr>) ds nm cur bytes = named_file k ds nm cur bytes" "clock_entry (k\<lparr>pg := p\<rparr>) ds cur = clock_entry k ds cur"
    by (simp_all add: named_file_def clock_entry_def i)
qed

lemma mp1_set_video_mode_maps:
  assumes "on_show (machine s)" and "user_room (vmem_base_addr s) 4" and "vmem_base_addr s < OFF_128MB + OFF_4MB - 4"
    and "blink_array s = replicate 2000 blank_blinker" and "mp1_list_head s = None"
  shows "\<exists>k u. mp1_set_video_mode w s = Some (VIDM_ADDR, s\<lparr>machine := k\<rparr>) \<and> holds VIDEO (s\<lparr>machine := k\<rparr>) [] \<and>
    emits (array_at (current (machine s)) (vmem_base_addr s) 4) [] (machine s) u \<and> k = u\<lparr>pg := pg k\<rparr> \<and> cur_fd u = cur_fd (machine s)"
proof -
  let ?vm = "vmem_base_addr s" and ?k = "machine s"
  let ?u = "put_user ?vm (le_bytes VIDM_ADDR) ?k"
  obtain p where p: "ece391_vidmap w ?vm ?k = Some (0, ?u\<lparr>pg := p\<rparr>)" "on_show (?u\<lparr>pg := p\<rparr>)" "vid_page VIDEO p"
    using vidmap_shows [OF assms(1-3)] by blast
  have room: "user_room ?vm (length (le_bytes VIDM_ADDR))" using assms(2) by (simp add: length_le_bytes)
  have "emits (array_at (current ?k) ?vm 4) [] ?k ?u" by (rule put_user_emits [OF assms(1) room]) (simp add: length_le_bytes)
  moreover have b: "user_bytes (?u\<lparr>pg := p\<rparr>) ?vm (le_bytes VIDM_ADDR)"
    using put_user_bytes [OF room, of ?k] by simp
  have "mapped VIDEO (s\<lparr>machine := ?u\<lparr>pg := p\<rparr>\<rparr>)" using p b by (simp add: mapped_def)
  then have "holds VIDEO (s\<lparr>machine := ?u\<lparr>pg := p\<rparr>\<rparr>) []" using no_blinkers assms(4,5) by simp
  moreover have "rd32 (uview (?u\<lparr>pg := p\<rparr>)) ?vm = Some VIDM_ADDR"
    using user_bytes_uview [OF p(2) b, of 0] user_bytes_uview [OF p(2) b, of 1] user_bytes_uview [OF p(2) b, of 2]
      user_bytes_uview [OF p(2) b, of 3]
    by (simp add: rd32_def le32_le_bytes length_le_bytes del: One_nat_def)
  then have "mp1_set_video_mode w s = Some (VIDM_ADDR, s\<lparr>machine := ?u\<lparr>pg := p\<rparr>\<rparr>)"
    using p(1) by (simp add: mp1_set_video_mode_def on_machine_def)
  ultimately show ?thesis by (intro exI [of _ "?u\<lparr>pg := p\<rparr>"] exI [of _ ?u]) simp
qed

lemma emits_frame_file:
  assumes "emits A [] k l" and "frame_file (current k) v k ds a nm bytes" and "array_at (current k) a (Suc (length nm)) \<inter> A = {}"
  shows "frame_file (current k) v l ds a nm bytes"
proof -
  have "user_string l a (bytes_of nm)" using emits_string [OF assms(1)] assms(2,3) by (simp add: frame_file_def)
  then show ?thesis using assms(2) emitsD(7,8) [OF assms(1)] by (simp add: frame_file_def named_file_def)
qed

lemma set_clock_data:
  "user_bytes (set_clock c k) a bs = user_bytes k a bs" "pg (set_clock c k) = pg k"
  "frame_file pid v (set_clock c k) ds a txts bytes = frame_file pid v k ds a txts bytes"
proof -
  show b: "user_bytes (set_clock c k) a bs = user_bytes k a bs" for a bs by (simp add: user_bytes_def)
  show "pg (set_clock c k) = pg k" by (simp add: set_clock_def with_rtc_def)
  show "frame_file pid v (set_clock c k) ds a txts bytes = frame_file pid v k ds a txts bytes"
    by (simp add: frame_file_def named_file_def user_string_def b)
qed

lemma name_length: "Suc (length ''frame0.txt'') = 11" "Suc (length ''frame1.txt'') = 11"
  by simp_all

lemma fish_main_plays:
  defines "pid s \<equiv> current (machine s)"
  assumes "on_show (machine s)" and "frames_ok w" and "only_clock w" and "mp1_list_head s = None"
    and "fish_room v (vmem_base_addr s)" and "fish_apart (pid s) v (vmem_base_addr s)"
    and "fish_files w (pid s) v (vmem_base_addr s) (machine s) ds bytes0 bytes1"
    and "\<forall>b \<in> set (frame_blinkers fb bytes0 bytes1). location b \<noteq> 0"
  shows "\<exists>t rs bs cs. fish_main w v b fb s = Some (0, t) \<and> spec_run (fish_ops b fb bytes0 bytes1) [] = (rs, bs, cs) \<and>
    holds VIDEO t bs \<and> (\<forall>off < 4000. mem (machine t) (VIDEO + off) = draw VIDEO cs (mem (machine s)) (VIDEO + off))"
proof -
  let ?vm = "vmem_base_addr s" and ?k = "machine s" and ?pid = "current (machine s)"
  define s0 where "s0 = s\<lparr>blink_array := replicate 2000 blank_blinker\<rparr>"
  have s0: "machine s0 = ?k" "vmem_base_addr s0 = ?vm" "mp1_list_head s0 = None" "blink_array s0 = replicate 2000 blank_blinker"
    using assms(5) by (simp_all add: s0_def)
  note room = assms(6) [unfolded fish_room_def] and apart = assms(7) [unfolded fish_apart_def pid_def]
    and files = assms(8) [unfolded fish_files_def pid_def]
  obtain k u where k: "mp1_set_video_mode w s0 = Some (VIDM_ADDR, s0\<lparr>machine := k\<rparr>)" "holds VIDEO (s0\<lparr>machine := k\<rparr>) []"
    "emits (array_at ?pid ?vm 4) [] ?k u" "k = u\<lparr>pg := pg k\<rparr>" "cur_fd u = cur_fd ?k"
    using mp1_set_video_mode_maps [of s0 w] assms(2) room s0 by auto
  obtain p where ku: "k = u\<lparr>pg := p\<rparr>" using k(4) by blast
  have onk: "on_show k" using k(2) by (simp add: holds_def mapped_def)
  have cur: "current u = ?pid" "current k = ?pid" using emitsD(4) [OF k(3)] by (simp_all add: ku)
  obtain ec where ec: "clock_entry ?k ds ec" using files by blast
  have "clock_entry u ds ec" using ec emitsD(7,8) [OF k(3)] by (simp add: clock_entry_def)
  then have entry: "clock_entry k ds ec" by (simp add: ku)
  have "literals w (array_at ?pid ?vm 4) [''rtc''] u" by (rule literals_emits [OF k(3)]) (use files in simp)
  then have lit: "user_string k (lit w ''rtc'') (bytes_of ''rtc'')" by (simp add: ku literals_def)
  have ff: "frame_file ?pid v k ds (file0_at v) ''frame0.txt'' bytes0" "frame_file ?pid v k ds (file1_at v) ''frame1.txt'' bytes1"
    using emits_frame_file [OF k(3), of v ds "file0_at v" "''frame0.txt''" bytes0]
      emits_frame_file [OF k(3), of v ds "file1_at v" "''frame1.txt''" bytes1] files apart
    unfolding name_length ku pg_fields by blast+
  have fd: "cur_fd k = cur_fd ?k" using k(5) by (simp add: ku)
  have absent: "fd_flags (cur_fd k i) = FD_ABSENT" if "i \<in> {2..<8}" for i using files fd that by simp
  have free: "free_fd k = Some 2" using absent [of 2] by (simp add: free_fd_def)
  obtain t c where t: "ece391_open w (lit w ''rtc'') k = Some (int 2, t)" "on_show t" "open_clock t 2"
    "cur_fd t = cur_fd (put_fd 2 (fresh_fd ec) k)" "emits {} [] (set_clock c k) t"
    using open_clock_call [OF onk lit assms(3) entry free, of "{}"] by blast
  have fdt: "cur_fd t i = cur_fd k i" if "i < 8" "i \<noteq> 2" for i
    using put_fd(4) [OF on_show_running [OF onk], of "fresh_fd ec" i 2] t(4) that by (simp add: fresh_fd_def)
  let ?s1 = "s0\<lparr>machine := set_clock c k\<rparr>" and ?s2 = "s0\<lparr>machine := t\<rparr>"
  have h1: "holds VIDEO ?s1 []"
    using k(2) set_clock_on_show [OF onk] by (simp add: holds_def mapped_def linked_def set_clock_data)
  have "paints {} {2} [] (set_clock c k) t" by (rule paints_emits [OF t(5)]) (use fdt in simp)
  then have p1: "plays {} {2} [] ?s1 [] ?s2 []" using plays_kernel [OF h1] by fastforce
  have f1: "framing ?pid v ?vm ?s1 []" using h1 s0 cur(2) by (simp add: framing_def)
  note f2 = plays_framing [OF p1 f1]
  have ff1: "frame_file ?pid v (machine ?s1) ds (file0_at v) ''frame0.txt'' bytes0" "frame_file ?pid v (machine ?s1) ds (file1_at v) ''frame1.txt'' bytes1"
    using ff by (simp_all add: set_clock_data)
  note ff2 = plays_frame_file [OF p1 f1 ff1(1)] plays_frame_file [OF p1 f1 ff1(2)]
  have "fd_flags (cur_fd t 2) = FD_EXISTS" using t(3) by (simp add: open_clock_def)
  then have free2: "free_fd (machine ?s2) = Some 3" using absent [of 3] fdt [of 3] by (simp add: free_fd_def)
  have four: "fd_flags (cur_fd (machine ?s2) 4) = FD_ABSENT" using absent [of 4] fdt [of 4] by simp
  have fa: "frames_apart ?pid v ?vm" using apart by simp
  obtain s3 bs3 where s3: "add_frames w v fb ?s2 = Some s3"
    "plays (frame_bytes ?pid v) {3, 4} (map Add (frame_blinkers fb bytes0 bytes1)) ?s2 [] s3 bs3"
    using add_frames_play [OF f2 fa assms(3) _ _ ff2 free2 four, of fb] room assms(9) unfolding frame_blinkers_def by auto
  note f3 = plays_framing [OF s3(2) f2]
  have o3: "open_clock (machine s3) 2" by (rule plays_clock [OF s3(2)]) (use t(3) in simp_all)
  obtain s4 where s4: "set_frequency w v (int 2) s3 = Some s4"
    "plays (array_at ?pid (ret_val_at v) 4) {} [] s3 bs3 s4 bs3"
    using frequency_play [OF f3 o3, of w] room apart by blast
  note f4 = plays_framing [OF s4(2) f3]
  have o4: "open_clock (machine s4) 2" by (rule plays_clock [OF s4(2) _ o3]) simp
  have gr: "user_room (garbage_at v) 4" using room by simp
  let ?loop = "replicate 100 Tick @ [Add (fish_blinker b)] @ replicate 100 Tick @ [Sync 0x28021C] @ replicate 100 Tick @ [Remove 540] @ replicate 100 Tick"
  obtain s5 bs5 where s5: "do { s \<leftarrow> hundred_ticks w v (int 2) s4;
      (_, _, s) \<leftarrow> mp1_ioctl (Struct (fish_blinker b)) 0 s; s \<leftarrow> hundred_ticks w v (int 2) s;
      (_, _, s) \<leftarrow> mp1_ioctl (Number 0x28021C) 3 s; s \<leftarrow> hundred_ticks w v (int 2) s;
      (_, _, s) \<leftarrow> mp1_ioctl (Number 540) 1 s; hundred_ticks w v (int 2) s } = Some s5"
    "plays {} {} ?loop s4 bs3 s5 bs5"
    using main_loops [OF f4 o4 assms(4) gr, of b] by (elim exE conjE) (rule that)
  have o5: "open_clock (machine s5) 2" by (rule plays_clock [OF s5(2) _ o4]) simp
  note f5 = plays_framing [OF s5(2) f4]
  obtain l where l: "ece391_close w (int 2) (machine s5) = Some (0, l)" "on_show l" "current l = current (machine s5)"
    "pg l = pg (machine s5)" "mem l = mem (machine s5)"
    using close_clock_call [OF framing_on_show [OF f5] o5] by blast
  let ?t = "s5\<lparr>machine := l\<rparr>" and ?A = "UNIV :: nat set"
  have all: "plays ?A {2, 3, 4} (fish_ops b fb bytes0 bytes1) ?s1 [] s5 bs5"
    using plays_trans [OF plays_mono [OF p1] plays_trans [OF plays_mono [OF s3(2)] plays_trans [OF plays_mono [OF s4(2)] plays_mono [OF s5(2)]]],
        of ?A "{2, 3, 4}"]
    by (simp add: fish_ops_def)
  obtain y1 r2 a2 y2 y3 r4 a4 y4 y5 r6 a6 y6 where loops: "hundred_ticks w v (int 2) s4 = Some y1"
    "mp1_ioctl (Struct (fish_blinker b)) 0 y1 = Some (r2, a2, y2)" "hundred_ticks w v (int 2) y2 = Some y3"
    "mp1_ioctl (Number 0x28021C) 3 y3 = Some (r4, a4, y4)" "hundred_ticks w v (int 2) y4 = Some y5"
    "mp1_ioctl (Number 540) 1 y5 = Some (r6, a6, y6)" "hundred_ticks w v (int 2) y6 = Some s5"
    using s5(1) by (auto simp: bind_eq_Some_conv)
  have main: "fish_main w v b fb s = Some (0, ?t)"
    using k(1) t(1) s3(1) s4(1) loops l(1) s0(2)
    by (simp add: fish_main_def Let_def on_machine_def s0_def fish_blinker_def)
  have "user_bytes l a xs = user_bytes (machine s5) a xs" for a xs using l(3,5) by (simp add: user_bytes_def)
  moreover have "holds VIDEO s5 bs5" using f5 by (simp add: framing_def)
  ultimately have "holds VIDEO ?t bs5" using l(2,4) by (simp add: holds_def mapped_def linked_def)
  moreover obtain rs cs where "spec_run (fish_ops b fb bytes0 bytes1) [] = (rs, bs5, cs)" "paints ?A {2, 3, 4} cs (set_clock c k) (machine s5)"
    using all by (auto simp: plays_def)
  moreover have "mem k (VIDEO + off) = mem ?k (VIDEO + off)" if "off < 4000" for off
    using screen_cells [of u ?k off] emitsD(3) [OF k(3)] that by (simp add: ku typed_def)
  ultimately show ?thesis
    using main l(5) draw_agrees [of "mem k" VIDEO _ "mem ?k"] by (auto simp: paints_def)
qed

subsection \<open>Properties\<close>

text \<open>C33. \<open>fish\<close>: on the terminal on display, with its two files and the clock in the directory and while only clock
  interrupts arrive, the program runs to its end and returns 0. What it has done to the driver is one
  sequence of operations: for every place where one of the two pictures has a character it adds a blinker
  that alternates between the two characters (a blank where a row or a file has ended) at 40 columns from
  the left; then come four times 100 ticks, between which it adds the blinker of its own at location 540,
  synchronises it with the first character and removes the newest blinker there again. The linked list
  is that of the specification (see \<open>blink_driver_refines\<close>), and the screen is the one before with exactly
  these drawings.\<close>

theorem fish_draws_pictures:
  assumes "on_show (machine s)" and "frames_ok w" and "only_clock w" and "mp1_list_head s = None"
    and "fish_room v (vmem_base_addr s)" and "fish_apart (current (machine s)) v (vmem_base_addr s)"
    and "fish_files w (current (machine s)) v (vmem_base_addr s) (machine s) ds bytes0 bytes1"
    and "\<forall>b \<in> set (frame_blinkers fb bytes0 bytes1). location b \<noteq> 0"
  shows "\<exists>t rs bs cs. fish_main w v b fb s = Some (0, t) \<and> spec_run (fish_ops b fb bytes0 bytes1) [] = (rs, bs, cs) \<and>
    holds VIDEO t bs \<and> (\<forall>off < 4000. mem (machine t) (VIDEO + off) = draw VIDEO cs (mem (machine s)) (VIDEO + off))"
  by (rule fish_main_plays [OF assms])

text \<open>A machine with the clock and the two files, which have the same text.\<close>

abbreviation fish_texts :: "string list" where
  "fish_texts \<equiv> [''rtc'', ''frame0.txt'', ''frame1.txt'']"

definition fish_dir :: "dentry list" where
  "fish_dir = [\<lparr>file_name = bytes_of ''rtc'' @ replicate 29 0, file_type = 0, inode_num = 0, reserved = replicate 24 0\<rparr>,
     \<lparr>file_name = bytes_of ''frame0.txt'' @ replicate 22 0, file_type = 2, inode_num = 0, reserved = replicate 24 0\<rparr>,
     \<lparr>file_name = bytes_of ''frame1.txt'' @ replicate 22 0, file_type = 2, inode_num = 0, reserved = replicate 24 0\<rparr>]"

definition fish_machine :: kst where
  "fish_machine = (sample_program [] fish_texts)\<lparr>fs := image_fs\<lparr>num_dentries := 3\<rparr>,
     mem := poke 0x400040 (concat (map dentry_bytes fish_dir)) (mem (sample_program [] fish_texts))\<rparr>"

definition fish_world :: world where
  "fish_world = (sample_world fish_texts)\<lparr>waits := (\<lambda>_. rtc_handler (\<lambda>_ _. 0))\<rparr>"

definition sample_vars :: fish_vars where
  "sample_vars = \<lparr>file0_at = lit fish_world ''frame0.txt'', file1_at = lit fish_world ''frame1.txt'', c0_at = 0x8048000, c1_at = 0x8048010,
     ret_val_at = 0x8048020, garbage_at = 0x8048030\<rparr>"

lemma fish_image:
  "fs_image fish_machine a = (if 0x400040 \<le> a \<and> a < 0x400100 then Some (concat (map dentry_bytes fish_dir) ! (a - 0x400040))
     else fs_image reading_kernel a)"
proof -
  have small: "length ([] :: u8 list) < 128" "length (literal_image fish_texts) \<le> 0x10000" by (simp_all add: literal_image_def)
  have "length (concat (map dentry_bytes fish_dir)) = 192" by (simp add: fish_dir_def dentry_bytes_def length_le_bytes)
  then show ?thesis
    unfolding sample_program(5) [OF small, symmetric] by (auto simp: fish_machine_def fs_image_def poke_def)
qed

lemma load_dentry_bytes:
  assumes "length (file_name d) = 32" and "length (reserved d) = 24" and "\<And>i. i < 64 \<Longrightarrow> v (a + i) = Some (dentry_bytes d ! i)"
  shows "load_dentry v a = Some d"
proof -
  have le: "length (le_bytes x) = 4" for x by (rule length_le_bytes)
  have nm: "rd_bytes v a 32 = Some (file_name d)"
    using rd_bytes_eqI [of "file_name d" v a] assms(1,3) by (simp add: dentry_bytes_def nth_append)
  have t: "v (a + (32 + i)) = Some (le_bytes (file_type d) ! i)" "v (a + (36 + i)) = Some (le_bytes (inode_num d) ! i)" if "i < 4" for i
    using assms(1) assms(3) [of "32 + i"] assms(3) [of "36 + i"] that by (simp_all add: dentry_bytes_def nth_append le)
  have r: "rd_bytes v (a + 40) 24 = Some (reserved d)"
  proof -
    have "v (a + 40 + i) = Some (reserved d ! i)" if "i < length (reserved d)" for i
      using assms(1,2) assms(3) [of "40 + i"] that by (simp add: dentry_bytes_def nth_append le add.assoc)
    then show ?thesis using rd_bytes_eqI [of "reserved d" v "a + 40"] assms(2) by simp
  qed
  have "rd32 v (a + 32) = Some (file_type d)" "rd32 v (a + 36) = Some (inode_num d)"
    using t [of 0] t [of 1] t [of 2] t [of 3] by (simp_all add: rd32_def le32_le_bytes ac_simps del: One_nat_def)
  then show ?thesis using nm r by (simp add: load_dentry_def del: rd_bytes_numeral)
qed

lemma concat_nth_equal:
  "\<forall>xs \<in> set xss. length xs = n \<Longrightarrow> k < length xss \<Longrightarrow> i < n \<Longrightarrow> concat xss ! (n * k + i) = xss ! k ! i"
proof (induction xss arbitrary: k)
  case Nil
  then show ?case by simp
next
  case (Cons xs xss)
  then show ?case by (cases k) (auto simp: nth_append algebra_simps)
qed

lemma fish_dir_facts: "d \<in> set fish_dir \<Longrightarrow> length (file_name d) = 32 \<and> length (reserved d) = 24" "length fish_dir = 3"
  by (auto simp: fish_dir_def)

lemma fish_dir_ok: "dir_ok (fs_image fish_machine) (fs fish_machine) fish_dir"
proof -
  have "load_dentry (fs_image fish_machine) (dentry_addr (fs fish_machine) k) = Some (fish_dir ! k)" if k: "k < 3" for k
  proof (rule load_dentry_bytes)
    have d: "fish_dir ! k \<in> set fish_dir" using k fish_dir_facts(2) by simp
    then show "length (file_name (fish_dir ! k)) = 32" "length (reserved (fish_dir ! k)) = 24" using fish_dir_facts(1) by blast+
    fix i :: nat assume i: "i < 64"
    have "\<forall>xs \<in> set (map dentry_bytes fish_dir). length xs = 64"
      using fish_dir_facts(1) by (auto simp: dentry_bytes_def length_le_bytes)
    then have "concat (map dentry_bytes fish_dir) ! (64 * k + i) = dentry_bytes (fish_dir ! k) ! i"
      using concat_nth_equal [of "map dentry_bytes fish_dir" 64 k i] k i fish_dir_facts(2) by simp
    moreover have "dentry_addr (fs fish_machine) k + i = 0x400040 + (64 * k + i)"
      by (simp add: dentry_addr_def fish_machine_def image_fs_def)
    ultimately show "fs_image fish_machine (dentry_addr (fs fish_machine) k + i) = Some (dentry_bytes (fish_dir ! k) ! i)"
      using k i by (simp only: fish_image) simp
  qed
  moreover have "num_dentries (fs fish_machine) = 3" by (simp add: fish_machine_def)
  ultimately show ?thesis by (simp add: dir_ok_def fish_dir_facts(2))
qed

lemma fish_file:
  "named_file fish_machine fish_dir (bytes_of ''frame0.txt'') (fish_dir ! 1) (bytes_of ''Hello'')"
  "named_file fish_machine fish_dir (bytes_of ''frame1.txt'') (fish_dir ! 2) (bytes_of ''Hello'')"
  "clock_entry fish_machine fish_dir (fish_dir ! 0)"
proof -
  have "fs fish_machine = image_fs\<lparr>num_dentries := 3\<rparr>" by (simp add: fish_machine_def)
  then have "file_ok (fs_image fish_machine) (fs fish_machine) 0 (bytes_of ''Hello'')"
    by (auto simp: file_ok_def inode_length_def inode_data_def inode_addr_def data_addr_def rd32_def
        le32_def reading_kernel_image sample_image_def image_fs_def fish_image)
  then show "named_file fish_machine fish_dir (bytes_of ''frame0.txt'') (fish_dir ! 1) (bytes_of ''Hello'')"
    "named_file fish_machine fish_dir (bytes_of ''frame1.txt'') (fish_dir ! 2) (bytes_of ''Hello'')"
    "clock_entry fish_machine fish_dir (fish_dir ! 0)"
    using fish_dir_ok by (simp_all add: named_file_def clock_entry_def) (simp_all add: fish_dir_def dentry_name_def bytes_of_def)
qed

definition sample_start :: fish where
  "sample_start = \<lparr>blink_array = replicate 2000 blank_blinker, mp1_list_head = None, vmem_base_addr = 0x8048100, machine = fish_machine\<rparr>"

lemma fish_machine:
  "on_show fish_machine" "current fish_machine = 3"
  "fish_files fish_world 3 sample_vars 0x8048100 fish_machine fish_dir (bytes_of ''Hello'') (bytes_of ''Hello'')"
proof -
  let ?p = "sample_program [] fish_texts"
  have small: "length ([] :: u8 list) < 128" "length (literal_image fish_texts) \<le> 0x10000" by (simp_all add: literal_image_def)
  note p = sample_program [OF small]
  show cur: "current fish_machine = 3" using p(2) by (simp add: fish_machine_def current_def)
  have fd: "cur_fd fish_machine = cur_fd ?p" by (simp add: fish_machine_def cur_fd_def current_def fun_eq_iff)
  show "on_show fish_machine"
    using child_on_show [OF p(1)] fd cur p(2) unfolding on_show_def running_def kernel_ok_def screen_ok_def
    by (auto simp: fish_machine_def)
  have absent: "\<forall>i \<in> {2..<8}. fd_flags (cur_fd fish_machine i) = FD_ABSENT"
    using sample_child(8) [OF small(1)] p(2,10) unfolding fd by (auto simp: cur_fd_def booted_pb_def nth_append blank_fd_def)
  have len: "length (concat (map dentry_bytes fish_dir)) = 192" by (simp add: fish_dir_def dentry_bytes_def length_le_bytes)
  have bytes: "user_bytes fish_machine a bs \<longleftrightarrow> user_bytes ?p a bs" for a bs
    unfolding user_bytes_def cur p(2) by (simp add: fish_machine_def poke_def len user_frame_def)
  have A: "\<forall>a \<in> frame_bytes 3 sample_vars \<union> array_at 3 0x8048100 4. a < user_frame 3 LITERALS"
    by (auto simp: frame_bytes_def sample_vars_def array_at_def user_frame_def)
  have "literals (sample_world fish_texts) (frame_bytes 3 sample_vars \<union> array_at 3 0x8048100 4) fish_texts ?p"
    by (rule sample_literals [OF small A]) (auto simp: bytes_of_def)
  then have l: "literals fish_world (frame_bytes 3 sample_vars \<union> array_at 3 0x8048100 4) fish_texts fish_machine"
    by (simp add: literals_def user_string_def fish_world_def cur p(2) bytes)
  then have "literals fish_world (array_at 3 0x8048100 4) [''rtc''] fish_machine" by (auto simp: literals_def)
  moreover have "frame_file 3 sample_vars fish_machine fish_dir (file0_at sample_vars) ''frame0.txt'' (bytes_of ''Hello'')"
    "frame_file 3 sample_vars fish_machine fish_dir (file1_at sample_vars) ''frame1.txt'' (bytes_of ''Hello'')"
    using l fish_file cur unfolding frame_file_def literals_def by (auto simp: sample_vars_def)
  ultimately show "fish_files fish_world 3 sample_vars 0x8048100 fish_machine fish_dir (bytes_of ''Hello'') (bytes_of ''Hello'')"
    using fish_file(3) absent unfolding fish_files_def by blast
qed

lemma sample_frames:
  "frame_blinkers fb (bytes_of ''Hello'') (bytes_of ''Hello'') =
     map (\<lambda>(c, l). fb\<lparr>on_length := 15, off_length := 15, on_char := c, off_char := c, location := l\<rparr>)
       [(0x48, 40), (0x65, 41), (0x6C, 42), (0x6C, 43), (0x6F, 44)]"
  by (simp add: frame_blinkers_def picture.simps row_blinkers_def row_of_def rest_of_def bytes_of_def cell_blinker_def shown_char_def)

theorem fish_draws_pictures_witness:
  "\<exists>t rs bs cs. fish_main fish_world sample_vars blank_blinker blank_blinker sample_start = Some (0, t) \<and>
    spec_run (fish_ops blank_blinker blank_blinker (bytes_of ''Hello'') (bytes_of ''Hello'')) [] = (rs, bs, cs) \<and>
    holds VIDEO t bs \<and> (\<forall>off < 4000. mem (machine t) (VIDEO + off) = draw VIDEO cs (mem fish_machine) (VIDEO + off))"
proof -
  have s: "machine sample_start = fish_machine" "mp1_list_head sample_start = None" "vmem_base_addr sample_start = 0x8048100"
    by (simp_all add: sample_start_def)
  have "only_clock fish_world" by (auto simp: only_clock_def fish_world_def)
  moreover have "frames_ok fish_world" using sample_world_frames by (simp add: frames_ok_def fish_world_def)
  moreover have "fish_room sample_vars 0x8048100" by (simp add: fish_room_def sample_vars_def user_room_def)
  moreover have "fish_apart 3 sample_vars 0x8048100"
    by (auto simp: fish_apart_def frames_apart_def frame_bytes_def sample_vars_def array_at_def user_frame_def fish_world_def sample_world_def
        literal_offset_def literal_image_def)
  moreover have "\<forall>b \<in> set (frame_blinkers blank_blinker (bytes_of ''Hello'') (bytes_of ''Hello'')). location b \<noteq> 0"
    unfolding sample_frames by simp
  ultimately show ?thesis
    using fish_draws_pictures [where s = sample_start and w = fish_world and v = sample_vars and ds = fish_dir and
        ?bytes0.0 = "bytes_of ''Hello''" and ?bytes1.0 = "bytes_of ''Hello''" and fb = blank_blinker and b = blank_blinker] fish_machine
    unfolding s by simp
qed

end
