(* ===== verification/Spec2Isabelle.thy ===== *)
theory Spec2Isabelle
  imports Boot User_Session User_Syserr User_Counter User_Pingpong User_Grep_Files Fish_Main
begin

text \<open>
  A verification library for the \<^verbatim>\<open>anirux\<close> kernel, the C and assembly sources under
  \<^verbatim>\<open>src/student-distrib\<close>: an x86 kernel with three terminals, a round-robin scheduler, up to six
  processes, a read-only file system in memory, and the system calls \<open>halt\<close>, \<open>execute\<close>, \<open>read\<close>,
  \<open>write\<close>, \<open>open\<close>, \<open>close\<close>, \<open>getargs\<close> and \<open>vidmap\<close>; and for the programs that run on it, under
  \<^verbatim>\<open>src/syscalls\<close> and \<^verbatim>\<open>src/fish\<close>.

  \<^bold>\<open>How the parts interact.\<close> \<open>entry\<close> initialises every part and goes to sleep. The timer
  (\<open>sched_handler\<close>) moves from terminal to terminal and starts a shell in each; the keyboard edits
  the line of the terminal on display and switches terminals; the RTC counts ticks for its clients.
  A program enters the kernel through \<open>syscall\<close>; \<open>execute\<close> reads a program from the file system into
  the 4 MB page of a new process and enters it, \<open>halt\<close> gives page, kernel stack and terminal back to
  the parent. Reading the terminal or the RTC waits for an interrupt. An exception ends the program.
  All of them print through \<open>putc\<close>, to the screen or to the saved screen of a hidden terminal.

  \<^bold>\<open>Which theory models what\<close> (each definition has the name of the C function).
  \<^item> Prelude: arrays, loops, tables of slots, waiting loops. Memory: bytes behind an address
    translation.
  \<^item> Lib_String, Lib_Number, Lib_Mem, Printf, Console: \<^verbatim>\<open>lib.c\<close>. Filesystem: the image and its three
    routines (\<^verbatim>\<open>filesystem.c\<close>). Interrupt_Controller: \<^verbatim>\<open>i8259.c\<close>. Paging: \<^verbatim>\<open>paging.c\<close> and the walk of
    the processor over the tables.
  \<^item> Kernel_State: the record \<open>kst\<close> of the kernel's variables, one field per C variable, and its
    invariant \<open>kernel_ok\<close>. Terminal: \<^verbatim>\<open>terminal.c\<close>. Rtc: \<^verbatim>\<open>rtc_handler.c\<close>. Keyboard:
    \<^verbatim>\<open>keyboard_handler.c\<close>. Process: \<^verbatim>\<open>PCB.c\<close>. File_Ops: the operations on open files.
  \<^item> Syscall: \<^verbatim>\<open>syscall.c\<close> and the dispatch of \<^verbatim>\<open>as_wrapper.S\<close>. Syscall_Files, Command, Execute,
    Programs and Vidmap hold what the calls guarantee. Scheduler: \<^verbatim>\<open>scheduler.c\<close>. Idt: \<^verbatim>\<open>set_idt.c\<close>.
  \<^item> Keeps: what every step preserves. Handled: which events are handled without a fault. Invariant:
    the kernel as a transition system (\<open>reaches\<close>). Boot: \<^verbatim>\<open>kernel.c\<close> and the
    segment descriptors of \<^verbatim>\<open>x86_desc.h\<close>.

  \<^item> User_Lib: the routines of \<^verbatim>\<open>ece391support.c\<close>. User_Calls: the wrappers of the system calls
    (\<^verbatim>\<open>ece391syscall.S\<close>), \<open>ece391_fdputs\<close>, and data in the page of a program. User_Output: how the
    steps of a program compose (\<open>emits\<close>) and what it leaves (\<open>leaves\<close>). User_Arrays: the library
    routines on arrays of a program. Clock_Time: the number of clock interrupts so far, and what takes
    none. User_Clock: opening the clock, setting it and waiting for a tick, with the exact number of
    interrupts (\<open>paced\<close>).
  \<^item> User_Programs: \<open>cat\<close> and \<open>ls\<close>. User_Grep, User_Grep_Files: \<open>grep\<close>. User_Shell: \<open>hello\<close>, \<open>testprint\<close>
    and the shell. User_Counter: \<open>counter\<close>. User_Pingpong: \<open>pingpong\<close>, round by round. User_Syserr:
    \<open>syserr\<close>. User_Session: a shell that runs programs. User_Instances, Shell_Instances: machines with such programs, for the witnesses.
  \<^item> Blink, Blink_Ops, Blink_Time: the blinking characters of \<open>fish\<close> (\<^verbatim>\<open>blink.S\<close> and the allocation in
    \<^verbatim>\<open>fish.c\<close>), a linked list of structures in an array. Fish_Program, Fish_Rows,
    Fish_Main: the rest of \<^verbatim>\<open>fish.c\<close>, its \<open>main\<close> and the two pictures it reads.

  \<^bold>\<open>Conventions.\<close> A computation is a function to \<open>option\<close>; \<open>None\<close> is a fault: an access outside an
  array or to an address that is not mapped. A \<open>-1\<close> the code returns is a value. Words are kept at
  their width; the \<open>int\<close> variables that never leave a small range are integers. The arrays
  \<open>tmnl_block\<close> and \<open>pcb\<close> are indexed with -1 while the kernel boots, so the records before them are
  fields of the state. Where control goes after a call is a value of type \<open>control\<close>: back to the
  caller, to user level, to the \<open>execute\<close> that waits for a program, or to another kernel stack.
  What a function's uninitialised local variables hold is an argument (\<open>frame\<close>, \<open>stack_desc\<close>), as are
  the registers a context switch saves, and what a device answers (\<open>inb\<close>, a function of the bytes
  written to ports so far). For a user program the record \<open>world\<close> holds what its source does not say:
  what happens while a call waits (\<open>waits\<close>), the local variables of the calls (\<open>frames\<close>), where its
  string literals lie (\<open>lit\<close>), and how it goes on when a call has left it for another program
  (\<open>goes_on\<close>). The hypotheses on it are \<open>types_line\<close> (the user types this line while the call waits),
  \<open>literals\<close> (the literals are in memory, apart from the arrays of the program) \<open>runs_as\<close> (the
  program that \<open>execute\<close> has entered behaves as its source does) and \<open>only_clock\<close> (clock interrupts, and
  no others, arrive while a call waits). The hypothesis \<open>mask_readback\<close> is documented behaviour of the 8259: its
  mask register reads as it was last written.

  \<^bold>\<open>Loops.\<close> Loops with a bound recurse with a termination measure. The loops that wait for an
  interrupt, and those over C strings and the boot loader's lists, are \<open>partial_function (option)\<close>, so
  that not returning is \<open>None\<close>; that they return is proved (\<open>terminal_read_delivers\<close>,
  \<open>rtc_read_returns\<close>, \<open>printf_eq_render\<close>, \<open>boot_reaches_shells\<close>). What happens during a wait is the
  argument \<open>env\<close>, one step of the rest of the system per turn of the loop.

  \<^bold>\<open>What the lemmas show.\<close>
  \<^item> Routines against their specification: the block routines against bytewise copies, \<open>printf\<close>
    against the text of its format, \<open>putc\<close> against a grid of characters, the keyboard against a line
    editor, the file system against the contents of its files.
  \<^item> The page tables (\<open>paging_inv\<close>): established by \<open>init_paging\<close>, kept by every change, and isolating
    the programs from the kernel and from each other.
  \<^item> The life of a process: a command line becomes a program with its argument at user level, whose
    \<open>halt\<close> brings its parent back where it was; descriptors are handed out and freed; the timer saves
    and restores what it interrupts, and every terminal gets its turn.
  \<^item> The whole kernel: from the state the boot loader leaves, \<open>entry\<close> and three ticks reach a state of
    the invariant \<open>alive\<close> (\<open>boot_reaches_shells\<close>); no sequence of interrupts, exceptions, user stores and
    calls that return leaves it or changes the file system image, provided that the buffers of \<open>read\<close> and
    \<open>getargs\<close> are above the kernel (\<open>user_pointers\<close>; without that \<open>getargs_overwrites_kernel\<close>). In such a state
    the clock, the timer, the exceptions, \<open>halt\<close> and \<open>close\<close> never fault, and the keyboard does in exactly
    two cases, \<open>key_overruns\<close> (\<open>kernel_invariant\<close>). A call that faults in the kernel (on a pointer that is
    not mapped, or \<open>execute\<close> with a name of 128 characters, \<open>long_name_overruns\<close>) has no successor in
    this transition system: nothing is said of what the machine does afterwards.
  \<^item> Programs on the kernel: what appears on the screen when \<open>cat\<close>, \<open>ls\<close>, \<open>grep\<close>, \<open>counter\<close>, \<open>pingpong\<close> and
    \<open>syserr\<close> run, from their sources through the calls, the file system and the console, with the state they
    leave to their parent; how many clock interrupts \<open>pingpong\<close> takes for its pictures; and a session: the shell reads a line, \<open>execute\<close> loads and enters the
    program, the program prints and ends, and the shell waits for the next line (\<open>shell_runs_cat\<close>,
    \<open>shell_unknown_command\<close>).
  \<^item> The blinking characters: any sequence of routines on the linked list does what it does on a list of
    blinkers and draws what that says (\<open>blink_driver_refines\<close>); which character a blinker shows after
    \<open>n\<close> ticks (\<open>blinker_blinks\<close>); which blinkers \<open>fish\<close> makes of its files (\<open>picture\<close>) and what its whole
    run leaves on the screen (\<open>fish_draws_pictures\<close>).
  \<^item> Behaviour that differs from what a comment or a caller expects: theorems such as
    \<open>create_pages_overrun\<close>, \<open>halt_closes_parent_files\<close>, \<open>enter_overruns_buffer\<close>,
    \<open>getargs_overwrites_kernel\<close>, \<open>long_name_overruns\<close>, \<open>background_skips_column\<close>, \<open>shift_repeat_sticks\<close>, \<open>syscall_numbers\<close>.

  \<^bold>\<open>Interfaces\<close> are locales, each interpreted on the model: \<open>byte_store\<close> (memory through the page
  tables and arrays of the kernel stack), \<open>copy_access\<close> and \<open>image_access\<close> (what the string and file
  routines read and write through), \<open>slot_table\<close> (the process table and the descriptor tables),
  \<open>printer\<close> (the console of the running and of the booting kernel), \<open>step_relation\<close> (what loops and
  \<open>printf\<close> preserve: the invariant, the file system image, the time).

  \<^bold>\<open>Not modelled.\<close> Saving and restoring registers in the assembly wrappers and \<^verbatim>\<open>boot.S\<close> (no state of
  the model); time and caches (the code reloads CR3 where a stale translation could be used); an interrupt
  between two steps of a handler (handlers run with interrupts off; a waiting call is interrupted at
  every turn of its loop) or of a program; the translation of a user program to machine code
  (\<open>runs_as\<close>); the routines of \<^verbatim>\<open>tests.c\<close>, which nothing calls; the program \<open>sigtest\<close>, which needs
  signals; the emulation of the system calls on a Linux host.
\<close>

end
